(* ===== verification/Prelude.thy ===== *)
theory Prelude
  imports Main "HOL-Library.Word" "HOL-Library.Multiset" "HOL-Library.AList"
    "HOL-Library.Signed_Division"
begin

text \<open>
  Shared vocabulary of the development: the machine integer types of the Go sources, run-time
  panics as values, bounds-checked slice accesses, Go maps as association lists with distinct
  keys, \<^verbatim>\<open>time.Time\<close> as nanoseconds, the contract of \<^verbatim>\<open>sort.Slice\<close>, and the
  list lemmas that the component theories rely on.
\<close>

named_theorems go_simps \<open>unfolding rules for the Go run-time primitives\<close>
named_theorems inv_intros \<open>preservation lemmas of the component invariants\<close>

section \<open>Machine integers\<close>

type_synonym u8 = "8 word"
type_synonym u16 = "16 word"
type_synonym u32 = "32 word"
type_synonym u64 = "64 word"

text \<open>A Go \<^verbatim>\<open>string\<close> and a \<^verbatim>\<open>[]byte\<close> are sequences of bytes.\<close>

type_synonym bytes = "u8 list"

section \<open>Run-time panics\<close>

datatype go_panic = IndexOutOfRange | SliceBounds | DivideByZero | NegativeRepeat | MakeSlice | LabelCardinality

type_synonym 'a go = "go_panic + 'a"

definition go_bind :: "'a go \<Rightarrow> ('a \<Rightarrow> 'b go) \<Rightarrow> 'b go" where
  "go_bind m f = (case m of Inl e \<Rightarrow> Inl e | Inr a \<Rightarrow> f a)"

lemma go_bind_simps [simp]:
  "go_bind (Inl e) f = Inl e"
  "go_bind (Inr a) f = f a"
  by (simp_all add: go_bind_def)

lemma go_bind_eq_Inr [simp]:
  "go_bind m f = Inr b \<longleftrightarrow> (\<exists>a. m = Inr a \<and> f a = Inr b)"
  by (cases m) auto

definition panics :: "'a go \<Rightarrow> bool" where
  "panics m = (case m of Inl _ \<Rightarrow> True | Inr _ \<Rightarrow> False)"

lemma panics_simps [simp]: "panics (Inl e)" "\<not> panics (Inr a)"
  by (simp_all add: panics_def)

lemma not_panics_iff: "\<not> panics m \<longleftrightarrow> (\<exists>a. m = Inr a)"
  by (cases m) auto

text \<open>A loop over a slice whose body threads a state and may panic.\<close>

fun go_fold :: "('a \<Rightarrow> 's \<Rightarrow> 's go) \<Rightarrow> 'a list \<Rightarrow> 's \<Rightarrow> 's go" where
  "go_fold f [] s = Inr s"
| "go_fold f (x # xs) s = go_bind (f x s) (go_fold f xs)"

lemma go_fold_append: "go_fold f (xs @ ys) s = go_bind (go_fold f xs s) (go_fold f ys)"
proof (induction xs arbitrary: s)
  case (Cons x xs)
  then show ?case by (cases "f x s") simp_all
qed simp

lemma go_fold_pure: "(\<And>x s. f x s = Inr (g x s)) \<Longrightarrow> go_fold f xs s = Inr (foldl (\<lambda>s x. g x s) s xs)"
  by (induction xs arbitrary: s) simp_all

section \<open>Slices\<close>

text \<open>Indexing, element assignment and re-slicing check their bounds and panic outside them.\<close>

definition go_index :: "'a list \<Rightarrow> int \<Rightarrow> 'a go" where
  "go_index xs i = (if 0 \<le> i \<and> i < int (length xs) then Inr (xs ! nat i) else Inl IndexOutOfRange)"

definition go_set :: "'a list \<Rightarrow> int \<Rightarrow> 'a \<Rightarrow> 'a list go" where
  "go_set xs i v =
     (if 0 \<le> i \<and> i < int (length xs) then Inr (xs[nat i := v]) else Inl IndexOutOfRange)"

definition go_slice :: "'a list \<Rightarrow> int \<Rightarrow> int \<Rightarrow> 'a list go" where
  "go_slice xs lo hi =
     (if 0 \<le> lo \<and> lo \<le> hi \<and> hi \<le> int (length xs)
      then Inr (take (nat hi - nat lo) (drop (nat lo) xs)) else Inl SliceBounds)"

text \<open>Integer remainder: a zero divisor panics, the sign follows the dividend.\<close>

definition go_rem :: "int \<Rightarrow> int \<Rightarrow> int go" where
  "go_rem a b = (if b = 0 then Inl DivideByZero else Inr (a smod b))"

lemma go_index_ok [simp]:
  "0 \<le> i \<Longrightarrow> i < int (length xs) \<Longrightarrow> go_index xs i = Inr (xs ! nat i)"
  by (simp add: go_index_def)

lemma go_set_ok [simp]:
  "0 \<le> i \<Longrightarrow> i < int (length xs) \<Longrightarrow> go_set xs i v = Inr (xs[nat i := v])"
  by (simp add: go_set_def)

lemma smod_nonneg_pos: "0 \<le> a \<Longrightarrow> 0 < b \<Longrightarrow> a smod b = a mod (b::int)"
  by (cases "a = 0") (simp_all add: signed_modulo_int_def)

lemma go_rem_ok [simp]: "0 \<le> a \<Longrightarrow> 0 < b \<Longrightarrow> go_rem a b = Inr (a mod b)"
  by (simp add: go_rem_def smod_nonneg_pos)

lemma go_slice_ok:
  "0 \<le> lo \<Longrightarrow> lo \<le> hi \<Longrightarrow> hi \<le> int (length xs) \<Longrightarrow>
   go_slice xs lo hi = Inr (take (nat hi - nat lo) (drop (nat lo) xs))"
  by (simp add: go_slice_def)

declare go_bind_def [go_simps] go_index_def [go_simps] go_set_def [go_simps]
  go_slice_def [go_simps] go_rem_def [go_simps]

section \<open>Bounded suffixes\<close>

text \<open>\<open>take_last n xs\<close> keeps the last \<open>n\<close> elements: what a bounded log remembers.\<close>

definition take_last :: "nat \<Rightarrow> 'a list \<Rightarrow> 'a list" where
  "take_last n xs = drop (length xs - n) xs"

lemma length_take_last [simp]: "length (take_last n xs) = min n (length xs)"
  by (simp add: take_last_def)

lemma take_last_short [simp]: "length xs \<le> n \<Longrightarrow> take_last n xs = xs"
  by (simp add: take_last_def)

lemma take_last_append_take_last:
  "take_last n (take_last n xs @ ys) = take_last n (xs @ ys)"
proof (cases "length xs \<le> n")
  case False
  then have "take_last n xs = drop (length xs - n) xs" "length (take_last n xs) = n"
    by (simp_all add: take_last_def)
  then show ?thesis
    using False by (simp add: take_last_def) (metis (no_types, lifting) add.commute
      diff_diff_left drop_append drop_drop le_add_diff_inverse2 nat_le_linear)
qed simp

lemma take_last_snoc: "length xs = n \<Longrightarrow> 0 < n \<Longrightarrow> take_last n (xs @ [x]) = tl xs @ [x]"
  by (cases xs) (auto simp: take_last_def)

lemma set_take_last_subset: "set (take_last n xs) \<subseteq> set xs"
  by (simp add: take_last_def set_drop_subset)

lemma mem_map_filter: "y \<in> set (List.map_filter f xs) \<longleftrightarrow> (\<exists>x \<in> set xs. f x = Some y)"
  by (induction xs) (auto simp: map_filter_simps split: option.splits)

section \<open>Go maps\<close>

text \<open>
  A Go map is an association list with distinct keys; \<open>map_of\<close> reads it, \<open>AList.update\<close> and
  \<open>AList.delete\<close> write it, \<open>length\<close> is \<^verbatim>\<open>len\<close>. The order of the list carries no meaning:
  where a \<^verbatim>\<open>range\<close> loop could observe an order, the order is an argument of the model.
\<close>

type_synonym ('k, 'v) gomap = "('k \<times> 'v) list"

abbreviation keys :: "('k, 'v) gomap \<Rightarrow> 'k list" where
  "keys m \<equiv> map fst m"

definition m_list :: "('k, 'v list) gomap \<Rightarrow> 'k \<Rightarrow> 'v list" where
  "m_list m k = (case map_of m k of None \<Rightarrow> [] | Some vs \<Rightarrow> vs)"

definition m_modify :: "('k, 'v) gomap \<Rightarrow> 'k \<Rightarrow> ('v \<Rightarrow> 'v) \<Rightarrow> ('k, 'v) gomap" where
  "m_modify m k f = (case map_of m k of None \<Rightarrow> m | Some v \<Rightarrow> AList.update k (f v) m)"

lemma keys_update_mem: "k \<in> set (keys m) \<Longrightarrow> keys (AList.update k v m) = keys m"
  by (induction m) auto

lemma keys_update_new: "k \<notin> set (keys m) \<Longrightarrow> keys (AList.update k v m) = keys m @ [k]"
  by (induction m) auto

lemma update_new: "k \<notin> set (keys m) \<Longrightarrow> AList.update k v m = m @ [(k, v)]"
  by (induction m) auto

lemma length_update_new:
  "k \<notin> set (keys m) \<Longrightarrow> length (AList.update k v m) = Suc (length m)"
  by (simp add: update_new)

lemma length_update_mem:
  "k \<in> set (keys m) \<Longrightarrow> length (AList.update k v m) = length m"
  by (metis keys_update_mem length_map)

lemma keys_modify [simp]: "keys (m_modify m k f) = keys m"
  by (auto simp: m_modify_def keys_update_mem map_of_eq_None_iff rev_image_eqI
      split: option.split dest: map_of_SomeD)

lemma length_modify [simp]: "length (m_modify m k f) = length m"
  by (metis keys_modify length_map)

lemma map_of_modify:
  "map_of (m_modify m k f) k' = (if k' = k then map_option f (map_of m k) else map_of m k')"
  by (auto simp: m_modify_def update_conv' split: option.split)

lemma keys_delete: "keys (AList.delete k m) = filter (\<lambda>x. x \<noteq> k) (keys m)"
  by (induction m) auto

lemma dom_update_alist: "dom (map_of (AList.update k v m)) = insert k (dom (map_of m))"
  by (auto simp: update_conv' split: if_splits)

lemma dom_delete_alist: "dom (map_of (AList.delete k m)) = dom (map_of m) - {k}"
  by (auto simp: delete_conv' split: if_splits)

lemma filter_neq_remove1: "distinct xs \<Longrightarrow> filter (\<lambda>x. x \<noteq> k) xs = remove1 k xs"
  by (induction xs) (auto simp: filter_id_conv)

lemma length_delete_mem:
  assumes "distinct (keys m)" and "k \<in> set (keys m)"
  shows "Suc (length (AList.delete k m)) = length m"
proof -
  have "length (AList.delete k m) = length (filter (\<lambda>x. x \<noteq> k) (keys m))"
    by (metis keys_delete length_map)
  also have "filter (\<lambda>x. x \<noteq> k) (keys m) = remove1 k (keys m)"
    using assms(1) by (rule filter_neq_remove1)
  finally show ?thesis
    using assms(2) length_pos_if_in_set [OF assms(2)] by (simp add: length_remove1)
qed

lemma mem_conv_map_of:
  "distinct (keys m) \<Longrightarrow> (k, v) \<in> set m \<longleftrightarrow> map_of m k = Some v"
  by (simp add: map_of_eq_Some_iff)

lemma m_list_update:
  "m_list (AList.update k v m) k' = (if k' = k then v else m_list m k')"
  by (simp add: m_list_def update_conv')

text \<open>The loop \<^verbatim>\<open>m[f(x)] = append(m[f(x)], x)\<close>.\<close>

definition group_by :: "('a \<Rightarrow> 'k) \<Rightarrow> 'a list \<Rightarrow> ('k, 'a list) gomap" where
  "group_by f xs = foldl (\<lambda>m x. AList.update (f x) (m_list m (f x) @ [x]) m) [] xs"

lemma group_by_snoc:
  "group_by f [] = []"
  "group_by f (xs @ [x]) = AList.update (f x) (m_list (group_by f xs) (f x) @ [x]) (group_by f xs)"
  by (simp_all add: group_by_def)

lemma m_list_group_by: "m_list (group_by f xs) k = filter (\<lambda>x. f x = k) xs"
proof (induction xs rule: rev_induct)
  case Nil
  then show ?case by (simp add: group_by_snoc m_list_def)
next
  case (snoc x xs)
  then show ?case by (auto simp: group_by_snoc m_list_update)
qed

lemma keys_group_by: "distinct (keys (group_by f xs))" "dom (map_of (group_by f xs)) = f ` set xs"
  by (induction xs rule: rev_induct) (simp_all add: group_by_snoc distinct_update dom_update_alist)

lemma mem_group_by:
  assumes "(k, es) \<in> set (group_by f xs)"
  shows "es = filter (\<lambda>x. f x = k) xs"
proof -
  have "map_of (group_by f xs) k = Some es" using assms keys_group_by(1) [of f xs] by simp
  then show ?thesis using m_list_group_by [of f xs k] by (simp add: m_list_def)
qed

section \<open>Sorting\<close>

text \<open>
  \<^verbatim>\<open>sort.Slice\<close> promises an ordered rearrangement and nothing about equal elements. The
  model takes the sorting routine as an argument and relies on this contract only.
\<close>

definition is_sort :: "('a \<Rightarrow> 'a \<Rightarrow> bool) \<Rightarrow> ('a list \<Rightarrow> 'a list) \<Rightarrow> bool" where
  "is_sort lt srt \<longleftrightarrow>
     (\<forall>xs. mset (srt xs) = mset xs \<and> sorted_wrt (\<lambda>a b. \<not> lt b a) (srt xs))"

lemma is_sort_mset: "is_sort lt srt \<Longrightarrow> mset (srt xs) = mset xs"
  by (simp add: is_sort_def)

lemma is_sort_set: "is_sort lt srt \<Longrightarrow> set (srt xs) = set xs"
  by (metis is_sort_mset set_mset_mset)

lemma is_sort_length: "is_sort lt srt \<Longrightarrow> length (srt xs) = length xs"
  by (metis is_sort_mset size_mset)

lemma is_sort_sorted: "is_sort lt srt \<Longrightarrow> sorted_wrt (\<lambda>a b. \<not> lt b a) (srt xs)"
  by (simp add: is_sort_def)

lemma is_sort_distinct: "is_sort lt srt \<Longrightarrow> distinct (srt xs) = distinct xs"
  by (metis is_sort_mset mset_eq_imp_distinct_iff)

text \<open>The insertion sort that Go's sort package uses on short slices, as the executable instance.\<close>

fun go_insert :: "('a \<Rightarrow> 'a \<Rightarrow> bool) \<Rightarrow> 'a \<Rightarrow> 'a list \<Rightarrow> 'a list" where
  "go_insert lt x [] = [x]"
| "go_insert lt x (y # ys) = (if lt y x \<or> \<not> lt x y then y # go_insert lt x ys else x # y # ys)"

definition go_insertion_sort :: "('a \<Rightarrow> 'a \<Rightarrow> bool) \<Rightarrow> 'a list \<Rightarrow> 'a list" where
  "go_insertion_sort lt xs = foldl (\<lambda>acc x. go_insert lt x acc) [] xs"

lemma mset_go_insert [simp]: "mset (go_insert lt x ys) = add_mset x (mset ys)"
  by (induction ys) auto

lemma set_go_insert [simp]: "set (go_insert lt x ys) = insert x (set ys)"
  by (metis mset_go_insert set_mset_add_mset_insert set_mset_mset)

text \<open>Strict weak orders: what \<^verbatim>\<open>sort.Slice\<close> requires of the comparison.\<close>

definition strict_weak :: "('a \<Rightarrow> 'a \<Rightarrow> bool) \<Rightarrow> bool" where
  "strict_weak lt \<longleftrightarrow>
     (\<forall>a b. lt a b \<longrightarrow> \<not> lt b a) \<and>
     (\<forall>a b c. \<not> lt b a \<and> \<not> lt c b \<longrightarrow> \<not> lt c a)"

lemma strict_weak_trans: "strict_weak lt \<Longrightarrow> \<not> lt b a \<Longrightarrow> \<not> lt c b \<Longrightarrow> \<not> lt c a"
  unfolding strict_weak_def by blast

lemma strict_weak_asym: "strict_weak lt \<Longrightarrow> lt a b \<Longrightarrow> \<not> lt b a"
  unfolding strict_weak_def by blast

lemma sorted_go_insert:
  assumes "strict_weak lt" and "sorted_wrt (\<lambda>a b. \<not> lt b a) ys"
  shows "sorted_wrt (\<lambda>a b. \<not> lt b a) (go_insert lt x ys)"
  using assms(2)
proof (induction ys)
  case (Cons y ys)
  show ?case
  proof (cases "lt x y")
    case True
    then have yx: "\<not> lt y x" by (rule strict_weak_asym [OF assms(1)])
    moreover have "\<not> lt z x" if "z \<in> set ys" for z
      using strict_weak_trans [OF assms(1) yx] Cons.prems that by simp
    ultimately show ?thesis using True Cons.prems by simp
  next
    case False
    with Cons show ?thesis by auto
  qed
qed simp

lemma foldl_go_insert:
  "strict_weak lt \<Longrightarrow> sorted_wrt (\<lambda>a b. \<not> lt b a) acc \<Longrightarrow>
   mset (foldl (\<lambda>acc x. go_insert lt x acc) acc xs) = mset acc + mset xs \<and>
   sorted_wrt (\<lambda>a b. \<not> lt b a) (foldl (\<lambda>acc x. go_insert lt x acc) acc xs)"
  by (induction xs arbitrary: acc) (auto simp: sorted_go_insert)

lemma is_sort_insertion: "strict_weak lt \<Longrightarrow> is_sort lt (go_insertion_sort lt)"
  using foldl_go_insert [where acc = "[]"] by (auto simp: is_sort_def go_insertion_sort_def)

lemma strict_weak_key: "strict_weak (\<lambda>a b. (f a :: 'b :: linorder) < f b)"
  by (auto simp: strict_weak_def)

lemma strict_weak_key_desc: "strict_weak (\<lambda>a b. (f b :: 'b :: linorder) < f a)"
  by (auto simp: strict_weak_def)

section \<open>Time\<close>

text \<open>
  A \<^verbatim>\<open>time.Time\<close> is a number of nanoseconds since the Unix epoch, unbounded as Go's 64-bit
  seconds make it for every date in use; a \<^verbatim>\<open>time.Duration\<close> is a signed 64-bit count of
  nanoseconds, and \<^verbatim>\<open>Time.Sub\<close> saturates at its bounds.
\<close>

type_synonym time = int

definition zero_time :: time where
  "zero_time = - 62135596800 * 10 ^ 9"

definition max_duration :: int where "max_duration = 2 ^ 63 - 1"
definition min_duration :: int where "min_duration = - (2 ^ 63)"

definition time_sub :: "time \<Rightarrow> time \<Rightarrow> int" where
  "time_sub t u = max min_duration (min max_duration (t - u))"

text \<open>\<^verbatim>\<open>int64(x)\<close> of a \<^verbatim>\<open>uint64\<close> plus a 64-bit offset: two's complement with wrap-around.\<close>

definition wall_clock :: "u64 \<Rightarrow> u64 \<Rightarrow> time" where
  "wall_clock ktime bootOffset = sint (ktime + bootOffset)"

lemma sint_small:
  fixes x :: u64
  assumes "uint x < 2 ^ 63"
  shows "sint x = uint x"
proof -
  have "- (2 ^ 63) \<le> uint x" by (rule order_trans [OF _ uint_ge_0]) simp
  with assms show ?thesis by (simp add: sint_uint signed_take_bit_int_eq_self)
qed

lemma sint_of_small:
  assumes "0 \<le> n" and "n < 2 ^ 63"
  shows "sint (word_of_int n :: u64) = n"
proof -
  have "uint (word_of_int n :: u64) = n"
    using assms by (simp add: uint_word_of_int_eq take_bit_int_eq_self)
  with assms(2) show ?thesis by (simp add: sint_small)
qed

lemma wall_clock_no_overflow:
  assumes "uint k + uint b < 2 ^ 63"
  shows "wall_clock k b = uint k + uint b"
proof -
  have "uint (k + b) = uint k + uint b"
    using assms by (simp add: uint_word_ariths mod_pos_pos_trivial)
  with assms show ?thesis by (simp add: wall_clock_def sint_small)
qed

end
