(* ===== verification/GoStrings.thy ===== *)
theory GoStrings
  imports Prelude "HOL-Library.Sublist"
begin

text \<open>
  The part of Go's \<^verbatim>\<open>strings\<close>, \<^verbatim>\<open>strconv\<close>, \<^verbatim>\<open>bufio.Scanner\<close> and \<^verbatim>\<open>fmt\<close>
  packages that the sources call, over byte strings. White space and case are the ASCII ones,
  which is what the kernel files and names read by the agent contain.
\<close>

section \<open>Prefixes, suffixes, searching\<close>

abbreviation HasPrefix :: "string \<Rightarrow> string \<Rightarrow> bool" where
  "HasPrefix s p \<equiv> prefix p s"

abbreviation HasSuffix :: "string \<Rightarrow> string \<Rightarrow> bool" where
  "HasSuffix s p \<equiv> suffix p s"

definition TrimPrefix :: "string \<Rightarrow> string \<Rightarrow> string" where
  "TrimPrefix s p = (if HasPrefix s p then drop (length p) s else s)"

definition TrimSuffix :: "string \<Rightarrow> string \<Rightarrow> string" where
  "TrimSuffix s p = (if HasSuffix s p then take (length s - length p) s else s)"

text \<open>\<^verbatim>\<open>strings.Index\<close>: the first position at which \<open>sub\<close> starts, -1 if there is none.\<close>

fun Index_str :: "string \<Rightarrow> string \<Rightarrow> int" where
  "Index_str [] sub = (if sub = [] then 0 else -1)"
| "Index_str (c # s) sub =
     (if prefix sub (c # s) then 0
      else let i = Index_str s sub in if i < 0 then -1 else i + 1)"

definition Contains :: "string \<Rightarrow> string \<Rightarrow> bool" where
  "Contains s sub = (0 \<le> Index_str s sub)"

fun LastIndexByte :: "string \<Rightarrow> char \<Rightarrow> int" where
  "LastIndexByte [] c = -1"
| "LastIndexByte (x # s) c =
     (let i = LastIndexByte s c in if 0 \<le> i then i + 1 else if x = c then 0 else -1)"

lemma TrimPrefix_append [simp]: "TrimPrefix (p @ s) p = s"
  by (simp add: TrimPrefix_def)

lemma TrimSuffix_append [simp]: "TrimSuffix (s @ p) p = s"
  by (auto simp: TrimSuffix_def suffix_def)

lemma TrimPrefix_id: "\<not> HasPrefix s p \<Longrightarrow> TrimPrefix s p = s"
  by (simp add: TrimPrefix_def)

lemma Index_str_nonneg: "0 \<le> Index_str s sub \<or> Index_str s sub = -1"
  by (induction s sub rule: Index_str.induct) (auto simp: Let_def)

lemma Index_str_found:
  "0 \<le> Index_str s sub \<Longrightarrow> \<exists>a b. s = a @ sub @ b \<and> length a = nat (Index_str s sub)"
proof (induction s sub rule: Index_str.induct)
  case (1 sub)
  then show ?case by (auto split: if_splits)
next
  case (2 c s sub)
  show ?case
  proof (cases "prefix sub (c # s)")
    case True
    then obtain b where b: "c # s = sub @ b" by (auto simp: prefix_def)
    from True have "Index_str (c # s) sub = 0" by simp
    with b show ?thesis
      by (intro exI [of _ "[]"] exI [of _ b]) (simp del: Index_str.simps)
  next
    case False
    with 2 have i: "0 \<le> Index_str s sub" by (auto simp: Let_def split: if_splits)
    with 2 False obtain a b where "s = a @ sub @ b" "length a = nat (Index_str s sub)"
      by blast
    with i False show ?thesis by (intro exI [of _ "c # a"] exI [of _ b]) (auto simp: Let_def)
  qed
qed

lemma Index_str_not_found: "Index_str s sub < 0 \<Longrightarrow> \<not> sublist sub s"
proof (induction s sub rule: Index_str.induct)
  case (2 c s sub)
  then show ?case
    by (auto simp: Let_def sublist_Cons_right split: if_splits)
qed (simp split: if_splits)

lemma Contains_iff: "Contains s sub \<longleftrightarrow> sublist sub s"
  using Index_str_found [of s sub] Index_str_not_found [of s sub]
  unfolding Contains_def sublist_def by force

lemma LastIndexByte_bounds: "-1 \<le> LastIndexByte s c \<and> LastIndexByte s c < int (length s)"
  by (induction s) (auto simp: Let_def)

lemma LastIndexByte_last: "0 \<le> LastIndexByte s c \<Longrightarrow>
   s ! nat (LastIndexByte s c) = c \<and> c \<notin> set (drop (Suc (nat (LastIndexByte s c))) s)"
proof (induction s)
  case (Cons x s)
  have b: "-1 \<le> LastIndexByte s c" using LastIndexByte_bounds [of s c] by simp
  show ?case
  proof (cases "0 \<le> LastIndexByte s c")
    case True
    with Cons.IH show ?thesis by (auto simp: Let_def nat_add_distrib)
  next
    case False
    have "c \<notin> set s"
      using False by (induction s) (auto simp: Let_def split: if_splits)
    with False Cons.prems show ?thesis by (auto simp: Let_def split: if_splits)
  qed
qed simp

text \<open>The component of a path after its last slash.\<close>

definition basename :: "string \<Rightarrow> string" where
  "basename s = (let idx = LastIndexByte s CHR ''/'' in
     if 0 \<le> idx then drop (nat idx + 1) s else s)"

lemma LastIndexByte_neg: "LastIndexByte s c < 0 \<Longrightarrow> c \<notin> set s"
  by (induction s) (auto simp: Let_def split: if_splits)

lemma basename_no_slash: "CHR ''/'' \<notin> set (basename s)"
  using LastIndexByte_last [of s "CHR ''/''"] LastIndexByte_neg [of s "CHR ''/''"]
  by (auto simp: basename_def Let_def)

lemma basename_suffix: "suffix (basename s) s"
  by (auto simp: basename_def Let_def suffix_drop)

section \<open>Splitting and joining\<close>

fun split_on :: "char \<Rightarrow> string \<Rightarrow> string list" where
  "split_on c [] = [[]]"
| "split_on c (x # s) =
     (if x = c then [] # split_on c s
      else case split_on c s of [] \<Rightarrow> [[x]] | w # ws \<Rightarrow> (x # w) # ws)"

fun join_with :: "char \<Rightarrow> string list \<Rightarrow> string" where
  "join_with c [] = []"
| "join_with c [w] = w"
| "join_with c (w # v # ws) = w @ c # join_with c (v # ws)"

lemma split_on_nonempty [simp]: "split_on c s \<noteq> []"
  by (induction s) (auto split: list.split)

lemma length_split_on: "length (split_on c s) = Suc (count_list s c)"
proof (induction s)
  case (Cons x s)
  then show ?case by (cases "split_on c s") auto
qed simp

lemma split_on_no_sep: "w \<in> set (split_on c s) \<Longrightarrow> c \<notin> set w"
proof (induction s arbitrary: w)
  case (Cons x s)
  then show ?case by (cases "split_on c s") (auto split: if_splits)
qed simp

lemma join_with_Cons_char: "join_with c ((x # w) # ws) = x # join_with c (w # ws)"
  by (cases ws) auto

lemma join_with_Nil_word: "ws \<noteq> [] \<Longrightarrow> join_with c ([] # ws) = c # join_with c ws"
  by (cases ws) auto

lemma join_split: "join_with c (split_on c s) = s"
proof (induction s)
  case (Cons x s)
  then show ?case
    by (cases "split_on c s") (auto simp: join_with_Cons_char join_with_Nil_word)
qed simp

lemma split_on_free: "c \<notin> set w \<Longrightarrow> split_on c w = [w]"
  by (induction w) auto

lemma split_on_append_sep:
  "c \<notin> set w \<Longrightarrow> split_on c (w @ c # s) = w # split_on c s"
  by (induction w) auto

lemma split_join:
  assumes "ws \<noteq> []" and "\<forall>w \<in> set ws. c \<notin> set w"
  shows "split_on c (join_with c ws) = ws"
  using assms by (induction c ws rule: join_with.induct) (auto simp: split_on_free split_on_append_sep)

section \<open>White space, fields, lines\<close>

definition is_space :: "char \<Rightarrow> bool" where
  "is_space c = (c \<in> {CHR '' '', CHR 0x09, CHR 0x0A, CHR 0x0B, CHR 0x0C, CHR 0x0D})"

definition TrimSpace :: "string \<Rightarrow> string" where
  "TrimSpace s = rev (dropWhile is_space (rev (dropWhile is_space s)))"

fun fields_aux :: "string \<Rightarrow> string \<Rightarrow> string list" where
  "fields_aux w [] = (if w = [] then [] else [rev w])"
| "fields_aux w (c # s) =
     (if is_space c then (if w = [] then fields_aux [] s else rev w # fields_aux [] s)
      else fields_aux (c # w) s)"

definition Fields :: "string \<Rightarrow> string list" where
  "Fields s = fields_aux [] s"

text \<open>The tokens of a line scanner: a final newline ends the last line, one CR before it is dropped.\<close>

definition scan_lines :: "string \<Rightarrow> string list" where
  "scan_lines s =
     (let ls = split_on CHR 0x0A s; ls' = (if last ls = [] then butlast ls else ls)
      in map (\<lambda>l. TrimSuffix l [CHR 0x0D]) ls')"

definition to_lower_char :: "char \<Rightarrow> char" where
  "to_lower_char c =
     (let n = of_char c :: nat in if 65 \<le> n \<and> n \<le> 90 then char_of (n + 32) else c)"

definition ToLower :: "string \<Rightarrow> string" where
  "ToLower s = map to_lower_char s"

lemma fields_aux_nonempty:
  "f \<in> set (fields_aux w s) \<Longrightarrow> \<forall>c \<in> set w. \<not> is_space c \<Longrightarrow>
   f \<noteq> [] \<and> (\<forall>c \<in> set f. \<not> is_space c)"
proof (induction w s rule: fields_aux.induct)
  case (2 w c s)
  show ?case
  proof (cases "is_space c")
    case sp: True
    show ?thesis
    proof (cases "w = []")
      case True
      then show ?thesis using 2(1) [OF sp True] 2(4) sp by simp
    next
      case False
      then have "f = rev w \<or> f \<in> set (fields_aux [] s)" using 2(4) sp by simp
      then show ?thesis using 2(2) [OF sp False] 2(5) False by force
    qed
  next
    case False
    then show ?thesis using 2(3) [OF False] 2(4,5) by simp
  qed
qed (simp split: if_splits)

lemma Fields_words: "f \<in> set (Fields s) \<Longrightarrow> f \<noteq> [] \<and> (\<forall>c \<in> set f. \<not> is_space c)"
  using fields_aux_nonempty [of f "[]" s] by (simp add: Fields_def)

section \<open>Decimal numbers\<close>

definition digit :: "nat \<Rightarrow> char" where
  "digit d = char_of (48 + d)"

definition digit_val :: "char \<Rightarrow> nat option" where
  "digit_val c = (let n = of_char c :: nat in if 48 \<le> n \<and> n \<le> 57 then Some (n - 48) else None)"

text \<open>\<^verbatim>\<open>fmt.Sprintf("%d", n)\<close> for a non-negative number.\<close>

fun show_nat :: "nat \<Rightarrow> string" where
  "show_nat n = (if n < 10 then [digit n] else show_nat (n div 10) @ [digit (n mod 10)])"

declare show_nat.simps [simp del]

fun parse_digits :: "nat \<Rightarrow> string \<Rightarrow> nat option" where
  "parse_digits acc [] = Some acc"
| "parse_digits acc (c # s) =
     (case digit_val c of None \<Rightarrow> None | Some d \<Rightarrow> parse_digits (10 * acc + d) s)"

text \<open>\<^verbatim>\<open>strconv.ParseUint(s, 10, bits)\<close>: digits only, at least one, within the width.\<close>

definition ParseUint :: "nat \<Rightarrow> string \<Rightarrow> nat option" where
  "ParseUint bits s =
     (if s = [] then None
      else case parse_digits 0 s of None \<Rightarrow> None
           | Some n \<Rightarrow> if n < 2 ^ bits then Some n else None)"

lemma digit_val_digit: "d < 10 \<Longrightarrow> digit_val (digit d) = Some d"
  by (auto simp: digit_val_def digit_def Let_def)

lemma parse_digits_append:
  "parse_digits acc (s @ t) = (case parse_digits acc s of None \<Rightarrow> None | Some a \<Rightarrow> parse_digits a t)"
  by (induction acc s rule: parse_digits.induct) (auto split: option.split)

lemma show_nat_nonempty [simp]: "show_nat n \<noteq> []"
  by (subst show_nat.simps) simp

lemma parse_show: "parse_digits 0 (show_nat n) = Some n"
proof (induction n rule: show_nat.induct)
  case (1 n)
  then show ?case
    by (subst show_nat.simps) (auto simp: digit_val_digit parse_digits_append)
qed

lemma ParseUint_show: "n < 2 ^ bits \<Longrightarrow> ParseUint bits (show_nat n) = Some n"
  by (simp add: ParseUint_def parse_show)

lemma ParseUint_bound: "ParseUint bits s = Some n \<Longrightarrow> n < 2 ^ bits"
  by (auto simp: ParseUint_def split: option.splits if_splits)

lemma show_nat_inj: "show_nat m = show_nat n \<Longrightarrow> m = n"
  by (metis option.inject parse_show)

lemma show_nat_digits: "c \<in> set (show_nat n) \<Longrightarrow> \<exists>d<10. c = digit d"
proof (induction n rule: show_nat.induct)
  case (1 n)
  show ?case
  proof (cases "n < 10")
    case True
    with 1 show ?thesis by (subst (asm) show_nat.simps) auto
  next
    case False
    with 1 have "c \<in> set (show_nat (n div 10)) \<or> c = digit (n mod 10)"
      by (subst (asm) show_nat.simps) auto
    then show ?thesis
      using 1(1) [OF False] by (metis mod_less_divisor zero_less_numeral)
  qed
qed

definition is_digit :: "char \<Rightarrow> bool" where
  "is_digit c \<longleftrightarrow> digit_val c \<noteq> None"

lemma is_digit_digit: "d < 10 \<Longrightarrow> is_digit (digit d)"
  by (simp add: is_digit_def digit_val_digit)

lemma show_nat_all_digits: "\<forall>c \<in> set (show_nat n). is_digit c"
  using show_nat_digits is_digit_digit by blast

lemma digit_not_space: "is_digit c \<Longrightarrow> \<not> is_space c \<and> c \<noteq> CHR ''-'' \<and> c \<noteq> CHR ''+'' \<and> c \<noteq> CHR 0x0A"
  by (auto simp: is_digit_def digit_val_def is_space_def Let_def)

text \<open>Trimming white space after a word.\<close>

lemma TrimSpace_word:
  assumes "s \<noteq> []" and "\<not> is_space (hd s)" and "\<not> is_space (last s)" and "\<forall>c \<in> set ws. is_space c"
  shows "TrimSpace (s @ ws) = s"
proof -
  have "dropWhile is_space (s @ ws) = s @ ws" using assms(1,2) by (cases s) auto
  moreover have "dropWhile is_space (rev ws @ rev s) = dropWhile is_space (rev s)"
    by (rule dropWhile_append2) (use assms(4) in auto)
  moreover have "dropWhile is_space (rev s) = rev s"
    using assms(1,3) by (simp add: dropWhile_eq_self_iff hd_rev)
  ultimately show ?thesis by (simp add: TrimSpace_def)
qed

lemma TrimSpace_show_nat:
  assumes "\<forall>c \<in> set ws. is_space c"
  shows "TrimSpace (show_nat n @ ws) = show_nat n"
  using assms show_nat_all_digits [of n] digit_not_space
  by (intro TrimSpace_word) auto

lemma show_nat_no_slash: "CHR ''/'' \<notin> set (show_nat n)"
proof
  assume "CHR ''/'' \<in> set (show_nat n)"
  then obtain d where d: "d < 10" "CHR ''/'' = digit d" using show_nat_digits by blast
  then have "digit_val CHR ''/'' = Some d" by (simp add: digit_val_digit)
  then show False by (simp add: digit_val_def)
qed

text \<open>\<^verbatim>\<open>"cgroup:%d"\<close>, the label every collector falls back to.\<close>

definition cgroup_label :: "u64 \<Rightarrow> string" where
  "cgroup_label cg = ''cgroup:'' @ show_nat (unat cg)"

lemma cgroup_label_inj: "cgroup_label a = cgroup_label b \<Longrightarrow> a = b"
  by (simp add: cgroup_label_def word_unat_eq_iff) (metis show_nat_inj)

text \<open>\<^verbatim>\<open>"%08x"\<close> of a 32-bit value.\<close>

definition hex_digit :: "nat \<Rightarrow> char" where
  "hex_digit d = (if d < 10 then char_of (48 + d) else char_of (87 + d))"

definition show_hex8 :: "u32 \<Rightarrow> string" where
  "show_hex8 w = map (\<lambda>i. hex_digit ((unat w div 16 ^ (7 - i)) mod 16)) [0..<8]"

section \<open>NUL-terminated byte arrays\<close>

definition byte_char :: "u8 \<Rightarrow> char" where
  "byte_char b = char_of (unat b)"

definition string_of_bytes :: "bytes \<Rightarrow> string" where
  "string_of_bytes bs = map byte_char bs"

lemma byte_char_inj [simp]: "byte_char a = byte_char b \<longleftrightarrow> a = b"
proof
  assume "byte_char a = byte_char b"
  then have "(of_char (byte_char a) :: nat) = of_char (byte_char b)" by simp
  then have "unat a mod 256 = unat b mod 256" by (simp add: byte_char_def)
  moreover have "unat a < 256" "unat b < 256" using unsigned_less [of a] unsigned_less [of b] by simp_all
  ultimately show "a = b" by (simp add: word_unat_eq_iff)
qed simp

end
