(* ===== verification/GoFloat.thy ===== *)
theory GoFloat
  imports Complex_Main Prelude "HOL-Library.Log_Nat"
begin

text \<open>
  Go's \<^verbatim>\<open>float64\<close>. A finite float is the rational number it denotes; every arithmetic
  operation computes the exact result and rounds it to 53 significant bits, ties to even
  (\<open>f64\<close>). The magnitudes that occur (64-bit counters, divisors between a nanosecond and a
  giga) stay clear of the overflow and subnormal ranges, so infinities, NaN and gradual
  underflow are not modelled, and neither is the sign of zero.
\<close>

section \<open>Binary exponents\<close>

definition pow2 :: "int \<Rightarrow> rat" where
  "pow2 e = (if 0 \<le> e then 2 ^ nat e else 1 / 2 ^ nat (- e))"

definition ilog2 :: "rat \<Rightarrow> int" where
  "ilog2 x = (case quotient_of x of (p, q) \<Rightarrow>
     let e = bitlen p - bitlen q in if pow2 e \<le> x then e else e - 1)"

lemma pow2_pos [simp]: "0 < pow2 e"
  by (simp add: pow2_def)

lemma pow2_Suc: "pow2 (e + 1) = 2 * pow2 e"
proof (cases "0 \<le> e")
  case True
  then show ?thesis by (simp add: pow2_def nat_add_distrib)
next
  case False
  then have "nat (- e) = Suc (nat (- (e + 1)))" by linarith
  with False show ?thesis by (cases "e = -1") (simp_all add: pow2_def)
qed

lemma pow2_0 [simp]: "pow2 0 = 1"
  by (simp add: pow2_def)

lemma pow2_add_nat: "pow2 (e + int n) = pow2 e * 2 ^ n"
proof (induction n)
  case (Suc n)
  have "pow2 (e + int (Suc n)) = pow2 ((e + int n) + 1)" by (simp add: algebra_simps)
  with Suc show ?case by (simp add: pow2_Suc)
qed simp

lemma pow2_mono: "a \<le> b \<Longrightarrow> pow2 a \<le> pow2 b"
  using pow2_add_nat [of a "nat (b - a)"] by simp

lemma pow2_diff_52: "pow2 (e - 52) * 2 ^ 52 = pow2 e" "pow2 (e - 52) * 2 ^ 53 = pow2 (e + 1)"
  using pow2_add_nat [of "e - 52" 52] pow2_add_nat [of "e - 52" 53] by (simp_all add: add.commute)

lemma pow2_of_int: "0 \<le> e \<Longrightarrow> pow2 e = of_int (2 ^ nat e)"
  by (simp add: pow2_def)

lemma pow2_less: "pow2 a < pow2 b \<longleftrightarrow> a < b"
proof
  assume "pow2 a < pow2 b"
  then show "a < b" using pow2_mono [of b a] by linarith
next
  assume "a < b"
  then have "pow2 (a + 1) \<le> pow2 b" by (intro pow2_mono) simp
  then show "pow2 a < pow2 b" using pow2_Suc [of a] pow2_pos [of a] by linarith
qed

lemma bitlen_pow2:
  assumes "0 < p"
  shows "pow2 (bitlen p - 1) \<le> of_int p" "of_int p < pow2 (bitlen p)"
proof -
  have b: "1 \<le> bitlen p" using assms by (simp add: bitlen_alt_def)
  have "2 ^ nat (bitlen p - 1) \<le> p \<and> p < 2 ^ nat (bitlen p)"
    using bitlen_bounds [OF assms] .
  then show "pow2 (bitlen p - 1) \<le> of_int p" "of_int p < pow2 (bitlen p)"
    using b pow2_of_int by (simp_all del: of_int_power add: of_int_le_iff of_int_less_iff)
qed

lemma pow2_minus_mult: "pow2 (a - b) * pow2 b = pow2 a"
proof (cases "0 \<le> b")
  case True
  then show ?thesis using pow2_add_nat [of "a - b" "nat b"] by (simp add: pow2_def)
next
  case False
  then have "pow2 (a - b) = pow2 a * 2 ^ nat (- b)"
    using pow2_add_nat [of a "nat (- b)"] by simp
  with False show ?thesis by (simp add: pow2_def)
qed

lemma ilog2_bounds:
  assumes "0 < x"
  shows "pow2 (ilog2 x) \<le> x \<and> x < pow2 (ilog2 x + 1)"
proof -
  obtain p q where pq: "quotient_of x = (p, q)" by fastforce
  then have q: "0 < q" and x: "x = of_int p / of_int q"
    by (simp_all add: quotient_of_denom_pos quotient_of_div)
  then have p: "0 < p" using assms by (simp add: zero_less_divide_iff)
  let ?e = "bitlen p - bitlen q"
  have "x * of_int q = of_int p" using x q by simp
  then have up: "x * pow2 (bitlen q - 1) < pow2 (?e + 1) * pow2 (bitlen q - 1)"
    and lo: "pow2 (?e - 1) * pow2 (bitlen q) < x * pow2 (bitlen q)"
    using bitlen_pow2 [OF p] bitlen_pow2 [OF q] assms pow2_minus_mult [of "bitlen p" "bitlen q - 1"]
      pow2_minus_mult [of "bitlen p - 1" "bitlen q"] mult_left_mono [of "pow2 (bitlen q - 1)" "of_int q" x]
      mult_strict_left_mono [of "of_int q" "pow2 (bitlen q)" x]
    by (simp_all add: algebra_simps)
  have "x < pow2 (?e + 1)" using up by (simp add: mult_less_cancel_right_pos)
  moreover have "pow2 (?e - 1) \<le> x" using lo by (simp add: mult_less_cancel_right_pos)
  ultimately show ?thesis using pq by (simp add: ilog2_def Let_def)
qed

lemma ilog2_unique: "pow2 e \<le> x \<Longrightarrow> x < pow2 (e + 1) \<Longrightarrow> ilog2 x = e"
proof -
  assume a: "pow2 e \<le> x" "x < pow2 (e + 1)"
  then have "0 < x" using pow2_pos [of e] by linarith
  from ilog2_bounds [OF this] a have "pow2 (ilog2 x) < pow2 (e + 1)" "pow2 e < pow2 (ilog2 x + 1)"
    by linarith+
  then show "ilog2 x = e" by (simp add: pow2_less)
qed

lemma ilog2_mono: "0 < x \<Longrightarrow> x \<le> y \<Longrightarrow> ilog2 x \<le> ilog2 y"
proof -
  assume a: "0 < x" "x \<le> y"
  then have "pow2 (ilog2 x) < pow2 (ilog2 y + 1)"
    using ilog2_bounds [of x] ilog2_bounds [of y] by linarith
  then show "ilog2 x \<le> ilog2 y" by (simp add: pow2_less)
qed

section \<open>Round half to even\<close>

definition rne :: "rat \<Rightarrow> int" where
  "rne y = (let f = \<lfloor>y\<rfloor>; d = y - of_int f in
     if d < 1 / 2 then f else if 1 / 2 < d then f + 1 else if even f then f else f + 1)"

lemma rne_of_int [simp]: "rne (of_int n) = n"
  by (simp add: rne_def)

lemma rne_bounds: "\<lfloor>y\<rfloor> \<le> rne y" "rne y \<le> \<lfloor>y\<rfloor> + 1"
  by (simp_all add: rne_def Let_def)

lemma rne_error: "\<bar>of_int (rne y) - y\<bar> \<le> 1 / 2"
proof -
  have "of_int \<lfloor>y\<rfloor> \<le> y" "y < of_int \<lfloor>y\<rfloor> + 1" by linarith+
  then show ?thesis by (auto simp: rne_def Let_def abs_le_iff)
qed

lemma rne_mono: "x \<le> y \<Longrightarrow> rne x \<le> rne y"
proof (cases "\<lfloor>x\<rfloor> = \<lfloor>y\<rfloor>")
  case True
  assume "x \<le> y"
  then have "x - of_int \<lfloor>x\<rfloor> \<le> y - of_int \<lfloor>y\<rfloor>" using True by simp
  with True show ?thesis by (auto simp: rne_def Let_def)
next
  case False
  assume "x \<le> y"
  then have "\<lfloor>x\<rfloor> + 1 \<le> \<lfloor>y\<rfloor>" using False floor_mono [of x y] by linarith
  then show ?thesis using rne_bounds [of x] rne_bounds [of y] by linarith
qed

section \<open>Rounding to 53 bits\<close>

definition f64_pos :: "rat \<Rightarrow> rat" where
  "f64_pos x = (let u = pow2 (ilog2 x - 52) in of_int (rne (x / u)) * u)"

definition f64 :: "rat \<Rightarrow> rat" where
  "f64 x = (if x = 0 then 0 else if x < 0 then - f64_pos (- x) else f64_pos x)"

lemma f64_0 [simp]: "f64 0 = 0"
  by (simp add: f64_def)

lemma f64_neg: "f64 (- x) = - f64 x"
  by (simp add: f64_def)

lemma f64_pos_range:
  assumes "0 < x"
  shows "pow2 (ilog2 x) \<le> f64_pos x" "f64_pos x \<le> pow2 (ilog2 x + 1)"
proof -
  let ?u = "pow2 (ilog2 x - 52)"
  have b: "?u * 2 ^ 52 \<le> x" "x < ?u * 2 ^ 53"
    using ilog2_bounds [OF assms] by (simp_all only: pow2_diff_52)
  have "2 ^ 52 \<le> x / ?u" "x / ?u \<le> 2 ^ 53"
    using b by (simp_all add: pos_le_divide_eq pos_divide_le_eq mult.commute)
  then have "rne (of_int (2 ^ 52)) \<le> rne (x / ?u)" "rne (x / ?u) \<le> rne (of_int (2 ^ 53))"
    by (intro rne_mono; simp)+
  then have "(2 ^ 52 :: int) \<le> rne (x / ?u)" "rne (x / ?u) \<le> (2 ^ 53 :: int)"
    by (simp_all only: rne_of_int)
  then have "of_int (2 ^ 52) \<le> (of_int (rne (x / ?u)) :: rat)" "(of_int (rne (x / ?u)) :: rat) \<le> of_int (2 ^ 53)"
    by (simp_all only: of_int_le_iff)
  then have "2 ^ 52 * ?u \<le> f64_pos x" "f64_pos x \<le> 2 ^ 53 * ?u"
    by (simp_all add: f64_pos_def Let_def mult_right_mono less_imp_le)
  then show "pow2 (ilog2 x) \<le> f64_pos x" "f64_pos x \<le> pow2 (ilog2 x + 1)"
    using pow2_diff_52 [of "ilog2 x"] by (simp_all add: mult.commute)
qed

lemma f64_pos_mono: "0 < x \<Longrightarrow> x \<le> y \<Longrightarrow> f64_pos x \<le> f64_pos y"
proof (cases "ilog2 x = ilog2 y")
  case True
  assume "0 < x" "x \<le> y"
  then have "x / pow2 (ilog2 y - 52) \<le> y / pow2 (ilog2 y - 52)"
    by (simp add: divide_right_mono less_imp_le)
  then have "rne (x / pow2 (ilog2 y - 52)) \<le> rne (y / pow2 (ilog2 y - 52))" by (rule rne_mono)
  with True show ?thesis by (simp add: f64_pos_def Let_def mult_right_mono less_imp_le)
next
  case False
  assume a: "0 < x" "x \<le> y"
  then have "ilog2 x + 1 \<le> ilog2 y" using ilog2_mono [of x y] False by linarith
  then have "pow2 (ilog2 x + 1) \<le> pow2 (ilog2 y)" by (rule pow2_mono)
  then show ?thesis using f64_pos_range [of x] f64_pos_range [of y] a by linarith
qed

lemma f64_pos_pos: "0 < x \<Longrightarrow> 0 < f64_pos x"
  using f64_pos_range(1) [of x] pow2_pos [of "ilog2 x"] by linarith

lemma f64_mono: "x \<le> y \<Longrightarrow> f64 x \<le> f64 y"
  using f64_pos_mono [of x y] f64_pos_mono [of "- y" "- x"] f64_pos_pos [of "- x"] f64_pos_pos [of y]
  by (auto simp: f64_def)

lemma f64_pos_int:
  assumes "0 < n" and "n < 2 ^ 53"
  shows "f64_pos (of_int n) = of_int n"
proof -
  let ?x = "of_int n :: rat"
  let ?e = "ilog2 ?x"
  have x: "0 < ?x" "1 \<le> ?x" using assms by simp_all
  have "?x < pow2 53" using assms(2) by (simp add: pow2_def)
  then have "pow2 ?e < pow2 53" using ilog2_bounds [OF x(1)] by linarith
  then have e: "?e - 52 \<le> 0" by (simp add: pow2_less)
  have "?x / pow2 (?e - 52) = of_int (n * 2 ^ nat (52 - ?e))"
    using e by (cases "?e = 52") (simp_all add: pow2_def)
  then have "rne (?x / pow2 (?e - 52)) = n * 2 ^ nat (52 - ?e)" by (metis rne_of_int)
  then show ?thesis
    using e by (cases "?e = 52") (simp_all add: f64_pos_def Let_def pow2_def)
qed

lemma f64_int: "\<bar>n\<bar> < 2 ^ 53 \<Longrightarrow> f64 (of_int n) = of_int n"
  using f64_pos_int [of n] f64_pos_int [of "- n"] by (auto simp: f64_def)

section \<open>The operations of the sources\<close>

definition fdiv :: "rat \<Rightarrow> rat \<Rightarrow> rat" where "fdiv a b = f64 (a / b)"
definition fmul :: "rat \<Rightarrow> rat \<Rightarrow> rat" where "fmul a b = f64 (a * b)"
definition fadd :: "rat \<Rightarrow> rat \<Rightarrow> rat" where "fadd a b = f64 (a + b)"
definition fsub :: "rat \<Rightarrow> rat \<Rightarrow> rat" where "fsub a b = f64 (a - b)"

text \<open>\<^verbatim>\<open>float64(x)\<close> of an unsigned or signed 64-bit integer.\<close>

definition float_of_u64 :: "u64 \<Rightarrow> rat" where "float_of_u64 w = f64 (of_nat (unat w))"
definition float_of_int :: "int \<Rightarrow> rat" where "float_of_int n = f64 (of_int n)"

text \<open>\<^verbatim>\<open>int64(x)\<close> of a float in range truncates towards zero.\<close>

definition trunc_float :: "rat \<Rightarrow> int" where
  "trunc_float x = (if 0 \<le> x then \<lfloor>x\<rfloor> else \<lceil>x\<rceil>)"

text \<open>\<^verbatim>\<open>Duration.Seconds\<close>: whole seconds plus the fraction, each a float.\<close>

definition duration_seconds :: "int \<Rightarrow> rat" where
  "duration_seconds d =
     fadd (float_of_int (d sdiv 10 ^ 9)) (fdiv (float_of_int (d smod 10 ^ 9)) (10 ^ 9))"

section \<open>What the collectors rely on\<close>

locale rounded_arithmetic =
  fixes rnd :: "rat \<Rightarrow> rat"
  assumes rnd_mono: "x \<le> y \<Longrightarrow> rnd x \<le> rnd y"
    and rnd_neg: "rnd (- x) = - rnd x"
    and rnd_int: "\<bar>n\<bar> < 2 ^ 53 \<Longrightarrow> rnd (of_int n) = of_int n"
begin

lemma rnd_0: "rnd 0 = 0"
  using rnd_int [of 0] by simp

lemma rnd_nonneg: "0 \<le> x \<Longrightarrow> 0 \<le> rnd x"
  using rnd_mono [of 0 x] by (simp add: rnd_0)

lemma rnd_ratio_nonneg: "0 \<le> a \<Longrightarrow> 0 \<le> b \<Longrightarrow> 0 \<le> rnd (rnd a / rnd b)"
  by (simp add: rnd_nonneg)

lemma rnd_range:
  assumes "of_int a \<le> x" "x \<le> of_int b" "\<bar>a\<bar> < 2 ^ 53" "\<bar>b\<bar> < 2 ^ 53"
  shows "of_int a \<le> rnd x \<and> rnd x \<le> of_int b"
  using rnd_mono [OF assms(1)] rnd_mono [OF assms(2)] assms(3,4) by (simp add: rnd_int)

end

interpretation f64: rounded_arithmetic f64
  by unfold_locales (simp_all add: f64_mono f64_neg f64_int)

lemma fdiv_nonneg: "0 \<le> a \<Longrightarrow> 0 \<le> b \<Longrightarrow> 0 \<le> fdiv a b"
  by (simp add: fdiv_def f64.rnd_nonneg)

lemma fadd_nonneg: "0 \<le> a \<Longrightarrow> 0 \<le> b \<Longrightarrow> 0 \<le> fadd a b"
  by (simp add: fadd_def f64.rnd_nonneg)

lemma fmul_nonneg: "0 \<le> a \<Longrightarrow> 0 \<le> b \<Longrightarrow> 0 \<le> fmul a b"
  by (simp add: fmul_def f64.rnd_nonneg)

lemma float_of_u64_nonneg [simp]: "0 \<le> float_of_u64 w"
  unfolding float_of_u64_def by (rule f64.rnd_nonneg) (rule of_nat_0_le_iff)

lemma float_of_u64_0 [simp]: "float_of_u64 0 = 0"
  by (simp add: float_of_u64_def)

lemma f64_numeral: "numeral n < (2 ^ 53 :: int) \<Longrightarrow> f64 (numeral n) = numeral n"
  using f64_int [of "numeral n"] by simp

end
