(* ===== verification/Event.thy ===== *)
theory Event
  imports GoStrings GoFloat
begin

text \<open>
  The event envelope shared by every security collector (pkg/event/envelope.go), with the
  dynamically typed metadata values that occur in it. A nil metadata map behaves like an empty
  one for every read in the sources and is modelled as the empty map.
\<close>

datatype any =
    AnyString string
  | AnyStrings "string list"
  | AnyBool bool
  | AnyU16 u16
  | AnyU32 u32
  | AnyU64 u64
  | AnyI32 u32
  | AnyInt int
  | AnyFloat rat

definition EventTypeFork :: string where "EventTypeFork = ''process_fork''"
definition EventTypeExec :: string where "EventTypeExec = ''exec''"
definition EventTypeDNSQuery :: string where "EventTypeDNSQuery = ''dns_query''"
definition EventTypePrivEsc :: string where "EventTypePrivEsc = ''privilege_escalation''"
definition EventTypeEscapeIndicator :: string where
  "EventTypeEscapeIndicator = ''escape_indicator''"

record EventEnvelope =
  ev_Timestamp :: time
  ev_CgroupID :: u64
  ev_ContainerName :: string
  ev_PID :: u32
  ev_PPID :: u32
  ev_Process :: string
  ev_ParentProcess :: string
  ev_EventType :: string
  ev_AncestryTruncated :: bool
  ev_Metadata :: "(string, any) gomap"

text \<open>The zero value of the struct, and the one with the identifying fields set.\<close>

definition zero_event :: EventEnvelope where
  "zero_event = \<lparr>ev_Timestamp = zero_time, ev_CgroupID = 0, ev_ContainerName = [], ev_PID = 0,
     ev_PPID = 0, ev_Process = [], ev_ParentProcess = [], ev_EventType = [],
     ev_AncestryTruncated = False, ev_Metadata = []\<rparr>"

definition plain_event :: "string \<Rightarrow> u64 \<Rightarrow> u32 \<Rightarrow> u32 \<Rightarrow> EventEnvelope" where
  "plain_event ty cg pid ppid =
     zero_event\<lparr>ev_EventType := ty, ev_CgroupID := cg, ev_PID := pid, ev_PPID := ppid\<rparr>"

text \<open>
  \<^verbatim>\<open>uint32Meta\<close> of pkg/graph/model.go: a missing key and a value of another type both give
  \<^verbatim>\<open>(0, false)\<close>; wider integers are truncated to 32 bits.
\<close>

definition uint32Meta :: "(string, any) gomap \<Rightarrow> string \<Rightarrow> u32 \<times> bool" where
  "uint32Meta m key = (case map_of m key of
       None \<Rightarrow> (0, False)
     | Some v \<Rightarrow> (case v of
           AnyU32 x \<Rightarrow> (x, True)
         | AnyInt x \<Rightarrow> (word_of_int x, True)
         | AnyU64 x \<Rightarrow> (ucast x, True)
         | AnyFloat x \<Rightarrow> (word_of_int (trunc_float x), True)
         | _ \<Rightarrow> (0, False)))"

definition string_meta :: "(string, any) gomap \<Rightarrow> string \<Rightarrow> string option" where
  "string_meta m key = (case map_of m key of Some (AnyString s) \<Rightarrow> Some s | _ \<Rightarrow> None)"

definition float_meta :: "(string, any) gomap \<Rightarrow> string \<Rightarrow> rat option" where
  "float_meta m key = (case map_of m key of Some (AnyFloat x) \<Rightarrow> Some x | _ \<Rightarrow> None)"

section \<open>Writers\<close>

text \<open>
  The interface \<^verbatim>\<open>SecurityEventWriter\<close>: a writer passes on the events it accepts, in the order they are
  written, and keeps what it passed on before.
\<close>

locale security_event_writer =
  fixes write_event :: "EventEnvelope \<Rightarrow> 'w \<Rightarrow> 'w" and passed :: "'w \<Rightarrow> EventEnvelope list" and accepts :: "EventEnvelope \<Rightarrow> bool"
  assumes write_passes: "passed (write_event ev w) = passed w @ (if accepts ev then [ev] else [])"
begin

lemma passed_all: "passed (foldl (\<lambda>w ev. write_event ev w) w evs) = passed w @ filter accepts evs"
  by (induction evs arbitrary: w) (simp_all add: write_passes)

end

end
