(* ===== verification/RingBuffer.thy ===== *)
theory RingBuffer
  imports Prelude
begin

text \<open>
  Fixed-capacity circular buffers: \<^verbatim>\<open>timeseries.Buffer\<close> (pkg/timeseries/timeseries.go).
  The interface locale \<open>bounded_log\<close> states what every ring of the program promises, namely to
  hold the last \<open>cap\<close> items in arrival order; the same locale is interpreted again for the
  event ring of a process node and for the sparkline widget.
\<close>

section \<open>Rings as lists\<close>

text \<open>The \<open>n\<close> items before position \<open>h\<close> of a circular array, oldest first.\<close>

definition ring_list :: "'a list \<Rightarrow> nat \<Rightarrow> nat \<Rightarrow> 'a list" where
  "ring_list d h n = map (\<lambda>i. d ! ((h + (length d - n) + i) mod length d)) [0..<n]"

lemma length_ring_list [simp]: "length (ring_list d h n) = n"
  by (simp add: ring_list_def)

lemma ring_index_neq:
  assumes "h < L" and "i < n" and "n < L \<or> 0 < i" and "n \<le> L"
  shows "(h + (L - n) + i) mod L \<noteq> (h :: nat)"
proof (cases "h + (L - n) + i < L")
  case True
  then have "(h + (L - n) + i) mod L = h + (L - n) + i" by simp
  then show ?thesis using assms by arith
next
  case False
  then have "(h + (L - n) + i) mod L = h + (L - n) + i - L"
    using assms by (subst mod_if) (auto simp: le_mod_geq)
  then show ?thesis using assms False by auto
qed

lemma ring_push_grow:
  assumes h: "h < length d" and n: "n < length d"
  shows "ring_list (d[h := x]) (Suc h mod length d) (Suc n) = ring_list d h n @ [x]"
proof (rule nth_equalityI)
  fix i
  assume "i < length (ring_list (d[h := x]) (Suc h mod length d) (Suc n))"
  then have i: "i < Suc n" by simp
  let ?L = "length d"
  have idx: "(Suc h mod ?L + (?L - Suc n) + i) mod ?L = (h + (?L - n) + i) mod ?L"
    using n by (metis Suc_diff_Suc add_Suc add_Suc_right mod_add_left_eq)
  show "ring_list (d[h := x]) (Suc h mod ?L) (Suc n) ! i = (ring_list d h n @ [x]) ! i"
  proof (cases "i < n")
    case True
    with idx ring_index_neq [OF h True] n i show ?thesis
      by (simp add: ring_list_def nth_append del: upt_Suc)
  next
    case False
    with i have "i = n" by simp
    then have "(h + (?L - n) + i) mod ?L = h" using h n by simp
    with idx \<open>i = n\<close> h i show ?thesis
      by (simp add: ring_list_def nth_append del: upt_Suc)
  qed
qed simp

lemma ring_push_full:
  assumes h: "h < length d"
  shows "ring_list (d[h := x]) (Suc h mod length d) (length d) = tl (ring_list d h (length d)) @ [x]"
proof (rule nth_equalityI)
  show "length (ring_list (d[h := x]) (Suc h mod length d) (length d)) =
        length (tl (ring_list d h (length d)) @ [x])"
    using h by simp
next
  fix i
  assume "i < length (ring_list (d[h := x]) (Suc h mod length d) (length d))"
  then have i: "i < length d" by simp
  let ?L = "length d"
  have idx: "(Suc h mod ?L + i) mod ?L = (h + Suc i) mod ?L"
    by (metis add_Suc add_Suc_right mod_add_left_eq)
  show "ring_list (d[h := x]) (Suc h mod ?L) ?L ! i = (tl (ring_list d h ?L) @ [x]) ! i"
  proof (cases "Suc i < ?L")
    case True
    then have "i < ?L - 1" by simp
    with idx ring_index_neq [OF h True] i True show ?thesis
      by (simp add: ring_list_def nth_append nth_tl)
  next
    case False
    with i have L: "?L = Suc i" by simp
    have "Suc (h + i) mod Suc i = h"
      using h L by (metis add_Suc_right mod_add_self2 mod_less)
    with idx h i L show ?thesis
      by (simp add: ring_list_def nth_append nth_tl)
  qed
qed

lemma ring_push:
  assumes "h < length d" and "n \<le> length d"
  shows "ring_list (d[h := x]) (Suc h mod length d) (if n < length d then Suc n else n) =
         take_last (length d) (ring_list d h n @ [x])"
proof (cases "n < length d")
  case True
  with assms(1) show ?thesis by (simp add: ring_push_grow)
next
  case False
  with assms have "n = length d" "0 < length d" by auto
  with assms(1) show ?thesis by (simp add: ring_push_full take_last_snoc)
qed

section \<open>The interface of a bounded log\<close>

locale bounded_log =
  fixes push :: "'b \<Rightarrow> 'a \<Rightarrow> 'b go"
    and contents :: "'b \<Rightarrow> 'a list"
    and capacity :: "'b \<Rightarrow> nat"
    and invar :: "'b \<Rightarrow> bool"
  assumes push_ok: "invar b \<Longrightarrow>
      \<exists>b'. push b x = Inr b' \<and> invar b' \<and> capacity b' = capacity b \<and>
           contents b' = take_last (capacity b) (contents b @ [x])"
    and bounded: "invar b \<Longrightarrow> length (contents b) \<le> capacity b"
begin

fun push_all :: "'b \<Rightarrow> 'a list \<Rightarrow> 'b go" where
  "push_all b [] = Inr b"
| "push_all b (x # xs) = go_bind (push b x) (\<lambda>b'. push_all b' xs)"

lemma push_all_contents:
  assumes "invar b"
  shows "\<exists>b'. push_all b xs = Inr b' \<and> invar b' \<and> capacity b' = capacity b \<and>
              contents b' = take_last (capacity b) (contents b @ xs)"
  using assms
proof (induction xs arbitrary: b)
  case Nil
  then show ?case using bounded [OF Nil] by simp
next
  case (Cons x xs)
  from push_ok [OF Cons.prems, of x] obtain c where c: "push b x = Inr c" "invar c"
    "capacity c = capacity b" "contents c = take_last (capacity b) (contents b @ [x])" by blast
  from Cons.IH [OF c(2)] c show ?case
    by (auto simp: take_last_append_take_last)
qed

lemma push_never_panics: "invar b \<Longrightarrow> \<not> panics (push b x)"
  using push_ok [of b x] by (auto simp: not_panics_iff)

end

section \<open>timeseries.Buffer\<close>

record 'a buffer =
  b_data :: "'a list"
  b_head :: int
  b_size :: int
  b_cap :: int

text \<open>\<^verbatim>\<open>make([]T, capacity)\<close> panics on a negative length and fills with the zero value.\<close>

definition NewBuffer :: "'a \<Rightarrow> int \<Rightarrow> 'a buffer go" where
  "NewBuffer zero capacity =
     (if capacity < 0 then Inl MakeSlice
      else Inr \<lparr>b_data = replicate (nat capacity) zero, b_head = 0, b_size = 0, b_cap = capacity\<rparr>)"

definition Buffer_Push :: "'a buffer \<Rightarrow> 'a \<Rightarrow> 'a buffer go" where
  "Buffer_Push b item =
     go_bind (go_set (b_data b) (b_head b) item) (\<lambda>d.
     go_bind (go_rem (b_head b + 1) (b_cap b)) (\<lambda>h.
     let b1 = b\<lparr>b_data := d, b_head := h\<rparr> in
     Inr (if b_size b1 < b_cap b1 then b1\<lparr>b_size := b_size b1 + 1\<rparr> else b1)))"

text \<open>The copy loop \<^verbatim>\<open>for i := 0; i < b.size; i++\<close>.\<close>

fun buffer_copy :: "'a buffer \<Rightarrow> int \<Rightarrow> nat list \<Rightarrow> 'a list go" where
  "buffer_copy b start [] = Inr []"
| "buffer_copy b start (i # is) =
     go_bind (go_rem (start + int i) (b_cap b)) (\<lambda>j.
     go_bind (go_index (b_data b) j) (\<lambda>v.
     go_bind (buffer_copy b start is) (\<lambda>vs. Inr (v # vs))))"

definition Buffer_Snapshot :: "'a buffer \<Rightarrow> 'a list go" where
  "Buffer_Snapshot b =
     (if b_size b = 0 then Inr []
      else go_bind (go_rem (b_head b - b_size b + b_cap b) (b_cap b)) (\<lambda>start.
           buffer_copy b start [0..<nat (b_size b)]))"

definition Buffer_Clear :: "'a buffer \<Rightarrow> 'a buffer" where
  "Buffer_Clear b = b\<lparr>b_head := 0, b_size := 0\<rparr>"

definition buffer_ok :: "'a buffer \<Rightarrow> bool" where
  "buffer_ok b \<longleftrightarrow> 0 < b_cap b \<and> int (length (b_data b)) = b_cap b \<and>
     0 \<le> b_head b \<and> b_head b < b_cap b \<and> 0 \<le> b_size b \<and> b_size b \<le> b_cap b"

definition buffer_list :: "'a buffer \<Rightarrow> 'a list" where
  "buffer_list b = ring_list (b_data b) (nat (b_head b)) (nat (b_size b))"

lemma buffer_ok_new: "0 < c \<Longrightarrow> NewBuffer z c = Inr b \<Longrightarrow> buffer_ok b \<and> buffer_list b = []"
  by (auto simp: NewBuffer_def buffer_ok_def buffer_list_def ring_list_def)

lemma buffer_ok_clear: "buffer_ok b \<Longrightarrow> buffer_ok (Buffer_Clear b) \<and> buffer_list (Buffer_Clear b) = []"
  by (auto simp: Buffer_Clear_def buffer_ok_def buffer_list_def ring_list_def)

lemma nat_Suc_mod: "0 \<le> a \<Longrightarrow> 0 < c \<Longrightarrow> nat ((a + 1) mod c) = Suc (nat a) mod nat c"
  by (simp add: nat_mod_distrib Suc_nat_eq_nat_zadd1 add.commute)

lemma buffer_push_ok:
  assumes "buffer_ok b"
  shows "\<exists>b'. Buffer_Push b x = Inr b' \<and> buffer_ok b' \<and> b_cap b' = b_cap b \<and>
              buffer_list b' = take_last (nat (b_cap b)) (buffer_list b @ [x])"
proof -
  let ?L = "length (b_data b)"
  have L: "nat (b_cap b) = ?L" and cap: "b_cap b = int ?L" "0 < ?L"
    using assms by (auto simp: buffer_ok_def)
  have h: "nat (b_head b) < ?L" and n: "nat (b_size b) \<le> ?L"
    using assms by (auto simp: buffer_ok_def)
  define b' where "b' = b\<lparr>b_data := (b_data b)[nat (b_head b) := x],
    b_head := (b_head b + 1) mod b_cap b,
    b_size := (if b_size b < b_cap b then b_size b + 1 else b_size b)\<rparr>"
  have "Buffer_Push b x = Inr b'"
    using assms by (simp add: Buffer_Push_def buffer_ok_def b'_def Let_def)
  moreover have "buffer_ok b'"
    using assms by (auto simp: buffer_ok_def b'_def)
  moreover have "nat (b_size b') = (if nat (b_size b) < ?L then Suc (nat (b_size b)) else nat (b_size b))"
    using assms by (auto simp: buffer_ok_def b'_def)
  moreover have "nat (b_head b') = Suc (nat (b_head b)) mod ?L"
    using assms by (simp add: b'_def nat_Suc_mod L buffer_ok_def)
  ultimately show ?thesis
    using ring_push [OF h n, of x] by (auto simp: buffer_list_def b'_def L)
qed

lemma buffer_copy_ok:
  assumes "buffer_ok b" and "0 \<le> s"
  shows "buffer_copy b s is = Inr (map (\<lambda>i. b_data b ! ((nat s + i) mod length (b_data b))) is)"
proof (induction "is")
  case (Cons i "is")
  have "b_cap b = int (length (b_data b))" and "s = int (nat s)"
    using assms by (simp_all add: buffer_ok_def)
  then have "nat ((s + int i) mod b_cap b) = (nat s + i) mod length (b_data b)"
    by (metis nat_int of_nat_add zmod_int)
  with Cons assms show ?case by (auto simp: buffer_ok_def)
qed simp

lemma buffer_snapshot_ok:
  assumes "buffer_ok b"
  shows "Buffer_Snapshot b = Inr (buffer_list b)"
proof (cases "b_size b = 0")
  case True
  then show ?thesis by (simp add: Buffer_Snapshot_def buffer_list_def ring_list_def)
next
  case False
  let ?s = "(b_head b - b_size b + b_cap b) mod b_cap b"
  have "b_cap b = int (length (b_data b))"
    and "b_head b - b_size b + b_cap b = int (nat (b_head b) + (length (b_data b) - nat (b_size b)))"
    using assms by (auto simp: buffer_ok_def)
  then have "nat ?s = (nat (b_head b) + (length (b_data b) - nat (b_size b))) mod length (b_data b)"
    by (metis nat_int zmod_int)
  then show ?thesis
    using assms False
    by (simp add: Buffer_Snapshot_def buffer_copy_ok buffer_list_def ring_list_def mod_add_left_eq)
       (simp add: buffer_ok_def buffer_copy_ok mod_add_left_eq)
qed

interpretation tsbuf: bounded_log Buffer_Push buffer_list "\<lambda>b. nat (b_cap b)" buffer_ok
proof unfold_locales
  fix b :: "'b buffer" and x
  assume "buffer_ok b"
  then show "\<exists>b'. Buffer_Push b x = Inr b' \<and> buffer_ok b' \<and> nat (b_cap b') = nat (b_cap b) \<and>
      buffer_list b' = take_last (nat (b_cap b)) (buffer_list b @ [x])"
    using buffer_push_ok [of b x] by auto
qed (auto simp: buffer_ok_def buffer_list_def)

text \<open>
  C36: A buffer of positive capacity takes any number of pushes without panicking, and
  \<^verbatim>\<open>Snapshot\<close> then returns the last \<^verbatim>\<open>capacity\<close> items pushed since it was created or
  cleared, oldest first.
\<close>

theorem Buffer_keeps_last:
  assumes "0 < capacity"
  shows "\<exists>b b' b''. NewBuffer zero capacity = Inr b \<and> tsbuf.push_all b xs = Inr b' \<and>
     Buffer_Snapshot b' = Inr (take_last (nat capacity) xs) \<and>
     tsbuf.push_all (Buffer_Clear b') ys = Inr b'' \<and>
     Buffer_Snapshot b'' = Inr (take_last (nat capacity) ys)"
proof -
  obtain b where b: "NewBuffer zero capacity = Inr b" "b_cap b = capacity"
    using assms by (auto simp: NewBuffer_def)
  have ok: "buffer_ok b" "buffer_list b = []" using buffer_ok_new [OF assms b(1)] by auto
  from tsbuf.push_all_contents [OF ok(1), of xs] obtain b' where
    b': "tsbuf.push_all b xs = Inr b'" "buffer_ok b'" "nat (b_cap b') = nat capacity"
    "buffer_list b' = take_last (nat capacity) xs" using ok(2) b(2) by auto
  have clear: "buffer_ok (Buffer_Clear b')" "buffer_list (Buffer_Clear b') = []" "b_cap (Buffer_Clear b') = b_cap b'"
    using buffer_ok_clear [OF b'(2)] by (auto simp: Buffer_Clear_def)
  from tsbuf.push_all_contents [OF clear(1), of ys] obtain b'' where
    "tsbuf.push_all (Buffer_Clear b') ys = Inr b''" "buffer_ok b''"
    "buffer_list b'' = take_last (nat capacity) ys" using clear b'(3) by auto
  with b b' buffer_snapshot_ok [of b'] buffer_snapshot_ok [of b''] show ?thesis by auto
qed

theorem Buffer_keeps_last_witness:
  "\<exists>b b' b''. NewBuffer (0::nat) 3 = Inr b \<and> tsbuf.push_all b [1, 2, 3, 4, 5] = Inr b' \<and>
     Buffer_Snapshot b' = Inr [3, 4, 5] \<and> tsbuf.push_all (Buffer_Clear b') [6] = Inr b'' \<and>
     Buffer_Snapshot b'' = Inr [6]"
  using Buffer_keeps_last [of 3 "0::nat" "[1, 2, 3, 4, 5]" "[6]"] by (simp add: take_last_def)

end
