(* ===== verification/ProcessGraph.thy ===== *)
theory ProcessGraph
  imports Event RingBuffer
begin

text \<open>
  The in-memory process graph (pkg/graph/model.go): nodes keyed by cgroup and process id, the
  parent-to-children index, the session index, the per-node ring of correlated events, eviction
  by insertion sequence, the ancestry walk and the read-only snapshot. Every write operation is
  one definition over the record \<open>ProcessGraph\<close>; the invariant \<open>graph_ok\<close> is kept by all of them.
\<close>

section \<open>Nodes\<close>

definition MaxAncestors :: int where "MaxAncestors = 8"
definition EventRingCap :: int where "EventRingCap = 32"
definition DefaultMaxNodes :: int where "DefaultMaxNodes = 8192"

record NodeKey =
  nk_CgroupID :: u64
  nk_PID :: u32

definition mk_key :: "u64 \<Rightarrow> u32 \<Rightarrow> NodeKey" where
  "mk_key cg pid = \<lparr>nk_CgroupID = cg, nk_PID = pid\<rparr>"

record ProcessNode =
  n_Key :: NodeKey
  n_PPID :: u32
  n_Comm :: string
  n_ExePath :: string
  n_ContainerName :: string
  n_ForkTime :: time
  n_ExecTime :: time
  n_SID :: u32
  n_PGID :: u32
  n_IsAlive :: bool
  n_ExitCode :: int
  n_events :: "EventEnvelope option list"
  n_evHead :: int
  n_evCount :: int
  n_seq :: u64

text \<open>\<^verbatim>\<open>&ProcessNode{Key: k, seq: s}\<close>: every other field has its zero value.\<close>

definition zero_node :: "NodeKey \<Rightarrow> u64 \<Rightarrow> ProcessNode" where
  "zero_node k s = \<lparr>n_Key = k, n_PPID = 0, n_Comm = [], n_ExePath = [], n_ContainerName = [],
     n_ForkTime = zero_time, n_ExecTime = zero_time, n_SID = 0, n_PGID = 0, n_IsAlive = False,
     n_ExitCode = 0, n_events = replicate 32 None, n_evHead = 0, n_evCount = 0, n_seq = s\<rparr>"

definition pushEvent :: "ProcessNode \<Rightarrow> EventEnvelope option \<Rightarrow> ProcessNode go" where
  "pushEvent n ev =
     go_bind (go_set (n_events n) (n_evHead n) ev) (\<lambda>evs.
     go_bind (go_rem (n_evHead n + 1) EventRingCap) (\<lambda>h.
     let n1 = n\<lparr>n_events := evs, n_evHead := h\<rparr> in
     Inr (if n_evCount n1 < EventRingCap then n1\<lparr>n_evCount := n_evCount n1 + 1\<rparr> else n1)))"

fun event_ring_copy :: "ProcessNode \<Rightarrow> nat list \<Rightarrow> EventEnvelope option list go" where
  "event_ring_copy n [] = Inr []"
| "event_ring_copy n (i # is) =
     go_bind (go_rem (n_evHead n + int i) EventRingCap) (\<lambda>j.
     go_bind (go_index (n_events n) j) (\<lambda>v.
     go_bind (event_ring_copy n is) (\<lambda>vs. Inr (v # vs))))"

definition EventRing :: "ProcessNode \<Rightarrow> EventEnvelope option list go" where
  "EventRing n =
     (if n_evCount n = 0 then Inr []
      else if n_evCount n < EventRingCap then go_slice (n_events n) 0 (n_evCount n)
      else event_ring_copy n [0..<nat EventRingCap])"

text \<open>The ring invariant: until the ring is full the head is the fill level.\<close>

definition ring_ok :: "ProcessNode \<Rightarrow> bool" where
  "ring_ok n \<longleftrightarrow> length (n_events n) = 32 \<and> 0 \<le> n_evHead n \<and> n_evHead n < 32 \<and>
     0 \<le> n_evCount n \<and> n_evCount n \<le> 32 \<and> (n_evCount n < 32 \<longrightarrow> n_evHead n = n_evCount n)"

definition node_events :: "ProcessNode \<Rightarrow> EventEnvelope option list" where
  "node_events n = ring_list (n_events n) (nat (n_evHead n)) (nat (n_evCount n))"

lemma ring_ok_zero [simp]: "ring_ok (zero_node k s)"
  by (simp add: ring_ok_def zero_node_def)

lemma pushEvent_ok:
  assumes "ring_ok n"
  shows "\<exists>n'. pushEvent n ev = Inr n' \<and> ring_ok n' \<and>
           node_events n' = take_last 32 (node_events n @ [ev]) \<and>
           n_Key n' = n_Key n \<and> n_seq n' = n_seq n \<and> n_SID n' = n_SID n \<and> n_PPID n' = n_PPID n"
proof -
  define n' where "n' = n\<lparr>n_events := (n_events n)[nat (n_evHead n) := ev],
    n_evHead := (n_evHead n + 1) mod 32,
    n_evCount := (if n_evCount n < 32 then n_evCount n + 1 else n_evCount n)\<rparr>"
  have p: "pushEvent n ev = Inr n'"
    using assms by (simp add: pushEvent_def ring_ok_def n'_def EventRingCap_def Let_def)
  have ok: "ring_ok n'"
    using assms by (auto simp: ring_ok_def n'_def)
  have h: "nat (n_evHead n) < length (n_events n)" and c: "nat (n_evCount n) \<le> length (n_events n)"
    using assms by (auto simp: ring_ok_def)
  have "nat (n_evCount n') = (if nat (n_evCount n) < 32 then Suc (nat (n_evCount n)) else nat (n_evCount n))"
    using assms by (auto simp: ring_ok_def n'_def)
  moreover have "nat (n_evHead n') = Suc (nat (n_evHead n)) mod 32"
    using assms by (simp add: n'_def nat_Suc_mod ring_ok_def)
  ultimately have "node_events n' = take_last 32 (node_events n @ [ev])"
    using ring_push [OF h c, of ev] assms by (simp add: node_events_def n'_def ring_ok_def)
  with p ok show ?thesis by (auto simp: n'_def)
qed

lemma event_ring_copy_ok:
  "ring_ok n \<Longrightarrow>
   event_ring_copy n is = Inr (map (\<lambda>i. n_events n ! ((nat (n_evHead n) + i) mod 32)) is)"
proof (induction "is")
  case (Cons i "is")
  have "nat ((n_evHead n + int i) mod 32) = (nat (n_evHead n) + i) mod 32"
    using Cons.prems by (simp add: ring_ok_def nat_mod_distrib nat_add_distrib)
  with Cons show ?case by (auto simp: ring_ok_def EventRingCap_def)
qed simp

lemma EventRing_ok:
  assumes "ring_ok n"
  shows "EventRing n = Inr (node_events n)"
proof -
  consider "n_evCount n = 0" | "0 < n_evCount n" "n_evCount n < 32" | "n_evCount n = 32"
    using assms by (fastforce simp: ring_ok_def)
  then show ?thesis
  proof cases
    case 1
    then show ?thesis by (simp add: EventRing_def node_events_def ring_list_def)
  next
    case 2
    have "ring_list (n_events n) (nat (n_evHead n)) (nat (n_evCount n)) = take (nat (n_evCount n)) (n_events n)"
      using assms 2 by (intro nth_equalityI) (auto simp: ring_list_def ring_ok_def)
    with 2 assms show ?thesis
      by (simp add: EventRing_def EventRingCap_def node_events_def ring_ok_def go_slice_ok)
  next
    case 3
    with assms show ?thesis
      by (simp add: EventRing_def EventRingCap_def event_ring_copy_ok node_events_def ring_list_def ring_ok_def)
  qed
qed

interpretation evring: bounded_log pushEvent node_events "\<lambda>_. 32" ring_ok
proof unfold_locales
  fix n ev
  assume "ring_ok n"
  then show "\<exists>n'. pushEvent n ev = Inr n' \<and> ring_ok n' \<and> (32::nat) = 32 \<and>
      node_events n' = take_last 32 (node_events n @ [ev])"
    using pushEvent_ok [of n ev] by auto
qed (auto simp: node_events_def ring_ok_def)

section \<open>The graph\<close>

record ProcessGraph =
  g_nodes :: "(NodeKey, ProcessNode) gomap"
  g_children :: "(NodeKey, NodeKey list) gomap"
  g_sessions :: "(u32, NodeKey list) gomap"
  g_maxNodes :: int
  g_seq :: u64

definition New_graph :: "int \<Rightarrow> ProcessGraph" where
  "New_graph maxNodes =
     \<lparr>g_nodes = [], g_children = [], g_sessions = [],
      g_maxNodes = (if maxNodes \<le> 0 then DefaultMaxNodes else maxNodes), g_seq = 0\<rparr>"

fun containsKey :: "NodeKey list \<Rightarrow> NodeKey \<Rightarrow> bool" where
  "containsKey [] k = False"
| "containsKey (x # ks) k = (if x = k then True else containsKey ks k)"

definition removeKey :: "NodeKey list \<Rightarrow> NodeKey \<Rightarrow> NodeKey list" where
  "removeKey ks k = filter (\<lambda>x. x \<noteq> k) ks"

text \<open>The scan of \<^verbatim>\<open>evictIfNeeded\<close> for the lowest sequence number.\<close>

definition oldest_of :: "(NodeKey \<times> ProcessNode) list \<Rightarrow> NodeKey \<times> u64" where
  "oldest_of nodes =
     foldl (\<lambda>(oldest, oldestSeq) (k, n).
        if n_seq n < oldestSeq then (k, n_seq n) else (oldest, oldestSeq))
       (mk_key 0 0, - 1) nodes"

definition evictIfNeeded :: "ProcessGraph \<Rightarrow> ProcessGraph" where
  "evictIfNeeded g =
     (if int (length (g_nodes g)) \<le> g_maxNodes g then g
      else let oldest = fst (oldest_of (g_nodes g));
               children = AList.delete oldest (map (\<lambda>(pk, ks). (pk, removeKey ks oldest)) (g_children g));
               sessions = (case map_of (g_nodes g) oldest of
                   None \<Rightarrow> g_sessions g
                 | Some n \<Rightarrow> if n_SID n \<noteq> 0
                     then AList.update (n_SID n) (removeKey (m_list (g_sessions g) (n_SID n)) oldest) (g_sessions g)
                     else g_sessions g)
           in g\<lparr>g_nodes := AList.delete oldest (g_nodes g), g_children := children,
                g_sessions := sessions\<rparr>)"

text \<open>Inserting a node: \<^verbatim>\<open>g.seq++\<close>, the map store, and the write through the node pointer.\<close>

definition insert_node :: "ProcessGraph \<Rightarrow> (u64 \<Rightarrow> ProcessNode) \<Rightarrow> ProcessGraph" where
  "insert_node g mk =
     (let s = g_seq g + 1; n = mk s in
      g\<lparr>g_seq := s, g_nodes := AList.update (n_Key n) n (g_nodes g)\<rparr>)"

definition modify_node :: "NodeKey \<Rightarrow> (ProcessNode \<Rightarrow> ProcessNode) \<Rightarrow> ProcessGraph \<Rightarrow> ProcessGraph" where
  "modify_node k f g = g\<lparr>g_nodes := m_modify (g_nodes g) k f\<rparr>"

definition add_child :: "NodeKey \<Rightarrow> NodeKey \<Rightarrow> ProcessGraph \<Rightarrow> ProcessGraph" where
  "add_child parent child g =
     (if containsKey (m_list (g_children g) parent) child then g
      else g\<lparr>g_children :=
        AList.update parent (m_list (g_children g) parent @ [child]) (g_children g)\<rparr>)"

definition add_session :: "u32 \<Rightarrow> NodeKey \<Rightarrow> ProcessGraph \<Rightarrow> ProcessGraph" where
  "add_session sid k g =
     (if containsKey (m_list (g_sessions g) sid) k then g
      else g\<lparr>g_sessions := AList.update sid (m_list (g_sessions g) sid @ [k]) (g_sessions g)\<rparr>)"

definition fork_parent :: "EventEnvelope \<Rightarrow> ProcessGraph \<Rightarrow> ProcessGraph" where
  "fork_parent env g =
     (let parentKey = mk_key (ev_CgroupID env) (ev_PPID env) in
      if map_of (g_nodes g) parentKey = None \<and> ev_PPID env \<noteq> 0
      then evictIfNeeded (insert_node g (\<lambda>s. (zero_node parentKey s)
             \<lparr>n_Comm := ev_ParentProcess env, n_ContainerName := ev_ContainerName env,
              n_IsAlive := True\<rparr>))
      else g)"

definition fork_child :: "EventEnvelope \<Rightarrow> ProcessGraph \<Rightarrow> ProcessGraph" where
  "fork_child env g =
     (let childKey = mk_key (ev_CgroupID env) (ev_PID env) in
      if map_of (g_nodes g) childKey = None
      then evictIfNeeded (insert_node g (\<lambda>s. zero_node childKey s)) else g)"

definition fork_session :: "EventEnvelope \<Rightarrow> ProcessGraph \<Rightarrow> ProcessGraph" where
  "fork_session env g =
     (let childKey = mk_key (ev_CgroupID env) (ev_PID env);
          sid = uint32Meta (ev_Metadata env) ''sid'';
          g1 = (if snd sid \<and> fst sid \<noteq> 0
                then add_session (fst sid) childKey (modify_node childKey (\<lambda>n. n\<lparr>n_SID := fst sid\<rparr>) g)
                else g);
          pgid = uint32Meta (ev_Metadata env) ''pgid''
      in if snd pgid then modify_node childKey (\<lambda>n. n\<lparr>n_PGID := fst pgid\<rparr>) g1 else g1)"

definition AddFork :: "EventEnvelope \<Rightarrow> ProcessGraph \<Rightarrow> ProcessGraph" where
  "AddFork env g =
     (let childKey = mk_key (ev_CgroupID env) (ev_PID env);
          parentKey = mk_key (ev_CgroupID env) (ev_PPID env);
          g1 = fork_child env (fork_parent env g);
          g2 = modify_node childKey (\<lambda>n. n\<lparr>n_PPID := ev_PPID env, n_Comm := ev_Process env,
                 n_ContainerName := ev_ContainerName env, n_ForkTime := ev_Timestamp env,
                 n_IsAlive := True\<rparr>) g1;
          g3 = add_child parentKey childKey g2
      in fork_session env g3)"

definition exec_node :: "EventEnvelope \<Rightarrow> ProcessGraph \<Rightarrow> ProcessGraph" where
  "exec_node env g =
     (let key = mk_key (ev_CgroupID env) (ev_PID env);
          parentKey = mk_key (ev_CgroupID env) (ev_PPID env) in
      if map_of (g_nodes g) key = None
      then evictIfNeeded (add_child parentKey key (insert_node g (\<lambda>s. (zero_node key s)
             \<lparr>n_PPID := ev_PPID env, n_IsAlive := True\<rparr>)))
      else g)"

definition exec_session :: "EventEnvelope \<Rightarrow> ProcessGraph \<Rightarrow> ProcessGraph" where
  "exec_session env g =
     (let key = mk_key (ev_CgroupID env) (ev_PID env);
          sid = uint32Meta (ev_Metadata env) ''sid'' in
      case map_of (g_nodes g) key of
        None \<Rightarrow> g
      | Some n \<Rightarrow>
          if snd sid \<and> fst sid \<noteq> 0 \<and> n_SID n = 0
          then add_session (fst sid) key (modify_node key (\<lambda>n. n\<lparr>n_SID := fst sid\<rparr>) g)
          else g)"

definition AddExec :: "EventEnvelope \<Rightarrow> ProcessGraph \<Rightarrow> ProcessGraph" where
  "AddExec env g =
     (let key = mk_key (ev_CgroupID env) (ev_PID env);
          g1 = exec_node env g;
          g2 = modify_node key (\<lambda>n. n\<lparr>n_Comm := ev_Process env, n_ExecTime := ev_Timestamp env\<rparr>) g1;
          g3 = (if ev_ContainerName env \<noteq> []
                then modify_node key (\<lambda>n. n\<lparr>n_ContainerName := ev_ContainerName env\<rparr>) g2 else g2);
          g4 = (case string_meta (ev_Metadata env) ''full_path'' of
                  Some path \<Rightarrow> if path \<noteq> [] then modify_node key (\<lambda>n. n\<lparr>n_ExePath := path\<rparr>) g3 else g3
                | None \<Rightarrow> g3)
      in exec_session env g4)"

definition MarkExit :: "u64 \<Rightarrow> u32 \<Rightarrow> int \<Rightarrow> ProcessGraph \<Rightarrow> ProcessGraph" where
  "MarkExit cg pid exitCode g =
     modify_node (mk_key cg pid) (\<lambda>n. n\<lparr>n_IsAlive := False, n_ExitCode := exitCode\<rparr>) g"

definition CorrelateEvent :: "u64 \<Rightarrow> u32 \<Rightarrow> EventEnvelope \<Rightarrow> ProcessGraph \<Rightarrow> ProcessGraph go" where
  "CorrelateEvent cg pid ev g =
     (let key = mk_key cg pid in
      case map_of (g_nodes g) key of
        None \<Rightarrow> Inr g
      | Some n \<Rightarrow> go_bind (pushEvent n (Some ev)) (\<lambda>n'.
          Inr (g\<lparr>g_nodes := AList.update key n' (g_nodes g)\<rparr>)))"

section \<open>Read paths\<close>

definition Lookup_node :: "ProcessGraph \<Rightarrow> u64 \<Rightarrow> u32 \<Rightarrow> ProcessNode option" where
  "Lookup_node g cg pid = map_of (g_nodes g) (mk_key cg pid)"

text \<open>
  The loop of \<^verbatim>\<open>Ancestors\<close>, node first. It is shared with the snapshot, whose nodes carry
  the same parent pointer: \<open>ppid\<close> reads it.
\<close>

fun ancestor_walk :: "('n \<Rightarrow> u32) \<Rightarrow> (NodeKey, 'n) gomap \<Rightarrow> nat \<Rightarrow> NodeKey \<Rightarrow> NodeKey list \<Rightarrow> 'n list" where
  "ancestor_walk ppid nodes 0 key visited = []"
| "ancestor_walk ppid nodes (Suc d) key visited =
     (case map_of nodes key of
        None \<Rightarrow> []
      | Some n \<Rightarrow>
          if key \<in> set visited then []
          else n # (if ppid n = 0 \<or> ppid n = 1 \<or> ppid n = nk_PID key then []
                    else ancestor_walk ppid nodes d (mk_key (nk_CgroupID key) (ppid n)) (key # visited)))"

definition Ancestors :: "ProcessGraph \<Rightarrow> u64 \<Rightarrow> u32 \<Rightarrow> int \<Rightarrow> ProcessNode list \<times> bool" where
  "Ancestors g cg pid maxDepth =
     (let md = (if maxDepth \<le> 0 then MaxAncestors else maxDepth);
          chain = ancestor_walk n_PPID (g_nodes g) (nat md) (mk_key cg pid) []
      in (rev chain, md \<le> int (length chain)))"

definition Children :: "ProcessGraph \<Rightarrow> u64 \<Rightarrow> u32 \<Rightarrow> ProcessNode list" where
  "Children g cg pid =
     List.map_filter (map_of (g_nodes g)) (m_list (g_children g) (mk_key cg pid))"

definition Session :: "ProcessGraph \<Rightarrow> u32 \<Rightarrow> ProcessNode list" where
  "Session g sid = List.map_filter (map_of (g_nodes g)) (m_list (g_sessions g) sid)"

text \<open>
  \<^verbatim>\<open>Roots\<close> ranges over the node map in an unspecified order \<open>ord\<close> and sorts with
  \<^verbatim>\<open>sort.Slice\<close>: both are arguments.
\<close>

definition is_root :: "('n \<Rightarrow> u32) \<Rightarrow> (NodeKey, 'n) gomap \<Rightarrow> NodeKey \<Rightarrow> 'n \<Rightarrow> bool" where
  "is_root ppid nodes key n \<longleftrightarrow>
     ppid n = 0 \<or> ppid n = 1 \<or> map_of nodes (mk_key (nk_CgroupID key) (ppid n)) = None"

definition Roots ::
  "(ProcessNode list \<Rightarrow> ProcessNode list) \<Rightarrow> (NodeKey, ProcessNode) gomap \<Rightarrow> ProcessGraph \<Rightarrow> u64 \<Rightarrow> ProcessNode list" where
  "Roots srt ord g cg =
     srt (map snd (filter (\<lambda>(key, n).
       \<not> (cg \<noteq> 0 \<and> nk_CgroupID key \<noteq> cg) \<and> is_root n_PPID (g_nodes g) key n) ord))"

definition NodeCount :: "ProcessGraph \<Rightarrow> int" where
  "NodeCount g = int (length (g_nodes g))"

section \<open>Snapshots\<close>

record SnapshotNode =
  sn_Key :: NodeKey
  sn_PPID :: u32
  sn_Comm :: string
  sn_ExePath :: string
  sn_ContainerName :: string
  sn_ForkTime :: time
  sn_ExecTime :: time
  sn_SID :: u32
  sn_PGID :: u32
  sn_IsAlive :: bool
  sn_ExitCode :: int
  sn_Events :: "EventEnvelope option list"
  sn_Children :: "NodeKey list"

record Snapshot =
  s_Nodes :: "(NodeKey, SnapshotNode) gomap"
  s_Sessions :: "(u32, NodeKey list) gomap"
  s_Roots :: "NodeKey list"
  s_At :: time

definition snapshot_node :: "ProcessGraph \<Rightarrow> NodeKey \<Rightarrow> ProcessNode \<Rightarrow> SnapshotNode go" where
  "snapshot_node g key n =
     go_bind (EventRing n) (\<lambda>evs. Inr
       \<lparr>sn_Key = n_Key n, sn_PPID = n_PPID n, sn_Comm = n_Comm n, sn_ExePath = n_ExePath n,
        sn_ContainerName = n_ContainerName n, sn_ForkTime = n_ForkTime n, sn_ExecTime = n_ExecTime n,
        sn_SID = n_SID n, sn_PGID = n_PGID n, sn_IsAlive = n_IsAlive n, sn_ExitCode = n_ExitCode n,
        sn_Events = evs, sn_Children = m_list (g_children g) key\<rparr>)"

fun snapshot_nodes :: "ProcessGraph \<Rightarrow> (NodeKey, ProcessNode) gomap \<Rightarrow> (NodeKey, SnapshotNode) gomap go" where
  "snapshot_nodes g [] = Inr []"
| "snapshot_nodes g ((k, n) # ns) =
     go_bind (snapshot_node g k n) (\<lambda>sn. go_bind (snapshot_nodes g ns) (\<lambda>sns. Inr ((k, sn) # sns)))"

definition snapshot_roots ::
  "(NodeKey list \<Rightarrow> NodeKey list) \<Rightarrow> (NodeKey, SnapshotNode) gomap \<Rightarrow> NodeKey list" where
  "snapshot_roots srt sns =
     srt (map fst (filter (\<lambda>(key, sn). is_root sn_PPID sns key sn) sns))"

definition Snapshot_graph :: "((NodeKey, SnapshotNode) gomap \<Rightarrow> NodeKey list \<Rightarrow> NodeKey list) \<Rightarrow> time \<Rightarrow> ProcessGraph \<Rightarrow> Snapshot go" where
  "Snapshot_graph srt now g =
     go_bind (snapshot_nodes g (g_nodes g)) (\<lambda>sns. Inr
       \<lparr>s_Nodes = sns, s_Sessions = g_sessions g, s_Roots = snapshot_roots (srt sns) sns, s_At = now\<rparr>)"

definition Snapshot_Ancestors :: "Snapshot \<Rightarrow> NodeKey \<Rightarrow> SnapshotNode list" where
  "Snapshot_Ancestors s key = rev (ancestor_walk sn_PPID (s_Nodes s) (nat MaxAncestors) key [])"

definition Snapshot_Children :: "Snapshot \<Rightarrow> NodeKey \<Rightarrow> SnapshotNode list" where
  "Snapshot_Children s key = (case map_of (s_Nodes s) key of
      None \<Rightarrow> [] | Some n \<Rightarrow> List.map_filter (map_of (s_Nodes s)) (sn_Children n))"

definition GroupByCgroup :: "(NodeKey, SnapshotNode) gomap \<Rightarrow> (u64, SnapshotNode list) gomap" where
  "GroupByCgroup ord =
     foldl (\<lambda>m (k, n). AList.update (nk_CgroupID (sn_Key n)) (m_list m (nk_CgroupID (sn_Key n)) @ [n]) m) [] ord"

definition RootsForCgroup :: "Snapshot \<Rightarrow> u64 \<Rightarrow> SnapshotNode list" where
  "RootsForCgroup s cg =
     List.map_filter (map_of (s_Nodes s)) (filter (\<lambda>key. nk_CgroupID key = cg) (s_Roots s))"

definition DisplayComm :: "SnapshotNode \<Rightarrow> string" where
  "DisplayComm n =
     (if sn_ExePath n \<noteq> []
      then let idx = LastIndexByte (sn_ExePath n) CHR ''/'' in
           if 0 \<le> idx then drop (nat idx + 1) (sn_ExePath n) else sn_ExePath n
      else sn_Comm n)"

end
