(* ===== verification/GraphInvariants.thy ===== *)
theory GraphInvariants
  imports ProcessGraph
begin

text \<open>
  The invariant of the process graph and its preservation by every write operation: the
  eviction step removes the node inserted first, the node count stays within its bound, the
  child lists name tracked nodes of the same cgroup only, and every node is listed in its own
  session.
\<close>

section \<open>The invariant\<close>

definition node_ok :: "ProcessGraph \<Rightarrow> NodeKey \<Rightarrow> ProcessNode \<Rightarrow> bool" where
  "node_ok g k n \<longleftrightarrow> n_Key n = k \<and> ring_ok n \<and> n_seq n \<le> g_seq g \<and>
     (n_SID n \<noteq> 0 \<longrightarrow> k \<in> set (m_list (g_sessions g) (n_SID n)))"

definition seqs_distinct :: "(NodeKey, ProcessNode) gomap \<Rightarrow> bool" where
  "seqs_distinct nodes \<longleftrightarrow> (\<forall>k1 n1 k2 n2. map_of nodes k1 = Some n1 \<longrightarrow> map_of nodes k2 = Some n2 \<longrightarrow>
     n_seq n1 = n_seq n2 \<longrightarrow> k1 = k2)"

definition children_ok :: "ProcessGraph \<Rightarrow> bool" where
  "children_ok g \<longleftrightarrow> (\<forall>pk. distinct (m_list (g_children g) pk) \<and>
     (\<forall>c \<in> set (m_list (g_children g) pk).
        map_of (g_nodes g) c \<noteq> None \<and> nk_CgroupID c = nk_CgroupID pk))"

definition graph_ok :: "ProcessGraph \<Rightarrow> bool" where
  "graph_ok g \<longleftrightarrow>
     distinct (keys (g_nodes g)) \<and> distinct (keys (g_children g)) \<and> distinct (keys (g_sessions g)) \<and>
     1 \<le> g_maxNodes g \<and>
     (\<forall>k n. map_of (g_nodes g) k = Some n \<longrightarrow> node_ok g k n) \<and>
     seqs_distinct (g_nodes g) \<and> children_ok g \<and>
     (\<forall>sid. distinct (m_list (g_sessions g) sid))"

definition within_cap :: "ProcessGraph \<Rightarrow> bool" where
  "within_cap g \<longleftrightarrow> int (length (g_nodes g)) \<le> g_maxNodes g"

definition seq_room :: "ProcessGraph \<Rightarrow> nat \<Rightarrow> bool" where
  "seq_room g n \<longleftrightarrow> unat (g_seq g) + n < 2 ^ 64 - 1"

lemma graph_okD:
  assumes "graph_ok g"
  shows "distinct (keys (g_nodes g))" "distinct (keys (g_children g))" "distinct (keys (g_sessions g))"
    "1 \<le> g_maxNodes g" "\<And>k n. map_of (g_nodes g) k = Some n \<Longrightarrow> node_ok g k n"
    "seqs_distinct (g_nodes g)" "children_ok g" "distinct (m_list (g_sessions g) sid)"
  using assms by (auto simp: graph_ok_def)

lemma containsKey_iff [simp]: "containsKey ks k \<longleftrightarrow> k \<in> set ks"
  by (induction ks) auto

lemma set_removeKey [simp]: "set (removeKey ks k) = set ks - {k}"
  by (auto simp: removeKey_def)

lemma distinct_removeKey: "distinct ks \<Longrightarrow> distinct (removeKey ks k)"
  by (simp add: removeKey_def)

lemma mk_key_simps [simp]: "nk_CgroupID (mk_key c p) = c" "nk_PID (mk_key c p) = p"
  by (simp_all add: mk_key_def)

lemma mk_key_eta [simp]: "mk_key (nk_CgroupID k) (nk_PID k) = k"
  by (simp add: mk_key_def)

lemma New_graph_ok: "graph_ok (New_graph m) \<and> within_cap (New_graph m)"
  by (auto simp: graph_ok_def New_graph_def within_cap_def seqs_distinct_def children_ok_def
      m_list_def DefaultMaxNodes_def)

section \<open>Updating one node\<close>

text \<open>An update through a node pointer that leaves the identity, ring, sequence and session alone.\<close>

definition frame_update :: "(ProcessNode \<Rightarrow> ProcessNode) \<Rightarrow> bool" where
  "frame_update f \<longleftrightarrow> (\<forall>n. n_Key (f n) = n_Key n \<and> n_seq (f n) = n_seq n \<and> n_SID (f n) = n_SID n \<and>
     n_events (f n) = n_events n \<and> n_evHead (f n) = n_evHead n \<and> n_evCount (f n) = n_evCount n)"

lemma modify_node_frame [simp]:
  "g_children (modify_node k f g) = g_children g" "g_sessions (modify_node k f g) = g_sessions g"
  "g_maxNodes (modify_node k f g) = g_maxNodes g" "g_seq (modify_node k f g) = g_seq g"
  "length (g_nodes (modify_node k f g)) = length (g_nodes g)"
  by (simp_all add: modify_node_def)

lemma map_of_modify_node:
  "map_of (g_nodes (modify_node k f g)) k' =
     (if k' = k then map_option f (map_of (g_nodes g) k) else map_of (g_nodes g) k')"
  by (simp add: modify_node_def map_of_modify)

lemma modify_seqs_distinct:
  assumes "seqs_distinct (g_nodes g)" and "\<And>n. n_seq (f n) = n_seq n"
  shows "seqs_distinct (g_nodes (modify_node k f g))"
  unfolding seqs_distinct_def
proof (intro allI impI)
  fix k1 n1 k2 n2
  assume a: "map_of (g_nodes (modify_node k f g)) k1 = Some n1"
    "map_of (g_nodes (modify_node k f g)) k2 = Some n2" "n_seq n1 = n_seq n2"
  obtain m1 m2 where "map_of (g_nodes g) k1 = Some m1" "n_seq m1 = n_seq n1"
    "map_of (g_nodes g) k2 = Some m2" "n_seq m2 = n_seq n2"
    using a(1,2) assms(2) by (auto simp: map_of_modify_node split: if_splits)
  then show "k1 = k2" using assms(1) a(3) unfolding seqs_distinct_def by metis
qed

lemma modify_children_ok: "children_ok g \<Longrightarrow> children_ok (modify_node k f g)"
  by (auto simp: children_ok_def map_of_modify_node)

lemma graph_ok_modify:
  assumes "graph_ok g" and "frame_update f"
  shows "graph_ok (modify_node k f g)"
proof -
  have "node_ok (modify_node k f g) k' n'" if "map_of (g_nodes (modify_node k f g)) k' = Some n'" for k' n'
    using that assms
    by (auto simp: map_of_modify_node graph_ok_def node_ok_def frame_update_def ring_ok_def split: if_splits)
  then show ?thesis
    using assms modify_seqs_distinct [of g f k] modify_children_ok [of g k f]
    by (simp add: graph_ok_def frame_update_def) (simp add: modify_node_def)
qed

lemma graph_ok_session:
  assumes "graph_ok g" and "sid \<noteq> 0"
  shows "graph_ok (add_session sid k (modify_node k (\<lambda>n. n\<lparr>n_SID := sid\<rparr>) g))"
proof -
  let ?f = "\<lambda>n. n\<lparr>n_SID := sid\<rparr>"
  let ?g = "add_session sid k (modify_node k ?f g)"
  have nodes: "g_nodes ?g = g_nodes (modify_node k ?f g)" and rest: "g_children ?g = g_children g"
    "g_maxNodes ?g = g_maxNodes g" "g_seq ?g = g_seq g"
    by (simp_all add: add_session_def)
  have sess: "m_list (g_sessions ?g) s = (if s = sid \<and> k \<notin> set (m_list (g_sessions g) sid)
      then m_list (g_sessions g) sid @ [k] else m_list (g_sessions g) s)" for s
    by (simp add: add_session_def m_list_update)
  have n: "node_ok ?g k' n'" if "map_of (g_nodes ?g) k' = Some n'" for k' n'
    using that graph_okD(5) [OF assms(1)]
    by (auto simp: nodes map_of_modify_node node_ok_def sess rest ring_ok_def split: if_splits)
  have "children_ok ?g"
    using modify_children_ok [OF graph_okD(7) [OF assms(1)], of k ?f]
    by (simp add: children_ok_def nodes rest)
  moreover have "seqs_distinct (g_nodes ?g)"
    using modify_seqs_distinct [OF graph_okD(6) [OF assms(1)], of ?f k] by (simp add: nodes)
  moreover have "distinct (keys (g_sessions ?g))" "distinct (keys (g_nodes ?g))"
    using assms(1) by (simp_all add: add_session_def distinct_update graph_ok_def modify_node_def)
  moreover have "distinct (m_list (g_sessions ?g) s)" for s
    using graph_okD(8) [OF assms(1)] by (simp add: sess)
  ultimately show ?thesis using n assms(1) by (simp add: graph_ok_def rest)
qed

section \<open>Inserting nodes and children\<close>

lemma unat_inc: "unat (x :: u64) + 1 < 2 ^ 64 \<Longrightarrow> unat (x + 1) = unat x + 1"
  by (simp add: unat_word_ariths)

lemma insert_node_frame [simp]:
  "g_children (insert_node g mk) = g_children g" "g_sessions (insert_node g mk) = g_sessions g"
  "g_maxNodes (insert_node g mk) = g_maxNodes g" "g_seq (insert_node g mk) = g_seq g + 1"
  by (simp_all add: insert_node_def Let_def)

lemma g_nodes_insert [simp]:
  "g_nodes (insert_node g mk) = AList.update (n_Key (mk (g_seq g + 1))) (mk (g_seq g + 1)) (g_nodes g)"
  by (simp add: insert_node_def Let_def)

lemma graph_ok_insert:
  assumes ok: "graph_ok g" and room: "seq_room g 1" and new: "map_of (g_nodes g) k = None"
    and mk: "\<And>s. n_Key (mk s) = k \<and> n_seq (mk s) = s \<and> n_SID (mk s) = 0 \<and> ring_ok (mk s)"
  shows "graph_ok (insert_node g mk)"
proof -
  let ?s = "g_seq g + 1"
  have lt: "g_seq g < ?s"
    using room unat_inc [of "g_seq g"] by (simp add: seq_room_def word_less_nat_alt)
  have old: "n_seq n \<le> g_seq g" if "map_of (g_nodes g) k' = Some n" for k' n
    using graph_okD(5) [OF ok that] by (simp add: node_ok_def)
  have m: "map_of (g_nodes (insert_node g mk)) k' =
      (if k' = k then Some (mk ?s) else map_of (g_nodes g) k')" for k'
    using mk by (simp add: update_conv')
  have "node_ok (insert_node g mk) k' n" if "map_of (g_nodes (insert_node g mk)) k' = Some n" for k' n
  proof (cases "k' = k")
    case True
    with that mk show ?thesis by (auto simp: m node_ok_def simp del: g_nodes_insert)
  next
    case False
    with that have "map_of (g_nodes g) k' = Some n" by (simp only: m if_False)
    from graph_okD(5) [OF ok this] show ?thesis
      using order.trans [OF _ less_imp_le [OF lt]] by (simp add: node_ok_def)
  qed
  moreover have "seqs_distinct (g_nodes (insert_node g mk))"
    unfolding seqs_distinct_def m
  proof (intro allI impI)
    fix k1 n1 k2 n2
    assume a: "(if k1 = k then Some (mk ?s) else map_of (g_nodes g) k1) = Some n1"
      "(if k2 = k then Some (mk ?s) else map_of (g_nodes g) k2) = Some n2" "n_seq n1 = n_seq n2"
    have new: "n_seq (mk ?s) = ?s" using mk by simp
    have "n_seq n \<noteq> ?s" if "map_of (g_nodes g) j = Some n" for j n
      using old [OF that] lt by auto
    with a new show "k1 = k2"
      using graph_okD(6) [OF ok] unfolding seqs_distinct_def by (metis option.inject)
  qed
  moreover have "children_ok (insert_node g mk)"
    using graph_okD(7) [OF ok] by (auto simp: children_ok_def m simp del: g_nodes_insert)
  ultimately show ?thesis using ok by (simp add: graph_ok_def distinct_update)
qed

lemma length_insert:
  "map_of (g_nodes g) (n_Key (mk (g_seq g + 1))) = None \<Longrightarrow>
   length (g_nodes (insert_node g mk)) = Suc (length (g_nodes g))"
  by (simp add: length_update_new map_of_eq_None_iff image_iff)

lemma add_child_frame [simp]:
  "g_nodes (add_child p c g) = g_nodes g" "g_sessions (add_child p c g) = g_sessions g"
  "g_maxNodes (add_child p c g) = g_maxNodes g" "g_seq (add_child p c g) = g_seq g"
  by (simp_all add: add_child_def)

lemma m_list_add_child:
  "m_list (g_children (add_child p c g)) p' =
     (if p' = p \<and> c \<notin> set (m_list (g_children g) p) then m_list (g_children g) p @ [c]
      else m_list (g_children g) p')"
  by (simp add: add_child_def m_list_update)

lemma graph_ok_add_child:
  assumes "graph_ok g" and "map_of (g_nodes g) c \<noteq> None" and "nk_CgroupID c = nk_CgroupID p"
  shows "graph_ok (add_child p c g)"
proof -
  have "children_ok (add_child p c g)"
    using graph_okD(7) [OF assms(1)] assms(2,3) by (auto simp: children_ok_def m_list_add_child)
  moreover have "distinct (keys (g_children (add_child p c g)))"
    using assms(1) by (simp add: add_child_def graph_ok_def distinct_update)
  moreover have "node_ok (add_child p c g) k n = node_ok g k n" for k n
    by (simp add: node_ok_def)
  ultimately show ?thesis using assms(1) by (simp add: graph_ok_def)
qed

section \<open>Eviction\<close>

lemma oldest_scan:
  "foldl (\<lambda>(oldest, oldestSeq) (k, n).
      if n_seq n < oldestSeq then (k, n_seq n) else (oldest, oldestSeq)) (k0, s0) nodes = (k1, s1) \<Longrightarrow>
    s1 \<le> s0 \<and> (\<forall>(k, n) \<in> set nodes. s1 \<le> n_seq n) \<and>
    ((k1, s1) = (k0, s0) \<or> (\<exists>n. (k1, n) \<in> set nodes \<and> n_seq n = s1))"
proof (induction nodes arbitrary: k0 s0)
  case (Cons kn nodes)
  obtain k n where kn: "kn = (k, n)" by fastforce
  show ?case
  proof (cases "n_seq n < s0")
    case True
    with Cons.prems kn have "foldl (\<lambda>(oldest, oldestSeq) (k, n).
        if n_seq n < oldestSeq then (k, n_seq n) else (oldest, oldestSeq)) (k, n_seq n) nodes = (k1, s1)"
      by simp
    from Cons.IH [OF this] True kn show ?thesis by auto
  next
    case False
    with Cons.prems kn have "foldl (\<lambda>(oldest, oldestSeq) (k, n).
        if n_seq n < oldestSeq then (k, n_seq n) else (oldest, oldestSeq)) (k0, s0) nodes = (k1, s1)"
      by simp
    from Cons.IH [OF this] False kn show ?thesis by auto
  qed
qed simp

text \<open>The scan finds the node with the least sequence number.\<close>

lemma oldest_of_min:
  assumes "distinct (keys nodes)" and "nodes \<noteq> []"
    and "\<forall>k n. map_of nodes k = Some n \<longrightarrow> n_seq n < - 1"
  shows "\<exists>n. map_of nodes (fst (oldest_of nodes)) = Some n \<and>
           (\<forall>k m. map_of nodes k = Some m \<longrightarrow> n_seq n \<le> n_seq m)"
proof -
  obtain k1 s1 where r: "oldest_of nodes = (k1, s1)" by fastforce
  from oldest_scan [OF r [unfolded oldest_of_def]]
  have min: "\<forall>(k, n) \<in> set nodes. s1 \<le> n_seq n"
    and hit: "(k1, s1) = (mk_key 0 0, - 1) \<or> (\<exists>n. (k1, n) \<in> set nodes \<and> n_seq n = s1)" by auto
  obtain k n where kn: "(k, n) \<in> set nodes" using assms(2) by (cases nodes) auto
  then have "n_seq n < - 1" using assms(1,3) by (simp add: map_of_eq_Some_iff)
  with min kn have "s1 \<noteq> - 1" by force
  with hit obtain n1 where "(k1, n1) \<in> set nodes" "n_seq n1 = s1" by auto
  with min assms(1) r show ?thesis by (auto simp: map_of_eq_Some_iff intro!: exI [of _ n1])
qed

text \<open>The scan does not depend on the order in which the map is ranged over.\<close>

lemma oldest_of_order:
  assumes "distinct (keys nodes)" and "seqs_distinct nodes" and "nodes \<noteq> []"
    and "\<forall>k n. map_of nodes k = Some n \<longrightarrow> n_seq n < - 1" and "mset ord = mset nodes"
  shows "fst (oldest_of ord) = fst (oldest_of nodes)"
proof -
  have d: "distinct (keys ord)"
    using assms(1,5) by (metis mset_eq_imp_distinct_iff mset_map)
  have eq: "map_of ord = map_of nodes"
    using d assms(1,5) by (metis map_of_inject_set set_mset_mset)
  then have "seqs_distinct ord" "ord \<noteq> []"
    using assms(2,3,5) by (auto simp: seqs_distinct_def)
  obtain n1 where n1: "map_of nodes (fst (oldest_of ord)) = Some n1"
    "\<forall>k m. map_of nodes k = Some m \<longrightarrow> n_seq n1 \<le> n_seq m"
    using oldest_of_min [OF d \<open>ord \<noteq> []\<close>] assms(4) eq by auto
  obtain n2 where n2: "map_of nodes (fst (oldest_of nodes)) = Some n2"
    "\<forall>k m. map_of nodes k = Some m \<longrightarrow> n_seq n2 \<le> n_seq m"
    using oldest_of_min [OF assms(1,3,4)] by auto
  have "n_seq n1 = n_seq n2" using n1 n2 by (meson order.antisym)
  with n1(1) n2(1) assms(2) show ?thesis unfolding seqs_distinct_def by blast
qed

definition evicts :: "ProcessGraph \<Rightarrow> NodeKey \<Rightarrow> bool" where
  "evicts g k \<longleftrightarrow> \<not> within_cap g \<and> k = fst (oldest_of (g_nodes g))"

lemma m_list_map_delete:
  "m_list (AList.delete k (map (\<lambda>(pk, ks). (pk, f ks)) m)) pk =
     (if pk = k then [] else if map_of m pk = None then [] else f (m_list m pk))"
  by (induction m) (auto simp: m_list_def delete_conv' split: option.splits)

lemma evict_nodes:
  "map_of (g_nodes (evictIfNeeded g)) k = (if evicts g k then None else map_of (g_nodes g) k)"
  by (auto simp: evictIfNeeded_def evicts_def within_cap_def Let_def delete_conv')

lemma evict_frame [simp]:
  "g_maxNodes (evictIfNeeded g) = g_maxNodes g" "g_seq (evictIfNeeded g) = g_seq g"
  by (simp_all add: evictIfNeeded_def Let_def)

lemma evict_children:
  "m_list (g_children (evictIfNeeded g)) pk =
     (if within_cap g then m_list (g_children g) pk
      else if evicts g pk then [] else removeKey (m_list (g_children g) pk) (fst (oldest_of (g_nodes g))))"
  by (auto simp: evictIfNeeded_def within_cap_def evicts_def Let_def m_list_map_delete)
     (simp add: m_list_def removeKey_def)

lemma evict_sessions:
  "set (m_list (g_sessions (evictIfNeeded g)) sid) \<subseteq> set (m_list (g_sessions g) sid)"
  "k \<in> set (m_list (g_sessions g) sid) \<Longrightarrow> \<not> evicts g k \<Longrightarrow>
   k \<in> set (m_list (g_sessions (evictIfNeeded g)) sid)"
  "distinct (m_list (g_sessions g) sid) \<Longrightarrow> distinct (m_list (g_sessions (evictIfNeeded g)) sid)"
  by (auto simp: evictIfNeeded_def within_cap_def evicts_def Let_def m_list_update distinct_removeKey
      split: option.splits if_splits)

lemma keys_map_values: "map (fst \<circ> (\<lambda>(pk, ks). (pk, f ks))) m = keys m"
  by (induction m) auto

lemma evict_keys:
  assumes "graph_ok g"
  shows "distinct (keys (g_nodes (evictIfNeeded g)))" "distinct (keys (g_children (evictIfNeeded g)))"
    "distinct (keys (g_sessions (evictIfNeeded g)))"
  using graph_okD(1-3) [OF assms]
  by (simp_all add: evictIfNeeded_def Let_def keys_delete keys_map_values distinct_update split: option.splits)

lemma graph_ok_evict:
  assumes ok: "graph_ok g"
  shows "graph_ok (evictIfNeeded g)"
proof -
  have n: "node_ok (evictIfNeeded g) k n" if "map_of (g_nodes (evictIfNeeded g)) k = Some n" for k n
    using that graph_okD(5) [OF ok, of k n] evict_sessions(2) [of k g]
    by (auto simp: evict_nodes node_ok_def split: if_splits)
  have s: "seqs_distinct (g_nodes (evictIfNeeded g))"
    using graph_okD(6) [OF ok] by (auto simp: seqs_distinct_def evict_nodes split: if_splits)
  have c: "children_ok (evictIfNeeded g)"
    using graph_okD(7) [OF ok]
    by (auto simp: children_ok_def evict_children evict_nodes evicts_def distinct_removeKey split: if_splits)
  show ?thesis
    using n s c evict_keys [OF ok] ok evict_sessions(3) [of g] by (simp add: graph_ok_def)
qed

lemma seq_below_max:
  assumes "graph_ok g" and "seq_room g 0"
  shows "\<forall>k n. map_of (g_nodes g) k = Some n \<longrightarrow> n_seq n < - 1"
proof -
  have "g_seq g \<noteq> - 1"
    using assms(2) by (auto simp: seq_room_def unsigned_minus_1_eq_mask mask_eq_exp_minus_1)
  then have "g_seq g < - 1" by (simp add: word_order.not_eq_extremum)
  then show ?thesis
    using graph_okD(5) [OF assms(1)] by (auto simp: node_ok_def intro: order.strict_trans1)
qed

lemma another_key:
  assumes "distinct (keys m)" and "1 < length m"
  shows "\<exists>k' v. map_of m k' = Some v \<and> k' \<noteq> k"
proof -
  obtain a b r where m: "m = a # b # r" using assms(2) by (cases m; cases "tl m") auto
  with assms(1) have "fst a \<noteq> k \<or> fst b \<noteq> k" "fst a \<noteq> fst b" by auto
  with m show ?thesis by (cases a; cases b) (metis fst_conv map_of.simps(2) fun_upd_apply snd_conv)
qed

lemma evict_within_cap:
  assumes ok: "graph_ok g" and room: "seq_room g 0" and len: "int (length (g_nodes g)) \<le> g_maxNodes g + 1"
  shows "within_cap (evictIfNeeded g)"
proof (cases "within_cap g")
  case True
  then show ?thesis by (simp add: evictIfNeeded_def within_cap_def)
next
  case False
  have ne: "g_nodes g \<noteq> []" using False graph_okD(4) [OF ok] by (auto simp: within_cap_def)
  from oldest_of_min [OF graph_okD(1) [OF ok] ne seq_below_max [OF ok room]]
  have "fst (oldest_of (g_nodes g)) \<in> set (keys (g_nodes g))"
    by (auto dest: map_of_SomeD simp: rev_image_eqI)
  from length_delete_mem [OF graph_okD(1) [OF ok] this] len False show ?thesis
    by (auto simp: evictIfNeeded_def within_cap_def Let_def)
qed

text \<open>The node inserted last is never the one evicted.\<close>

lemma newest_not_evicted:
  assumes ok: "graph_ok g" and room: "seq_room g 0"
    and k: "map_of (g_nodes g) k = Some n" "n_seq n = g_seq g"
  shows "\<not> evicts g k"
proof
  assume e: "evicts g k"
  then have "1 < length (g_nodes g)"
    using graph_okD(4) [OF ok] by (auto simp: evicts_def within_cap_def)
  then obtain k' n' where o: "map_of (g_nodes g) k' = Some n'" "k' \<noteq> k"
    using another_key [OF graph_okD(1) [OF ok]] by blast
  have "g_nodes g \<noteq> []" using o by auto
  from oldest_of_min [OF graph_okD(1) [OF ok] this seq_below_max [OF ok room]] e k o
  have "n_seq n \<le> n_seq n'" by (auto simp: evicts_def)
  moreover have "n_seq n' \<le> n_seq n" using graph_okD(5) [OF ok o(1)] k by (simp add: node_ok_def)
  ultimately show False using graph_okD(6) [OF ok] k o unfolding seqs_distinct_def by (metis order.antisym)
qed

end
