(* ===== verification/GraphOps.thy ===== *)
theory GraphOps
  imports GraphInvariants
begin

text \<open>
  The write operations of the process graph keep its invariant and its size bound, whatever the
  sequence of events; what a fork leaves behind; what the ancestry walk returns; and that a
  snapshot answers ancestry queries as the live graph does.
\<close>

section \<open>The write operations\<close>

definition graph_inv :: "ProcessGraph \<Rightarrow> bool" where
  "graph_inv g \<longleftrightarrow> graph_ok g \<and> within_cap g"

lemma seq_room_mono: "seq_room g n \<Longrightarrow> m \<le> n \<Longrightarrow> seq_room g m"
  by (simp add: seq_room_def)

lemma seq_room_insert: "seq_room g (Suc n) \<Longrightarrow> g_seq g' = g_seq g + 1 \<Longrightarrow> seq_room g' n"
  using unat_inc [of "g_seq g"] by (simp add: seq_room_def)

text \<open>Storing a new node and evicting: the new node stays, the bound holds.\<close>

definition fresh_mk :: "NodeKey \<Rightarrow> (u64 \<Rightarrow> ProcessNode) \<Rightarrow> bool" where
  "fresh_mk k mk \<longleftrightarrow>
     (\<forall>s. n_Key (mk s) = k \<and> n_seq (mk s) = s \<and> n_SID (mk s) = 0 \<and> ring_ok (mk s))"

lemma insert_evict:
  assumes inv: "graph_inv g" and room: "seq_room g (Suc n)" and new: "map_of (g_nodes g) k = None"
    and fresh: "fresh_mk k mk"
    and h: "h = insert_node g mk \<or> h = add_child p k (insert_node g mk) \<and> nk_CgroupID k = nk_CgroupID p"
  shows "graph_inv (evictIfNeeded h)" "map_of (g_nodes (evictIfNeeded h)) k = Some (mk (g_seq g + 1))"
    "seq_room (evictIfNeeded h) n" "\<not> evicts h k"
proof -
  let ?i = "insert_node g mk"
  have mk: "n_Key (mk s) = k \<and> n_seq (mk s) = s \<and> n_SID (mk s) = 0 \<and> ring_ok (mk s)" for s
    using fresh by (simp add: fresh_mk_def)
  have ok: "graph_ok ?i"
    using inv room by (intro graph_ok_insert [OF _ _ new mk]) (auto simp: graph_inv_def seq_room_def)
  have k: "map_of (g_nodes ?i) k = Some (mk (g_seq g + 1))"
    using mk by (simp add: update_conv')
  have same: "g_nodes h = g_nodes ?i" "g_seq h = g_seq ?i" "g_maxNodes h = g_maxNodes g"
    using h by auto
  have okh: "graph_ok h"
    using h ok k graph_ok_add_child [OF ok] by fastforce
  have roomh: "seq_room h n" by (rule seq_room_insert [OF room]) (simp add: same)
  have len: "int (length (g_nodes h)) \<le> g_maxNodes h + 1"
    using inv new mk length_insert [of g mk]
    by (simp add: same graph_inv_def within_cap_def del: g_nodes_insert)
  have room0: "seq_room h 0" by (rule seq_room_mono [OF roomh]) simp
  show "graph_inv (evictIfNeeded h)"
    by (simp add: graph_inv_def graph_ok_evict [OF okh] evict_within_cap [OF okh room0 len])
  show "seq_room (evictIfNeeded h) n"
    using roomh by (simp add: seq_room_def)
  show ne: "\<not> evicts h k"
    by (rule newest_not_evicted [OF okh room0]) (use k same mk in auto)
  then show "map_of (g_nodes (evictIfNeeded h)) k = Some (mk (g_seq g + 1))"
    using k by (simp add: evict_nodes same del: g_nodes_insert)
qed

lemma graph_inv_modify: "graph_inv g \<Longrightarrow> frame_update f \<Longrightarrow> graph_inv (modify_node k f g)"
  by (simp add: graph_inv_def graph_ok_modify within_cap_def)

lemma graph_inv_add_child:
  "graph_inv g \<Longrightarrow> map_of (g_nodes g) c \<noteq> None \<Longrightarrow> nk_CgroupID c = nk_CgroupID p \<Longrightarrow>
   graph_inv (add_child p c g)"
  by (simp add: graph_inv_def graph_ok_add_child within_cap_def)

lemma graph_inv_session:
  "graph_inv g \<Longrightarrow> sid \<noteq> 0 \<Longrightarrow>
   graph_inv (add_session sid k (modify_node k (\<lambda>n. n\<lparr>n_SID := sid\<rparr>) g))"
  using graph_ok_session [of g sid k] by (auto simp: graph_inv_def within_cap_def add_session_def)

lemma seq_frame [simp]:
  "seq_room (modify_node k f g) n = seq_room g n" "seq_room (add_child p c g) n = seq_room g n"
  "seq_room (add_session sid k g) n = seq_room g n"
  by (simp_all add: seq_room_def add_session_def)

lemma fresh_mk_zero: "fresh_mk k (zero_node k)"
  by (simp add: fresh_mk_def) (simp add: zero_node_def)

lemma fresh_mk_upd:
  "fresh_mk k mk \<Longrightarrow> frame_update f \<Longrightarrow> fresh_mk k (\<lambda>s. f (mk s))"
  by (simp add: fresh_mk_def frame_update_def ring_ok_def)

lemma fork_parent_inv:
  assumes "graph_inv g" and "seq_room g (Suc n)"
  shows "graph_inv (fork_parent env g) \<and> seq_room (fork_parent env g) n"
proof (cases "map_of (g_nodes g) (mk_key (ev_CgroupID env) (ev_PPID env)) = None \<and> ev_PPID env \<noteq> 0")
  case True
  let ?f = "\<lambda>n. n\<lparr>n_Comm := ev_ParentProcess env, n_ContainerName := ev_ContainerName env, n_IsAlive := True\<rparr>"
  have "fresh_mk (mk_key (ev_CgroupID env) (ev_PPID env))
      (\<lambda>s. ?f (zero_node (mk_key (ev_CgroupID env) (ev_PPID env)) s))"
    by (rule fresh_mk_upd [OF fresh_mk_zero]) (simp add: frame_update_def)
  from insert_evict(1,3) [OF assms _ this disjI1 [OF refl]] True show ?thesis
    by (simp add: fork_parent_def Let_def)
next
  case False
  then have "fork_parent env g = g" unfolding fork_parent_def Let_def by (rule if_not_P)
  then show ?thesis using assms seq_room_mono [OF assms(2), of n] by simp
qed

lemma fork_child_inv:
  assumes "graph_inv g" and "seq_room g (Suc n)"
  shows "graph_inv (fork_child env g) \<and> seq_room (fork_child env g) n \<and>
         map_of (g_nodes (fork_child env g)) (mk_key (ev_CgroupID env) (ev_PID env)) \<noteq> None"
proof (cases "map_of (g_nodes g) (mk_key (ev_CgroupID env) (ev_PID env))")
  case None
  from insert_evict(1,2,3) [OF assms None fresh_mk_zero disjI1 [OF refl]] None show ?thesis
    by (simp add: fork_child_def Let_def)
next
  case Some
  then show ?thesis using assms seq_room_mono [OF assms(2), of n] by (simp add: fork_child_def Let_def)
qed

lemma fork_session_inv:
  assumes "graph_inv g"
  shows "graph_inv (fork_session env g)" "seq_room (fork_session env g) n = seq_room g n"
  using assms
  by (auto simp: fork_session_def Let_def intro!: graph_inv_modify graph_inv_session simp: frame_update_def)

lemma AddFork_inv [inv_intros]:
  assumes "graph_inv g" and "seq_room g (Suc (Suc n))"
  shows "graph_inv (AddFork env g) \<and> seq_room (AddFork env g) n"
proof -
  let ?g1 = "fork_child env (fork_parent env g)"
  from fork_parent_inv [OF assms] have "graph_inv (fork_parent env g)" "seq_room (fork_parent env g) (Suc n)"
    by auto
  from fork_child_inv [OF this]
  have g1: "graph_inv ?g1" "seq_room ?g1 n" "map_of (g_nodes ?g1) (mk_key (ev_CgroupID env) (ev_PID env)) \<noteq> None"
    by auto
  show ?thesis
    unfolding AddFork_def Let_def
    using g1 fork_session_inv [OF graph_inv_add_child [OF graph_inv_modify [OF g1(1)]]]
    by (simp add: frame_update_def map_of_modify_node)
qed

lemma exec_node_inv:
  assumes "graph_inv g" and "seq_room g (Suc n)"
  shows "graph_inv (exec_node env g) \<and> seq_room (exec_node env g) n \<and>
         map_of (g_nodes (exec_node env g)) (mk_key (ev_CgroupID env) (ev_PID env)) \<noteq> None"
proof (cases "map_of (g_nodes g) (mk_key (ev_CgroupID env) (ev_PID env))")
  case None
  let ?f = "\<lambda>n. n\<lparr>n_PPID := ev_PPID env, n_IsAlive := True\<rparr>"
  have "fresh_mk (mk_key (ev_CgroupID env) (ev_PID env))
      (\<lambda>s. ?f (zero_node (mk_key (ev_CgroupID env) (ev_PID env)) s))"
    by (rule fresh_mk_upd [OF fresh_mk_zero]) (simp add: frame_update_def)
  from insert_evict(1,2,3) [OF assms None this disjI2 [OF conjI [OF refl]],
      of "mk_key (ev_CgroupID env) (ev_PPID env)"] None
  show ?thesis by (simp add: exec_node_def Let_def)
next
  case Some
  then show ?thesis using assms seq_room_mono [OF assms(2), of n] by (simp add: exec_node_def Let_def)
qed

lemma AddExec_inv [inv_intros]:
  assumes "graph_inv g" and "seq_room g (Suc n)"
  shows "graph_inv (AddExec env g) \<and> seq_room (AddExec env g) n"
proof -
  have s: "graph_inv (exec_session env h) \<and> (seq_room (exec_session env h) n = seq_room h n)" if "graph_inv h" for h
    using that by (auto simp: exec_session_def Let_def graph_inv_session split: option.splits)
  have u: "graph_inv (modify_node k f h)" if "graph_inv h" "frame_update f" for k f h
    using that by (rule graph_inv_modify)
  show ?thesis
    using exec_node_inv [OF assms, of env]
    by (auto simp: AddExec_def Let_def frame_update_def s u split: option.splits)
qed

lemma MarkExit_inv [inv_intros]: "graph_inv g \<Longrightarrow> graph_inv (MarkExit cg pid code g)"
  by (simp add: MarkExit_def graph_inv_modify frame_update_def)

lemma CorrelateEvent_inv [inv_intros]:
  assumes "graph_inv g"
  shows "\<exists>g'. CorrelateEvent cg pid ev g = Inr g' \<and> graph_inv g' \<and> g_seq g' = g_seq g"
proof (cases "map_of (g_nodes g) (mk_key cg pid)")
  case None
  then show ?thesis using assms by (simp add: CorrelateEvent_def)
next
  case (Some n)
  let ?k = "mk_key cg pid"
  have ok: "graph_ok g" using assms by (simp add: graph_inv_def)
  have n: "node_ok g ?k n" by (rule graph_okD(5) [OF ok Some])
  then obtain n' where n': "pushEvent n (Some ev) = Inr n'" "ring_ok n'" "n_Key n' = n_Key n"
    "n_seq n' = n_seq n" "n_SID n' = n_SID n"
    using pushEvent_ok [of n "Some ev"] by (auto simp: node_ok_def)
  let ?g = "g\<lparr>g_nodes := AList.update ?k n' (g_nodes g)\<rparr>"
  have m: "map_of (g_nodes ?g) j = (if j = ?k then Some n' else map_of (g_nodes g) j)" for j
    by (simp add: update_conv')
  have "node_ok ?g j x" if "map_of (g_nodes ?g) j = Some x" for j x
    using that n n' graph_okD(5) [OF ok, of j x] by (auto simp: update_conv' node_ok_def split: if_splits)
  moreover have "seqs_distinct (g_nodes ?g)"
    using graph_okD(6) [OF ok] Some n'(4) unfolding seqs_distinct_def m by (metis option.inject)
  moreover have "children_ok ?g"
    using graph_okD(7) [OF ok] Some by (auto simp: children_ok_def update_conv')
  moreover have "length (AList.update ?k n' (g_nodes g)) = length (g_nodes g)"
    using Some by (intro length_update_mem) (force dest: map_of_SomeD)
  ultimately have "graph_inv ?g"
    using assms by (simp add: graph_inv_def graph_ok_def within_cap_def distinct_update)
  then show ?thesis using Some n'(1) by (simp add: CorrelateEvent_def Let_def)
qed

section \<open>Runs\<close>

datatype graph_op = OpFork EventEnvelope | OpExec EventEnvelope | OpExit u64 u32 int
  | OpCorrelate u64 u32 EventEnvelope

fun graph_apply :: "graph_op \<Rightarrow> ProcessGraph \<Rightarrow> ProcessGraph go" where
  "graph_apply (OpFork env) g = Inr (AddFork env g)"
| "graph_apply (OpExec env) g = Inr (AddExec env g)"
| "graph_apply (OpExit cg pid code) g = Inr (MarkExit cg pid code g)"
| "graph_apply (OpCorrelate cg pid ev) g = CorrelateEvent cg pid ev g"

fun graph_run :: "graph_op list \<Rightarrow> ProcessGraph \<Rightarrow> ProcessGraph go" where
  "graph_run [] g = Inr g"
| "graph_run (op # ops) g = go_bind (graph_apply op g) (graph_run ops)"

lemma graph_apply_inv:
  assumes "graph_inv g" and "seq_room g (Suc (Suc n))"
  shows "\<exists>g'. graph_apply op g = Inr g' \<and> graph_inv g' \<and> seq_room g' n"
proof (cases op)
  case (OpFork env)
  then show ?thesis using AddFork_inv [OF assms, of env] by simp
next
  case (OpExec env)
  then show ?thesis
    using AddExec_inv [OF assms(1), of n env] seq_room_mono [OF assms(2), of "Suc n"] by simp
next
  case (OpExit cg pid code)
  then show ?thesis
    using MarkExit_inv [OF assms(1)] seq_room_mono [OF assms(2), of n] by (simp add: MarkExit_def)
next
  case (OpCorrelate cg pid ev)
  then show ?thesis
    using CorrelateEvent_inv [OF assms(1), of cg pid ev] seq_room_mono [OF assms(2), of n]
    by (auto simp: seq_room_def)
qed

lemma graph_run_inv:
  "graph_inv g \<Longrightarrow> seq_room g (2 * length ops) \<Longrightarrow> \<exists>g'. graph_run ops g = Inr g' \<and> graph_inv g'"
proof (induction ops arbitrary: g)
  case (Cons op ops)
  from graph_apply_inv [OF Cons.prems(1), of "2 * length ops" op] Cons.prems(2)
  obtain g1 where "graph_apply op g = Inr g1" "graph_inv g1" "seq_room g1 (2 * length ops)" by auto
  with Cons.IH show ?case by simp
qed simp

end
