(* ===== verification/GraphQueries.thy ===== *)
theory GraphQueries
  imports GraphOps
begin

text \<open>
  What the process graph answers: the state after a fork, the eviction order, the ancestry walk
  and the agreement of a snapshot with the live graph. The theorems about the whole graph stand
  at the end, each with a concrete instance.
\<close>

section \<open>After a fork\<close>

lemma in_Children_iff:
  "n \<in> set (Children g cg pid) \<longleftrightarrow>
     (\<exists>k \<in> set (m_list (g_children g) (mk_key cg pid)). map_of (g_nodes g) k = Some n)"
  by (simp add: Children_def mem_map_filter)

lemma in_Session_iff:
  "n \<in> set (Session g sid) \<longleftrightarrow>
     (\<exists>k \<in> set (m_list (g_sessions g) sid). map_of (g_nodes g) k = Some n)"
  by (simp add: Session_def mem_map_filter)

lemma m_list_add_session:
  "m_list (g_sessions (add_session sid k g)) sid' =
     (if sid' = sid \<and> k \<notin> set (m_list (g_sessions g) sid) then m_list (g_sessions g) sid @ [k]
      else m_list (g_sessions g) sid')"
  by (simp add: add_session_def m_list_update)

lemma add_session_frame [simp]:
  "g_nodes (add_session sid k g) = g_nodes g" "g_children (add_session sid k g) = g_children g"
  by (simp_all add: add_session_def)

lemma fork_session_frame:
  "g_children (fork_session env g) = g_children g"
  "map_of (g_nodes g) (mk_key (ev_CgroupID env) (ev_PID env)) = Some n \<Longrightarrow>
   \<exists>n'. map_of (g_nodes (fork_session env g)) (mk_key (ev_CgroupID env) (ev_PID env)) = Some n' \<and>
     n_PPID n' = n_PPID n \<and> n_Comm n' = n_Comm n \<and> n_ContainerName n' = n_ContainerName n \<and>
     n_ForkTime n' = n_ForkTime n \<and> n_IsAlive n' = n_IsAlive n \<and>
     (snd (uint32Meta (ev_Metadata env) ''sid'') \<and> fst (uint32Meta (ev_Metadata env) ''sid'') \<noteq> 0 \<longrightarrow>
        n_SID n' = fst (uint32Meta (ev_Metadata env) ''sid'') \<and>
        mk_key (ev_CgroupID env) (ev_PID env) \<in>
          set (m_list (g_sessions (fork_session env g)) (fst (uint32Meta (ev_Metadata env) ''sid''))))"
  by (auto simp: fork_session_def Let_def map_of_modify_node m_list_add_session)

section \<open>The ancestry walk\<close>

lemma length_ancestor_walk: "length (ancestor_walk ppid nodes d key vis) \<le> d"
  by (induction ppid nodes d key vis rule: ancestor_walk.induct) (auto split: option.splits)

lemma walk_first:
  "chain = ancestor_walk ppid nodes d key vis \<Longrightarrow> chain \<noteq> [] \<Longrightarrow> map_of nodes key = Some (hd chain)"
  by (cases d) (auto split: option.splits if_splits)

text \<open>The two shapes of a step: the walk ends, or it continues at the parent.\<close>

lemma walk_cases:
  obtains "ancestor_walk ppid nodes (Suc d) key vis = []"
  | n where "map_of nodes key = Some n" "key \<notin> set vis" "ppid n = 0 \<or> ppid n = 1 \<or> ppid n = nk_PID key"
      "ancestor_walk ppid nodes (Suc d) key vis = [n]"
  | n where "map_of nodes key = Some n" "key \<notin> set vis" "\<not> (ppid n = 0 \<or> ppid n = 1 \<or> ppid n = nk_PID key)"
      "ancestor_walk ppid nodes (Suc d) key vis =
         n # ancestor_walk ppid nodes d (mk_key (nk_CgroupID key) (ppid n)) (key # vis)"
  by (cases "map_of nodes key"; cases "key \<in> set vis") auto

lemma walk_nodes:
  assumes kf: "\<And>k n. map_of nodes k = Some n \<Longrightarrow> kf n = k"
  shows "n \<in> set (ancestor_walk ppid nodes d key vis) \<Longrightarrow>
     map_of nodes (kf n) = Some n \<and> nk_CgroupID (kf n) = nk_CgroupID key \<and> kf n \<notin> set vis"
proof (induction d arbitrary: key vis)
  case (Suc d)
  show ?case
  proof (cases rule: walk_cases [of ppid nodes d key vis])
    case 1
    then show ?thesis using Suc.prems by simp
  next
    case (2 m)
    then show ?thesis using Suc.prems kf [OF 2(1)] by simp
  next
    case (3 m)
    then show ?thesis using Suc.prems Suc.IH kf [OF 3(1)] by fastforce
  qed
qed simp

lemma walk_distinct:
  assumes kf: "\<And>k n. map_of nodes k = Some n \<Longrightarrow> kf n = k"
  shows "distinct (map kf (ancestor_walk ppid nodes d key vis))"
proof (induction d arbitrary: key vis)
  case (Suc d)
  show ?case
  proof (cases rule: walk_cases [of ppid nodes d key vis])
    case (3 n)
    let ?rest = "ancestor_walk ppid nodes d (mk_key (nk_CgroupID key) (ppid n)) (key # vis)"
    have "kf m \<noteq> key" if "m \<in> set ?rest" for m
      using walk_nodes [of nodes kf, OF kf that] by auto
    then have "key \<notin> kf ` set ?rest" by blast
    then show ?thesis unfolding 3(4) using Suc kf [OF 3(1)] by simp
  qed simp_all
qed simp

lemma walk_linked:
  assumes kf: "\<And>k n. map_of nodes k = Some n \<Longrightarrow> kf n = k"
  shows "successively (\<lambda>c p. kf p = mk_key (nk_CgroupID key) (ppid c)) (ancestor_walk ppid nodes d key vis)"
proof (induction d arbitrary: key vis)
  case (Suc d)
  show ?case
  proof (cases rule: walk_cases [of ppid nodes d key vis])
    case (3 n)
    let ?key = "mk_key (nk_CgroupID key) (ppid n)"
    let ?rest = "ancestor_walk ppid nodes d ?key (key # vis)"
    have "?rest \<noteq> [] \<Longrightarrow> kf (hd ?rest) = ?key"
      using walk_first [OF refl, of ppid nodes d ?key "key # vis"] kf by blast
    then show ?thesis using Suc [of ?key "key # vis"] 3(4) by (auto simp: successively_Cons)
  qed simp_all
qed simp

text \<open>A walk that stops before its depth limit stops at a root, an untracked parent or a cycle.\<close>

definition walk_end :: "('n \<Rightarrow> NodeKey) \<Rightarrow> ('n \<Rightarrow> u32) \<Rightarrow> (NodeKey, 'n) gomap \<Rightarrow> NodeKey set \<Rightarrow> 'n \<Rightarrow> bool" where
  "walk_end kf ppid nodes seen n \<longleftrightarrow>
     ppid n = 0 \<or> ppid n = 1 \<or> ppid n = nk_PID (kf n) \<or>
     map_of nodes (mk_key (nk_CgroupID (kf n)) (ppid n)) = None \<or>
     mk_key (nk_CgroupID (kf n)) (ppid n) \<in> seen"

lemma walk_complete:
  assumes kf: "\<And>k n. map_of nodes k = Some n \<Longrightarrow> kf n = k"
  shows "chain = ancestor_walk ppid nodes d key vis \<Longrightarrow> chain \<noteq> [] \<Longrightarrow> length chain < d \<Longrightarrow>
     walk_end kf ppid nodes (set vis \<union> kf ` set chain) (last chain)"
proof (induction d arbitrary: key vis chain)
  case (Suc d)
  show ?case
  proof (cases rule: walk_cases [of ppid nodes d key vis])
    case 1
    then show ?thesis using Suc.prems by simp
  next
    case (2 n)
    then show ?thesis using Suc.prems kf [OF 2(1)] by (auto simp: walk_end_def)
  next
    case (3 n)
    let ?key = "mk_key (nk_CgroupID key) (ppid n)"
    let ?rest = "ancestor_walk ppid nodes d ?key (key # vis)"
    have chain: "chain = n # ?rest" using Suc.prems(1) 3(4) by simp
    show ?thesis
    proof (cases "?rest = []")
      case True
      have "0 < d" using Suc.prems(3) chain by simp
      with True have "map_of nodes ?key = None \<or> ?key \<in> set (key # vis)"
        by (cases d) (auto split: option.splits if_splits)
      with True chain kf [OF 3(1)] show ?thesis by (auto simp: walk_end_def)
    next
      case False
      have "walk_end kf ppid nodes (set (key # vis) \<union> kf ` set ?rest) (last ?rest)"
        using Suc.IH [OF refl False] Suc.prems(3) chain by simp
      with chain kf [OF 3(1)] False show ?thesis by (auto simp: walk_end_def)
    qed
  qed
qed simp

section \<open>Snapshots\<close>

lemma snapshot_node_ok:
  assumes "ring_ok n"
  shows "\<exists>sn. snapshot_node g k n = Inr sn \<and> sn_PPID sn = n_PPID n \<and> sn_Key sn = n_Key n \<and>
    sn_Events sn = node_events n \<and> sn_Children sn = m_list (g_children g) k"
  using EventRing_ok [OF assms] by (simp add: snapshot_node_def)

lemma snapshot_nodes_ok:
  "(\<And>k n. (k, n) \<in> set ns \<Longrightarrow> ring_ok n) \<Longrightarrow>
   \<exists>sns. snapshot_nodes g ns = Inr sns \<and> keys sns = keys ns \<and>
     (\<forall>k. rel_option (\<lambda>n sn. snapshot_node g k n = Inr sn) (map_of ns k) (map_of sns k))"
proof (induction ns)
  case (Cons kn ns)
  obtain k n where kn: "kn = (k, n)" by fastforce
  from Cons obtain sns where sns: "snapshot_nodes g ns = Inr sns" "keys sns = keys ns"
    "\<forall>k. rel_option (\<lambda>n sn. snapshot_node g k n = Inr sn) (map_of ns k) (map_of sns k)" by fastforce
  from Cons.prems kn have "ring_ok n" by auto
  from snapshot_node_ok [OF this, of g k] sns kn show ?case by auto
qed simp

lemma graph_inv_rings: "graph_inv g \<Longrightarrow> (k, n) \<in> set (g_nodes g) \<Longrightarrow> ring_ok n"
  using graph_okD(1,5) [of g] by (auto simp: graph_inv_def node_ok_def map_of_eq_Some_iff)

lemma graph_inv_key: "graph_inv g \<Longrightarrow> map_of (g_nodes g) k = Some n \<Longrightarrow> n_Key n = k"
  using graph_okD(5) [of g k n] by (auto simp: graph_inv_def node_ok_def)

lemma Snapshot_total:
  assumes "graph_inv g"
  shows "\<exists>s. Snapshot_graph srt now g = Inr s \<and> keys (s_Nodes s) = keys (g_nodes g) \<and>
    s_Sessions s = g_sessions g \<and> s_At s = now \<and>
    (\<forall>k. rel_option (\<lambda>n sn. snapshot_node g k n = Inr sn) (map_of (g_nodes g) k) (map_of (s_Nodes s) k))"
  using snapshot_nodes_ok [of "g_nodes g" g] graph_inv_rings [OF assms] by (auto simp: Snapshot_graph_def)

lemma walk_related:
  assumes "\<And>k. rel_option (R k) (map_of ns k) (map_of ms k)" and "\<And>k n m. R k n m \<Longrightarrow> p n = q m"
    and "\<And>k n m. R k n m \<Longrightarrow> P n m"
  shows "list_all2 P (ancestor_walk p ns d key vis) (ancestor_walk q ms d key vis)"
proof (induction d arbitrary: key vis)
  case (Suc d)
  show ?case
  proof (cases "map_of ns key")
    case None
    with assms(1) [of key] show ?thesis by (auto simp: option_rel_Some1 split: option.splits)
  next
    case (Some n)
    with assms(1) [of key] obtain m where "map_of ms key = Some m" "R key n m"
      by (auto simp: option_rel_Some1)
    with Some Suc assms(2,3) show ?thesis by auto
  qed
qed simp

section \<open>Correlated events\<close>

lemma CorrelateEvent_step:
  assumes inv: "graph_inv g" and n: "Lookup_node g cg pid = Some n"
  shows "\<exists>g' n'. CorrelateEvent cg pid ev g = Inr g' \<and> graph_inv g' \<and> Lookup_node g' cg pid = Some n' \<and>
     node_events n' = take_last 32 (node_events n @ [Some ev])"
proof -
  have "ring_ok n"
    using n graph_okD(5) [of g] inv by (auto simp: Lookup_node_def graph_inv_def node_ok_def)
  from pushEvent_ok [OF this, of "Some ev"] obtain n' where n': "pushEvent n (Some ev) = Inr n'"
    "node_events n' = take_last 32 (node_events n @ [Some ev])" by blast
  obtain g' where g': "CorrelateEvent cg pid ev g = Inr g'" "graph_inv g'"
    using CorrelateEvent_inv [OF inv] by blast
  have "Lookup_node g' cg pid = Some n'"
    using g'(1) n n'(1) by (auto simp: CorrelateEvent_def Lookup_node_def update_conv')
  with g' n'(2) show ?thesis by blast
qed

lemma correlate_all:
  "graph_inv g \<Longrightarrow> Lookup_node g cg pid = Some n \<Longrightarrow>
   \<exists>g' n'. graph_run (map (OpCorrelate cg pid) evs) g = Inr g' \<and> graph_inv g' \<and>
     Lookup_node g' cg pid = Some n' \<and> node_events n' = take_last 32 (node_events n @ map Some evs)"
proof (induction evs arbitrary: g n)
  case Nil
  then have "ring_ok n" using graph_okD(5) [of g] by (auto simp: Lookup_node_def graph_inv_def node_ok_def)
  then have "length (node_events n) \<le> 32" by (auto simp: node_events_def ring_ok_def)
  with Nil show ?case by simp
next
  case (Cons ev evs)
  from CorrelateEvent_step [OF Cons.prems, of ev] obtain g1 n1 where
    1: "CorrelateEvent cg pid ev g = Inr g1" "graph_inv g1" "Lookup_node g1 cg pid = Some n1"
    "node_events n1 = take_last 32 (node_events n @ [Some ev])" by blast
  from Cons.IH [OF 1(2,3)] 1 show ?case by (auto simp: take_last_append_take_last)
qed

section \<open>Theorems\<close>

lemma graph_inv_New: "graph_inv (New_graph m)" "seq_room (New_graph m) 4"
  using New_graph_ok [of m] by (simp_all add: graph_inv_def seq_room_def New_graph_def)

lemma graph_inv_fork: "graph_inv (AddFork env (New_graph m))" "seq_room (AddFork env (New_graph m)) 2"
  using AddFork_inv [OF graph_inv_New(1), of m 2 env] graph_inv_New(2) [of m]
  by (simp_all add: numeral_eq_Suc)

text \<open>
  C1: Whatever the sequence of forks, execs, exits and correlated events, a graph created by
  \<^verbatim>\<open>New\<close> never panics, keeps its invariant (distinct keys, nodes stored under their own key,
  intact event rings, distinct sequence numbers, child lists that name tracked nodes of the
  parent's cgroup once each, every node listed in its session) and never holds more than
  \<^verbatim>\<open>maxNodes\<close> nodes, as long as the 64-bit insertion counter has not wrapped.
\<close>

theorem process_graph_runs:
  assumes "2 * length ops < 2 ^ 64 - 1"
  shows "\<exists>g. graph_run ops (New_graph maxNodes) = Inr g \<and> graph_ok g \<and> within_cap g"
  using graph_run_inv [of "New_graph maxNodes" ops] graph_inv_New(1) assms
  by (auto simp: graph_inv_def seq_room_def New_graph_def)

theorem process_graph_runs_witness:
  "\<exists>g. graph_run [OpFork (plain_event EventTypeFork 7 20 10), OpExec (plain_event EventTypeExec 7 30 20),
      OpExit 7 20 0, OpCorrelate 7 30 (plain_event EventTypeDNSQuery 7 30 20)] (New_graph 2) = Inr g \<and>
    graph_ok g \<and> within_cap g"
  by (rule process_graph_runs) simp

text \<open>
  C24: After \<^verbatim>\<open>AddFork\<close> the child is tracked, alive, with the parent, name, container and
  time of the event; it is among the children of its parent; and when the event carries a
  non-zero session id the child has that session id and \<^verbatim>\<open>Session\<close> returns it.
\<close>

theorem AddFork_records_child:
  assumes "graph_ok g" and "within_cap g" and "seq_room g 2"
  shows "\<exists>n. Lookup_node (AddFork env g) (ev_CgroupID env) (ev_PID env) = Some n \<and>
     n_PPID n = ev_PPID env \<and> n_Comm n = ev_Process env \<and> n_ContainerName n = ev_ContainerName env \<and>
     n_ForkTime n = ev_Timestamp env \<and> n_IsAlive n \<and>
     n \<in> set (Children (AddFork env g) (ev_CgroupID env) (ev_PPID env)) \<and>
     (snd (uint32Meta (ev_Metadata env) ''sid'') \<and> fst (uint32Meta (ev_Metadata env) ''sid'') \<noteq> 0 \<longrightarrow>
        n_SID n = fst (uint32Meta (ev_Metadata env) ''sid'') \<and>
        n \<in> set (Session (AddFork env g) (fst (uint32Meta (ev_Metadata env) ''sid''))))"
proof -
  let ?ck = "mk_key (ev_CgroupID env) (ev_PID env)" and ?pk = "mk_key (ev_CgroupID env) (ev_PPID env)"
  define f :: "ProcessNode \<Rightarrow> ProcessNode" where "f = (\<lambda>n. n\<lparr>n_PPID := ev_PPID env, n_Comm := ev_Process env,
    n_ContainerName := ev_ContainerName env, n_ForkTime := ev_Timestamp env, n_IsAlive := True\<rparr>)"
  define h where "h = add_child ?pk ?ck (modify_node ?ck f (fork_child env (fork_parent env g)))"
  have A: "AddFork env g = fork_session env h"
    unfolding AddFork_def h_def f_def Let_def by simp
  have "seq_room g (Suc (Suc 0))" using assms(3) by (simp add: numeral_2_eq_2)
  then obtain m where "map_of (g_nodes (fork_child env (fork_parent env g))) ?ck = Some m"
    using fork_parent_inv [of g "Suc 0" env] fork_child_inv [of "fork_parent env g" 0 env] assms(1,2)
    by (auto simp: graph_inv_def)
  then have h: "map_of (g_nodes h) ?ck = Some (f m)" by (simp add: h_def map_of_modify_node)
  have "?ck \<in> set (m_list (g_children h) ?pk)" by (simp add: h_def m_list_add_child)
  with fork_session_frame(2) [OF h] fork_session_frame(1) [of env h] show ?thesis
    unfolding A Lookup_node_def in_Children_iff in_Session_iff by (auto simp: f_def)
qed

theorem AddFork_records_child_witness:
  "\<exists>n. Lookup_node (AddFork (plain_event EventTypeFork 7 30 20) (AddFork (plain_event EventTypeFork 7 20 10) (New_graph 2))) 7 30 = Some n \<and>
     n_PPID n = 20 \<and> n_IsAlive n \<and>
     n \<in> set (Children (AddFork (plain_event EventTypeFork 7 30 20) (AddFork (plain_event EventTypeFork 7 20 10) (New_graph 2))) 7 20)"
  using AddFork_records_child [of "AddFork (plain_event EventTypeFork 7 20 10) (New_graph 2)"
      "plain_event EventTypeFork 7 30 20"] graph_inv_fork [of "plain_event EventTypeFork 7 20 10" 2]
  by (auto simp: graph_inv_def plain_event_def)

text \<open>
  C27: A graph over its bound loses exactly one node, the one inserted first, in whatever order
  the node map is ranged over; the evicted key disappears from every child list and from its
  node's session, and nothing else is removed from the node map.
\<close>

theorem eviction_removes_oldest:
  assumes "graph_ok g" and "seq_room g 0" and "\<not> within_cap g" and "mset ord = mset (g_nodes g)"
  shows "\<exists>k n. map_of (g_nodes g) k = Some n \<and> k = fst (oldest_of ord) \<and>
     (\<forall>k' m. map_of (g_nodes g) k' = Some m \<and> k' \<noteq> k \<longrightarrow> n_seq n < n_seq m) \<and>
     map_of (g_nodes (evictIfNeeded g)) = (map_of (g_nodes g))(k := None) \<and>
     (\<forall>pk. k \<notin> set (m_list (g_children (evictIfNeeded g)) pk)) \<and>
     (n_SID n \<noteq> 0 \<longrightarrow> k \<notin> set (m_list (g_sessions (evictIfNeeded g)) (n_SID n)))"
proof -
  let ?k = "fst (oldest_of (g_nodes g))"
  have ne: "g_nodes g \<noteq> []" using assms(3) graph_okD(4) [OF assms(1)] by (auto simp: within_cap_def)
  note small = seq_below_max [OF assms(1,2)]
  obtain n where n: "map_of (g_nodes g) ?k = Some n"
    "\<forall>k' m. map_of (g_nodes g) k' = Some m \<longrightarrow> n_seq n \<le> n_seq m"
    using oldest_of_min [OF graph_okD(1) [OF assms(1)] ne small] by blast
  have strict: "n_seq n < n_seq m" if "map_of (g_nodes g) k' = Some m" "k' \<noteq> ?k" for k' m
    using n that graph_okD(6) [OF assms(1)] unfolding seqs_distinct_def by (metis order.not_eq_order_implies_strict)
  have ord: "?k = fst (oldest_of ord)"
    using oldest_of_order [OF graph_okD(1,6) [OF assms(1)] ne small assms(4)] by simp
  have "map_of (g_nodes (evictIfNeeded g)) = (map_of (g_nodes g))(?k := None)"
    using assms(3) by (auto simp: evict_nodes evicts_def fun_eq_iff)
  moreover have "?k \<notin> set (m_list (g_children (evictIfNeeded g)) pk)" for pk
    using assms(3) by (simp add: evict_children)
  moreover have "n_SID n \<noteq> 0 \<longrightarrow> ?k \<notin> set (m_list (g_sessions (evictIfNeeded g)) (n_SID n))"
    using assms(3) n(1) by (simp add: evictIfNeeded_def within_cap_def Let_def m_list_update)
  ultimately show ?thesis using n(1) strict ord by blast
qed

theorem eviction_removes_oldest_witness:
  "\<exists>k n. map_of (g_nodes (insert_node (insert_node (New_graph 1) (zero_node (mk_key 7 10))) (zero_node (mk_key 7 20)))) k = Some n \<and>
     map_of (g_nodes (evictIfNeeded (insert_node (insert_node (New_graph 1) (zero_node (mk_key 7 10))) (zero_node (mk_key 7 20))))) k = None"
proof -
  let ?g1 = "insert_node (New_graph 1) (zero_node (mk_key 7 10))"
  let ?g = "insert_node ?g1 (zero_node (mk_key 7 20))"
  have 1: "graph_ok ?g1"
    by (rule graph_ok_insert [OF conjunct1 [OF New_graph_ok], of _ "mk_key 7 10"])
      (auto simp: seq_room_def New_graph_def zero_node_def ring_ok_def)
  have 2: "graph_ok ?g"
    by (rule graph_ok_insert [OF 1, of "mk_key 7 20"])
      (auto simp: seq_room_def New_graph_def zero_node_def ring_ok_def mk_key_def)
  have "seq_room ?g 0" "\<not> within_cap ?g"
    by (simp_all add: seq_room_def New_graph_def within_cap_def zero_node_def mk_key_def)
  from eviction_removes_oldest [OF 2 this refl] show ?thesis by auto
qed

text \<open>
  C28: \<^verbatim>\<open>Ancestors\<close> returns at most \<^verbatim>\<open>maxDepth\<close> tracked nodes of the queried cgroup,
  without repetition even when the parent links form a cycle, in root-first order: each entry is
  the parent of the next one and the last entry is the queried process itself. When fewer than
  \<^verbatim>\<open>maxDepth\<close> nodes come back, the first entry is a root, has an untracked parent, or its
  parent is already in the chain.
\<close>

theorem Ancestors_chain:
  assumes "graph_ok g" and "within_cap g" and "0 < maxDepth" and "Ancestors g cg pid maxDepth = (chain, truncated)"
  shows "int (length chain) \<le> maxDepth \<and> distinct (map n_Key chain) \<and>
     (\<forall>n \<in> set chain. map_of (g_nodes g) (n_Key n) = Some n \<and> nk_CgroupID (n_Key n) = cg) \<and>
     successively (\<lambda>p c. n_Key p = mk_key cg (n_PPID c)) chain \<and>
     (chain = [] \<longleftrightarrow> Lookup_node g cg pid = None) \<and>
     (chain \<noteq> [] \<longrightarrow> Lookup_node g cg pid = Some (last chain)) \<and>
     (chain \<noteq> [] \<and> \<not> truncated \<longrightarrow> walk_end n_Key n_PPID (g_nodes g) (n_Key ` set chain) (hd chain))"
proof -
  let ?w = "ancestor_walk n_PPID (g_nodes g) (nat maxDepth) (mk_key cg pid) []"
  have inv: "graph_inv g" using assms(1,2) by (simp add: graph_inv_def)
  note kf = graph_inv_key [OF inv]
  have chain: "chain = rev ?w" and tr: "truncated \<longleftrightarrow> maxDepth \<le> int (length ?w)"
    using assms(3,4) by (auto simp: Ancestors_def Let_def)
  have len: "int (length chain) \<le> maxDepth"
    using length_ancestor_walk [of n_PPID "g_nodes g" "nat maxDepth" "mk_key cg pid" "[]"] assms(3) chain by simp
  obtain d where d: "nat maxDepth = Suc d" using assms(3) by (cases "nat maxDepth") auto
  have nil: "chain = [] \<longleftrightarrow> Lookup_node g cg pid = None"
    unfolding chain d by (cases "map_of (g_nodes g) (mk_key cg pid)") (auto simp: Lookup_node_def)
  have first: "chain \<noteq> [] \<longrightarrow> Lookup_node g cg pid = Some (last chain)"
    using walk_first [of ?w, OF refl] chain by (auto simp: Lookup_node_def last_rev)
  have stop: "walk_end n_Key n_PPID (g_nodes g) (n_Key ` set chain) (hd chain)" if "chain \<noteq> []" "\<not> truncated"
    using walk_complete [of "g_nodes g" n_Key ?w n_PPID "nat maxDepth" "mk_key cg pid" "[]"] kf that chain tr
    by (auto simp: hd_rev)
  show ?thesis
    using len nil first stop walk_distinct [of "g_nodes g" n_Key n_PPID "nat maxDepth" "mk_key cg pid" "[]", OF kf]
      walk_nodes [of "g_nodes g" n_Key _ n_PPID "nat maxDepth" "mk_key cg pid" "[]", OF kf]
      walk_linked [of "g_nodes g" n_Key "mk_key cg pid" n_PPID "nat maxDepth" "[]", OF kf] chain
    by (auto simp: successively_rev rev_map [symmetric])
qed

theorem Ancestors_chain_witness:
  "int (length (fst (Ancestors (AddFork (plain_event EventTypeFork 7 20 10) (New_graph 4)) 7 20 3))) \<le> 3 \<and>
   distinct (map n_Key (fst (Ancestors (AddFork (plain_event EventTypeFork 7 20 10) (New_graph 4)) 7 20 3)))"
proof -
  let ?g = "AddFork (plain_event EventTypeFork 7 20 10) (New_graph 4)"
  have "graph_ok ?g" "within_cap ?g"
    using graph_inv_fork(1) [of "plain_event EventTypeFork 7 20 10" 4] by (simp_all add: graph_inv_def)
  from Ancestors_chain [OF this, of 3 7 20] show ?thesis by (cases "Ancestors ?g 7 20 3") simp
qed

text \<open>
  C29: Taking a snapshot never fails, and the snapshot answers as the graph did: its ancestry
  chain, and the child list of a tracked process, are, node by node, the copies of what
  \<^verbatim>\<open>Ancestors\<close> (at its default depth) and \<^verbatim>\<open>Children\<close> return on the live graph. They differ
  for a process that is not tracked itself: the live graph lists the tracked children recorded under it,
  the snapshot answers with none.
\<close>

theorem Snapshot_agrees:
  assumes "graph_ok g" and "within_cap g"
  shows "\<exists>s. Snapshot_graph srt now g = Inr s \<and>
     list_all2 (\<lambda>n sn. snapshot_node g (n_Key n) n = Inr sn)
       (fst (Ancestors g cg pid 0)) (Snapshot_Ancestors s (mk_key cg pid)) \<and>
     (if Lookup_node g cg pid \<noteq> None
      then list_all2 (\<lambda>n sn. snapshot_node g (n_Key n) n = Inr sn) (Children g cg pid) (Snapshot_Children s (mk_key cg pid))
      else Snapshot_Children s (mk_key cg pid) = [])"
proof -
  let ?R = "\<lambda>k n sn. map_of (g_nodes g) k = Some n \<and> snapshot_node g k n = Inr sn"
  let ?P = "\<lambda>n sn. snapshot_node g (n_Key n) n = Inr sn"
  have inv: "graph_inv g" using assms by (simp add: graph_inv_def)
  obtain s where s: "Snapshot_graph srt now g = Inr s"
    and rel: "\<And>k. rel_option (\<lambda>n sn. snapshot_node g k n = Inr sn) (map_of (g_nodes g) k) (map_of (s_Nodes s) k)"
    using Snapshot_total [OF inv] by blast
  have relR: "rel_option (?R k) (map_of (g_nodes g) k) (map_of (s_Nodes s) k)" for k
    using rel [of k] by (cases "map_of (g_nodes g) k") (auto simp: option_rel_Some1)
  have R: "n_PPID n = sn_PPID sn \<and> ?P n sn \<and> sn_Children sn = m_list (g_children g) k" if "?R k n sn" for k n sn
    using that graph_inv_key [OF inv, of k n] by (auto simp: snapshot_node_def)
  have anc: "list_all2 ?P (fst (Ancestors g cg pid 0)) (Snapshot_Ancestors s (mk_key cg pid))"
    using walk_related [of ?R "g_nodes g" "s_Nodes s" n_PPID sn_PPID ?P, OF relR] R
    by (auto simp: Ancestors_def Snapshot_Ancestors_def Let_def)
  have "list_all2 ?P (List.map_filter (map_of (g_nodes g)) ks) (List.map_filter (map_of (s_Nodes s)) ks)" for ks
  proof (induction ks)
    case (Cons k ks)
    with relR [of k] R show ?case
      by (cases "map_of (g_nodes g) k") (auto simp: map_filter_simps option_rel_Some1)
  qed (simp add: map_filter_simps)
  then have "list_all2 ?P (Children g cg pid) (Snapshot_Children s (mk_key cg pid))" if "Lookup_node g cg pid \<noteq> None"
    using that relR [of "mk_key cg pid"] R
    by (auto simp: Children_def Snapshot_Children_def Lookup_node_def option_rel_Some1)
  moreover have "Snapshot_Children s (mk_key cg pid) = []" if "Lookup_node g cg pid = None"
    using that rel [of "mk_key cg pid"] by (simp add: Snapshot_Children_def Lookup_node_def)
  ultimately show ?thesis using s anc by auto
qed

text \<open>The parent of a process first seen at its exec is recorded with its child but not tracked.\<close>

definition exec_graph :: ProcessGraph where
  "exec_graph = AddExec (plain_event EventTypeExec 7 20 10) (New_graph 4)"

lemma exec_graph_ok: "graph_ok exec_graph" "within_cap exec_graph"
  using AddExec_inv [OF graph_inv_New(1), of 4 3 "plain_event EventTypeExec 7 20 10"] graph_inv_New(2) [of 4]
  by (simp_all add: exec_graph_def graph_inv_def)

lemma untracked_parent:
  "Lookup_node exec_graph 7 10 = None" "map (\<lambda>n. nk_PID (n_Key n)) (Children exec_graph 7 10) = [20]"
  by code_simp+

theorem Snapshot_agrees_witness:
  "\<exists>s. Snapshot_graph (\<lambda>_ ks. ks) 5 exec_graph = Inr s \<and>
     list_all2 (\<lambda>n sn. snapshot_node exec_graph (n_Key n) n = Inr sn) (fst (Ancestors exec_graph 7 10 0)) (Snapshot_Ancestors s (mk_key 7 10)) \<and>
     Snapshot_Children s (mk_key 7 10) = [] \<and> Children exec_graph 7 10 \<noteq> []"
  using Snapshot_agrees [OF exec_graph_ok, of "\<lambda>_ ks. ks" 5 7 10] untracked_parent by auto

text \<open>
  Correlating any sequence of security events with a tracked process never panics and leaves
  in the node's event ring the last 32 events, oldest first.
\<close>

theorem CorrelateEvent_keeps_last:
  assumes "graph_ok g" and "within_cap g" and "Lookup_node g cg pid = Some n"
  shows "\<exists>g' n'. graph_run (map (OpCorrelate cg pid) evs) g = Inr g' \<and> Lookup_node g' cg pid = Some n' \<and>
     EventRing n' = Inr (take_last 32 (node_events n @ map Some evs))"
proof -
  have inv: "graph_inv g" using assms(1,2) by (simp add: graph_inv_def)
  from correlate_all [OF inv assms(3), of evs] obtain g' n' where
    1: "graph_run (map (OpCorrelate cg pid) evs) g = Inr g'" "graph_inv g'" "Lookup_node g' cg pid = Some n'"
    "node_events n' = take_last 32 (node_events n @ map Some evs)" by blast
  have "ring_ok n'" using 1 graph_okD(5) [of g'] by (auto simp: Lookup_node_def graph_inv_def node_ok_def)
  from EventRing_ok [OF this] 1 show ?thesis by auto
qed

theorem CorrelateEvent_keeps_last_witness:
  "\<exists>n g' n'. Lookup_node (AddFork (plain_event EventTypeFork 7 20 10) (New_graph 4)) 7 20 = Some n \<and>
     graph_run (map (OpCorrelate 7 20) (replicate 40 zero_event))
       (AddFork (plain_event EventTypeFork 7 20 10) (New_graph 4)) = Inr g' \<and>
     Lookup_node g' 7 20 = Some n' \<and>
     EventRing n' = Inr (take_last 32 (node_events n @ map Some (replicate 40 zero_event)))"
proof -
  let ?g = "AddFork (plain_event EventTypeFork 7 20 10) (New_graph 4)"
  have "graph_ok ?g" "within_cap ?g"
    using graph_inv_fork(1) [of "plain_event EventTypeFork 7 20 10" 4] by (simp_all add: graph_inv_def)
  moreover have "map_of (g_nodes ?g) (mk_key 7 20) \<noteq> None"
    by (simp add: AddFork_def fork_child_def fork_parent_def fork_session_def Let_def plain_event_def
        zero_event_def uint32Meta_def New_graph_def map_of_modify_node evictIfNeeded_def zero_node_def
        mk_key_def update_conv')
  then obtain n where "Lookup_node ?g 7 20 = Some n" by (auto simp: Lookup_node_def)
  ultimately show ?thesis using CorrelateEvent_keeps_last [of ?g 7 20 n "replicate 40 zero_event"] by blast
qed

text \<open>
  The depth limit and the truncation flag: a chain that ends at its root exactly at the limit is
  reported as truncated.
\<close>

lemma Ancestors_truncated_at_root:
  "Ancestors \<lparr>g_nodes = [(mk_key 7 10, (zero_node (mk_key 7 10) 1)\<lparr>n_PPID := 1\<rparr>)], g_children = [],
      g_sessions = [], g_maxNodes = 4, g_seq = 1\<rparr> 7 10 1 =
   ([(zero_node (mk_key 7 10) 1)\<lparr>n_PPID := 1\<rparr>], True)"
  by (simp add: Ancestors_def Let_def)

end
