(* ===== verification/Percentile.thy ===== *)
theory Percentile
  imports GoStrings GoFloat
begin

text \<open>
  The latency aggregator (pkg/percentile/percentile.go): three tumbling histograms per key, reset
  when their window of 10, 60 or 300 ticks elapses, and the percentile snapshots taken at each
  tick. The HDR histogram is a third-party package: its operations are the record
  \<open>hist_ops\<close>, an argument of the model, and the one law the aggregator relies on is
  \<open>hist_reset_ok\<close>.
\<close>

section \<open>The histogram package\<close>

record 'h hist_ops =
  h_New :: "int \<Rightarrow> int \<Rightarrow> int \<Rightarrow> 'h"
  h_RecordValues :: "'h \<Rightarrow> int \<Rightarrow> int \<Rightarrow> 'h"
  h_ValueAtQuantile :: "'h \<Rightarrow> rat \<Rightarrow> int"
  h_Max :: "'h \<Rightarrow> int"
  h_Reset :: "'h \<Rightarrow> 'h"

definition new_hist :: "'h hist_ops \<Rightarrow> 'h" where
  "new_hist H = h_New H 1 60000000 2"

definition record_all :: "'h hist_ops \<Rightarrow> (int \<times> int) list \<Rightarrow> 'h" where
  "record_all H vs = foldl (\<lambda>h (v, c). h_RecordValues H h v c) (new_hist H) vs"

text \<open>\<^verbatim>\<open>Reset\<close> deletes all recorded values and restores the histogram to its original state.\<close>

definition hist_reset_ok :: "'h hist_ops \<Rightarrow> bool" where
  "hist_reset_ok H \<longleftrightarrow> (\<forall>vs. h_Reset H (record_all H vs) = new_hist H)"

section \<open>The aggregator\<close>

record PSnapshot =
  P50 :: rat
  P95 :: rat
  P99 :: rat
  PMax :: rat

record WindowSnapshots =
  W10s :: PSnapshot
  W60s :: PSnapshot
  W300s :: PSnapshot

definition zero_psnapshot :: PSnapshot where
  "zero_psnapshot = \<lparr>P50 = 0, P95 = 0, P99 = 0, PMax = 0\<rparr>"

record 'h keyState =
  active10s :: 'h
  active60s :: 'h
  active300s :: 'h
  ks_snap :: WindowSnapshots

definition newKeyState :: "'h hist_ops \<Rightarrow> 'h keyState" where
  "newKeyState H = \<lparr>active10s = h_New H 1 60000000 2, active60s = h_New H 1 60000000 2,
     active300s = h_New H 1 60000000 2,
     ks_snap = \<lparr>W10s = zero_psnapshot, W60s = zero_psnapshot, W300s = zero_psnapshot\<rparr>\<rparr>"

record 'h LatencyAggregator =
  la_keys :: "(string, 'h keyState) gomap"
  la_ticks :: u64

definition NewLatencyAggregator :: "'h LatencyAggregator" where
  "NewLatencyAggregator = \<lparr>la_keys = [], la_ticks = 0\<rparr>"

definition record_key :: "'h hist_ops \<Rightarrow> int \<Rightarrow> int \<Rightarrow> 'h keyState \<Rightarrow> 'h keyState" where
  "record_key H latencyUs cnt ks =
     ks\<lparr>active10s := h_RecordValues H (active10s ks) latencyUs cnt,
        active60s := h_RecordValues H (active60s ks) latencyUs cnt,
        active300s := h_RecordValues H (active300s ks) latencyUs cnt\<rparr>"

definition RecordValues ::
  "'h hist_ops \<Rightarrow> string \<Rightarrow> int \<Rightarrow> int \<Rightarrow> 'h LatencyAggregator \<Rightarrow> 'h LatencyAggregator" where
  "RecordValues H key latencyUs cnt a =
     (let v = (if latencyUs < 1 then 1 else latencyUs) in
      if cnt < 1 then a
      else let ks = (case map_of (la_keys a) key of None \<Rightarrow> newKeyState H | Some ks \<Rightarrow> ks)
           in a\<lparr>la_keys := AList.update key (record_key H v cnt ks) (la_keys a)\<rparr>)"

definition Record_latency :: "'h hist_ops \<Rightarrow> string \<Rightarrow> int \<Rightarrow> 'h LatencyAggregator \<Rightarrow> 'h LatencyAggregator" where
  "Record_latency H key latencyUs a = RecordValues H key latencyUs 1 a"

definition window_snapshot :: "'h hist_ops \<Rightarrow> 'h \<Rightarrow> PSnapshot" where
  "window_snapshot H h =
     \<lparr>P50 = fdiv (float_of_int (h_ValueAtQuantile H h 50)) 1000,
      P95 = fdiv (float_of_int (h_ValueAtQuantile H h 95)) 1000,
      P99 = fdiv (float_of_int (h_ValueAtQuantile H h 99)) 1000,
      PMax = fdiv (float_of_int (h_Max H h)) 1000\<rparr>"

definition tick_key :: "'h hist_ops \<Rightarrow> u64 \<Rightarrow> 'h keyState \<Rightarrow> 'h keyState" where
  "tick_key H ticks ks =
     (let snap = \<lparr>W10s = window_snapshot H (active10s ks), W60s = window_snapshot H (active60s ks),
                  W300s = window_snapshot H (active300s ks)\<rparr>
      in \<lparr>active10s = (if ticks mod 10 = 0 then h_Reset H (active10s ks) else active10s ks),
          active60s = (if ticks mod 60 = 0 then h_Reset H (active60s ks) else active60s ks),
          active300s = (if ticks mod 300 = 0 then h_Reset H (active300s ks) else active300s ks),
          ks_snap = snap\<rparr>)"

definition Tick :: "'h hist_ops \<Rightarrow> 'h LatencyAggregator \<Rightarrow> 'h LatencyAggregator" where
  "Tick H a =
     (let t = la_ticks a + 1 in
      \<lparr>la_keys = map (\<lambda>(k, ks). (k, tick_key H t ks)) (la_keys a), la_ticks = t\<rparr>)"

definition Snapshot_latency :: "'h LatencyAggregator \<Rightarrow> (string, WindowSnapshots) gomap" where
  "Snapshot_latency a = map (\<lambda>(k, ks). (k, ks_snap ks)) (la_keys a)"

section \<open>What the windows hold\<close>

datatype agg_op = OpRecord string int int | OpTick

fun agg_apply :: "'h hist_ops \<Rightarrow> 'h LatencyAggregator \<Rightarrow> agg_op \<Rightarrow> 'h LatencyAggregator" where
  "agg_apply H a (OpRecord k v c) = RecordValues H k v c a"
| "agg_apply H a OpTick = Tick H a"

definition agg_run :: "'h hist_ops \<Rightarrow> agg_op list \<Rightarrow> 'h LatencyAggregator" where
  "agg_run H ops = foldl (agg_apply H) NewLatencyAggregator ops"

definition tick_count :: "agg_op list \<Rightarrow> nat" where
  "tick_count ops = length (filter (\<lambda>op. op = OpTick) ops)"

text \<open>
  The specification of a tumbling window of \<open>w\<close> ticks, over the history of calls (latest first):
  the accepted observations of the key, clamped to at least one microsecond, back to the last
  tick whose number is a multiple of \<open>w\<close>.
\<close>

fun window_rev :: "nat \<Rightarrow> string \<Rightarrow> agg_op list \<Rightarrow> (int \<times> int) list" where
  "window_rev w k [] = []"
| "window_rev w k (OpRecord k' v c # h) =
     (if k' = k \<and> 1 \<le> c then (max v 1, c) # window_rev w k h else window_rev w k h)"
| "window_rev w k (OpTick # h) =
     (if tick_count (OpTick # h) mod w = 0 then [] else window_rev w k h)"

definition window_values :: "nat \<Rightarrow> string \<Rightarrow> agg_op list \<Rightarrow> (int \<times> int) list" where
  "window_values w k ops = rev (window_rev w k (rev ops))"

lemma agg_run_snoc [simp]: "agg_run H (ops @ [op]) = agg_apply H (agg_run H ops) op"
  by (simp add: agg_run_def)

lemma tick_count_simps [simp]:
  "tick_count [] = 0" "tick_count (ops @ [OpTick]) = Suc (tick_count ops)"
  "tick_count (ops @ [OpRecord k v c]) = tick_count ops" "tick_count (OpTick # h) = Suc (tick_count h)"
  "tick_count (rev h) = tick_count h"
  by (simp_all add: tick_count_def rev_filter [symmetric])

lemma tick_count_le: "tick_count ops \<le> length ops"
  by (simp add: tick_count_def)

lemma window_values_snoc [simp]:
  "window_values w k [] = []"
  "window_values w k (ops @ [OpRecord k' v c]) =
     (if k' = k \<and> 1 \<le> c then window_values w k ops @ [(max v 1, c)] else window_values w k ops)"
  "window_values w k (ops @ [OpTick]) =
     (if Suc (tick_count ops) mod w = 0 then [] else window_values w k ops)"
  by (simp_all add: window_values_def)

lemma record_all_snoc: "h_RecordValues H (record_all H vs) v c = record_all H (vs @ [(v, c)])"
  by (simp add: record_all_def)

lemma record_all_Nil [simp]: "record_all H [] = new_hist H"
  by (simp add: record_all_def)

lemma la_ticks_run: "unat (la_ticks (agg_run H ops)) = tick_count ops mod 2 ^ 64"
proof (induction ops rule: rev_induct)
  case (snoc op ops)
  show ?case
  proof (cases op)
    case (OpRecord k v c)
    then show ?thesis using snoc by (simp add: RecordValues_def Let_def)
  next
    case OpTick
    then show ?thesis using snoc by (simp add: Tick_def Let_def unat_word_ariths mod_Suc_eq)
  qed
qed (simp add: agg_run_def NewLatencyAggregator_def)

lemma tick_mod:
  assumes "tick_count ops < 2 ^ 64" and "w < 2 ^ 64"
  shows "la_ticks (agg_run H ops) mod of_nat w = 0 \<longleftrightarrow> tick_count ops mod w = 0"
proof -
  have "unat (la_ticks (agg_run H ops) mod of_nat w) = tick_count ops mod w"
    using assms by (simp add: unat_mod_distrib la_ticks_run unat_of_nat)
  then show ?thesis by (metis unat_eq_zero)
qed

definition key_windows :: "'h hist_ops \<Rightarrow> string \<Rightarrow> agg_op list \<Rightarrow> 'h keyState \<Rightarrow> bool" where
  "key_windows H k ops ks \<longleftrightarrow>
     active10s ks = record_all H (window_values 10 k ops) \<and>
     active60s ks = record_all H (window_values 60 k ops) \<and>
     active300s ks = record_all H (window_values 300 k ops)"

lemma key_windows_run:
  assumes reset: "hist_reset_ok H" and short: "length ops < 2 ^ 64"
  shows "case map_of (la_keys (agg_run H ops)) k of
       Some ks \<Rightarrow> key_windows H k ops ks
     | None \<Rightarrow> window_values 10 k ops = [] \<and> window_values 60 k ops = [] \<and> window_values 300 k ops = []"
  using short
proof (induction ops rule: rev_induct)
  case (snoc op ops)
  then have IH: "case map_of (la_keys (agg_run H ops)) k of
       Some ks \<Rightarrow> key_windows H k ops ks
     | None \<Rightarrow> window_values 10 k ops = [] \<and> window_values 60 k ops = [] \<and> window_values 300 k ops = []"
    by simp
  show ?case
  proof (cases op)
    case (OpRecord k' v c)
    have v: "(if v < 1 then 1 else v) = max v 1" by auto
    show ?thesis
      using IH OpRecord
      by (auto simp: RecordValues_def Let_def update_conv' record_key_def key_windows_def v newKeyState_def
          record_all_snoc new_hist_def [symmetric] simp flip: record_all_Nil split: option.splits)
  next
    case OpTick
    have tc: "tick_count (ops @ [OpTick]) < 2 ^ 64"
      using snoc.prems tick_count_le [of "ops @ [OpTick]"] OpTick by simp
    have tm: "(la_ticks (agg_run H ops) + 1) mod of_nat w = 0 \<longleftrightarrow> Suc (tick_count ops) mod w = 0" if "w < 2 ^ 64" for w
      using tick_mod [OF tc that, of H] by (simp add: Tick_def Let_def)
    have r: "h_Reset H (record_all H vs) = new_hist H" for vs
      using reset by (simp add: hist_reset_ok_def)
    show ?thesis
      using IH OpTick tm [of 10] tm [of 60] tm [of 300]
      by (auto simp: Tick_def Let_def map_of_map tick_key_def key_windows_def r split: option.splits)
  qed
qed (simp add: agg_run_def NewLatencyAggregator_def)

text \<open>
  C30: At every tick, the percentile snapshot of a key is computed from exactly the latencies
  recorded for it in the current tumbling window of 10, 60 and 300 ticks (clamped to at least one
  microsecond, calls with a count below one ignored), for any history of calls shorter than the
  range of the tick counter, when resetting a histogram empties it.
\<close>

theorem Tick_snapshots_window:
  assumes "hist_reset_ok H" and "length ops < 2 ^ 64 - 1"
    and "map_of (Snapshot_latency (agg_run H (ops @ [OpTick]))) key = Some snap"
  shows "W10s snap = window_snapshot H (record_all H (window_values 10 key ops)) \<and>
     W60s snap = window_snapshot H (record_all H (window_values 60 key ops)) \<and>
     W300s snap = window_snapshot H (record_all H (window_values 300 key ops))"
proof -
  obtain ks where ks: "map_of (la_keys (agg_run H ops)) key = Some ks"
    "snap = ks_snap (tick_key H (la_ticks (agg_run H ops) + 1) ks)"
    using assms(3) by (auto simp: Snapshot_latency_def Tick_def Let_def map_of_map simp del: map_map)
  have "key_windows H key ops ks"
    using key_windows_run [OF assms(1), of ops key] assms(2) ks(1) by simp
  with ks(2) show ?thesis by (simp add: tick_key_def key_windows_def Let_def)
qed

text \<open>A list of observations is a histogram for which the law holds.\<close>

definition list_hist :: "(int \<times> int) list hist_ops" where
  "list_hist = \<lparr>h_New = \<lambda>_ _ _. [], h_RecordValues = \<lambda>h v c. h @ [(v, c)],
     h_ValueAtQuantile = \<lambda>h q. (case h of [] \<Rightarrow> 0 | (v, c) # _ \<Rightarrow> v),
     h_Max = \<lambda>h. foldl (\<lambda>m (v, c). max m v) 0 h, h_Reset = \<lambda>_. []\<rparr>"

theorem Tick_snapshots_window_witness:
  "map_of (Snapshot_latency (agg_run list_hist ([OpRecord ''a'' 2000 1, OpTick, OpRecord ''a'' 5000 2] @ [OpTick]))) ''a'' =
     Some \<lparr>W10s = window_snapshot list_hist [(2000, 1), (5000, 2)],
           W60s = window_snapshot list_hist [(2000, 1), (5000, 2)],
           W300s = window_snapshot list_hist [(2000, 1), (5000, 2)]\<rparr>"
proof -
  let ?ops = "[OpRecord ''a'' 2000 1, OpTick, OpRecord ''a'' 5000 2]"
  have ok: "hist_reset_ok list_hist"
    by (simp add: hist_reset_ok_def list_hist_def new_hist_def)
  have all: "record_all list_hist vs = vs" for vs
    by (induction vs rule: rev_induct) (auto simp: record_all_def list_hist_def new_hist_def)
  obtain snap where snap: "map_of (Snapshot_latency (agg_run list_hist (?ops @ [OpTick]))) ''a'' = Some snap"
    by (simp add: agg_run_def Snapshot_latency_def NewLatencyAggregator_def RecordValues_def Tick_def Let_def)
  have w: "window_values n ''a'' ?ops = [(2000, 1), (5000, 2)]" if "n \<in> {10, 60, 300}" for n
    using that by (auto simp: window_values_def tick_count_def)
  from Tick_snapshots_window [OF ok _ snap] have "W10s snap = window_snapshot list_hist [(2000, 1), (5000, 2)]"
    "W60s snap = window_snapshot list_hist [(2000, 1), (5000, 2)]"
    "W300s snap = window_snapshot list_hist [(2000, 1), (5000, 2)]"
    by (simp_all add: w all)
  then show ?thesis using snap by (cases snap) simp
qed

end
