(* ===== verification/CgroupPaths.thy ===== *)
theory CgroupPaths
  imports GoStrings
begin

text \<open>
  Naming of cgroups (pkg/cgroup/resolver.go): labels and container ids derived from a cgroup
  path, the Kubernetes pod lists that enrich them, the kubelet credentials and the boot time.
  The Docker daemon, the kubelet and the file system are arguments: \<open>docker_get\<close> is the name in
  the daemon's answer (\<open>None\<close> on any failure), \<open>read_file\<close> the contents of a file.
\<close>

section \<open>Labels and container ids\<close>

definition fetchDockerName :: "(string \<Rightarrow> string option) \<Rightarrow> string \<Rightarrow> string" where
  "fetchDockerName docker_get cid = (case docker_get cid of None \<Rightarrow> [] | Some name \<Rightarrow> TrimPrefix name ''/'')"

definition scope_id :: "string \<Rightarrow> string \<Rightarrow> string" where
  "scope_id pre s = TrimSuffix (TrimPrefix s pre) ''.scope''"

definition is_scope :: "string \<Rightarrow> string \<Rightarrow> bool" where
  "is_scope pre s \<longleftrightarrow> HasPrefix s pre \<and> HasSuffix s ''.scope''"

definition short_id :: "string \<Rightarrow> string" where
  "short_id cid = (if 12 \<le> length cid then take 12 cid else cid)"

definition labelFromPath :: "(string \<Rightarrow> string option) \<Rightarrow> string \<Rightarrow> string" where
  "labelFromPath docker_get rel =
     (if rel = ''.'' \<or> rel = [] then ''host''
      else let parts = split_on CHR ''/'' rel; n = length parts; lst = parts ! (n - 1) in
        if is_scope ''docker-'' lst then
          let cid = scope_id ''docker-'' lst; name = fetchDockerName docker_get cid in
          ''docker:'' @ (if name \<noteq> [] then name else short_id cid)
        else if is_scope ''cri-containerd-'' lst then ''k8s:'' @ short_id (scope_id ''cri-containerd-'' lst)
        else if is_scope ''crio-'' lst then ''k8s:'' @ short_id (scope_id ''crio-'' lst)
        else let isK8s = list_ex (\<lambda>part. HasPrefix part ''kubepods'') parts in
          if 2 \<le> n \<and> parts ! (n - 2) = ''docker''
          then (if isK8s then ''k8s:'' else ''docker:'') @ short_id lst
          else if isK8s \<and> length lst = 64 then ''k8s:'' @ take 12 lst
          else if 2 \<le> n then parts ! (n - 2) @ ''/'' @ lst
          else lst)"

definition extractContainerID :: "string \<Rightarrow> string" where
  "extractContainerID rel =
     (let parts = split_on CHR ''/'' rel; lst = last parts in
      if is_scope ''cri-containerd-'' lst then scope_id ''cri-containerd-'' lst
      else if is_scope ''crio-'' lst then scope_id ''crio-'' lst
      else if is_scope ''docker-'' lst then scope_id ''docker-'' lst
      else if length lst = 64 then lst else [])"

definition cleanContainerID :: "string \<Rightarrow> string" where
  "cleanContainerID cid = (let idx = Index_str cid ''://'' in
     if idx \<noteq> -1 then drop (nat idx + 3) cid else cid)"

lemma scope_round_trip: "is_scope pre (pre @ cid @ ''.scope'') \<and> scope_id pre (pre @ cid @ ''.scope'') = cid"
  by (simp add: is_scope_def scope_id_def suffix_append)

lemma length_short_id: "length (short_id cid) \<le> 12"
  by (simp add: short_id_def)

lemma last_split_append:
  assumes "CHR ''/'' \<notin> set s"
  shows "last (split_on CHR ''/'' (d @ CHR ''/'' # s)) = s"
proof (induction d)
  case Nil
  then show ?case using assms by (simp add: split_on_free)
next
  case (Cons x d)
  obtain w ws where w: "split_on CHR ''/'' (d @ CHR ''/'' # s) = w # ws"
    using split_on_nonempty by (metis neq_Nil_conv)
  have "ws \<noteq> []"
    using length_split_on [of "CHR ''/''" "d @ CHR ''/'' # s"] w by (cases ws) auto
  with Cons w show ?case by auto
qed

lemma last_conv_nth_split: "split_on c s ! (length (split_on c s) - Suc 0) = last (split_on c s)"
  by (simp add: last_conv_nth)

section \<open>Kubernetes pods\<close>

record ContainerStatus =
  cs_Name :: string
  cs_ContainerID :: string

record KubePod =
  pod_Name :: string
  pod_Namespace :: string
  pod_UID :: string
  pod_ContainerStatuses :: "ContainerStatus list"
  pod_InitContainerStatuses :: "ContainerStatus list"
  pod_EphemeralContainerStatuses :: "ContainerStatus list"

record K8sInfo =
  k8_Namespace :: string
  k8_Pod :: string
  k8_Container :: string

definition add_status :: "KubePod \<Rightarrow> (string, K8sInfo) gomap \<Rightarrow> ContainerStatus \<Rightarrow> (string, K8sInfo) gomap" where
  "add_status pod m c =
     (let cID = cleanContainerID (cs_ContainerID c);
          info = \<lparr>k8_Namespace = pod_Namespace pod, k8_Pod = pod_Name pod, k8_Container = cs_Name c\<rparr>
      in if cID \<noteq> []
         then let m1 = AList.update cID info m in
              if 12 < length cID then AList.update (take 12 cID) info m1 else m1
         else m)"

definition add_pod :: "(string, K8sInfo) gomap \<Rightarrow> KubePod \<Rightarrow> (string, K8sInfo) gomap" where
  "add_pod m pod =
     foldl (add_status pod)
       (foldl (add_status pod) (foldl (add_status pod) m (pod_ContainerStatuses pod))
         (pod_InitContainerStatuses pod))
       (pod_EphemeralContainerStatuses pod)"

definition fresh_k8s :: "KubePod list option \<Rightarrow> (string, K8sInfo) gomap" where
  "fresh_k8s pods = (case pods of None \<Rightarrow> [] | Some ps \<Rightarrow> foldl add_pod [] ps)"

text \<open>
  \<^verbatim>\<open>fetchKubeletPodsFromTaskConfig\<close>: \<open>entries\<close> is the directory listing (\<open>None\<close> if unreadable),
  an entry's name, whether it is a directory, and the annotations decoded from its
  \<^verbatim>\<open>config.json\<close> (\<open>None\<close> when unreadable, undecodable or absent). The pods come out in the
  order \<open>ord\<close> in which the map is ranged over.
\<close>

type_synonym task_entry = "string \<times> bool \<times> (string, string) gomap option"

definition annot :: "(string, string) gomap \<Rightarrow> string \<Rightarrow> string" where
  "annot m k = (case map_of m k of None \<Rightarrow> [] | Some v \<Rightarrow> v)"

definition annot2 :: "(string, string) gomap \<Rightarrow> string \<Rightarrow> string \<Rightarrow> string" where
  "annot2 m k1 k2 = (if annot m k1 = [] then annot m k2 else annot m k1)"

definition task_container_name :: "(string, string) gomap \<Rightarrow> string" where
  "task_container_name an =
     (let n = annot an ''io.kubernetes.cri.container-name'' in
      if n = []
      then if annot an ''io.kubernetes.cri.container-type'' = ''sandbox'' then ''sandbox''
           else annot an ''io.kubernetes.container.name''
      else n)"

definition task_entry_step :: "(string, KubePod) gomap \<Rightarrow> task_entry \<Rightarrow> (string, KubePod) gomap" where
  "task_entry_step podMap e = (case e of (cID, isDir, ann) \<Rightarrow>
     if \<not> isDir then podMap
     else case ann of None \<Rightarrow> podMap
     | Some an \<Rightarrow>
        let podName = annot2 an ''io.kubernetes.cri.sandbox-name'' ''io.kubernetes.pod.name'';
            podNS = annot2 an ''io.kubernetes.cri.sandbox-namespace'' ''io.kubernetes.pod.namespace'';
            podUID = annot2 an ''io.kubernetes.cri.sandbox-uid'' ''io.kubernetes.pod.uid'';
            containerName = task_container_name an
        in if podName \<noteq> [] \<and> podNS \<noteq> []
           then let podKey = podNS @ ''/'' @ podName;
                    p = (case map_of podMap podKey of Some p \<Rightarrow> p
                         | None \<Rightarrow> \<lparr>pod_Name = podName, pod_Namespace = podNS, pod_UID = podUID,
                              pod_ContainerStatuses = [], pod_InitContainerStatuses = [],
                              pod_EphemeralContainerStatuses = []\<rparr>)
                in AList.update podKey (p\<lparr>pod_ContainerStatuses := pod_ContainerStatuses p @
                     [\<lparr>cs_Name = containerName, cs_ContainerID = ''containerd://'' @ cID\<rparr>]\<rparr>) podMap
           else podMap)"

definition fetchKubeletPodsFromTaskConfig ::
  "((string, KubePod) gomap \<Rightarrow> (string, KubePod) gomap) \<Rightarrow> task_entry list option \<Rightarrow> KubePod list option" where
  "fetchKubeletPodsFromTaskConfig ord entries =
     map_option (\<lambda>es. map snd (ord (foldl task_entry_step [] es))) entries"

text \<open>
  \<^verbatim>\<open>fetchKubeletPods\<close>: the task configurations first, then the read-only port, then the
  authenticated port; \<open>http\<close> and \<open>https\<close> are the pod lists decoded from a successful answer.
\<close>

definition fetchKubeletPods :: "KubePod list option \<Rightarrow> KubePod list option \<Rightarrow> KubePod list option \<Rightarrow> KubePod list option" where
  "fetchKubeletPods tasks http https =
     (case tasks of
        Some (p # ps) \<Rightarrow> Some (p # ps)
      | _ \<Rightarrow> (case http of Some l \<Rightarrow> Some l | None \<Rightarrow> https))"

section \<open>Credentials and boot time\<close>

definition is_quote :: "char \<Rightarrow> bool" where
  "is_quote c \<longleftrightarrow> c = CHR 0x22 \<or> c = CHR 0x27"

definition trim_quotes :: "string \<Rightarrow> string" where
  "trim_quotes s = rev (dropWhile is_quote (rev (dropWhile is_quote s)))"

fun kubeconfig_token :: "string list \<Rightarrow> string option" where
  "kubeconfig_token [] = None"
| "kubeconfig_token (l # ls) =
     (let line = TrimSpace l in
      if HasPrefix line ''token:''
      then let token = trim_quotes (TrimSpace (TrimPrefix line ''token:'')) in
           if token \<noteq> [] then Some token else kubeconfig_token ls
      else kubeconfig_token ls)"

fun kubeconfig_search :: "(string \<Rightarrow> string option) \<Rightarrow> string list \<Rightarrow> string" where
  "kubeconfig_search read_file [] = []"
| "kubeconfig_search read_file (p # ps) = (case read_file p of
      None \<Rightarrow> kubeconfig_search read_file ps
    | Some data \<Rightarrow> (case kubeconfig_token (scan_lines data) of
          Some token \<Rightarrow> ''Bearer '' @ token
        | None \<Rightarrow> kubeconfig_search read_file ps))"

text \<open>The authorization header; \<open>pem_ok\<close> says that the client certificate could be loaded.\<close>

definition getKubeletClient :: "(string \<Rightarrow> string option) \<Rightarrow> bool \<Rightarrow> string" where
  "getKubeletClient read_file pem_ok =
     (case read_file ''/var/run/secrets/kubernetes.io/serviceaccount/token'' of
        Some token \<Rightarrow> ''Bearer '' @ TrimSpace token
      | None \<Rightarrow>
          if pem_ok then []
          else kubeconfig_search read_file [''/var/lib/kubelet/kubeconfig'', ''/etc/kubernetes/kubelet/kubeconfig''])"

text \<open>\<^verbatim>\<open>fmt.Sscanf(line, "btime %d", &x)\<close> on a line that starts with the literal.\<close>

definition sscan_int64 :: "string \<Rightarrow> int option" where
  "sscan_int64 s =
     (let t = dropWhile is_space s;
          neg = HasPrefix t ''-'';
          u = (if HasPrefix t ''-'' \<or> HasPrefix t ''+'' then tl t else t);
          ds = takeWhile is_digit u
      in if ds = [] then None
         else case parse_digits 0 ds of None \<Rightarrow> None
           | Some n \<Rightarrow> let v = (if neg then - int n else int n) in
               if - (2 ^ 63) \<le> v \<and> v < 2 ^ 63 then Some v else None)"

fun btime_scan :: "string list \<Rightarrow> u64 option" where
  "btime_scan [] = None"
| "btime_scan (l # ls) =
     (if \<not> HasPrefix l ''btime '' then btime_scan ls
      else case sscan_int64 (drop 6 l) of None \<Rightarrow> None
           | Some bootSec \<Rightarrow> Some (word_of_int (bootSec * 10 ^ 9)))"

definition BootTimeOffset :: "(string \<Rightarrow> string option) \<Rightarrow> u64 option" where
  "BootTimeOffset read_file = (case read_file ''/proc/stat'' of
      None \<Rightarrow> None | Some data \<Rightarrow> btime_scan (split_on CHR 0x0A data))"

lemma sscan_show_nat:
  assumes "n < 2 ^ 63"
  shows "sscan_int64 (show_nat n) = Some (int n)"
proof -
  obtain c s where cs: "show_nat n = c # s" using show_nat_nonempty [of n] by (cases "show_nat n") auto
  have c: "\<not> is_space c" "c \<noteq> CHR ''-''" "c \<noteq> CHR ''+''"
    using show_nat_all_digits [of n] digit_not_space [of c] cs by auto
  have "takeWhile is_digit (show_nat n) = show_nat n"
    using show_nat_all_digits [of n] by (simp add: takeWhile_eq_all_conv)
  moreover have "int n < 2 ^ 63" using assms by (metis of_nat_less_iff of_nat_numeral of_nat_power)
  ultimately show ?thesis
    using c cs parse_show [of n] by (simp add: sscan_int64_def Let_def)
qed

lemma btime_scan_skip:
  "\<forall>l \<in> set pre. \<not> HasPrefix l ''btime '' \<Longrightarrow> btime_scan (pre @ ls) = btime_scan ls"
  by (induction pre) auto

section \<open>Theorems\<close>

text \<open>
  A container whose cgroup directory is \<^verbatim>\<open><runtime>-<id>.scope\<close> is identified by exactly
  its id, for each of the three runtimes; the id is found whatever directory the scope is in; and
  the label is the runtime prefix with the Docker name when the daemon knows one, and at most
  twelve characters of the id otherwise.
\<close>

theorem container_scope_identified:
  assumes "CHR ''/'' \<notin> set cid"
  shows "extractContainerID (d @ ''/docker-'' @ cid @ ''.scope'') = cid \<and>
     extractContainerID (d @ ''/crio-'' @ cid @ ''.scope'') = cid \<and>
     extractContainerID (d @ ''/cri-containerd-'' @ cid @ ''.scope'') = cid \<and>
     labelFromPath docker_get (d @ ''/docker-'' @ cid @ ''.scope'') =
       ''docker:'' @ (if fetchDockerName docker_get cid \<noteq> [] then fetchDockerName docker_get cid else take 12 cid) \<and>
     labelFromPath docker_get (d @ ''/crio-'' @ cid @ ''.scope'') = ''k8s:'' @ take 12 cid \<and>
     labelFromPath docker_get (d @ ''/cri-containerd-'' @ cid @ ''.scope'') = ''k8s:'' @ take 12 cid"
proof -
  have no: "CHR ''/'' \<notin> set (''docker-'' @ cid @ ''.scope'')" "CHR ''/'' \<notin> set (''crio-'' @ cid @ ''.scope'')"
    "CHR ''/'' \<notin> set (''cri-containerd-'' @ cid @ ''.scope'')" using assms by auto
  have l: "last (split_on CHR ''/'' (d @ ''/docker-'' @ cid @ ''.scope'')) = ''docker-'' @ cid @ ''.scope''"
    "last (split_on CHR ''/'' (d @ ''/crio-'' @ cid @ ''.scope'')) = ''crio-'' @ cid @ ''.scope''"
    "last (split_on CHR ''/'' (d @ ''/cri-containerd-'' @ cid @ ''.scope'')) = ''cri-containerd-'' @ cid @ ''.scope''"
    using no [THEN last_split_append [of _ d]] by simp_all
  note s = scope_round_trip [of "''docker-''" cid] scope_round_trip [of "''crio-''" cid]
    scope_round_trip [of "''cri-containerd-''" cid]
  have cross: "\<not> is_scope ''cri-containerd-'' (''docker-'' @ cid @ ''.scope'')"
    "\<not> is_scope ''crio-'' (''docker-'' @ cid @ ''.scope'')" "\<not> is_scope ''cri-containerd-'' (''crio-'' @ cid @ ''.scope'')"
    "\<not> is_scope ''docker-'' (''crio-'' @ cid @ ''.scope'')" "\<not> is_scope ''docker-'' (''cri-containerd-'' @ cid @ ''.scope'')"
    by (simp_all add: is_scope_def)
  have short: "short_id cid = take 12 cid" by (simp add: short_id_def)
  have ne: "d @ CHR ''/'' # x # y # z \<noteq> ''.''" for x y z by (cases d) auto
  show ?thesis
    using l s cross short ne
    by (simp add: extractContainerID_def labelFromPath_def Let_def last_conv_nth_split)
qed

theorem container_scope_identified_witness:
  "extractContainerID ''system.slice/docker-0123456789abcdef.scope'' = ''0123456789abcdef'' \<and>
   labelFromPath (\<lambda>_. None) ''system.slice/docker-0123456789abcdef.scope'' = ''docker:0123456789ab''"
  using container_scope_identified [of "''0123456789abcdef''" "''system.slice''" "\<lambda>_. None"]
  by (simp add: fetchDockerName_def)

text \<open>
  The boot-time offset is the boot second of \<^verbatim>\<open>/proc/stat\<close> in nanoseconds: when the file
  has a \<^verbatim>\<open>btime\<close> line, after any other lines, the result is that number times one billion,
  exactly as long as it fits a signed 64-bit integer.
\<close>

theorem BootTimeOffset_reads_btime:
  assumes "read_file ''/proc/stat'' = Some (join_with CHR 0x0A (pre @ (''btime '' @ show_nat sec) # post))"
    and "\<forall>l \<in> set (pre @ post). CHR 0x0A \<notin> set l" and "\<forall>l \<in> set pre. \<not> HasPrefix l ''btime ''"
    and "sec * 10 ^ 9 < 2 ^ 63"
  shows "\<exists>off. BootTimeOffset read_file = Some off \<and> sint off = int sec * 10 ^ 9"
proof -
  let ?lines = "pre @ (''btime '' @ show_nat sec) # post"
  have "CHR 0x0A \<notin> set (''btime '' @ show_nat sec)"
    using show_nat_all_digits [of sec] digit_not_space by auto
  with assms(2) have sp: "split_on CHR 0x0A (join_with CHR 0x0A ?lines) = ?lines"
    by (intro split_join) auto
  have "sec < 2 ^ 63" using assms(4) by simp
  then have "BootTimeOffset read_file = Some (word_of_int (int sec * 10 ^ 9))"
    using assms(1) sp btime_scan_skip [OF assms(3)] by (simp add: BootTimeOffset_def sscan_show_nat)
  moreover have "sint (word_of_int (int sec * 10 ^ 9) :: u64) = int sec * 10 ^ 9"
  proof -
    have "int (sec * 10 ^ 9) < int (2 ^ 63)" using assms(4) by (simp only: of_nat_less_iff)
    then have "int sec * 10 ^ 9 < 2 ^ 63" by simp
    then show ?thesis by (intro sint_of_small) simp_all
  qed
  ultimately show ?thesis by blast
qed

theorem BootTimeOffset_reads_btime_witness:
  "\<exists>off. BootTimeOffset (\<lambda>_. Some (join_with CHR 0x0A ([''cpu  1 2 3''] @ (''btime '' @ show_nat 1700000000) # [''processes 5'']))) = Some off \<and>
     sint off = 1700000000 * 10 ^ 9"
proof -
  have "\<forall>l \<in> set ([''cpu  1 2 3''] @ [''processes 5'']). CHR 0x0A \<notin> set l"
    "\<forall>l \<in> set [''cpu  1 2 3'']. \<not> HasPrefix l ''btime ''" by simp_all
  moreover have "(1700000000 :: nat) * 10 ^ 9 < 2 ^ 63" by simp
  ultimately show ?thesis
    using BootTimeOffset_reads_btime [where sec = 1700000000 and pre = "[''cpu  1 2 3'']" and post = "[''processes 5'']", OF refl]
    by (simp only: of_nat_numeral simp_thms)
qed

end
