(* ===== verification/Resolver.thy ===== *)
theory Resolver
  imports CgroupPaths
begin

text \<open>
  The cgroup resolver (pkg/cgroup/resolver.go): the walk over the cgroup hierarchy, the refresh
  that replaces the cache and moves vanished cgroups into a bounded history, the eviction of old
  history entries and the lookup with its one retry. The file system, the kubelet, the Docker
  daemon, the clock and the order of map iteration are arguments of a refresh.
\<close>

section \<open>The walk\<close>

text \<open>
  A directory of the cgroup file system: its name, the inode number that \<^verbatim>\<open>Stat\<close> reports
  (\<open>None\<close> if it fails) and its entries (\<open>None\<close> if the directory cannot be read).
\<close>

datatype fsnode = FsFile string | FsDir string "u64 option" "fsnode list option"

record ContainerInfo =
  ci_CgroupID :: u64
  ci_Name :: string
  ci_CgroupPath :: string
  ci_Namespace :: string
  ci_Pod :: string
  ci_Container :: string

definition rel_join :: "string \<Rightarrow> string \<Rightarrow> string" where
  "rel_join rel name = (if rel = ''.'' then name else rel @ ''/'' @ name)"

text \<open>\<^verbatim>\<open>filepath.WalkDir\<close>: the directories visited, with their relative path and inode.\<close>

fun walk_dir :: "string \<Rightarrow> fsnode \<Rightarrow> (string \<times> u64) list" where
  "walk_dir rel (FsFile _) = []"
| "walk_dir rel (FsDir _ ino entries) =
     (case ino of None \<Rightarrow> [] | Some i \<Rightarrow> [(rel, i)]) @
     (case entries of None \<Rightarrow> []
      | Some es \<Rightarrow> concat (map (\<lambda>e. case e of FsFile n \<Rightarrow> []
                                     | FsDir n _ _ \<Rightarrow> walk_dir (rel_join rel n) e) es))"

definition enrich :: "K8sInfo \<Rightarrow> ContainerInfo \<Rightarrow> ContainerInfo" where
  "enrich k info =
     info\<lparr>ci_Name := k8_Namespace k @ ''/'' @ k8_Pod k @ ''/'' @ k8_Container k,
          ci_Namespace := k8_Namespace k, ci_Pod := k8_Pod k, ci_Container := k8_Container k\<rparr>"

definition dir_info ::
  "(string \<Rightarrow> string option) \<Rightarrow> (string, K8sInfo) gomap \<Rightarrow> string \<Rightarrow> u64 \<Rightarrow> ContainerInfo" where
  "dir_info docker_get k8s rel ino =
     (let info = \<lparr>ci_CgroupID = ino, ci_Name = labelFromPath docker_get rel, ci_CgroupPath = rel,
                  ci_Namespace = [], ci_Pod = [], ci_Container = []\<rparr>;
          cID = extractContainerID rel
      in if cID \<noteq> []
         then case map_of k8s cID of
             Some k \<Rightarrow> enrich k info
           | None \<Rightarrow> if 12 < length cID
               then case map_of k8s (take 12 cID) of Some k \<Rightarrow> enrich k info | None \<Rightarrow> info
               else info
         else info)"

text \<open>What a refresh reads: the root directory (\<open>None\<close> if it is missing) and the services.\<close>

record scan_env =
  se_root :: "fsnode option"
  se_pods :: "KubePod list option"
  se_docker :: "string \<Rightarrow> string option"

definition scan_cgroups :: "scan_env \<Rightarrow> (u64, ContainerInfo) gomap" where
  "scan_cgroups e =
     foldl (\<lambda>fresh (rel, ino). AList.update ino (dir_info (se_docker e) (fresh_k8s (se_pods e)) rel ino) fresh) []
       (case se_root e of None \<Rightarrow> [] | Some d \<Rightarrow> walk_dir ''.'' d)"

section \<open>The resolver\<close>

record Resolver =
  r_cache :: "(u64, ContainerInfo) gomap option"
  r_history :: "(u64, ContainerInfo) gomap"
  r_deletedAt :: "(u64, time) gomap"
  r_lastRefresh :: time
  r_k8sCache :: "(string, K8sInfo) gomap"
  r_k8sMode :: bool
  r_refreshPeriodD :: int

definition refreshPeriod :: int where "refreshPeriod = 10 * 10 ^ 9"
definition staleness :: int where "staleness = 100 * 10 ^ 6"
definition history_limit :: nat where "history_limit = 1000"

definition cache_list :: "Resolver \<Rightarrow> (u64, ContainerInfo) gomap" where
  "cache_list r = (case r_cache r of None \<Rightarrow> [] | Some c \<Rightarrow> c)"

definition zero_resolver :: Resolver where
  "zero_resolver = \<lparr>r_cache = None, r_history = [], r_deletedAt = [], r_lastRefresh = zero_time,
     r_k8sCache = [], r_k8sMode = False, r_refreshPeriodD = 0\<rparr>"

text \<open>The loop that moves cgroups missing from the new scan into the history.\<close>

definition move_deleted ::
  "(u64 \<Rightarrow> time) \<Rightarrow> (u64, ContainerInfo) gomap \<Rightarrow> Resolver \<Rightarrow> Resolver" where
  "move_deleted clk fresh r =
     foldl (\<lambda>r (cid, info). if map_of fresh cid = None
               then r\<lparr>r_history := AList.update cid info (r_history r),
                      r_deletedAt := AList.update cid (clk cid) (r_deletedAt r)\<rparr>
               else r) r (cache_list r)"

text \<open>The loop that trims the history, over the keys in the order of the map iteration.\<close>

fun trim_history :: "u64 list \<Rightarrow> Resolver \<Rightarrow> Resolver" where
  "trim_history [] r = r"
| "trim_history (cid # ids) r =
     (let r' = r\<lparr>r_history := AList.delete cid (r_history r), r_deletedAt := AList.delete cid (r_deletedAt r)\<rparr>
      in if length (r_history r') \<le> history_limit then r' else trim_history ids r')"

definition refresh ::
  "((u64, ContainerInfo) gomap \<Rightarrow> u64 list) \<Rightarrow> (u64 \<Rightarrow> time) \<Rightarrow> time \<Rightarrow> scan_env \<Rightarrow> Resolver \<Rightarrow> Resolver" where
  "refresh ord clk now e r =
     (let fresh = scan_cgroups e;
          r1 = move_deleted clk fresh r;
          r2 = r1\<lparr>r_deletedAt := filter (\<lambda>(cid, _). map_of fresh cid = None) (r_deletedAt r1)\<rparr>;
          r3 = (if history_limit < length (r_history r2) then trim_history (ord (r_history r2)) r2 else r2)
      in r3\<lparr>r_cache := Some fresh, r_k8sCache := fresh_k8s (se_pods e), r_lastRefresh := now\<rparr>)"

definition NewResolver ::
  "((u64, ContainerInfo) gomap \<Rightarrow> u64 list) \<Rightarrow> (u64 \<Rightarrow> time) \<Rightarrow> time \<Rightarrow> scan_env \<Rightarrow> Resolver" where
  "NewResolver ord clk now e =
     refresh ord clk now e (zero_resolver\<lparr>r_cache := Some [], r_refreshPeriodD := refreshPeriod\<rparr>)"

definition SetK8sMode :: "bool \<Rightarrow> Resolver \<Rightarrow> Resolver" where
  "SetK8sMode enabled r =
     r\<lparr>r_k8sMode := enabled, r_refreshPeriodD := (if enabled then 2 * 10 ^ 9 else refreshPeriod)\<rparr>"

definition find_info :: "Resolver \<Rightarrow> u64 \<Rightarrow> ContainerInfo option" where
  "find_info r cid = (case map_of (cache_list r) cid of
      Some i \<Rightarrow> Some i | None \<Rightarrow> map_of (r_history r) cid)"

definition Lookup ::
  "((u64, ContainerInfo) gomap \<Rightarrow> u64 list) \<Rightarrow> (u64 \<Rightarrow> time) \<Rightarrow> time \<Rightarrow> time \<Rightarrow> scan_env \<Rightarrow> Resolver \<Rightarrow> u64 \<Rightarrow>
   Resolver \<times> ContainerInfo option" where
  "Lookup ord clk now now' e r cid =
     (if r_cache r = None then (r, None)
      else let stale = staleness < time_sub now (r_lastRefresh r) in
        case find_info r cid of
          Some i \<Rightarrow> (r, Some i)
        | None \<Rightarrow> if stale then let r' = refresh ord clk now' e r in (r', find_info r' cid) else (r, None))"

definition All :: "Resolver \<Rightarrow> (u64, ContainerInfo) gomap" where
  "All r = cache_list r"

definition evictStaleEntries :: "time \<Rightarrow> Resolver \<Rightarrow> Resolver" where
  "evictStaleEntries now r =
     foldl (\<lambda>r (cid, t). if 2 * refreshPeriod \<le> time_sub now t
               then r\<lparr>r_history := AList.delete cid (r_history r), r_deletedAt := AList.delete cid (r_deletedAt r)\<rparr>
               else r) r (r_deletedAt r)"

section \<open>The invariant\<close>

definition resolver_ok :: "Resolver \<Rightarrow> bool" where
  "resolver_ok r \<longleftrightarrow>
     distinct (keys (cache_list r)) \<and> distinct (keys (r_history r)) \<and> distinct (keys (r_deletedAt r)) \<and>
     (\<forall>c. map_of (r_deletedAt r) c \<noteq> None \<longrightarrow> map_of (r_history r) c \<noteq> None \<and> map_of (cache_list r) c = None) \<and>
     (\<forall>c. map_of (r_history r) c \<noteq> None \<longrightarrow> map_of (r_deletedAt r) c \<noteq> None \<or> map_of (cache_list r) c \<noteq> None) \<and>
     length (r_history r) \<le> history_limit \<and>
     (\<forall>cid i. map_of (cache_list r) cid = Some i \<longrightarrow> ci_CgroupID i = cid) \<and>
     (\<forall>cid i. map_of (r_history r) cid = Some i \<longrightarrow> ci_CgroupID i = cid)"

text \<open>\<^verbatim>\<open>range\<close> visits every key of the map once.\<close>

definition ranges :: "((u64, ContainerInfo) gomap \<Rightarrow> u64 list) \<Rightarrow> bool" where
  "ranges ord \<longleftrightarrow> (\<forall>m. distinct (keys m) \<longrightarrow> distinct (ord m) \<and> set (ord m) = set (keys m))"

lemma dir_info_id: "ci_CgroupID (dir_info d k rel ino) = ino"
  by (simp add: dir_info_def Let_def enrich_def split: option.splits)

lemma scan_aux:
  assumes "distinct (keys m)" and "\<forall>c i. map_of m c = Some i \<longrightarrow> ci_CgroupID i = c"
  shows "let m' = foldl (\<lambda>fresh (rel, ino). AList.update ino (dir_info d k rel ino) fresh) m ws in
    distinct (keys m') \<and> (\<forall>c i. map_of m' c = Some i \<longrightarrow> ci_CgroupID i = c) \<and>
    dom (map_of m') = dom (map_of m) \<union> snd ` set ws"
  using assms
proof (induction ws arbitrary: m)
  case (Cons w ws)
  obtain rel ino where w: "w = (rel, ino)" by fastforce
  let ?m = "AList.update ino (dir_info d k rel ino) m"
  have "distinct (keys ?m)" using Cons.prems(1) by (simp add: distinct_update)
  moreover have "\<forall>c i. map_of ?m c = Some i \<longrightarrow> ci_CgroupID i = c"
    using Cons.prems(2) by (simp add: update_conv' dir_info_id)
  ultimately show ?case using Cons.IH [of ?m] w by (simp add: Let_def dom_update_alist)
qed simp

definition visited_dirs :: "scan_env \<Rightarrow> (string \<times> u64) list" where
  "visited_dirs e = (case se_root e of None \<Rightarrow> [] | Some d \<Rightarrow> walk_dir ''.'' d)"

lemma scan_cgroups_ok:
  "distinct (keys (scan_cgroups e))" "map_of (scan_cgroups e) c = Some i \<Longrightarrow> ci_CgroupID i = c"
  "dom (map_of (scan_cgroups e)) = snd ` set (visited_dirs e)"
  using scan_aux [of "[]" "se_docker e" "fresh_k8s (se_pods e)" "visited_dirs e"]
  by (auto simp: scan_cgroups_def Let_def visited_dirs_def)

section \<open>Refreshing\<close>

lemma move_deleted_aux:
  assumes "distinct (keys cs)" and "distinct (keys (r_history r))" and "distinct (keys (r_deletedAt r))"
  shows "let r' = foldl (\<lambda>r (cid, info). if map_of fresh cid = None
               then r\<lparr>r_history := AList.update cid info (r_history r),
                      r_deletedAt := AList.update cid (clk cid) (r_deletedAt r)\<rparr>
               else r) r cs in
     map_of (r_history r') = (\<lambda>c. if map_of fresh c = None \<and> map_of cs c \<noteq> None then map_of cs c
                                  else map_of (r_history r) c) \<and>
     map_of (r_deletedAt r') = (\<lambda>c. if map_of fresh c = None \<and> map_of cs c \<noteq> None then Some (clk c)
                                  else map_of (r_deletedAt r) c) \<and>
     distinct (keys (r_history r')) \<and> distinct (keys (r_deletedAt r')) \<and> r_cache r' = r_cache r"
  using assms
proof (induction cs arbitrary: r)
  case (Cons x cs)
  obtain c i where x: "x = (c, i)" by fastforce
  let ?r = "if map_of fresh c = None
     then r\<lparr>r_history := AList.update c i (r_history r), r_deletedAt := AList.update c (clk c) (r_deletedAt r)\<rparr> else r"
  have c: "map_of cs c = None" using Cons.prems(1) x by (simp add: map_of_eq_None_iff)
  have "distinct (keys cs)" "distinct (keys (r_history ?r))" "distinct (keys (r_deletedAt ?r))"
    using Cons.prems x by (simp_all add: distinct_update)
  from Cons.IH [OF this] x c show ?case
    by (auto simp: Let_def fun_eq_iff update_conv' split: if_splits)
qed (simp add: Let_def fun_eq_iff)

lemma move_deleted_maps:
  assumes "distinct (keys (cache_list r))" "distinct (keys (r_history r))" "distinct (keys (r_deletedAt r))"
  shows "map_of (r_history (move_deleted clk fresh r)) c =
      (if map_of fresh c = None \<and> map_of (cache_list r) c \<noteq> None then map_of (cache_list r) c
       else map_of (r_history r) c)"
    "map_of (r_deletedAt (move_deleted clk fresh r)) c =
      (if map_of fresh c = None \<and> map_of (cache_list r) c \<noteq> None then Some (clk c)
       else map_of (r_deletedAt r) c)"
    "distinct (keys (r_history (move_deleted clk fresh r)))"
    "distinct (keys (r_deletedAt (move_deleted clk fresh r)))"
  using move_deleted_aux [OF assms, of fresh clk] by (simp_all add: Let_def move_deleted_def)

text \<open>Trimming deletes the same ids from both maps and stops at the limit.\<close>

lemma trim_history_spec:
  assumes "distinct (keys (r_history r))" and "distinct (keys (r_deletedAt r))"
    and "dom (map_of (r_history r)) \<subseteq> set ids"
  shows "\<exists>D. map_of (r_history (trim_history ids r)) = map_of (r_history r) |` (- D) \<and>
     map_of (r_deletedAt (trim_history ids r)) = map_of (r_deletedAt r) |` (- D) \<and>
     distinct (keys (r_history (trim_history ids r))) \<and> distinct (keys (r_deletedAt (trim_history ids r))) \<and>
     length (r_history (trim_history ids r)) \<le> history_limit"
  using assms
proof (induction ids arbitrary: r)
  case Nil
  then have "r_history r = []" by (simp add: dom_map_of_conv_image_fst)
  then show ?case using Nil by (intro exI [of _ "{}"]) auto
next
  case (Cons c ids)
  let ?r = "r\<lparr>r_history := AList.delete c (r_history r), r_deletedAt := AList.delete c (r_deletedAt r)\<rparr>"
  have d: "distinct (keys (r_history ?r))" "distinct (keys (r_deletedAt ?r))"
    using Cons.prems(1,2) by (simp_all add: keys_delete)
  have m: "map_of (r_history ?r) = map_of (r_history r) |` (- {c})"
    "map_of (r_deletedAt ?r) = map_of (r_deletedAt r) |` (- {c})"
    by (auto simp: delete_conv' restrict_map_def fun_eq_iff)
  show ?case
  proof (cases "length (r_history ?r) \<le> history_limit")
    case True
    then show ?thesis using d m by (intro exI [of _ "{c}"]) (simp add: Let_def)
  next
    case False
    have "dom (map_of (r_history ?r)) \<subseteq> set ids" using Cons.prems(3) by (auto simp: dom_delete_alist)
    from Cons.IH [OF d this] obtain D where
      "map_of (r_history (trim_history ids ?r)) = map_of (r_history ?r) |` (- D)"
      "map_of (r_deletedAt (trim_history ids ?r)) = map_of (r_deletedAt ?r) |` (- D)"
      "distinct (keys (r_history (trim_history ids ?r)))" "distinct (keys (r_deletedAt (trim_history ids ?r)))"
      "length (r_history (trim_history ids ?r)) \<le> history_limit" by blast
    with False m show ?thesis
      by (intro exI [of _ "insert c D"]) (auto simp: Let_def restrict_map_def fun_eq_iff)
  qed
qed

lemma map_of_filter_keys: "map_of (filter (\<lambda>(c, _). P c) m) = map_of m |` {c. P c}"
  by (induction m) (auto simp: restrict_map_def fun_eq_iff)

lemma distinct_filter_keys: "distinct (keys m) \<Longrightarrow> distinct (keys (filter P m))"
  by (induction m) (auto simp: image_iff)

text \<open>What a refresh does to the three maps; \<open>D\<close> is the set of ids trimmed from the history.\<close>

lemma refresh_maps:
  assumes ok: "resolver_ok r" and ord: "ranges ord"
  shows "\<exists>D. cache_list (refresh ord clk now e r) = scan_cgroups e \<and>
     map_of (r_history (refresh ord clk now e r)) = (\<lambda>c. if c \<in> D then None
        else if map_of (scan_cgroups e) c = None \<and> map_of (cache_list r) c \<noteq> None then map_of (cache_list r) c
        else map_of (r_history r) c) \<and>
     map_of (r_deletedAt (refresh ord clk now e r)) = (\<lambda>c. if c \<in> D \<or> map_of (scan_cgroups e) c \<noteq> None then None
        else if map_of (cache_list r) c \<noteq> None then Some (clk c) else map_of (r_deletedAt r) c) \<and>
     distinct (keys (r_history (refresh ord clk now e r))) \<and>
     distinct (keys (r_deletedAt (refresh ord clk now e r))) \<and>
     length (r_history (refresh ord clk now e r)) \<le> history_limit \<and>
     (length (r_history (move_deleted clk (scan_cgroups e) r)) \<le> history_limit \<longrightarrow> D = {})"
proof -
  let ?fresh = "scan_cgroups e"
  let ?r1 = "move_deleted clk ?fresh r"
  let ?r2 = "?r1\<lparr>r_deletedAt := filter (\<lambda>(cid, _). map_of ?fresh cid = None) (r_deletedAt ?r1)\<rparr>"
  let ?r3 = "if history_limit < length (r_history ?r2) then trim_history (ord (r_history ?r2)) ?r2 else ?r2"
  have d: "distinct (keys (cache_list r))" "distinct (keys (r_history r))" "distinct (keys (r_deletedAt r))"
    using ok by (simp_all add: resolver_ok_def)
  note mv = move_deleted_maps [OF d, where clk = clk and fresh = ?fresh]
  have d2: "distinct (keys (r_history ?r2))" "distinct (keys (r_deletedAt ?r2))"
    using mv(3,4) by (simp_all add: distinct_filter_keys)
  have "\<exists>D. map_of (r_history ?r3) = map_of (r_history ?r2) |` (- D) \<and>
     map_of (r_deletedAt ?r3) = map_of (r_deletedAt ?r2) |` (- D) \<and>
     distinct (keys (r_history ?r3)) \<and> distinct (keys (r_deletedAt ?r3)) \<and>
     length (r_history ?r3) \<le> history_limit \<and> (length (r_history ?r2) \<le> history_limit \<longrightarrow> D = {})"
  proof (cases "history_limit < length (r_history ?r2)")
    case True
    have "dom (map_of (r_history ?r2)) \<subseteq> set (ord (r_history ?r2))"
      using ord d2(1) by (simp add: ranges_def dom_map_of_conv_image_fst)
    from trim_history_spec [OF d2 this] True show ?thesis by auto
  next
    case False
    then show ?thesis using d2 by (intro exI [of _ "{}"]) auto
  qed
  then obtain D where D: "map_of (r_history ?r3) = map_of (r_history ?r2) |` (- D)"
     "map_of (r_deletedAt ?r3) = map_of (r_deletedAt ?r2) |` (- D)"
     "distinct (keys (r_history ?r3))" "distinct (keys (r_deletedAt ?r3))"
     "length (r_history ?r3) \<le> history_limit" "length (r_history ?r2) \<le> history_limit \<longrightarrow> D = {}" by blast
  have R: "refresh ord clk now e r = ?r3\<lparr>r_cache := Some ?fresh, r_k8sCache := fresh_k8s (se_pods e), r_lastRefresh := now\<rparr>"
    by (simp add: refresh_def Let_def)
  have maps: "map_of (r_history ?r3) = (\<lambda>c. if c \<in> D then None
        else if map_of ?fresh c = None \<and> map_of (cache_list r) c \<noteq> None then map_of (cache_list r) c
        else map_of (r_history r) c)"
    "map_of (r_deletedAt ?r3) = (\<lambda>c. if c \<in> D \<or> map_of ?fresh c \<noteq> None then None
        else if map_of (cache_list r) c \<noteq> None then Some (clk c) else map_of (r_deletedAt r) c)"
    unfolding D(1,2) by (auto simp: fun_eq_iff restrict_map_def mv map_of_filter_keys)
  show ?thesis
    unfolding R using D(3-6) maps by (intro exI [of _ D]) (simp add: cache_list_def)
qed

lemma resolver_ok_refresh [inv_intros]:
  assumes ok: "resolver_ok r" and ord: "ranges ord"
  shows "resolver_ok (refresh ord clk now e r)"
proof -
  obtain D where D: "cache_list (refresh ord clk now e r) = scan_cgroups e"
     "map_of (r_history (refresh ord clk now e r)) = (\<lambda>c. if c \<in> D then None
        else if map_of (scan_cgroups e) c = None \<and> map_of (cache_list r) c \<noteq> None then map_of (cache_list r) c
        else map_of (r_history r) c)"
     "map_of (r_deletedAt (refresh ord clk now e r)) = (\<lambda>c. if c \<in> D \<or> map_of (scan_cgroups e) c \<noteq> None then None
        else if map_of (cache_list r) c \<noteq> None then Some (clk c) else map_of (r_deletedAt r) c)"
     "distinct (keys (r_history (refresh ord clk now e r)))"
     "distinct (keys (r_deletedAt (refresh ord clk now e r)))"
     "length (r_history (refresh ord clk now e r)) \<le> history_limit"
    using refresh_maps [OF ok ord] by blast
  have old: "\<forall>c. map_of (r_deletedAt r) c \<noteq> None \<longrightarrow> map_of (r_history r) c \<noteq> None"
    "\<forall>c. map_of (r_history r) c \<noteq> None \<longrightarrow> map_of (r_deletedAt r) c \<noteq> None \<or> map_of (cache_list r) c \<noteq> None"
    "\<forall>c i. map_of (cache_list r) c = Some i \<longrightarrow> ci_CgroupID i = c"
    "\<forall>c i. map_of (r_history r) c = Some i \<longrightarrow> ci_CgroupID i = c"
    using ok unfolding resolver_ok_def by blast+
  show ?thesis
    unfolding resolver_ok_def D(1) D(2) D(3)
    using D(4-6) scan_cgroups_ok(1,2) [of e] old by auto
qed

lemma resolver_ok_new: "ranges ord \<Longrightarrow> resolver_ok (NewResolver ord clk now e)"
  unfolding NewResolver_def
  by (intro resolver_ok_refresh) (simp_all add: resolver_ok_def zero_resolver_def cache_list_def)

lemma SetK8sMode_ok [inv_intros]: "resolver_ok r \<Longrightarrow> resolver_ok (SetK8sMode b r)"
proof -
  have "cache_list (SetK8sMode b r) = cache_list r" "r_history (SetK8sMode b r) = r_history r"
    "r_deletedAt (SetK8sMode b r) = r_deletedAt r" by (simp_all add: SetK8sMode_def cache_list_def)
  then have "resolver_ok (SetK8sMode b r) = resolver_ok r" by (simp only: resolver_ok_def)
  then show "resolver_ok r \<Longrightarrow> resolver_ok (SetK8sMode b r)" by simp
qed

section \<open>Eviction\<close>

definition expired :: "time \<Rightarrow> Resolver \<Rightarrow> u64 \<Rightarrow> bool" where
  "expired now r c \<longleftrightarrow> (\<exists>t. map_of (r_deletedAt r) c = Some t \<and> 2 * refreshPeriod \<le> time_sub now t)"

lemma evict_aux:
  assumes "distinct (keys (r_history r))" and "distinct (keys (r_deletedAt r))" and "distinct (keys ds)"
  shows "let r' = foldl (\<lambda>r (cid, t). if 2 * refreshPeriod \<le> time_sub now t
         then r\<lparr>r_history := AList.delete cid (r_history r), r_deletedAt := AList.delete cid (r_deletedAt r)\<rparr>
         else r) r ds;
       gone = {c. \<exists>t. map_of ds c = Some t \<and> 2 * refreshPeriod \<le> time_sub now t} in
     map_of (r_history r') = map_of (r_history r) |` (- gone) \<and>
     map_of (r_deletedAt r') = map_of (r_deletedAt r) |` (- gone) \<and>
     distinct (keys (r_history r')) \<and> distinct (keys (r_deletedAt r')) \<and>
     length (r_history r') \<le> length (r_history r) \<and> r_cache r' = r_cache r"
  using assms
proof (induction ds arbitrary: r)
  case (Cons x ds)
  obtain c t where x: "x = (c, t)" by fastforce
  let ?r = "if 2 * refreshPeriod \<le> time_sub now t
     then r\<lparr>r_history := AList.delete c (r_history r), r_deletedAt := AList.delete c (r_deletedAt r)\<rparr> else r"
  have c: "map_of ds c = None" using Cons.prems(3) x by (simp add: map_of_eq_None_iff)
  have "distinct (keys (r_history ?r))" "distinct (keys (r_deletedAt ?r))" "distinct (keys ds)"
    using Cons.prems x by (simp_all add: keys_delete)
  from Cons.IH [OF this] x c length_delete_le [of c "r_history r"] show ?case
    by (auto simp: Let_def fun_eq_iff delete_conv' restrict_map_def)
qed (simp add: restrict_map_def)

lemma evict_maps:
  assumes "resolver_ok r"
  shows "map_of (r_history (evictStaleEntries now r)) = map_of (r_history r) |` (- {c. expired now r c})"
    "map_of (r_deletedAt (evictStaleEntries now r)) = map_of (r_deletedAt r) |` (- {c. expired now r c})"
    "distinct (keys (r_history (evictStaleEntries now r)))"
    "distinct (keys (r_deletedAt (evictStaleEntries now r)))"
    "length (r_history (evictStaleEntries now r)) \<le> length (r_history r)"
    "cache_list (evictStaleEntries now r) = cache_list r"
  using evict_aux [of r "r_deletedAt r" now] assms
  by (simp_all add: Let_def evictStaleEntries_def expired_def resolver_ok_def cache_list_def)

lemma resolver_ok_evict [inv_intros]:
  assumes "resolver_ok r"
  shows "resolver_ok (evictStaleEntries now r)"
proof -
  have d: "distinct (keys (cache_list r))" "length (r_history r) \<le> history_limit"
    and m: "\<forall>c. map_of (r_deletedAt r) c \<noteq> None \<longrightarrow> map_of (r_history r) c \<noteq> None \<and> map_of (cache_list r) c = None"
    "\<forall>c. map_of (r_history r) c \<noteq> None \<longrightarrow> map_of (r_deletedAt r) c \<noteq> None \<or> map_of (cache_list r) c \<noteq> None"
    and i: "\<forall>c i. map_of (cache_list r) c = Some i \<longrightarrow> ci_CgroupID i = c"
    "\<forall>c i. map_of (r_history r) c = Some i \<longrightarrow> ci_CgroupID i = c"
    using assms unfolding resolver_ok_def by blast+
  show ?thesis
    unfolding resolver_ok_def evict_maps(6) [OF assms] evict_maps(1,2) [OF assms]
    using d m i evict_maps(3-5) [OF assms, of now] by (simp add: restrict_map_def)
qed

section \<open>The interface the collectors use\<close>

locale container_resolver =
  fixes lookup :: "'s \<Rightarrow> u64 \<Rightarrow> 's \<times> ContainerInfo option"
    and ok :: "'s \<Rightarrow> bool"
  assumes lookup_ok: "ok s \<Longrightarrow> ok (fst (lookup s c))"
    and own_id: "ok s \<Longrightarrow> snd (lookup s c) = Some i \<Longrightarrow> ci_CgroupID i = c"
    and hit_stable: "lookup s c = (s', Some i) \<Longrightarrow> lookup s' c = (s', Some i)"
begin

fun lookup_all :: "'s \<Rightarrow> u64 list \<Rightarrow> 's \<times> ContainerInfo option list" where
  "lookup_all s [] = (s, [])"
| "lookup_all s (c # cs) =
     (let (s1, i) = lookup s c; (s2, is) = lookup_all s1 cs in (s2, i # is))"

lemma lookup_all_ids:
  "ok s \<Longrightarrow> ok (fst (lookup_all s cs)) \<and>
   list_all2 (\<lambda>c a. \<forall>i. a = Some i \<longrightarrow> ci_CgroupID i = c) cs (snd (lookup_all s cs))"
proof (induction cs arbitrary: s)
  case (Cons c cs)
  obtain s1 a where 1: "lookup s c = (s1, a)" by fastforce
  have "ok s1" using lookup_ok [OF Cons.prems, of c] 1 by simp
  with Cons.IH [of s1] own_id [OF Cons.prems, of c] 1 show ?case by (auto simp: Let_def split: prod.splits)
qed simp

lemma repeat_same: "lookup s c = (s', Some i) \<Longrightarrow> snd (lookup_all s (replicate (Suc n) c)) = replicate (Suc n) (Some i)"
proof (induction n arbitrary: s)
  case (Suc n)
  from Suc.IH [OF hit_stable [OF Suc.prems]] Suc.prems show ?case
    by (simp add: Let_def split: prod.splits)
qed (simp add: Let_def)

end

lemma find_info_id: "resolver_ok r \<Longrightarrow> find_info r c = Some i \<Longrightarrow> ci_CgroupID i = c"
  by (auto simp: find_info_def resolver_ok_def split: option.splits)

lemma r_cache_refresh [simp]: "r_cache (refresh ord clk now e r) = Some (scan_cgroups e)"
  by (simp add: refresh_def Let_def)

text \<open>Every argument of a lookup but the resolver and the id, as one environment.\<close>

record lookup_env =
  le_ord :: "(u64, ContainerInfo) gomap \<Rightarrow> u64 list"
  le_clk :: "u64 \<Rightarrow> time"
  le_now :: time
  le_now' :: time
  le_scan :: scan_env

definition Lookup_in :: "lookup_env \<Rightarrow> Resolver \<Rightarrow> u64 \<Rightarrow> Resolver \<times> ContainerInfo option" where
  "Lookup_in le r c = Lookup (le_ord le) (le_clk le) (le_now le) (le_now' le) (le_scan le) r c"

lemma Lookup_ok:
  assumes "resolver_ok r" and "ranges ord"
  shows "resolver_ok (fst (Lookup ord clk now now' e r c))"
    "snd (Lookup ord clk now now' e r c) = Some i \<Longrightarrow> ci_CgroupID i = c"
  using assms find_info_id [OF assms(1)] find_info_id [OF resolver_ok_refresh [OF assms]]
  by (auto simp: Lookup_def Let_def resolver_ok_refresh split: option.splits if_splits)

lemma Lookup_hit_stable:
  "Lookup ord clk now now' e r c = (r', Some i) \<Longrightarrow> Lookup ord clk now now' e r' c = (r', Some i)"
  by (auto simp: Lookup_def Let_def split: option.splits if_splits)

text \<open>The environment ranges over maps properly, whatever it contains.\<close>

definition proper_env :: "lookup_env \<Rightarrow> lookup_env" where
  "proper_env le = (if ranges (le_ord le) then le else le\<lparr>le_ord := map fst\<rparr>)"

lemma ranges_keys: "ranges (map fst)"
  by (simp add: ranges_def)

lemma proper_env_ranges [simp]: "ranges (le_ord (proper_env le))"
  by (simp add: proper_env_def ranges_keys)

interpretation cgr: container_resolver "Lookup_in (proper_env le)" resolver_ok for le
  proof unfold_locales
  fix s c i
  assume "resolver_ok s" "snd (Lookup_in (proper_env le) s c) = Some i"
  then show "ci_CgroupID i = c" unfolding Lookup_in_def by (rule Lookup_ok(2) [OF _ proper_env_ranges])
qed (auto simp: Lookup_in_def Lookup_ok(1) Lookup_hit_stable)

section \<open>Runs and theorems\<close>

datatype resolver_op = RefreshOp lookup_env | EvictOp time | LookupOp lookup_env u64 | ModeOp bool

fun resolver_apply :: "Resolver \<Rightarrow> resolver_op \<Rightarrow> Resolver" where
  "resolver_apply r (RefreshOp le) = refresh (le_ord le) (le_clk le) (le_now le) (le_scan le) r"
| "resolver_apply r (EvictOp now) = evictStaleEntries now r"
| "resolver_apply r (LookupOp le c) = fst (Lookup_in le r c)"
| "resolver_apply r (ModeOp b) = SetK8sMode b r"

fun op_ranges :: "resolver_op \<Rightarrow> bool" where
  "op_ranges (RefreshOp le) = ranges (le_ord le)"
| "op_ranges (LookupOp le c) = ranges (le_ord le)"
| "op_ranges _ = True"

lemma resolver_apply_ok: "resolver_ok r \<Longrightarrow> op_ranges op \<Longrightarrow> resolver_ok (resolver_apply r op)"
  by (cases op) (simp_all add: resolver_ok_refresh resolver_ok_evict Lookup_in_def Lookup_ok(1) SetK8sMode_ok)

definition empty_env :: lookup_env where
  "empty_env = \<lparr>le_ord = map fst, le_clk = \<lambda>_. 0, le_now = 0, le_now' = 0,
     le_scan = \<lparr>se_root = None, se_pods = None, se_docker = \<lambda>_. None\<rparr>\<rparr>"

definition one_dir_env :: "u64 \<Rightarrow> lookup_env" where
  "one_dir_env ino = empty_env\<lparr>le_scan := \<lparr>se_root = Some (FsDir ''cgroup'' (Some ino) (Some [])), se_pods = None, se_docker = \<lambda>_. None\<rparr>\<rparr>"

text \<open>
  C5: Whatever the sequence of refreshes, lookups, evictions and mode changes, and whatever the
  file system, kubelet and clock answer, the resolver keeps its invariant: every history entry
  that is not live has a deletion time and every deletion time belongs to a history entry of a
  cgroup that is not live, an entry carries the id it is stored under, and the history never
  exceeds 1000 entries.
\<close>

theorem resolver_runs_ok:
  assumes "ranges ord" and "\<forall>op \<in> set ops. op_ranges op"
  shows "resolver_ok (foldl resolver_apply (NewResolver ord clk now e) ops)"
  using assms(2) resolver_ok_new [OF assms(1), of clk now e]
  by (induction ops rule: rev_induct) (simp_all add: resolver_apply_ok)

theorem resolver_runs_ok_witness:
  "resolver_ok (foldl resolver_apply (NewResolver (map fst) (\<lambda>_. 3) 4 (le_scan (one_dir_env 42)))
     [LookupOp (one_dir_env 42) 7, RefreshOp empty_env, EvictOp 9])"
  by (rule resolver_runs_ok) (simp_all add: ranges_keys empty_env_def one_dir_env_def)

text \<open>
  C32: After a refresh the cache holds exactly the directories the walk could stat, and a cgroup
  that was known before and has vanished stays resolvable with the same information, as long as
  the history has room for the cgroups that vanished; deletion times are those of the refresh.
\<close>

theorem refresh_keeps_vanished:
  assumes "resolver_ok r" and "ranges ord"
    and "length (r_history (move_deleted clk (scan_cgroups e) r)) \<le> history_limit"
  shows "dom (map_of (All (refresh ord clk now e r))) = snd ` set (visited_dirs e) \<and>
     (\<forall>c i. find_info r c = Some i \<and> c \<notin> snd ` set (visited_dirs e) \<longrightarrow>
        find_info (refresh ord clk now e r) c = Some i) \<and>
     (\<forall>c. map_of (All r) c \<noteq> None \<and> c \<notin> snd ` set (visited_dirs e) \<longrightarrow>
        map_of (r_deletedAt (refresh ord clk now e r)) c = Some (clk c))"
proof -
  obtain D where D: "cache_list (refresh ord clk now e r) = scan_cgroups e"
     "map_of (r_history (refresh ord clk now e r)) = (\<lambda>c. if c \<in> D then None
        else if map_of (scan_cgroups e) c = None \<and> map_of (cache_list r) c \<noteq> None then map_of (cache_list r) c
        else map_of (r_history r) c)"
     "map_of (r_deletedAt (refresh ord clk now e r)) = (\<lambda>c. if c \<in> D \<or> map_of (scan_cgroups e) c \<noteq> None then None
        else if map_of (cache_list r) c \<noteq> None then Some (clk c) else map_of (r_deletedAt r) c)" "D = {}"
    using refresh_maps [OF assms(1,2), of clk now e] assms(3) by blast
  have "map_of (scan_cgroups e) c = None \<longleftrightarrow> c \<notin> snd ` set (visited_dirs e)" for c
    using scan_cgroups_ok(3) [of e] by auto
  then show ?thesis
    using D scan_cgroups_ok(3) [of e] by (auto simp: All_def find_info_def split: option.splits)
qed

theorem refresh_keeps_vanished_witness:
  "find_info (refresh (map fst) (\<lambda>_. 5) 6 (le_scan empty_env)
       (NewResolver (map fst) (\<lambda>_. 3) 4 (le_scan (one_dir_env 42)))) 42 =
   find_info (NewResolver (map fst) (\<lambda>_. 3) 4 (le_scan (one_dir_env 42))) 42 \<and>
   find_info (NewResolver (map fst) (\<lambda>_. 3) 4 (le_scan (one_dir_env 42))) 42 \<noteq> None"
proof -
  let ?r = "NewResolver (map fst) (\<lambda>_. 3) 4 (le_scan (one_dir_env 42))"
  have ok: "resolver_ok ?r" by (rule resolver_ok_new [OF ranges_keys])
  have r: "cache_list ?r = [(42, dir_info (\<lambda>_. None) [] ''.'' 42)]" "r_history ?r = []"
    by (simp_all add: NewResolver_def refresh_def Let_def scan_cgroups_def one_dir_env_def empty_env_def fresh_k8s_def
        move_deleted_def zero_resolver_def cache_list_def history_limit_def)
  have f: "find_info ?r 42 = Some (dir_info (\<lambda>_. None) [] ''.'' 42)" by (simp add: find_info_def r)
  have len: "length (r_history (move_deleted (\<lambda>_. 5) (scan_cgroups (le_scan empty_env)) ?r)) \<le> history_limit"
    by (simp add: move_deleted_def r history_limit_def)
  have v: "42 \<notin> snd ` set (visited_dirs (le_scan empty_env))" by (simp add: visited_dirs_def empty_env_def)
  from refresh_keeps_vanished [OF ok ranges_keys len, of 6] f v show ?thesis by auto
qed

text \<open>
  Eviction forgets exactly the vanished cgroups whose deletion lies at least twenty seconds
  back: their history and deletion entries go together, every other answer is unchanged, and a
  live cgroup is never affected.
\<close>

theorem evictStaleEntries_exact:
  assumes "resolver_ok r"
  shows "\<forall>c. find_info (evictStaleEntries now r) c =
       (if map_of (All r) c = None \<and> (\<exists>t. map_of (r_deletedAt r) c = Some t \<and> 20 * 10 ^ 9 \<le> time_sub now t)
        then None else find_info r c) \<and>
     map_of (r_deletedAt (evictStaleEntries now r)) c =
       (case map_of (r_deletedAt r) c of None \<Rightarrow> None
        | Some t \<Rightarrow> if 20 * 10 ^ 9 \<le> time_sub now t then None else Some t)"
proof -
  have e: "expired now r c \<longleftrightarrow> (\<exists>t. map_of (r_deletedAt r) c = Some t \<and> 20 * 10 ^ 9 \<le> time_sub now t)" for c
    by (simp add: expired_def refreshPeriod_def)
  have "\<forall>c. map_of (r_deletedAt r) c \<noteq> None \<longrightarrow> map_of (r_history r) c \<noteq> None \<and> map_of (cache_list r) c = None"
    using assms unfolding resolver_ok_def by (elim conjE) assumption
  then have live: "map_of (r_deletedAt r) c = None" if "map_of (cache_list r) c \<noteq> None" for c
    using that by metis
  have h: "map_of (r_history (evictStaleEntries now r)) c = (if expired now r c then None else map_of (r_history r) c)"
    "map_of (r_deletedAt (evictStaleEntries now r)) c = (if expired now r c then None else map_of (r_deletedAt r) c)" for c
    using evict_maps(1,2) [OF assms, of now] by (simp_all add: restrict_map_def)
  show ?thesis
  proof
    fix c
    show "find_info (evictStaleEntries now r) c =
       (if map_of (All r) c = None \<and> (\<exists>t. map_of (r_deletedAt r) c = Some t \<and> 20 * 10 ^ 9 \<le> time_sub now t)
        then None else find_info r c) \<and>
     map_of (r_deletedAt (evictStaleEntries now r)) c =
       (case map_of (r_deletedAt r) c of None \<Rightarrow> None
        | Some t \<Rightarrow> if 20 * 10 ^ 9 \<le> time_sub now t then None else Some t)"
      unfolding find_info_def All_def h evict_maps(6) [OF assms] e [symmetric]
      using live [of c] e [of c]
      by (cases "map_of (cache_list r) c"; cases "map_of (r_deletedAt r) c") simp_all
  qed
qed

theorem evictStaleEntries_exact_witness:
  "find_info (evictStaleEntries 30000000000 (refresh (map fst) (\<lambda>_. 5) 6 (le_scan empty_env)
       (NewResolver (map fst) (\<lambda>_. 3) 4 (le_scan (one_dir_env 42))))) 42 = None"
proof -
  let ?r0 = "NewResolver (map fst) (\<lambda>_. 3) 4 (le_scan (one_dir_env 42))"
  let ?r = "refresh (map fst) (\<lambda>_. 5) 6 (le_scan empty_env) ?r0"
  have ok: "resolver_ok ?r" by (intro resolver_ok_refresh resolver_ok_new ranges_keys)
  have "r_deletedAt ?r = [(42, 5)]" "cache_list ?r = []"
    by (simp_all add: NewResolver_def refresh_def Let_def scan_cgroups_def one_dir_env_def empty_env_def fresh_k8s_def
        move_deleted_def zero_resolver_def cache_list_def history_limit_def)
  then show ?thesis
    using evictStaleEntries_exact [OF ok, of 30000000000]
    by (simp add: All_def time_sub_def max_duration_def min_duration_def)
qed

section \<open>Names\<close>

text \<open>A label is never empty: only the root has an empty path, and it is labelled \<^verbatim>\<open>host\<close>.\<close>

lemma labelFromPath_named: "labelFromPath d rel \<noteq> []"
proof (cases "rel = ''.'' \<or> rel = []")
  case False
  have one: "split_on CHR ''/'' rel ! 0 = rel" if "\<not> 2 \<le> length (split_on CHR ''/'' rel)"
  proof -
    have "length (split_on CHR ''/'' rel) = 1" using that length_split_on [of "CHR ''/''" rel] by simp
    then obtain w where "split_on CHR ''/'' rel = [w]" by (auto simp: length_Suc_conv)
    with join_split [of "CHR ''/''" rel] show ?thesis by simp
  qed
  have "length (split_on CHR ''/'' rel) - 1 = 0" if "\<not> 2 \<le> length (split_on CHR ''/'' rel)" using that by simp
  with one False show ?thesis unfolding labelFromPath_def Let_def by auto
qed (simp add: labelFromPath_def)

lemma dir_info_named: "ci_Name (dir_info d k rel ino) \<noteq> []"
  by (simp add: dir_info_def Let_def enrich_def labelFromPath_named split: option.splits)

definition named_infos :: "(u64, ContainerInfo) gomap \<Rightarrow> bool" where
  "named_infos m \<longleftrightarrow> (\<forall>(c, i) \<in> set m. ci_Name i \<noteq> [])"

lemma named_infos_simps [simp]:
  "named_infos []" "named_infos ((c, i) # m) \<longleftrightarrow> ci_Name i \<noteq> [] \<and> named_infos m"
  by (simp_all add: named_infos_def)

lemma named_infos_update: "named_infos m \<Longrightarrow> ci_Name i \<noteq> [] \<Longrightarrow> named_infos (AList.update c i m)"
  by (induction m) (auto simp: named_infos_def split: if_splits)

lemma named_infos_delete: "named_infos m \<Longrightarrow> named_infos (AList.delete c m)"
  by (auto simp: named_infos_def AList.delete_eq)

lemma named_infos_lookup: "named_infos m \<Longrightarrow> map_of m c = Some i \<Longrightarrow> ci_Name i \<noteq> []"
  by (auto simp: named_infos_def dest: map_of_SomeD)

definition named_resolver :: "Resolver \<Rightarrow> bool" where
  "named_resolver r \<longleftrightarrow> named_infos (cache_list r) \<and> named_infos (r_history r)"

lemma scan_named: "named_infos (scan_cgroups e)"
proof -
  have "named_infos (foldl (\<lambda>fresh (rel, ino). AList.update ino (dir_info d k rel ino) fresh) m ws)" if "named_infos m" for d k m ws
    using that by (induction ws arbitrary: m) (auto simp: named_infos_update dir_info_named)
  then show ?thesis by (simp add: scan_cgroups_def)
qed

lemma move_deleted_named:
  assumes "named_resolver r"
  shows "named_infos (r_history (move_deleted clk fresh r))"
proof -
  have "named_infos (r_history (foldl (\<lambda>r (cid, info). if map_of fresh cid = None
      then r\<lparr>r_history := AList.update cid info (r_history r), r_deletedAt := AList.update cid (clk cid) (r_deletedAt r)\<rparr> else r) q cs))"
    if "named_infos cs" "named_infos (r_history q)" for q :: Resolver and cs
    using that by (induction cs arbitrary: q) (auto simp: named_infos_update)
  then show ?thesis using assms by (simp add: move_deleted_def named_resolver_def)
qed

lemma trim_named: "named_infos (r_history r) \<Longrightarrow> named_infos (r_history (trim_history ids r))"
  by (induction ids r rule: trim_history.induct) (auto simp: Let_def named_infos_delete)

lemma refresh_named: "named_resolver r \<Longrightarrow> named_resolver (refresh ord clk now e r)"
  using move_deleted_named [of r clk "scan_cgroups e"] scan_named [of e]
  by (simp add: named_resolver_def refresh_def Let_def cache_list_def trim_named)

lemma evict_named:
  assumes "named_resolver r"
  shows "named_resolver (evictStaleEntries now r)"
proof -
  have "named_resolver (foldl (\<lambda>r (cid, t). if 2 * refreshPeriod \<le> time_sub now t
      then r\<lparr>r_history := AList.delete cid (r_history r), r_deletedAt := AList.delete cid (r_deletedAt r)\<rparr> else r) q ds)" if "named_resolver q" for q ds
    using that by (induction ds arbitrary: q) (simp_all add: named_resolver_def cache_list_def named_infos_delete split: prod.split)
  then show ?thesis using assms by (simp add: evictStaleEntries_def)
qed

lemma Lookup_named:
  assumes "named_resolver r"
  shows "named_resolver (fst (Lookup_in le r c))" and "snd (Lookup_in le r c) = Some i \<Longrightarrow> ci_Name i \<noteq> []"
proof -
  have f: "ci_Name i \<noteq> []" if "named_resolver q" "find_info q c = Some i" for q
    using that by (auto simp: find_info_def named_resolver_def dest: named_infos_lookup split: option.splits)
  show "named_resolver (fst (Lookup_in le r c))"
    using assms refresh_named [OF assms] by (simp add: Lookup_in_def Lookup_def Let_def split: option.splits)
  show "ci_Name i \<noteq> []" if "snd (Lookup_in le r c) = Some i"
    using that f [OF assms] f [OF refresh_named [OF assms]] by (auto simp: Lookup_in_def Lookup_def Let_def split: if_splits option.splits)
qed

lemma resolver_apply_named: "named_resolver r \<Longrightarrow> named_resolver (resolver_apply r op)"
  by (cases op) (simp_all add: refresh_named evict_named Lookup_named(1), simp add: named_resolver_def SetK8sMode_def cache_list_def)

text \<open>
  What a collector sees of the resolver: each answer is that of a lookup on the resolver after some sequence of
  operations, not necessarily the same one for two ids, since other goroutines refresh it meanwhile.
\<close>

definition answered :: "(u64 \<Rightarrow> ContainerInfo option) \<Rightarrow> bool" where
  "answered f \<longleftrightarrow> (\<forall>c i. f c = Some i \<longrightarrow> (\<exists>ord clk now e ops le.
     snd (Lookup_in le (foldl resolver_apply (NewResolver ord clk now e) ops) c) = Some i))"

lemma answered_named:
  assumes "answered f" and "f c = Some i"
  shows "ci_Name i \<noteq> []"
proof -
  have "named_resolver (foldl resolver_apply (NewResolver ord clk now e) ops)" for ord clk now e ops
  proof (induction ops rule: rev_induct)
    case Nil
    show ?case by (simp add: NewResolver_def) (rule refresh_named, simp add: named_resolver_def zero_resolver_def cache_list_def)
  qed (simp add: resolver_apply_named)
  with Lookup_named(2) assms show ?thesis unfolding answered_def by blast
qed

lemma answered_lookup: "answered (\<lambda>c. snd (Lookup_in le (foldl resolver_apply (NewResolver ord clk now e) ops) c))"
  unfolding answered_def by blast

end
