(* ===== verification/ResolverClock.thy ===== *)
theory ResolverClock
  imports Resolver
begin

text \<open>
  The resolver's two background goroutines (pkg/cgroup/resolver.go): each handles the ticks of its own
  ticker, one refreshing the cache, the other evicting old history. Time passes between atomic steps (the mutex makes
  them so), lookups and mode changes come at any moment, and a tick is handled at most \<open>d\<close> after it is due:
  \<open>d\<close> bounds the scheduling delay and the duration of a scan. The tickers are those of the time package: a
  new ticker is first due one period later, a reset starts a new period, and otherwise the due times are equidistant.
\<close>

section \<open>The goroutines\<close>

record resolver_clock =
  rc_r :: Resolver
  rc_now :: time
  rc_refreshAt :: time
  rc_evictAt :: time

definition evictionPeriod :: int where
  "evictionPeriod = 5 * 10 ^ 9"

definition start_background :: "((u64, ContainerInfo) gomap \<Rightarrow> u64 list) \<Rightarrow> time \<Rightarrow> scan_env \<Rightarrow> resolver_clock" where
  "start_background ord t0 e = \<lparr>rc_r = NewResolver ord (\<lambda>_. t0) t0 e, rc_now = t0, rc_refreshAt = t0 + refreshPeriod, rc_evictAt = t0 + evictionPeriod\<rparr>"

definition backgroundRefresh :: "((u64, ContainerInfo) gomap \<Rightarrow> u64 list) \<Rightarrow> scan_env \<Rightarrow> resolver_clock \<Rightarrow> resolver_clock" where
  "backgroundRefresh ord e c =
     (let period = r_refreshPeriodD (rc_r c) in
      c\<lparr>rc_refreshAt := rc_now c + period, rc_r := refresh ord (\<lambda>_. rc_now c) (rc_now c) e (rc_r c)\<rparr>)"

definition backgroundEviction :: "resolver_clock \<Rightarrow> resolver_clock" where
  "backgroundEviction c = c\<lparr>rc_evictAt := rc_evictAt c + evictionPeriod, rc_r := evictStaleEntries (rc_now c) (rc_r c)\<rparr>"

inductive resolver_step :: "int \<Rightarrow> resolver_clock \<Rightarrow> resolver_clock \<Rightarrow> bool" for d where
  pass: "rc_now c \<le> t \<Longrightarrow> t \<le> rc_refreshAt c + d \<Longrightarrow> t \<le> rc_evictAt c + d \<Longrightarrow> resolver_step d c (c\<lparr>rc_now := t\<rparr>)"
| refresh_tick: "rc_refreshAt c \<le> rc_now c \<Longrightarrow> ranges ord \<Longrightarrow> resolver_step d c (backgroundRefresh ord e c)"
| evict_tick: "rc_evictAt c \<le> rc_now c \<Longrightarrow> resolver_step d c (backgroundEviction c)"
| lookup: "ranges ord \<Longrightarrow> resolver_step d c (c\<lparr>rc_r := fst (Lookup ord (\<lambda>_. rc_now c) (rc_now c) (rc_now c) e (rc_r c) cid)\<rparr>)"
| mode: "resolver_step d c (c\<lparr>rc_r := SetK8sMode b (rc_r c)\<rparr>)"

inductive_cases resolver_stepE: "resolver_step d c c'"

section \<open>What the operations keep\<close>

lemma foldl_keeps: "(\<And>r x. f (g r x) = f r) \<Longrightarrow> f (foldl g r xs) = f r"
  by (induction xs arbitrary: r) simp_all

lemma trim_history_keeps: "r_refreshPeriodD (trim_history ids r) = r_refreshPeriodD r"
  by (induction ids r rule: trim_history.induct) (simp_all add: Let_def)

lemma refresh_keeps [simp]:
  "r_refreshPeriodD (refresh ord clk now e r) = r_refreshPeriodD r" "r_lastRefresh (refresh ord clk now e r) = now"
proof -
  have "r_refreshPeriodD (move_deleted clk m r) = r_refreshPeriodD r" for m
    unfolding move_deleted_def by (rule foldl_keeps) auto
  then show "r_refreshPeriodD (refresh ord clk now e r) = r_refreshPeriodD r" by (simp add: refresh_def Let_def trim_history_keeps)
qed (simp add: refresh_def Let_def)

lemma evict_keeps [simp]:
  "r_refreshPeriodD (evictStaleEntries now r) = r_refreshPeriodD r" "r_lastRefresh (evictStaleEntries now r) = r_lastRefresh r"
  unfolding evictStaleEntries_def by (rule foldl_keeps; auto)+

lemma NewResolver_keeps [simp]:
  "r_refreshPeriodD (NewResolver ord clk now e) = refreshPeriod" "r_lastRefresh (NewResolver ord clk now e) = now"
  by (simp_all add: NewResolver_def)

lemma SetK8sMode_keeps [simp]:
  "r_lastRefresh (SetK8sMode b r) = r_lastRefresh r" "r_deletedAt (SetK8sMode b r) = r_deletedAt r"
  "r_refreshPeriodD (SetK8sMode b r) = (if b then 2 * 10 ^ 9 else refreshPeriod)"
  by (simp_all add: SetK8sMode_def)

lemma time_sub_le: "\<bar>k\<bar> \<le> 10 ^ 18 \<Longrightarrow> k \<le> time_sub now t \<longleftrightarrow> k \<le> now - t"
  by (auto simp: time_sub_def max_duration_def min_duration_def)

lemma refresh_deletions:
  assumes "resolver_ok r" and "ranges ord" and "map_of (r_deletedAt (refresh ord clk now e r)) c = Some t"
  shows "map_of (r_deletedAt r) c = Some t \<or> t = clk c"
  using refresh_maps [OF assms(1,2), of clk now e] assms(3) by (auto split: if_splits)

lemma evict_deletions:
  assumes "resolver_ok r" and "map_of (r_deletedAt (evictStaleEntries now r)) c = Some t"
  shows "map_of (r_deletedAt r) c = Some t" "now - t < 2 * refreshPeriod"
  using evict_maps(2) [OF assms(1), of now] assms(2) time_sub_le [of "2 * refreshPeriod" now t]
  by (auto simp: restrict_map_def expired_def refreshPeriod_def split: if_splits)

section \<open>Freshness\<close>

text \<open>
  The invariant relates the due times to the last refresh and to every deletion time; the refresh ticker is
  never due later than one long period after the last refresh.
\<close>

definition clock_inv :: "int \<Rightarrow> resolver_clock \<Rightarrow> bool" where
  "clock_inv d c \<longleftrightarrow> resolver_ok (rc_r c) \<and> 0 < r_refreshPeriodD (rc_r c) \<and> r_refreshPeriodD (rc_r c) \<le> refreshPeriod \<and>
     r_lastRefresh (rc_r c) \<le> rc_now c \<and> rc_refreshAt c \<le> r_lastRefresh (rc_r c) + refreshPeriod \<and>
     rc_now c \<le> rc_refreshAt c + d \<and> rc_now c \<le> rc_evictAt c + d \<and> rc_evictAt c \<le> rc_now c + evictionPeriod \<and>
     (\<forall>cid t. map_of (r_deletedAt (rc_r c)) cid = Some t \<longrightarrow> t \<le> rc_now c \<and> rc_evictAt c - evictionPeriod - 2 * refreshPeriod < t)"

lemmas period_defs = refreshPeriod_def evictionPeriod_def

lemma clock_inv_start:
  assumes "ranges ord" and "0 \<le> d"
  shows "clock_inv d (start_background ord t0 e)"
proof -
  let ?z = "zero_resolver\<lparr>r_cache := Some [], r_refreshPeriodD := refreshPeriod\<rparr>"
  have z: "resolver_ok ?z" by (simp add: resolver_ok_def zero_resolver_def cache_list_def)
  have del: "t = t0" if "map_of (r_deletedAt (NewResolver ord (\<lambda>_. t0) t0 e)) cid = Some t" for cid t
    using refresh_deletions [OF z assms(1), of "\<lambda>_. t0" t0 e cid t] that by (simp add: NewResolver_def zero_resolver_def)
  show ?thesis using assms resolver_ok_new [OF assms(1), of "\<lambda>_. t0" t0 e]
    by (auto simp: clock_inv_def start_background_def period_defs dest!: del)
qed

lemma clock_inv_refresh:
  assumes "clock_inv d c" and "ranges ord" and "0 \<le> d"
  shows "clock_inv d (backgroundRefresh ord e c)"
    and "clock_inv d (c\<lparr>rc_r := refresh ord (\<lambda>_. rc_now c) (rc_now c) e (rc_r c)\<rparr>)"
proof -
  have ok: "resolver_ok (rc_r c)" using assms(1) by (simp add: clock_inv_def)
  have "t \<le> rc_now c \<and> rc_evictAt c - evictionPeriod - 2 * refreshPeriod < t"
    if "map_of (r_deletedAt (refresh ord (\<lambda>_. rc_now c) (rc_now c) e (rc_r c))) cid = Some t" for cid t
    using refresh_deletions [OF ok assms(2) that] assms(1) by (auto simp: clock_inv_def period_defs)
  then show "clock_inv d (backgroundRefresh ord e c)" "clock_inv d (c\<lparr>rc_r := refresh ord (\<lambda>_. rc_now c) (rc_now c) e (rc_r c)\<rparr>)"
    using assms resolver_ok_refresh [OF ok assms(2)] by (auto simp: clock_inv_def backgroundRefresh_def Let_def)
qed

lemma clock_inv_evict:
  assumes "clock_inv d c" and "rc_evictAt c \<le> rc_now c" and "0 \<le> d"
  shows "clock_inv d (backgroundEviction c)"
proof -
  have ok: "resolver_ok (rc_r c)" using assms(1) by (simp add: clock_inv_def)
  have "t \<le> rc_now c \<and> rc_evictAt c - 2 * refreshPeriod < t" if "map_of (r_deletedAt (evictStaleEntries (rc_now c) (rc_r c))) cid = Some t" for cid t
    using evict_deletions [OF ok that] assms(1,2) by (auto simp: clock_inv_def)
  then show ?thesis using assms resolver_ok_evict [OF ok] by (auto simp: clock_inv_def backgroundEviction_def evictionPeriod_def)
qed

lemma clock_inv_step:
  assumes "clock_inv d c" and "resolver_step d c c'" and "0 \<le> d"
  shows "clock_inv d c'"
  using assms(2)
proof (cases rule: resolver_step.cases)
  case (pass t)
  then show ?thesis using assms(1) by (fastforce simp: clock_inv_def)
next
  case (refresh_tick ord e)
  then show ?thesis using clock_inv_refresh(1) [OF assms(1) _ assms(3)] by simp
next
  case evict_tick
  then show ?thesis using clock_inv_evict [OF assms(1) _ assms(3)] by simp
next
  case (lookup ord e cid)
  show ?thesis
  proof (cases "fst (Lookup ord (\<lambda>_. rc_now c) (rc_now c) (rc_now c) e (rc_r c) cid) = rc_r c")
    case True
    with lookup assms(1) show ?thesis by simp
  next
    case False
    then have "fst (Lookup ord (\<lambda>_. rc_now c) (rc_now c) (rc_now c) e (rc_r c) cid) = refresh ord (\<lambda>_. rc_now c) (rc_now c) e (rc_r c)"
      by (auto simp: Lookup_def Let_def split: option.splits if_splits)
    then show ?thesis using lookup clock_inv_refresh(2) [OF assms(1) _ assms(3)] by simp
  qed
next
  case (mode b)
  then show ?thesis using assms(1) SetK8sMode_ok [of "rc_r c" b] by (auto simp: clock_inv_def period_defs)
qed

text \<open>
  C11: Whatever lookups and mode changes come in between, the two background tickers keep the resolver fresh:
  the last scan is never older than ten seconds plus the handling delay, and a vanished cgroup is remembered for less than
  twenty-five seconds plus that delay, twenty for its time to live and five for the eviction ticker.
\<close>

theorem resolver_stays_fresh:
  assumes "ranges ord" and "0 \<le> d" and "(resolver_step d)\<^sup>*\<^sup>* (start_background ord t0 e) c"
  shows "resolver_ok (rc_r c) \<and> 0 \<le> rc_now c - r_lastRefresh (rc_r c) \<and> rc_now c - r_lastRefresh (rc_r c) \<le> 10 * 10 ^ 9 + d \<and>
    (\<forall>cid t. map_of (r_deletedAt (rc_r c)) cid = Some t \<longrightarrow> 0 \<le> rc_now c - t \<and> rc_now c - t < 25 * 10 ^ 9 + d)"
proof -
  have "clock_inv d c" using assms(3)
    by (induction rule: rtranclp_induct) (auto intro: clock_inv_start [OF assms(1,2)] clock_inv_step [OF _ _ assms(2)])
  then show ?thesis by (fastforce simp: clock_inv_def period_defs)
qed

text \<open>A run of fifteen seconds: the only cgroup vanishes and the scan at the first tick notices.\<close>

theorem resolver_stays_fresh_witness:
  "let c0 = start_background (map fst) 0 (le_scan (one_dir_env 42));
       c1 = backgroundEviction (c0\<lparr>rc_now := 5 * 10 ^ 9\<rparr>);
       c2 = backgroundRefresh (map fst) (le_scan empty_env) (c1\<lparr>rc_now := 10 * 10 ^ 9\<rparr>)
   in (\<exists>t. map_of (r_deletedAt (rc_r c2)) 42 = Some t \<and> rc_now c2 - t < 25 * 10 ^ 9)"
proof -
  define c0 where "c0 = start_background (map fst) 0 (le_scan (one_dir_env 42))"
  define c1 where "c1 = backgroundEviction (c0\<lparr>rc_now := 5 * 10 ^ 9\<rparr>)"
  define c2 where "c2 = backgroundRefresh (map fst) (le_scan empty_env) (c1\<lparr>rc_now := 10 * 10 ^ 9\<rparr>)"
  have due: "rc_now c0 = 0" "rc_refreshAt c0 = 10 * 10 ^ 9" "rc_evictAt c0 = 5 * 10 ^ 9"
    by (simp_all add: c0_def start_background_def period_defs)
  then have due1: "rc_now c1 = 5 * 10 ^ 9" "rc_refreshAt c1 = 10 * 10 ^ 9" "rc_evictAt c1 = 10 * 10 ^ 9"
    by (simp_all add: c1_def backgroundEviction_def evictionPeriod_def)
  have "resolver_step 0 c0 (c0\<lparr>rc_now := 5 * 10 ^ 9\<rparr>)" by (rule pass) (simp_all add: due)
  moreover have "resolver_step 0 (c0\<lparr>rc_now := 5 * 10 ^ 9\<rparr>) c1" unfolding c1_def by (rule evict_tick) (simp add: due)
  moreover have "resolver_step 0 c1 (c1\<lparr>rc_now := 10 * 10 ^ 9\<rparr>)" by (rule pass) (simp_all add: due1)
  moreover have "resolver_step 0 (c1\<lparr>rc_now := 10 * 10 ^ 9\<rparr>) c2" unfolding c2_def by (rule refresh_tick) (simp_all add: due1 ranges_keys)
  ultimately have run: "(resolver_step 0)\<^sup>*\<^sup>* (start_background (map fst) 0 (le_scan (one_dir_env 42))) c2"
    unfolding c0_def [symmetric] by (meson converse_rtranclp_into_rtranclp rtranclp.rtrancl_refl)
  have "map_of (r_deletedAt (rc_r c2)) 42 \<noteq> None"
    by (simp add: c2_def c1_def c0_def start_background_def backgroundEviction_def backgroundRefresh_def NewResolver_def refresh_def evictStaleEntries_def Let_def
        scan_cgroups_def one_dir_env_def empty_env_def fresh_k8s_def move_deleted_def zero_resolver_def cache_list_def history_limit_def)
  then obtain t where "map_of (r_deletedAt (rc_r c2)) 42 = Some t" by blast
  with resolver_stays_fresh [OF ranges_keys _ run] show ?thesis unfolding Let_def c2_def c1_def c0_def by auto
qed

end
