(* ===== verification/ProcFs.thy ===== *)
theory ProcFs
  imports GoStrings GoFloat
begin

text \<open>
  Readers of kernel text files (pkg/collector/cpu.go and memory.go): NUMA migration statistics,
  cgroup byte counters, memory pressure, the process list of a cgroup and the per-process memory
  totals. \<open>read_file\<close> gives the contents of a file, \<open>None\<close> when it cannot be read.
\<close>

type_synonym files = "string \<Rightarrow> string option"

section \<open>NUMA statistics\<close>

definition min64 :: "rat \<Rightarrow> rat \<Rightarrow> rat" where
  "min64 a b = (if a < b then a else b)"

definition migration_fields :: "string list" where
  "migration_fields = [''nr_migrations_cold'', ''nr_failed_migrations_hot'', ''nr_failed_migrations_running'',
     ''nr_failed_migrations_numa'', ''nr_migrations'']"

text \<open>One line of \<^verbatim>\<open>cpu.stat\<close>: a name and a 64-bit number, anything else is skipped.\<close>

definition numa_line :: "u64 \<times> u64 \<Rightarrow> string \<Rightarrow> u64 \<times> u64" where
  "numa_line st line = (case st of (nrPeriods, nrMigrations) \<Rightarrow>
     case Fields line of
       f0 # f1 # _ \<Rightarrow> (case ParseUint 64 f1 of
           None \<Rightarrow> st
         | Some val \<Rightarrow>
             if f0 = ''nr_periods'' then (of_nat val, nrMigrations)
             else if f0 \<in> set migration_fields then (nrPeriods, nrMigrations + of_nat val)
             else st)
     | _ \<Rightarrow> st)"

definition readNUMAStats :: "files \<Rightarrow> string \<Rightarrow> rat \<times> rat" where
  "readNUMAStats read_file cgPath =
     (case read_file (''/sys/fs/cgroup/'' @ cgPath @ ''/cpu.stat'') of
        None \<Rightarrow> (100, 0)
      | Some data \<Rightarrow>
          let (nrPeriods, nrMigrations) = foldl numa_line (0, 0) (scan_lines data) in
          if nrPeriods = 0
          then let remotePct = (if 0 < nrMigrations then min64 (fdiv (float_of_u64 nrMigrations) 10) 100 else 0)
               in (fsub 100 remotePct, remotePct)
          else let ratio = fdiv (float_of_u64 nrMigrations) (float_of_u64 nrPeriods);
                   remotePct = min64 (fmul ratio 100) 100
               in (fsub 100 remotePct, remotePct))"

lemma pct_complement:
  assumes "0 \<le> r" and "r \<le> 100"
  shows "0 \<le> fsub 100 r \<and> fsub 100 r \<le> 100"
  using f64.rnd_range [of 0 "100 - r" 100] assms by (simp add: fsub_def)

lemma min64_range: "0 \<le> a \<Longrightarrow> 0 \<le> min64 a 100 \<and> min64 a 100 \<le> 100"
  by (simp add: min64_def)

lemma readNUMAStats_range_aux:
  "case readNUMAStats read_file cgPath of (l, r) \<Rightarrow>
     0 \<le> r \<and> r \<le> 100 \<and> 0 \<le> l \<and> l \<le> 100 \<and> (l = fsub 100 r \<or> (l, r) = (100, 0))"
proof -
  have d: "0 \<le> fdiv (float_of_u64 a) (float_of_u64 b)" "0 \<le> fdiv (float_of_u64 a) 10" for a b
    by (simp_all add: fdiv_nonneg)
  have m: "0 \<le> fmul (fdiv (float_of_u64 a) (float_of_u64 b)) 100" for a b
    by (intro fmul_nonneg d) simp
  show ?thesis
    using pct_complement min64_range d m
    by (auto simp: readNUMAStats_def Let_def split: option.splits prod.splits)
qed

section \<open>Counters of a cgroup\<close>

text \<open>\<^verbatim>\<open>filepath.Join\<close> of the cgroup root, a relative path without dot components, and a name.\<close>

definition cg_file :: "string \<Rightarrow> string \<Rightarrow> string" where
  "cg_file cgPath name = (if cgPath = ''.'' \<or> cgPath = [] then ''/sys/fs/cgroup/'' @ name
     else ''/sys/fs/cgroup/'' @ cgPath @ ''/'' @ name)"

definition readCgroupUint64 :: "files \<Rightarrow> string \<Rightarrow> string \<Rightarrow> u64" where
  "readCgroupUint64 read_file cgPath filename =
     (case read_file (cg_file cgPath filename) of
        None \<Rightarrow> 0
      | Some data \<Rightarrow> let s = TrimSpace data in
          if s = ''max'' then 0
          else case ParseUint 64 s of None \<Rightarrow> 0 | Some v \<Rightarrow> of_nat v)"

section \<open>Memory pressure\<close>

text \<open>
  \<^verbatim>\<open>strconv.ParseFloat\<close> on the decimal notation without exponent that the kernel prints: an
  optional sign, digits, and an optional fraction, at least one digit in all.
\<close>

definition parse_udec :: "string \<Rightarrow> rat option" where
  "parse_udec s =
     (let ip = takeWhile (\<lambda>c. c \<noteq> CHR ''.'') s; rest = dropWhile (\<lambda>c. c \<noteq> CHR ''.'') s; fp = tl rest in
      if ip = [] \<and> fp = [] then None
      else case (parse_digits 0 ip, parse_digits 0 fp) of
          (Some a, Some b) \<Rightarrow> Some (f64 (of_nat a + of_nat b / 10 ^ length fp))
        | _ \<Rightarrow> None)"

definition ParseFloat :: "string \<Rightarrow> rat option" where
  "ParseFloat s = (case s of
      c # t \<Rightarrow> if c = CHR ''-'' then map_option uminus (parse_udec t)
              else if c = CHR ''+'' then parse_udec t else parse_udec s
    | [] \<Rightarrow> None)"

text \<open>The inner loop over the fields of a line: the first \<^verbatim>\<open>avg10=\<close> field decides.\<close>

fun psi_fields :: "string \<Rightarrow> rat \<times> rat \<Rightarrow> string list \<Rightarrow> rat \<times> rat" where
  "psi_fields kind st [] = st"
| "psi_fields kind st (f # fs) =
     (if HasPrefix f ''avg10=''
      then case ParseFloat (TrimPrefix f ''avg10='') of
          None \<Rightarrow> st
        | Some val \<Rightarrow> if kind = ''some'' then (val, snd st)
            else if kind = ''full'' then (fst st, val) else st
      else psi_fields kind st fs)"

definition psi_line :: "rat \<times> rat \<Rightarrow> string \<Rightarrow> rat \<times> rat" where
  "psi_line st line = (case Fields line of
      kind # f # fs \<Rightarrow> psi_fields kind st (f # fs) | _ \<Rightarrow> st)"

definition readMemoryPSI :: "files \<Rightarrow> string \<Rightarrow> rat \<times> rat" where
  "readMemoryPSI read_file cgPath = (case read_file (cg_file cgPath ''memory.pressure'') of
      None \<Rightarrow> (0, 0) | Some data \<Rightarrow> foldl psi_line (0, 0) (scan_lines data))"

section \<open>Processes of a cgroup\<close>

definition scanCgroupProcs :: "files \<Rightarrow> string \<Rightarrow> u32 list" where
  "scanCgroupProcs read_file cgPath = (case read_file (cg_file cgPath ''cgroup.procs'') of
      None \<Rightarrow> []
    | Some data \<Rightarrow> List.map_filter (\<lambda>l. let line = TrimSpace l in
        if line = [] then None else map_option of_nat (ParseUint 32 line))
        (split_on CHR 0x0A (TrimSpace data)))"

fun status_field :: "string \<Rightarrow> string list \<Rightarrow> u64 option" where
  "status_field field [] = None"
| "status_field field (line # ls) =
     (if HasPrefix line field
      then case Fields line of
          _ # f1 # _ \<Rightarrow> (case ParseUint 64 f1 of Some v \<Rightarrow> Some (of_nat v) | None \<Rightarrow> status_field field ls)
        | _ \<Rightarrow> status_field field ls
      else status_field field ls)"

definition readProcStatusField :: "files \<Rightarrow> string \<Rightarrow> string \<Rightarrow> u64 option" where
  "readProcStatusField read_file pid field = (case read_file (''/proc/'' @ pid @ ''/status'') of
      None \<Rightarrow> None | Some data \<Rightarrow> status_field field (scan_lines data))"

definition smaps_line :: "u64 \<times> u64 \<Rightarrow> string \<Rightarrow> u64 \<times> u64" where
  "smaps_line st line = (case st of (pss, shared) \<Rightarrow>
     case Fields line of
       f0 # f1 # _ # _ \<Rightarrow> (case ParseUint 64 f1 of
           None \<Rightarrow> st
         | Some val \<Rightarrow>
             if f0 = ''Pss:'' then (pss + of_nat val * 1024, shared)
             else if f0 = ''Shared_Clean:'' then (pss, shared + of_nat val * 1024)
             else if f0 = ''Shared_Dirty:'' then (pss, shared + of_nat val * 1024)
             else st)
     | _ \<Rightarrow> st)"

definition readSmapsRollup :: "files \<Rightarrow> string \<Rightarrow> u64 \<times> u64" where
  "readSmapsRollup read_file pid = (case read_file (''/proc/'' @ pid @ ''/smaps_rollup'') of
      None \<Rightarrow> (0, 0) | Some data \<Rightarrow> foldl smaps_line (0, 0) (scan_lines data))"

definition proc_mem_step :: "files \<Rightarrow> u64 \<times> u64 \<times> u64 \<Rightarrow> u32 \<Rightarrow> u64 \<times> u64 \<times> u64" where
  "proc_mem_step read_file st pid = (case st of (virt, pss, shared) \<Rightarrow>
     let pidStr = show_nat (unat pid);
         virt' = (case readProcStatusField read_file pidStr ''VmSize:'' of
                    Some v \<Rightarrow> virt + v * 1024 | None \<Rightarrow> virt);
         (p, s) = readSmapsRollup read_file pidStr
     in (virt', pss + p, shared + s))"

definition readProcMemStats :: "files \<Rightarrow> string \<Rightarrow> u64 \<times> u64 \<times> u64" where
  "readProcMemStats read_file cgPath =
     foldl (proc_mem_step read_file) (0, 0, 0) (scanCgroupProcs read_file cgPath)"

section \<open>Theorems\<close>

text \<open>
  The NUMA percentages are percentages: the remote share and the local share both lie between
  0 and 100 whatever the statistics file contains, and the local share is the (rounded)
  complement of the remote one.
\<close>

theorem readNUMAStats_range:
  "fst (readNUMAStats read_file cgPath) = fsub 100 (snd (readNUMAStats read_file cgPath)) \<and>
   0 \<le> snd (readNUMAStats read_file cgPath) \<and> snd (readNUMAStats read_file cgPath) \<le> 100 \<and>
   0 \<le> fst (readNUMAStats read_file cgPath) \<and> fst (readNUMAStats read_file cgPath) \<le> 100"
proof -
  have "fsub 100 0 = 100" using f64_numeral [of "Num.num.Bit0 (Num.num.Bit0 (Num.num.Bit1 (Num.num.Bit0 (Num.num.Bit0 (Num.num.Bit1 Num.num.One)))))"]
    by (simp add: fsub_def)
  then show ?thesis
    using readNUMAStats_range_aux [of read_file cgPath] by (auto split: prod.splits)
qed

text \<open>
  A cgroup counter file holding a decimal number that fits 64 bits, followed by any white
  space, is read as that number; \<^verbatim>\<open>max\<close>, an unreadable file and text that is not a number
  read as 0.
\<close>

theorem readCgroupUint64_value:
  assumes "\<forall>c \<in> set ws. is_space c" and "n < 2 ^ 64"
  shows "(read_file (cg_file cgPath name) = Some (show_nat n @ ws) \<longrightarrow> unat (readCgroupUint64 read_file cgPath name) = n) \<and>
     (read_file (cg_file cgPath name) = Some (''max'' @ ws) \<longrightarrow> readCgroupUint64 read_file cgPath name = 0) \<and>
     (read_file (cg_file cgPath name) = None \<longrightarrow> readCgroupUint64 read_file cgPath name = 0)"
proof -
  have ne: "show_nat n \<noteq> ''max''"
  proof
    assume "show_nat n = ''max''"
    then have "ParseUint 64 ''max'' = Some n" using ParseUint_show [OF assms(2)] by simp
    moreover have "ParseUint 64 ''max'' = None" by code_simp
    ultimately show False by simp
  qed
  have mx: "TrimSpace (''max'' @ ws) = ''max''"
    using assms(1) by (intro TrimSpace_word) (auto simp: is_space_def)
  show ?thesis
    using TrimSpace_show_nat [OF assms(1), of n] ne mx ParseUint_show [OF assms(2)] assms(2)
    by (simp add: readCgroupUint64_def Let_def unat_of_nat)
qed

theorem readCgroupUint64_value_witness:
  "unat (readCgroupUint64 (\<lambda>_. Some (show_nat 4096 @ [CHR 0x0A])) ''a'' ''memory.current'') = 4096"
  using readCgroupUint64_value [of "[CHR 0x0A]" 4096 "\<lambda>_. Some (show_nat 4096 @ [CHR 0x0A])" "''a''" "''memory.current''"]
  by (simp add: is_space_def)

end
