(* ===== verification/Wire.thy ===== *)
theory Wire
  imports GoStrings Event
begin

text \<open>
  The binary records that the kernel side places in the ring buffers, their little-endian
  decoders, and the loop that drains a ring buffer. The interface locale \<open>raw_record\<close> states
  what a decoder promises: it accepts every buffer of at least the struct size without panicking
  and it inverts the C layout of the struct. Each event type interprets it.
\<close>

section \<open>Little-endian numbers\<close>

fun le_nat :: "bytes \<Rightarrow> nat" where
  "le_nat [] = 0"
| "le_nat (b # bs) = unat b + 256 * le_nat bs"

definition le_word :: "bytes \<Rightarrow> 'a::len word" where
  "le_word bs = of_nat (le_nat bs)"

definition le_bytes :: "nat \<Rightarrow> 'a::len word \<Rightarrow> bytes" where
  "le_bytes n w = map (\<lambda>i. ucast (drop_bit (8 * i) w)) [0..<n]"

lemma length_le_bytes [simp]: "length (le_bytes n w) = n"
  by (simp add: le_bytes_def)

lemma le_nat_append: "le_nat (xs @ ys) = le_nat xs + 256 ^ length xs * le_nat ys"
  by (induction xs) (simp_all add: algebra_simps)

lemma unat_byte: "unat (ucast (drop_bit k (w :: 'a::len word)) :: u8) = unat w div 2 ^ k mod 256"
proof -
  have "unat (drop_bit k w) = unat w div 2 ^ k"
    by (metis drop_bit_eq_div unat_drop_bit_eq)
  then show ?thesis by (simp add: unsigned_ucast_eq take_bit_eq_mod)
qed

lemma le_nat_le_bytes: "le_nat (le_bytes n (w :: 'a::len word)) = unat w mod 256 ^ n"
proof (induction n)
  case (Suc n)
  have p: "(256::nat) ^ n = 2 ^ (8 * n)" by (simp add: power_mult)
  have "le_nat (le_bytes (Suc n) w) = le_nat (le_bytes n w) + 256 ^ n * unat (ucast (drop_bit (8 * n) w) :: u8)"
    by (simp add: le_bytes_def le_nat_append)
  also have "\<dots> = unat w mod (256 ^ n * 256)"
    unfolding Suc unat_byte p by (simp add: mod_mult2_eq)
  finally show ?case by (simp add: mult.commute)
qed (simp add: le_bytes_def)

lemma le_word_le_bytes: "LENGTH('a) = 8 * n \<Longrightarrow> le_word (le_bytes n (w :: 'a::len word)) = w"
  using unsigned_less [of w, where 'a = nat] by (simp add: le_word_def le_nat_le_bytes power_mult)

section \<open>Reading a buffer\<close>

definition u64_at :: "bytes \<Rightarrow> int \<Rightarrow> u64 go" where
  "u64_at d off = go_bind (go_slice d off (off + 8)) (\<lambda>s. Inr (le_word s))"

definition u32_at :: "bytes \<Rightarrow> int \<Rightarrow> u32 go" where
  "u32_at d off = go_bind (go_slice d off (off + 4)) (\<lambda>s. Inr (le_word s))"

definition u16_at :: "bytes \<Rightarrow> int \<Rightarrow> u16 go" where
  "u16_at d off = go_bind (go_slice d off (off + 2)) (\<lambda>s. Inr (le_word s))"

definition u8_at :: "bytes \<Rightarrow> int \<Rightarrow> u8 go" where
  "u8_at d off = go_index d off"

definition array_at :: "bytes \<Rightarrow> int \<Rightarrow> int \<Rightarrow> bytes go" where
  "array_at d off n = go_slice d off (off + n)"

text \<open>The string before the first NUL of a fixed-size array, or all of it.\<close>

definition nullTermStr :: "bytes \<Rightarrow> string" where
  "nullTermStr bs = string_of_bytes (takeWhile (\<lambda>b. b \<noteq> 0) bs)"

lemma at_total:
  "0 \<le> off \<Longrightarrow> off + 8 \<le> int (length d) \<Longrightarrow> \<exists>w. u64_at d off = Inr w"
  "0 \<le> off \<Longrightarrow> off + 4 \<le> int (length d) \<Longrightarrow> \<exists>w. u32_at d off = Inr w"
  "0 \<le> off \<Longrightarrow> off + 2 \<le> int (length d) \<Longrightarrow> \<exists>w. u16_at d off = Inr w"
  "0 \<le> off \<Longrightarrow> off + 1 \<le> int (length d) \<Longrightarrow> \<exists>w. u8_at d off = Inr w"
  "0 \<le> off \<Longrightarrow> 0 \<le> n \<Longrightarrow> off + n \<le> int (length d) \<Longrightarrow> \<exists>bs. array_at d off n = Inr bs \<and> length bs = nat n"
  by (simp_all add: u64_at_def u32_at_def u16_at_def u8_at_def array_at_def go_slice_ok go_index_def nat_add_distrib)

lemma slice_field:
  "off = int (length p) \<Longrightarrow> length bs = nat n \<Longrightarrow> 0 \<le> n \<Longrightarrow> go_slice (p @ bs @ q) off (off + n) = Inr bs"
  by (simp add: go_slice_def nat_add_distrib)

text \<open>Reading back a field behind a prefix of known length.\<close>

lemma at_field:
  "off = int (length p) \<Longrightarrow> u64_at (p @ le_bytes 8 w @ q) off = Inr w"
  "off = int (length p) \<Longrightarrow> u32_at (p @ le_bytes 4 x @ q) off = Inr x"
  "off = int (length p) \<Longrightarrow> u16_at (p @ le_bytes 2 y @ q) off = Inr y"
  "off = int (length p) \<Longrightarrow> u8_at (p @ b # q) off = Inr b"
  "off = int (length p) \<Longrightarrow> length bs = nat n \<Longrightarrow> 0 \<le> n \<Longrightarrow> array_at (p @ bs @ q) off n = Inr bs"
  by (simp_all add: u64_at_def u32_at_def u16_at_def u8_at_def array_at_def slice_field le_word_le_bytes)

lemma nullTermStr_no_nul: "byte_char 0 \<notin> set (nullTermStr bs)"
  by (auto simp: nullTermStr_def string_of_bytes_def dest: set_takeWhileD)

lemma length_nullTermStr: "length (nullTermStr bs) \<le> length bs"
  by (simp add: nullTermStr_def string_of_bytes_def length_takeWhile_le)

lemma nullTermStr_padded:
  "\<forall>b \<in> set s. b \<noteq> 0 \<Longrightarrow> nullTermStr (s @ 0 # pad) = string_of_bytes s"
  by (simp add: nullTermStr_def takeWhile_append2)

section \<open>Draining a ring buffer\<close>

text \<open>
  \<open>recs\<close> are the samples that \<^verbatim>\<open>Read\<close> returns before its first error. A sample shorter than
  the struct is logged and skipped; any other one is decoded and turned into an envelope.
\<close>

fun drain_records :: "int \<Rightarrow> (bytes \<Rightarrow> 'r go) \<Rightarrow> ('r \<Rightarrow> 'e) \<Rightarrow> bytes list \<Rightarrow> 'e list go" where
  "drain_records rawSize parse to_env [] = Inr []"
| "drain_records rawSize parse to_env (s # recs) =
     (if int (length s) < rawSize then drain_records rawSize parse to_env recs
      else go_bind (parse s) (\<lambda>raw.
           go_bind (drain_records rawSize parse to_env recs) (\<lambda>evs. Inr (to_env raw # evs))))"

locale raw_record =
  fixes size :: int
    and parse :: "bytes \<Rightarrow> 'r go"
    and encode :: "'r \<Rightarrow> bytes"
    and wf :: "'r \<Rightarrow> bool"
  assumes parse_total: "size \<le> int (length d) \<Longrightarrow> \<exists>r. parse d = Inr r \<and> wf r"
    and parse_encode: "wf r \<Longrightarrow> parse (encode r @ junk) = Inr r"
    and length_encode: "wf r \<Longrightarrow> int (length (encode r)) = size"
begin

lemma drain_total:
  "\<exists>evs. drain_records size parse to_env recs = Inr evs \<and>
     length evs = length (filter (\<lambda>s. size \<le> int (length s)) recs)"
proof (induction recs)
  case (Cons s recs)
  show ?case
  proof (cases "int (length s) < size")
    case False
    then obtain r where "parse s = Inr r" using parse_total [of s] by auto
    with False Cons show ?thesis by auto
  qed (use Cons in auto)
qed simp

text \<open>Records as the kernel writes them come out decoded, in order; short samples leave no trace.\<close>

lemma drain_encoded:
  "\<forall>r \<in> set rs. wf r \<Longrightarrow>
   drain_records size parse to_env (map (\<lambda>r. encode r @ pad r) rs) = Inr (map to_env rs)"
proof (induction rs)
  case (Cons r rs)
  then have "\<not> int (length (encode r @ pad r)) < size" using length_encode [of r] by simp
  with Cons show ?case by (simp add: parse_encode)
qed simp

lemma drain_short: "int (length s) < size \<Longrightarrow>
   drain_records size parse to_env (s # recs) = drain_records size parse to_env recs"
  by simp

end

end
