(* ===== verification/Lineage.thy ===== *)
theory Lineage
  imports Wire Resolver
begin

text \<open>
  Process lineage (pkg/lineage/lineage.go, pkg/collector/lineage.go): the fork-event record and
  its decoder, the parent chain walked over the kernel's process tree map, and the conversion of
  fork events to envelopes. The process tree map is an argument \<open>tree\<close>: what a BPF lookup
  returns for a cgroup and thread-group id.
\<close>

section \<open>Records\<close>

record lineageEntryBPF =
  le_PPID :: u32
  le_CgroupID :: u64
  le_Comm :: bytes
  le_ForkTsNs :: u64
  le_CommFinal :: u8

record forkEventRaw =
  fk_CgroupID :: u64
  fk_ForkTsNs :: u64
  fk_PPID :: u32
  fk_TGID :: u32
  fk_ParentComm :: bytes
  fk_ChildComm :: bytes
  fk_CommFinal :: u8

record LineageEntry =
  lin_PPID :: u32
  lin_CgroupID :: u64
  lin_Comm :: string
  lin_ForkTime :: time
  lin_CommFinal :: bool

definition MaxAncestorDepth :: int where "MaxAncestorDepth = 8"

type_synonym tree_map = "u64 \<Rightarrow> u32 \<Rightarrow> lineageEntryBPF option"

definition forkEventSize :: int where "forkEventSize = 64"

definition parseForkEvent :: "bytes \<Rightarrow> forkEventRaw go" where
  "parseForkEvent data =
     go_bind (u64_at data 0) (\<lambda>cg.
     go_bind (u64_at data 8) (\<lambda>ts.
     go_bind (u32_at data 16) (\<lambda>ppid.
     go_bind (u32_at data 20) (\<lambda>tgid.
     go_bind (array_at data 24 16) (\<lambda>pc.
     go_bind (array_at data 40 16) (\<lambda>cc.
     go_bind (u8_at data 56) (\<lambda>cf. Inr
       \<lparr>fk_CgroupID = cg, fk_ForkTsNs = ts, fk_PPID = ppid, fk_TGID = tgid, fk_ParentComm = pc,
        fk_ChildComm = cc, fk_CommFinal = cf\<rparr>)))))))"

text \<open>The layout of \<^verbatim>\<open>struct fork_event\<close> as the kernel side writes it.\<close>

definition encodeForkEvent :: "forkEventRaw \<Rightarrow> bytes" where
  "encodeForkEvent r =
     le_bytes 8 (fk_CgroupID r) @ le_bytes 8 (fk_ForkTsNs r) @ le_bytes 4 (fk_PPID r) @
     le_bytes 4 (fk_TGID r) @ fk_ParentComm r @ fk_ChildComm r @ fk_CommFinal r # replicate 7 0"

definition forkEvent_wf :: "forkEventRaw \<Rightarrow> bool" where
  "forkEvent_wf r \<longleftrightarrow> length (fk_ParentComm r) = 16 \<and> length (fk_ChildComm r) = 16"

lemma parseForkEvent_total:
  assumes "forkEventSize \<le> int (length d)"
  shows "\<exists>r. parseForkEvent d = Inr r \<and> forkEvent_wf r"
  using assms at_total(1) [of 0 d] at_total(1) [of 8 d] at_total(2) [of 16 d] at_total(2) [of 20 d]
    at_total(5) [of 24 16 d] at_total(5) [of 40 16 d] at_total(4) [of 56 d]
  by (auto simp: parseForkEvent_def forkEventSize_def forkEvent_wf_def)

lemma parseForkEvent_encode:
  assumes "forkEvent_wf r"
  shows "parseForkEvent (encodeForkEvent r @ junk) = Inr r"
proof -
  let ?a = "le_bytes 8 (fk_CgroupID r)" and ?b = "le_bytes 8 (fk_ForkTsNs r)" and ?c = "le_bytes 4 (fk_PPID r)"
    and ?d = "le_bytes 4 (fk_TGID r)" and ?e = "fk_ParentComm r" and ?f = "fk_ChildComm r"
  let ?z = "fk_CommFinal r # replicate 7 0 @ junk"
  have len: "length ?e = 16" "length ?f = 16" using assms by (simp_all add: forkEvent_wf_def)
  have data: "encodeForkEvent r @ junk = ?a @ ?b @ ?c @ ?d @ ?e @ ?f @ ?z" by (simp add: encodeForkEvent_def)
  show ?thesis
    unfolding data parseForkEvent_def
    using at_field(1) [of 0 "[]" "fk_CgroupID r"] at_field(1) [of 8 ?a "fk_ForkTsNs r"]
      at_field(2) [of 16 "?a @ ?b" "fk_PPID r"] at_field(2) [of 20 "?a @ ?b @ ?c" "fk_TGID r"]
      at_field(5) [of 24 "?a @ ?b @ ?c @ ?d" ?e 16 "?f @ ?z"]
      at_field(5) [of 40 "?a @ ?b @ ?c @ ?d @ ?e" ?f 16 ?z]
      at_field(4) [of 56 "?a @ ?b @ ?c @ ?d @ ?e @ ?f" "fk_CommFinal r" "replicate 7 0 @ junk"] len
    by simp
qed

interpretation fork_rec: raw_record forkEventSize parseForkEvent encodeForkEvent forkEvent_wf
  by unfold_locales (fact parseForkEvent_total, fact parseForkEvent_encode,
      simp add: encodeForkEvent_def forkEvent_wf_def forkEventSize_def)

section \<open>Envelopes\<close>

text \<open>The name a collector shows for a cgroup; \<open>resolve\<close> is the answer of the cgroup resolver.\<close>

definition container_name :: "(u64 \<Rightarrow> ContainerInfo option) \<Rightarrow> u64 \<Rightarrow> string" where
  "container_name resolve cg = (case resolve cg of None \<Rightarrow> cgroup_label cg | Some i \<Rightarrow> ci_Name i)"

definition toLineageEntry :: "u64 \<Rightarrow> lineageEntryBPF \<Rightarrow> LineageEntry" where
  "toLineageEntry bootOffset v =
     \<lparr>lin_PPID = le_PPID v, lin_CgroupID = le_CgroupID v, lin_Comm = nullTermStr (le_Comm v),
      lin_ForkTime = wall_clock (le_ForkTsNs v) bootOffset, lin_CommFinal = (le_CommFinal v = 1)\<rparr>"

definition forkEventToEnvelope ::
  "(u64 \<Rightarrow> ContainerInfo option) \<Rightarrow> u64 \<Rightarrow> forkEventRaw \<Rightarrow> EventEnvelope" where
  "forkEventToEnvelope resolve bootOffset raw =
     (let name = container_name resolve (fk_CgroupID raw) in
      \<lparr>ev_Timestamp = wall_clock (fk_ForkTsNs raw) bootOffset, ev_CgroupID = fk_CgroupID raw,
       ev_ContainerName = name, ev_PID = fk_TGID raw, ev_PPID = fk_PPID raw,
       ev_Process = nullTermStr (fk_ChildComm raw), ev_ParentProcess = nullTermStr (fk_ParentComm raw),
       ev_EventType = EventTypeFork, ev_AncestryTruncated = False,
       ev_Metadata = [(''container'', AnyString name), (''child_comm_final'', AnyBool (fk_CommFinal raw = 1))]\<rparr>)"

text \<open>\<open>recs\<close> is \<open>None\<close> when the collector has no ring buffer.\<close>

definition ReadForkEvents ::
  "(u64 \<Rightarrow> ContainerInfo option) \<Rightarrow> u64 \<Rightarrow> bytes list option \<Rightarrow> EventEnvelope list go" where
  "ReadForkEvents resolve bootOffset recs = (case recs of
      None \<Rightarrow> Inr []
    | Some rs \<Rightarrow> drain_records forkEventSize parseForkEvent (forkEventToEnvelope resolve bootOffset) rs)"

section \<open>The parent chain\<close>

definition Lookup_lineage :: "tree_map \<Rightarrow> u64 \<Rightarrow> u64 \<Rightarrow> u32 \<Rightarrow> LineageEntry option" where
  "Lookup_lineage tree bootOffset cg tgid = map_option (toLineageEntry bootOffset) (tree cg tgid)"

fun lineage_walk :: "tree_map \<Rightarrow> u64 \<Rightarrow> nat \<Rightarrow> u64 \<Rightarrow> u32 \<Rightarrow> LineageEntry list" where
  "lineage_walk tree boot 0 cg tgid = []"
| "lineage_walk tree boot (Suc d) cg tgid =
     (case Lookup_lineage tree boot cg tgid of
        None \<Rightarrow> []
      | Some entry \<Rightarrow> entry #
          (if lin_PPID entry = 0 \<or> lin_PPID entry = 1 \<or> lin_PPID entry = tgid then []
           else case tree cg (lin_PPID entry) of
               None \<Rightarrow> []
             | Some parentVal \<Rightarrow> lineage_walk tree boot d (le_CgroupID parentVal) (lin_PPID entry)))"

definition Ancestors_lineage ::
  "tree_map \<Rightarrow> u64 \<Rightarrow> u64 \<Rightarrow> u32 \<Rightarrow> int \<Rightarrow> LineageEntry list \<times> bool" where
  "Ancestors_lineage tree boot cg tgid maxDepth =
     (let md = (if maxDepth \<le> 0 then MaxAncestorDepth else maxDepth);
          chain = lineage_walk tree boot (nat md) cg tgid;
          truncated = (md \<le> int (length chain) \<and> chain \<noteq> [] \<and>
             lin_PPID (last chain) \<noteq> 0 \<and> lin_PPID (last chain) \<noteq> 1)
      in (rev chain, truncated))"

text \<open>The interface \<^verbatim>\<open>lineage.LineageLookup\<close>.\<close>

locale lineage_lookup =
  fixes look :: "u64 \<Rightarrow> u32 \<Rightarrow> LineageEntry option"
    and anc :: "u64 \<Rightarrow> u32 \<Rightarrow> int \<Rightarrow> LineageEntry list \<times> bool"
  assumes anc_bounded: "0 < md \<Longrightarrow> int (length (fst (anc cg tgid md))) \<le> md"
    and anc_empty: "fst (anc cg tgid md) = [] \<longleftrightarrow> look cg tgid = None"
    and anc_last: "look cg tgid = Some e \<Longrightarrow> last (fst (anc cg tgid md)) = e"
begin

lemma last_comm:
  "fst (anc cg tgid md) \<noteq> [] \<Longrightarrow> look cg tgid = Some (last (fst (anc cg tgid md)))"
  using anc_empty [of cg tgid md] anc_last [of cg tgid] by (cases "look cg tgid") auto

end

lemma length_lineage_walk: "length (lineage_walk tree boot d cg tgid) \<le> d"
  by (induction tree boot d cg tgid rule: lineage_walk.induct) (auto split: option.splits)

lemma lineage_walk_hd:
  "lineage_walk tree boot (Suc d) cg tgid = [] \<longleftrightarrow> Lookup_lineage tree boot cg tgid = None"
  "Lookup_lineage tree boot cg tgid = Some e \<Longrightarrow> hd (lineage_walk tree boot (Suc d) cg tgid) = e"
  by (auto split: option.splits)

lemma Ancestors_lineage_depth:
  obtains d where "fst (Ancestors_lineage tree boot cg tgid maxDepth) = rev (lineage_walk tree boot (Suc d) cg tgid)"
    "int (Suc d) = (if maxDepth \<le> 0 then 8 else maxDepth)"
proof -
  let ?md = "if maxDepth \<le> 0 then 8 else maxDepth"
  obtain d where "nat ?md = Suc d" by (cases "nat ?md") (auto split: if_splits)
  moreover from this have "int (Suc d) = ?md" by (auto split: if_splits)
  moreover have "fst (Ancestors_lineage tree boot cg tgid maxDepth) = rev (lineage_walk tree boot (nat ?md) cg tgid)"
    unfolding Ancestors_lineage_def MaxAncestorDepth_def Let_def by (simp only: fst_conv)
  ultimately show thesis using that by simp
qed

interpretation lincol: lineage_lookup "Lookup_lineage tree boot" "Ancestors_lineage tree boot" for tree boot
proof unfold_locales
  fix md :: int and cg tgid
  obtain d where d: "fst (Ancestors_lineage tree boot cg tgid md) = rev (lineage_walk tree boot (Suc d) cg tgid)"
    "int (Suc d) = (if md \<le> 0 then 8 else md)" by (rule Ancestors_lineage_depth)
  show "int (length (fst (Ancestors_lineage tree boot cg tgid md))) \<le> md" if "0 < md"
    unfolding d(1) using length_lineage_walk [of tree boot "Suc d" cg tgid] d(2) that by (simp del: lineage_walk.simps)
  show "(fst (Ancestors_lineage tree boot cg tgid md) = []) = (Lookup_lineage tree boot cg tgid = None)"
    unfolding d(1) by (simp add: lineage_walk_hd del: lineage_walk.simps)
  show "last (fst (Ancestors_lineage tree boot cg tgid md)) = e" if "Lookup_lineage tree boot cg tgid = Some e" for e
    unfolding d(1) using that lineage_walk_hd(2) [OF that, of d] by (simp add: last_rev del: lineage_walk.simps)
qed

text \<open>Each entry is followed by the entry of its parent process id.\<close>

lemma lineage_walk_linked:
  "successively (\<lambda>c p. \<exists>cg. Lookup_lineage tree boot cg (lin_PPID c) = Some p) (lineage_walk tree boot d cg tgid)"
proof (induction tree boot d cg tgid rule: lineage_walk.induct)
  case (2 tree boot d cg tgid)
  have h: "Lookup_lineage tree boot cg' t = Some (hd (lineage_walk tree boot d cg' t))"
    if "lineage_walk tree boot d cg' t \<noteq> []" for cg' t
    using that lineage_walk_hd(2) [of tree boot cg' t] by (cases d) (auto split: option.splits)
  show ?case
  proof (cases "Lookup_lineage tree boot cg tgid")
    case (Some e)
    then show ?thesis
      using 2 h [of _ "lin_PPID e"] by (cases "tree cg (lin_PPID e)") (auto simp: successively_Cons)
  qed simp
qed simp

lemma lineage_walk_stops:
  assumes "lineage_walk tree boot d cg tgid \<noteq> []" and "length (lineage_walk tree boot d cg tgid) < d"
  shows "let e = last (lineage_walk tree boot d cg tgid) in
     lin_PPID e = 0 \<or> lin_PPID e = 1 \<or> (\<exists>cg t. Lookup_lineage tree boot cg t = Some e \<and> lin_PPID e = t) \<or>
     (\<exists>cg. tree cg (lin_PPID e) = None)"
  using assms
proof (induction tree boot d cg tgid rule: lineage_walk.induct)
  case (2 tree boot d cg tgid)
  obtain e where e: "Lookup_lineage tree boot cg tgid = Some e" using 2(2) by (auto split: option.splits)
  show ?case
  proof (cases "lin_PPID e = 0 \<or> lin_PPID e = 1 \<or> lin_PPID e = tgid")
    case True
    then show ?thesis using e by (auto simp: Let_def)
  next
    case False
    show ?thesis
    proof (cases "tree cg (lin_PPID e)")
      case None
      then show ?thesis using e False by (auto simp: Let_def)
    next
      case (Some pv)
      let ?rest = "lineage_walk tree boot d (le_CgroupID pv) (lin_PPID e)"
      have w: "lineage_walk tree boot (Suc d) cg tgid = e # ?rest" using e False Some by simp
      show ?thesis
      proof (cases "?rest = []")
        case True
        have "0 < d" using 2(3) w True by simp
        then have "tree (le_CgroupID pv) (lin_PPID e) = None"
          using True lineage_walk_hd(1) [of tree boot _ "le_CgroupID pv" "lin_PPID e"]
          by (cases d) (auto simp: Lookup_lineage_def simp del: lineage_walk.simps)
        then show ?thesis unfolding w using True by (auto simp: Let_def)
      next
        case rest: False
        from 2(1) [OF e False Some rest] 2(3) w rest show ?thesis
          by (simp add: Let_def del: lineage_walk.simps)
      qed
    qed
  qed
qed simp

end
