(* ===== verification/MetricRecords.thy ===== *)
theory MetricRecords
  imports Wire
begin

text \<open>
  The raw records of the out-of-memory, file-open, slow-system-call and TCP ring buffers
  (pkg/collector/memory.go, io.go, syscall.go, network.go), their decoders, the C layouts they
  invert, and the interpretations of \<open>raw_record\<close>. The 32-bit TCP states are kept as words; the
  sources only convert them between their signed and unsigned readings.
\<close>

section \<open>Out-of-memory events\<close>

record oomEventRaw =
  or_CgroupID :: u64
  or_VictimPID :: u32
  or_OOMScoreAdj :: u32
  or_Pages :: u64
  or_Comm :: bytes

definition oomEventSize :: int where "oomEventSize = 40"

definition parseOOMEvent :: "bytes \<Rightarrow> oomEventRaw go" where
  "parseOOMEvent data =
     go_bind (u64_at data 0) (\<lambda>cgroupID.
     go_bind (u32_at data 8) (\<lambda>victimPID.
     go_bind (u32_at data 12) (\<lambda>oOMScoreAdj.
     go_bind (u64_at data 16) (\<lambda>pages.
     go_bind (array_at data 24 16) (\<lambda>comm. Inr
       \<lparr>or_CgroupID = cgroupID, or_VictimPID = victimPID, or_OOMScoreAdj = oOMScoreAdj, or_Pages =
        pages, or_Comm = comm\<rparr>)))))"

definition encodeOOMEvent :: "oomEventRaw \<Rightarrow> bytes" where
  "encodeOOMEvent r =
     le_bytes 8 (or_CgroupID r) @ le_bytes 4 (or_VictimPID r) @ le_bytes 4 (or_OOMScoreAdj r)
     @ le_bytes 8 (or_Pages r) @ or_Comm r"

definition oomEvent_wf :: "oomEventRaw \<Rightarrow> bool" where
  "oomEvent_wf r \<longleftrightarrow> length (or_Comm r) = 16"

lemma parseOOMEvent_total:
  assumes "oomEventSize \<le> int (length d)"
  shows "\<exists>r. parseOOMEvent d = Inr r \<and> oomEvent_wf r"
proof -
  have l: "40 \<le> int (length d)" using assms by (simp add: oomEventSize_def)
  show ?thesis
    using l at_total(1) [of 0 d] at_total(2) [of 8 d] at_total(2) [of 12 d] at_total(1) [of 16 d]
      at_total(5) [of 24 16 d]
    by (auto simp: parseOOMEvent_def oomEvent_wf_def)
qed

lemma parseOOMEvent_encode:
  assumes "oomEvent_wf r"
  shows "parseOOMEvent (encodeOOMEvent r @ junk) = Inr r"
proof -
  let ?f0 = "le_bytes 8 (or_CgroupID r)"
    and ?f1 = "le_bytes 4 (or_VictimPID r)"
    and ?f2 = "le_bytes 4 (or_OOMScoreAdj r)"
    and ?f3 = "le_bytes 8 (or_Pages r)"
    and ?f4 = "or_Comm r"
    and ?z = "junk"
  have len: "length (or_Comm r) = 16" using assms by (simp_all add: oomEvent_wf_def)
  have data: "encodeOOMEvent r @ junk = ?f0 @ ?f1 @ ?f2 @ ?f3 @ ?f4 @ ?z" by (simp add: encodeOOMEvent_def)
  note fields =
    at_field(1) [of 0 "[]" "or_CgroupID r" "?f1 @ ?f2 @ ?f3 @ ?f4 @ ?z"]
    at_field(2) [of 8 "?f0" "or_VictimPID r" "?f2 @ ?f3 @ ?f4 @ ?z"]
    at_field(2) [of 12 "?f0 @ ?f1" "or_OOMScoreAdj r" "?f3 @ ?f4 @ ?z"]
    at_field(1) [of 16 "?f0 @ ?f1 @ ?f2" "or_Pages r" "?f4 @ ?z"]
    at_field(5) [of 24 "?f0 @ ?f1 @ ?f2 @ ?f3" "or_Comm r" 16 "?z"]
  show ?thesis unfolding data parseOOMEvent_def using fields len by simp
qed
interpretation oom_rec: raw_record oomEventSize parseOOMEvent encodeOOMEvent oomEvent_wf
  by unfold_locales (fact parseOOMEvent_total, fact parseOOMEvent_encode,
      simp add: encodeOOMEvent_def oomEvent_wf_def oomEventSize_def)

section \<open>File-open events\<close>

record fileEventRaw =
  fe_CgroupID :: u64
  fe_PID :: u32
  fe_Flags :: u32
  fe_Comm :: bytes
  fe_Filename :: bytes

definition fileEventSize :: int where "fileEventSize = 160"

definition parseFileEvent :: "bytes \<Rightarrow> fileEventRaw go" where
  "parseFileEvent data =
     go_bind (u64_at data 0) (\<lambda>cgroupID.
     go_bind (u32_at data 8) (\<lambda>pID.
     go_bind (u32_at data 12) (\<lambda>flags.
     go_bind (array_at data 16 16) (\<lambda>comm.
     go_bind (array_at data 32 128) (\<lambda>filename. Inr
       \<lparr>fe_CgroupID = cgroupID, fe_PID = pID, fe_Flags = flags, fe_Comm = comm, fe_Filename =
        filename\<rparr>)))))"

definition encodeFileEvent :: "fileEventRaw \<Rightarrow> bytes" where
  "encodeFileEvent r =
     le_bytes 8 (fe_CgroupID r) @ le_bytes 4 (fe_PID r) @ le_bytes 4 (fe_Flags r) @ fe_Comm r
     @ fe_Filename r"

definition fileEvent_wf :: "fileEventRaw \<Rightarrow> bool" where
  "fileEvent_wf r \<longleftrightarrow> length (fe_Comm r) = 16 \<and> length (fe_Filename r) = 128"

lemma parseFileEvent_total:
  assumes "fileEventSize \<le> int (length d)"
  shows "\<exists>r. parseFileEvent d = Inr r \<and> fileEvent_wf r"
proof -
  have l: "160 \<le> int (length d)" using assms by (simp add: fileEventSize_def)
  show ?thesis
    using l at_total(1) [of 0 d] at_total(2) [of 8 d] at_total(2) [of 12 d] at_total(5) [of 16 16 d]
      at_total(5) [of 32 128 d]
    by (auto simp: parseFileEvent_def fileEvent_wf_def)
qed

lemma parseFileEvent_encode:
  assumes "fileEvent_wf r"
  shows "parseFileEvent (encodeFileEvent r @ junk) = Inr r"
proof -
  let ?f0 = "le_bytes 8 (fe_CgroupID r)"
    and ?f1 = "le_bytes 4 (fe_PID r)"
    and ?f2 = "le_bytes 4 (fe_Flags r)"
    and ?f3 = "fe_Comm r"
    and ?f4 = "fe_Filename r"
    and ?z = "junk"
  have len: "length (fe_Comm r) = 16" "length (fe_Filename r) = 128" using assms by (simp_all add: fileEvent_wf_def)
  have data: "encodeFileEvent r @ junk = ?f0 @ ?f1 @ ?f2 @ ?f3 @ ?f4 @ ?z" by (simp add: encodeFileEvent_def)
  note fields =
    at_field(1) [of 0 "[]" "fe_CgroupID r" "?f1 @ ?f2 @ ?f3 @ ?f4 @ ?z"]
    at_field(2) [of 8 "?f0" "fe_PID r" "?f2 @ ?f3 @ ?f4 @ ?z"]
    at_field(2) [of 12 "?f0 @ ?f1" "fe_Flags r" "?f3 @ ?f4 @ ?z"]
    at_field(5) [of 16 "?f0 @ ?f1 @ ?f2" "fe_Comm r" 16 "?f4 @ ?z"]
    at_field(5) [of 32 "?f0 @ ?f1 @ ?f2 @ ?f3" "fe_Filename r" 128 "?z"]
  show ?thesis unfolding data parseFileEvent_def using fields len by simp
qed
interpretation file_rec: raw_record fileEventSize parseFileEvent encodeFileEvent fileEvent_wf
  by unfold_locales (fact parseFileEvent_total, fact parseFileEvent_encode,
      simp add: encodeFileEvent_def fileEvent_wf_def fileEventSize_def)

section \<open>Slow system calls\<close>

record slowSyscallEventRaw =
  sl_CgroupID :: u64
  sl_PID :: u32
  sl_SyscallID :: u32
  sl_LatencyNs :: u64
  sl_Comm :: bytes

definition slowSyscallEventSize :: int where "slowSyscallEventSize = 40"

definition parseSlowSyscallEvent :: "bytes \<Rightarrow> slowSyscallEventRaw go" where
  "parseSlowSyscallEvent data =
     go_bind (u64_at data 0) (\<lambda>cgroupID.
     go_bind (u32_at data 8) (\<lambda>pID.
     go_bind (u32_at data 12) (\<lambda>syscallID.
     go_bind (u64_at data 16) (\<lambda>latencyNs.
     go_bind (array_at data 24 16) (\<lambda>comm. Inr
       \<lparr>sl_CgroupID = cgroupID, sl_PID = pID, sl_SyscallID = syscallID, sl_LatencyNs = latencyNs,
        sl_Comm = comm\<rparr>)))))"

definition encodeSlowSyscallEvent :: "slowSyscallEventRaw \<Rightarrow> bytes" where
  "encodeSlowSyscallEvent r =
     le_bytes 8 (sl_CgroupID r) @ le_bytes 4 (sl_PID r) @ le_bytes 4 (sl_SyscallID r) @
     le_bytes 8 (sl_LatencyNs r) @ sl_Comm r"

definition slowSyscallEvent_wf :: "slowSyscallEventRaw \<Rightarrow> bool" where
  "slowSyscallEvent_wf r \<longleftrightarrow> length (sl_Comm r) = 16"

lemma parseSlowSyscallEvent_total:
  assumes "slowSyscallEventSize \<le> int (length d)"
  shows "\<exists>r. parseSlowSyscallEvent d = Inr r \<and> slowSyscallEvent_wf r"
proof -
  have l: "40 \<le> int (length d)" using assms by (simp add: slowSyscallEventSize_def)
  show ?thesis
    using l at_total(1) [of 0 d] at_total(2) [of 8 d] at_total(2) [of 12 d] at_total(1) [of 16 d]
      at_total(5) [of 24 16 d]
    by (auto simp: parseSlowSyscallEvent_def slowSyscallEvent_wf_def)
qed

lemma parseSlowSyscallEvent_encode:
  assumes "slowSyscallEvent_wf r"
  shows "parseSlowSyscallEvent (encodeSlowSyscallEvent r @ junk) = Inr r"
proof -
  let ?f0 = "le_bytes 8 (sl_CgroupID r)"
    and ?f1 = "le_bytes 4 (sl_PID r)"
    and ?f2 = "le_bytes 4 (sl_SyscallID r)"
    and ?f3 = "le_bytes 8 (sl_LatencyNs r)"
    and ?f4 = "sl_Comm r"
    and ?z = "junk"
  have len: "length (sl_Comm r) = 16" using assms by (simp_all add: slowSyscallEvent_wf_def)
  have data: "encodeSlowSyscallEvent r @ junk = ?f0 @ ?f1 @ ?f2 @ ?f3 @ ?f4 @ ?z" by (simp add: encodeSlowSyscallEvent_def)
  note fields =
    at_field(1) [of 0 "[]" "sl_CgroupID r" "?f1 @ ?f2 @ ?f3 @ ?f4 @ ?z"]
    at_field(2) [of 8 "?f0" "sl_PID r" "?f2 @ ?f3 @ ?f4 @ ?z"]
    at_field(2) [of 12 "?f0 @ ?f1" "sl_SyscallID r" "?f3 @ ?f4 @ ?z"]
    at_field(1) [of 16 "?f0 @ ?f1 @ ?f2" "sl_LatencyNs r" "?f4 @ ?z"]
    at_field(5) [of 24 "?f0 @ ?f1 @ ?f2 @ ?f3" "sl_Comm r" 16 "?z"]
  show ?thesis unfolding data parseSlowSyscallEvent_def using fields len by simp
qed
interpretation slow_rec: raw_record slowSyscallEventSize parseSlowSyscallEvent encodeSlowSyscallEvent slowSyscallEvent_wf
  by unfold_locales (fact parseSlowSyscallEvent_total, fact parseSlowSyscallEvent_encode,
      simp add: encodeSlowSyscallEvent_def slowSyscallEvent_wf_def slowSyscallEventSize_def)

section \<open>TCP state transitions\<close>

record tcpEventRaw =
  tc_CgroupID :: u64
  tc_TsNs :: u64
  tc_Saddr :: u32
  tc_Daddr :: u32
  tc_Sport :: u16
  tc_Dport :: u16
  tc_Family :: u16
  tc_Pad :: u16
  tc_OldState :: u32
  tc_NewState :: u32
  tc_SaddrV6 :: bytes
  tc_DaddrV6 :: bytes

definition tcpEventSize :: int where "tcpEventSize = 72"

definition parseTCPEvent :: "bytes \<Rightarrow> tcpEventRaw go" where
  "parseTCPEvent data =
     go_bind (u64_at data 0) (\<lambda>cgroupID.
     go_bind (u64_at data 8) (\<lambda>tsNs.
     go_bind (u32_at data 16) (\<lambda>saddr.
     go_bind (u32_at data 20) (\<lambda>daddr.
     go_bind (u16_at data 24) (\<lambda>sport.
     go_bind (u16_at data 26) (\<lambda>dport.
     go_bind (u16_at data 28) (\<lambda>family.
     go_bind (u16_at data 30) (\<lambda>pad.
     go_bind (u32_at data 32) (\<lambda>oldState.
     go_bind (u32_at data 36) (\<lambda>newState.
     go_bind (array_at data 40 16) (\<lambda>saddrV6.
     go_bind (array_at data 56 16) (\<lambda>daddrV6. Inr
       \<lparr>tc_CgroupID = cgroupID, tc_TsNs = tsNs, tc_Saddr = saddr, tc_Daddr = daddr, tc_Sport =
        sport, tc_Dport = dport, tc_Family = family, tc_Pad = pad, tc_OldState = oldState,
        tc_NewState = newState, tc_SaddrV6 = saddrV6, tc_DaddrV6 = daddrV6\<rparr>))))))))))))"

definition encodeTCPEvent :: "tcpEventRaw \<Rightarrow> bytes" where
  "encodeTCPEvent r =
     le_bytes 8 (tc_CgroupID r) @ le_bytes 8 (tc_TsNs r) @ le_bytes 4 (tc_Saddr r) @
     le_bytes 4 (tc_Daddr r) @ le_bytes 2 (tc_Sport r) @ le_bytes 2 (tc_Dport r) @
     le_bytes 2 (tc_Family r) @ le_bytes 2 (tc_Pad r) @ le_bytes 4 (tc_OldState r) @
     le_bytes 4 (tc_NewState r) @ tc_SaddrV6 r @ tc_DaddrV6 r"

definition tcpEvent_wf :: "tcpEventRaw \<Rightarrow> bool" where
  "tcpEvent_wf r \<longleftrightarrow> length (tc_SaddrV6 r) = 16 \<and> length (tc_DaddrV6 r) = 16"

lemma parseTCPEvent_total:
  assumes "tcpEventSize \<le> int (length d)"
  shows "\<exists>r. parseTCPEvent d = Inr r \<and> tcpEvent_wf r"
proof -
  have l: "72 \<le> int (length d)" using assms by (simp add: tcpEventSize_def)
  show ?thesis
    using l at_total(1) [of 0 d] at_total(1) [of 8 d] at_total(2) [of 16 d] at_total(2) [of 20 d]
      at_total(3) [of 24 d] at_total(3) [of 26 d] at_total(3) [of 28 d] at_total(3) [of 30 d]
      at_total(2) [of 32 d] at_total(2) [of 36 d] at_total(5) [of 40 16 d] at_total(5) [of 56 16 d]
    by (auto simp: parseTCPEvent_def tcpEvent_wf_def)
qed

lemma parseTCPEvent_encode:
  assumes "tcpEvent_wf r"
  shows "parseTCPEvent (encodeTCPEvent r @ junk) = Inr r"
proof -
  let ?f0 = "le_bytes 8 (tc_CgroupID r)"
    and ?f1 = "le_bytes 8 (tc_TsNs r)"
    and ?f2 = "le_bytes 4 (tc_Saddr r)"
    and ?f3 = "le_bytes 4 (tc_Daddr r)"
    and ?f4 = "le_bytes 2 (tc_Sport r)"
    and ?f5 = "le_bytes 2 (tc_Dport r)"
    and ?f6 = "le_bytes 2 (tc_Family r)"
    and ?f7 = "le_bytes 2 (tc_Pad r)"
    and ?f8 = "le_bytes 4 (tc_OldState r)"
    and ?f9 = "le_bytes 4 (tc_NewState r)"
    and ?f10 = "tc_SaddrV6 r"
    and ?f11 = "tc_DaddrV6 r"
    and ?z = "junk"
  have len: "length (tc_SaddrV6 r) = 16" "length (tc_DaddrV6 r) = 16" using assms by (simp_all add: tcpEvent_wf_def)
  have data: "encodeTCPEvent r @ junk = ?f0 @ ?f1 @ ?f2 @ ?f3 @ ?f4 @ ?f5 @ ?f6 @ ?f7 @ ?f8 @ ?f9 @ ?f10 @ ?f11 @ ?z" by (simp add: encodeTCPEvent_def)
  note fields =
    at_field(1) [of 0 "[]" "tc_CgroupID r" "?f1 @ ?f2 @ ?f3 @ ?f4 @ ?f5 @ ?f6 @ ?f7 @ ?f8 @ ?f9 @ ?f10 @ ?f11 @ ?z"]
    at_field(1) [of 8 "?f0" "tc_TsNs r" "?f2 @ ?f3 @ ?f4 @ ?f5 @ ?f6 @ ?f7 @ ?f8 @ ?f9 @ ?f10 @ ?f11 @ ?z"]
    at_field(2) [of 16 "?f0 @ ?f1" "tc_Saddr r" "?f3 @ ?f4 @ ?f5 @ ?f6 @ ?f7 @ ?f8 @ ?f9 @ ?f10 @ ?f11 @ ?z"]
    at_field(2) [of 20 "?f0 @ ?f1 @ ?f2" "tc_Daddr r" "?f4 @ ?f5 @ ?f6 @ ?f7 @ ?f8 @ ?f9 @ ?f10 @ ?f11 @ ?z"]
    at_field(3) [of 24 "?f0 @ ?f1 @ ?f2 @ ?f3" "tc_Sport r" "?f5 @ ?f6 @ ?f7 @ ?f8 @ ?f9 @ ?f10 @ ?f11 @ ?z"]
    at_field(3) [of 26 "?f0 @ ?f1 @ ?f2 @ ?f3 @ ?f4" "tc_Dport r" "?f6 @ ?f7 @ ?f8 @ ?f9 @ ?f10 @ ?f11 @ ?z"]
    at_field(3) [of 28 "?f0 @ ?f1 @ ?f2 @ ?f3 @ ?f4 @ ?f5" "tc_Family r" "?f7 @ ?f8 @ ?f9 @ ?f10 @ ?f11 @ ?z"]
    at_field(3) [of 30 "?f0 @ ?f1 @ ?f2 @ ?f3 @ ?f4 @ ?f5 @ ?f6" "tc_Pad r" "?f8 @ ?f9 @ ?f10 @ ?f11 @ ?z"]
    at_field(2) [of 32 "?f0 @ ?f1 @ ?f2 @ ?f3 @ ?f4 @ ?f5 @ ?f6 @ ?f7" "tc_OldState r" "?f9 @ ?f10 @ ?f11 @ ?z"]
    at_field(2) [of 36 "?f0 @ ?f1 @ ?f2 @ ?f3 @ ?f4 @ ?f5 @ ?f6 @ ?f7 @ ?f8" "tc_NewState r" "?f10 @ ?f11 @ ?z"]
    at_field(5) [of 40 "?f0 @ ?f1 @ ?f2 @ ?f3 @ ?f4 @ ?f5 @ ?f6 @ ?f7 @ ?f8 @ ?f9" "tc_SaddrV6 r" 16 "?f11 @ ?z"]
    at_field(5) [of 56 "?f0 @ ?f1 @ ?f2 @ ?f3 @ ?f4 @ ?f5 @ ?f6 @ ?f7 @ ?f8 @ ?f9 @ ?f10" "tc_DaddrV6 r" 16 "?z"]
  show ?thesis unfolding data parseTCPEvent_def using fields len by simp
qed
interpretation tcp_rec: raw_record tcpEventSize parseTCPEvent encodeTCPEvent tcpEvent_wf
  by unfold_locales (fact parseTCPEvent_total, fact parseTCPEvent_encode,
      simp add: encodeTCPEvent_def tcpEvent_wf_def tcpEventSize_def)

end
