(* ===== verification/PollCollectors.thy ===== *)
theory PollCollectors
  imports ProcFs Lineage MetricRecords
begin

text \<open>
  The collectors that poll a kernel hash map and turn its counters into rates: CPU, memory and
  block I/O (pkg/collector/cpu.go, memory.go, io.go). The map iteration is an argument: the
  entries \<open>Next\<close> yields and whether it ended in an error. The locale \<open>poll_collector\<close> is what
  the three share: unresolvable cgroups are dropped and deleted from the kernel map, the rest is
  reported, and rates are taken against the previous poll.
\<close>

section \<open>Shared parts\<close>

datatype collect_error = IterError

record poll_world =
  pw_files :: files
  pw_resolve :: "u64 \<Rightarrow> ContainerInfo option"
  pw_now :: time
  pw_err :: bool

definition saturatingSub :: "u64 \<Rightarrow> u64 \<Rightarrow> u64" where
  "saturatingSub a b = (if a < b then 0 else a - b)"

definition saturatingSubU64 :: "u64 \<Rightarrow> u64 \<Rightarrow> u64" where
  "saturatingSubU64 a b = (if a < b then 0 else a - b)"

definition elapsed_since :: "time \<Rightarrow> time \<Rightarrow> rat" where
  "elapsed_since now prevAt =
     (let elapsed = duration_seconds (time_sub now prevAt) in if elapsed \<le> 0 then 1 else elapsed)"

lemma elapsed_pos: "0 < elapsed_since now prevAt"
  by (simp add: elapsed_since_def Let_def)

lemma saturatingSub_le: "saturatingSub a b \<le> a" "saturatingSubU64 a b \<le> a"
  by (simp_all add: saturatingSub_def saturatingSubU64_def word_sub_le)

lemma saturatingSub_exact: "b \<le> a \<Longrightarrow> unat (saturatingSub a b) = unat a - unat b"
  "b \<le> a \<Longrightarrow> unat (saturatingSubU64 a b) = unat a - unat b"
  by (simp_all add: saturatingSub_def saturatingSubU64_def unat_sub leD)

text \<open>The loop that rebuilds the previous-value map from the samples.\<close>

definition prev_map :: "('s \<Rightarrow> u64) \<Rightarrow> ('s \<Rightarrow> 'p) \<Rightarrow> 's list \<Rightarrow> (u64, 'p) gomap" where
  "prev_map sid proj samples = foldl (\<lambda>m s. AList.update (sid s) (proj s) m) [] samples"

lemma map_of_prev_map:
  "map_of (prev_map sid proj samples) c =
     map_option proj (List.find (\<lambda>s. sid s = c) (rev samples))"
  by (induction samples rule: rev_induct) (simp_all add: prev_map_def update_conv')

lemma list_all2_ids: "list_all2 (\<lambda>(cg, v) s. sid s = cg \<and> Q cg v s) xs ss \<Longrightarrow> map sid ss = map fst xs"
  by (induction xs ss rule: list_all2_induct) auto

locale poll_collector =
  fixes collect :: "poll_world \<Rightarrow> (u64 \<times> 'v) list \<Rightarrow> 'c \<Rightarrow> 'c \<times> (collect_error + 's list \<times> u64 list)"
    and prev :: "'c \<Rightarrow> u64 \<Rightarrow> 'p option"
    and prevTime :: "'c \<Rightarrow> time"
    and sid :: "'s \<Rightarrow> u64"
    and proj :: "'v \<Rightarrow> 'p"
    and rates :: "'s \<Rightarrow> 'r"
    and rate_of :: "rat \<Rightarrow> 'p option \<Rightarrow> 'v \<Rightarrow> 'r"
  assumes collect_err: "pw_err w \<Longrightarrow> collect w es c = (c, Inl IterError)"
    and collect_ok: "\<not> pw_err w \<Longrightarrow> \<exists>ss. snd (collect w es c) =
        Inr (ss, map fst (filter (\<lambda>(cg, _). pw_resolve w cg = None) es)) \<and>
        list_all2 (\<lambda>(cg, v) s. sid s = cg \<and> rates s = rate_of (elapsed_since (pw_now w) (prevTime c)) (prev c cg) v)
          (filter (\<lambda>(cg, _). pw_resolve w cg \<noteq> None) es) ss"
    and collect_prev: "\<not> pw_err w \<Longrightarrow> distinct (map fst es) \<Longrightarrow> prevTime (fst (collect w es c)) = pw_now w \<and>
        prev (fst (collect w es c)) cg =
          (if pw_resolve w cg = None then None else map_option proj (map_of es cg))"
begin

text \<open>The rate reported at the second of two polls is taken against the value seen at the first.\<close>

lemma two_polls:
  assumes "\<not> pw_err w1" "\<not> pw_err w2" and "distinct (map fst es1)" and "(cg, v1) \<in> set es1" "(cg, v2) \<in> set es2"
    and "pw_resolve w1 cg \<noteq> None" "pw_resolve w2 cg \<noteq> None"
  shows "\<exists>ss dead s. snd (collect w2 es2 (fst (collect w1 es1 c))) = Inr (ss, dead) \<and> s \<in> set ss \<and> sid s = cg \<and>
     rates s = rate_of (elapsed_since (pw_now w2) (pw_now w1)) (Some (proj v1)) v2"
proof -
  let ?c = "fst (collect w1 es1 c)"
  have p: "prev ?c cg = Some (proj v1)" "prevTime ?c = pw_now w1"
    using collect_prev [OF assms(1,3), of c cg] assms(3,4,6) by simp_all
  from collect_ok [OF assms(2), of es2 ?c] obtain ss where
    ss: "snd (collect w2 es2 ?c) = Inr (ss, map fst (filter (\<lambda>(cg, _). pw_resolve w2 cg = None) es2))"
    and all: "list_all2 (\<lambda>(cg, v) s. sid s = cg \<and> rates s = rate_of (elapsed_since (pw_now w2) (prevTime ?c)) (prev ?c cg) v)
          (filter (\<lambda>(cg, _). pw_resolve w2 cg \<noteq> None) es2) ss" by blast
  have "(cg, v2) \<in> set (filter (\<lambda>(cg, _). pw_resolve w2 cg \<noteq> None) es2)" using assms(5,7) by simp
  then obtain i where i: "i < length (filter (\<lambda>(cg, _). pw_resolve w2 cg \<noteq> None) es2)"
    "filter (\<lambda>(cg, _). pw_resolve w2 cg \<noteq> None) es2 ! i = (cg, v2)" by (metis in_set_conv_nth)
  from list_all2_nthD [OF all i(1)] i list_all2_lengthD [OF all] p
  have "ss ! i \<in> set ss" "sid (ss ! i) = cg"
    "rates (ss ! i) = rate_of (elapsed_since (pw_now w2) (pw_now w1)) (Some (proj v1)) v2" by simp_all
  with ss show ?thesis by blast
qed

lemma reported_ids:
  "snd (collect w es c) = Inr (ss, dead) \<Longrightarrow>
   map sid ss = map fst (filter (\<lambda>(cg, _). pw_resolve w cg \<noteq> None) es) \<and>
   dead = map fst (filter (\<lambda>(cg, _). pw_resolve w cg = None) es)"
proof -
  assume a: "snd (collect w es c) = Inr (ss, dead)"
  then have ne: "\<not> pw_err w" using collect_err [of w es c] by auto
  from collect_ok [OF ne, of es c] a have all: "list_all2 (\<lambda>(cg, v) s. sid s = cg \<and>
      rates s = rate_of (elapsed_since (pw_now w) (prevTime c)) (prev c cg) v)
      (filter (\<lambda>(cg, _). pw_resolve w cg \<noteq> None) es) ss"
    and d: "dead = map fst (filter (\<lambda>(cg, _). pw_resolve w cg = None) es)" by auto
  from all have "map sid ss = map fst (filter (\<lambda>(cg, _). pw_resolve w cg \<noteq> None) es)"
    by (rule list_all2_ids)
  with d show ?thesis by simp
qed

end

section \<open>CPU\<close>

record CpuStats =
  cs_TotalNs :: u64
  cs_RunqLatencyNs :: u64
  cs_CtxSwitches :: u64
  cs_ThreadCount :: u32

record CpuSample =
  cpu_CgroupID :: u64
  cpu_ContainerName :: string
  cpu_TotalNs :: u64
  cpu_RunqLatencyNs :: u64
  cpu_CtxSwitches :: u64
  cpu_ThreadCount :: u32
  cpu_CPUSeconds :: rat
  cpu_RunqLatencySeconds :: rat
  cpu_CtxSwitchesPerSec :: rat
  cpu_NUMALocalPct :: rat
  cpu_NUMARemotePct :: rat
  cpu_CollectedAt :: time

record CpuCollector =
  cc_prev :: "(u64, CpuStats) gomap"
  cc_prevAt :: time

definition NewCpuCollector :: CpuCollector where
  "NewCpuCollector = \<lparr>cc_prev = [], cc_prevAt = zero_time\<rparr>"

definition cpu_rates :: "rat \<Rightarrow> CpuStats option \<Rightarrow> CpuStats \<Rightarrow> rat \<times> rat \<times> rat" where
  "cpu_rates elapsed prev val = (case prev of
      None \<Rightarrow> (0, 0, 0)
    | Some p \<Rightarrow>
        let deltaNs = saturatingSub (cs_TotalNs val) (cs_TotalNs p);
            deltaRunq = saturatingSub (cs_RunqLatencyNs val) (cs_RunqLatencyNs p);
            deltaCtx = saturatingSub (cs_CtxSwitches val) (cs_CtxSwitches p)
        in (fdiv (float_of_u64 deltaNs) (10 ^ 9), fdiv (float_of_u64 deltaRunq) (10 ^ 9),
            fdiv (float_of_u64 deltaCtx) elapsed))"

definition clamp_threads :: "u32 \<Rightarrow> u32" where
  "clamp_threads n = (if 1000000 < n then 0 else n)"

definition cpu_sample :: "poll_world \<Rightarrow> CpuCollector \<Rightarrow> u64 \<times> CpuStats \<Rightarrow> CpuSample option" where
  "cpu_sample w c e = (case e of (cg, val) \<Rightarrow>
     case pw_resolve w cg of
       None \<Rightarrow> None
     | Some info \<Rightarrow>
         let elapsed = elapsed_since (pw_now w) (cc_prevAt c);
             (secs, runq, ctx) = cpu_rates elapsed (map_of (cc_prev c) cg) val;
             (local, remote) = (if ci_CgroupPath info \<noteq> [] then readNUMAStats (pw_files w) (ci_CgroupPath info) else (0, 0))
         in Some \<lparr>cpu_CgroupID = cg, cpu_ContainerName = ci_Name info, cpu_TotalNs = cs_TotalNs val,
              cpu_RunqLatencyNs = cs_RunqLatencyNs val, cpu_CtxSwitches = cs_CtxSwitches val,
              cpu_ThreadCount = clamp_threads (cs_ThreadCount val), cpu_CPUSeconds = secs,
              cpu_RunqLatencySeconds = runq, cpu_CtxSwitchesPerSec = ctx, cpu_NUMALocalPct = local,
              cpu_NUMARemotePct = remote, cpu_CollectedAt = pw_now w\<rparr>)"

definition cpu_prev_of :: "CpuSample \<Rightarrow> CpuStats" where
  "cpu_prev_of s = \<lparr>cs_TotalNs = cpu_TotalNs s, cs_RunqLatencyNs = cpu_RunqLatencyNs s,
     cs_CtxSwitches = cpu_CtxSwitches s, cs_ThreadCount = cpu_ThreadCount s\<rparr>"

definition Cpu_Collect ::
  "poll_world \<Rightarrow> (u64 \<times> CpuStats) list \<Rightarrow> CpuCollector \<Rightarrow> CpuCollector \<times> (collect_error + CpuSample list \<times> u64 list)" where
  "Cpu_Collect w entries c =
     (if pw_err w then (c, Inl IterError)
      else let samples = List.map_filter (cpu_sample w c) entries;
               toDelete = map fst (filter (\<lambda>(cg, _). pw_resolve w cg = None) entries)
           in (c\<lparr>cc_prev := prev_map cpu_CgroupID cpu_prev_of samples, cc_prevAt := pw_now w\<rparr>,
               Inr (samples, toDelete)))"

text \<open>Mapping the resolvable entries: what the three collectors' loops have in common.\<close>

lemma map_filter_resolved:
  assumes "\<And>cg v. f (cg, v) = None \<longleftrightarrow> res cg = None" and "\<And>cg v s. f (cg, v) = Some s \<Longrightarrow> P (cg, v) s"
  shows "list_all2 P (filter (\<lambda>(cg, _). res cg \<noteq> None) es) (List.map_filter f es)"
proof (induction es)
  case (Cons e es)
  obtain cg v where e: "e = (cg, v)" by fastforce
  show ?case
  proof (cases "f (cg, v)")
    case None
    then show ?thesis using Cons assms(1) [of cg v] e by (simp add: map_filter_simps)
  next
    case (Some s)
    then show ?thesis using Cons assms(1) [of cg v] assms(2) [OF Some] e by (simp add: map_filter_simps)
  qed
qed (simp add: map_filter_simps)

lemma prev_of_resolved:
  assumes res: "\<And>cg v. f (cg, v) = None \<longleftrightarrow> res cg = None"
    and out: "\<And>cg v s. f (cg, v) = Some s \<Longrightarrow> sid s = cg \<and> pr s = proj v"
    and d: "distinct (map fst es)"
  shows "map_of (prev_map sid pr (List.map_filter f es)) cg =
     (if res cg = None then None else map_option proj (map_of es cg))"
  using d
proof (induction es rule: rev_induct)
  case (snoc e es)
  obtain cg' v where e: "e = (cg', v)" by fastforce
  have app: "List.map_filter f (es @ [e]) = List.map_filter f es @ List.map_filter f [e]"
    by (simp add: List.map_filter_def)
  have new: "map_of es cg' = None" using snoc.prems e by (simp add: map_of_eq_None_iff)
  show ?case
  proof (cases "f (cg', v)")
    case None
    then have "res cg' = None" using res by blast
    then show ?thesis using snoc None e app new by (auto simp: map_filter_simps map_of_prev_map map_add_def split: option.splits)
  next
    case (Some s)
    then have "res cg' \<noteq> None" "sid s = cg'" "pr s = proj v" using res [of cg' v] out by auto
    then show ?thesis using snoc Some e app new
      by (auto simp: map_filter_simps map_of_prev_map map_add_def split: option.splits)
  qed
qed (simp add: map_filter_simps prev_map_def)

lemma cpu_sample_None: "cpu_sample w c (cg, v) = None \<longleftrightarrow> pw_resolve w cg = None"
  by (auto simp: cpu_sample_def Let_def split: option.splits prod.splits)

definition cpu_proj :: "CpuStats \<Rightarrow> CpuStats" where
  "cpu_proj v = v\<lparr>cs_ThreadCount := clamp_threads (cs_ThreadCount v)\<rparr>"

definition cpu_sample_rates :: "CpuSample \<Rightarrow> rat \<times> rat \<times> rat" where
  "cpu_sample_rates s = (cpu_CPUSeconds s, cpu_RunqLatencySeconds s, cpu_CtxSwitchesPerSec s)"

lemma cpu_sample_Some:
  "cpu_sample w c (cg, v) = Some s \<Longrightarrow> cpu_CgroupID s = cg \<and> cpu_prev_of s = cpu_proj v \<and>
   cpu_sample_rates s = cpu_rates (elapsed_since (pw_now w) (cc_prevAt c)) (map_of (cc_prev c) cg) v"
  by (auto simp: cpu_sample_def Let_def cpu_prev_of_def cpu_proj_def cpu_sample_rates_def split: option.splits prod.splits)

interpretation cpu: poll_collector Cpu_Collect "\<lambda>c. map_of (cc_prev c)" cc_prevAt cpu_CgroupID cpu_proj
  cpu_sample_rates cpu_rates
proof unfold_locales
  fix w :: poll_world and es c cg
  assume ne: "\<not> pw_err w"
  show "\<exists>ss. snd (Cpu_Collect w es c) = Inr (ss, map fst (filter (\<lambda>(cg, _). pw_resolve w cg = None) es)) \<and>
    list_all2 (\<lambda>(cg, v) s. cpu_CgroupID s = cg \<and> cpu_sample_rates s =
        cpu_rates (elapsed_since (pw_now w) (cc_prevAt c)) (map_of (cc_prev c) cg) v)
      (filter (\<lambda>(cg, _). pw_resolve w cg \<noteq> None) es) ss"
    using ne map_filter_resolved [of "cpu_sample w c" "pw_resolve w"
        "\<lambda>(cg, v) s. cpu_CgroupID s = cg \<and> cpu_sample_rates s =
           cpu_rates (elapsed_since (pw_now w) (cc_prevAt c)) (map_of (cc_prev c) cg) v" es, OF cpu_sample_None]
      cpu_sample_Some [of w c]
    by (simp add: Cpu_Collect_def Let_def)
  show "cc_prevAt (fst (Cpu_Collect w es c)) = pw_now w \<and> map_of (cc_prev (fst (Cpu_Collect w es c))) cg =
      (if pw_resolve w cg = None then None else map_option cpu_proj (map_of es cg))" if "distinct (map fst es)"
    using ne prev_of_resolved [of "cpu_sample w c" "pw_resolve w" cpu_CgroupID cpu_prev_of cpu_proj es cg,
        OF cpu_sample_None _ that] cpu_sample_Some
    by (simp add: Cpu_Collect_def Let_def)
qed (simp add: Cpu_Collect_def)

section \<open>Memory\<close>

record PfStats =
  pf_MinorFaults :: u64
  pf_MajorFaults :: u64

record MemSample =
  mem_CgroupID :: u64
  mem_ContainerName :: string
  mem_MinorFaults :: u64
  mem_MajorFaults :: u64
  mem_MinorPerSec :: rat
  mem_MajorPerSec :: rat
  mem_FaultsPerSec :: rat
  mem_MemoryBytes :: u64
  mem_MemoryLimitBytes :: u64
  mem_VirtBytes :: u64
  mem_PSSBytes :: u64
  mem_SharedBytes :: u64
  mem_PSISome :: rat
  mem_PSIFull :: rat
  mem_TLBMissRate :: rat
  mem_CollectedAt :: time

record OOMEvent =
  oom_Timestamp :: time
  oom_CgroupID :: u64
  oom_ContainerName :: string
  oom_VictimPID :: u32
  oom_OOMScoreAdj :: int
  oom_Pages :: u64
  oom_Comm :: string
  oom_MemoryBytes :: u64
  oom_MemoryLimitBytes :: u64
  oom_SwapBytes :: u64

record MemoryCollector =
  mc_prev :: "(u64, PfStats) gomap"
  mc_prevAt :: time
  mc_RichMem :: bool
  mc_oomEvents :: "OOMEvent list"

definition NewMemoryCollector :: MemoryCollector where
  "NewMemoryCollector = \<lparr>mc_prev = [], mc_prevAt = zero_time, mc_RichMem = False, mc_oomEvents = []\<rparr>"

definition mem_rates :: "rat \<Rightarrow> PfStats option \<Rightarrow> PfStats \<Rightarrow> rat \<times> rat \<times> rat" where
  "mem_rates elapsed prev val = (case prev of
      None \<Rightarrow> (0, 0, 0)
    | Some p \<Rightarrow>
        let minor = fdiv (float_of_u64 (saturatingSubU64 (pf_MinorFaults val) (pf_MinorFaults p))) elapsed;
            major = fdiv (float_of_u64 (saturatingSubU64 (pf_MajorFaults val) (pf_MajorFaults p))) elapsed
        in (minor, major, fadd minor major))"

definition mem_sample :: "poll_world \<Rightarrow> MemoryCollector \<Rightarrow> u64 \<times> PfStats \<Rightarrow> MemSample option" where
  "mem_sample w c e = (case e of (cg, val) \<Rightarrow>
     case pw_resolve w cg of
       None \<Rightarrow> None
     | Some info \<Rightarrow>
         let cgPath = ci_CgroupPath info; F = pw_files w;
             (minor, major, total) = mem_rates (elapsed_since (pw_now w) (mc_prevAt c)) (map_of (mc_prev c) cg) val;
             (psome, pfull) = (if cgPath \<noteq> [] then readMemoryPSI F cgPath else (0, 0));
             (virt, pss, shared) = (if cgPath \<noteq> [] \<and> mc_RichMem c then readProcMemStats F cgPath else (0, 0, 0))
         in Some \<lparr>mem_CgroupID = cg, mem_ContainerName = ci_Name info, mem_MinorFaults = pf_MinorFaults val,
              mem_MajorFaults = pf_MajorFaults val, mem_MinorPerSec = minor, mem_MajorPerSec = major,
              mem_FaultsPerSec = total,
              mem_MemoryBytes = (if cgPath \<noteq> [] then readCgroupUint64 F cgPath ''memory.current'' else 0),
              mem_MemoryLimitBytes = (if cgPath \<noteq> [] then readCgroupUint64 F cgPath ''memory.max'' else 0),
              mem_VirtBytes = virt, mem_PSSBytes = pss, mem_SharedBytes = shared, mem_PSISome = psome,
              mem_PSIFull = pfull, mem_TLBMissRate = minor, mem_CollectedAt = pw_now w\<rparr>)"

definition mem_prev_of :: "MemSample \<Rightarrow> PfStats" where
  "mem_prev_of s = \<lparr>pf_MinorFaults = mem_MinorFaults s, pf_MajorFaults = mem_MajorFaults s\<rparr>"

definition Memory_Collect ::
  "poll_world \<Rightarrow> (u64 \<times> PfStats) list \<Rightarrow> MemoryCollector \<Rightarrow> MemoryCollector \<times> (collect_error + MemSample list \<times> u64 list)" where
  "Memory_Collect w entries c =
     (if pw_err w then (c, Inl IterError)
      else let samples = List.map_filter (mem_sample w c) entries;
               toDelete = map fst (filter (\<lambda>(cg, _). pw_resolve w cg = None) entries)
           in (c\<lparr>mc_prev := prev_map mem_CgroupID mem_prev_of samples, mc_prevAt := pw_now w\<rparr>,
               Inr (samples, toDelete)))"

definition mem_sample_rates :: "MemSample \<Rightarrow> rat \<times> rat \<times> rat" where
  "mem_sample_rates s = (mem_MinorPerSec s, mem_MajorPerSec s, mem_FaultsPerSec s)"

lemma mem_sample_None: "mem_sample w c (cg, v) = None \<longleftrightarrow> pw_resolve w cg = None"
  by (auto simp: mem_sample_def Let_def split: option.splits prod.splits)

lemma mem_sample_Some:
  "mem_sample w c (cg, v) = Some s \<Longrightarrow> mem_CgroupID s = cg \<and> mem_prev_of s = v \<and>
   mem_sample_rates s = mem_rates (elapsed_since (pw_now w) (mc_prevAt c)) (map_of (mc_prev c) cg) v"
  by (auto simp: mem_sample_def Let_def mem_prev_of_def mem_sample_rates_def split: option.splits prod.splits)

interpretation mem: poll_collector Memory_Collect "\<lambda>c. map_of (mc_prev c)" mc_prevAt mem_CgroupID id
  mem_sample_rates mem_rates
proof unfold_locales
  fix w :: poll_world and es c cg
  assume ne: "\<not> pw_err w"
  show "\<exists>ss. snd (Memory_Collect w es c) = Inr (ss, map fst (filter (\<lambda>(cg, _). pw_resolve w cg = None) es)) \<and>
    list_all2 (\<lambda>(cg, v) s. mem_CgroupID s = cg \<and> mem_sample_rates s =
        mem_rates (elapsed_since (pw_now w) (mc_prevAt c)) (map_of (mc_prev c) cg) v)
      (filter (\<lambda>(cg, _). pw_resolve w cg \<noteq> None) es) ss"
    using ne map_filter_resolved [of "mem_sample w c" "pw_resolve w"
        "\<lambda>(cg, v) s. mem_CgroupID s = cg \<and> mem_sample_rates s =
           mem_rates (elapsed_since (pw_now w) (mc_prevAt c)) (map_of (mc_prev c) cg) v" es, OF mem_sample_None]
      mem_sample_Some [of w c]
    by (simp add: Memory_Collect_def Let_def)
  show "mc_prevAt (fst (Memory_Collect w es c)) = pw_now w \<and> map_of (mc_prev (fst (Memory_Collect w es c))) cg =
      (if pw_resolve w cg = None then None else map_option id (map_of es cg))" if "distinct (map fst es)"
    using ne prev_of_resolved [of "mem_sample w c" "pw_resolve w" mem_CgroupID mem_prev_of id es cg,
        OF mem_sample_None _ that] mem_sample_Some
    by (simp add: Memory_Collect_def Let_def)
qed (simp add: Memory_Collect_def)

section \<open>Out-of-memory kills\<close>

text \<open>\<^verbatim>\<open>commString\<close> of memory.go, the same scan as \<^verbatim>\<open>nullTermStr\<close>.\<close>

definition commString :: "bytes \<Rightarrow> string" where
  "commString bs = string_of_bytes (takeWhile (\<lambda>b. b \<noteq> 0) bs)"

definition oom_event :: "poll_world \<Rightarrow> oomEventRaw \<Rightarrow> OOMEvent" where
  "oom_event w raw =
     (let cg = or_CgroupID raw; name = container_name (pw_resolve w) cg;
          cgPath = (case pw_resolve w cg of None \<Rightarrow> [] | Some i \<Rightarrow> ci_CgroupPath i);
          rd = (\<lambda>f. if cgPath \<noteq> [] then readCgroupUint64 (pw_files w) cgPath f else 0)
      in \<lparr>oom_Timestamp = pw_now w, oom_CgroupID = cg, oom_ContainerName = name,
          oom_VictimPID = or_VictimPID raw, oom_OOMScoreAdj = sint (or_OOMScoreAdj raw),
          oom_Pages = or_Pages raw, oom_Comm = commString (or_Comm raw),
          oom_MemoryBytes = rd ''memory.current'', oom_MemoryLimitBytes = rd ''memory.max'',
          oom_SwapBytes = rd ''memory.swap.current''\<rparr>)"

text \<open>One iteration of the background reader on a sample that was read.\<close>

definition oom_reader_step :: "poll_world \<Rightarrow> bytes \<Rightarrow> MemoryCollector \<Rightarrow> MemoryCollector go" where
  "oom_reader_step w sample c =
     (if int (length sample) < oomEventSize then Inr c
      else go_bind (parseOOMEvent sample) (\<lambda>raw.
           Inr (c\<lparr>mc_oomEvents := mc_oomEvents c @ [oom_event w raw]\<rparr>)))"

definition ReadOOMEvents :: "MemoryCollector \<Rightarrow> MemoryCollector \<times> OOMEvent list" where
  "ReadOOMEvents c = (c\<lparr>mc_oomEvents := []\<rparr>, mc_oomEvents c)"

text \<open>
  The reader goroutine and the poll loop interleave: each step is either a sample read or a
  drain. \<open>oom_run\<close> returns the collector and everything drained, in order.
\<close>

datatype oom_step = OomSample poll_world bytes | OomDrain

fun oom_run :: "oom_step list \<Rightarrow> MemoryCollector \<Rightarrow> (MemoryCollector \<times> OOMEvent list) go" where
  "oom_run [] c = Inr (c, [])"
| "oom_run (OomSample w s # steps) c = go_bind (oom_reader_step w s c) (oom_run steps)"
| "oom_run (OomDrain # steps) c =
     (case ReadOOMEvents c of (c1, evs) \<Rightarrow>
        go_bind (oom_run steps c1) (\<lambda>(c2, rest). Inr (c2, evs @ rest)))"

fun oom_expected :: "oom_step list \<Rightarrow> OOMEvent list" where
  "oom_expected [] = []"
| "oom_expected (OomSample w s # steps) =
     (if int (length s) < oomEventSize then [] else (case parseOOMEvent s of Inr raw \<Rightarrow> [oom_event w raw] | Inl _ \<Rightarrow> []))
     @ oom_expected steps"
| "oom_expected (OomDrain # steps) = oom_expected steps"

lemma oom_run_total:
  "\<exists>c' out. oom_run steps c = Inr (c', out) \<and> out @ mc_oomEvents c' = mc_oomEvents c @ oom_expected steps"
proof (induction steps arbitrary: c)
  case (Cons st steps)
  show ?case
  proof (cases st)
    case (OomSample w s)
    show ?thesis
    proof (cases "int (length s) < oomEventSize")
      case True
      then show ?thesis using Cons [of c] OomSample by (simp add: oom_reader_step_def)
    next
      case False
      then obtain raw where "parseOOMEvent s = Inr raw" using parseOOMEvent_total [of s] by auto
      then show ?thesis
        using Cons [of "c\<lparr>mc_oomEvents := mc_oomEvents c @ [oom_event w raw]\<rparr>"] OomSample False
        by (simp add: oom_reader_step_def)
    qed
  next
    case OomDrain
    from Cons [of "c\<lparr>mc_oomEvents := []\<rparr>"] obtain c' out where
      "oom_run steps (c\<lparr>mc_oomEvents := []\<rparr>) = Inr (c', out)" "out @ mc_oomEvents c' = oom_expected steps" by auto
    then show ?thesis using OomDrain by (simp add: ReadOOMEvents_def)
  qed
qed simp

section \<open>Block I/O\<close>

record IoStats =
  io_st_ReadBytes :: u64
  io_st_WriteBytes :: u64
  io_st_ReadIOs :: u64
  io_st_WriteIOs :: u64
  io_st_ReadLatencyNs :: u64
  io_st_WriteLatencyNs :: u64

definition zero_IoStats :: IoStats where
  "zero_IoStats = \<lparr>io_st_ReadBytes = 0, io_st_WriteBytes = 0, io_st_ReadIOs = 0, io_st_WriteIOs = 0,
     io_st_ReadLatencyNs = 0, io_st_WriteLatencyNs = 0\<rparr>"

record IoSample =
  io_CgroupID :: u64
  io_ContainerName :: string
  io_ReadBytes :: u64
  io_WriteBytes :: u64
  io_ReadIOs :: u64
  io_WriteIOs :: u64
  io_ReadBytesPerSec :: rat
  io_WriteBytesPerSec :: rat
  io_ReadIOsPerSec :: rat
  io_WriteIOsPerSec :: rat
  io_AvgReadLatencyMs :: rat
  io_AvgWriteLatencyMs :: rat
  io_CollectedAt :: time

record IoCollector =
  ic_prev :: "(u64, IoStats) gomap"
  ic_prevAt :: time

definition NewIoCollector :: IoCollector where
  "NewIoCollector = \<lparr>ic_prev = [], ic_prevAt = zero_time\<rparr>"

definition io_rates :: "rat \<Rightarrow> IoStats option \<Rightarrow> IoStats \<Rightarrow> rat \<times> rat \<times> rat \<times> rat" where
  "io_rates elapsed prev val = (case prev of
      None \<Rightarrow> (0, 0, 0, 0)
    | Some p \<Rightarrow>
       (fdiv (float_of_u64 (saturatingSubU64 (io_st_ReadBytes val) (io_st_ReadBytes p))) elapsed,
        fdiv (float_of_u64 (saturatingSubU64 (io_st_WriteBytes val) (io_st_WriteBytes p))) elapsed,
        fdiv (float_of_u64 (saturatingSubU64 (io_st_ReadIOs val) (io_st_ReadIOs p))) elapsed,
        fdiv (float_of_u64 (saturatingSubU64 (io_st_WriteIOs val) (io_st_WriteIOs p))) elapsed))"

definition avg_latency_ms :: "u64 \<Rightarrow> u64 \<Rightarrow> rat" where
  "avg_latency_ms deltaLat deltaIOs =
     (if 0 < deltaIOs then fdiv (fdiv (float_of_u64 deltaLat) (float_of_u64 deltaIOs)) (10 ^ 6) else 0)"

definition io_latencies :: "IoStats option \<Rightarrow> IoStats \<Rightarrow> rat \<times> rat" where
  "io_latencies prev val = (case prev of
      None \<Rightarrow> (0, 0)
    | Some p \<Rightarrow>
       (avg_latency_ms (saturatingSubU64 (io_st_ReadLatencyNs val) (io_st_ReadLatencyNs p))
          (saturatingSubU64 (io_st_ReadIOs val) (io_st_ReadIOs p)),
        avg_latency_ms (saturatingSubU64 (io_st_WriteLatencyNs val) (io_st_WriteLatencyNs p))
          (saturatingSubU64 (io_st_WriteIOs val) (io_st_WriteIOs p))))"

definition io_sample :: "poll_world \<Rightarrow> IoCollector \<Rightarrow> u64 \<times> IoStats \<Rightarrow> IoSample option" where
  "io_sample w c e = (case e of (cg, val) \<Rightarrow>
     case pw_resolve w cg of
       None \<Rightarrow> None
     | Some info \<Rightarrow>
         let prev = map_of (ic_prev c) cg;
             (rb, wb, ri, wi) = io_rates (elapsed_since (pw_now w) (ic_prevAt c)) prev val;
             (rl, wl) = io_latencies prev val
         in Some \<lparr>io_CgroupID = cg, io_ContainerName = ci_Name info, io_ReadBytes = io_st_ReadBytes val,
              io_WriteBytes = io_st_WriteBytes val, io_ReadIOs = io_st_ReadIOs val, io_WriteIOs = io_st_WriteIOs val,
              io_ReadBytesPerSec = rb, io_WriteBytesPerSec = wb, io_ReadIOsPerSec = ri, io_WriteIOsPerSec = wi,
              io_AvgReadLatencyMs = rl, io_AvgWriteLatencyMs = wl, io_CollectedAt = pw_now w\<rparr>)"

text \<open>
  The previous snapshot takes the latencies from the loop variable \<^verbatim>\<open>val\<close>, which after the
  loop holds the value of the last entry iterated (the zero value when there was none).
\<close>

definition io_prev_of :: "IoStats \<Rightarrow> IoSample \<Rightarrow> IoStats" where
  "io_prev_of val s = \<lparr>io_st_ReadBytes = io_ReadBytes s, io_st_WriteBytes = io_WriteBytes s,
     io_st_ReadIOs = io_ReadIOs s, io_st_WriteIOs = io_WriteIOs s,
     io_st_ReadLatencyNs = io_st_ReadLatencyNs val, io_st_WriteLatencyNs = io_st_WriteLatencyNs val\<rparr>"

definition last_val :: "(u64 \<times> IoStats) list \<Rightarrow> IoStats" where
  "last_val entries = (if entries = [] then zero_IoStats else snd (last entries))"

definition Io_Collect ::
  "poll_world \<Rightarrow> (u64 \<times> IoStats) list \<Rightarrow> IoCollector \<Rightarrow> IoCollector \<times> (collect_error + IoSample list \<times> u64 list)" where
  "Io_Collect w entries c =
     (if pw_err w then (c, Inl IterError)
      else let samples = List.map_filter (io_sample w c) entries;
               toDelete = map fst (filter (\<lambda>(cg, _). pw_resolve w cg = None) entries)
           in (c\<lparr>ic_prev := prev_map io_CgroupID (io_prev_of (last_val entries)) samples, ic_prevAt := pw_now w\<rparr>,
               Inr (samples, toDelete)))"

text \<open>The part of the counters that throughput rates use.\<close>

definition io_counters :: "IoStats \<Rightarrow> IoStats" where
  "io_counters v = v\<lparr>io_st_ReadLatencyNs := 0, io_st_WriteLatencyNs := 0\<rparr>"

definition io_sample_rates :: "IoSample \<Rightarrow> rat \<times> rat \<times> rat \<times> rat" where
  "io_sample_rates s = (io_ReadBytesPerSec s, io_WriteBytesPerSec s, io_ReadIOsPerSec s, io_WriteIOsPerSec s)"

lemma io_rates_counters: "io_rates e (map_option io_counters p) v = io_rates e p v"
  by (simp add: io_rates_def io_counters_def split: option.splits)

lemma io_sample_None: "io_sample w c (cg, v) = None \<longleftrightarrow> pw_resolve w cg = None"
  by (auto simp: io_sample_def Let_def split: option.splits prod.splits)

lemma io_sample_Some:
  "io_sample w c (cg, v) = Some s \<Longrightarrow> io_CgroupID s = cg \<and>
   io_prev_of l s = v\<lparr>io_st_ReadLatencyNs := io_st_ReadLatencyNs l, io_st_WriteLatencyNs := io_st_WriteLatencyNs l\<rparr> \<and>
   io_sample_rates s = io_rates (elapsed_since (pw_now w) (ic_prevAt c)) (map_of (ic_prev c) cg) v \<and>
   (io_AvgReadLatencyMs s, io_AvgWriteLatencyMs s) = io_latencies (map_of (ic_prev c) cg) v"
  by (auto simp: io_sample_def Let_def io_prev_of_def io_sample_rates_def split: option.splits prod.splits)

lemma io_prev_after:
  assumes "\<not> pw_err w" and "distinct (map fst es)"
  shows "map_of (ic_prev (fst (Io_Collect w es c))) cg =
     (if pw_resolve w cg = None then None
      else map_option (\<lambda>v. v\<lparr>io_st_ReadLatencyNs := io_st_ReadLatencyNs (last_val es),
                             io_st_WriteLatencyNs := io_st_WriteLatencyNs (last_val es)\<rparr>) (map_of es cg))"
  using assms(1) prev_of_resolved [of "io_sample w c" "pw_resolve w" io_CgroupID "io_prev_of (last_val es)" _ es cg,
      OF io_sample_None _ assms(2)] io_sample_Some
  by (simp add: Io_Collect_def Let_def)

interpretation io: poll_collector Io_Collect "\<lambda>c cg. map_option io_counters (map_of (ic_prev c) cg)" ic_prevAt
  io_CgroupID io_counters io_sample_rates io_rates
proof unfold_locales
  fix w :: poll_world and es c cg
  assume ne: "\<not> pw_err w"
  show "\<exists>ss. snd (Io_Collect w es c) = Inr (ss, map fst (filter (\<lambda>(cg, _). pw_resolve w cg = None) es)) \<and>
    list_all2 (\<lambda>(cg, v) s. io_CgroupID s = cg \<and> io_sample_rates s =
        io_rates (elapsed_since (pw_now w) (ic_prevAt c)) (map_option io_counters (map_of (ic_prev c) cg)) v)
      (filter (\<lambda>(cg, _). pw_resolve w cg \<noteq> None) es) ss"
    unfolding io_rates_counters
    using ne map_filter_resolved [of "io_sample w c" "pw_resolve w"
        "\<lambda>(cg, v) s. io_CgroupID s = cg \<and> io_sample_rates s =
           io_rates (elapsed_since (pw_now w) (ic_prevAt c)) (map_of (ic_prev c) cg) v" es, OF io_sample_None]
      io_sample_Some [of w c]
    by (simp add: Io_Collect_def Let_def)
  show "ic_prevAt (fst (Io_Collect w es c)) = pw_now w \<and>
      map_option io_counters (map_of (ic_prev (fst (Io_Collect w es c))) cg) =
      (if pw_resolve w cg = None then None else map_option io_counters (map_of es cg))" if "distinct (map fst es)"
    using io_prev_after [OF ne that, of c cg] ne
    by (simp add: option.map_comp comp_def io_counters_def [abs_def]) (simp add: Io_Collect_def Let_def)
qed (simp add: Io_Collect_def)

record FileEvent =
  file_Timestamp :: time
  file_CgroupID :: u64
  file_ContainerName :: string
  file_PID :: u32
  file_Flags :: u32
  file_Comm :: string
  file_Filename :: string

definition file_event :: "poll_world \<Rightarrow> fileEventRaw \<Rightarrow> FileEvent" where
  "file_event w raw = \<lparr>file_Timestamp = pw_now w, file_CgroupID = fe_CgroupID raw,
     file_ContainerName = container_name (pw_resolve w) (fe_CgroupID raw), file_PID = fe_PID raw,
     file_Flags = fe_Flags raw, file_Comm = nullTermStr (fe_Comm raw), file_Filename = nullTermStr (fe_Filename raw)\<rparr>"

definition ReadFileEvents :: "poll_world \<Rightarrow> bytes list \<Rightarrow> FileEvent list go" where
  "ReadFileEvents w recs = drain_records fileEventSize parseFileEvent (file_event w) recs"

section \<open>Theorems\<close>

text \<open>
  A poll of the CPU, memory or I/O map reports exactly the cgroups the resolver knows, in the
  order of the iteration, marks exactly the others for deletion from the kernel map, and a failed
  iteration changes nothing and reports nothing.
\<close>

theorem poll_reports_resolvable:
  "(snd (Cpu_Collect w ces c) = Inr (css, dead) \<longrightarrow>
      map cpu_CgroupID css = map fst (filter (\<lambda>(cg, _). pw_resolve w cg \<noteq> None) ces) \<and>
      dead = map fst (filter (\<lambda>(cg, _). pw_resolve w cg = None) ces)) \<and>
   (snd (Memory_Collect w mes m) = Inr (mss, dead) \<longrightarrow>
      map mem_CgroupID mss = map fst (filter (\<lambda>(cg, _). pw_resolve w cg \<noteq> None) mes) \<and>
      dead = map fst (filter (\<lambda>(cg, _). pw_resolve w cg = None) mes)) \<and>
   (snd (Io_Collect w ies i) = Inr (iss, dead) \<longrightarrow>
      map io_CgroupID iss = map fst (filter (\<lambda>(cg, _). pw_resolve w cg \<noteq> None) ies) \<and>
      dead = map fst (filter (\<lambda>(cg, _). pw_resolve w cg = None) ies)) \<and>
   (pw_err w \<longrightarrow> Cpu_Collect w ces c = (c, Inl IterError) \<and> Memory_Collect w mes m = (m, Inl IterError) \<and>
      Io_Collect w ies i = (i, Inl IterError))"
  using cpu.reported_ids [of w ces c css dead] mem.reported_ids [of w mes m mss dead]
    io.reported_ids [of w ies i iss dead] cpu.collect_err [of w ces c] mem.collect_err [of w mes m]
    io.collect_err [of w ies i] by blast

definition quiet_world :: "time \<Rightarrow> poll_world" where
  "quiet_world now = \<lparr>pw_files = \<lambda>_. None, pw_resolve = (\<lambda>cg. if cg = 9 then None
     else Some \<lparr>ci_CgroupID = cg, ci_Name = ''web'', ci_CgroupPath = ''web'', ci_Namespace = [], ci_Pod = [], ci_Container = []\<rparr>),
     pw_now = now, pw_err = False\<rparr>"

theorem poll_reports_resolvable_witness:
  "Cpu_Collect ((quiet_world 5)\<lparr>pw_err := True\<rparr>) [] NewCpuCollector = (NewCpuCollector, Inl IterError)"
  using poll_reports_resolvable [of "(quiet_world 5)\<lparr>pw_err := True\<rparr>" "[]" NewCpuCollector "[]" "[]" "[]" NewMemoryCollector "[]" "[]" NewIoCollector "[]"]
  by simp

text \<open>
  C25: CPU rates are taken against the previous poll: for a cgroup seen and resolved at two
  consecutive polls, the reported CPU and run-queue seconds are the counter increases in seconds
  and the context-switch rate is the increase over the time between the polls; a counter that went
  down (a reset) counts as no increase.
\<close>

theorem cpu_rates_between_polls:
  assumes "\<not> pw_err w1" "\<not> pw_err w2" and "distinct (map fst es1)" and "(cg, v1) \<in> set es1" "(cg, v2) \<in> set es2"
    and "pw_resolve w1 cg \<noteq> None" "pw_resolve w2 cg \<noteq> None"
  shows "\<exists>ss dead s. snd (Cpu_Collect w2 es2 (fst (Cpu_Collect w1 es1 c))) = Inr (ss, dead) \<and> s \<in> set ss \<and>
     cpu_CgroupID s = cg \<and>
     cpu_CPUSeconds s = fdiv (float_of_u64 (saturatingSub (cs_TotalNs v2) (cs_TotalNs v1))) (10 ^ 9) \<and>
     cpu_RunqLatencySeconds s = fdiv (float_of_u64 (saturatingSub (cs_RunqLatencyNs v2) (cs_RunqLatencyNs v1))) (10 ^ 9) \<and>
     cpu_CtxSwitchesPerSec s =
       fdiv (float_of_u64 (saturatingSub (cs_CtxSwitches v2) (cs_CtxSwitches v1))) (elapsed_since (pw_now w2) (pw_now w1))"
  using cpu.two_polls [OF assms, of c] by (simp add: cpu_sample_rates_def cpu_rates_def cpu_proj_def Let_def)

definition sample_cpu :: "u64 \<Rightarrow> CpuStats" where
  "sample_cpu n = \<lparr>cs_TotalNs = n, cs_RunqLatencyNs = 0, cs_CtxSwitches = 0, cs_ThreadCount = 1\<rparr>"

theorem cpu_rates_between_polls_witness:
  "\<exists>ss dead s. snd (Cpu_Collect (quiet_world 2000000000) [(7, sample_cpu 3000000000)]
       (fst (Cpu_Collect (quiet_world 1000000000) [(7, sample_cpu 1000000000)] NewCpuCollector))) = Inr (ss, dead) \<and>
     s \<in> set ss \<and> cpu_CgroupID s = 7 \<and>
     cpu_CPUSeconds s = fdiv (float_of_u64 (saturatingSub 3000000000 1000000000)) (10 ^ 9)"
  using cpu_rates_between_polls [of "quiet_world 1000000000" "quiet_world 2000000000" "[(7, sample_cpu 1000000000)]" 7
      "sample_cpu 1000000000" "sample_cpu 3000000000" "[(7, sample_cpu 3000000000)]" NewCpuCollector]
  by (fastforce simp: quiet_world_def sample_cpu_def)

text \<open>
  Memory fault rates and I/O throughput are likewise the increase since the previous poll
  divided by the time between the polls.
\<close>

theorem mem_io_rates_between_polls:
  assumes "\<not> pw_err w1" "\<not> pw_err w2" and "pw_resolve w1 cg \<noteq> None" "pw_resolve w2 cg \<noteq> None"
    and "distinct (map fst ms1)" and "(cg, m1) \<in> set ms1" "(cg, m2) \<in> set ms2"
    and "distinct (map fst is1)" and "(cg, i1) \<in> set is1" "(cg, i2) \<in> set is2"
  shows "(\<exists>ss dead s. snd (Memory_Collect w2 ms2 (fst (Memory_Collect w1 ms1 c))) = Inr (ss, dead) \<and> s \<in> set ss \<and>
       mem_CgroupID s = cg \<and>
       mem_MinorPerSec s = fdiv (float_of_u64 (saturatingSubU64 (pf_MinorFaults m2) (pf_MinorFaults m1)))
         (elapsed_since (pw_now w2) (pw_now w1)) \<and>
       mem_FaultsPerSec s = fadd (mem_MinorPerSec s) (mem_MajorPerSec s)) \<and>
     (\<exists>ss dead s. snd (Io_Collect w2 is2 (fst (Io_Collect w1 is1 d))) = Inr (ss, dead) \<and> s \<in> set ss \<and>
       io_CgroupID s = cg \<and>
       io_ReadBytesPerSec s = fdiv (float_of_u64 (saturatingSubU64 (io_st_ReadBytes i2) (io_st_ReadBytes i1)))
         (elapsed_since (pw_now w2) (pw_now w1)) \<and>
       io_WriteBytesPerSec s = fdiv (float_of_u64 (saturatingSubU64 (io_st_WriteBytes i2) (io_st_WriteBytes i1)))
         (elapsed_since (pw_now w2) (pw_now w1)))"
proof (intro conjI)
  from mem.two_polls [OF assms(1,2,5,6,7,3,4), of c] show "\<exists>ss dead s.
     snd (Memory_Collect w2 ms2 (fst (Memory_Collect w1 ms1 c))) = Inr (ss, dead) \<and> s \<in> set ss \<and>
       mem_CgroupID s = cg \<and>
       mem_MinorPerSec s = fdiv (float_of_u64 (saturatingSubU64 (pf_MinorFaults m2) (pf_MinorFaults m1)))
         (elapsed_since (pw_now w2) (pw_now w1)) \<and>
       mem_FaultsPerSec s = fadd (mem_MinorPerSec s) (mem_MajorPerSec s)"
    by (simp add: mem_sample_rates_def mem_rates_def Let_def) metis
  from io.two_polls [OF assms(1,2,8,9,10,3,4), of d] show "\<exists>ss dead s.
     snd (Io_Collect w2 is2 (fst (Io_Collect w1 is1 d))) = Inr (ss, dead) \<and> s \<in> set ss \<and>
       io_CgroupID s = cg \<and>
       io_ReadBytesPerSec s = fdiv (float_of_u64 (saturatingSubU64 (io_st_ReadBytes i2) (io_st_ReadBytes i1)))
         (elapsed_since (pw_now w2) (pw_now w1)) \<and>
       io_WriteBytesPerSec s = fdiv (float_of_u64 (saturatingSubU64 (io_st_WriteBytes i2) (io_st_WriteBytes i1)))
         (elapsed_since (pw_now w2) (pw_now w1))"
    by (simp add: io_sample_rates_def io_rates_def io_counters_def Let_def) metis
qed

theorem mem_io_rates_between_polls_witness:
  "\<exists>ss dead s. snd (Memory_Collect (quiet_world 2) [(7, \<lparr>pf_MinorFaults = 9, pf_MajorFaults = 0\<rparr>)]
       (fst (Memory_Collect (quiet_world 1) [(7, \<lparr>pf_MinorFaults = 4, pf_MajorFaults = 0\<rparr>)] NewMemoryCollector))) = Inr (ss, dead) \<and>
     s \<in> set ss \<and> mem_CgroupID s = 7 \<and> mem_FaultsPerSec s = fadd (mem_MinorPerSec s) (mem_MajorPerSec s)"
  using mem_io_rates_between_polls [of "quiet_world 1" "quiet_world 2" 7 "[(7, \<lparr>pf_MinorFaults = 4, pf_MajorFaults = 0\<rparr>)]"
      "\<lparr>pf_MinorFaults = 4, pf_MajorFaults = 0\<rparr>" "\<lparr>pf_MinorFaults = 9, pf_MajorFaults = 0\<rparr>"
      "[(7, \<lparr>pf_MinorFaults = 9, pf_MajorFaults = 0\<rparr>)]" "[(7, zero_IoStats)]" zero_IoStats zero_IoStats
      "[(7, zero_IoStats)]" NewMemoryCollector NewIoCollector]
  by (fastforce simp: quiet_world_def)

text \<open>
  C33: The average I/O latency is not computed against the cgroup's own previous counter: after a
  poll, the next poll subtracts, for every cgroup, the latency counter of whichever entry was
  iterated last in the previous poll.
\<close>

theorem io_latency_against_last_entry:
  assumes "\<not> pw_err w1" "\<not> pw_err w2" and "distinct (map fst es1)" and "(cg, v1) \<in> set es1"
    and "pw_resolve w1 cg \<noteq> None" "pw_resolve w2 cg \<noteq> None"
  shows "\<exists>s. snd (Io_Collect w2 [(cg, v2)] (fst (Io_Collect w1 es1 c))) = Inr ([s], []) \<and>
     io_AvgReadLatencyMs s =
       avg_latency_ms (saturatingSubU64 (io_st_ReadLatencyNs v2) (io_st_ReadLatencyNs (snd (last es1))))
         (saturatingSubU64 (io_st_ReadIOs v2) (io_st_ReadIOs v1))"
proof -
  let ?c = "fst (Io_Collect w1 es1 c)"
  obtain s where s: "io_sample w2 ?c (cg, v2) = Some s"
    using assms(6) io_sample_None [of w2 ?c cg v2] by (cases "io_sample w2 ?c (cg, v2)") auto
  have "map_of es1 cg = Some v1" using assms(3,4) by simp
  moreover have "last_val es1 = snd (last es1)" using assms(4) by (auto simp: last_val_def)
  ultimately have p: "map_of (ic_prev ?c) cg =
      Some (v1\<lparr>io_st_ReadLatencyNs := io_st_ReadLatencyNs (snd (last es1)), io_st_WriteLatencyNs := io_st_WriteLatencyNs (snd (last es1))\<rparr>)"
    using io_prev_after [OF assms(1,3), of c cg] assms(5) by simp
  from io_sample_Some [OF s] p have "io_AvgReadLatencyMs s =
       avg_latency_ms (saturatingSubU64 (io_st_ReadLatencyNs v2) (io_st_ReadLatencyNs (snd (last es1))))
         (saturatingSubU64 (io_st_ReadIOs v2) (io_st_ReadIOs v1))"
    by (simp add: io_latencies_def)
  with s assms(2,6) show ?thesis by (simp add: Io_Collect_def Let_def map_filter_simps)
qed

theorem io_latency_against_last_entry_witness:
  "\<exists>s. snd (Io_Collect (quiet_world 2) [(7, zero_IoStats\<lparr>io_st_ReadIOs := 1, io_st_ReadLatencyNs := 6000000\<rparr>)]
       (fst (Io_Collect (quiet_world 1) [(7, zero_IoStats), (8, zero_IoStats\<lparr>io_st_ReadLatencyNs := 4000000\<rparr>)] NewIoCollector))) =
       Inr ([s], []) \<and> io_AvgReadLatencyMs s = avg_latency_ms (saturatingSubU64 6000000 4000000) (saturatingSubU64 1 0)"
  using io_latency_against_last_entry [of "quiet_world 1" "quiet_world 2"
      "[(7, zero_IoStats), (8, zero_IoStats\<lparr>io_st_ReadLatencyNs := 4000000\<rparr>)]" 7 zero_IoStats
      "zero_IoStats\<lparr>io_st_ReadIOs := 1, io_st_ReadLatencyNs := 6000000\<rparr>" NewIoCollector]
  by (simp add: quiet_world_def zero_IoStats_def)

text \<open>
  The out-of-memory reader and the poll loop exchange events without loss, duplication or
  reordering: for any interleaving of samples and drains nothing panics, and what was drained
  followed by what is still queued is the sequence of events of the full-size samples.
\<close>

theorem oom_events_exactly_once:
  "\<exists>c' out. oom_run steps NewMemoryCollector = Inr (c', out) \<and> out @ mc_oomEvents c' = oom_expected steps"
  using oom_run_total [of steps NewMemoryCollector] by (simp add: NewMemoryCollector_def)

text \<open>
  Every reported rate, average and percentage of the three collectors is non-negative.
\<close>

theorem poll_rates_nonneg:
  "(snd (Cpu_Collect w ces c) = Inr (css, dead) \<and> s \<in> set css \<longrightarrow>
      0 \<le> cpu_CPUSeconds s \<and> 0 \<le> cpu_RunqLatencySeconds s \<and> 0 \<le> cpu_CtxSwitchesPerSec s) \<and>
   (snd (Memory_Collect w mes m) = Inr (mss, dead) \<and> t \<in> set mss \<longrightarrow>
      0 \<le> mem_MinorPerSec t \<and> 0 \<le> mem_MajorPerSec t \<and> 0 \<le> mem_FaultsPerSec t)"
proof (intro conjI impI)
  have d: "0 \<le> fdiv (float_of_u64 x) (10 ^ 9)" "0 \<le> fdiv (float_of_u64 x) (elapsed_since a b)" for x a b
    using elapsed_pos [of a b] by (simp_all add: fdiv_nonneg)
  have cr: "case cpu_rates (elapsed_since a b) p v of (x, y, z) \<Rightarrow> 0 \<le> x \<and> 0 \<le> y \<and> 0 \<le> z" for a b p v
    by (simp add: cpu_rates_def d(2) fdiv_nonneg Let_def split: option.splits)
  assume "snd (Cpu_Collect w ces c) = Inr (css, dead) \<and> s \<in> set css"
  then obtain cg v where "cpu_sample w c (cg, v) = Some s"
    by (auto simp: Cpu_Collect_def Let_def mem_map_filter split: if_splits)
  from cpu_sample_Some [OF this] cr show "0 \<le> cpu_CPUSeconds s" "0 \<le> cpu_RunqLatencySeconds s" "0 \<le> cpu_CtxSwitchesPerSec s"
    by (metis (no_types, lifting) case_prod_conv cpu_sample_rates_def)+
next
  have d: "0 \<le> fdiv (float_of_u64 x) (elapsed_since a b)" for x a b
    using elapsed_pos [of a b] by (simp add: fdiv_nonneg)
  have mr: "case mem_rates (elapsed_since a b) p v of (x, y, z) \<Rightarrow> 0 \<le> x \<and> 0 \<le> y \<and> 0 \<le> z" for a b p v
    by (simp add: mem_rates_def d Let_def fadd_nonneg split: option.splits)
  assume "snd (Memory_Collect w mes m) = Inr (mss, dead) \<and> t \<in> set mss"
  then obtain cg v where "mem_sample w m (cg, v) = Some t"
    by (auto simp: Memory_Collect_def Let_def mem_map_filter split: if_splits)
  from mem_sample_Some [OF this] mr show "0 \<le> mem_MinorPerSec t" "0 \<le> mem_MajorPerSec t" "0 \<le> mem_FaultsPerSec t"
    by (metis (no_types, lifting) case_prod_conv mem_sample_rates_def)+
qed

theorem poll_rates_nonneg_witness:
  "\<exists>s dead. snd (Cpu_Collect (quiet_world 1) [(7, sample_cpu 3000000000)] NewCpuCollector) = Inr ([s], dead) \<and>
     0 \<le> cpu_CPUSeconds s \<and> 0 \<le> cpu_CtxSwitchesPerSec s"
proof -
  have "\<exists>s dead. snd (Cpu_Collect (quiet_world 1) [(7, sample_cpu 3000000000)] NewCpuCollector) = Inr ([s], dead)"
    by (simp add: Cpu_Collect_def cpu_sample_def quiet_world_def Let_def List.map_filter_simps split: prod.split)
  then show ?thesis using poll_rates_nonneg [of "quiet_world 1" "[(7, sample_cpu 3000000000)]" NewCpuCollector] by fastforce
qed

end
