(* ===== verification/NetSyscall.thy ===== *)
theory NetSyscall
  imports PollCollectors "HOL-Library.List_Lexorder" "HOL-Library.Char_ord"
begin

text \<open>
  TCP connections and system calls (pkg/collector/network.go, syscall.go, syscall_names.go): the
  flow list with its per-container summaries, the TCP event stream, and the per-container ranking
  of the most frequent system calls. Map iteration orders and \<^verbatim>\<open>sort.Slice\<close> are arguments.
\<close>

section \<open>TCP flows\<close>

definition tcpStateNames :: "(u32, string) gomap" where
  "tcpStateNames = [(1, ''ESTABLISHED''), (2, ''SYN_SENT''), (3, ''SYN_RECV''), (4, ''FIN_WAIT1''),
     (5, ''FIN_WAIT2''), (6, ''TIME_WAIT''), (7, ''CLOSE''), (8, ''CLOSE_WAIT''), (9, ''LAST_ACK''),
     (10, ''LISTEN''), (11, ''CLOSING''), (12, ''NEW_SYN_RECV'')]"

definition StateName :: "u32 \<Rightarrow> string" where
  "StateName state = (case map_of tcpStateNames state of
      Some s \<Rightarrow> s | None \<Rightarrow> ''UNKNOWN('' @ show_nat (unat state) @ '')'')"

text \<open>\<^verbatim>\<open>net.IP(b).String()\<close> of the four bytes of the number, least significant first.\<close>

definition uint32ToIP :: "u32 \<Rightarrow> string" where
  "uint32ToIP n = join_with CHR ''.'' (map (\<lambda>b. show_nat (unat b)) (le_bytes 4 n))"

record ConnKey =
  ck_CgroupID :: u64
  ck_Saddr :: u32
  ck_Daddr :: u32
  ck_Sport :: u16
  ck_Dport :: u16

record ConnStats =
  cn_State :: u32
  cn_Retransmits :: u32
  cn_FirstSeenNs :: u64
  cn_LastSeenNs :: u64

record ConnSample =
  fl_CgroupID :: u64
  fl_ContainerName :: string
  fl_Saddr :: string
  fl_Daddr :: string
  fl_Sport :: u16
  fl_Dport :: u16
  fl_State :: string
  fl_Retransmits :: u32
  fl_AgeSeconds :: rat

record NetSummary =
  ns_CgroupID :: u64
  ns_ContainerName :: string
  ns_Established :: int
  ns_TimeWait :: int
  ns_CloseWait :: int
  ns_Listen :: int
  ns_OtherStates :: int
  ns_ActiveFlows :: int
  ns_TotalRetransmits :: u32

text \<open>The age is the wall clock minus the first-seen counter, in 64-bit arithmetic.\<close>

definition flow_age :: "time \<Rightarrow> u64 \<Rightarrow> rat" where
  "flow_age now firstSeen =
     (if 0 < firstSeen then fdiv (float_of_int (sint (word_of_int now - firstSeen :: u64))) (10 ^ 9) else 0)"

definition flow_sample :: "poll_world \<Rightarrow> ConnKey \<times> ConnStats \<Rightarrow> ConnSample option" where
  "flow_sample w e = (case e of (key, val) \<Rightarrow>
     case pw_resolve w (ck_CgroupID key) of
       None \<Rightarrow> None
     | Some info \<Rightarrow> Some \<lparr>fl_CgroupID = ck_CgroupID key, fl_ContainerName = ci_Name info,
         fl_Saddr = uint32ToIP (ck_Saddr key), fl_Daddr = uint32ToIP (ck_Daddr key), fl_Sport = ck_Sport key,
         fl_Dport = ck_Dport key, fl_State = StateName (cn_State val), fl_Retransmits = cn_Retransmits val,
         fl_AgeSeconds = flow_age (pw_now w) (cn_FirstSeenNs val)\<rparr>)"

definition CollectFlows ::
  "poll_world \<Rightarrow> (ConnKey \<times> ConnStats) list \<Rightarrow> collect_error + ConnSample list \<times> ConnKey list" where
  "CollectFlows w entries =
     (if pw_err w then Inl IterError
      else Inr (List.map_filter (flow_sample w) entries,
                map fst (filter (\<lambda>(k, _). pw_resolve w (ck_CgroupID k) = None) entries)))"

definition new_summary :: "ConnSample \<Rightarrow> NetSummary" where
  "new_summary f = \<lparr>ns_CgroupID = fl_CgroupID f, ns_ContainerName = fl_ContainerName f, ns_Established = 0,
     ns_TimeWait = 0, ns_CloseWait = 0, ns_Listen = 0, ns_OtherStates = 0, ns_ActiveFlows = 0,
     ns_TotalRetransmits = 0\<rparr>"

definition add_flow :: "NetSummary \<Rightarrow> ConnSample \<Rightarrow> NetSummary" where
  "add_flow s f =
     (let s1 = s\<lparr>ns_ActiveFlows := ns_ActiveFlows s + 1, ns_TotalRetransmits := ns_TotalRetransmits s + fl_Retransmits f\<rparr> in
      if fl_State f = ''ESTABLISHED'' then s1\<lparr>ns_Established := ns_Established s1 + 1\<rparr>
      else if fl_State f = ''TIME_WAIT'' then s1\<lparr>ns_TimeWait := ns_TimeWait s1 + 1\<rparr>
      else if fl_State f = ''CLOSE_WAIT'' then s1\<lparr>ns_CloseWait := ns_CloseWait s1 + 1\<rparr>
      else if fl_State f = ''LISTEN'' then s1\<lparr>ns_Listen := ns_Listen s1 + 1\<rparr>
      else s1\<lparr>ns_OtherStates := ns_OtherStates s1 + 1\<rparr>)"

definition summarise :: "(u64, NetSummary) gomap \<Rightarrow> ConnSample \<Rightarrow> (u64, NetSummary) gomap" where
  "summarise m f =
     (let s = (case map_of m (fl_CgroupID f) of Some s \<Rightarrow> s | None \<Rightarrow> new_summary f)
      in AList.update (fl_CgroupID f) (add_flow s f) m)"

definition CollectSummary ::
  "((u64, NetSummary) gomap \<Rightarrow> (u64, NetSummary) gomap) \<Rightarrow> poll_world \<Rightarrow> (ConnKey \<times> ConnStats) list \<Rightarrow>
   collect_error + NetSummary list" where
  "CollectSummary ord w entries = (case CollectFlows w entries of
      Inl e \<Rightarrow> Inl e
    | Inr (flows, _) \<Rightarrow> Inr (map snd (ord (foldl summarise [] flows))))"

record TCPEvent =
  te_Timestamp :: time
  te_CgroupID :: u64
  te_ContainerName :: string
  te_Saddr :: string
  te_Daddr :: string
  te_Sport :: u16
  te_Dport :: u16
  te_Family :: u16
  te_OldState :: string
  te_NewState :: string

definition tcp_event :: "poll_world \<Rightarrow> tcpEventRaw \<Rightarrow> TCPEvent" where
  "tcp_event w raw = \<lparr>te_Timestamp = pw_now w, te_CgroupID = tc_CgroupID raw,
     te_ContainerName = container_name (pw_resolve w) (tc_CgroupID raw), te_Saddr = uint32ToIP (tc_Saddr raw),
     te_Daddr = uint32ToIP (tc_Daddr raw), te_Sport = tc_Sport raw, te_Dport = tc_Dport raw,
     te_Family = tc_Family raw, te_OldState = StateName (tc_OldState raw), te_NewState = StateName (tc_NewState raw)\<rparr>"

definition ReadTCPEvents :: "poll_world \<Rightarrow> bytes list \<Rightarrow> TCPEvent list go" where
  "ReadTCPEvents w recs = drain_records tcpEventSize parseTCPEvent (tcp_event w) recs"

section \<open>System calls\<close>

definition syscallNames :: "(u32, string) gomap" where
  "syscallNames =
    [(0, ''read''), (1, ''write''), (2, ''open''), (3, ''close''), (4, ''stat''), (5, ''fstat''),
     (6, ''lstat''), (7, ''poll''), (8, ''lseek''), (9, ''mmap''), (10, ''mprotect''),
     (11, ''munmap''), (12, ''brk''), (13, ''rt_sigaction''), (14, ''rt_sigprocmask''),
     (15, ''rt_sigreturn''), (16, ''ioctl''), (17, ''pread64''), (18, ''pwrite64''),
     (19, ''readv''), (20, ''writev''), (21, ''access''), (22, ''pipe''), (23, ''select''),
     (24, ''sched_yield''), (25, ''mremap''), (26, ''msync''), (27, ''mincore''), (28, ''madvise''),
     (32, ''dup''), (33, ''dup2''), (35, ''nanosleep''), (39, ''getpid''), (41, ''socket''),
     (42, ''connect''), (43, ''accept''), (44, ''sendto''), (45, ''recvfrom''), (46, ''sendmsg''),
     (47, ''recvmsg''), (48, ''shutdown''), (49, ''bind''), (50, ''listen''), (51, ''getsockname''),
     (52, ''getpeername''), (53, ''socketpair''), (54, ''setsockopt''), (55, ''getsockopt''),
     (56, ''clone''), (57, ''fork''), (58, ''vfork''), (59, ''execve''), (60, ''exit''),
     (61, ''wait4''), (62, ''kill''), (63, ''uname''), (72, ''fcntl''), (73, ''flock''),
     (74, ''fsync''), (75, ''fdatasync''), (76, ''truncate''), (77, ''ftruncate''),
     (78, ''getdents''), (79, ''getcwd''), (80, ''chdir''), (81, ''fchdir''), (82, ''rename''),
     (83, ''mkdir''), (84, ''rmdir''), (85, ''creat''), (86, ''link''), (87, ''unlink''),
     (88, ''symlink''), (89, ''readlink''), (90, ''chmod''), (91, ''fchmod''), (92, ''chown''),
     (93, ''fchown''), (94, ''lchown''), (95, ''umask''), (137, ''statfs''), (138, ''fstatfs''),
     (202, ''futex''), (228, ''clock_gettime''), (232, ''epoll_wait''), (233, ''epoll_ctl''),
     (257, ''openat''), (258, ''mkdirat''), (259, ''mknodat''), (260, ''fchownat''),
     (261, ''futimesat''), (262, ''newfstatat''), (263, ''unlinkat''), (264, ''renameat''),
     (265, ''linkat''), (266, ''symlinkat''), (267, ''readlinkat''), (268, ''fchmodat''),
     (269, ''faccessat''), (272, ''unshare''), (281, ''epoll_pwait''), (288, ''accept4''),
     (290, ''eventfd2''), (291, ''epoll_create1''), (292, ''dup3''), (293, ''pipe2'')]"

definition SyscallName :: "u32 \<Rightarrow> string" where
  "SyscallName n = (case map_of syscallNames n of Some s \<Rightarrow> s | None \<Rightarrow> ''sys_'' @ show_nat (unat n))"

record SyscallKey =
  sk_CgroupID :: u64
  sk_SyscallID :: u32

record SyscallStats =
  st_Count :: u64
  st_Failures :: u64
  st_TotalLatencyNs :: u64

record SyscallSummary =
  ss_ContainerName :: string
  ss_SyscallID :: u32
  ss_SyscallName :: string
  ss_Count :: u64
  ss_Failures :: u64
  ss_AvgLatencyMs :: rat
  ss_Rank :: int

definition syscall_summary :: "poll_world \<Rightarrow> SyscallKey \<times> SyscallStats \<Rightarrow> SyscallSummary option" where
  "syscall_summary w e = (case e of (key, stats) \<Rightarrow>
     case pw_resolve w (sk_CgroupID key) of
       None \<Rightarrow> None
     | Some info \<Rightarrow>
         let avgLat = (if 0 < st_Count stats
               then fdiv (fdiv (float_of_u64 (st_TotalLatencyNs stats)) (float_of_u64 (st_Count stats))) 1000000
               else 0)
         in Some \<lparr>ss_ContainerName = ci_Name info, ss_SyscallID = sk_SyscallID key,
              ss_SyscallName = SyscallName (sk_SyscallID key), ss_Count = st_Count stats,
              ss_Failures = st_Failures stats, ss_AvgLatencyMs = avgLat, ss_Rank = 0\<rparr>)"

definition Syscall_Collect ::
  "poll_world \<Rightarrow> (SyscallKey \<times> SyscallStats) list \<Rightarrow> collect_error + SyscallSummary list \<times> SyscallKey list" where
  "Syscall_Collect w entries =
     (if pw_err w then Inl IterError
      else Inr (List.map_filter (syscall_summary w) entries,
                map fst (filter (\<lambda>(k, _). pw_resolve w (sk_CgroupID k) = None) entries)))"

definition by_count :: "SyscallSummary \<Rightarrow> SyscallSummary \<Rightarrow> bool" where
  "by_count a b \<longleftrightarrow> ss_Count b < ss_Count a"

definition by_name_rank :: "SyscallSummary \<Rightarrow> SyscallSummary \<Rightarrow> bool" where
  "by_name_rank a b \<longleftrightarrow> (if ss_ContainerName a \<noteq> ss_ContainerName b
     then ss_ContainerName a < ss_ContainerName b else ss_Rank a < ss_Rank b)"

definition stamp_ranks :: "SyscallSummary list \<Rightarrow> SyscallSummary list" where
  "stamp_ranks es = map (\<lambda>i. (es ! i)\<lparr>ss_Rank := int i + 1\<rparr>) [0..<length es]"

definition top_entries :: "(SyscallSummary list \<Rightarrow> SyscallSummary list) \<Rightarrow> SyscallSummary list \<Rightarrow> SyscallSummary list" where
  "top_entries srt es = stamp_ranks (take 5 (srt es))"

definition CollectTop5PerContainer ::
  "((string, SyscallSummary list) gomap \<Rightarrow> (string, SyscallSummary list) gomap) \<Rightarrow>
   (SyscallSummary list \<Rightarrow> SyscallSummary list) \<Rightarrow> (SyscallSummary list \<Rightarrow> SyscallSummary list) \<Rightarrow>
   poll_world \<Rightarrow> (SyscallKey \<times> SyscallStats) list \<Rightarrow> collect_error + SyscallSummary list" where
  "CollectTop5PerContainer ord srt srt2 w entries = (case Syscall_Collect w entries of
      Inl e \<Rightarrow> Inl e
    | Inr (all, _) \<Rightarrow>
        let byContainer = group_by ss_ContainerName all;
            result = concat (map (\<lambda>(_, es). top_entries srt es) (ord byContainer))
        in Inr (srt2 result))"

record SlowSyscallSummary =
  sw_ContainerName :: string
  sw_PID :: u32
  sw_SyscallID :: u32
  sw_SyscallName :: string
  sw_LatencyMs :: rat
  sw_Comm :: string

definition slow_summary :: "poll_world \<Rightarrow> slowSyscallEventRaw \<Rightarrow> SlowSyscallSummary" where
  "slow_summary w raw = \<lparr>sw_ContainerName = container_name (pw_resolve w) (sl_CgroupID raw), sw_PID = sl_PID raw,
     sw_SyscallID = sl_SyscallID raw, sw_SyscallName = SyscallName (sl_SyscallID raw),
     sw_LatencyMs = fdiv (float_of_u64 (sl_LatencyNs raw)) 1000000, sw_Comm = commString (sl_Comm raw)\<rparr>"

definition ReadSlowEvents :: "poll_world \<Rightarrow> bytes list \<Rightarrow> SlowSyscallSummary list go" where
  "ReadSlowEvents w recs = drain_records slowSyscallEventSize parseSlowSyscallEvent (slow_summary w) recs"

section \<open>Summaries\<close>

definition state_total :: "NetSummary \<Rightarrow> int" where
  "state_total s = ns_Established s + ns_TimeWait s + ns_CloseWait s + ns_Listen s + ns_OtherStates s"

definition flows_of :: "u64 \<Rightarrow> ConnSample list \<Rightarrow> ConnSample list" where
  "flows_of cg flows = filter (\<lambda>f. fl_CgroupID f = cg) flows"

definition in_state :: "string \<Rightarrow> ConnSample list \<Rightarrow> int" where
  "in_state st flows = int (length (filter (\<lambda>f. fl_State f = st) flows))"

text \<open>What a summary says of the flows it was built from.\<close>

definition summary_of :: "ConnSample list \<Rightarrow> NetSummary \<Rightarrow> bool" where
  "summary_of fs s \<longleftrightarrow> ns_ActiveFlows s = int (length fs) \<and> state_total s = int (length fs) \<and>
     ns_TotalRetransmits s = sum_list (map fl_Retransmits fs) \<and>
     ns_Established s = in_state ''ESTABLISHED'' fs \<and> ns_TimeWait s = in_state ''TIME_WAIT'' fs \<and>
     ns_CloseWait s = in_state ''CLOSE_WAIT'' fs \<and> ns_Listen s = in_state ''LISTEN'' fs"

lemma summary_of_new: "summary_of [] (new_summary f)"
  by (simp add: summary_of_def new_summary_def state_total_def in_state_def)

lemma summary_of_add: "summary_of fs s \<Longrightarrow> summary_of (fs @ [f]) (add_flow s f)"
  by (simp add: summary_of_def add_flow_def Let_def state_total_def in_state_def)

lemma ids_add: "ns_CgroupID (add_flow s f) = ns_CgroupID s" "ns_ContainerName (add_flow s f) = ns_ContainerName s"
  by (simp_all add: add_flow_def Let_def)

lemma summarise_all:
  "distinct (keys (foldl summarise [] flows)) \<and> dom (map_of (foldl summarise [] flows)) = fl_CgroupID ` set flows \<and>
   (\<forall>cg s. map_of (foldl summarise [] flows) cg = Some s \<longrightarrow> ns_CgroupID s = cg \<and> summary_of (flows_of cg flows) s)"
proof (induction flows rule: rev_induct)
  case (snoc f flows)
  let ?m = "foldl summarise [] flows"
  let ?s = "case map_of ?m (fl_CgroupID f) of Some s \<Rightarrow> s | None \<Rightarrow> new_summary f"
  have none: "flows_of (fl_CgroupID f) flows = []" if "map_of ?m (fl_CgroupID f) = None"
    using that snoc by (force simp: flows_of_def filter_empty_conv)
  have s: "ns_CgroupID ?s = fl_CgroupID f" "summary_of (flows_of (fl_CgroupID f) flows) ?s"
    using snoc none summary_of_new [of f] by (auto simp: new_summary_def split: option.split)
  have eq: "foldl summarise [] (flows @ [f]) = AList.update (fl_CgroupID f) (add_flow ?s f) ?m"
    by (simp add: summarise_def Let_def)
  have fl: "flows_of cg (flows @ [f]) = flows_of cg flows @ (if fl_CgroupID f = cg then [f] else [])" for cg
    by (simp add: flows_of_def)
  have dom: "dom (map_of (AList.update (fl_CgroupID f) (add_flow ?s f) ?m)) = fl_CgroupID ` set (flows @ [f])"
    using snoc by (simp only: dom_update_alist) simp
  show ?case
    unfolding eq dom using snoc s summary_of_add [OF s(2), of f]
    by (simp add: distinct_update update_conv' fl ids_add)
qed simp

lemma by_count_weak: "strict_weak by_count"
  unfolding by_count_def [abs_def] by (rule strict_weak_key_desc)

section \<open>Ranking\<close>

lemma length_stamp [simp]: "length (stamp_ranks es) = length es"
  by (simp add: stamp_ranks_def)

lemma stamp_nth: "i < length es \<Longrightarrow> stamp_ranks es ! i = (es ! i)\<lparr>ss_Rank := int i + 1\<rparr>"
  by (simp add: stamp_ranks_def)

lemma ranks_stamp: "map ss_Rank (stamp_ranks es) = map (\<lambda>i. int i + 1) [0..<length es]"
  by (simp add: stamp_ranks_def comp_def)

lemma stamp_names: "s \<in> set (stamp_ranks es) \<Longrightarrow> \<exists>e \<in> set es. ss_ContainerName s = ss_ContainerName e"
  by (force simp: stamp_ranks_def)

lemma sorted_ranks: "sorted (map ss_Rank (stamp_ranks es)) \<and> distinct (map ss_Rank (stamp_ranks es))"
  by (simp add: ranks_stamp sorted_iff_nth_mono distinct_map inj_on_def)

lemma top_entries_name:
  assumes "is_sort by_count srt" and "\<forall>e \<in> set es. ss_ContainerName e = n"
  shows "\<forall>s \<in> set (top_entries srt es). ss_ContainerName s = n"
  using stamp_names assms is_sort_set [OF assms(1), of es] unfolding top_entries_def
  by (metis in_set_takeD)

lemma filter_concat_groups:
  assumes "distinct (keys m)" and "\<And>k es s. (k, es) \<in> set m \<Longrightarrow> s \<in> set (g es) \<Longrightarrow> h s = k"
  shows "filter (\<lambda>s. h s = n) (concat (map (\<lambda>(_, es). g es) m)) = (case map_of m n of None \<Rightarrow> [] | Some es \<Rightarrow> g es)"
  using assms
proof (induction m)
  case (Cons x m)
  obtain k es where x: "x = (k, es)" by fastforce
  have all: "\<forall>s \<in> set (g es). h s = k" using Cons.prems(2) x by auto
  have IH: "filter (\<lambda>s. h s = n) (concat (map (\<lambda>(_, es). g es) m)) = (case map_of m n of None \<Rightarrow> [] | Some es \<Rightarrow> g es)"
    using Cons by (intro Cons.IH) auto
  show ?case
  proof (cases "k = n")
    case True
    then have "map_of m n = None" using Cons.prems(1) x by (simp add: map_of_eq_None_iff)
    then show ?thesis using True all IH x by (simp add: filter_id_conv)
  next
    case False
    then have "filter (\<lambda>s. h s = n) (g es) = []" using all by (simp add: filter_empty_conv)
    then show ?thesis using False IH x by simp
  qed
qed simp

lemma map_of_mset: "distinct (keys m) \<Longrightarrow> mset o' = mset m \<Longrightarrow> distinct (keys o') \<and> map_of o' = map_of m"
  by (metis map_of_inject_set mset_eq_imp_distinct_iff mset_map set_mset_mset)

text \<open>The final sort puts each container's entries in rank order.\<close>

lemma sorted_by_rank:
  assumes "is_sort by_name_rank srt2"
  shows "sorted (map ss_Rank (filter (\<lambda>s. ss_ContainerName s = n) (srt2 xs)))"
proof -
  have "sorted_wrt (\<lambda>a b. \<not> by_name_rank b a) (filter (\<lambda>s. ss_ContainerName s = n) (srt2 xs))"
    using is_sort_sorted [OF assms, of xs] by (rule sorted_wrt_filter)
  then show ?thesis
    unfolding sorted_map by (rule sorted_wrt_mono_rel [rotated]) (auto simp: by_name_rank_def split: if_splits)
qed

section \<open>Theorems\<close>

text \<open>
  C31: Per-container TCP summaries account for every flow: there is one summary for each cgroup
  with a flow and no other; its active-flow count is the number of that cgroup's flows and equals
  the sum of its state counters; each named state counter counts the flows in that state; and its
  retransmit total is the sum of the flows' retransmits modulo \<open>2 ^ 32\<close>, in whatever order the
  summaries are returned.
\<close>

theorem CollectSummary_accounts:
  assumes "CollectFlows w entries = Inr (flows, dead)" and "CollectSummary ord w entries = Inr ss"
    and "\<forall>m. mset (ord m) = mset m"
  shows "distinct (map ns_CgroupID ss) \<and> set (map ns_CgroupID ss) = fl_CgroupID ` set flows \<and>
     (\<forall>s \<in> set ss. summary_of (flows_of (ns_CgroupID s) flows) s)"
proof -
  let ?m = "foldl summarise [] flows"
  note all = summarise_all [of flows]
  have o: "distinct (keys (ord ?m))" "map_of (ord ?m) = map_of ?m"
    using map_of_mset [of ?m "ord ?m"] all assms(3) by auto
  have ss: "ss = map snd (ord ?m)" using assms(1,2) by (simp add: CollectSummary_def)
  have ent: "ns_CgroupID s = cg \<and> summary_of (flows_of cg flows) s" if "(cg, s) \<in> set (ord ?m)" for cg s
  proof -
    have "map_of (ord ?m) cg = Some s" using that o(1) by simp
    then have "map_of ?m cg = Some s" unfolding o(2) .
    then show ?thesis using all by blast
  qed
  then have ids: "map ns_CgroupID ss = keys (ord ?m)" unfolding ss by (auto simp: comp_def)
  moreover have "set (keys (ord ?m)) = fl_CgroupID ` set flows"
    using all o(2) by (metis dom_map_of_conv_image_fst list.set_map)
  moreover have "\<forall>s \<in> set ss. summary_of (flows_of (ns_CgroupID s) flows) s" using ent unfolding ss by auto
  ultimately show ?thesis using o(1) by (simp only: simp_thms)
qed

definition sample_conn :: "ConnKey \<times> ConnStats" where
  "sample_conn = (\<lparr>ck_CgroupID = 7, ck_Saddr = 1, ck_Daddr = 2, ck_Sport = 80, ck_Dport = 9\<rparr>,
     \<lparr>cn_State = 1, cn_Retransmits = 3, cn_FirstSeenNs = 0, cn_LastSeenNs = 0\<rparr>)"

theorem CollectSummary_accounts_witness:
  "\<exists>flows dead ss. CollectFlows (quiet_world 5) [sample_conn, sample_conn] = Inr (flows, dead) \<and>
     CollectSummary id (quiet_world 5) [sample_conn, sample_conn] = Inr ss \<and>
     (\<forall>s \<in> set ss. summary_of (flows_of (ns_CgroupID s) flows) s)"
proof -
  let ?es = "[sample_conn, sample_conn]"
  obtain flows dead where f: "CollectFlows (quiet_world 5) ?es = Inr (flows, dead)"
    by (simp add: CollectFlows_def quiet_world_def)
  then obtain ss where s: "CollectSummary id (quiet_world 5) ?es = Inr ss" by (simp add: CollectSummary_def)
  from CollectSummary_accounts [OF f s] have "\<forall>s \<in> set ss. summary_of (flows_of (ns_CgroupID s) flows) s" by simp
  with f s show ?thesis by blast
qed

text \<open>
  Ranking: what the grouping, the two sorts and the cut to five entries make of any list of summaries. For
  every container it holds its most frequent entries with ranks 1, 2, ..., and the whole is in the order of
  the names and ranks.
\<close>

definition ranked :: "((string, SyscallSummary list) gomap \<Rightarrow> (string, SyscallSummary list) gomap) \<Rightarrow>
   (SyscallSummary list \<Rightarrow> SyscallSummary list) \<Rightarrow> (SyscallSummary list \<Rightarrow> SyscallSummary list) \<Rightarrow> SyscallSummary list \<Rightarrow> SyscallSummary list" where
  "ranked ord srt srt2 all = srt2 (concat (map (\<lambda>(_, es). top_entries srt es) (ord (group_by ss_ContainerName all))))"

lemma ranked_groups:
  assumes "is_sort by_count srt" and "\<forall>m. mset (ord m) = mset m"
  shows "filter (\<lambda>s. ss_ContainerName s = n) (concat (map (\<lambda>(_, es). top_entries srt es) (ord (group_by ss_ContainerName all)))) =
    top_entries srt (filter (\<lambda>s. ss_ContainerName s = n) all)"
proof -
  let ?es = "filter (\<lambda>s. ss_ContainerName s = n) all"
  let ?g = "group_by ss_ContainerName all"
  have o: "distinct (keys (ord ?g))" "map_of (ord ?g) = map_of ?g"
    using map_of_mset [OF keys_group_by(1) [of ss_ContainerName all], of "ord ?g"] assms(2) by (simp_all only: simp_thms)
  have nm: "ss_ContainerName s = k" if "(k, es) \<in> set (ord ?g)" "s \<in> set (top_entries srt es)" for k es s
  proof -
    have "set (ord ?g) = set ?g" using assms(2) by (intro mset_eq_setD) blast
    with that(1) have "(k, es) \<in> set ?g" by blast
    from mem_group_by [OF this] have "\<forall>e \<in> set es. ss_ContainerName e = k" by simp
    from top_entries_name [OF assms(1) this] that(2) show ?thesis by blast
  qed
  have "filter (\<lambda>s. ss_ContainerName s = n) (concat (map (\<lambda>(_, es). top_entries srt es) (ord ?g))) =
      (case map_of ?g n of None \<Rightarrow> [] | Some es \<Rightarrow> top_entries srt es)"
    using filter_concat_groups [OF o(1), of "top_entries srt" ss_ContainerName n] nm o(2) by simp
  also have "\<dots> = top_entries srt ?es"
  proof (cases "map_of ?g n")
    case None
    then have "?es = []" using keys_group_by(2) [of ss_ContainerName all] by (force simp: filter_empty_conv)
    then show ?thesis using None is_sort_length [OF assms(1), of "[]"] by (simp add: top_entries_def stamp_ranks_def)
  next
    case (Some es)
    then show ?thesis using mem_group_by [OF map_of_SomeD [OF Some]] by simp
  qed
  finally show ?thesis .
qed

lemma ranked_container:
  assumes "is_sort by_count srt" and "is_sort by_name_rank srt2" and "\<forall>m. mset (ord m) = mset m"
  shows "filter (\<lambda>s. ss_ContainerName s = n) (ranked ord srt srt2 all) = top_entries srt (filter (\<lambda>s. ss_ContainerName s = n) all)"
proof -
  let ?r = "concat (map (\<lambda>(_, es). top_entries srt es) (ord (group_by ss_ContainerName all)))"
  let ?f = "filter (\<lambda>s. ss_ContainerName s = n) (srt2 ?r)" and ?t = "top_entries srt (filter (\<lambda>s. ss_ContainerName s = n) all)"
  have "mset ?f = filter_mset (\<lambda>s. ss_ContainerName s = n) (mset ?r)"
    unfolding mset_filter is_sort_mset [OF assms(2)] ..
  also have "\<dots> = mset ?t" unfolding mset_filter [symmetric] ranked_groups [OF assms(1,3)] ..
  finally have ms: "mset ?f = mset ?t" .
  have d: "distinct (map ss_Rank ?t)" "sorted (map ss_Rank ?t)"
    using sorted_ranks by (simp_all add: top_entries_def)
  have "mset (map ss_Rank ?f) = mset (map ss_Rank ?t)" unfolding mset_map ms ..
  then have "distinct (map ss_Rank ?f)" using d(1) mset_eq_imp_distinct_iff by blast
  moreover have "inj_on ss_Rank (set ?f \<union> set ?t)"
    using d(1) mset_eq_setD [OF ms] by (simp add: distinct_map)
  ultimately show ?thesis
    using map_sorted_distinct_set_unique [of ss_Rank ?f ?t] sorted_by_rank [OF assms(2), of n ?r]
      d mset_eq_setD [OF ms] by (simp add: ranked_def)
qed

lemma ranked_order:
  assumes "is_sort by_name_rank srt2"
  shows "sorted_wrt (\<lambda>a b. ss_ContainerName a < ss_ContainerName b \<or> ss_ContainerName a = ss_ContainerName b \<and> ss_Rank a \<le> ss_Rank b) (ranked ord srt srt2 all)"
  using is_sort_sorted [OF assms] unfolding ranked_def
  by (rule sorted_wrt_mono_rel [rotated]) (auto simp: by_name_rank_def not_less order_le_less split: if_splits)

lemma top_entries_best:
  assumes "is_sort by_count srt"
  shows "sorted_wrt (\<lambda>a b. ss_Count b \<le> ss_Count a) (top_entries srt es)"
    and "\<forall>a \<in> set (take 5 (srt es)). \<forall>b \<in> set (drop 5 (srt es)). ss_Count b \<le> ss_Count a"
proof -
  have srt: "sorted_wrt (\<lambda>a b. ss_Count b \<le> ss_Count a) (srt es)"
    using is_sort_sorted [OF assms, of es] by (simp add: by_count_def not_less)
  then have "sorted_wrt (\<lambda>a b. ss_Count b \<le> ss_Count a) (take 5 (srt es))" by (rule sorted_wrt_take)
  then show "sorted_wrt (\<lambda>a b. ss_Count b \<le> ss_Count a) (top_entries srt es)"
    unfolding top_entries_def by (simp add: sorted_wrt_iff_nth_less stamp_nth)
  show "\<forall>a \<in> set (take 5 (srt es)). \<forall>b \<in> set (drop 5 (srt es)). ss_Count b \<le> ss_Count a"
    using srt by (metis append_take_drop_id sorted_wrt_append)
qed

text \<open>
  C26: The syscall ranking: for every container the result lists its at most five most frequent syscalls
  with ranks 1, 2, ...; they are sorted by decreasing count and every syscall left out is at most as
  frequent as each one listed; no container is dropped. The whole result is ordered by container name, and
  by rank within a container.
\<close>

theorem CollectTop5_ranking:
  assumes "is_sort by_count srt" and "is_sort by_name_rank srt2" and "\<forall>m. mset (ord m) = mset m"
    and "Syscall_Collect w entries = Inr (all, dead)" and "CollectTop5PerContainer ord srt srt2 w entries = Inr res"
  shows "filter (\<lambda>s. ss_ContainerName s = n) res = stamp_ranks (take 5 (srt (filter (\<lambda>s. ss_ContainerName s = n) all))) \<and>
     sorted_wrt (\<lambda>a b. ss_Count b \<le> ss_Count a) (filter (\<lambda>s. ss_ContainerName s = n) res) \<and>
     (\<forall>a \<in> set (take 5 (srt (filter (\<lambda>s. ss_ContainerName s = n) all))).
        \<forall>b \<in> set (drop 5 (srt (filter (\<lambda>s. ss_ContainerName s = n) all))). ss_Count b \<le> ss_Count a) \<and>
     sorted_wrt (\<lambda>a b. ss_ContainerName a < ss_ContainerName b \<or> ss_ContainerName a = ss_ContainerName b \<and> ss_Rank a \<le> ss_Rank b) res"
proof -
  have res: "res = ranked ord srt srt2 all" using assms(4,5) by (simp add: CollectTop5PerContainer_def ranked_def Let_def)
  have eq: "filter (\<lambda>s. ss_ContainerName s = n) res = top_entries srt (filter (\<lambda>s. ss_ContainerName s = n) all)"
    unfolding res by (rule ranked_container [OF assms(1-3)])
  show ?thesis unfolding eq using top_entries_best [OF assms(1)] ranked_order [OF assms(2), of ord srt all]
    by (simp add: res) (simp add: top_entries_def)
qed

lemma by_name_rank_weak: "strict_weak by_name_rank"
proof -
  have "\<not> by_name_rank b a" if "by_name_rank a b" for a b
    using that by (auto simp: by_name_rank_def split: if_splits)
  moreover have "\<not> by_name_rank c a" if "\<not> by_name_rank b a" "\<not> by_name_rank c b" for a b c
  proof -
    have "ss_ContainerName a < ss_ContainerName b \<or> ss_ContainerName a = ss_ContainerName b \<and> ss_Rank a \<le> ss_Rank b"
      "ss_ContainerName b < ss_ContainerName c \<or> ss_ContainerName b = ss_ContainerName c \<and> ss_Rank b \<le> ss_Rank c"
      using that by (auto simp: by_name_rank_def not_less order_le_less split: if_splits)
    then have "ss_ContainerName a < ss_ContainerName c \<or> ss_ContainerName a = ss_ContainerName c \<and> ss_Rank a \<le> ss_Rank c"
      by (metis order.trans order.strict_trans)
    then show ?thesis by (auto simp: by_name_rank_def split: if_splits)
  qed
  ultimately show ?thesis unfolding strict_weak_def by blast
qed

definition sample_syscall :: "SyscallKey \<times> SyscallStats" where
  "sample_syscall = (\<lparr>sk_CgroupID = 7, sk_SyscallID = 1\<rparr>, \<lparr>st_Count = 5, st_Failures = 0, st_TotalLatencyNs = 50\<rparr>)"

theorem CollectTop5_ranking_witness:
  "\<exists>all dead res. Syscall_Collect (quiet_world 5) [sample_syscall] = Inr (all, dead) \<and>
     CollectTop5PerContainer id (go_insertion_sort by_count) (go_insertion_sort by_name_rank) (quiet_world 5) [sample_syscall] = Inr res \<and>
     filter (\<lambda>s. ss_ContainerName s = ''web'') res =
       stamp_ranks (take 5 (go_insertion_sort by_count (filter (\<lambda>s. ss_ContainerName s = ''web'') all))) \<and>
     sorted_wrt (\<lambda>a b. ss_ContainerName a < ss_ContainerName b \<or> ss_ContainerName a = ss_ContainerName b \<and> ss_Rank a \<le> ss_Rank b) res"
proof -
  obtain all dead where a: "Syscall_Collect (quiet_world 5) [sample_syscall] = Inr (all, dead)"
    by (simp add: Syscall_Collect_def quiet_world_def)
  then obtain res where r: "CollectTop5PerContainer id (go_insertion_sort by_count) (go_insertion_sort by_name_rank)
      (quiet_world 5) [sample_syscall] = Inr res" by (simp add: CollectTop5PerContainer_def Let_def)
  have "\<forall>m. mset (id m) = mset m" by simp
  from CollectTop5_ranking [OF is_sort_insertion [OF by_count_weak] is_sort_insertion [OF by_name_rank_weak] this a r, of "''web''"]
    a r show ?thesis by blast
qed

text \<open>
  Displayed addresses identify the address: the dotted form splits at its dots into the four
  decimal bytes of the number, least significant first, so distinct addresses print differently.
\<close>

theorem uint32ToIP_identifies:
  "split_on CHR ''.'' (uint32ToIP n) = map (\<lambda>b. show_nat (unat b)) (le_bytes 4 n) \<and>
   (uint32ToIP n = uint32ToIP m \<longleftrightarrow> n = m)"
proof -
  have dot: "CHR ''.'' \<notin> set (show_nat k)" for k
    using show_nat_all_digits [of k] by (auto simp: is_digit_def digit_val_def)
  have sp: "split_on CHR ''.'' (uint32ToIP k) = map (\<lambda>b. show_nat (unat b)) (le_bytes 4 k)" for k :: u32
    unfolding uint32ToIP_def using dot by (intro split_join) (auto simp: le_bytes_def)
  have "n = m" if "uint32ToIP n = uint32ToIP m"
  proof -
    have "map (\<lambda>b. show_nat (unat b)) (le_bytes 4 n) = map (\<lambda>b. show_nat (unat b)) (le_bytes 4 m)"
      using sp [of n] sp [of m] that by simp
    moreover have "inj (\<lambda>b :: u8. show_nat (unat b))" by (rule injI) (metis show_nat_inj word_unat_eq_iff)
    ultimately have "le_bytes 4 n = le_bytes 4 m" by (metis inj_mapD inj_eq inj_on_map_eq_map inj_on_subset subset_UNIV)
    then have "(le_word (le_bytes 4 n) :: u32) = le_word (le_bytes 4 m)" by (rule arg_cong)
    then show ?thesis by (simp only: le_word_le_bytes [where 'a = 32 and n = 4, simplified])
  qed
  with sp show ?thesis by blast
qed

text \<open>The age of a flow subtracts a counter since boot from the Unix time.\<close>

lemma flow_age_of_boot_counter:
  assumes "0 \<le> now" "now < 2 ^ 63" "0 < uint first" "uint first \<le> now"
  shows "flow_age now first = fdiv (float_of_int (now - uint first)) (10 ^ 9)"
proof -
  have "word_of_int now - first = word_of_int (now - uint first)" by (simp add: of_int_uint)
  moreover have "sint (word_of_int (now - uint first) :: u64) = now - uint first"
    using assms by (intro sint_of_small) auto
  moreover have "0 < first" using assms(3) by (simp add: word_less_def)
  ultimately show ?thesis by (simp add: flow_age_def)
qed

end
