(* ===== verification/Exporter.thy ===== *)
theory Exporter
  imports NetSyscall
begin

text \<open>
  The metrics exporter (pkg/exporter/prometheus.go): the registered metric vectors with their label
  names, the update functions of the five metric collectors, the out-of-memory counter and the
  security-event writer. The Prometheus client library is a parameter: a record of the operations the
  code calls, with their documented behaviour (finding the child of a vector, setting a gauge, incrementing
  a counter) as the hypothesis \<open>prom_laws\<close>. \<^verbatim>\<open>WithLabelValues\<close> is documented to panic when the number
  of values is not that of the registered label names; that the library also refuses label values that are
  not valid UTF-8 is outside the hypothesis, so the theorems are about names that are.
\<close>

section \<open>The client library\<close>

record metric_vec =
  v_Name :: string
  v_Labels :: "string list"

type_synonym child = "string \<times> string list"

record 'm prom_api =
  pm_with :: "metric_vec \<Rightarrow> string list \<Rightarrow> child go"
  pm_set :: "child \<Rightarrow> rat \<Rightarrow> 'm \<Rightarrow> 'm"
  pm_inc :: "child \<Rightarrow> 'm \<Rightarrow> 'm"
  pm_gauge :: "'m \<Rightarrow> child \<Rightarrow> rat option"
  pm_counter :: "'m \<Rightarrow> child \<Rightarrow> nat"

definition prom_laws :: "'m prom_api \<Rightarrow> bool" where
  "prom_laws P \<longleftrightarrow>
     (\<forall>v lvs. pm_with P v lvs = (if length lvs = length (v_Labels v) then Inr (v_Name v, lvs) else Inl LabelCardinality)) \<and>
     (\<forall>c x m d. pm_gauge P (pm_set P c x m) d = (if d = c then Some x else pm_gauge P m d)) \<and>
     (\<forall>c x m d. pm_counter P (pm_set P c x m) d = pm_counter P m d) \<and>
     (\<forall>c m d. pm_counter P (pm_inc P c m) d = pm_counter P m d + (if d = c then 1 else 0)) \<and>
     (\<forall>c m d. pm_gauge P (pm_inc P c m) d = pm_gauge P m d)"

definition set_gauge :: "'m prom_api \<Rightarrow> metric_vec \<Rightarrow> string list \<Rightarrow> rat \<Rightarrow> 'm \<Rightarrow> 'm go" where
  "set_gauge P v lvs x m = go_bind (pm_with P v lvs) (\<lambda>c. Inr (pm_set P c x m))"

definition inc_counter :: "'m prom_api \<Rightarrow> metric_vec \<Rightarrow> string list \<Rightarrow> 'm \<Rightarrow> 'm go" where
  "inc_counter P v lvs m = go_bind (pm_with P v lvs) (\<lambda>c. Inr (pm_inc P c m))"

text \<open>Consecutive \<^verbatim>\<open>Set\<close> calls with the same label values.\<close>

definition set_gauges :: "'m prom_api \<Rightarrow> string list \<Rightarrow> (metric_vec \<times> rat) list \<Rightarrow> 'm \<Rightarrow> 'm go" where
  "set_gauges P lvs = go_fold (\<lambda>(v, x). set_gauge P v lvs x)"

section \<open>The exporter\<close>

record PrometheusExporter =
  x_CpuSeconds :: metric_vec
  x_RunqLatency :: metric_vec
  x_CtxSwitchesPerSec :: metric_vec
  x_Threads :: metric_vec
  x_MemoryRSS :: metric_vec
  x_MemoryLimit :: metric_vec
  x_MemoryVirt :: metric_vec
  x_MemoryPSS :: metric_vec
  x_MemoryShared :: metric_vec
  x_PageFaultsMinorPerSec :: metric_vec
  x_PageFaultsMajorPerSec :: metric_vec
  x_PageFaultsPerSec :: metric_vec
  x_PSISomePct :: metric_vec
  x_PSIFullPct :: metric_vec
  x_TLBMissRate :: metric_vec
  x_DiskReadBytesPerSec :: metric_vec
  x_DiskWriteBytesPerSec :: metric_vec
  x_DiskReadLatencyMs :: metric_vec
  x_DiskWriteLatencyMs :: metric_vec
  x_NetActiveFlows :: metric_vec
  x_NetEstablished :: metric_vec
  x_NetTimeWait :: metric_vec
  x_NetCloseWait :: metric_vec
  x_NetRetransmits :: metric_vec
  x_SyscallCount :: metric_vec
  x_SyscallFailures :: metric_vec
  x_SyscallLatency :: metric_vec
  x_NUMALocalPct :: metric_vec
  x_NUMARemotePct :: metric_vec
  x_SecurityEvents :: metric_vec
  x_OomKills :: metric_vec
  x_DnsQueries :: metric_vec
  x_LineageForks :: metric_vec
  x_ExecEvents :: metric_vec
  x_PrivEscalations :: metric_vec
  x_EscapeIndicators :: metric_vec

definition NewPrometheusExporter :: PrometheusExporter where
  "NewPrometheusExporter =
     (let labels = [''namespace'', ''pod'', ''container''];
          mk = (\<lambda>n ls. \<lparr>v_Name = n, v_Labels = ls\<rparr>)
      in \<lparr>x_CpuSeconds = mk ''ebpf_cpu_seconds'' labels,
        x_RunqLatency = mk ''ebpf_runq_latency_seconds'' labels,
        x_CtxSwitchesPerSec = mk ''ebpf_ctx_switches_per_sec'' labels,
        x_Threads = mk ''ebpf_threads'' labels,
        x_MemoryRSS = mk ''ebpf_memory_rss_bytes'' labels,
        x_MemoryLimit = mk ''ebpf_memory_limit_bytes'' labels,
        x_MemoryVirt = mk ''ebpf_memory_virt_bytes'' labels,
        x_MemoryPSS = mk ''ebpf_memory_pss_bytes'' labels,
        x_MemoryShared = mk ''ebpf_memory_shared_bytes'' labels,
        x_PageFaultsMinorPerSec = mk ''ebpf_page_faults_minor_per_sec'' labels,
        x_PageFaultsMajorPerSec = mk ''ebpf_page_faults_major_per_sec'' labels,
        x_PageFaultsPerSec = mk ''ebpf_page_faults_per_sec'' labels,
        x_PSISomePct = mk ''ebpf_memory_psi_some_pct'' labels,
        x_PSIFullPct = mk ''ebpf_memory_psi_full_pct'' labels,
        x_TLBMissRate = mk ''ebpf_tlb_miss_rate'' labels,
        x_DiskReadBytesPerSec = mk ''ebpf_disk_read_bytes_per_sec'' labels,
        x_DiskWriteBytesPerSec = mk ''ebpf_disk_write_bytes_per_sec'' labels,
        x_DiskReadLatencyMs = mk ''ebpf_disk_read_latency_ms'' labels,
        x_DiskWriteLatencyMs = mk ''ebpf_disk_write_latency_ms'' labels,
        x_NetActiveFlows = mk ''ebpf_net_active_flows'' labels,
        x_NetEstablished = mk ''ebpf_net_established'' labels,
        x_NetTimeWait = mk ''ebpf_net_time_wait'' labels,
        x_NetCloseWait = mk ''ebpf_net_close_wait'' labels,
        x_NetRetransmits = mk ''ebpf_net_retransmits_total'' labels,
        x_SyscallCount = mk ''ebpf_syscall_count'' (labels @ [''syscall'']),
        x_SyscallFailures = mk ''ebpf_syscall_failures'' (labels @ [''syscall'']),
        x_SyscallLatency = mk ''ebpf_syscall_latency_ms'' (labels @ [''syscall'']),
        x_NUMALocalPct = mk ''ebpf_numa_local_pct'' labels,
        x_NUMARemotePct = mk ''ebpf_numa_remote_pct'' labels,
        x_SecurityEvents = mk ''ebpf_security_events_total'' (labels @ [''type'']),
        x_OomKills = mk ''ebpf_oom_kills_total'' labels,
        x_DnsQueries = mk ''ebpf_dns_queries_total'' (labels @ [''query_type'']),
        x_LineageForks = mk ''ebpf_lineage_forks_total'' labels,
        x_ExecEvents = mk ''ebpf_exec_events_total'' labels,
        x_PrivEscalations = mk ''ebpf_privilege_escalations_total'' labels,
        x_EscapeIndicators = mk ''ebpf_escape_indicators_total'' labels\<rparr>)"

definition splitK8sLabels :: "string \<Rightarrow> string \<times> string \<times> string" where
  "splitK8sLabels containerName = (case split_on CHR ''/'' containerName of
      [a, b, c] \<Rightarrow> (a, b, c) | _ \<Rightarrow> ([], [], containerName))"

definition labels_of :: "string \<Rightarrow> string list" where
  "labels_of name = (case splitK8sLabels name of (ns, pod, container) \<Rightarrow> [ns, pod, container])"

definition UpdateCPU :: "'m prom_api \<Rightarrow> PrometheusExporter \<Rightarrow> CpuSample list \<Rightarrow> 'm \<Rightarrow> 'm go" where
  "UpdateCPU P e = go_fold (\<lambda>s. set_gauges P (labels_of (cpu_ContainerName s))
     [(x_CpuSeconds e, cpu_CPUSeconds s), (x_RunqLatency e, cpu_RunqLatencySeconds s),
      (x_CtxSwitchesPerSec e, cpu_CtxSwitchesPerSec s), (x_Threads e, of_nat (unat (cpu_ThreadCount s))),
      (x_NUMALocalPct e, cpu_NUMALocalPct s), (x_NUMARemotePct e, cpu_NUMARemotePct s)])"

definition UpdateMemory :: "'m prom_api \<Rightarrow> PrometheusExporter \<Rightarrow> MemSample list \<Rightarrow> 'm \<Rightarrow> 'm go" where
  "UpdateMemory P e = go_fold (\<lambda>s. set_gauges P (labels_of (mem_ContainerName s))
     ([(x_MemoryRSS e, float_of_u64 (mem_MemoryBytes s)), (x_MemoryLimit e, float_of_u64 (mem_MemoryLimitBytes s)),
       (x_PageFaultsPerSec e, mem_FaultsPerSec s), (x_PageFaultsMinorPerSec e, mem_MinorPerSec s),
       (x_PageFaultsMajorPerSec e, mem_MajorPerSec s), (x_PSISomePct e, mem_PSISome s),
       (x_PSIFullPct e, mem_PSIFull s), (x_TLBMissRate e, mem_TLBMissRate s)] @
      (if 0 < mem_VirtBytes s then [(x_MemoryVirt e, float_of_u64 (mem_VirtBytes s))] else []) @
      (if 0 < mem_PSSBytes s then [(x_MemoryPSS e, float_of_u64 (mem_PSSBytes s))] else []) @
      (if 0 < mem_SharedBytes s then [(x_MemoryShared e, float_of_u64 (mem_SharedBytes s))] else [])))"

definition UpdateIO :: "'m prom_api \<Rightarrow> PrometheusExporter \<Rightarrow> IoSample list \<Rightarrow> 'm \<Rightarrow> 'm go" where
  "UpdateIO P e = go_fold (\<lambda>s. set_gauges P (labels_of (io_ContainerName s))
     [(x_DiskReadBytesPerSec e, io_ReadBytesPerSec s), (x_DiskWriteBytesPerSec e, io_WriteBytesPerSec s),
      (x_DiskReadLatencyMs e, io_AvgReadLatencyMs s), (x_DiskWriteLatencyMs e, io_AvgWriteLatencyMs s)])"

definition UpdateNetwork :: "'m prom_api \<Rightarrow> PrometheusExporter \<Rightarrow> NetSummary list \<Rightarrow> 'm \<Rightarrow> 'm go" where
  "UpdateNetwork P e = go_fold (\<lambda>s. set_gauges P (labels_of (ns_ContainerName s))
     [(x_NetActiveFlows e, float_of_int (ns_ActiveFlows s)), (x_NetEstablished e, float_of_int (ns_Established s)),
      (x_NetTimeWait e, float_of_int (ns_TimeWait s)), (x_NetCloseWait e, float_of_int (ns_CloseWait s)),
      (x_NetRetransmits e, of_nat (unat (ns_TotalRetransmits s)))])"

definition UpdateSyscalls :: "'m prom_api \<Rightarrow> PrometheusExporter \<Rightarrow> SyscallSummary list \<Rightarrow> 'm \<Rightarrow> 'm go" where
  "UpdateSyscalls P e = go_fold (\<lambda>s. set_gauges P (labels_of (ss_ContainerName s) @ [ss_SyscallName s])
     [(x_SyscallCount e, float_of_u64 (ss_Count s)), (x_SyscallFailures e, float_of_u64 (ss_Failures s)),
      (x_SyscallLatency e, ss_AvgLatencyMs s)])"

definition UpdateOOM :: "'m prom_api \<Rightarrow> PrometheusExporter \<Rightarrow> string \<Rightarrow> 'm \<Rightarrow> 'm go" where
  "UpdateOOM P e containerName = inc_counter P (x_OomKills e) (labels_of containerName)"

definition isContainer :: "string \<Rightarrow> bool" where
  "isContainer name \<longleftrightarrow> HasPrefix name ''docker:'' \<or> HasPrefix name ''cri:'' \<or> HasPrefix name ''k8s:'' \<or>
     count_list name CHR ''/'' = 2"

text \<open>
  The writer wraps an optional inner writer, here a function on the inner writer's own state. The
  exporter's state and the inner writer's are threaded as a pair.
\<close>

record 'w PrometheusSecurityEventWriter =
  sw_Inner :: "(EventEnvelope \<Rightarrow> 'w \<Rightarrow> 'w) option"
  sw_Exporter :: PrometheusExporter
  sw_ContainersOnly :: bool

definition inner_write :: "'w PrometheusSecurityEventWriter \<Rightarrow> EventEnvelope \<Rightarrow> 'w \<Rightarrow> 'w" where
  "inner_write w ev s = (case sw_Inner w of None \<Rightarrow> s | Some f \<Rightarrow> f ev s)"

definition write_specific :: "'m prom_api \<Rightarrow> PrometheusExporter \<Rightarrow> EventEnvelope \<Rightarrow> string list \<Rightarrow> 'm \<Rightarrow> 'm go" where
  "write_specific P e ev lvs m =
     (if ev_EventType ev = EventTypeFork then inc_counter P (x_LineageForks e) lvs m
      else if ev_EventType ev = EventTypeExec then inc_counter P (x_ExecEvents e) lvs m
      else if ev_EventType ev = EventTypeDNSQuery
           then inc_counter P (x_DnsQueries e) (lvs @ [case string_meta (ev_Metadata ev) ''query_type'' of None \<Rightarrow> [] | Some q \<Rightarrow> q]) m
      else if ev_EventType ev = EventTypePrivEsc then inc_counter P (x_PrivEscalations e) lvs m
      else if ev_EventType ev = EventTypeEscapeIndicator then inc_counter P (x_EscapeIndicators e) lvs m
      else Inr m)"

definition Prom_Write :: "'m prom_api \<Rightarrow> 'w PrometheusSecurityEventWriter \<Rightarrow> EventEnvelope \<Rightarrow> 'm \<times> 'w \<Rightarrow> ('m \<times> 'w) go" where
  "Prom_Write P w ev st =
     (if sw_ContainersOnly w \<and> \<not> isContainer (ev_ContainerName ev)
      then Inr (fst st, inner_write w ev (snd st))
      else let lvs = labels_of (ev_ContainerName ev); e = sw_Exporter w in
           go_bind (inc_counter P (x_SecurityEvents e) (lvs @ [ev_EventType ev]) (fst st)) (\<lambda>m1.
           go_bind (write_specific P e ev lvs m1) (\<lambda>m2.
             Inr (m2, inner_write w ev (snd st)))))"

lemma exporter_vecs [simp]:
  "x_CpuSeconds NewPrometheusExporter = \<lparr>v_Name = ''ebpf_cpu_seconds'', v_Labels = [''namespace'', ''pod'', ''container'']\<rparr>"
  "x_RunqLatency NewPrometheusExporter = \<lparr>v_Name = ''ebpf_runq_latency_seconds'', v_Labels = [''namespace'', ''pod'', ''container'']\<rparr>"
  "x_CtxSwitchesPerSec NewPrometheusExporter = \<lparr>v_Name = ''ebpf_ctx_switches_per_sec'', v_Labels = [''namespace'', ''pod'', ''container'']\<rparr>"
  "x_Threads NewPrometheusExporter = \<lparr>v_Name = ''ebpf_threads'', v_Labels = [''namespace'', ''pod'', ''container'']\<rparr>"
  "x_MemoryRSS NewPrometheusExporter = \<lparr>v_Name = ''ebpf_memory_rss_bytes'', v_Labels = [''namespace'', ''pod'', ''container'']\<rparr>"
  "x_MemoryLimit NewPrometheusExporter = \<lparr>v_Name = ''ebpf_memory_limit_bytes'', v_Labels = [''namespace'', ''pod'', ''container'']\<rparr>"
  "x_MemoryVirt NewPrometheusExporter = \<lparr>v_Name = ''ebpf_memory_virt_bytes'', v_Labels = [''namespace'', ''pod'', ''container'']\<rparr>"
  "x_MemoryPSS NewPrometheusExporter = \<lparr>v_Name = ''ebpf_memory_pss_bytes'', v_Labels = [''namespace'', ''pod'', ''container'']\<rparr>"
  "x_MemoryShared NewPrometheusExporter = \<lparr>v_Name = ''ebpf_memory_shared_bytes'', v_Labels = [''namespace'', ''pod'', ''container'']\<rparr>"
  "x_PageFaultsMinorPerSec NewPrometheusExporter = \<lparr>v_Name = ''ebpf_page_faults_minor_per_sec'', v_Labels = [''namespace'', ''pod'', ''container'']\<rparr>"
  "x_PageFaultsMajorPerSec NewPrometheusExporter = \<lparr>v_Name = ''ebpf_page_faults_major_per_sec'', v_Labels = [''namespace'', ''pod'', ''container'']\<rparr>"
  "x_PageFaultsPerSec NewPrometheusExporter = \<lparr>v_Name = ''ebpf_page_faults_per_sec'', v_Labels = [''namespace'', ''pod'', ''container'']\<rparr>"
  "x_PSISomePct NewPrometheusExporter = \<lparr>v_Name = ''ebpf_memory_psi_some_pct'', v_Labels = [''namespace'', ''pod'', ''container'']\<rparr>"
  "x_PSIFullPct NewPrometheusExporter = \<lparr>v_Name = ''ebpf_memory_psi_full_pct'', v_Labels = [''namespace'', ''pod'', ''container'']\<rparr>"
  "x_TLBMissRate NewPrometheusExporter = \<lparr>v_Name = ''ebpf_tlb_miss_rate'', v_Labels = [''namespace'', ''pod'', ''container'']\<rparr>"
  "x_DiskReadBytesPerSec NewPrometheusExporter = \<lparr>v_Name = ''ebpf_disk_read_bytes_per_sec'', v_Labels = [''namespace'', ''pod'', ''container'']\<rparr>"
  "x_DiskWriteBytesPerSec NewPrometheusExporter = \<lparr>v_Name = ''ebpf_disk_write_bytes_per_sec'', v_Labels = [''namespace'', ''pod'', ''container'']\<rparr>"
  "x_DiskReadLatencyMs NewPrometheusExporter = \<lparr>v_Name = ''ebpf_disk_read_latency_ms'', v_Labels = [''namespace'', ''pod'', ''container'']\<rparr>"
  "x_DiskWriteLatencyMs NewPrometheusExporter = \<lparr>v_Name = ''ebpf_disk_write_latency_ms'', v_Labels = [''namespace'', ''pod'', ''container'']\<rparr>"
  "x_NetActiveFlows NewPrometheusExporter = \<lparr>v_Name = ''ebpf_net_active_flows'', v_Labels = [''namespace'', ''pod'', ''container'']\<rparr>"
  "x_NetEstablished NewPrometheusExporter = \<lparr>v_Name = ''ebpf_net_established'', v_Labels = [''namespace'', ''pod'', ''container'']\<rparr>"
  "x_NetTimeWait NewPrometheusExporter = \<lparr>v_Name = ''ebpf_net_time_wait'', v_Labels = [''namespace'', ''pod'', ''container'']\<rparr>"
  "x_NetCloseWait NewPrometheusExporter = \<lparr>v_Name = ''ebpf_net_close_wait'', v_Labels = [''namespace'', ''pod'', ''container'']\<rparr>"
  "x_NetRetransmits NewPrometheusExporter = \<lparr>v_Name = ''ebpf_net_retransmits_total'', v_Labels = [''namespace'', ''pod'', ''container'']\<rparr>"
  "x_SyscallCount NewPrometheusExporter = \<lparr>v_Name = ''ebpf_syscall_count'', v_Labels = [''namespace'', ''pod'', ''container'', ''syscall'']\<rparr>"
  "x_SyscallFailures NewPrometheusExporter = \<lparr>v_Name = ''ebpf_syscall_failures'', v_Labels = [''namespace'', ''pod'', ''container'', ''syscall'']\<rparr>"
  "x_SyscallLatency NewPrometheusExporter = \<lparr>v_Name = ''ebpf_syscall_latency_ms'', v_Labels = [''namespace'', ''pod'', ''container'', ''syscall'']\<rparr>"
  "x_NUMALocalPct NewPrometheusExporter = \<lparr>v_Name = ''ebpf_numa_local_pct'', v_Labels = [''namespace'', ''pod'', ''container'']\<rparr>"
  "x_NUMARemotePct NewPrometheusExporter = \<lparr>v_Name = ''ebpf_numa_remote_pct'', v_Labels = [''namespace'', ''pod'', ''container'']\<rparr>"
  "x_SecurityEvents NewPrometheusExporter = \<lparr>v_Name = ''ebpf_security_events_total'', v_Labels = [''namespace'', ''pod'', ''container'', ''type'']\<rparr>"
  "x_OomKills NewPrometheusExporter = \<lparr>v_Name = ''ebpf_oom_kills_total'', v_Labels = [''namespace'', ''pod'', ''container'']\<rparr>"
  "x_DnsQueries NewPrometheusExporter = \<lparr>v_Name = ''ebpf_dns_queries_total'', v_Labels = [''namespace'', ''pod'', ''container'', ''query_type'']\<rparr>"
  "x_LineageForks NewPrometheusExporter = \<lparr>v_Name = ''ebpf_lineage_forks_total'', v_Labels = [''namespace'', ''pod'', ''container'']\<rparr>"
  "x_ExecEvents NewPrometheusExporter = \<lparr>v_Name = ''ebpf_exec_events_total'', v_Labels = [''namespace'', ''pod'', ''container'']\<rparr>"
  "x_PrivEscalations NewPrometheusExporter = \<lparr>v_Name = ''ebpf_privilege_escalations_total'', v_Labels = [''namespace'', ''pod'', ''container'']\<rparr>"
  "x_EscapeIndicators NewPrometheusExporter = \<lparr>v_Name = ''ebpf_escape_indicators_total'', v_Labels = [''namespace'', ''pod'', ''container'']\<rparr>"
  by (simp_all add: NewPrometheusExporter_def Let_def)

section \<open>Labels\<close>

lemma splitK8sLabels_k8s:
  assumes "CHR ''/'' \<notin> set ns" and "CHR ''/'' \<notin> set pod" and "CHR ''/'' \<notin> set c"
  shows "splitK8sLabels (ns @ CHR ''/'' # pod @ CHR ''/'' # c) = (ns, pod, c)"
  using assms by (simp add: splitK8sLabels_def split_on_append_sep split_on_free)

lemma splitK8sLabels_cases:
  "(\<exists>a b c. splitK8sLabels s = (a, b, c) \<and> s = a @ CHR ''/'' # b @ CHR ''/'' # c \<and> CHR ''/'' \<notin> set c) \<or>
   splitK8sLabels s = ([], [], s) \<and> count_list s CHR ''/'' \<noteq> 2"
proof (cases "length (split_on CHR ''/'' s) = 3")
  case True
  then obtain a b c where abc: "split_on CHR ''/'' s = [a, b, c]"
    by (auto simp: length_Suc_conv eval_nat_numeral)
  then have "CHR ''/'' \<notin> set c" using split_on_no_sep [of c "CHR ''/''" s] by simp
  with abc join_split [of "CHR ''/''" s] show ?thesis by (force simp: splitK8sLabels_def)
next
  case False
  then have "splitK8sLabels s = ([], [], s)"
    by (auto simp: splitK8sLabels_def split: list.split)
  with False show ?thesis by (simp add: length_split_on)
qed

text \<open>
  The labels identify the container: two names with the same labels are equal, except that
  \<^verbatim>\<open>//c\<close>, with an empty namespace and pod, has the labels of the plain name \<^verbatim>\<open>c\<close>.
\<close>

theorem splitK8sLabels_identifies:
  assumes "splitK8sLabels s = splitK8sLabels t"
  shows "s = t \<or> s = ''//'' @ t \<or> t = ''//'' @ s"
  using splitK8sLabels_cases [of s] splitK8sLabels_cases [of t] assms by auto

theorem splitK8sLabels_identifies_witness:
  "''prod/web/nginx'' = ''prod/web/nginx'' \<or> ''prod/web/nginx'' = ''//'' @ ''prod/web/nginx'' \<or> ''prod/web/nginx'' = ''//'' @ ''prod/web/nginx''"
  by (rule splitK8sLabels_identifies) simp

lemma length_labels [simp]: "length (labels_of s) = 3"
  by (simp add: labels_of_def split: prod.split)

section \<open>Gauges\<close>

lemma set_gauges_ok:
  assumes "prom_laws P" and "\<forall>(v, x) \<in> set vs. length (v_Labels v) = length lvs"
  shows "\<exists>m'. set_gauges P lvs vs m = Inr m' \<and>
    (\<forall>d. pm_gauge P m' d = (case map_of (rev (map (\<lambda>(v, x). ((v_Name v, lvs), x)) vs)) d of None \<Rightarrow> pm_gauge P m d | Some x \<Rightarrow> Some x)) \<and>
    (\<forall>d. pm_counter P m' d = pm_counter P m d)"
  using assms(2)
proof (induction vs arbitrary: m)
  case (Cons vx vs)
  obtain v x where vx: "vx = (v, x)" by fastforce
  have step: "set_gauge P v lvs x m = Inr (pm_set P (v_Name v, lvs) x m)"
    using Cons.prems assms(1) by (simp add: vx set_gauge_def prom_laws_def)
  obtain m' where m': "set_gauges P lvs vs (pm_set P (v_Name v, lvs) x m) = Inr m'"
    "\<forall>d. pm_gauge P m' d = (case map_of (rev (map (\<lambda>(v, x). ((v_Name v, lvs), x)) vs)) d of None \<Rightarrow> pm_gauge P (pm_set P (v_Name v, lvs) x m) d | Some x \<Rightarrow> Some x)"
    "\<forall>d. pm_counter P m' d = pm_counter P (pm_set P (v_Name v, lvs) x m) d"
    using Cons by force
  have laws: "pm_gauge P (pm_set P c x m) d = (if d = c then Some x else pm_gauge P m d)"
    "pm_counter P (pm_set P c x m) d = pm_counter P m d" for c x m d
    using assms(1) unfolding prom_laws_def by blast+
  have "set_gauges P lvs (vx # vs) m = Inr m'" using m'(1) step by (simp add: set_gauges_def vx)
  moreover have "pm_gauge P m' d = (case map_of (rev (map (\<lambda>(v, x). ((v_Name v, lvs), x)) (vx # vs))) d of None \<Rightarrow> pm_gauge P m d | Some x \<Rightarrow> Some x)" for d
    using m'(2) [THEN spec, of d] by (simp add: vx laws map_add_def split: option.split)
  ultimately show ?case using m'(3) by (auto simp: laws)
qed (simp add: set_gauges_def)

text \<open>
  What the five update loops have in common: every sample sets its gauges at its labels. The gauge of
  a metric at a label set is afterwards the value of the last sample with these labels.
\<close>

lemma update_loop:
  assumes P: "prom_laws P"
    and ar: "\<forall>s. \<forall>(v, x) \<in> set (vals s). length (v_Labels v) = length (lab s)"
  shows "\<exists>m'. go_fold (\<lambda>s. set_gauges P (lab s) (vals s)) samples m = Inr m' \<and>
    (\<forall>xs s ys. samples = xs @ s # ys \<longrightarrow> (\<forall>t \<in> set ys. lab t \<noteq> lab s) \<longrightarrow>
       distinct (map (v_Name \<circ> fst) (vals s)) \<longrightarrow>
       (\<forall>(v, x) \<in> set (vals s). pm_gauge P m' (v_Name v, lab s) = Some x)) \<and>
    (\<forall>n l. (\<forall>s \<in> set samples. lab s \<noteq> l) \<longrightarrow> pm_gauge P m' (n, l) = pm_gauge P m (n, l)) \<and>
    (\<forall>d. pm_counter P m' d = pm_counter P m d)"
proof (induction samples arbitrary: m rule: rev_induct)
  case (snoc s samples)
  define wr where "wr = rev (map (\<lambda>(v, x). ((v_Name v, lab s), x)) (vals s))"
  from snoc obtain m1 where m1: "go_fold (\<lambda>s. set_gauges P (lab s) (vals s)) samples m = Inr m1"
    "\<And>xs s ys. samples = xs @ s # ys \<Longrightarrow> (\<forall>t \<in> set ys. lab t \<noteq> lab s) \<Longrightarrow> distinct (map (v_Name \<circ> fst) (vals s)) \<Longrightarrow>
       (\<forall>(v, x) \<in> set (vals s). pm_gauge P m1 (v_Name v, lab s) = Some x)"
    "\<And>n l. (\<forall>s \<in> set samples. lab s \<noteq> l) \<Longrightarrow> pm_gauge P m1 (n, l) = pm_gauge P m (n, l)"
    "\<And>d. pm_counter P m1 d = pm_counter P m d" by blast
  have "\<forall>(v, x) \<in> set (vals s). length (v_Labels v) = length (lab s)" using ar by auto
  from set_gauges_ok [OF P this] obtain m2 where m2: "set_gauges P (lab s) (vals s) m1 = Inr m2"
    "\<And>d. pm_gauge P m2 d = (case map_of wr d of None \<Rightarrow> pm_gauge P m1 d | Some x \<Rightarrow> Some x)"
    "\<And>d. pm_counter P m2 d = pm_counter P m1 d" unfolding wr_def by blast
  have other: "pm_gauge P m2 (n, l) = pm_gauge P m1 (n, l)" if "l \<noteq> lab s" for n l
  proof -
    have "map_of wr (n, l) = None" using that by (auto simp: wr_def map_of_eq_None_iff)
    then show ?thesis by (simp add: m2(2))
  qed
  have own: "pm_gauge P m2 (v_Name v, lab s) = Some x"
    if "(v, x) \<in> set (vals s)" "distinct (map (v_Name \<circ> fst) (vals s))" for v x
  proof -
    have "map fst (map (\<lambda>(v, x). ((v_Name v, lab s), x)) (vals s)) = map (\<lambda>n. (n, lab s)) (map (v_Name \<circ> fst) (vals s))"
      by (induction "vals s") auto
    then have "distinct (map fst (map (\<lambda>(v, x). ((v_Name v, lab s), x)) (vals s)))"
      using that(2) by (simp add: distinct_map inj_on_def comp_def)
    then have "distinct (map fst wr)" by (simp only: wr_def rev_map [symmetric] distinct_rev)
    moreover have "((v_Name v, lab s), x) \<in> set wr" using that(1) by (force simp: wr_def)
    ultimately have "map_of wr (v_Name v, lab s) = Some x" by (rule map_of_is_SomeI)
    then show ?thesis by (simp add: m2(2))
  qed
  have "go_fold (\<lambda>s. set_gauges P (lab s) (vals s)) (samples @ [s]) m = Inr m2"
    using m1(1) m2(1) by (simp add: go_fold_append)
  moreover have "\<forall>(v, x) \<in> set (vals t). pm_gauge P m2 (v_Name v, lab t) = Some x"
    if "samples @ [s] = xs @ t # ys" "\<forall>u \<in> set ys. lab u \<noteq> lab t" "distinct (map (v_Name \<circ> fst) (vals t))" for xs t ys
  proof (cases ys rule: rev_cases)
    case Nil
    then show ?thesis using that own by auto
  next
    case (snoc ys' u)
    then have "samples = xs @ t # ys'" "u = s" using that(1) by simp_all
    then show ?thesis using m1(2) [of xs t ys'] that snoc other [of "lab t"] by fastforce
  qed
  moreover have "pm_gauge P m2 (n, l) = pm_gauge P m (n, l)" if "\<forall>t \<in> set (samples @ [s]). lab t \<noteq> l" for n l
    using that m1(3) [of l n] other [of l n] by auto
  moreover have "pm_counter P m2 d = pm_counter P m d" for d using m1(4) m2(3) by simp
  ultimately show ?case by (intro exI [of _ m2] conjI allI impI) blast+
qed (simp)

text \<open>
  The contract of an update function: it never panics, the gauges named by \<open>vals\<close> hold the values of
  the last sample with the same labels, and nothing else changes.
\<close>

definition published ::
  "'m prom_api \<Rightarrow> ('s \<Rightarrow> string list) \<Rightarrow> ('s \<Rightarrow> (string \<times> rat) list) \<Rightarrow> 's list \<Rightarrow> 'm \<Rightarrow> 'm \<Rightarrow> bool" where
  "published P lab vals samples m m' \<longleftrightarrow>
     (\<forall>xs s ys. samples = xs @ s # ys \<and> (\<forall>t \<in> set ys. lab t \<noteq> lab s) \<longrightarrow>
        (\<forall>(n, x) \<in> set (vals s). pm_gauge P m' (n, lab s) = Some x)) \<and>
     (\<forall>n l. (\<forall>s \<in> set samples. lab s \<noteq> l) \<longrightarrow> pm_gauge P m' (n, l) = pm_gauge P m (n, l)) \<and>
     (\<forall>d. pm_counter P m' d = pm_counter P m d)"

definition publishes ::
  "'m prom_api \<Rightarrow> ('s list \<Rightarrow> 'm \<Rightarrow> 'm go) \<Rightarrow> ('s \<Rightarrow> string list) \<Rightarrow> ('s \<Rightarrow> (string \<times> rat) list) \<Rightarrow> bool" where
  "publishes P upd lab vals \<longleftrightarrow> (\<forall>samples m. \<exists>m'. upd samples m = Inr m' \<and> published P lab vals samples m m')"

lemma publishesI:
  assumes "prom_laws P"
    and upd: "upd = go_fold (\<lambda>s. set_gauges P (lab s) (vecs s))"
    and "\<forall>s. \<forall>(v, x) \<in> set (vecs s). length (v_Labels v) = length (lab s)"
    and dist: "\<And>s. distinct (map (v_Name \<circ> fst) (vecs s))"
    and vals: "\<And>s. vals s = map (\<lambda>(v, x). (v_Name v, x)) (vecs s)"
  shows "publishes P upd lab vals"
  unfolding publishes_def upd
proof (intro allI)
  fix samples m
  from update_loop [where vals = vecs and lab = lab and samples = samples and m = m, OF assms(1,3)]
  obtain m' where m': "go_fold (\<lambda>s. set_gauges P (lab s) (vecs s)) samples m = Inr m'"
    "\<And>xs s ys. samples = xs @ s # ys \<Longrightarrow> (\<forall>t \<in> set ys. lab t \<noteq> lab s) \<Longrightarrow>
       (\<forall>(v, x) \<in> set (vecs s). pm_gauge P m' (v_Name v, lab s) = Some x)"
    "\<And>n l. (\<forall>s \<in> set samples. lab s \<noteq> l) \<Longrightarrow> pm_gauge P m' (n, l) = pm_gauge P m (n, l)"
    "\<And>d. pm_counter P m' d = pm_counter P m d"
    using dist by blast
  have A: "\<forall>xs s ys. samples = xs @ s # ys \<and> (\<forall>t \<in> set ys. lab t \<noteq> lab s) \<longrightarrow>
      (\<forall>(n, x) \<in> set (vals s). pm_gauge P m' (n, lab s) = Some x)"
  proof (intro allI impI, elim conjE)
    fix xs s ys assume "samples = xs @ s # ys" "\<forall>t \<in> set ys. lab t \<noteq> lab s"
    from m'(2) [OF this] show "\<forall>(n, x) \<in> set (vals s). pm_gauge P m' (n, lab s) = Some x" by (auto simp: vals)
  qed
  have B: "\<forall>n l. (\<forall>s \<in> set samples. lab s \<noteq> l) \<longrightarrow> pm_gauge P m' (n, l) = pm_gauge P m (n, l)"
    using m'(3) by blast
  have C: "\<forall>d. pm_counter P m' d = pm_counter P m d" using m'(4) by simp
  from A B C have "published P lab vals samples m m'" unfolding published_def by (intro conjI)
  with m'(1) show "\<exists>m'. go_fold (\<lambda>s. set_gauges P (lab s) (vecs s)) samples m = Inr m' \<and> published P lab vals samples m m'"
    by blast
qed

lemma publishesD:
  assumes "publishes P upd lab vals" and "\<forall>t \<in> set ys. lab t \<noteq> lab s"
  shows "\<exists>m'. upd (xs @ s # ys) m = Inr m' \<and> (\<forall>(n, x) \<in> set (vals s). pm_gauge P m' (n, lab s) = Some x)"
proof -
  obtain m' where m': "upd (xs @ s # ys) m = Inr m'" "published P lab vals (xs @ s # ys) m m'"
    using assms(1) unfolding publishes_def by blast
  from m'(2) have "\<forall>xs' s' ys'. xs @ s # ys = xs' @ s' # ys' \<and> (\<forall>t \<in> set ys'. lab t \<noteq> lab s') \<longrightarrow>
      (\<forall>(n, x) \<in> set (vals s'). pm_gauge P m' (n, lab s') = Some x)"
    unfolding published_def by (elim conjE)
  from this [THEN spec, THEN spec, THEN spec, of xs s ys] assms(2) m'(1) show ?thesis by simp
qed

lemma updates_publish:
  assumes "prom_laws P"
  shows "\<exists>lab vals. publishes P (UpdateCPU P NewPrometheusExporter) lab vals"
    "\<exists>lab vals. publishes P (UpdateMemory P NewPrometheusExporter) lab vals"
    "\<exists>lab vals. publishes P (UpdateIO P NewPrometheusExporter) lab vals"
    "\<exists>lab vals. publishes P (UpdateNetwork P NewPrometheusExporter) lab vals"
    "\<exists>lab vals. publishes P (UpdateSyscalls P NewPrometheusExporter) lab vals"
  by ((rule exI)+, rule publishesI [OF assms UpdateCPU_def _ _ refl], simp_all)
    ((rule exI)+, rule publishesI [OF assms UpdateMemory_def _ _ refl], auto split: if_splits,
     (rule exI)+, rule publishesI [OF assms UpdateIO_def _ _ refl], simp_all,
     (rule exI)+, rule publishesI [OF assms UpdateNetwork_def _ _ refl], simp_all,
     (rule exI)+, rule publishesI [OF assms UpdateSyscalls_def _ _ refl], simp_all)

lemma publishes_counters:
  "\<exists>lab vals. publishes P upd lab vals \<Longrightarrow> \<exists>m'. upd xs m = Inr m' \<and> (\<forall>d. pm_counter P m' d = pm_counter P m d)"
  unfolding publishes_def published_def by blast

lemmas updates_counters = updates_publish [THEN publishes_counters]

lemma updates_total:
  assumes "prom_laws P"
  shows "\<exists>m'. UpdateCPU P NewPrometheusExporter cs m = Inr m'" "\<exists>m'. UpdateMemory P NewPrometheusExporter ms m = Inr m'"
    "\<exists>m'. UpdateIO P NewPrometheusExporter is m = Inr m'" "\<exists>m'. UpdateNetwork P NewPrometheusExporter ns m = Inr m'"
    "\<exists>m'. UpdateSyscalls P NewPrometheusExporter ss m = Inr m'"
  using updates_counters [OF assms] by blast+


text \<open>A registry of two maps, as an instance of the client library.\<close>

definition map_registry :: "((child \<Rightarrow> rat option) \<times> (child \<Rightarrow> nat)) prom_api" where
  "map_registry = \<lparr>pm_with = (\<lambda>v lvs. if length lvs = length (v_Labels v) then Inr (v_Name v, lvs) else Inl LabelCardinality),
     pm_set = \<lambda>c x m. ((fst m)(c := Some x), snd m), pm_inc = \<lambda>c m. (fst m, (snd m)(c := snd m c + 1)),
     pm_gauge = fst, pm_counter = snd\<rparr>"

lemma map_registry_laws: "prom_laws map_registry"
  by (simp add: prom_laws_def map_registry_def)

definition sample_cpu_out :: "string \<Rightarrow> rat \<Rightarrow> CpuSample" where
  "sample_cpu_out n x = \<lparr>cpu_CgroupID = 7, cpu_ContainerName = n, cpu_TotalNs = 0, cpu_RunqLatencyNs = 0,
     cpu_CtxSwitches = 0, cpu_ThreadCount = 1, cpu_CPUSeconds = x, cpu_RunqLatencySeconds = 0,
     cpu_CtxSwitchesPerSec = 0, cpu_NUMALocalPct = 100, cpu_NUMARemotePct = 0, cpu_CollectedAt = 0\<rparr>"


section \<open>Security event counters\<close>

text \<open>The counters one event increments, and whether the event is counted at all.\<close>

definition counted :: "'w PrometheusSecurityEventWriter \<Rightarrow> EventEnvelope \<Rightarrow> bool" where
  "counted w ev \<longleftrightarrow> (sw_ContainersOnly w \<longrightarrow> isContainer (ev_ContainerName ev))"

text \<open>The query type of a DNS event, empty when its metadata has none.\<close>

definition query_type :: "EventEnvelope \<Rightarrow> string" where
  "query_type ev = (case string_meta (ev_Metadata ev) ''query_type'' of None \<Rightarrow> [] | Some q \<Rightarrow> q)"

definition specific_child :: "EventEnvelope \<Rightarrow> child list" where
  "specific_child ev = (let lvs = labels_of (ev_ContainerName ev); ty = ev_EventType ev in
     if ty = EventTypeFork then [(''ebpf_lineage_forks_total'', lvs)]
     else if ty = EventTypeExec then [(''ebpf_exec_events_total'', lvs)]
     else if ty = EventTypeDNSQuery then [(''ebpf_dns_queries_total'', lvs @ [query_type ev])]
     else if ty = EventTypePrivEsc then [(''ebpf_privilege_escalations_total'', lvs)]
     else if ty = EventTypeEscapeIndicator then [(''ebpf_escape_indicators_total'', lvs)]
     else [])"

definition event_children :: "'w PrometheusSecurityEventWriter \<Rightarrow> EventEnvelope \<Rightarrow> child list" where
  "event_children w ev = (if counted w ev
     then (''ebpf_security_events_total'', labels_of (ev_ContainerName ev) @ [ev_EventType ev]) # specific_child ev else [])"

lemma inc_counter_ok:
  "prom_laws P \<Longrightarrow> length lvs = length (v_Labels v) \<Longrightarrow> inc_counter P v lvs m = Inr (pm_inc P (v_Name v, lvs) m)"
  by (simp add: inc_counter_def prom_laws_def)

lemma Prom_Write_children:
  assumes "prom_laws P" and "sw_Exporter w = NewPrometheusExporter"
  shows "Prom_Write P w ev (m, s) = Inr (foldl (\<lambda>m c. pm_inc P c m) m (event_children w ev), inner_write w ev s)"
proof -
  have "write_specific P NewPrometheusExporter ev (labels_of (ev_ContainerName ev)) m =
      Inr (foldl (\<lambda>m c. pm_inc P c m) m (specific_child ev))" for m
    by (simp add: write_specific_def specific_child_def query_type_def inc_counter_ok [OF assms(1)] Let_def)
  then show ?thesis
    using assms(2) by (auto simp: Prom_Write_def event_children_def counted_def inc_counter_ok [OF assms(1)] Let_def)
qed

lemma Prom_Write_run:
  assumes "prom_laws P" and "sw_Exporter w = NewPrometheusExporter"
  shows "go_fold (Prom_Write P w) evs (m, s) =
    Inr (foldl (\<lambda>m c. pm_inc P c m) m (concat (map (event_children w) evs)), foldl (\<lambda>s ev. inner_write w ev s) s evs)"
  by (induction evs arbitrary: m s) (simp_all add: Prom_Write_children [OF assms])

lemma incs_counter:
  assumes "prom_laws P"
  shows "pm_counter P (foldl (\<lambda>m c. pm_inc P c m) m cs) d = pm_counter P m d + count_list cs d"
    and "pm_gauge P (foldl (\<lambda>m c. pm_inc P c m) m cs) d = pm_gauge P m d"
proof -
  have "pm_counter P (pm_inc P c m) d = pm_counter P m d + (if d = c then 1 else 0)"
    "pm_gauge P (pm_inc P c m) d = pm_gauge P m d" for c m d
    using assms unfolding prom_laws_def by blast+
  then show "pm_counter P (foldl (\<lambda>m c. pm_inc P c m) m cs) d = pm_counter P m d + count_list cs d"
    "pm_gauge P (foldl (\<lambda>m c. pm_inc P c m) m cs) d = pm_gauge P m d"
    by (induction cs arbitrary: m) simp_all
qed

lemma count_children:
  assumes "\<And>ev. count_list (event_children w ev) d = (if Q ev then 1 else 0)"
  shows "count_list (concat (map (event_children w) evs)) d = length (filter Q evs)"
  by (induction evs) (simp_all add: assms)

lemma event_types_distinct [simp]:
  "distinct [EventTypeFork, EventTypeExec, EventTypeDNSQuery, EventTypePrivEsc, EventTypeEscapeIndicator]"
  by (simp add: EventTypeFork_def EventTypeExec_def EventTypeDNSQuery_def EventTypePrivEsc_def EventTypeEscapeIndicator_def)

lemma labels_snoc: "labels_of s @ [t] = l @ [u] \<longleftrightarrow> labels_of s = l \<and> t = u"
  by simp

text \<open>How often one event increments each counter.\<close>

lemma count_event_children:
  "count_list (event_children w ev) (''ebpf_security_events_total'', l @ [ty]) =
     (if counted w ev \<and> labels_of (ev_ContainerName ev) = l \<and> ev_EventType ev = ty then 1 else 0)"
  "count_list (event_children w ev) (''ebpf_lineage_forks_total'', l) =
     (if counted w ev \<and> labels_of (ev_ContainerName ev) = l \<and> ev_EventType ev = EventTypeFork then 1 else 0)"
  "count_list (event_children w ev) (''ebpf_exec_events_total'', l) =
     (if counted w ev \<and> labels_of (ev_ContainerName ev) = l \<and> ev_EventType ev = EventTypeExec then 1 else 0)"
  "count_list (event_children w ev) (''ebpf_privilege_escalations_total'', l) =
     (if counted w ev \<and> labels_of (ev_ContainerName ev) = l \<and> ev_EventType ev = EventTypePrivEsc then 1 else 0)"
  "count_list (event_children w ev) (''ebpf_escape_indicators_total'', l) =
     (if counted w ev \<and> labels_of (ev_ContainerName ev) = l \<and> ev_EventType ev = EventTypeEscapeIndicator then 1 else 0)"
  "count_list (event_children w ev) (''ebpf_dns_queries_total'', l @ [qt]) =
     (if counted w ev \<and> labels_of (ev_ContainerName ev) = l \<and> ev_EventType ev = EventTypeDNSQuery \<and> query_type ev = qt then 1 else 0)"
  using event_types_distinct
  by (auto simp: event_children_def specific_child_def Let_def simp del: event_types_distinct)

text \<open>
  C38: For any sequence of security events the writer never panics, hands every event to the inner
  writer in order, and adds to each counter exactly the number of counted events with its labels and
  type: all events, or only those of containers when \<^verbatim>\<open>ContainersOnly\<close> is set. The DNS counter is
  kept per query type too, the string under \<^verbatim>\<open>query_type\<close> in the metadata (empty when there is none). The
  total counter of a type therefore always agrees with the specific ones. Gauges are unchanged.
\<close>

theorem security_counters_exact:
  assumes "prom_laws P" and "sw_Exporter w = NewPrometheusExporter"
  shows "\<exists>m' s'. go_fold (Prom_Write P w) evs (m, s) = Inr (m', s') \<and>
     s' = foldl (\<lambda>s ev. inner_write w ev s) s evs \<and>
     (\<forall>l ty. pm_counter P m' (''ebpf_security_events_total'', l @ [ty]) = pm_counter P m (''ebpf_security_events_total'', l @ [ty]) +
        length (filter (\<lambda>ev. counted w ev \<and> labels_of (ev_ContainerName ev) = l \<and> ev_EventType ev = ty) evs)) \<and>
     (\<forall>l. pm_counter P m' (''ebpf_lineage_forks_total'', l) = pm_counter P m (''ebpf_lineage_forks_total'', l) +
        length (filter (\<lambda>ev. counted w ev \<and> labels_of (ev_ContainerName ev) = l \<and> ev_EventType ev = EventTypeFork) evs)) \<and>
     (\<forall>l. pm_counter P m' (''ebpf_exec_events_total'', l) = pm_counter P m (''ebpf_exec_events_total'', l) +
        length (filter (\<lambda>ev. counted w ev \<and> labels_of (ev_ContainerName ev) = l \<and> ev_EventType ev = EventTypeExec) evs)) \<and>
     (\<forall>l. pm_counter P m' (''ebpf_privilege_escalations_total'', l) = pm_counter P m (''ebpf_privilege_escalations_total'', l) +
        length (filter (\<lambda>ev. counted w ev \<and> labels_of (ev_ContainerName ev) = l \<and> ev_EventType ev = EventTypePrivEsc) evs)) \<and>
     (\<forall>l. pm_counter P m' (''ebpf_escape_indicators_total'', l) = pm_counter P m (''ebpf_escape_indicators_total'', l) +
        length (filter (\<lambda>ev. counted w ev \<and> labels_of (ev_ContainerName ev) = l \<and> ev_EventType ev = EventTypeEscapeIndicator) evs)) \<and>
     (\<forall>l qt. pm_counter P m' (''ebpf_dns_queries_total'', l @ [qt]) = pm_counter P m (''ebpf_dns_queries_total'', l @ [qt]) +
        length (filter (\<lambda>ev. counted w ev \<and> labels_of (ev_ContainerName ev) = l \<and> ev_EventType ev = EventTypeDNSQuery \<and>
          (case string_meta (ev_Metadata ev) ''query_type'' of None \<Rightarrow> [] | Some q \<Rightarrow> q) = qt) evs)) \<and>
     (\<forall>d. pm_gauge P m' d = pm_gauge P m d)"
proof -
  define m' where "m' = foldl (\<lambda>m c. pm_inc P c m) m (concat (map (event_children w) evs))"
  have run: "go_fold (Prom_Write P w) evs (m, s) = Inr (m', foldl (\<lambda>s ev. inner_write w ev s) s evs)"
    by (simp add: Prom_Write_run [OF assms(1,2)] m'_def)
  have cnt: "pm_counter P m' d = pm_counter P m d + count_list (concat (map (event_children w) evs)) d"
    and ga: "pm_gauge P m' d = pm_gauge P m d" for d
    by (simp_all add: m'_def incs_counter [OF assms(1)])
  show ?thesis unfolding run query_type_def [symmetric]
    by (rule exI, rule exI, rule conjI [OF refl]) (intro conjI allI refl ga;
      simp only: cnt count_children [OF count_event_children(1)] count_children [OF count_event_children(2)]
      count_children [OF count_event_children(3)] count_children [OF count_event_children(4)] count_children [OF count_event_children(5)]
      count_children [OF count_event_children(6)])
qed

definition log_writer :: "bool \<Rightarrow> EventEnvelope list PrometheusSecurityEventWriter" where
  "log_writer only = \<lparr>sw_Inner = Some (\<lambda>ev evs. evs @ [ev]), sw_Exporter = NewPrometheusExporter, sw_ContainersOnly = only\<rparr>"

definition dns_sample :: EventEnvelope where
  "dns_sample = (plain_event EventTypeDNSQuery 7 1 2)\<lparr>ev_ContainerName := ''docker:web'', ev_Metadata := [(''query_type'', AnyString ''AAAA'')]\<rparr>"

theorem security_counters_exact_witness:
  "\<exists>m' s'. go_fold (Prom_Write map_registry (log_writer True)) [plain_event EventTypeExec 7 1 2, dns_sample] ((\<lambda>_. None, \<lambda>_. 0), []) = Inr (m', s') \<and>
     s' = [plain_event EventTypeExec 7 1 2, dns_sample] \<and>
     pm_counter map_registry m' (''ebpf_dns_queries_total'', labels_of ''docker:web'' @ [''AAAA'']) = 1 \<and>
     pm_counter map_registry m' (''ebpf_exec_events_total'', labels_of []) = 0"
proof -
  have e: "sw_Exporter (log_writer True) = NewPrometheusExporter" by (simp add: log_writer_def)
  have c: "counted (log_writer True) dns_sample" "\<not> counted (log_writer True) (plain_event EventTypeExec 7 1 2)"
    by (simp_all add: counted_def log_writer_def dns_sample_def plain_event_def isContainer_def zero_event_def)
  have d: "ev_ContainerName dns_sample = ''docker:web''" "ev_EventType dns_sample = EventTypeDNSQuery" "string_meta (ev_Metadata dns_sample) ''query_type'' = Some ''AAAA''"
    "EventTypeDNSQuery \<noteq> EventTypeExec"
    by (simp_all add: dns_sample_def plain_event_def string_meta_def EventTypeDNSQuery_def EventTypeExec_def)
  from security_counters_exact [OF map_registry_laws e, of "[plain_event EventTypeExec 7 1 2, dns_sample]" "(\<lambda>_. None, \<lambda>_. 0)" "[]"]
  show ?thesis using c d by (elim exE conjE) (intro exI conjI, assumption, simp_all add: inner_write_def log_writer_def map_registry_def)
qed

end
