(* ===== verification/SecurityRecords.thy ===== *)
theory SecurityRecords
  imports Wire
begin

text \<open>
  The raw records of the exec, DNS, privilege-escalation and container-escape collectors
  (pkg/collector/exec.go, dns.go, privesc.go, escape.go), their decoders, the C layouts they
  invert, and the interpretations of \<open>raw_record\<close> for each of them.
\<close>

section \<open>Exec events\<close>

record execEventRaw =
  ex_CgroupID :: u64
  ex_TsNs :: u64
  ex_TGID :: u32
  ex_PPID :: u32
  ex_Path :: bytes
  ex_Argv :: bytes
  ex_ArgvCount :: u32
  ex_ArgvTotalLen :: u32
  ex_ArgvTruncated :: u8
  ex_PathTruncated :: u8

definition execEventSize :: int where "execEventSize = 2344"

definition parseExecEvent :: "bytes \<Rightarrow> execEventRaw go" where
  "parseExecEvent data =
     go_bind (u64_at data 0) (\<lambda>cgroupID.
     go_bind (u64_at data 8) (\<lambda>tsNs.
     go_bind (u32_at data 16) (\<lambda>tGID.
     go_bind (u32_at data 20) (\<lambda>pPID.
     go_bind (array_at data 24 256) (\<lambda>path.
     go_bind (array_at data 280 2048) (\<lambda>argv.
     go_bind (u32_at data 2328) (\<lambda>argvCount.
     go_bind (u32_at data 2332) (\<lambda>argvTotalLen.
     go_bind (u8_at data 2336) (\<lambda>argvTruncated.
     go_bind (u8_at data 2337) (\<lambda>pathTruncated. Inr
       \<lparr>ex_CgroupID = cgroupID, ex_TsNs = tsNs, ex_TGID = tGID, ex_PPID = pPID, ex_Path = path,
        ex_Argv = argv, ex_ArgvCount = argvCount, ex_ArgvTotalLen = argvTotalLen, ex_ArgvTruncated =
        argvTruncated, ex_PathTruncated = pathTruncated\<rparr>))))))))))"

definition encodeExecEvent :: "execEventRaw \<Rightarrow> bytes" where
  "encodeExecEvent r =
     le_bytes 8 (ex_CgroupID r) @ le_bytes 8 (ex_TsNs r) @ le_bytes 4 (ex_TGID r) @
     le_bytes 4 (ex_PPID r) @ ex_Path r @ ex_Argv r @ le_bytes 4 (ex_ArgvCount r) @
     le_bytes 4 (ex_ArgvTotalLen r) @ [ex_ArgvTruncated r] @ [ex_PathTruncated r] @
     replicate 6 0"

definition execEvent_wf :: "execEventRaw \<Rightarrow> bool" where
  "execEvent_wf r \<longleftrightarrow> length (ex_Path r) = 256 \<and> length (ex_Argv r) = 2048"

lemma parseExecEvent_total:
  assumes "execEventSize \<le> int (length d)"
  shows "\<exists>r. parseExecEvent d = Inr r \<and> execEvent_wf r"
proof -
  have l: "2344 \<le> int (length d)" using assms by (simp add: execEventSize_def)
  show ?thesis
    using l at_total(1) [of 0 d] at_total(1) [of 8 d] at_total(2) [of 16 d] at_total(2) [of 20 d]
      at_total(5) [of 24 256 d] at_total(5) [of 280 2048 d] at_total(2) [of 2328 d]
      at_total(2) [of 2332 d] at_total(4) [of 2336 d] at_total(4) [of 2337 d]
    by (auto simp: parseExecEvent_def execEvent_wf_def)
qed

lemma parseExecEvent_encode:
  assumes "execEvent_wf r"
  shows "parseExecEvent (encodeExecEvent r @ junk) = Inr r"
proof -
  let ?f0 = "le_bytes 8 (ex_CgroupID r)"
    and ?f1 = "le_bytes 8 (ex_TsNs r)"
    and ?f2 = "le_bytes 4 (ex_TGID r)"
    and ?f3 = "le_bytes 4 (ex_PPID r)"
    and ?f4 = "ex_Path r"
    and ?f5 = "ex_Argv r"
    and ?f6 = "le_bytes 4 (ex_ArgvCount r)"
    and ?f7 = "le_bytes 4 (ex_ArgvTotalLen r)"
    and ?f8 = "[ex_ArgvTruncated r]"
    and ?f9 = "[ex_PathTruncated r]"
    and ?z = "replicate 6 0 @ junk"
  have len: "length (ex_Path r) = 256" "length (ex_Argv r) = 2048" using assms by (simp_all add: execEvent_wf_def)
  have data: "encodeExecEvent r @ junk = ?f0 @ ?f1 @ ?f2 @ ?f3 @ ?f4 @ ?f5 @ ?f6 @ ?f7 @ ?f8 @ ?f9 @ ?z" by (simp add: encodeExecEvent_def)
  note fields =
    at_field(1) [of 0 "[]" "ex_CgroupID r" "?f1 @ ?f2 @ ?f3 @ ?f4 @ ?f5 @ ?f6 @ ?f7 @ ?f8 @ ?f9 @ ?z"]
    at_field(1) [of 8 "?f0" "ex_TsNs r" "?f2 @ ?f3 @ ?f4 @ ?f5 @ ?f6 @ ?f7 @ ?f8 @ ?f9 @ ?z"]
    at_field(2) [of 16 "?f0 @ ?f1" "ex_TGID r" "?f3 @ ?f4 @ ?f5 @ ?f6 @ ?f7 @ ?f8 @ ?f9 @ ?z"]
    at_field(2) [of 20 "?f0 @ ?f1 @ ?f2" "ex_PPID r" "?f4 @ ?f5 @ ?f6 @ ?f7 @ ?f8 @ ?f9 @ ?z"]
    at_field(5) [of 24 "?f0 @ ?f1 @ ?f2 @ ?f3" "ex_Path r" 256 "?f5 @ ?f6 @ ?f7 @ ?f8 @ ?f9 @ ?z"]
    at_field(5) [of 280 "?f0 @ ?f1 @ ?f2 @ ?f3 @ ?f4" "ex_Argv r" 2048 "?f6 @ ?f7 @ ?f8 @ ?f9 @ ?z"]
    at_field(2) [of 2328 "?f0 @ ?f1 @ ?f2 @ ?f3 @ ?f4 @ ?f5" "ex_ArgvCount r" "?f7 @ ?f8 @ ?f9 @ ?z"]
    at_field(2) [of 2332 "?f0 @ ?f1 @ ?f2 @ ?f3 @ ?f4 @ ?f5 @ ?f6" "ex_ArgvTotalLen r" "?f8 @ ?f9 @ ?z"]
    at_field(4) [of 2336 "?f0 @ ?f1 @ ?f2 @ ?f3 @ ?f4 @ ?f5 @ ?f6 @ ?f7" "ex_ArgvTruncated r" "?f9 @ ?z"]
    at_field(4) [of 2337 "?f0 @ ?f1 @ ?f2 @ ?f3 @ ?f4 @ ?f5 @ ?f6 @ ?f7 @ ?f8" "ex_PathTruncated r" "?z"]
  show ?thesis unfolding data parseExecEvent_def using fields len by simp
qed
interpretation exec_rec: raw_record execEventSize parseExecEvent encodeExecEvent execEvent_wf
  by unfold_locales (fact parseExecEvent_total, fact parseExecEvent_encode,
      simp add: encodeExecEvent_def execEvent_wf_def execEventSize_def)

section \<open>DNS events\<close>

record dnsEventRaw =
  dn_CgroupID :: u64
  dn_SendTsNs :: u64
  dn_LatencyNs :: u64
  dn_TGID :: u32
  dn_PPID :: u32
  dn_Comm :: bytes
  dn_QName :: bytes
  dn_QType :: u16
  dn_RCode :: u16
  dn_HasResponse :: u8
  dn_ViaConnect :: u8

definition dnsEventSize :: int where "dnsEventSize = 312"

definition parseDNSEvent :: "bytes \<Rightarrow> dnsEventRaw go" where
  "parseDNSEvent data =
     go_bind (u64_at data 0) (\<lambda>cgroupID.
     go_bind (u64_at data 8) (\<lambda>sendTsNs.
     go_bind (u64_at data 16) (\<lambda>latencyNs.
     go_bind (u32_at data 24) (\<lambda>tGID.
     go_bind (u32_at data 28) (\<lambda>pPID.
     go_bind (array_at data 32 16) (\<lambda>comm.
     go_bind (array_at data 48 256) (\<lambda>qName.
     go_bind (u16_at data 304) (\<lambda>qType.
     go_bind (u16_at data 306) (\<lambda>rCode.
     go_bind (u8_at data 308) (\<lambda>hasResponse.
     go_bind (u8_at data 309) (\<lambda>viaConnect. Inr
       \<lparr>dn_CgroupID = cgroupID, dn_SendTsNs = sendTsNs, dn_LatencyNs = latencyNs, dn_TGID = tGID,
        dn_PPID = pPID, dn_Comm = comm, dn_QName = qName, dn_QType = qType, dn_RCode = rCode,
        dn_HasResponse = hasResponse, dn_ViaConnect = viaConnect\<rparr>)))))))))))"

definition encodeDNSEvent :: "dnsEventRaw \<Rightarrow> bytes" where
  "encodeDNSEvent r =
     le_bytes 8 (dn_CgroupID r) @ le_bytes 8 (dn_SendTsNs r) @ le_bytes 8 (dn_LatencyNs r) @
     le_bytes 4 (dn_TGID r) @ le_bytes 4 (dn_PPID r) @ dn_Comm r @ dn_QName r @
     le_bytes 2 (dn_QType r) @ le_bytes 2 (dn_RCode r) @ [dn_HasResponse r] @
     [dn_ViaConnect r] @ replicate 2 0"

definition dnsEvent_wf :: "dnsEventRaw \<Rightarrow> bool" where
  "dnsEvent_wf r \<longleftrightarrow> length (dn_Comm r) = 16 \<and> length (dn_QName r) = 256"

lemma parseDNSEvent_total:
  assumes "dnsEventSize \<le> int (length d)"
  shows "\<exists>r. parseDNSEvent d = Inr r \<and> dnsEvent_wf r"
proof -
  have l: "312 \<le> int (length d)" using assms by (simp add: dnsEventSize_def)
  show ?thesis
    using l at_total(1) [of 0 d] at_total(1) [of 8 d] at_total(1) [of 16 d] at_total(2) [of 24 d]
      at_total(2) [of 28 d] at_total(5) [of 32 16 d] at_total(5) [of 48 256 d]
      at_total(3) [of 304 d] at_total(3) [of 306 d] at_total(4) [of 308 d] at_total(4) [of 309 d]
    by (auto simp: parseDNSEvent_def dnsEvent_wf_def)
qed

lemma parseDNSEvent_encode:
  assumes "dnsEvent_wf r"
  shows "parseDNSEvent (encodeDNSEvent r @ junk) = Inr r"
proof -
  let ?f0 = "le_bytes 8 (dn_CgroupID r)"
    and ?f1 = "le_bytes 8 (dn_SendTsNs r)"
    and ?f2 = "le_bytes 8 (dn_LatencyNs r)"
    and ?f3 = "le_bytes 4 (dn_TGID r)"
    and ?f4 = "le_bytes 4 (dn_PPID r)"
    and ?f5 = "dn_Comm r"
    and ?f6 = "dn_QName r"
    and ?f7 = "le_bytes 2 (dn_QType r)"
    and ?f8 = "le_bytes 2 (dn_RCode r)"
    and ?f9 = "[dn_HasResponse r]"
    and ?f10 = "[dn_ViaConnect r]"
    and ?z = "replicate 2 0 @ junk"
  have len: "length (dn_Comm r) = 16" "length (dn_QName r) = 256" using assms by (simp_all add: dnsEvent_wf_def)
  have data: "encodeDNSEvent r @ junk = ?f0 @ ?f1 @ ?f2 @ ?f3 @ ?f4 @ ?f5 @ ?f6 @ ?f7 @ ?f8 @ ?f9 @ ?f10 @ ?z" by (simp add: encodeDNSEvent_def)
  note fields =
    at_field(1) [of 0 "[]" "dn_CgroupID r" "?f1 @ ?f2 @ ?f3 @ ?f4 @ ?f5 @ ?f6 @ ?f7 @ ?f8 @ ?f9 @ ?f10 @ ?z"]
    at_field(1) [of 8 "?f0" "dn_SendTsNs r" "?f2 @ ?f3 @ ?f4 @ ?f5 @ ?f6 @ ?f7 @ ?f8 @ ?f9 @ ?f10 @ ?z"]
    at_field(1) [of 16 "?f0 @ ?f1" "dn_LatencyNs r" "?f3 @ ?f4 @ ?f5 @ ?f6 @ ?f7 @ ?f8 @ ?f9 @ ?f10 @ ?z"]
    at_field(2) [of 24 "?f0 @ ?f1 @ ?f2" "dn_TGID r" "?f4 @ ?f5 @ ?f6 @ ?f7 @ ?f8 @ ?f9 @ ?f10 @ ?z"]
    at_field(2) [of 28 "?f0 @ ?f1 @ ?f2 @ ?f3" "dn_PPID r" "?f5 @ ?f6 @ ?f7 @ ?f8 @ ?f9 @ ?f10 @ ?z"]
    at_field(5) [of 32 "?f0 @ ?f1 @ ?f2 @ ?f3 @ ?f4" "dn_Comm r" 16 "?f6 @ ?f7 @ ?f8 @ ?f9 @ ?f10 @ ?z"]
    at_field(5) [of 48 "?f0 @ ?f1 @ ?f2 @ ?f3 @ ?f4 @ ?f5" "dn_QName r" 256 "?f7 @ ?f8 @ ?f9 @ ?f10 @ ?z"]
    at_field(3) [of 304 "?f0 @ ?f1 @ ?f2 @ ?f3 @ ?f4 @ ?f5 @ ?f6" "dn_QType r" "?f8 @ ?f9 @ ?f10 @ ?z"]
    at_field(3) [of 306 "?f0 @ ?f1 @ ?f2 @ ?f3 @ ?f4 @ ?f5 @ ?f6 @ ?f7" "dn_RCode r" "?f9 @ ?f10 @ ?z"]
    at_field(4) [of 308 "?f0 @ ?f1 @ ?f2 @ ?f3 @ ?f4 @ ?f5 @ ?f6 @ ?f7 @ ?f8" "dn_HasResponse r" "?f10 @ ?z"]
    at_field(4) [of 309 "?f0 @ ?f1 @ ?f2 @ ?f3 @ ?f4 @ ?f5 @ ?f6 @ ?f7 @ ?f8 @ ?f9" "dn_ViaConnect r" "?z"]
  show ?thesis unfolding data parseDNSEvent_def using fields len by simp
qed
interpretation dns_rec: raw_record dnsEventSize parseDNSEvent encodeDNSEvent dnsEvent_wf
  by unfold_locales (fact parseDNSEvent_total, fact parseDNSEvent_encode,
      simp add: encodeDNSEvent_def dnsEvent_wf_def dnsEventSize_def)

section \<open>Privilege-escalation events\<close>

record privescEventRaw =
  pe_CgroupID :: u64
  pe_TsNs :: u64
  pe_TGID :: u32
  pe_PPID :: u32
  pe_Comm :: bytes
  pe_ParentComm :: bytes
  pe_OldUID :: u32
  pe_NewUID :: u32
  pe_EscType :: u32
  pe_Cap :: u32
  pe_PtracePID :: u32
  pe_Pad :: u32

definition privescEventSize :: int where "privescEventSize = 80"

definition parsePrivEscEvent :: "bytes \<Rightarrow> privescEventRaw go" where
  "parsePrivEscEvent data =
     go_bind (u64_at data 0) (\<lambda>cgroupID.
     go_bind (u64_at data 8) (\<lambda>tsNs.
     go_bind (u32_at data 16) (\<lambda>tGID.
     go_bind (u32_at data 20) (\<lambda>pPID.
     go_bind (array_at data 24 16) (\<lambda>comm.
     go_bind (array_at data 40 16) (\<lambda>parentComm.
     go_bind (u32_at data 56) (\<lambda>oldUID.
     go_bind (u32_at data 60) (\<lambda>newUID.
     go_bind (u32_at data 64) (\<lambda>escType.
     go_bind (u32_at data 68) (\<lambda>cap.
     go_bind (u32_at data 72) (\<lambda>ptracePID.
     go_bind (u32_at data 76) (\<lambda>pad. Inr
       \<lparr>pe_CgroupID = cgroupID, pe_TsNs = tsNs, pe_TGID = tGID, pe_PPID = pPID, pe_Comm = comm,
        pe_ParentComm = parentComm, pe_OldUID = oldUID, pe_NewUID = newUID, pe_EscType = escType,
        pe_Cap = cap, pe_PtracePID = ptracePID, pe_Pad = pad\<rparr>))))))))))))"

definition encodePrivEscEvent :: "privescEventRaw \<Rightarrow> bytes" where
  "encodePrivEscEvent r =
     le_bytes 8 (pe_CgroupID r) @ le_bytes 8 (pe_TsNs r) @ le_bytes 4 (pe_TGID r) @
     le_bytes 4 (pe_PPID r) @ pe_Comm r @ pe_ParentComm r @ le_bytes 4 (pe_OldUID r) @
     le_bytes 4 (pe_NewUID r) @ le_bytes 4 (pe_EscType r) @ le_bytes 4 (pe_Cap r) @
     le_bytes 4 (pe_PtracePID r) @ le_bytes 4 (pe_Pad r)"

definition privescEvent_wf :: "privescEventRaw \<Rightarrow> bool" where
  "privescEvent_wf r \<longleftrightarrow> length (pe_Comm r) = 16 \<and> length (pe_ParentComm r) = 16"

lemma parsePrivEscEvent_total:
  assumes "privescEventSize \<le> int (length d)"
  shows "\<exists>r. parsePrivEscEvent d = Inr r \<and> privescEvent_wf r"
proof -
  have l: "80 \<le> int (length d)" using assms by (simp add: privescEventSize_def)
  show ?thesis
    using l at_total(1) [of 0 d] at_total(1) [of 8 d] at_total(2) [of 16 d] at_total(2) [of 20 d]
      at_total(5) [of 24 16 d] at_total(5) [of 40 16 d] at_total(2) [of 56 d] at_total(2) [of 60 d]
      at_total(2) [of 64 d] at_total(2) [of 68 d] at_total(2) [of 72 d] at_total(2) [of 76 d]
    by (auto simp: parsePrivEscEvent_def privescEvent_wf_def)
qed

lemma parsePrivEscEvent_encode:
  assumes "privescEvent_wf r"
  shows "parsePrivEscEvent (encodePrivEscEvent r @ junk) = Inr r"
proof -
  let ?f0 = "le_bytes 8 (pe_CgroupID r)"
    and ?f1 = "le_bytes 8 (pe_TsNs r)"
    and ?f2 = "le_bytes 4 (pe_TGID r)"
    and ?f3 = "le_bytes 4 (pe_PPID r)"
    and ?f4 = "pe_Comm r"
    and ?f5 = "pe_ParentComm r"
    and ?f6 = "le_bytes 4 (pe_OldUID r)"
    and ?f7 = "le_bytes 4 (pe_NewUID r)"
    and ?f8 = "le_bytes 4 (pe_EscType r)"
    and ?f9 = "le_bytes 4 (pe_Cap r)"
    and ?f10 = "le_bytes 4 (pe_PtracePID r)"
    and ?f11 = "le_bytes 4 (pe_Pad r)"
    and ?z = "junk"
  have len: "length (pe_Comm r) = 16" "length (pe_ParentComm r) = 16" using assms by (simp_all add: privescEvent_wf_def)
  have data: "encodePrivEscEvent r @ junk = ?f0 @ ?f1 @ ?f2 @ ?f3 @ ?f4 @ ?f5 @ ?f6 @ ?f7 @ ?f8 @ ?f9 @ ?f10 @ ?f11 @ ?z" by (simp add: encodePrivEscEvent_def)
  note fields =
    at_field(1) [of 0 "[]" "pe_CgroupID r" "?f1 @ ?f2 @ ?f3 @ ?f4 @ ?f5 @ ?f6 @ ?f7 @ ?f8 @ ?f9 @ ?f10 @ ?f11 @ ?z"]
    at_field(1) [of 8 "?f0" "pe_TsNs r" "?f2 @ ?f3 @ ?f4 @ ?f5 @ ?f6 @ ?f7 @ ?f8 @ ?f9 @ ?f10 @ ?f11 @ ?z"]
    at_field(2) [of 16 "?f0 @ ?f1" "pe_TGID r" "?f3 @ ?f4 @ ?f5 @ ?f6 @ ?f7 @ ?f8 @ ?f9 @ ?f10 @ ?f11 @ ?z"]
    at_field(2) [of 20 "?f0 @ ?f1 @ ?f2" "pe_PPID r" "?f4 @ ?f5 @ ?f6 @ ?f7 @ ?f8 @ ?f9 @ ?f10 @ ?f11 @ ?z"]
    at_field(5) [of 24 "?f0 @ ?f1 @ ?f2 @ ?f3" "pe_Comm r" 16 "?f5 @ ?f6 @ ?f7 @ ?f8 @ ?f9 @ ?f10 @ ?f11 @ ?z"]
    at_field(5) [of 40 "?f0 @ ?f1 @ ?f2 @ ?f3 @ ?f4" "pe_ParentComm r" 16 "?f6 @ ?f7 @ ?f8 @ ?f9 @ ?f10 @ ?f11 @ ?z"]
    at_field(2) [of 56 "?f0 @ ?f1 @ ?f2 @ ?f3 @ ?f4 @ ?f5" "pe_OldUID r" "?f7 @ ?f8 @ ?f9 @ ?f10 @ ?f11 @ ?z"]
    at_field(2) [of 60 "?f0 @ ?f1 @ ?f2 @ ?f3 @ ?f4 @ ?f5 @ ?f6" "pe_NewUID r" "?f8 @ ?f9 @ ?f10 @ ?f11 @ ?z"]
    at_field(2) [of 64 "?f0 @ ?f1 @ ?f2 @ ?f3 @ ?f4 @ ?f5 @ ?f6 @ ?f7" "pe_EscType r" "?f9 @ ?f10 @ ?f11 @ ?z"]
    at_field(2) [of 68 "?f0 @ ?f1 @ ?f2 @ ?f3 @ ?f4 @ ?f5 @ ?f6 @ ?f7 @ ?f8" "pe_Cap r" "?f10 @ ?f11 @ ?z"]
    at_field(2) [of 72 "?f0 @ ?f1 @ ?f2 @ ?f3 @ ?f4 @ ?f5 @ ?f6 @ ?f7 @ ?f8 @ ?f9" "pe_PtracePID r" "?f11 @ ?z"]
    at_field(2) [of 76 "?f0 @ ?f1 @ ?f2 @ ?f3 @ ?f4 @ ?f5 @ ?f6 @ ?f7 @ ?f8 @ ?f9 @ ?f10" "pe_Pad r" "?z"]
  show ?thesis unfolding data parsePrivEscEvent_def using fields len by simp
qed
interpretation privesc_rec: raw_record privescEventSize parsePrivEscEvent encodePrivEscEvent privescEvent_wf
  by unfold_locales (fact parsePrivEscEvent_total, fact parsePrivEscEvent_encode,
      simp add: encodePrivEscEvent_def privescEvent_wf_def privescEventSize_def)

section \<open>Container-escape events\<close>

record escapeEventRaw =
  es_CgroupID :: u64
  es_TsNs :: u64
  es_TGID :: u32
  es_PPID :: u32
  es_Comm :: bytes
  es_ParentComm :: bytes
  es_IndicatorType :: u32
  es_NsFlags :: u32

definition escapeEventSize :: int where "escapeEventSize = 72"

definition parseEscapeEvent :: "bytes \<Rightarrow> escapeEventRaw go" where
  "parseEscapeEvent data =
     go_bind (u64_at data 0) (\<lambda>cgroupID.
     go_bind (u64_at data 8) (\<lambda>tsNs.
     go_bind (u32_at data 16) (\<lambda>tGID.
     go_bind (u32_at data 20) (\<lambda>pPID.
     go_bind (array_at data 24 16) (\<lambda>comm.
     go_bind (array_at data 40 16) (\<lambda>parentComm.
     go_bind (u32_at data 56) (\<lambda>indicatorType.
     go_bind (u32_at data 60) (\<lambda>nsFlags. Inr
       \<lparr>es_CgroupID = cgroupID, es_TsNs = tsNs, es_TGID = tGID, es_PPID = pPID, es_Comm = comm,
        es_ParentComm = parentComm, es_IndicatorType = indicatorType, es_NsFlags = nsFlags\<rparr>))))))))"

definition encodeEscapeEvent :: "escapeEventRaw \<Rightarrow> bytes" where
  "encodeEscapeEvent r =
     le_bytes 8 (es_CgroupID r) @ le_bytes 8 (es_TsNs r) @ le_bytes 4 (es_TGID r) @
     le_bytes 4 (es_PPID r) @ es_Comm r @ es_ParentComm r @ le_bytes 4 (es_IndicatorType r) @
     le_bytes 4 (es_NsFlags r) @ replicate 8 0"

definition escapeEvent_wf :: "escapeEventRaw \<Rightarrow> bool" where
  "escapeEvent_wf r \<longleftrightarrow> length (es_Comm r) = 16 \<and> length (es_ParentComm r) = 16"

lemma parseEscapeEvent_total:
  assumes "escapeEventSize \<le> int (length d)"
  shows "\<exists>r. parseEscapeEvent d = Inr r \<and> escapeEvent_wf r"
proof -
  have l: "72 \<le> int (length d)" using assms by (simp add: escapeEventSize_def)
  show ?thesis
    using l at_total(1) [of 0 d] at_total(1) [of 8 d] at_total(2) [of 16 d] at_total(2) [of 20 d]
      at_total(5) [of 24 16 d] at_total(5) [of 40 16 d] at_total(2) [of 56 d] at_total(2) [of 60 d]
    by (auto simp: parseEscapeEvent_def escapeEvent_wf_def)
qed

lemma parseEscapeEvent_encode:
  assumes "escapeEvent_wf r"
  shows "parseEscapeEvent (encodeEscapeEvent r @ junk) = Inr r"
proof -
  let ?f0 = "le_bytes 8 (es_CgroupID r)"
    and ?f1 = "le_bytes 8 (es_TsNs r)"
    and ?f2 = "le_bytes 4 (es_TGID r)"
    and ?f3 = "le_bytes 4 (es_PPID r)"
    and ?f4 = "es_Comm r"
    and ?f5 = "es_ParentComm r"
    and ?f6 = "le_bytes 4 (es_IndicatorType r)"
    and ?f7 = "le_bytes 4 (es_NsFlags r)"
    and ?z = "replicate 8 0 @ junk"
  have len: "length (es_Comm r) = 16" "length (es_ParentComm r) = 16" using assms by (simp_all add: escapeEvent_wf_def)
  have data: "encodeEscapeEvent r @ junk = ?f0 @ ?f1 @ ?f2 @ ?f3 @ ?f4 @ ?f5 @ ?f6 @ ?f7 @ ?z" by (simp add: encodeEscapeEvent_def)
  note fields =
    at_field(1) [of 0 "[]" "es_CgroupID r" "?f1 @ ?f2 @ ?f3 @ ?f4 @ ?f5 @ ?f6 @ ?f7 @ ?z"]
    at_field(1) [of 8 "?f0" "es_TsNs r" "?f2 @ ?f3 @ ?f4 @ ?f5 @ ?f6 @ ?f7 @ ?z"]
    at_field(2) [of 16 "?f0 @ ?f1" "es_TGID r" "?f3 @ ?f4 @ ?f5 @ ?f6 @ ?f7 @ ?z"]
    at_field(2) [of 20 "?f0 @ ?f1 @ ?f2" "es_PPID r" "?f4 @ ?f5 @ ?f6 @ ?f7 @ ?z"]
    at_field(5) [of 24 "?f0 @ ?f1 @ ?f2 @ ?f3" "es_Comm r" 16 "?f5 @ ?f6 @ ?f7 @ ?z"]
    at_field(5) [of 40 "?f0 @ ?f1 @ ?f2 @ ?f3 @ ?f4" "es_ParentComm r" 16 "?f6 @ ?f7 @ ?z"]
    at_field(2) [of 56 "?f0 @ ?f1 @ ?f2 @ ?f3 @ ?f4 @ ?f5" "es_IndicatorType r" "?f7 @ ?z"]
    at_field(2) [of 60 "?f0 @ ?f1 @ ?f2 @ ?f3 @ ?f4 @ ?f5 @ ?f6" "es_NsFlags r" "?z"]
  show ?thesis unfolding data parseEscapeEvent_def using fields len by simp
qed
interpretation escape_rec: raw_record escapeEventSize parseEscapeEvent encodeEscapeEvent escapeEvent_wf
  by unfold_locales (fact parseEscapeEvent_total, fact parseEscapeEvent_encode,
      simp add: encodeEscapeEvent_def escapeEvent_wf_def escapeEventSize_def)

end
