(* ===== verification/SecurityCollectors.thy ===== *)
theory SecurityCollectors
  imports SecurityRecords Lineage
begin

text \<open>
  From raw records to envelopes: the exec, DNS, privilege-escalation and container-escape
  collectors (pkg/collector/exec.go, dns.go, privesc.go, escape.go). The lineage interface is the
  record \<open>lineage_api\<close> (\<open>None\<close> when the collector was built without one), the resolver's answers
  are \<open>resolve\<close>, and \<open>boot\<close> is the boot-time offset.
\<close>

record lineage_api =
  l_Lookup :: "u64 \<Rightarrow> u32 \<Rightarrow> LineageEntry option"
  l_Ancestors :: "u64 \<Rightarrow> u32 \<Rightarrow> int \<Rightarrow> LineageEntry list \<times> bool"

type_synonym resolve_fn = "u64 \<Rightarrow> ContainerInfo option"

definition parent_comm :: "lineage_api option \<Rightarrow> u64 \<Rightarrow> u32 \<Rightarrow> string \<Rightarrow> string" where
  "parent_comm lin cg ppid dflt = (case lin of None \<Rightarrow> dflt
     | Some l \<Rightarrow> (case l_Lookup l cg ppid of None \<Rightarrow> dflt | Some e \<Rightarrow> lin_Comm e))"

definition lineage_of :: "tree_map \<Rightarrow> u64 \<Rightarrow> lineage_api" where
  "lineage_of tree boot = \<lparr>l_Lookup = Lookup_lineage tree boot, l_Ancestors = Ancestors_lineage tree boot\<rparr>"

section \<open>Exec\<close>

function argv_split :: "bytes \<Rightarrow> string list" where
  "argv_split d =
     (let w = takeWhile (\<lambda>b. b \<noteq> 0) d; rest = dropWhile (\<lambda>b. b \<noteq> 0) d;
          args = (if w \<noteq> [] then [string_of_bytes w] else [])
      in case rest of [] \<Rightarrow> args | _ # r \<Rightarrow> args @ argv_split r)"
  by auto
termination
proof (relation "measure length")
  fix d w rest args x r
  assume a: "rest = dropWhile (\<lambda>b. b \<noteq> 0) d" "rest = x # r"
  have "length rest \<le> length d" unfolding a(1) by (rule length_dropWhile_le)
  with a(2) show "(r, d) \<in> measure length" by simp
qed simp

declare argv_split.simps [simp del]

definition decodeArgv :: "bytes \<Rightarrow> u32 \<Rightarrow> string list" where
  "decodeArgv buf totalLen =
     (if totalLen = 0 \<or> int (length buf) < uint totalLen then []
      else argv_split (take (unat totalLen) buf))"

definition execEventToEnvelope ::
  "resolve_fn \<Rightarrow> lineage_api option \<Rightarrow> u64 \<Rightarrow> execEventRaw \<Rightarrow> EventEnvelope" where
  "execEventToEnvelope resolve lin boot raw =
     (let name = container_name resolve (ex_CgroupID raw);
          path = nullTermStr (ex_Path raw);
          process = basename path;
          parentProcess = parent_comm lin (ex_CgroupID raw) (ex_PPID raw) [];
          argv = decodeArgv (ex_Argv raw) (ex_ArgvTotalLen raw)
      in \<lparr>ev_Timestamp = wall_clock (ex_TsNs raw) boot, ev_CgroupID = ex_CgroupID raw,
          ev_ContainerName = name, ev_PID = ex_TGID raw, ev_PPID = ex_PPID raw, ev_Process = process,
          ev_ParentProcess = parentProcess, ev_EventType = EventTypeExec, ev_AncestryTruncated = False,
          ev_Metadata = [(''container'', AnyString name), (''full_path'', AnyString path),
            (''argv'', AnyStrings argv), (''argv_truncated'', AnyBool (ex_ArgvTruncated raw = 1)),
            (''path_truncated'', AnyBool (ex_PathTruncated raw = 1)), (''arg_count'', AnyU32 (ex_ArgvCount raw))]\<rparr>)"

definition ReadExecEvents ::
  "resolve_fn \<Rightarrow> lineage_api option \<Rightarrow> u64 \<Rightarrow> bytes list \<Rightarrow> EventEnvelope list go" where
  "ReadExecEvents resolve lin boot recs =
     drain_records execEventSize parseExecEvent (execEventToEnvelope resolve lin boot) recs"

section \<open>DNS\<close>

definition qtypeNames :: "(u16, string) gomap" where
  "qtypeNames = [(1, ''A''), (2, ''NS''), (5, ''CNAME''), (6, ''SOA''), (12, ''PTR''), (15, ''MX''),
     (16, ''TXT''), (28, ''AAAA''), (33, ''SRV''), (255, ''ANY'')]"

definition rcodeNames :: "(u16, string) gomap" where
  "rcodeNames = [(0, ''NOERROR''), (1, ''FORMERR''), (2, ''SERVFAIL''), (3, ''NXDOMAIN''),
     (4, ''NOTIMP''), (5, ''REFUSED'')]"

definition qtypeName :: "u16 \<Rightarrow> string" where
  "qtypeName qt = (case map_of qtypeNames qt of Some s \<Rightarrow> s | None \<Rightarrow> ''TYPE'' @ show_nat (unat qt))"

definition rcodeName :: "u16 \<Rightarrow> string" where
  "rcodeName rc = (case map_of rcodeNames rc of Some s \<Rightarrow> s | None \<Rightarrow> ''RCODE'' @ show_nat (unat rc))"

definition resolverStyle :: "u8 \<Rightarrow> string" where
  "resolverStyle viaConnect = (if viaConnect = 1 then ''connected'' else ''sendto'')"

definition dnsEventToEnvelope ::
  "resolve_fn \<Rightarrow> lineage_api option \<Rightarrow> u64 \<Rightarrow> dnsEventRaw \<Rightarrow> EventEnvelope" where
  "dnsEventToEnvelope resolve lin boot raw =
     (let name = container_name resolve (dn_CgroupID raw) in
      \<lparr>ev_Timestamp = wall_clock (dn_SendTsNs raw) boot, ev_CgroupID = dn_CgroupID raw,
       ev_ContainerName = name, ev_PID = dn_TGID raw, ev_PPID = dn_PPID raw,
       ev_Process = nullTermStr (dn_Comm raw),
       ev_ParentProcess = parent_comm lin (dn_CgroupID raw) (dn_PPID raw) [],
       ev_EventType = EventTypeDNSQuery, ev_AncestryTruncated = False,
       ev_Metadata = [(''container'', AnyString name), (''query'', AnyString (nullTermStr (dn_QName raw))),
         (''query_type'', AnyString (qtypeName (dn_QType raw))), (''qtype_num'', AnyU16 (dn_QType raw)),
         (''rcode'', AnyString (rcodeName (dn_RCode raw))), (''rcode_num'', AnyU16 (dn_RCode raw)),
         (''latency_ms'', AnyFloat (fdiv (float_of_u64 (dn_LatencyNs raw)) (10 ^ 6))),
         (''has_response'', AnyBool (dn_HasResponse raw = 1)), (''via_connect'', AnyBool (dn_ViaConnect raw = 1)),
         (''resolver_style'', AnyString (resolverStyle (dn_ViaConnect raw)))]\<rparr>)"

definition ReadDNSEvents ::
  "resolve_fn \<Rightarrow> lineage_api option \<Rightarrow> u64 \<Rightarrow> bytes list \<Rightarrow> EventEnvelope list go" where
  "ReadDNSEvents resolve lin boot recs =
     drain_records dnsEventSize parseDNSEvent (dnsEventToEnvelope resolve lin boot) recs"

section \<open>Privilege escalation\<close>

definition escTypeSetUID :: u32 where "escTypeSetUID = 1"
definition escTypeSetGID :: u32 where "escTypeSetGID = 2"
definition escTypePtrace :: u32 where "escTypePtrace = 3"
definition escTypeCap :: u32 where "escTypeCap = 4"

definition capNames :: "(u32, string) gomap" where
  "capNames = [(0, ''CAP_CHOWN''), (1, ''CAP_DAC_OVERRIDE''), (2, ''CAP_DAC_READ_SEARCH''),
     (3, ''CAP_FOWNER''), (4, ''CAP_FSETID''), (5, ''CAP_KILL''), (6, ''CAP_SETGID''), (7, ''CAP_SETUID''),
     (8, ''CAP_SETPCAP''), (9, ''CAP_LINUX_IMMUTABLE''), (10, ''CAP_NET_BIND_SERVICE''),
     (11, ''CAP_NET_BROADCAST''), (12, ''CAP_NET_ADMIN''), (13, ''CAP_NET_RAW''), (14, ''CAP_IPC_LOCK''),
     (15, ''CAP_IPC_OWNER''), (16, ''CAP_SYS_MODULE''), (17, ''CAP_SYS_RAWIO''), (18, ''CAP_SYS_CHROOT''),
     (19, ''CAP_SYS_PTRACE''), (20, ''CAP_SYS_PACCT''), (21, ''CAP_SYS_ADMIN''), (22, ''CAP_SYS_BOOT''),
     (23, ''CAP_SYS_NICE''), (24, ''CAP_SYS_RESOURCE''), (25, ''CAP_SYS_TIME''), (26, ''CAP_SYS_TTY_CONFIG''),
     (27, ''CAP_MKNOD''), (28, ''CAP_LEASE''), (29, ''CAP_AUDIT_WRITE''), (30, ''CAP_AUDIT_CONTROL''),
     (31, ''CAP_SETFCAP'')]"

definition escTypeNames :: "(u32, string) gomap" where
  "escTypeNames = [(escTypeSetUID, ''setuid''), (escTypeSetGID, ''setgid''), (escTypePtrace, ''ptrace''),
     (escTypeCap, ''cap_capable'')]"

text \<open>A missing key of a string map reads as the empty string.\<close>

definition name_or :: "(u32, string) gomap \<Rightarrow> u32 \<Rightarrow> string \<Rightarrow> string" where
  "name_or m k pre = (case map_of m k of
      Some s \<Rightarrow> if s = [] then pre @ show_nat (unat k) else s | None \<Rightarrow> pre @ show_nat (unat k))"

definition privesc_meta :: "privescEventRaw \<Rightarrow> (string, any) gomap" where
  "privesc_meta raw =
     (if pe_EscType raw = escTypeSetUID
      then (if pe_OldUID raw = 0xFFFFFFFF then [(''new_uid'', AnyU32 (pe_NewUID raw))]
            else [(''old_uid'', AnyU32 (pe_OldUID raw)), (''new_uid'', AnyU32 (pe_NewUID raw))])
      else if pe_EscType raw = escTypeSetGID
      then (if pe_OldUID raw = 0xFFFFFFFF then [(''new_gid'', AnyU32 (pe_NewUID raw))]
            else [(''old_gid'', AnyU32 (pe_OldUID raw)), (''new_gid'', AnyU32 (pe_NewUID raw))])
      else if pe_EscType raw = escTypePtrace then [(''target_pid'', AnyU32 (pe_PtracePID raw))]
      else if pe_EscType raw = escTypeCap
      then [(''capability'', AnyString (name_or capNames (pe_Cap raw) ''CAP_'')),
            (''capability_num'', AnyU32 (pe_Cap raw))]
      else [])"

definition privEscToEnvelope ::
  "resolve_fn \<Rightarrow> lineage_api option \<Rightarrow> u64 \<Rightarrow> privescEventRaw \<Rightarrow> EventEnvelope" where
  "privEscToEnvelope resolve lin boot raw =
     (let name = container_name resolve (pe_CgroupID raw);
          process = nullTermStr (pe_Comm raw);
          parentComm = nullTermStr (pe_ParentComm raw);
          parentProcess = (if parentComm = [] \<or> parentComm = process
             then parent_comm lin (pe_CgroupID raw) (pe_PPID raw) parentComm else parentComm);
          escType = name_or escTypeNames (pe_EscType raw) ''unknown_''
      in \<lparr>ev_Timestamp = wall_clock (pe_TsNs raw) boot, ev_CgroupID = pe_CgroupID raw,
          ev_ContainerName = name, ev_PID = pe_TGID raw, ev_PPID = pe_PPID raw, ev_Process = process,
          ev_ParentProcess = parentProcess, ev_EventType = EventTypePrivEsc, ev_AncestryTruncated = False,
          ev_Metadata = [(''container'', AnyString name), (''escalation_type'', AnyString escType)] @ privesc_meta raw\<rparr>)"

definition ReadPrivEscEvents ::
  "resolve_fn \<Rightarrow> lineage_api option \<Rightarrow> u64 \<Rightarrow> bytes list \<Rightarrow> EventEnvelope list go" where
  "ReadPrivEscEvents resolve lin boot recs =
     drain_records privescEventSize parsePrivEscEvent (privEscToEnvelope resolve lin boot) recs"

section \<open>Container escape\<close>

definition indMount :: u32 where "indMount = 1"
definition indUnshare :: u32 where "indUnshare = 2"
definition indPivotRoot :: u32 where "indPivotRoot = 3"

definition nsFlagNames :: "(u32, string) gomap" where
  "nsFlagNames = [(0x00020000, ''CLONE_NEWNS''), (0x04000000, ''CLONE_NEWUTS''), (0x08000000, ''CLONE_NEWIPC''),
     (0x10000000, ''CLONE_NEWUSER''), (0x20000000, ''CLONE_NEWPID''), (0x40000000, ''CLONE_NEWNET'')]"

definition mountFlagNames :: "(u32, string) gomap" where
  "mountFlagNames = [(0x00000001, ''MS_RDONLY''), (0x00000002, ''MS_NOSUID''), (0x00000004, ''MS_NODEV''),
     (0x00000008, ''MS_NOEXEC''), (0x00000010, ''MS_SYNCHRONOUS''), (0x00000020, ''MS_REMOUNT''),
     (0x00000040, ''MS_MANDLOCK''), (0x00000080, ''MS_DIRSYNC''), (0x00000400, ''MS_NOATIME''),
     (0x00000800, ''MS_NODIRATIME''), (0x00001000, ''MS_BIND''), (0x00002000, ''MS_MOVE''), (0x00004000, ''MS_REC'')]"

definition knownRuntimes :: "string list" where
  "knownRuntimes = [''containerd-shim'', ''containerd-shim-runc-v2'', ''runc'', ''dockerd'', ''crio'',
     ''crun'', ''podman'']"

text \<open>\<open>ord\<close> is the order in which the flag table is ranged over.\<close>

definition decodeNsFlags :: "((u32, string) gomap \<Rightarrow> (u32, string) gomap) \<Rightarrow> u32 \<Rightarrow> u32 \<Rightarrow> string" where
  "decodeNsFlags ord flags indType =
     (if flags = 0 then []
      else let flagMap = (if indType = indMount then mountFlagNames else nsFlagNames);
               result = foldl (\<lambda>res (flag, name).
                  if and flags flag \<noteq> 0 then (if res \<noteq> [] then res @ ''|'' @ name else name) else res) [] (ord flagMap)
           in if result = [] then ''0x'' @ show_hex8 flags else result)"

definition indicatorTypeName :: "u32 \<Rightarrow> string" where
  "indicatorTypeName t =
     (if t = indMount then ''mount'' else if t = indUnshare then ''unshare''
      else if t = indPivotRoot then ''pivot_root'' else ''unknown_'' @ show_nat (unat t))"

definition escapeToEnvelope ::
  "((u32, string) gomap \<Rightarrow> (u32, string) gomap) \<Rightarrow> resolve_fn \<Rightarrow> lineage_api option \<Rightarrow> u64 \<Rightarrow> escapeEventRaw \<Rightarrow> EventEnvelope" where
  "escapeToEnvelope ord resolve lin boot raw =
     (let name = container_name resolve (es_CgroupID raw);
          process = nullTermStr (es_Comm raw);
          parentComm = nullTermStr (es_ParentComm raw);
          (parentProcess, truncated) = (case lin of None \<Rightarrow> (parentComm, False)
            | Some l \<Rightarrow> let (ancestors, tr) = l_Ancestors l (es_CgroupID raw) (es_TGID raw) MaxAncestorDepth in
                (if ancestors \<noteq> [] then lin_Comm (last ancestors) else parentComm, tr));
          runtimeInitiated = (process \<in> set knownRuntimes \<or> parentComm \<in> set knownRuntimes)
      in \<lparr>ev_Timestamp = wall_clock (es_TsNs raw) boot, ev_CgroupID = es_CgroupID raw,
          ev_ContainerName = name, ev_PID = es_TGID raw, ev_PPID = es_PPID raw, ev_Process = process,
          ev_ParentProcess = parentProcess, ev_EventType = EventTypeEscapeIndicator,
          ev_AncestryTruncated = truncated,
          ev_Metadata = [(''container'', AnyString name),
            (''indicator_type'', AnyString (indicatorTypeName (es_IndicatorType raw))),
            (''namespace_flags'', AnyString (decodeNsFlags ord (es_NsFlags raw) (es_IndicatorType raw))),
            (''ns_flags_raw'', AnyU32 (es_NsFlags raw)), (''runtime_initiated'', AnyBool runtimeInitiated)]\<rparr>)"

definition ReadEscapeEvents ::
  "((u32, string) gomap \<Rightarrow> (u32, string) gomap) \<Rightarrow> resolve_fn \<Rightarrow> lineage_api option \<Rightarrow> u64 \<Rightarrow> bytes list \<Rightarrow> EventEnvelope list go" where
  "ReadEscapeEvents ord resolve lin boot recs =
     drain_records escapeEventSize parseEscapeEvent (escapeToEnvelope ord resolve lin boot) recs"

section \<open>Arguments and flags\<close>

definition nul_terminated :: "bytes list \<Rightarrow> bytes" where
  "nul_terminated args = concat (map (\<lambda>a. a @ [0]) args)"

lemma argv_split_Nil [simp]: "argv_split [] = []"
  by (simp add: argv_split.simps)

lemma argv_split_word:
  "\<forall>b \<in> set w. b \<noteq> 0 \<Longrightarrow> argv_split (w @ 0 # r) = (if w \<noteq> [] then [string_of_bytes w] else []) @ argv_split r"
  by (subst argv_split.simps) (simp add: takeWhile_append2 dropWhile_append2)

lemma argv_split_terminated:
  "\<forall>w \<in> set args. w \<noteq> [] \<and> (\<forall>b \<in> set w. b \<noteq> 0) \<Longrightarrow>
   argv_split (nul_terminated args) = map string_of_bytes args"
  by (induction args) (simp_all add: nul_terminated_def argv_split_word)

text \<open>What the flag loop accumulates: the names of the set flags, separated by bars.\<close>

definition set_flags :: "u32 \<Rightarrow> (u32, string) gomap \<Rightarrow> string list" where
  "set_flags flags m = map snd (filter (\<lambda>(flag, _). and flags flag \<noteq> 0) m)"

lemma join_with_snoc: "ws \<noteq> [] \<Longrightarrow> join_with c (ws @ [w]) = join_with c ws @ c # w"
  by (induction c ws rule: join_with.induct) simp_all

lemma flag_fold:
  assumes "\<forall>(f, n) \<in> set m. n \<noteq> []" and "acc \<noteq> [] \<longleftrightarrow> ws \<noteq> []" and "acc = join_with CHR ''|'' ws"
  shows "foldl (\<lambda>res (flag, name). if and flags flag \<noteq> 0
            then (if res \<noteq> [] then res @ ''|'' @ name else name) else res) acc m =
         join_with CHR ''|'' (ws @ set_flags flags m)"
  using assms
proof (induction m arbitrary: acc ws)
  case (Cons x m)
  obtain f n where x: "x = (f, n)" by fastforce
  show ?case
  proof (cases "and flags f = 0")
    case True
    with Cons x show ?thesis by (simp add: set_flags_def)
  next
    case False
    let ?acc = "if acc \<noteq> [] then acc @ ''|'' @ n else n"
    have "?acc = join_with CHR ''|'' (ws @ [n])" "?acc \<noteq> [] \<longleftrightarrow> ws @ [n] \<noteq> []"
      using Cons.prems x by (auto simp: join_with_snoc)
    from Cons.IH [OF _ this(2,1)] Cons.prems(1) x False show ?thesis by (simp add: set_flags_def)
  qed
qed (simp add: set_flags_def)

lemma flag_names_ok:
  "\<forall>(f, n) \<in> set nsFlagNames. n \<noteq> [] \<and> CHR ''|'' \<notin> set n"
  "\<forall>(f, n) \<in> set mountFlagNames. n \<noteq> [] \<and> CHR ''|'' \<notin> set n"
  by (simp_all add: nsFlagNames_def mountFlagNames_def)

lemma join_with_empty: "\<forall>w \<in> set ws. w \<noteq> [] \<Longrightarrow> join_with c ws = [] \<longleftrightarrow> ws = []"
  by (induction c ws rule: join_with.induct) auto

section \<open>Theorems\<close>

text \<open>
  Draining any of the five ring buffers never panics, whatever bytes the samples hold: every
  sample of at least the struct size gives one envelope, shorter ones are skipped.
\<close>

theorem security_drains_total:
  "(\<exists>evs. ReadForkEvents resolve boot (Some recs) = Inr evs \<and>
      length evs = length (filter (\<lambda>s. 64 \<le> length s) recs)) \<and>
   (\<exists>evs. ReadExecEvents resolve lin boot recs = Inr evs \<and>
      length evs = length (filter (\<lambda>s. 2344 \<le> length s) recs)) \<and>
   (\<exists>evs. ReadDNSEvents resolve lin boot recs = Inr evs \<and>
      length evs = length (filter (\<lambda>s. 312 \<le> length s) recs)) \<and>
   (\<exists>evs. ReadPrivEscEvents resolve lin boot recs = Inr evs \<and>
      length evs = length (filter (\<lambda>s. 80 \<le> length s) recs)) \<and>
   (\<exists>evs. ReadEscapeEvents ord resolve lin boot recs = Inr evs \<and>
      length evs = length (filter (\<lambda>s. 72 \<le> length s) recs))"
  using fork_rec.drain_total [of "forkEventToEnvelope resolve boot" recs]
    exec_rec.drain_total [of "execEventToEnvelope resolve lin boot" recs]
    dns_rec.drain_total [of "dnsEventToEnvelope resolve lin boot" recs]
    privesc_rec.drain_total [of "privEscToEnvelope resolve lin boot" recs]
    escape_rec.drain_total [of "escapeToEnvelope ord resolve lin boot" recs]
  by (simp add: ReadForkEvents_def ReadExecEvents_def ReadDNSEvents_def ReadPrivEscEvents_def
      ReadEscapeEvents_def forkEventSize_def execEventSize_def dnsEventSize_def privescEventSize_def
      escapeEventSize_def)

text \<open>
  C6: The decoders invert the kernel's struct layouts: records written by the kernel side, with
  any trailing padding, come out of the drain loops as exactly the envelopes of those records, in
  order.
\<close>

theorem security_drains_decode:
  assumes "\<forall>r \<in> set fs. forkEvent_wf r" and "\<forall>r \<in> set xs. execEvent_wf r" and "\<forall>r \<in> set ds. dnsEvent_wf r"
    and "\<forall>r \<in> set ps. privescEvent_wf r" and "\<forall>r \<in> set es. escapeEvent_wf r"
  shows "ReadForkEvents resolve boot (Some (map (\<lambda>r. encodeForkEvent r @ pad) fs)) =
       Inr (map (forkEventToEnvelope resolve boot) fs) \<and>
     ReadExecEvents resolve lin boot (map (\<lambda>r. encodeExecEvent r @ pad) xs) =
       Inr (map (execEventToEnvelope resolve lin boot) xs) \<and>
     ReadDNSEvents resolve lin boot (map (\<lambda>r. encodeDNSEvent r @ pad) ds) =
       Inr (map (dnsEventToEnvelope resolve lin boot) ds) \<and>
     ReadPrivEscEvents resolve lin boot (map (\<lambda>r. encodePrivEscEvent r @ pad) ps) =
       Inr (map (privEscToEnvelope resolve lin boot) ps) \<and>
     ReadEscapeEvents ord resolve lin boot (map (\<lambda>r. encodeEscapeEvent r @ pad) es) =
       Inr (map (escapeToEnvelope ord resolve lin boot) es)"
  by (simp add: ReadForkEvents_def ReadExecEvents_def ReadDNSEvents_def ReadPrivEscEvents_def ReadEscapeEvents_def
      fork_rec.drain_encoded [OF assms(1)] exec_rec.drain_encoded [OF assms(2)] dns_rec.drain_encoded [OF assms(3)]
      privesc_rec.drain_encoded [OF assms(4)] escape_rec.drain_encoded [OF assms(5)])

definition sample_fork :: forkEventRaw where
  "sample_fork = \<lparr>fk_CgroupID = 7, fk_ForkTsNs = 5, fk_PPID = 10, fk_TGID = 20,
     fk_ParentComm = replicate 16 98, fk_ChildComm = replicate 16 97, fk_CommFinal = 1\<rparr>"

theorem security_drains_decode_witness:
  "ReadForkEvents (\<lambda>_. None) 0 (Some (map (\<lambda>r. encodeForkEvent r @ []) [sample_fork])) =
     Inr (map (forkEventToEnvelope (\<lambda>_. None) 0) [sample_fork])"
  using security_drains_decode [of "[sample_fork]" "[]" "[]" "[]" "[]" "\<lambda>_. None" 0 "[]" None id]
  by (simp add: forkEvent_wf_def sample_fork_def)

text \<open>
  The argument vector survives the packed encoding: non-empty arguments without NUL bytes,
  each followed by a NUL in a buffer that holds them, decode to the same arguments, whatever
  follows them in the buffer.
\<close>

theorem decodeArgv_roundtrip:
  assumes "\<forall>w \<in> set args. w \<noteq> [] \<and> (\<forall>b \<in> set w. b \<noteq> 0)"
    and "buf = nul_terminated args @ rest" and "uint totalLen = int (length (nul_terminated args))"
  shows "decodeArgv buf totalLen = map string_of_bytes args"
proof (cases "args = []")
  case True
  then have "totalLen = 0" using assms(3) by (simp add: nul_terminated_def uint_0_iff)
  with True show ?thesis by (simp add: decodeArgv_def)
next
  case False
  have len: "unat totalLen = length (nul_terminated args)" using assms(3) by (simp add: unat_eq_nat_uint)
  have "nul_terminated args \<noteq> []" using False by (cases args) (simp_all add: nul_terminated_def)
  then have "totalLen \<noteq> 0" using len by auto
  with assms(2,3) len show ?thesis
    by (simp add: decodeArgv_def argv_split_terminated [OF assms(1)])
qed

theorem decodeArgv_roundtrip_witness:
  "decodeArgv (nul_terminated [[108, 115], [45, 108]] @ replicate 10 0) 6 = [''ls'', ''-l'']"
proof -
  have "map string_of_bytes [[108, 115], [45, 108]] = [''ls'', ''-l'']" by code_simp
  then show ?thesis
    using decodeArgv_roundtrip [of "[[108, 115], [45, 108]]" "nul_terminated [[108, 115], [45, 108]] @ replicate 10 0" "replicate 10 0" 6]
    by (simp add: nul_terminated_def)
qed

text \<open>
  The decoded flag string lists exactly the known flags that are set, each once, whatever the
  iteration order of the flag table; it is the hexadecimal value when no known flag is set, and
  empty only for no flags.
\<close>

theorem decodeNsFlags_names:
  assumes "mset (ord (if indType = indMount then mountFlagNames else nsFlagNames)) =
      mset (if indType = indMount then mountFlagNames else nsFlagNames)" and "flags \<noteq> 0"
  shows "if set_flags flags (if indType = indMount then mountFlagNames else nsFlagNames) = []
     then decodeNsFlags ord flags indType = ''0x'' @ show_hex8 flags
     else mset (split_on CHR ''|'' (decodeNsFlags ord flags indType)) =
          mset (set_flags flags (if indType = indMount then mountFlagNames else nsFlagNames))"
proof -
  let ?m = "if indType = indMount then mountFlagNames else nsFlagNames"
  have ok: "\<forall>(f, n) \<in> set (ord ?m). n \<noteq> [] \<and> CHR ''|'' \<notin> set n"
    using flag_names_ok mset_eq_setD [OF assms(1)] by (simp split: if_splits)
  then have ok1: "\<forall>(f, n) \<in> set (ord ?m). n \<noteq> []" by fast
  have fold: "foldl (\<lambda>res (flag, name). if and flags flag \<noteq> 0
            then (if res \<noteq> [] then res @ ''|'' @ name else name) else res) [] (ord ?m) =
         join_with CHR ''|'' (set_flags flags (ord ?m))"
    using flag_fold [of "ord ?m" "[]" "[]" flags, OF ok1] by simp
  have "mset (filter (\<lambda>(flag, _). and flags flag \<noteq> 0) (ord ?m)) = mset (filter (\<lambda>(flag, _). and flags flag \<noteq> 0) ?m)"
    using assms(1) by simp
  then have ms: "mset (set_flags flags (ord ?m)) = mset (set_flags flags ?m)"
    unfolding set_flags_def mset_map by simp
  then have nil: "set_flags flags (ord ?m) = [] \<longleftrightarrow> set_flags flags ?m = []" by (metis mset_zero_iff)
  have w: "\<forall>w \<in> set (set_flags flags (ord ?m)). w \<noteq> [] \<and> CHR ''|'' \<notin> set w"
    using ok by (auto simp: set_flags_def)
  have empty: "join_with CHR ''|'' (set_flags flags (ord ?m)) = [] \<longleftrightarrow> set_flags flags ?m = []"
    using join_with_empty [of "set_flags flags (ord ?m)"] w nil by auto
  show ?thesis
    using assms(2) fold empty nil ms w split_join [of "set_flags flags (ord ?m)" "CHR ''|''"]
    by (simp add: decodeNsFlags_def Let_def)
qed

theorem decodeNsFlags_names_witness:
  "mset (split_on CHR ''|'' (decodeNsFlags rev 0x60000000 indUnshare)) = mset [''CLONE_NEWPID'', ''CLONE_NEWNET'']"
proof -
  have "indUnshare \<noteq> indMount" by (simp add: indUnshare_def indMount_def)
  moreover have "set_flags 0x60000000 nsFlagNames = [''CLONE_NEWPID'', ''CLONE_NEWNET'']"
    by (simp add: set_flags_def nsFlagNames_def)
  ultimately show ?thesis using decodeNsFlags_names [where indType = indUnshare and flags = "0x60000000" and ord = rev] by simp
qed

text \<open>
  The lineage chain of the collector: at most \<^verbatim>\<open>maxDepth\<close> entries, empty exactly when the
  process is untracked, each entry the parent of the next, and the last one the entry of the
  queried process itself (so the chain starts at the process, not at its parent).
\<close>

theorem lineage_chain:
  assumes "0 < maxDepth"
  shows "int (length (fst (Ancestors_lineage tree boot cg tgid maxDepth))) \<le> maxDepth \<and>
     (fst (Ancestors_lineage tree boot cg tgid maxDepth) = [] \<longleftrightarrow> tree cg tgid = None) \<and>
     (\<forall>v. tree cg tgid = Some v \<longrightarrow> last (fst (Ancestors_lineage tree boot cg tgid maxDepth)) = toLineageEntry boot v) \<and>
     successively (\<lambda>p c. \<exists>pcg. Lookup_lineage tree boot pcg (lin_PPID c) = Some p)
       (fst (Ancestors_lineage tree boot cg tgid maxDepth))"
proof -
  have "successively (\<lambda>p c. \<exists>pcg. Lookup_lineage tree boot pcg (lin_PPID c) = Some p)
      (fst (Ancestors_lineage tree boot cg tgid maxDepth))"
    using lineage_walk_linked by (auto simp: Ancestors_lineage_def Let_def successively_rev)
  then show ?thesis
    using lincol.anc_bounded [OF assms, of tree boot cg tgid] lincol.anc_empty [of tree boot cg tgid maxDepth]
      lincol.anc_last [where tree = tree and boot = boot and cg = cg and tgid = tgid and md = maxDepth]
    by (auto simp: Lookup_lineage_def)
qed

theorem lineage_chain_witness:
  "int (length (fst (Ancestors_lineage (\<lambda>_ _. None) 0 7 20 8))) \<le> 8"
  using lineage_chain [of 8 "\<lambda>_ _. None" 0 7 20] by simp

text \<open>
  C35: With lineage enrichment, the parent name of an escape event is the tracked name of the
  escaping process itself, never that of its parent: the enrichment takes the last element of the
  ancestry chain, which is the process. Without a tracked entry it is the kernel's parent name.
\<close>

theorem escape_parent_is_own_comm:
  "ev_ParentProcess (escapeToEnvelope ord resolve (Some (lineage_of tree bt)) boot raw) =
     (case tree (es_CgroupID raw) (es_TGID raw) of
        Some v \<Rightarrow> nullTermStr (le_Comm v)
      | None \<Rightarrow> nullTermStr (es_ParentComm raw))"
proof -
  let ?a = "Ancestors_lineage tree bt (es_CgroupID raw) (es_TGID raw) MaxAncestorDepth"
  have e: "fst ?a = [] \<longleftrightarrow> tree (es_CgroupID raw) (es_TGID raw) = None"
    using lincol.anc_empty [of tree bt "es_CgroupID raw" "es_TGID raw"] by (simp add: Lookup_lineage_def)
  have l: "lin_Comm (last (fst ?a)) = nullTermStr (le_Comm v)" if "tree (es_CgroupID raw) (es_TGID raw) = Some v" for v
    using lincol.anc_last [of tree bt "es_CgroupID raw" "es_TGID raw" "toLineageEntry bt v"] that
    by (simp add: Lookup_lineage_def toLineageEntry_def)
  show ?thesis
    using e l by (cases ?a) (simp add: escapeToEnvelope_def lineage_of_def Let_def split: option.splits)
qed

end
