(* ===== verification/Loaders.thy ===== *)
theory Loaders
  imports Prelude
begin

text \<open>
  Loading the kernel side (cmd/observer/main.go): the module loaders, their error paths, the start-up
  sequence of \<^verbatim>\<open>main\<close> with its deferred clean-up, and shutdown. The kernel and the object files
  are a parameter: a record that says which objects load, which programs and maps they contain, which
  probes attach and which ring buffers can be opened. The live kernel resources are a multiset of
  handles; a resource is added when it is opened and removed when it is closed.
\<close>

section \<open>Kernel resources\<close>

record kernel =
  kn_spec :: "string \<Rightarrow> bool"
  kn_coll :: "string \<Rightarrow> bool"
  kn_prog :: "string \<Rightarrow> string \<Rightarrow> bool"
  kn_map :: "string \<Rightarrow> string \<Rightarrow> bool"
  kn_tracepoint :: "string \<Rightarrow> string \<Rightarrow> bool"
  kn_kprobe :: "string \<Rightarrow> bool"
  kn_reader :: "string \<Rightarrow> string \<Rightarrow> bool"

datatype resource =
    Coll string                     \<comment> \<open>the collection loaded from an object file\<close>
  | Lnk string string string        \<comment> \<open>a tracepoint link: object file, category, event\<close>
  | KLnk string string              \<comment> \<open>a kprobe link: object file, symbol\<close>
  | Rd string string                \<comment> \<open>a ring-buffer reader: object file, map\<close>

datatype load_error = LoadSpec | NewCollection | ProgNotFound string | AttachFailed string string
  | MapNotFound string | ReaderFailed string

type_synonym probe = "string \<times> string \<times> string"
type_synonym live = "resource multiset"

record loaded =
  ld_coll :: resource
  ld_links :: "resource list"
  ld_readers :: "resource list"

definition close_res :: "resource \<Rightarrow> live \<Rightarrow> live" where
  "close_res r L = L - {#r#}"

definition closeLinks :: "resource list \<Rightarrow> live \<Rightarrow> live" where
  "closeLinks links L = foldl (\<lambda>L r. close_res r L) L links"

text \<open>
  \<^verbatim>\<open>attachProbes\<close>: the loop over the probes. On an error it returns the links made so far with
  the error and does not close them.
\<close>

fun attach_loop :: "kernel \<Rightarrow> string \<Rightarrow> probe list \<Rightarrow> resource list \<Rightarrow> live \<Rightarrow> resource list \<times> load_error option \<times> live" where
  "attach_loop K path [] links L = (links, None, L)"
| "attach_loop K path ((cat, ev, prog) # ps) links L =
     (if \<not> kn_prog K path prog then (links, Some (ProgNotFound prog), L)
      else if \<not> kn_tracepoint K cat ev then (links, Some (AttachFailed cat ev), L)
      else attach_loop K path ps (links @ [Lnk path cat ev]) (add_mset (Lnk path cat ev) L))"

definition attachProbes :: "kernel \<Rightarrow> string \<Rightarrow> probe list \<Rightarrow> live \<Rightarrow> resource list \<times> load_error option \<times> live" where
  "attachProbes K path probes L = attach_loop K path probes [] L"

text \<open>The common head of the loaders: read the object file, create the collection, attach the probes.\<close>

definition load_probes :: "kernel \<Rightarrow> string \<Rightarrow> probe list \<Rightarrow> live \<Rightarrow> live \<times> (load_error + resource list)" where
  "load_probes K path probes L =
     (if \<not> kn_spec K path then (L, Inl LoadSpec)
      else if \<not> kn_coll K path then (L, Inl NewCollection)
      else case attachProbes K path probes (add_mset (Coll path) L) of
             (links, Some e, L1) \<Rightarrow> (close_res (Coll path) L1, Inl e)
           | (links, None, L1) \<Rightarrow> (L1, Inr links))"

text \<open>
  The common tail: every map must exist, then the collector's constructor opens the reader. Each
  failure closes the collection and the links.
\<close>

fun need_maps :: "kernel \<Rightarrow> string \<Rightarrow> string list \<Rightarrow> load_error option" where
  "need_maps K path [] = None"
| "need_maps K path (n # ns) = (if kn_map K path n then need_maps K path ns else Some (MapNotFound n))"

definition finish_load :: "kernel \<Rightarrow> string \<Rightarrow> string list \<Rightarrow> string option \<Rightarrow> resource list \<Rightarrow> live \<Rightarrow> live \<times> (load_error + loaded)" where
  "finish_load K path maps reader links L =
     (case need_maps K path maps of
        Some e \<Rightarrow> (closeLinks links (close_res (Coll path) L), Inl e)
      | None \<Rightarrow> (case reader of
          None \<Rightarrow> (L, Inr \<lparr>ld_coll = Coll path, ld_links = links, ld_readers = []\<rparr>)
        | Some n \<Rightarrow>
            if kn_reader K path n
            then (add_mset (Rd path n) L, Inr \<lparr>ld_coll = Coll path, ld_links = links, ld_readers = [Rd path n]\<rparr>)
            else (closeLinks links (close_res (Coll path) L), Inl (ReaderFailed n))))"

definition load_module :: "kernel \<Rightarrow> string \<Rightarrow> probe list \<Rightarrow> string list \<Rightarrow> string option \<Rightarrow> live \<Rightarrow> live \<times> (load_error + loaded)" where
  "load_module K path probes maps reader L = (case load_probes K path probes L of
      (L1, Inl e) \<Rightarrow> (L1, Inl e) | (L1, Inr links) \<Rightarrow> finish_load K path maps reader links L1)"

section \<open>The loaders\<close>

definition cpu_probes :: "probe list" where
  "cpu_probes = [(''sched'', ''sched_switch'', ''trace_sched_switch''), (''sched'', ''sched_wakeup'', ''trace_sched_wakeup''),
     (''sched'', ''sched_process_fork'', ''trace_sched_fork''), (''sched'', ''sched_process_exit'', ''trace_sched_exit'')]"

definition loadCPU :: "kernel \<Rightarrow> string \<Rightarrow> live \<Rightarrow> live \<times> (load_error + loaded)" where
  "loadCPU K objPath = load_module K objPath cpu_probes [''cpu_stats_map''] None"

definition lineage_probes :: "probe list" where
  "lineage_probes = [(''sched'', ''sched_process_fork'', ''trace_lineage_fork''), (''sched'', ''sched_process_exit'', ''trace_lineage_exit'')]"

definition loadLineage :: "kernel \<Rightarrow> string \<Rightarrow> live \<Rightarrow> live \<times> (load_error + loaded)" where
  "loadLineage K objPath = load_module K objPath lineage_probes [''process_fork_rb'', ''process_tree_map''] (Some ''process_fork_rb'')"

definition exec_probes :: "probe list" where
  "exec_probes = [(''syscalls'', ''sys_enter_execve'', ''trace_exec'')]"

definition loadExecWithColl :: "kernel \<Rightarrow> string \<Rightarrow> live \<Rightarrow> live \<times> (load_error + loaded)" where
  "loadExecWithColl K objPath = load_module K objPath exec_probes [''exec_events''] (Some ''exec_events'')"

text \<open>The two lineage loaders that take over maps of a loaded collection; the second one opens a reader.\<close>

definition loadLineageFromExec :: "kernel \<Rightarrow> string \<Rightarrow> load_error option" where
  "loadLineageFromExec K execPath = need_maps K execPath [''process_tree_map'']"

definition loadLineageFromCPU :: "kernel \<Rightarrow> string \<Rightarrow> live \<Rightarrow> live \<times> (load_error + resource)" where
  "loadLineageFromCPU K cpuPath L = (case need_maps K cpuPath [''process_fork_rb'', ''process_tree_map''] of
      Some e \<Rightarrow> (L, Inl e)
    | None \<Rightarrow> if kn_reader K cpuPath ''process_fork_rb'' then (add_mset (Rd cpuPath ''process_fork_rb'') L, Inr (Rd cpuPath ''process_fork_rb''))
             else (L, Inl (ReaderFailed ''process_fork_rb'')))"

definition dns_probes :: "probe list" where
  "dns_probes = [(''syscalls'', ''sys_enter_sendto'', ''trace_dns_send''), (''syscalls'', ''sys_enter_sendmsg'', ''trace_dns_sendmsg''),
     (''syscalls'', ''sys_enter_sendmmsg'', ''trace_dns_sendmmsg''), (''syscalls'', ''sys_enter_write'', ''trace_dns_write''),
     (''syscalls'', ''sys_enter_connect'', ''trace_dns_connect''), (''syscalls'', ''sys_enter_close'', ''trace_dns_close'')]"

definition loadDNS :: "kernel \<Rightarrow> string \<Rightarrow> live \<Rightarrow> live \<times> (load_error + loaded)" where
  "loadDNS K objPath = load_module K objPath dns_probes [''dns_events''] (Some ''dns_events'')"

definition privesc_probes :: "probe list" where
  "privesc_probes = [(''syscalls'', ''sys_enter_setuid'', ''trace_setuid''), (''syscalls'', ''sys_enter_setgid'', ''trace_setgid''),
     (''syscalls'', ''sys_enter_ptrace'', ''trace_ptrace'')]"

text \<open>The capability kprobe is attached on a best-effort basis; the flag says whether it is.\<close>

definition loadPrivEsc :: "kernel \<Rightarrow> string \<Rightarrow> live \<Rightarrow> live \<times> (load_error + loaded \<times> bool)" where
  "loadPrivEsc K objPath L = (case load_probes K objPath privesc_probes L of
      (L1, Inl e) \<Rightarrow> (L1, Inl e)
    | (L1, Inr links) \<Rightarrow>
        let cap = kn_prog K objPath ''kprobe_cap_capable'' \<and> kn_kprobe K ''cap_capable'';
            links' = (if cap then links @ [KLnk objPath ''cap_capable''] else links);
            L2 = (if cap then add_mset (KLnk objPath ''cap_capable'') L1 else L1)
        in (case finish_load K objPath [''privesc_events''] (Some ''privesc_events'') links' L2 of
              (L3, Inl e) \<Rightarrow> (L3, Inl e) | (L3, Inr l) \<Rightarrow> (L3, Inr (l, cap))))"

definition escape_probes :: "probe list" where
  "escape_probes = [(''syscalls'', ''sys_enter_mount'', ''trace_mount''), (''syscalls'', ''sys_enter_unshare'', ''trace_unshare''),
     (''syscalls'', ''sys_enter_pivot_root'', ''trace_pivot_root'')]"

definition loadEscape :: "kernel \<Rightarrow> string \<Rightarrow> live \<Rightarrow> live \<times> (load_error + loaded)" where
  "loadEscape K objPath = load_module K objPath escape_probes [''escape_events''] (Some ''escape_events'')"

text \<open>The memory loader attaches its mandatory probe itself and the page-fault probe if it can.\<close>

definition loadMemory :: "kernel \<Rightarrow> string \<Rightarrow> live \<Rightarrow> live \<times> (load_error + loaded)" where
  "loadMemory K objPath L =
     (if \<not> kn_spec K objPath then (L, Inl LoadSpec)
      else if \<not> kn_coll K objPath then (L, Inl NewCollection)
      else let L1 = add_mset (Coll objPath) L in
        if \<not> kn_prog K objPath ''trace_oom_mark_victim'' then (close_res (Coll objPath) L1, Inl (ProgNotFound ''trace_oom_mark_victim''))
        else if \<not> kn_tracepoint K ''oom'' ''mark_victim'' then (close_res (Coll objPath) L1, Inl (AttachFailed ''oom'' ''mark_victim''))
        else let oom = Lnk objPath ''oom'' ''mark_victim''; pf = Lnk objPath ''exceptions'' ''page_fault_user'';
                 pfOk = kn_prog K objPath ''trace_page_fault_user'' \<and> kn_tracepoint K ''exceptions'' ''page_fault_user'';
                 links = (if pfOk then [oom, pf] else [oom]);
                 L2 = (if pfOk then add_mset pf (add_mset oom L1) else add_mset oom L1)
             in finish_load K objPath [''page_fault_map'', ''oom_events''] (Some ''oom_events'') links L2)"

definition io_probes :: "probe list" where
  "io_probes = [(''block'', ''block_rq_issue'', ''trace_block_rq_issue''), (''block'', ''block_rq_complete'', ''trace_block_rq_complete''),
     (''syscalls'', ''sys_enter_openat'', ''trace_sys_enter_openat'')]"

definition loadIO :: "kernel \<Rightarrow> string \<Rightarrow> live \<Rightarrow> live \<times> (load_error + loaded)" where
  "loadIO K objPath = load_module K objPath io_probes [''io_stats_map'', ''file_events''] (Some ''file_events'')"

definition network_probes :: "probe list" where
  "network_probes = [(''sock'', ''inet_sock_set_state'', ''trace_inet_sock_set_state''), (''tcp'', ''tcp_retransmit_skb'', ''trace_tcp_retransmit'')]"

definition loadNetwork :: "kernel \<Rightarrow> string \<Rightarrow> live \<Rightarrow> live \<times> (load_error + loaded)" where
  "loadNetwork K objPath = load_module K objPath network_probes [''conn_stats_map'', ''tcp_event_rb''] (Some ''tcp_event_rb'')"

definition syscall_probes :: "probe list" where
  "syscall_probes = [(''raw_syscalls'', ''sys_enter'', ''trace_sys_enter''), (''raw_syscalls'', ''sys_exit'', ''trace_sys_exit'')]"

definition loadSyscall :: "kernel \<Rightarrow> string \<Rightarrow> live \<Rightarrow> live \<times> (load_error + loaded)" where
  "loadSyscall K objPath = load_module K objPath syscall_probes [''syscall_stats_map'', ''slow_syscall_rb''] (Some ''slow_syscall_rb'')"

section \<open>What a load leaves behind\<close>

text \<open>The links of the probes before the first one that fails, and whether there is such a probe.\<close>

definition probe_ok :: "kernel \<Rightarrow> string \<Rightarrow> probe \<Rightarrow> bool" where
  "probe_ok K path p = (case p of (cat, ev, prog) \<Rightarrow> kn_prog K path prog \<and> kn_tracepoint K cat ev)"

definition probe_link :: "string \<Rightarrow> probe \<Rightarrow> resource" where
  "probe_link path p = (case p of (cat, ev, prog) \<Rightarrow> Lnk path cat ev)"

definition leaked :: "kernel \<Rightarrow> string \<Rightarrow> probe list \<Rightarrow> live" where
  "leaked K path probes =
     (if kn_spec K path \<and> kn_coll K path \<and> \<not> (\<forall>p \<in> set probes. probe_ok K path p)
      then mset (map (probe_link path) (takeWhile (probe_ok K path) probes)) else {#})"

lemma attach_loop_spec:
  "attach_loop K path probes links L =
     (links @ map (probe_link path) (takeWhile (probe_ok K path) probes),
      (case dropWhile (probe_ok K path) probes of [] \<Rightarrow> None
       | (cat, ev, prog) # _ \<Rightarrow> Some (if kn_prog K path prog then AttachFailed cat ev else ProgNotFound prog)),
      L + mset (map (probe_link path) (takeWhile (probe_ok K path) probes)))"
  by (induction K path probes links L rule: attach_loop.induct) (auto simp: probe_ok_def probe_link_def)

lemma closeLinks_mset: "closeLinks links L = L - mset links"
  by (induction links arbitrary: L) (simp_all add: closeLinks_def close_res_def)

text \<open>Attaching succeeds exactly when every probe does; otherwise the links before the first failure stay.\<close>

lemma attachProbes_all:
  assumes "\<forall>p \<in> set probes. probe_ok K path p"
  shows "attachProbes K path probes L = (map (probe_link path) probes, None, L + mset (map (probe_link path) probes))"
proof -
  have all: "dropWhile (probe_ok K path) probes = []" "takeWhile (probe_ok K path) probes = probes"
    using assms by (simp_all add: dropWhile_eq_Nil_conv takeWhile_eq_all_conv)
  show ?thesis unfolding attachProbes_def attach_loop_spec all by simp
qed

lemma attachProbes_fail:
  assumes "\<not> (\<forall>p \<in> set probes. probe_ok K path p)"
  shows "\<exists>e. attachProbes K path probes L = (map (probe_link path) (takeWhile (probe_ok K path) probes), Some e,
     L + mset (map (probe_link path) (takeWhile (probe_ok K path) probes)))"
proof -
  obtain cat ev prog ps where "dropWhile (probe_ok K path) probes = (cat, ev, prog) # ps"
    using assms by (metis dropWhile_eq_Nil_conv neq_Nil_conv prod_cases3)
  then show ?thesis by (simp add: attachProbes_def attach_loop_spec)
qed

lemma load_probes_Inl:
  assumes "load_probes K path probes L = (L', Inl e)"
  shows "L' = L + leaked K path probes"
proof (cases "\<forall>p \<in> set probes. probe_ok K path p")
  case True
  then show ?thesis using assms attachProbes_all [OF True]
    by (auto simp: load_probes_def leaked_def split: if_splits)
next
  case False
  then show ?thesis using assms attachProbes_fail [OF False, of "add_mset (Coll path) L"]
    by (auto simp: load_probes_def leaked_def close_res_def split: if_splits)
qed

lemma load_probes_Inr:
  assumes "load_probes K path probes L = (L', Inr links)"
  shows "links = map (probe_link path) probes \<and> L' = L + {#Coll path#} + mset links \<and> leaked K path probes = {#}"
proof (cases "\<forall>p \<in> set probes. probe_ok K path p")
  case True
  then show ?thesis using assms attachProbes_all [OF True]
    by (auto simp: load_probes_def leaked_def split: if_splits)
next
  case False
  then show ?thesis using assms attachProbes_fail [OF False, of "add_mset (Coll path) L"]
    by (auto simp: load_probes_def split: if_splits)
qed

lemma finish_load_ok:
  assumes "finish_load K path maps reader links (L + {#Coll path#} + mset links) = (L', r)"
  shows "(case r of Inl e \<Rightarrow> L' = L
    | Inr l \<Rightarrow> L' = L + {#ld_coll l#} + mset (ld_links l) + mset (ld_readers l) \<and> ld_coll l = Coll path \<and> ld_links l = links)"
  using assms by (auto simp: finish_load_def closeLinks_mset close_res_def split: option.splits if_splits)

lemma load_module_ok:
  assumes "load_module K path probes maps reader L = (L', r)"
  shows "(case r of Inl e \<Rightarrow> L' = L + leaked K path probes
    | Inr l \<Rightarrow> L' = L + {#ld_coll l#} + mset (ld_links l) + mset (ld_readers l) \<and> ld_links l = map (probe_link path) probes \<and> leaked K path probes = {#})"
proof (cases "load_probes K path probes L")
  case (Pair L1 q)
  show ?thesis
  proof (cases q)
    case (Inl e)
    with Pair assms load_probes_Inl [of K path probes L L1 e] show ?thesis by (auto simp: load_module_def)
  next
    case (Inr links)
    note p = load_probes_Inr [of K path probes L L1 links, OF Pair [unfolded Inr]]
    have "finish_load K path maps reader links (L + {#Coll path#} + mset links) = (L', r)"
      using assms Pair Inr p by (simp add: load_module_def)
    from finish_load_ok [OF this] p show ?thesis by (auto split: sum.splits)
  qed
qed

text \<open>The memory loader attaches one mandatory probe, so nothing is attached before a failure.\<close>

lemma loadMemory_ok:
  assumes "loadMemory K path L = (L', r)"
  shows "(case r of Inl e \<Rightarrow> L' = L | Inr l \<Rightarrow> L' = L + {#ld_coll l#} + mset (ld_links l) + mset (ld_readers l))"
proof -
  let ?oom = "Lnk path ''oom'' ''mark_victim''" and ?pf = "Lnk path ''exceptions'' ''page_fault_user''"
  define pfOk where "pfOk = (kn_prog K path ''trace_page_fault_user'' \<and> kn_tracepoint K ''exceptions'' ''page_fault_user'')"
  define links where "links = (if pfOk then [?oom, ?pf] else [?oom])"
  consider "L' = L \<and> (\<exists>e. r = Inl e)" |
    "finish_load K path [''page_fault_map'', ''oom_events''] (Some ''oom_events'') links (L + {#Coll path#} + mset links) = (L', r)"
    using assms by (auto simp: loadMemory_def close_res_def links_def pfOk_def Let_def add_mset_commute split: if_splits)
  then show ?thesis
  proof cases
    case 2
    from finish_load_ok [OF this] show ?thesis by (auto split: sum.splits)
  qed auto
qed

lemma loadPrivEsc_ok:
  assumes "loadPrivEsc K path L = (L', r)"
  shows "(case r of Inl e \<Rightarrow> L' = L + leaked K path privesc_probes
    | Inr (l, cap) \<Rightarrow> L' = L + {#ld_coll l#} + mset (ld_links l) + mset (ld_readers l) \<and> leaked K path privesc_probes = {#})"
proof (cases "load_probes K path privesc_probes L")
  case (Pair L1 q)
  show ?thesis
  proof (cases q)
    case (Inl e)
    with Pair assms load_probes_Inl [of K path privesc_probes L L1 e] show ?thesis by (auto simp: loadPrivEsc_def)
  next
    case (Inr links)
    note p = load_probes_Inr [of K path privesc_probes L L1 links, OF Pair [unfolded Inr]]
    define cap where "cap = (kn_prog K path ''kprobe_cap_capable'' \<and> kn_kprobe K ''cap_capable'')"
    define links' where "links' = (if cap then links @ [KLnk path ''cap_capable''] else links)"
    obtain L3 s where fin: "finish_load K path [''privesc_events''] (Some ''privesc_events'') links' (L + {#Coll path#} + mset links') = (L3, s)"
      by (metis surj_pair)
    have "(if cap then add_mset (KLnk path ''cap_capable'') L1 else L1) = L + {#Coll path#} + mset links'"
      using p by (simp add: links'_def)
    with assms Pair Inr fin have "(L', r) = (case s of Inl e \<Rightarrow> (L3, Inl e) | Inr l \<Rightarrow> (L3, Inr (l, cap)))"
      by (simp add: loadPrivEsc_def cap_def [symmetric] links'_def [symmetric] Let_def split: sum.splits)
    with finish_load_ok [OF fin] p show ?thesis by (auto split: sum.splits)
  qed
qed

section \<open>Start-up and shutdown\<close>

text \<open>The command-line flags that select modules; an empty path leaves a security module out.\<close>

record flags =
  f_cpuBPF :: string
  f_memBPF :: string
  f_ioBPF :: string
  f_netBPF :: string
  f_sysBPF :: string
  f_lineageBPF :: string
  f_execBPF :: string
  f_dnsBPF :: string
  f_privescBPF :: string
  f_escapeBPF :: string

record agent =
  ag_live :: live
  ag_deferred :: "resource list"   \<comment> \<open>the deferred close calls, last one first\<close>
  ag_mem :: bool
  ag_io :: bool
  ag_net :: bool
  ag_sys :: bool
  ag_exec :: bool
  ag_lineage :: bool
  ag_dns :: bool
  ag_privesc :: bool
  ag_escape :: bool

text \<open>
  Taking over the result of a loader: on success the collector's reader and then the links are
  deferred for closing, on failure the module stays disabled.
\<close>

definition keep_module :: "live \<times> (load_error + loaded) \<Rightarrow> agent \<Rightarrow> agent \<times> bool" where
  "keep_module res a = (case res of
      (L, Inl e) \<Rightarrow> (a\<lparr>ag_live := L\<rparr>, False)
    | (L, Inr l) \<Rightarrow> (a\<lparr>ag_live := L, ag_deferred := ld_links l @ ld_readers l @ ag_deferred a\<rparr>, True))"

definition start_metrics :: "kernel \<Rightarrow> flags \<Rightarrow> agent \<Rightarrow> agent" where
  "start_metrics K f a0 =
     (let (a1, mem) = keep_module (loadMemory K (f_memBPF f) (ag_live a0)) a0;
          (a2, io) = keep_module (loadIO K (f_ioBPF f) (ag_live a1)) a1;
          (a3, net) = keep_module (loadNetwork K (f_netBPF f) (ag_live a2)) a2;
          (a4, sys) = keep_module (loadSyscall K (f_sysBPF f) (ag_live a3)) a3
      in a4\<lparr>ag_mem := mem, ag_io := io, ag_net := net, ag_sys := sys\<rparr>)"

definition start_exec :: "kernel \<Rightarrow> flags \<Rightarrow> agent \<Rightarrow> agent" where
  "start_exec K f a =
     (if f_execBPF f = [] then a
      else case loadExecWithColl K (f_execBPF f) (ag_live a) of
        (L, Inl e) \<Rightarrow> a\<lparr>ag_live := L\<rparr>
      | (L, Inr l) \<Rightarrow> a\<lparr>ag_live := L, ag_deferred := ld_coll l # ld_links l @ ld_readers l @ ag_deferred a, ag_exec := True,
          ag_lineage := (f_lineageBPF f \<noteq> [] \<and> loadLineageFromExec K (f_execBPF f) = None)\<rparr>)"

definition start_dns :: "kernel \<Rightarrow> flags \<Rightarrow> agent \<Rightarrow> agent" where
  "start_dns K f a = (if f_dnsBPF f \<noteq> [] \<and> ag_lineage a
     then let (a', ok) = keep_module (loadDNS K (f_dnsBPF f) (ag_live a)) a in a'\<lparr>ag_dns := ok\<rparr> else a)"

definition start_privesc :: "kernel \<Rightarrow> flags \<Rightarrow> agent \<Rightarrow> agent" where
  "start_privesc K f a = (if f_privescBPF f \<noteq> [] \<and> ag_lineage a
     then let (a', ok) = keep_module (apsnd (map_sum id fst) (loadPrivEsc K (f_privescBPF f) (ag_live a))) a in a'\<lparr>ag_privesc := ok\<rparr> else a)"

definition start_escape :: "kernel \<Rightarrow> flags \<Rightarrow> agent \<Rightarrow> agent" where
  "start_escape K f a = (if f_escapeBPF f \<noteq> [] \<and> ag_lineage a
     then let (a', ok) = keep_module (loadEscape K (f_escapeBPF f) (ag_live a)) a in a'\<lparr>ag_escape := ok\<rparr> else a)"

text \<open>A failure of the CPU module ends the process; every other failure only disables its module.\<close>

definition observer_start :: "kernel \<Rightarrow> flags \<Rightarrow> live \<times> load_error + agent" where
  "observer_start K f = (case loadCPU K (f_cpuBPF f) {#} of
      (L, Inl e) \<Rightarrow> Inl (L, e)
    | (L, Inr l) \<Rightarrow> Inr (start_escape K f (start_privesc K f (start_dns K f (start_exec K f (start_metrics K f
        \<lparr>ag_live = L, ag_deferred = ld_coll l # ld_links l, ag_mem = False, ag_io = False, ag_net = False, ag_sys = False,
         ag_exec = False, ag_lineage = False, ag_dns = False, ag_privesc = False, ag_escape = False\<rparr>))))))"

definition observer_shutdown :: "agent \<Rightarrow> live" where
  "observer_shutdown a = closeLinks (ag_deferred a) (ag_live a)"

section \<open>Clean-up\<close>

definition is_coll :: "resource \<Rightarrow> bool" where
  "is_coll r = (case r of Coll _ \<Rightarrow> True | _ \<Rightarrow> False)"

text \<open>
  Every deferred close is for a live resource, and the live probes and readers beyond those are the
  given ones.
\<close>

definition balanced :: "agent \<Rightarrow> live \<Rightarrow> bool" where
  "balanced a X \<longleftrightarrow> mset (ag_deferred a) \<subseteq># ag_live a \<and>
     filter_mset (\<lambda>r. \<not> is_coll r) (ag_live a - mset (ag_deferred a)) = X"

definition load_result_ok :: "live \<Rightarrow> live \<Rightarrow> live \<times> (load_error + loaded) \<Rightarrow> bool" where
  "load_result_ok L X res = (case res of
      (L', Inl e) \<Rightarrow> L' = L + X
    | (L', Inr l) \<Rightarrow> L' = L + {#ld_coll l#} + mset (ld_links l) + mset (ld_readers l) \<and> is_coll (ld_coll l) \<and> X = {#})"

lemma leaked_no_coll: "r \<in># leaked K path probes \<Longrightarrow> \<not> is_coll r"
  by (auto simp: leaked_def probe_link_def is_coll_def split: if_splits prod.splits)

lemma filter_leaked [simp]: "filter_mset (\<lambda>r. \<not> is_coll r) (leaked K path probes) = leaked K path probes"
  by (rule filter_mset_eq_conv [THEN iffD2]) (auto dest: leaked_no_coll)

lemma balanced_close:
  assumes "balanced a X"
  shows "filter_mset (\<lambda>r. \<not> is_coll r) (observer_shutdown a) = X"
  using assms by (simp add: balanced_def observer_shutdown_def closeLinks_mset)

lemma keep_balanced:
  assumes "balanced a X" and "load_result_ok (ag_live a) Y res" and "filter_mset (\<lambda>r. \<not> is_coll r) Y = Y"
  shows "balanced (fst (keep_module res a)) (X + Y)"
proof -
  define D where "D = ag_live a - mset (ag_deferred a)"
  have L: "ag_live a = D + mset (ag_deferred a)" and X: "filter_mset (\<lambda>r. \<not> is_coll r) D = X"
    using assms(1) by (simp_all add: balanced_def D_def)
  obtain L' q where res: "res = (L', q)" by fastforce
  show ?thesis
  proof (cases q)
    case (Inl e)
    then have "fst (keep_module res a) = a\<lparr>ag_live := (D + Y) + mset (ag_deferred a)\<rparr>"
      using assms(2) res L by (simp add: keep_module_def load_result_ok_def)
    then show ?thesis using X assms(3) by (simp add: balanced_def)
  next
    case (Inr l)
    then have "fst (keep_module res a) = a\<lparr>ag_live := (D + {#ld_coll l#}) + mset (ld_links l @ ld_readers l @ ag_deferred a),
        ag_deferred := ld_links l @ ld_readers l @ ag_deferred a\<rparr>" and c: "is_coll (ld_coll l)" "Y = {#}"
      using assms(2) res L by (simp_all add: keep_module_def load_result_ok_def)
    then show ?thesis using X by (simp add: balanced_def)
  qed
qed

lemma load_module_result:
  "load_result_ok L (leaked K path probes) (load_module K path probes maps reader L)"
proof -
  obtain L' q where res: "load_module K path probes maps reader L = (L', q)" by fastforce
  show ?thesis
  proof (cases q)
    case (Inl e)
    with load_module_ok [OF res] show ?thesis by (simp add: load_result_ok_def res)
  next
    case (Inr l)
    have "ld_coll l = Coll path"
      using res Inr by (auto simp: load_module_def finish_load_def split: sum.splits prod.splits option.splits if_splits)
    with Inr load_module_ok [OF res] show ?thesis by (simp add: load_result_ok_def res is_coll_def)
  qed
qed

lemma finish_load_coll: "finish_load K path maps reader links L = (L', Inr l) \<Longrightarrow> ld_coll l = Coll path"
  by (auto simp: finish_load_def split: option.splits if_splits)

lemma loadMemory_result: "load_result_ok L {#} (loadMemory K path L)"
proof -
  obtain L' q where res: "loadMemory K path L = (L', q)" by fastforce
  show ?thesis
  proof (cases q)
    case (Inl e)
    with loadMemory_ok [OF res] show ?thesis by (simp add: load_result_ok_def res)
  next
    case (Inr l)
    with res have "ld_coll l = Coll path"
      by (auto simp: loadMemory_def Let_def dest: finish_load_coll split: if_splits)
    with Inr loadMemory_ok [OF res] show ?thesis by (simp add: load_result_ok_def res is_coll_def)
  qed
qed

lemma loadPrivEsc_result:
  "load_result_ok L (leaked K path privesc_probes) (apsnd (map_sum id fst) (loadPrivEsc K path L))"
proof -
  obtain L' q where res: "loadPrivEsc K path L = (L', q)" by fastforce
  show ?thesis
  proof (cases q)
    case (Inl e)
    with loadPrivEsc_ok [OF res] show ?thesis by (simp add: load_result_ok_def res)
  next
    case (Inr lc)
    obtain l cap where lc: "lc = (l, cap)" by fastforce
    have "ld_coll l = Coll path"
      using res Inr lc by (auto simp: loadPrivEsc_def Let_def dest: finish_load_coll split: prod.splits sum.splits if_splits)
    with Inr lc loadPrivEsc_ok [OF res] show ?thesis by (simp add: load_result_ok_def res is_coll_def)
  qed
qed

lemmas loader_defs = loadCPU_def loadIO_def loadNetwork_def loadSyscall_def loadExecWithColl_def loadDNS_def loadEscape_def

lemma balanced_flags [simp]:
  "balanced (a\<lparr>ag_mem := b\<rparr>) X = balanced a X" "balanced (a\<lparr>ag_io := b\<rparr>) X = balanced a X" "balanced (a\<lparr>ag_net := b\<rparr>) X = balanced a X"
  "balanced (a\<lparr>ag_sys := b\<rparr>) X = balanced a X" "balanced (a\<lparr>ag_exec := b\<rparr>) X = balanced a X" "balanced (a\<lparr>ag_lineage := b\<rparr>) X = balanced a X"
  "balanced (a\<lparr>ag_dns := b\<rparr>) X = balanced a X" "balanced (a\<lparr>ag_privesc := b\<rparr>) X = balanced a X" "balanced (a\<lparr>ag_escape := b\<rparr>) X = balanced a X"
  by (simp_all add: balanced_def)

lemma start_metrics_balanced:
  assumes "balanced a X"
  shows "balanced (start_metrics K f a) (X + leaked K (f_ioBPF f) io_probes + leaked K (f_netBPF f) network_probes + leaked K (f_sysBPF f) syscall_probes)"
proof -
  define a1 where "a1 = fst (keep_module (loadMemory K (f_memBPF f) (ag_live a)) a)"
  define a2 where "a2 = fst (keep_module (loadIO K (f_ioBPF f) (ag_live a1)) a1)"
  define a3 where "a3 = fst (keep_module (loadNetwork K (f_netBPF f) (ag_live a2)) a2)"
  define a4 where "a4 = fst (keep_module (loadSyscall K (f_sysBPF f) (ag_live a3)) a3)"
  have "balanced a1 (X + {#})"
    unfolding a1_def by (rule keep_balanced [OF assms loadMemory_result]) simp
  then have "balanced a1 X" by simp
  then have "balanced a2 (X + leaked K (f_ioBPF f) io_probes)"
    unfolding a2_def loader_defs by (rule keep_balanced [OF _ load_module_result]) simp
  then have "balanced a3 (X + leaked K (f_ioBPF f) io_probes + leaked K (f_netBPF f) network_probes)"
    unfolding a3_def loader_defs by (rule keep_balanced [OF _ load_module_result]) simp
  then have "balanced a4 (X + leaked K (f_ioBPF f) io_probes + leaked K (f_netBPF f) network_probes + leaked K (f_sysBPF f) syscall_probes)"
    unfolding a4_def loader_defs by (rule keep_balanced [OF _ load_module_result]) simp
  then show ?thesis by (simp add: start_metrics_def a4_def a3_def a2_def a1_def case_prod_beta Let_def)
qed

lemma start_exec_balanced:
  assumes "balanced a X"
  shows "balanced (start_exec K f a) (X + (if f_execBPF f = [] then {#} else leaked K (f_execBPF f) exec_probes))"
proof (cases "f_execBPF f = []")
  case False
  obtain L q where res: "loadExecWithColl K (f_execBPF f) (ag_live a) = (L, q)" by fastforce
  have ok: "load_result_ok (ag_live a) (leaked K (f_execBPF f) exec_probes) (L, q)"
    using load_module_result [of "ag_live a" K "f_execBPF f" exec_probes "[''exec_events'']" "Some ''exec_events''"] res by (simp add: loader_defs)
  have bal: "balanced (fst (keep_module (L, q) a)) (X + leaked K (f_execBPF f) exec_probes)"
    by (rule keep_balanced [OF assms ok]) simp
  show ?thesis
  proof (cases q)
    case (Inl e)
    with bal res False show ?thesis by (simp add: start_exec_def keep_module_def)
  next
    case (Inr l)
    define D where "D = ag_live a - mset (ag_deferred a)"
    have "ag_live a = D + mset (ag_deferred a)" "filter_mset (\<lambda>r. \<not> is_coll r) D = X"
      using assms by (simp_all add: balanced_def D_def)
    moreover have "L = ag_live a + {#ld_coll l#} + mset (ld_links l) + mset (ld_readers l)" "leaked K (f_execBPF f) exec_probes = {#}"
      using ok Inr by (simp_all add: load_result_ok_def)
    ultimately show ?thesis using res Inr False by (simp add: start_exec_def balanced_def)
  qed
qed (simp add: start_exec_def assms)

lemma start_security_balanced:
  assumes "balanced a X"
  shows "balanced (start_dns K f a) (X + (if f_dnsBPF f \<noteq> [] \<and> ag_lineage a then leaked K (f_dnsBPF f) dns_probes else {#}))"
    and "balanced (start_privesc K f a) (X + (if f_privescBPF f \<noteq> [] \<and> ag_lineage a then leaked K (f_privescBPF f) privesc_probes else {#}))"
    and "balanced (start_escape K f a) (X + (if f_escapeBPF f \<noteq> [] \<and> ag_lineage a then leaked K (f_escapeBPF f) escape_probes else {#}))"
  using keep_balanced [OF assms load_module_result [of "ag_live a" K "f_dnsBPF f" dns_probes]]
    keep_balanced [OF assms load_module_result [of "ag_live a" K "f_escapeBPF f" escape_probes]]
    keep_balanced [OF assms loadPrivEsc_result [of "ag_live a" K "f_privescBPF f"]] assms
  by (auto simp: start_dns_def start_privesc_def start_escape_def loader_defs case_prod_beta Let_def)

lemma keep_module_flags [simp]:
  "ag_lineage (fst (keep_module res a)) = ag_lineage a" "ag_exec (fst (keep_module res a)) = ag_exec a"
  "ag_dns (fst (keep_module res a)) = ag_dns a" "ag_privesc (fst (keep_module res a)) = ag_privesc a" "ag_escape (fst (keep_module res a)) = ag_escape a"
  by (auto simp: keep_module_def split: prod.splits sum.splits)

lemma security_flags [simp]:
  "ag_lineage (start_dns K f a) = ag_lineage a" "ag_lineage (start_privesc K f a) = ag_lineage a" "ag_lineage (start_escape K f a) = ag_lineage a"
  "ag_exec (start_dns K f a) = ag_exec a" "ag_exec (start_privesc K f a) = ag_exec a" "ag_exec (start_escape K f a) = ag_exec a"
  "ag_dns (start_privesc K f a) = ag_dns a" "ag_dns (start_escape K f a) = ag_dns a" "ag_privesc (start_escape K f a) = ag_privesc a"
  "ag_privesc (start_dns K f a) = ag_privesc a" "ag_escape (start_dns K f a) = ag_escape a" "ag_escape (start_privesc K f a) = ag_escape a"
  by (simp_all add: start_dns_def start_privesc_def start_escape_def case_prod_beta Let_def)

text \<open>The links left behind by the modules whose load was attempted.\<close>

definition start_leaks :: "kernel \<Rightarrow> flags \<Rightarrow> agent \<Rightarrow> live" where
  "start_leaks K f a = leaked K (f_ioBPF f) io_probes + leaked K (f_netBPF f) network_probes + leaked K (f_sysBPF f) syscall_probes +
     (if f_execBPF f = [] then {#} else leaked K (f_execBPF f) exec_probes) +
     (if f_dnsBPF f \<noteq> [] \<and> ag_lineage a then leaked K (f_dnsBPF f) dns_probes else {#}) +
     (if f_privescBPF f \<noteq> [] \<and> ag_lineage a then leaked K (f_privescBPF f) privesc_probes else {#}) +
     (if f_escapeBPF f \<noteq> [] \<and> ag_lineage a then leaked K (f_escapeBPF f) escape_probes else {#})"

lemma observer_released:
  "case observer_start K f of
     Inl (L, e) \<Rightarrow> L = leaked K (f_cpuBPF f) cpu_probes
   | Inr a \<Rightarrow> filter_mset (\<lambda>r. \<not> is_coll r) (observer_shutdown a) = start_leaks K f a"
proof -
  obtain L q where res: "loadCPU K (f_cpuBPF f) {#} = (L, q)" by fastforce
  have ok: "load_result_ok {#} (leaked K (f_cpuBPF f) cpu_probes) (L, q)"
    using load_module_result [of "{#}" K "f_cpuBPF f" cpu_probes "[''cpu_stats_map'']" None] res by (simp add: loader_defs)
  show ?thesis
  proof (cases q)
    case (Inl e)
    with ok res show ?thesis by (simp add: observer_start_def load_result_ok_def)
  next
    case (Inr l)
    define a0 where "a0 = \<lparr>ag_live = L, ag_deferred = ld_coll l # ld_links l, ag_mem = False, ag_io = False, ag_net = False, ag_sys = False,
         ag_exec = False, ag_lineage = False, ag_dns = False, ag_privesc = False, ag_escape = False\<rparr>"
    have "ld_readers l = []"
      using res Inr by (auto simp: loadCPU_def load_module_def finish_load_def split: sum.splits prod.splits option.splits if_splits)
    then have "balanced a0 {#}" using ok Inr by (simp add: balanced_def a0_def load_result_ok_def)
    from start_security_balanced(3) [OF start_security_balanced(2) [OF start_security_balanced(1) [OF start_exec_balanced [OF start_metrics_balanced [OF this]]]]]
    have "balanced (start_escape K f (start_privesc K f (start_dns K f (start_exec K f (start_metrics K f a0)))))
        (start_leaks K f (start_escape K f (start_privesc K f (start_dns K f (start_exec K f (start_metrics K f a0))))))"
      by (simp add: start_leaks_def add_ac)
    from balanced_close [OF this] res Inr show ?thesis by (simp add: observer_start_def a0_def)
  qed
qed

text \<open>
  Whatever the kernel refuses, shutdown closes every probe link and ring-buffer reader that the
  start-up opened, except the links that a loader attached before one of its later probes failed: the
  loaders drop those without closing them. When the mandatory CPU module fails, the links left are
  likewise those attached before its failing probe.
\<close>

theorem observer_shutdown_releases:
  "case observer_start K f of
     Inl (L, e) \<Rightarrow> L = leaked K (f_cpuBPF f) cpu_probes
   | Inr a \<Rightarrow> filter_mset (\<lambda>r. \<not> is_coll r) (observer_shutdown a) = start_leaks K f a"
  by (rule observer_released)

text \<open>
  The security modules form a chain: DNS, privilege-escalation and escape detection run only when
  the lineage map is available, and that only when the exec module runs; each of them only when its
  object file was given.
\<close>

theorem observer_start_dependencies:
  assumes "observer_start K f = Inr a"
  shows "(ag_dns a \<longrightarrow> ag_lineage a \<and> f_dnsBPF f \<noteq> []) \<and> (ag_privesc a \<longrightarrow> ag_lineage a \<and> f_privescBPF f \<noteq> []) \<and>
    (ag_escape a \<longrightarrow> ag_lineage a \<and> f_escapeBPF f \<noteq> []) \<and> (ag_lineage a \<longrightarrow> ag_exec a \<and> f_lineageBPF f \<noteq> []) \<and> (ag_exec a \<longrightarrow> f_execBPF f \<noteq> [])"
proof -
  obtain a0 where a0: "\<not> ag_exec a0" "\<not> ag_lineage a0" "\<not> ag_dns a0" "\<not> ag_privesc a0" "\<not> ag_escape a0"
    "a = start_escape K f (start_privesc K f (start_dns K f (start_exec K f (start_metrics K f a0))))"
  proof -
    obtain L l where "loadCPU K (f_cpuBPF f) {#} = (L, Inr l)"
      using assms by (auto simp: observer_start_def split: prod.splits sum.splits)
    then show ?thesis
      using that [of "\<lparr>ag_live = L, ag_deferred = ld_coll l # ld_links l, ag_mem = False, ag_io = False, ag_net = False, ag_sys = False,
         ag_exec = False, ag_lineage = False, ag_dns = False, ag_privesc = False, ag_escape = False\<rparr>"] assms
      by (simp add: observer_start_def)
  qed
  define a1 where "a1 = start_metrics K f a0"
  have a1: "\<not> ag_exec a1" "\<not> ag_lineage a1" "\<not> ag_dns a1" "\<not> ag_privesc a1" "\<not> ag_escape a1"
    using a0 by (simp_all add: a1_def start_metrics_def case_prod_beta Let_def)
  define a2 where "a2 = start_exec K f a1"
  have a2: "ag_lineage a2 \<longrightarrow> ag_exec a2 \<and> f_lineageBPF f \<noteq> []" "ag_exec a2 \<longrightarrow> f_execBPF f \<noteq> []"
    "\<not> ag_dns a2" "\<not> ag_privesc a2" "\<not> ag_escape a2"
    using a1 by (auto simp: a2_def start_exec_def split: prod.splits sum.splits)
  have "ag_dns (start_dns K f b) \<longrightarrow> ag_dns b \<or> ag_lineage b \<and> f_dnsBPF f \<noteq> []"
    "ag_privesc (start_privesc K f b) \<longrightarrow> ag_privesc b \<or> ag_lineage b \<and> f_privescBPF f \<noteq> []"
    "ag_escape (start_escape K f b) \<longrightarrow> ag_escape b \<or> ag_lineage b \<and> f_escapeBPF f \<noteq> []" for b
    by (simp_all add: start_dns_def start_privesc_def start_escape_def case_prod_beta Let_def)
  with a2 show ?thesis unfolding a0(6) a1_def [symmetric] a2_def [symmetric] by (metis security_flags)
qed

definition all_kernel :: kernel where
  "all_kernel = \<lparr>kn_spec = \<lambda>_. True, kn_coll = \<lambda>_. True, kn_prog = \<lambda>_ _. True, kn_map = \<lambda>_ _. True, kn_tracepoint = \<lambda>_ _. True,
     kn_kprobe = \<lambda>_. True, kn_reader = \<lambda>_ _. True\<rparr>"

definition cpu_flags :: flags where
  "cpu_flags = \<lparr>f_cpuBPF = ''c'', f_memBPF = ''m'', f_ioBPF = ''i'', f_netBPF = ''n'', f_sysBPF = ''s'', f_lineageBPF = ''l'', f_execBPF = ''e'',
     f_dnsBPF = ''d'', f_privescBPF = [], f_escapeBPF = []\<rparr>"

theorem observer_start_dependencies_witness:
  "\<exists>a. observer_start all_kernel cpu_flags = Inr a \<and> (ag_dns a \<longrightarrow> ag_lineage a) \<and> \<not> ag_escape a"
proof -
  have "\<exists>a. observer_start all_kernel cpu_flags = Inr a"
    by (simp add: observer_start_def all_kernel_def cpu_flags_def loadCPU_def load_module_def load_probes_def attachProbes_def
      cpu_probes_def finish_load_def)
  then obtain a where "observer_start all_kernel cpu_flags = Inr a" by blast
  with observer_start_dependencies [OF this] show ?thesis by (auto simp: cpu_flags_def)
qed

end
