(* ===== verification/Observer.thy ===== *)
theory Observer
  imports Exporter SecurityCollectors Loaders
begin

text \<open>
  The poll loop of the command-line agent (cmd/observer/main.go): the five table printers with their
  container filter, export, ordering and row limit, the event drains, the security writers and one
  tick of the loop. The fixed decoration of the tables and the formatting of numbers are not modelled:
  a printed table is the list of its rows, each with the shortened container name.
\<close>

section \<open>Display helpers\<close>

definition truncate_name :: "string \<Rightarrow> int \<Rightarrow> string go" where
  "truncate_name s n =
     (let s' = (if HasPrefix s ''docker:'' then drop 7 s else if HasPrefix s ''cri:'' then drop 4 s else s) in
      if int (length s') \<le> n then Inr s'
      else go_bind (go_slice s' 0 (n - 3)) (\<lambda>t. Inr (t @ ''...'')))"

definition applyTop :: "'a list \<Rightarrow> int \<Rightarrow> 'a list" where
  "applyTop s n = (if 0 < n \<and> n < int (length s) then take (nat n) s else s)"

record displayConfig =
  dc_containersOnly :: bool
  dc_topN :: int

definition filter_containers :: "displayConfig \<Rightarrow> ('a \<Rightarrow> string) \<Rightarrow> 'a list \<Rightarrow> 'a list" where
  "filter_containers cfg name xs = (if dc_containersOnly cfg then filter (\<lambda>s. isContainer (name s)) xs else xs)"

text \<open>The rows of a table: the first column is the shortened container name.\<close>

fun table_rows :: "('a \<Rightarrow> string) \<Rightarrow> 'a list \<Rightarrow> (string \<times> 'a) list go" where
  "table_rows name [] = Inr []"
| "table_rows name (x # xs) =
     go_bind (truncate_name (name x) 45) (\<lambda>t. go_bind (table_rows name xs) (\<lambda>rs. Inr ((t, x) # rs)))"

section \<open>The tables\<close>

text \<open>\<open>prom\<close> is the exporter, if there is one. A collection error is logged and prints no table.\<close>

definition by_cpu :: "CpuSample \<Rightarrow> CpuSample \<Rightarrow> bool" where
  "by_cpu a b \<longleftrightarrow> cpu_CPUSeconds b < cpu_CPUSeconds a"

definition printCpuTable ::
  "'m prom_api \<Rightarrow> (CpuSample list \<Rightarrow> CpuSample list) \<Rightarrow> poll_world \<Rightarrow> (u64 \<times> CpuStats) list \<Rightarrow> displayConfig \<Rightarrow>
   PrometheusExporter option \<Rightarrow> CpuCollector \<Rightarrow> 'm \<Rightarrow> (CpuCollector \<times> 'm \<times> (string \<times> CpuSample) list option) go" where
  "printCpuTable P srt w entries cfg prom c m = (case Cpu_Collect w entries c of
      (c', Inl _) \<Rightarrow> Inr (c', m, None)
    | (c', Inr (all, _)) \<Rightarrow>
        let samples = filter_containers cfg cpu_ContainerName all in
        go_bind (case prom of None \<Rightarrow> Inr m | Some e \<Rightarrow> UpdateCPU P e samples m) (\<lambda>m'.
        go_bind (table_rows cpu_ContainerName (applyTop (srt samples) (dc_topN cfg))) (\<lambda>rows.
          Inr (c', m', Some rows))))"

definition by_memory :: "MemSample \<Rightarrow> MemSample \<Rightarrow> bool" where
  "by_memory a b \<longleftrightarrow> mem_MemoryBytes b < mem_MemoryBytes a"

definition printMemTable ::
  "'m prom_api \<Rightarrow> (MemSample list \<Rightarrow> MemSample list) \<Rightarrow> poll_world \<Rightarrow> (u64 \<times> PfStats) list \<Rightarrow> displayConfig \<Rightarrow>
   PrometheusExporter option \<Rightarrow> MemoryCollector \<Rightarrow> 'm \<Rightarrow> (MemoryCollector \<times> 'm \<times> (string \<times> MemSample) list option) go" where
  "printMemTable P srt w entries cfg prom c m = (case Memory_Collect w entries c of
      (c', Inl _) \<Rightarrow> Inr (c', m, None)
    | (c', Inr (all, _)) \<Rightarrow>
        let samples = filter_containers cfg mem_ContainerName all in
        go_bind (case prom of None \<Rightarrow> Inr m | Some e \<Rightarrow> UpdateMemory P e samples m) (\<lambda>m'.
        go_bind (table_rows mem_ContainerName (applyTop (srt samples) (dc_topN cfg))) (\<lambda>rows.
          Inr (c', m', Some rows))))"

definition by_throughput :: "IoSample \<Rightarrow> IoSample \<Rightarrow> bool" where
  "by_throughput a b \<longleftrightarrow> fadd (io_ReadBytesPerSec b) (io_WriteBytesPerSec b) < fadd (io_ReadBytesPerSec a) (io_WriteBytesPerSec a)"

definition printIOTable ::
  "'m prom_api \<Rightarrow> (IoSample list \<Rightarrow> IoSample list) \<Rightarrow> poll_world \<Rightarrow> (u64 \<times> IoStats) list \<Rightarrow> displayConfig \<Rightarrow>
   PrometheusExporter option \<Rightarrow> IoCollector \<Rightarrow> 'm \<Rightarrow> (IoCollector \<times> 'm \<times> (string \<times> IoSample) list option) go" where
  "printIOTable P srt w entries cfg prom c m = (case Io_Collect w entries c of
      (c', Inl _) \<Rightarrow> Inr (c', m, None)
    | (c', Inr (all, _)) \<Rightarrow>
        let samples = filter_containers cfg io_ContainerName all in
        go_bind (case prom of None \<Rightarrow> Inr m | Some e \<Rightarrow> UpdateIO P e samples m) (\<lambda>m'.
        go_bind (table_rows io_ContainerName (applyTop (srt samples) (dc_topN cfg))) (\<lambda>rows.
          Inr (c', m', Some rows))))"

definition by_flows :: "NetSummary \<Rightarrow> NetSummary \<Rightarrow> bool" where
  "by_flows a b \<longleftrightarrow> ns_ActiveFlows b < ns_ActiveFlows a"

definition printNetTable ::
  "'m prom_api \<Rightarrow> ((u64, NetSummary) gomap \<Rightarrow> (u64, NetSummary) gomap) \<Rightarrow> (NetSummary list \<Rightarrow> NetSummary list) \<Rightarrow> poll_world \<Rightarrow>
   (ConnKey \<times> ConnStats) list \<Rightarrow> displayConfig \<Rightarrow> PrometheusExporter option \<Rightarrow> 'm \<Rightarrow> ('m \<times> (string \<times> NetSummary) list option) go" where
  "printNetTable P ord srt w entries cfg prom m = (case CollectSummary ord w entries of
      Inl _ \<Rightarrow> Inr (m, None)
    | Inr all \<Rightarrow>
        let summaries = filter_containers cfg ns_ContainerName all in
        go_bind (case prom of None \<Rightarrow> Inr m | Some e \<Rightarrow> UpdateNetwork P e summaries m) (\<lambda>m'.
        go_bind (table_rows ns_ContainerName (applyTop (srt summaries) (dc_topN cfg))) (\<lambda>rows.
          Inr (m', Some rows))))"

text \<open>The syscall table exports every summary and shows the five most frequent ones per container.\<close>

definition printSyscallTable ::
  "'m prom_api \<Rightarrow> ((string, SyscallSummary list) gomap \<Rightarrow> (string, SyscallSummary list) gomap) \<Rightarrow>
   (SyscallSummary list \<Rightarrow> SyscallSummary list) \<Rightarrow> (SyscallSummary list \<Rightarrow> SyscallSummary list) \<Rightarrow> poll_world \<Rightarrow>
   (SyscallKey \<times> SyscallStats) list \<Rightarrow> displayConfig \<Rightarrow> PrometheusExporter option \<Rightarrow> 'm \<Rightarrow> ('m \<times> (string \<times> SyscallSummary) list option) go" where
  "printSyscallTable P ord srt srt2 w entries cfg prom m = (case Syscall_Collect w entries of
      Inl _ \<Rightarrow> Inr (m, None)
    | Inr (all, _) \<Rightarrow>
        let samples = filter_containers cfg ss_ContainerName all;
            byContainer = group_by ss_ContainerName samples;
            summaries = srt2 (concat (map (\<lambda>(_, es). top_entries srt es) (ord byContainer)))
        in go_bind (case prom of None \<Rightarrow> Inr m | Some e \<Rightarrow> UpdateSyscalls P e samples m) (\<lambda>m'.
           go_bind (table_rows ss_ContainerName (applyTop summaries (dc_topN cfg))) (\<lambda>rows.
             Inr (m', Some rows))))"

section \<open>Event drains\<close>

text \<open>The events that are logged, after the container filter.\<close>

definition drainOOMEvents ::
  "'m prom_api \<Rightarrow> displayConfig \<Rightarrow> PrometheusExporter option \<Rightarrow> MemoryCollector \<Rightarrow> 'm \<Rightarrow> (MemoryCollector \<times> 'm \<times> OOMEvent list) go" where
  "drainOOMEvents P cfg prom c m = (case ReadOOMEvents c of (c', events) \<Rightarrow>
     let shown = filter_containers cfg oom_ContainerName events in
     go_bind (case prom of None \<Rightarrow> Inr m | Some e \<Rightarrow> go_fold (\<lambda>ev. UpdateOOM P e (oom_ContainerName ev)) shown m) (\<lambda>m'.
       Inr (c', m', shown)))"

definition drainFileEvents :: "poll_world \<Rightarrow> displayConfig \<Rightarrow> bytes list \<Rightarrow> FileEvent list go" where
  "drainFileEvents w cfg recs = go_bind (ReadFileEvents w recs) (\<lambda>evs. Inr (filter_containers cfg file_ContainerName evs))"

definition drainTCPEvents :: "poll_world \<Rightarrow> displayConfig \<Rightarrow> bytes list \<Rightarrow> TCPEvent list go" where
  "drainTCPEvents w cfg recs = go_bind (ReadTCPEvents w recs) (\<lambda>evs. Inr (filter_containers cfg te_ContainerName evs))"

definition drainSlowSyscallEvents :: "poll_world \<Rightarrow> displayConfig \<Rightarrow> bytes list \<Rightarrow> SlowSyscallSummary list go" where
  "drainSlowSyscallEvents w cfg recs = go_bind (ReadSlowEvents w recs) (\<lambda>evs. Inr (filter_containers cfg sw_ContainerName evs))"

section \<open>Security writers\<close>

text \<open>
  The writers that \<^verbatim>\<open>main\<close> stacks: the innermost one appends to the log, the container filter
  drops events of other processes, and the metrics writer wraps them.
\<close>

definition stderr_write :: "EventEnvelope \<Rightarrow> EventEnvelope list \<Rightarrow> EventEnvelope list" where
  "stderr_write ev out = out @ [ev]"

definition containerFilter_write :: "(EventEnvelope \<Rightarrow> 'w \<Rightarrow> 'w) \<Rightarrow> EventEnvelope \<Rightarrow> 'w \<Rightarrow> 'w" where
  "containerFilter_write inner ev s = (if isContainer (ev_ContainerName ev) then inner ev s else s)"

definition security_writer :: "bool \<Rightarrow> bool \<Rightarrow> PrometheusExporter \<Rightarrow> EventEnvelope list PrometheusSecurityEventWriter" where
  "security_writer showSecurity containersOnly e =
     \<lparr>sw_Inner = (if showSecurity then Some (if containersOnly then containerFilter_write stderr_write else stderr_write) else None),
      sw_Exporter = e, sw_ContainersOnly = containersOnly\<rparr>"

section \<open>One tick\<close>

record obs_flags =
  of_containersOnly :: bool
  of_showFiles :: bool
  of_showTCP :: bool
  of_showSlowSys :: bool
  of_showSecurity :: bool
  of_top :: int
  of_richMem :: bool

text \<open>
  What the kernel offers during a tick: the entries of the statistics maps, the pending ring-buffer
  records and the world the collectors see; \<open>None\<close> where the module is disabled.
\<close>

record tick_input =
  ti_world :: poll_world
  ti_cpu :: "(u64 \<times> CpuStats) list"
  ti_mem :: "(u64 \<times> PfStats) list option"
  ti_io :: "(u64 \<times> IoStats) list option"
  ti_files :: "bytes list"
  ti_net :: "(ConnKey \<times> ConnStats) list option"
  ti_tcp :: "bytes list"
  ti_sys :: "(SyscallKey \<times> SyscallStats) list option"
  ti_slow :: "bytes list"
  ti_lineage :: "bytes list option option"
  ti_exec :: "bytes list option"
  ti_dns :: "bytes list option"
  ti_privesc :: "bytes list option"
  ti_escape :: "bytes list option"

record tick_sorts =
  so_cpu :: "CpuSample list \<Rightarrow> CpuSample list"
  so_mem :: "MemSample list \<Rightarrow> MemSample list"
  so_io :: "IoSample list \<Rightarrow> IoSample list"
  so_net :: "NetSummary list \<Rightarrow> NetSummary list"
  so_count :: "SyscallSummary list \<Rightarrow> SyscallSummary list"
  so_rank :: "SyscallSummary list \<Rightarrow> SyscallSummary list"
  so_netmap :: "(u64, NetSummary) gomap \<Rightarrow> (u64, NetSummary) gomap"
  so_sysmap :: "(string, SyscallSummary list) gomap \<Rightarrow> (string, SyscallSummary list) gomap"
  so_flags :: "(u32, string) gomap \<Rightarrow> (u32, string) gomap"

record 'm obs_state =
  ob_cpu :: CpuCollector
  ob_mem :: MemoryCollector
  ob_io :: IoCollector
  ob_metrics :: 'm
  ob_log :: "EventEnvelope list"
  ob_oomLog :: "OOMEvent list"

definition obs_config :: "obs_flags \<Rightarrow> displayConfig" where
  "obs_config f = \<lparr>dc_containersOnly = of_containersOnly f, dc_topN = of_top f\<rparr>"

definition obs_metrics_step :: "'m prom_api \<Rightarrow> tick_sorts \<Rightarrow> PrometheusExporter \<Rightarrow> obs_flags \<Rightarrow> tick_input \<Rightarrow> 'm obs_state \<Rightarrow> 'm obs_state go" where
  "obs_metrics_step P S e f t s0 =
     (let w = ti_world t; cfg = obs_config f in
      go_bind (printCpuTable P (so_cpu S) w (ti_cpu t) cfg (Some e) (ob_cpu s0) (ob_metrics s0)) (\<lambda>(c1, m1, _).
      go_bind (case ti_mem t of None \<Rightarrow> Inr (ob_mem s0, m1, [])
               | Some es \<Rightarrow> go_bind (printMemTable P (so_mem S) w es cfg (Some e) (ob_mem s0) m1) (\<lambda>(c2, m2, _).
                            drainOOMEvents P cfg (Some e) c2 m2)) (\<lambda>(c2, m2, oom).
      go_bind (case ti_io t of None \<Rightarrow> Inr (ob_io s0, m2)
               | Some es \<Rightarrow> go_bind (printIOTable P (so_io S) w es cfg (Some e) (ob_io s0) m2) (\<lambda>(c3, m3, _).
                            go_bind (if of_showFiles f then drainFileEvents w cfg (ti_files t) else Inr []) (\<lambda>_. Inr (c3, m3)))) (\<lambda>(c3, m3).
      go_bind (case ti_net t of None \<Rightarrow> Inr m3
               | Some es \<Rightarrow> go_bind (printNetTable P (so_netmap S) (so_net S) w es cfg (Some e) m3) (\<lambda>(m4, _).
                            go_bind (if of_showTCP f then drainTCPEvents w cfg (ti_tcp t) else Inr []) (\<lambda>_. Inr m4))) (\<lambda>m4.
      go_bind (case ti_sys t of None \<Rightarrow> Inr m4
               | Some es \<Rightarrow> go_bind (printSyscallTable P (so_sysmap S) (so_count S) (so_rank S) w es cfg (Some e) m4) (\<lambda>(m5, _).
                            go_bind (if of_showSlowSys f then drainSlowSyscallEvents w cfg (ti_slow t) else Inr []) (\<lambda>_. Inr m5))) (\<lambda>m5.
        Inr (s0\<lparr>ob_cpu := c1, ob_mem := c2, ob_io := c3, ob_metrics := m5, ob_oomLog := ob_oomLog s0 @ oom\<rparr>)))))))"

text \<open>The security drains, each of which hands its events to the writer.\<close>

definition security_events :: "tick_sorts \<Rightarrow> lineage_api option \<Rightarrow> u64 \<Rightarrow> tick_input \<Rightarrow> EventEnvelope list go" where
  "security_events S lin boot t =
     (let r = pw_resolve (ti_world t) in
      go_bind (case ti_lineage t of None \<Rightarrow> Inr [] | Some rs \<Rightarrow> ReadForkEvents r boot rs) (\<lambda>e1.
      go_bind (case ti_exec t of None \<Rightarrow> Inr [] | Some rs \<Rightarrow> ReadExecEvents r None boot rs) (\<lambda>e2.
      go_bind (case ti_dns t of None \<Rightarrow> Inr [] | Some rs \<Rightarrow> ReadDNSEvents r lin boot rs) (\<lambda>e3.
      go_bind (case ti_privesc t of None \<Rightarrow> Inr [] | Some rs \<Rightarrow> ReadPrivEscEvents r lin boot rs) (\<lambda>e4.
      go_bind (case ti_escape t of None \<Rightarrow> Inr [] | Some rs \<Rightarrow> ReadEscapeEvents (so_flags S) r lin boot rs) (\<lambda>e5.
        Inr (e1 @ e2 @ e3 @ e4 @ e5)))))))"

definition observer_tick ::
  "'m prom_api \<Rightarrow> tick_sorts \<Rightarrow> lineage_api option \<Rightarrow> u64 \<Rightarrow> obs_flags \<Rightarrow> tick_input \<Rightarrow> 'm obs_state \<Rightarrow> 'm obs_state go" where
  "observer_tick P S lin boot f t s =
     go_bind (obs_metrics_step P S NewPrometheusExporter f t s) (\<lambda>s1.
     go_bind (security_events S lin boot t) (\<lambda>evs.
     go_bind (go_fold (Prom_Write P (security_writer (of_showSecurity f) (of_containersOnly f) NewPrometheusExporter)) evs
               (ob_metrics s1, ob_log s1)) (\<lambda>(m, lg).
       Inr (s1\<lparr>ob_metrics := m, ob_log := lg\<rparr>))))"

section \<open>Rows\<close>

lemma truncate_name_ok:
  assumes "3 \<le> n"
  shows "\<exists>t. truncate_name s n = Inr t \<and> int (length t) \<le> n"
  using assms by (auto simp: truncate_name_def Let_def go_slice_ok)

lemma table_rows_ok:
  "\<exists>rows. table_rows name xs = Inr rows \<and> map snd rows = xs \<and> (\<forall>(t, x) \<in> set rows. truncate_name (name x) 45 = Inr t \<and> length t \<le> 45)"
proof (induction xs)
  case (Cons x xs)
  obtain t where "truncate_name (name x) 45 = Inr t" "int (length t) \<le> 45" using truncate_name_ok [of 45 "name x"] by auto
  with Cons show ?case by auto
qed simp

text \<open>
  \<open>ys\<close> are the \<open>n\<close> greatest elements of \<open>xs\<close> in descending order, or all of them when the limit
  is not positive: no element left out comes before one that is shown.
\<close>

definition top_rows :: "('a \<Rightarrow> 'a \<Rightarrow> bool) \<Rightarrow> int \<Rightarrow> 'a list \<Rightarrow> 'a list \<Rightarrow> bool" where
  "top_rows lt n xs ys \<longleftrightarrow> sorted_wrt (\<lambda>a b. \<not> lt b a) ys \<and>
     (\<exists>rest. mset xs = mset (ys @ rest) \<and> (\<forall>y \<in> set ys. \<forall>z \<in> set rest. \<not> lt z y)) \<and>
     int (length ys) = (if 0 < n then min n (int (length xs)) else int (length xs))"

lemma top_rows_sorted:
  assumes "is_sort lt srt"
  shows "top_rows lt n xs (applyTop (srt xs) n)"
proof -
  define k where "k = (if 0 < n \<and> n < int (length xs) then nat n else length xs)"
  have len: "length (srt xs) = length xs" by (rule is_sort_length [OF assms])
  then have top: "applyTop (srt xs) n = take k (srt xs)" by (simp add: applyTop_def k_def)
  have srt: "sorted_wrt (\<lambda>a b. \<not> lt b a) (take k (srt xs) @ drop k (srt xs))" using is_sort_sorted [OF assms] by simp
  have "mset xs = mset (take k (srt xs) @ drop k (srt xs))" using is_sort_mset [OF assms, of xs] by simp
  moreover have "int (length (take k (srt xs))) = (if 0 < n then min n (int (length xs)) else int (length xs))"
    by (auto simp: len k_def)
  ultimately show ?thesis using srt unfolding top_rows_def top sorted_wrt_append by blast
qed

text \<open>A printed table: the rows of the samples shown and what the exporter received.\<close>

definition prints_top ::
  "'m prom_api \<Rightarrow> ('s \<Rightarrow> 's \<Rightarrow> bool) \<Rightarrow> ('s \<Rightarrow> string) \<Rightarrow> ('s list \<Rightarrow> 'm \<Rightarrow> 'm go) \<Rightarrow> displayConfig \<Rightarrow> 's list \<Rightarrow> 'm \<Rightarrow> 'm \<Rightarrow> (string \<times> 's) list option \<Rightarrow> bool" where
  "prints_top P lt name upd cfg samples m m' out \<longleftrightarrow>
     upd (filter_containers cfg name samples) m = Inr m' \<and>
     (\<exists>rows. out = Some rows \<and> top_rows lt (dc_topN cfg) (filter_containers cfg name samples) (map snd rows) \<and>
        (\<forall>(t, x) \<in> set rows. truncate_name (name x) 45 = Inr t \<and> length t \<le> 45))"

text \<open>
  The syscall table: a ranking, ordered by container name and rank, that has for each container its at most
  five most frequent syscalls, cut to the first \<open>topN\<close> rows.
\<close>

definition prints_ranking ::
  "'m prom_api \<Rightarrow> (SyscallSummary list \<Rightarrow> SyscallSummary list) \<Rightarrow> displayConfig \<Rightarrow> SyscallSummary list \<Rightarrow> 'm \<Rightarrow> 'm \<Rightarrow>
   (string \<times> SyscallSummary) list option \<Rightarrow> bool" where
  "prints_ranking P srt cfg samples m m' out \<longleftrightarrow>
     (let shown = filter_containers cfg ss_ContainerName samples in
      UpdateSyscalls P NewPrometheusExporter shown m = Inr m' \<and>
      (\<exists>rows full. out = Some rows \<and> map snd rows = applyTop full (dc_topN cfg) \<and>
         sorted_wrt (\<lambda>a b. ss_ContainerName a < ss_ContainerName b \<or> ss_ContainerName a = ss_ContainerName b \<and> ss_Rank a \<le> ss_Rank b) full \<and>
         (\<forall>n. filter (\<lambda>s. ss_ContainerName s = n) full = stamp_ranks (take 5 (srt (filter (\<lambda>s. ss_ContainerName s = n) shown)))) \<and>
         (\<forall>(t, x) \<in> set rows. truncate_name (ss_ContainerName x) 45 = Inr t \<and> length t \<le> 45)))"

lemma prints_topI:
  assumes "is_sort lt srt" and "\<And>xs. \<exists>m'. upd xs m = Inr m'"
  shows "\<exists>m' rows. upd (filter_containers cfg name samples) m = Inr m' \<and>
    table_rows name (applyTop (srt (filter_containers cfg name samples)) (dc_topN cfg)) = Inr rows \<and>
    prints_top P lt name upd cfg samples m m' (Some rows)"
proof -
  obtain m' where "upd (filter_containers cfg name samples) m = Inr m'" using assms(2) by blast
  then show ?thesis
    using table_rows_ok [of name "applyTop (srt (filter_containers cfg name samples)) (dc_topN cfg)"]
      top_rows_sorted [OF assms(1), of "dc_topN cfg" "filter_containers cfg name samples"]
    by (auto simp: prints_top_def)
qed

lemma printSyscallTable_ranking:
  assumes "prom_laws P" and "is_sort by_count srt" and "is_sort by_name_rank srt2" and "\<forall>m. mset (ord m) = mset m" and "Syscall_Collect w ses = Inr (ss, dead)"
  shows "\<exists>m' out. printSyscallTable P ord srt srt2 w ses cfg (Some NewPrometheusExporter) m = Inr (m', out) \<and> prints_ranking P srt cfg ss m m' out"
proof -
  let ?shown = "filter_containers cfg ss_ContainerName ss"
  let ?full = "ranked ord srt srt2 ?shown"
  obtain m' where m': "UpdateSyscalls P NewPrometheusExporter ?shown m = Inr m'" using updates_total(5) [OF assms(1)] by blast
  obtain rows where rows: "table_rows ss_ContainerName (applyTop ?full (dc_topN cfg)) = Inr rows" "map snd rows = applyTop ?full (dc_topN cfg)"
    "\<forall>(t, x) \<in> set rows. truncate_name (ss_ContainerName x) 45 = Inr t \<and> length t \<le> 45"
    using table_rows_ok [of ss_ContainerName "applyTop ?full (dc_topN cfg)"] by blast
  have "printSyscallTable P ord srt srt2 w ses cfg (Some NewPrometheusExporter) m = Inr (m', Some rows)"
    using assms(5) m' rows(1) by (simp add: printSyscallTable_def ranked_def Let_def)
  moreover have "prints_ranking P srt cfg ss m m' (Some rows)"
    unfolding prints_ranking_def Let_def using m' rows(2,3) ranked_order [OF assms(3), of ord srt ?shown] ranked_container [OF assms(2-4), where all = ?shown]
    by (intro conjI exI [of _ rows] exI [of _ ?full]) (simp_all add: top_entries_def)
  ultimately show ?thesis by blast
qed

text \<open>
  C39: The five tables. The CPU, memory, I/O and network tables show the top rows of what was collected: the
  samples of containers when only those are wanted, in descending order of the table's key, at most
  \<open>topN\<close> of them when that is positive, and none left out that ranks above one shown. The syscall table
  shows for each container its at most five most frequent syscalls, ordered by container name and rank,
  and a positive \<open>topN\<close> keeps the first rows in that order, whatever their counts. The exporter receives
  all of the filtered samples, whatever the row limit; names are cut to 45 bytes and nothing panics.
\<close>

theorem tables_show_top:
  assumes "prom_laws P" and "is_sort by_cpu srt1" and "is_sort by_memory srt2" and "is_sort by_throughput srt3" and "is_sort by_flows srt4"
    and "is_sort by_count srt5" and "is_sort by_name_rank srt6" and "\<forall>m. mset (ord2 m) = mset m"
    and "snd (Cpu_Collect w ces c) = Inr (cs, d1)" and "snd (Memory_Collect w mes mc) = Inr (ms, d2)"
    and "snd (Io_Collect w ies ic) = Inr (is, d3)" and "CollectSummary ord w nes = Inr ns" and "Syscall_Collect w ses = Inr (ss, d5)"
  shows "(\<exists>m' out. printCpuTable P srt1 w ces cfg (Some NewPrometheusExporter) c m = Inr (fst (Cpu_Collect w ces c), m', out) \<and>
       prints_top P by_cpu cpu_ContainerName (UpdateCPU P NewPrometheusExporter) cfg cs m m' out) \<and>
    (\<exists>m' out. printMemTable P srt2 w mes cfg (Some NewPrometheusExporter) mc m = Inr (fst (Memory_Collect w mes mc), m', out) \<and>
       prints_top P by_memory mem_ContainerName (UpdateMemory P NewPrometheusExporter) cfg ms m m' out) \<and>
    (\<exists>m' out. printIOTable P srt3 w ies cfg (Some NewPrometheusExporter) ic m = Inr (fst (Io_Collect w ies ic), m', out) \<and>
       prints_top P by_throughput io_ContainerName (UpdateIO P NewPrometheusExporter) cfg is m m' out) \<and>
    (\<exists>m' out. printNetTable P ord srt4 w nes cfg (Some NewPrometheusExporter) m = Inr (m', out) \<and>
       prints_top P by_flows ns_ContainerName (UpdateNetwork P NewPrometheusExporter) cfg ns m m' out) \<and>
    (\<exists>m' out. printSyscallTable P ord2 srt5 srt6 w ses cfg (Some NewPrometheusExporter) m = Inr (m', out) \<and>
       prints_ranking P srt5 cfg ss m m' out)"
proof (intro conjI, goal_cases)
  case 1
  from prints_topI [where upd = "UpdateCPU P NewPrometheusExporter" and P = P, OF assms(2) updates_total(1) [OF assms(1)], of cfg cpu_ContainerName cs m]
    assms(9) show ?case by (cases "Cpu_Collect w ces c") (force simp: printCpuTable_def)
next
  case 2
  from prints_topI [where upd = "UpdateMemory P NewPrometheusExporter" and P = P, OF assms(3) updates_total(2) [OF assms(1)], of cfg mem_ContainerName ms m]
    assms(10) show ?case by (cases "Memory_Collect w mes mc") (force simp: printMemTable_def)
next
  case 3
  from prints_topI [where upd = "UpdateIO P NewPrometheusExporter" and P = P, OF assms(4) updates_total(3) [OF assms(1)], of cfg io_ContainerName "is" m]
    assms(11) show ?case by (cases "Io_Collect w ies ic") (force simp: printIOTable_def)
next
  case 4
  from prints_topI [where upd = "UpdateNetwork P NewPrometheusExporter" and P = P, OF assms(5) updates_total(4) [OF assms(1)], of cfg ns_ContainerName ns m]
    assms(12) show ?case by (force simp: printNetTable_def)
next
  case 5
  from printSyscallTable_ranking [OF assms(1,6,7,8,13)] show ?case .
qed

lemma desc_sorts:
  "is_sort by_cpu (go_insertion_sort by_cpu)" "is_sort by_memory (go_insertion_sort by_memory)"
  "is_sort by_throughput (go_insertion_sort by_throughput)" "is_sort by_flows (go_insertion_sort by_flows)"
  unfolding by_cpu_def [abs_def] by_memory_def [abs_def] by_throughput_def [abs_def] by_flows_def [abs_def]
  by (rule is_sort_insertion, rule strict_weak_key_desc)+

theorem tables_show_top_witness:
  "\<exists>cs dead ss dead' m1 out1 m2 out2. let w = quiet_world 5; cfg = \<lparr>dc_containersOnly = False, dc_topN = 5\<rparr>; ces = [(7, \<lparr>cs_TotalNs = 5, cs_RunqLatencyNs = 0, cs_CtxSwitches = 2, cs_ThreadCount = 1\<rparr>)] in
     snd (Cpu_Collect w ces NewCpuCollector) = Inr (cs, dead) \<and> length cs = 1 \<and> Syscall_Collect w [sample_syscall] = Inr (ss, dead') \<and> length ss = 1 \<and>
     printCpuTable map_registry (go_insertion_sort by_cpu) w ces cfg (Some NewPrometheusExporter) NewCpuCollector (\<lambda>_. None, \<lambda>_. 0) =
       Inr (fst (Cpu_Collect w ces NewCpuCollector), m1, out1) \<and>
     prints_top map_registry by_cpu cpu_ContainerName (UpdateCPU map_registry NewPrometheusExporter) cfg cs (\<lambda>_. None, \<lambda>_. 0) m1 out1 \<and>
     printSyscallTable map_registry id (go_insertion_sort by_count) (go_insertion_sort by_name_rank) w [sample_syscall] cfg (Some NewPrometheusExporter) (\<lambda>_. None, \<lambda>_. 0) = Inr (m2, out2) \<and>
     prints_ranking map_registry (go_insertion_sort by_count) cfg ss (\<lambda>_. None, \<lambda>_. 0) m2 out2"
proof -
  define w where "w = quiet_world 5"
  define ces where "ces = [(7 :: u64, \<lparr>cs_TotalNs = 5, cs_RunqLatencyNs = 0, cs_CtxSwitches = 2, cs_ThreadCount = 1\<rparr>)]"
  obtain cs d1 where 1: "snd (Cpu_Collect w ces NewCpuCollector) = Inr (cs, d1)" "length cs = 1"
    by (simp add: Cpu_Collect_def cpu_sample_def w_def ces_def quiet_world_def List.map_filter_def Let_def split: prod.splits)
  obtain ss d5 where 5: "Syscall_Collect w [sample_syscall] = Inr (ss, d5)" "length ss = 1"
    by (simp add: Syscall_Collect_def syscall_summary_def w_def sample_syscall_def quiet_world_def List.map_filter_def Let_def split: prod.splits)
  have 2: "snd (Memory_Collect w [] NewMemoryCollector) = Inr ([], [])" "snd (Io_Collect w [] NewIoCollector) = Inr ([], [])" "CollectSummary id w [] = Inr []"
    by (simp_all add: Memory_Collect_def Io_Collect_def CollectSummary_def CollectFlows_def w_def quiet_world_def Let_def)
  have o: "\<forall>m. mset (id m) = mset m" by simp
  from tables_show_top [OF map_registry_laws desc_sorts is_sort_insertion [OF by_count_weak] is_sort_insertion [OF by_name_rank_weak] o 1(1) 2 5(1),
      where cfg = "\<lparr>dc_containersOnly = False, dc_topN = 5\<rparr>" and m = "(\<lambda>_. None, \<lambda>_. 0)"] 1 5
  show ?thesis unfolding Let_def w_def ces_def by blast
qed

section \<open>The tick\<close>

lemma table_rows_total: "\<exists>rows. table_rows name xs = Inr rows"
  using table_rows_ok [of name xs] by (elim exE conjE) (rule exI)

lemma printCpuTable_counters:
  assumes "prom_laws P"
  shows "\<exists>c' m' out. printCpuTable P srt1 w ces cfg (Some NewPrometheusExporter) c m = Inr (c', m', out) \<and> (\<forall>d. pm_counter P m' d = pm_counter P m d)"
proof (cases "snd (Cpu_Collect w ces c)")
  case (Inl e)
  have "printCpuTable P srt1 w ces cfg (Some NewPrometheusExporter) c m = Inr (fst (Cpu_Collect w ces c), m, None)"
    using Inl by (cases "Cpu_Collect w ces c") (simp add: printCpuTable_def)
  then show ?thesis by blast
next
  case (Inr sd)
  obtain m' where m': "UpdateCPU P NewPrometheusExporter (filter_containers cfg cpu_ContainerName (fst sd)) m = Inr m'"
    "\<forall>d. pm_counter P m' d = pm_counter P m d" using updates_counters(1) [OF assms] by blast
  obtain rows where "table_rows cpu_ContainerName (applyTop (srt1 (filter_containers cfg cpu_ContainerName (fst sd))) (dc_topN cfg)) = Inr rows"
    using table_rows_total by blast
  with m'(1) Inr have "printCpuTable P srt1 w ces cfg (Some NewPrometheusExporter) c m = Inr (fst (Cpu_Collect w ces c), m', Some rows)"
    by (cases "Cpu_Collect w ces c", cases sd) (simp add: printCpuTable_def)
  then show ?thesis using m'(2) by blast
qed

lemma printMemTable_counters:
  assumes "prom_laws P"
  shows "\<exists>c' m' out. printMemTable P srt2 w mes cfg (Some NewPrometheusExporter) mc m = Inr (c', m', out) \<and> mc_oomEvents c' = mc_oomEvents mc \<and> (\<forall>d. pm_counter P m' d = pm_counter P m d)"
proof (cases "snd (Memory_Collect w mes mc)")
  case (Inl e)
  have oom: "mc_oomEvents (fst (Memory_Collect w mes mc)) = mc_oomEvents mc" by (simp add: Memory_Collect_def Let_def)
  have "printMemTable P srt2 w mes cfg (Some NewPrometheusExporter) mc m = Inr (fst (Memory_Collect w mes mc), m, None)"
    using Inl by (cases "Memory_Collect w mes mc") (simp add: printMemTable_def)
  then show ?thesis using oom by blast
next
  case (Inr sd)
  have oom: "mc_oomEvents (fst (Memory_Collect w mes mc)) = mc_oomEvents mc" by (simp add: Memory_Collect_def Let_def)
  obtain m' where m': "UpdateMemory P NewPrometheusExporter (filter_containers cfg mem_ContainerName (fst sd)) m = Inr m'"
    "\<forall>d. pm_counter P m' d = pm_counter P m d" using updates_counters(2) [OF assms] by blast
  obtain rows where "table_rows mem_ContainerName (applyTop (srt2 (filter_containers cfg mem_ContainerName (fst sd))) (dc_topN cfg)) = Inr rows"
    using table_rows_total by blast
  with m'(1) Inr have "printMemTable P srt2 w mes cfg (Some NewPrometheusExporter) mc m = Inr (fst (Memory_Collect w mes mc), m', Some rows)"
    by (cases "Memory_Collect w mes mc", cases sd) (simp add: printMemTable_def)
  then show ?thesis using m'(2) oom by blast
qed

lemma printIOTable_counters:
  assumes "prom_laws P"
  shows "\<exists>c' m' out. printIOTable P srt3 w ies cfg (Some NewPrometheusExporter) ic m = Inr (c', m', out) \<and> (\<forall>d. pm_counter P m' d = pm_counter P m d)"
proof (cases "snd (Io_Collect w ies ic)")
  case (Inl e)
  have "printIOTable P srt3 w ies cfg (Some NewPrometheusExporter) ic m = Inr (fst (Io_Collect w ies ic), m, None)"
    using Inl by (cases "Io_Collect w ies ic") (simp add: printIOTable_def)
  then show ?thesis by blast
next
  case (Inr sd)
  obtain m' where m': "UpdateIO P NewPrometheusExporter (filter_containers cfg io_ContainerName (fst sd)) m = Inr m'"
    "\<forall>d. pm_counter P m' d = pm_counter P m d" using updates_counters(3) [OF assms] by blast
  obtain rows where "table_rows io_ContainerName (applyTop (srt3 (filter_containers cfg io_ContainerName (fst sd))) (dc_topN cfg)) = Inr rows"
    using table_rows_total by blast
  with m'(1) Inr have "printIOTable P srt3 w ies cfg (Some NewPrometheusExporter) ic m = Inr (fst (Io_Collect w ies ic), m', Some rows)"
    by (cases "Io_Collect w ies ic", cases sd) (simp add: printIOTable_def)
  then show ?thesis using m'(2) by blast
qed

lemma printNetTable_counters:
  assumes "prom_laws P"
  shows "\<exists>m' out. printNetTable P ord srt4 w nes cfg (Some NewPrometheusExporter) m = Inr (m', out) \<and> (\<forall>d. pm_counter P m' d = pm_counter P m d)"
proof (cases "CollectSummary ord w nes")
  case (Inr ns)
  obtain m' where m': "UpdateNetwork P NewPrometheusExporter (filter_containers cfg ns_ContainerName ns) m = Inr m'"
    "\<forall>d. pm_counter P m' d = pm_counter P m d" using updates_counters(4) [OF assms] by blast
  then show ?thesis using Inr table_rows_total [of ns_ContainerName "applyTop (srt4 (filter_containers cfg ns_ContainerName ns)) (dc_topN cfg)"]
    by (auto simp: printNetTable_def)
qed (simp add: printNetTable_def)

lemma printSyscallTable_counters:
  assumes "prom_laws P"
  shows "\<exists>m' out. printSyscallTable P ord2 srt5 srt6 w ses cfg (Some NewPrometheusExporter) m = Inr (m', out) \<and> (\<forall>d. pm_counter P m' d = pm_counter P m d)"
proof (cases "Syscall_Collect w ses")
  case (Inr sd)
  let ?ss = "filter_containers cfg ss_ContainerName (fst sd)"
  obtain m' where m': "UpdateSyscalls P NewPrometheusExporter ?ss m = Inr m'"
    "\<forall>d. pm_counter P m' d = pm_counter P m d" using updates_counters(5) [OF assms] by blast
  then show ?thesis using Inr table_rows_total [of ss_ContainerName "applyTop (srt6 (concat (map (\<lambda>(_, es). top_entries srt5 es) (ord2 (group_by ss_ContainerName ?ss))))) (dc_topN cfg)"]
    by (cases sd) (auto simp: printSyscallTable_def Let_def)
qed (simp add: printSyscallTable_def)

lemmas tables_counters = printCpuTable_counters printMemTable_counters printIOTable_counters printNetTable_counters printSyscallTable_counters

lemma oom_updates:
  assumes "prom_laws P"
  shows "\<exists>m'. go_fold (\<lambda>ev. UpdateOOM P NewPrometheusExporter (oom_ContainerName ev)) evs m = Inr m' \<and>
    (\<forall>d. pm_counter P m' d = pm_counter P m d + length (filter (\<lambda>ev. d = (''ebpf_oom_kills_total'', labels_of (oom_ContainerName ev))) evs))"
proof (induction evs arbitrary: m)
  case (Cons ev evs)
  have up: "UpdateOOM P NewPrometheusExporter (oom_ContainerName ev) m = Inr (pm_inc P (''ebpf_oom_kills_total'', labels_of (oom_ContainerName ev)) m)" for m
    by (simp add: UpdateOOM_def inc_counter_ok [OF assms])
  have "pm_counter P (pm_inc P c m) d = pm_counter P m d + (if d = c then 1 else 0)" for c m d
    using assms unfolding prom_laws_def by blast
  with Cons [of "pm_inc P (''ebpf_oom_kills_total'', labels_of (oom_ContainerName ev)) m"] show ?case
    by (auto simp: up)
qed simp

lemma drains_total:
  "\<exists>evs. drainFileEvents w cfg rs = Inr evs" "\<exists>evs. drainTCPEvents w cfg rs = Inr evs" "\<exists>evs. drainSlowSyscallEvents w cfg rs = Inr evs"
  using file_rec.drain_total [of "file_event w" rs] tcp_rec.drain_total [of "tcp_event w" rs] slow_rec.drain_total [of "slow_summary w" rs]
  by (auto simp: drainFileEvents_def ReadFileEvents_def drainTCPEvents_def ReadTCPEvents_def drainSlowSyscallEvents_def ReadSlowEvents_def)

text \<open>The out-of-memory events a tick reports.\<close>

definition oom_reported :: "obs_flags \<Rightarrow> tick_input \<Rightarrow> 'm obs_state \<Rightarrow> OOMEvent list" where
  "oom_reported f t s = (if ti_mem t = None then [] else filter_containers (obs_config f) oom_ContainerName (mc_oomEvents (ob_mem s)))"

lemma obs_mem_step_ok:
  assumes "prom_laws P"
  shows "\<exists>c2 m2. (case ti_mem t of None \<Rightarrow> Inr (ob_mem s, m, [])
      | Some es \<Rightarrow> go_bind (printMemTable P (so_mem S) (ti_world t) es (obs_config f) (Some NewPrometheusExporter) (ob_mem s) m) (\<lambda>(c2, m2, _). drainOOMEvents P (obs_config f) (Some NewPrometheusExporter) c2 m2)) =
      Inr (c2, m2, oom_reported f t s) \<and> (ti_mem t \<noteq> None \<longrightarrow> mc_oomEvents c2 = []) \<and>
      (\<forall>d. pm_counter P m2 d = pm_counter P m d +
       length (filter (\<lambda>ev. d = (''ebpf_oom_kills_total'', labels_of (oom_ContainerName ev))) (oom_reported f t s)))"
proof (cases "ti_mem t")
  case (Some es)
  obtain c m' out where p: "printMemTable P (so_mem S) (ti_world t) es (obs_config f) (Some NewPrometheusExporter) (ob_mem s) m = Inr (c, m', out)"
    "mc_oomEvents c = mc_oomEvents (ob_mem s)" "\<forall>d. pm_counter P m' d = pm_counter P m d" using tables_counters(2) [OF assms] by blast
  show ?thesis using oom_updates [OF assms, of "oom_reported f t s" m'] p Some
    by (auto simp: drainOOMEvents_def ReadOOMEvents_def oom_reported_def Let_def)
qed (simp add: oom_reported_def)

lemma obs_metrics_step_ok:
  assumes "prom_laws P"
  shows "\<exists>s'. obs_metrics_step P S NewPrometheusExporter f t s = Inr s' \<and> ob_log s' = ob_log s \<and>
    ob_oomLog s' = ob_oomLog s @ oom_reported f t s \<and> (ti_mem t \<noteq> None \<longrightarrow> mc_oomEvents (ob_mem s') = []) \<and>
    (\<forall>d. pm_counter P (ob_metrics s') d = pm_counter P (ob_metrics s) d +
       length (filter (\<lambda>ev. d = (''ebpf_oom_kills_total'', labels_of (oom_ContainerName ev))) (oom_reported f t s)))"
proof -
  let ?w = "ti_world t" and ?cfg = "obs_config f" and ?E = "Some NewPrometheusExporter"
  obtain c1 m1 o1 where s1: "printCpuTable P (so_cpu S) ?w (ti_cpu t) ?cfg ?E (ob_cpu s) (ob_metrics s) = Inr (c1, m1, o1)"
    "\<forall>d. pm_counter P m1 d = pm_counter P (ob_metrics s) d" using tables_counters(1) [OF assms] by blast
  obtain c2 m2 where s2: "(case ti_mem t of None \<Rightarrow> Inr (ob_mem s, m1, [])
      | Some es \<Rightarrow> go_bind (printMemTable P (so_mem S) ?w es ?cfg ?E (ob_mem s) m1) (\<lambda>(c2, m2, _). drainOOMEvents P ?cfg ?E c2 m2)) =
      Inr (c2, m2, oom_reported f t s)" "ti_mem t \<noteq> None \<longrightarrow> mc_oomEvents c2 = []"
    "\<forall>d. pm_counter P m2 d = pm_counter P m1 d +
       length (filter (\<lambda>ev. d = (''ebpf_oom_kills_total'', labels_of (oom_ContainerName ev))) (oom_reported f t s))"
    using obs_mem_step_ok [OF assms, where t = t and s = s and m = m1 and S = S and f = f] by blast
  obtain c3 m3 where s3: "(case ti_io t of None \<Rightarrow> Inr (ob_io s, m2)
      | Some es \<Rightarrow> go_bind (printIOTable P (so_io S) ?w es ?cfg ?E (ob_io s) m2) (\<lambda>(c3, m3, _).
          go_bind (if of_showFiles f then drainFileEvents ?w ?cfg (ti_files t) else Inr []) (\<lambda>_. Inr (c3, m3)))) = Inr (c3, m3)"
    "\<forall>d. pm_counter P m3 d = pm_counter P m2 d"
    using tables_counters(3) [OF assms, of "so_io S" ?w _ ?cfg "ob_io s" m2] drains_total(1) [of ?w ?cfg "ti_files t"]
    by (cases "ti_io t") (fastforce split: if_splits)+
  obtain m4 where s4: "(case ti_net t of None \<Rightarrow> Inr m3
      | Some es \<Rightarrow> go_bind (printNetTable P (so_netmap S) (so_net S) ?w es ?cfg ?E m3) (\<lambda>(m4, _).
          go_bind (if of_showTCP f then drainTCPEvents ?w ?cfg (ti_tcp t) else Inr []) (\<lambda>_. Inr m4))) = Inr m4"
    "\<forall>d. pm_counter P m4 d = pm_counter P m3 d"
    using tables_counters(4) [OF assms, of "so_netmap S" "so_net S" ?w _ ?cfg m3] drains_total(2) [of ?w ?cfg "ti_tcp t"]
    by (cases "ti_net t") (fastforce split: if_splits)+
  obtain m5 where s5: "(case ti_sys t of None \<Rightarrow> Inr m4
      | Some es \<Rightarrow> go_bind (printSyscallTable P (so_sysmap S) (so_count S) (so_rank S) ?w es ?cfg ?E m4) (\<lambda>(m5, _).
          go_bind (if of_showSlowSys f then drainSlowSyscallEvents ?w ?cfg (ti_slow t) else Inr []) (\<lambda>_. Inr m5))) = Inr m5"
    "\<forall>d. pm_counter P m5 d = pm_counter P m4 d"
    using tables_counters(5) [OF assms, of "so_sysmap S" "so_count S" "so_rank S" ?w _ ?cfg m4] drains_total(3) [of ?w ?cfg "ti_slow t"]
    by (cases "ti_sys t") (fastforce split: if_splits)+
  have "obs_metrics_step P S NewPrometheusExporter f t s =
      Inr (s\<lparr>ob_cpu := c1, ob_mem := c2, ob_io := c3, ob_metrics := m5, ob_oomLog := ob_oomLog s @ oom_reported f t s\<rparr>)"
    unfolding obs_metrics_step_def Let_def s1(1) by (simp add: s2(1) s3(1) s4(1) s5(1))
  then show ?thesis using s1(2) s2(2,3) s3(2) s4(2) s5(2) by simp
qed

lemma security_events_total: "\<exists>evs. security_events S lin boot t = Inr evs"
proof -
  let ?r = "pw_resolve (ti_world t)"
  have "\<exists>e1. (case ti_lineage t of None \<Rightarrow> Inr [] | Some rs \<Rightarrow> ReadForkEvents ?r boot rs) = Inr e1"
  proof (cases "ti_lineage t")
    case (Some rs)
    then show ?thesis using fork_rec.drain_total [of "forkEventToEnvelope ?r boot" "the rs"]
      by (cases rs) (auto simp: ReadForkEvents_def)
  qed simp
  moreover have "\<exists>e2. (case ti_exec t of None \<Rightarrow> Inr [] | Some rs \<Rightarrow> ReadExecEvents ?r None boot rs) = Inr e2"
    using exec_rec.drain_total [of "execEventToEnvelope ?r None boot" "the (ti_exec t)"]
    by (cases "ti_exec t") (auto simp: ReadExecEvents_def)
  moreover have "\<exists>e3. (case ti_dns t of None \<Rightarrow> Inr [] | Some rs \<Rightarrow> ReadDNSEvents ?r lin boot rs) = Inr e3"
    using dns_rec.drain_total [of "dnsEventToEnvelope ?r lin boot" "the (ti_dns t)"]
    by (cases "ti_dns t") (auto simp: ReadDNSEvents_def)
  moreover have "\<exists>e4. (case ti_privesc t of None \<Rightarrow> Inr [] | Some rs \<Rightarrow> ReadPrivEscEvents ?r lin boot rs) = Inr e4"
    using privesc_rec.drain_total [of "privEscToEnvelope ?r lin boot" "the (ti_privesc t)"]
    by (cases "ti_privesc t") (auto simp: ReadPrivEscEvents_def)
  moreover have "\<exists>e5. (case ti_escape t of None \<Rightarrow> Inr [] | Some rs \<Rightarrow> ReadEscapeEvents (so_flags S) ?r lin boot rs) = Inr e5"
    using escape_rec.drain_total [of "escapeToEnvelope (so_flags S) ?r lin boot" "the (ti_escape t)"]
    by (cases "ti_escape t") (auto simp: ReadEscapeEvents_def)
  ultimately show ?thesis by (auto simp: security_events_def Let_def)
qed

text \<open>The agent's writers: standard error takes every event, the filter in front of it those of containers.\<close>

interpretation stderr: security_event_writer stderr_write id "\<lambda>_. True"
  by unfold_locales (simp add: stderr_write_def)

interpretation container_stderr: security_event_writer "containerFilter_write stderr_write" id "\<lambda>ev. isContainer (ev_ContainerName ev)"
  by unfold_locales (simp add: containerFilter_write_def stderr_write_def)

lemma inner_log:
  "foldl (\<lambda>s ev. inner_write (security_writer sh co e) ev s) lg evs =
     lg @ (if sh then filter (\<lambda>ev. co \<longrightarrow> isContainer (ev_ContainerName ev)) evs else [])"
proof -
  have none: "foldl (\<lambda>s ev. s) lg evs = lg" by (induction evs) simp_all
  show ?thesis using stderr.passed_all [of lg evs] container_stderr.passed_all [of lg evs] none
    by (cases sh; cases co) (simp_all add: inner_write_def security_writer_def)
qed

lemma counter_names: "(''ebpf_security_events_total'', l) \<noteq> (''ebpf_oom_kills_total'', l')"
  by simp

lemma observer_tick_ok:
  assumes "prom_laws P"
  shows "\<exists>s' evs. observer_tick P S lin boot f t s = Inr s' \<and> security_events S lin boot t = Inr evs \<and>
     ob_log s' = ob_log s @ (if of_showSecurity f then filter (\<lambda>ev. of_containersOnly f \<longrightarrow> isContainer (ev_ContainerName ev)) evs else []) \<and>
     (\<forall>l ty. pm_counter P (ob_metrics s') (''ebpf_security_events_total'', l @ [ty]) =
        pm_counter P (ob_metrics s) (''ebpf_security_events_total'', l @ [ty]) +
        length (filter (\<lambda>ev. (of_containersOnly f \<longrightarrow> isContainer (ev_ContainerName ev)) \<and> labels_of (ev_ContainerName ev) = l \<and> ev_EventType ev = ty) evs)) \<and>
     ob_oomLog s' = ob_oomLog s @ oom_reported f t s \<and> (ti_mem t \<noteq> None \<longrightarrow> mc_oomEvents (ob_mem s') = [])"
proof -
  let ?w = "security_writer (of_showSecurity f) (of_containersOnly f) NewPrometheusExporter"
  obtain s1 where s1: "obs_metrics_step P S NewPrometheusExporter f t s = Inr s1" "ob_log s1 = ob_log s"
    "ob_oomLog s1 = ob_oomLog s @ oom_reported f t s" "ti_mem t \<noteq> None \<longrightarrow> mc_oomEvents (ob_mem s1) = []"
    "\<forall>d. pm_counter P (ob_metrics s1) d = pm_counter P (ob_metrics s) d +
       length (filter (\<lambda>ev. d = (''ebpf_oom_kills_total'', labels_of (oom_ContainerName ev))) (oom_reported f t s))"
    using obs_metrics_step_ok [OF assms, of S f t s] by blast
  obtain evs where evs: "security_events S lin boot t = Inr evs" using security_events_total by blast
  have w: "sw_Exporter ?w = NewPrometheusExporter" by (simp add: security_writer_def)
  define m' where "m' = foldl (\<lambda>m c. pm_inc P c m) (ob_metrics s1) (concat (map (event_children ?w) evs))"
  have run: "go_fold (Prom_Write P ?w) evs (ob_metrics s1, ob_log s1) = Inr (m', ob_log s @ (if of_showSecurity f then filter (\<lambda>ev. of_containersOnly f \<longrightarrow> isContainer (ev_ContainerName ev)) evs else []))"
    by (simp add: Prom_Write_run [OF assms w] m'_def s1(2) inner_log)
  have cnt: "pm_counter P m' (''ebpf_security_events_total'', l @ [ty]) = pm_counter P (ob_metrics s) (''ebpf_security_events_total'', l @ [ty]) +
      length (filter (\<lambda>ev. (of_containersOnly f \<longrightarrow> isContainer (ev_ContainerName ev)) \<and> labels_of (ev_ContainerName ev) = l \<and> ev_EventType ev = ty) evs)" for l ty
  proof -
    have "counted ?w ev \<longleftrightarrow> (of_containersOnly f \<longrightarrow> isContainer (ev_ContainerName ev))" for ev
      by (simp add: counted_def security_writer_def)
    then show ?thesis
      by (simp add: m'_def incs_counter(1) [OF assms] count_children [OF count_event_children(1)] s1(5))
  qed
  have "observer_tick P S lin boot f t s = Inr (s1\<lparr>ob_metrics := m', ob_log := ob_log s @ (if of_showSecurity f then filter (\<lambda>ev. of_containersOnly f \<longrightarrow> isContainer (ev_ContainerName ev)) evs else [])\<rparr>)"
    using s1(1) evs run by (simp add: observer_tick_def)
  then show ?thesis using evs cnt s1(3,4) by simp
qed

text \<open>
  C40: One tick of the poll loop never panics, whatever the kernel maps and ring buffers hold. Its
  effect on the security side is exact: the drained events, filtered when only containers are wanted,
  are appended to the log when that is enabled, the total counter of every label set and type grows
  by the number of counted events, every queued out-of-memory event is reported once and the queue is
  empty afterwards.
\<close>

theorem observer_tick_accounts:
  assumes "prom_laws P"
  shows "\<exists>s' evs. observer_tick P S lin boot f t s = Inr s' \<and> security_events S lin boot t = Inr evs \<and>
     ob_log s' = ob_log s @ (if of_showSecurity f then filter (\<lambda>ev. of_containersOnly f \<longrightarrow> isContainer (ev_ContainerName ev)) evs else []) \<and>
     (\<forall>l ty. pm_counter P (ob_metrics s') (''ebpf_security_events_total'', l @ [ty]) =
        pm_counter P (ob_metrics s) (''ebpf_security_events_total'', l @ [ty]) +
        length (filter (\<lambda>ev. (of_containersOnly f \<longrightarrow> isContainer (ev_ContainerName ev)) \<and> labels_of (ev_ContainerName ev) = l \<and> ev_EventType ev = ty) evs)) \<and>
     ob_oomLog s' = ob_oomLog s @ oom_reported f t s \<and> (ti_mem t \<noteq> None \<longrightarrow> mc_oomEvents (ob_mem s') = [])"
  by (rule observer_tick_ok [OF assms])

definition quiet_tick :: tick_input where
  "quiet_tick = \<lparr>ti_world = quiet_world 1, ti_cpu = [], ti_mem = Some [], ti_io = None, ti_files = [], ti_net = None, ti_tcp = [],
     ti_sys = None, ti_slow = [], ti_lineage = None, ti_exec = Some [], ti_dns = None, ti_privesc = None, ti_escape = None\<rparr>"

definition plain_sorts :: tick_sorts where
  "plain_sorts = \<lparr>so_cpu = go_insertion_sort by_cpu, so_mem = go_insertion_sort by_memory, so_io = go_insertion_sort by_throughput,
     so_net = go_insertion_sort by_flows, so_count = go_insertion_sort by_count, so_rank = go_insertion_sort by_name_rank,
     so_netmap = id, so_sysmap = id, so_flags = id\<rparr>"

theorem observer_tick_accounts_witness:
  "\<exists>s'. observer_tick map_registry plain_sorts None 0 \<lparr>of_containersOnly = True, of_showFiles = False, of_showTCP = False, of_showSlowSys = False,
       of_showSecurity = True, of_top = 0, of_richMem = False\<rparr> quiet_tick
     \<lparr>ob_cpu = NewCpuCollector, ob_mem = NewMemoryCollector, ob_io = NewIoCollector, ob_metrics = (\<lambda>_. None, \<lambda>_. 0), ob_log = [], ob_oomLog = []\<rparr> = Inr s' \<and>
     mc_oomEvents (ob_mem s') = []"
  using observer_tick_accounts [OF map_registry_laws, of plain_sorts None 0 "\<lparr>of_containersOnly = True, of_showFiles = False, of_showTCP = False, of_showSlowSys = False,
       of_showSecurity = True, of_top = 0, of_richMem = False\<rparr>" quiet_tick "\<lparr>ob_cpu = NewCpuCollector, ob_mem = NewMemoryCollector, ob_io = NewIoCollector, ob_metrics = (\<lambda>_. None, \<lambda>_. 0), ob_log = [], ob_oomLog = []\<rparr>"]
  by (elim exE conjE) (simp add: quiet_tick_def)

end
