(* ===== verification/ObserverRun.thy ===== *)
theory ObserverRun
  imports Observer Loaders
begin

text \<open>
  The agent as a whole (cmd/observer/main.go): start-up, the select loop over ticks and the stop signal, and
  the deferred clean-up, composed from the loaders and the tick. A module that did not load is a nil
  collector: its part of a tick is skipped. Between ticks the memory collector's reader goroutine
  (pkg/collector/memory.go) queues out-of-memory records. The flags of the command line choose the modules.
\<close>

section \<open>The loop\<close>

text \<open>The command line's defaults: the five metric modules are on, the security modules off.\<close>

definition default_flags :: flags where
  "default_flags = \<lparr>f_cpuBPF = ''ebpf/cpu.o'', f_memBPF = ''ebpf/memory.o'', f_ioBPF = ''ebpf/io.o'', f_netBPF = ''ebpf/network.o'', f_sysBPF = ''ebpf/syscall.o'',
     f_lineageBPF = [], f_execBPF = [], f_dnsBPF = [], f_privescBPF = [], f_escapeBPF = []\<rparr>"

definition default_display :: obs_flags where
  "default_display = \<lparr>of_containersOnly = False, of_showFiles = False, of_showTCP = False, of_showSlowSys = False, of_showSecurity = False, of_top = 0, of_richMem = False\<rparr>"

definition offered :: "bool \<Rightarrow> 'a list option \<Rightarrow> 'a list option" where
  "offered loaded xs = (if loaded then Some (case xs of None \<Rightarrow> [] | Some ys \<Rightarrow> ys) else None)"

text \<open>The collectors of the loop: the lineage collector taken from the exec module has no ring buffer.\<close>

definition with_modules :: "agent \<Rightarrow> tick_input \<Rightarrow> tick_input" where
  "with_modules a t = t\<lparr>ti_mem := offered (ag_mem a) (ti_mem t), ti_io := offered (ag_io a) (ti_io t), ti_net := offered (ag_net a) (ti_net t),
     ti_sys := offered (ag_sys a) (ti_sys t), ti_lineage := (if ag_lineage a then Some None else None), ti_exec := offered (ag_exec a) (ti_exec t),
     ti_dns := offered (ag_dns a) (ti_dns t), ti_privesc := offered (ag_privesc a) (ti_privesc t), ti_escape := offered (ag_escape a) (ti_escape t)\<rparr>"

datatype obs_event = ObsTick tick_input | ObsOom poll_world bytes | ObsSignal

text \<open>The reader goroutine runs only when the memory module has loaded.\<close>

definition oom_arrives :: "agent \<Rightarrow> poll_world \<Rightarrow> bytes \<Rightarrow> 'm obs_state \<Rightarrow> 'm obs_state go" where
  "oom_arrives a w r s = (if ag_mem a then go_bind (oom_reader_step w r (ob_mem s)) (\<lambda>c. Inr (s\<lparr>ob_mem := c\<rparr>)) else Inr s)"

text \<open>The result carries the resources left after the clean-up once the signal arrived.\<close>

fun observer_loop :: "(tick_input \<Rightarrow> 'm obs_state \<Rightarrow> 'm obs_state go) \<Rightarrow> agent \<Rightarrow> obs_event list \<Rightarrow> 'm obs_state \<Rightarrow> ('m obs_state \<times> live option) go" where
  "observer_loop tk a [] s = Inr (s, None)"
| "observer_loop tk a (ObsSignal # es) s = Inr (s, Some (observer_shutdown a))"
| "observer_loop tk a (ObsOom w r # es) s = go_bind (oom_arrives a w r s) (observer_loop tk a es)"
| "observer_loop tk a (ObsTick t # es) s = go_bind (tk (with_modules a t) s) (observer_loop tk a es)"

definition observer_main ::
  "'m prom_api \<Rightarrow> tick_sorts \<Rightarrow> lineage_api option \<Rightarrow> u64 \<Rightarrow> kernel \<Rightarrow> flags \<Rightarrow> obs_flags \<Rightarrow> 'm \<Rightarrow> obs_event list \<Rightarrow> (live \<times> load_error + 'm obs_state \<times> live option) go" where
  "observer_main P S lin boot K f g m es = (case observer_start K f of
      Inl e \<Rightarrow> Inr (Inl e)
    | Inr a \<Rightarrow> go_bind (observer_loop (observer_tick P S (if ag_lineage a then lin else None) boot g) a es
        \<lparr>ob_cpu = NewCpuCollector, ob_mem = NewMemoryCollector\<lparr>mc_RichMem := of_richMem g\<rparr>, ob_io = NewIoCollector, ob_metrics = m, ob_log = [], ob_oomLog = []\<rparr>) (\<lambda>r. Inr (Inr r)))"

section \<open>What a run shows\<close>

fun before_signal :: "obs_event list \<Rightarrow> obs_event list" where
  "before_signal [] = []"
| "before_signal (ObsSignal # es) = []"
| "before_signal (e # es) = e # before_signal es"

text \<open>What an event contributes to the security log and to the out-of-memory reports.\<close>

definition tick_log :: "tick_sorts \<Rightarrow> lineage_api option \<Rightarrow> u64 \<Rightarrow> obs_flags \<Rightarrow> tick_input \<Rightarrow> EventEnvelope list" where
  "tick_log S lin boot g t = (case security_events S lin boot t of Inl _ \<Rightarrow> []
     | Inr evs \<Rightarrow> if of_showSecurity g then filter (\<lambda>ev. of_containersOnly g \<longrightarrow> isContainer (ev_ContainerName ev)) evs else [])"

fun event_log :: "(tick_input \<Rightarrow> EventEnvelope list) \<Rightarrow> obs_event \<Rightarrow> EventEnvelope list" where
  "event_log lg (ObsTick t) = lg t"
| "event_log lg _ = []"

fun event_oom :: "agent \<Rightarrow> obs_event \<Rightarrow> OOMEvent list" where
  "event_oom a (ObsOom w r) = (if \<not> ag_mem a \<or> int (length r) < oomEventSize then [] else case parseOOMEvent r of Inr raw \<Rightarrow> [oom_event w raw] | Inl _ \<Rightarrow> [])"
| "event_oom a _ = []"

lemma oom_arrives_ok:
  "\<exists>s'. oom_arrives a w r s = Inr s' \<and> ob_log s' = ob_log s \<and> ob_oomLog s' = ob_oomLog s \<and> mc_oomEvents (ob_mem s') = mc_oomEvents (ob_mem s) @ event_oom a (ObsOom w r)"
  using parseOOMEvent_total [of r] by (cases "ag_mem a"; cases "int (length r) < oomEventSize") (auto simp: oom_arrives_def oom_reader_step_def)

lemma filter_containers_append: "filter_containers cfg nm (xs @ ys) = filter_containers cfg nm xs @ filter_containers cfg nm ys"
  by (simp add: filter_containers_def)

text \<open>Reports made and reports still queued; without the memory module there are neither.\<close>

definition oom_account :: "obs_flags \<Rightarrow> 'm obs_state \<Rightarrow> OOMEvent list" where
  "oom_account g s = ob_oomLog s @ filter_containers (obs_config g) oom_ContainerName (mc_oomEvents (ob_mem s))"

lemma tick_oom_account:
  assumes "ob_oomLog s' = ob_oomLog s @ oom_reported g (with_modules a t) s" and "ti_mem (with_modules a t) \<noteq> None \<longrightarrow> mc_oomEvents (ob_mem s') = []" and "ag_mem a"
  shows "oom_account g s' = oom_account g s"
  using assms by (simp add: oom_account_def oom_reported_def with_modules_def offered_def filter_containers_def)

lemma observer_loop_ok:
  assumes "prom_laws P"
  shows "\<exists>s'. observer_loop (observer_tick P S lin boot g) a es s = Inr (s', if ObsSignal \<in> set es then Some (observer_shutdown a) else None) \<and>
    ob_log s' = ob_log s @ concat (map (event_log (\<lambda>t. tick_log S lin boot g (with_modules a t))) (before_signal es)) \<and>
    (ag_mem a \<longrightarrow> oom_account g s' = oom_account g s @ filter_containers (obs_config g) oom_ContainerName (concat (map (event_oom a) (before_signal es))))"
proof (induction es arbitrary: s)
  case Nil
  then show ?case by (simp add: filter_containers_def)
next
  case (Cons e es)
  show ?case
  proof (cases e)
    case (ObsTick t)
    obtain s1 where s1: "observer_tick P S lin boot g (with_modules a t) s = Inr s1" "ob_log s1 = ob_log s @ tick_log S lin boot g (with_modules a t)"
        "ob_oomLog s1 = ob_oomLog s @ oom_reported g (with_modules a t) s" "ti_mem (with_modules a t) \<noteq> None \<longrightarrow> mc_oomEvents (ob_mem s1) = []"
      using observer_tick_ok [OF assms, of S lin boot g "with_modules a t" s] by (auto simp: tick_log_def)
    from Cons.IH [of s1] s1(1,2) ObsTick tick_oom_account [OF s1(3,4)] show ?thesis by auto
  next
    case (ObsOom w r)
    obtain s1 where s1: "oom_arrives a w r s = Inr s1" "ob_log s1 = ob_log s" "ob_oomLog s1 = ob_oomLog s"
        "mc_oomEvents (ob_mem s1) = mc_oomEvents (ob_mem s) @ event_oom a (ObsOom w r)"
      using oom_arrives_ok by blast
    then have "oom_account g s1 = oom_account g s @ filter_containers (obs_config g) oom_ContainerName (event_oom a (ObsOom w r))"
      by (simp add: oom_account_def filter_containers_append)
    with Cons.IH [of s1] s1(1,2) ObsOom show ?thesis by (auto simp: filter_containers_append)
  next
    case ObsSignal
    then show ?thesis by (simp add: filter_containers_def)
  qed
qed

text \<open>
  C3: The agent from start to stop: either its CPU module cannot be loaded and it exits with at most that
  module's own attached links left, or no sequence of ticks and out-of-memory records makes it panic; the
  security log is exactly the concatenation of what the loaded modules' drains delivered in the ticks before the stop
  signal; with the memory module, every out-of-memory record the reader decoded is reported or still queued,
  once and in order; and after the signal every probe link and ring-buffer reader has been closed but the
  links of loaders that failed half-way.
\<close>

theorem observer_end_to_end:
  assumes "prom_laws P"
  shows "(\<exists>L e. observer_main P S lin boot K f g m es = Inr (Inl (L, e)) \<and> L = leaked K (f_cpuBPF f) cpu_probes) \<or>
    (\<exists>a s r. observer_start K f = Inr a \<and> observer_main P S lin boot K f g m es = Inr (Inr (s, r)) \<and> (r \<noteq> None \<longleftrightarrow> ObsSignal \<in> set es) \<and>
       (\<forall>L. r = Some L \<longrightarrow> filter_mset (\<lambda>h. \<not> is_coll h) L = start_leaks K f a) \<and>
       ob_log s = concat (map (event_log (\<lambda>t. tick_log S (if ag_lineage a then lin else None) boot g (with_modules a t))) (before_signal es)) \<and>
       (ag_mem a \<longrightarrow> ob_oomLog s @ filter_containers (obs_config g) oom_ContainerName (mc_oomEvents (ob_mem s)) =
          filter_containers (obs_config g) oom_ContainerName (concat (map (event_oom a) (before_signal es)))))"
proof (cases "observer_start K f")
  case (Inl r)
  obtain L e where "r = (L, e)" by fastforce
  with Inl observer_released [of K f] show ?thesis by (simp add: observer_main_def)
next
  case (Inr a)
  let ?lin = "if ag_lineage a then lin else None"
  let ?s0 = "\<lparr>ob_cpu = NewCpuCollector, ob_mem = NewMemoryCollector\<lparr>mc_RichMem := of_richMem g\<rparr>, ob_io = NewIoCollector, ob_metrics = m, ob_log = [], ob_oomLog = []\<rparr>"
  obtain s where s: "observer_loop (observer_tick P S ?lin boot g) a es ?s0 = Inr (s, if ObsSignal \<in> set es then Some (observer_shutdown a) else None)"
      "ob_log s = concat (map (event_log (\<lambda>t. tick_log S ?lin boot g (with_modules a t))) (before_signal es))"
      "ag_mem a \<longrightarrow> oom_account g s = oom_account g ?s0 @ filter_containers (obs_config g) oom_ContainerName (concat (map (event_oom a) (before_signal es)))"
    using observer_loop_ok [OF assms, of S ?lin boot g a es ?s0] by auto
  have "oom_account g ?s0 = []" by (simp add: oom_account_def NewMemoryCollector_def filter_containers_def)
  moreover have "filter_mset (\<lambda>h. \<not> is_coll h) (observer_shutdown a) = start_leaks K f a" using observer_released [of K f] Inr by simp
  ultimately show ?thesis using s Inr unfolding observer_main_def oom_account_def by (intro disjI2 exI [of _ a] exI [of _ s]) auto
qed

theorem observer_end_to_end_witness:
  "\<exists>s L. observer_main map_registry plain_sorts None 0 all_kernel cpu_flags default_display (\<lambda>_. None, \<lambda>_. 0) [ObsTick quiet_tick, ObsOom (quiet_world 1) [], ObsSignal, ObsTick quiet_tick] =
      Inr (Inr (s, Some L)) \<and> ob_log s = [] \<and> filter_mset (\<lambda>h. \<not> is_coll h) L = {#}"
proof -
  have "\<exists>a. observer_start all_kernel cpu_flags = Inr a"
    by (simp add: observer_start_def all_kernel_def cpu_flags_def loadCPU_def load_module_def load_probes_def attachProbes_def cpu_probes_def finish_load_def)
  then obtain a where a: "observer_start all_kernel cpu_flags = Inr a" by blast
  have leak: "start_leaks all_kernel cpu_flags a = {#}" by (simp add: start_leaks_def leaked_def probe_ok_def all_kernel_def)
  have log: "tick_log plain_sorts lin 0 default_display t = []" for lin t by (simp add: tick_log_def default_display_def split: sum.splits)
  from observer_end_to_end [OF map_registry_laws, of plain_sorts None 0 all_kernel cpu_flags default_display "(\<lambda>_. None, \<lambda>_. 0)"
      "[ObsTick quiet_tick, ObsOom (quiet_world 1) [], ObsSignal, ObsTick quiet_tick]"] a leak
  show ?thesis by (auto simp: observer_main_def log)
qed

end
