(* ===== verification/KeyMaps.thy ===== *)
theory KeyMaps
  imports GoStrings
begin

text \<open>
  Runes, and the key maps of the terminal UI (internal/tui/keys/keys.go): the global map, the table's and
  the viewport's. Making a binding belongs to the key library; a binding is its keys and its help
  entry. Matching is the table widget's own (internal/tui/widgets/table/table.go): it compares the name of
  the pressed key with the keys of the binding, one after the other.
\<close>

section \<open>Runes\<close>

type_synonym runes = "nat list"

definition runes_of :: "string \<Rightarrow> runes" where
  "runes_of s = map of_char s"

section \<open>The maps\<close>

record Binding =
  bi_Keys :: "string list"
  bi_Help :: "runes \<times> runes"

definition NewBinding :: "string list \<Rightarrow> runes \<Rightarrow> string \<Rightarrow> Binding" where
  "NewBinding ks k txt = \<lparr>bi_Keys = ks, bi_Help = (k, runes_of txt)\<rparr>"

record GlobalKeyMap =
  gk_Quit :: Binding
  gk_Help :: Binding
  gk_CommandPalette :: Binding
  gk_NextTab :: Binding
  gk_PrevTab :: Binding
  gk_ThemeCycle :: Binding
  gk_Back :: Binding

definition Global_keys :: GlobalKeyMap where
  "Global_keys =
    \<lparr>gk_Quit = NewBinding [''q'', ''ctrl+c''] (runes_of ''q'') ''quit'',
     gk_Help = NewBinding [''?''] (runes_of ''?'') ''help'',
     gk_CommandPalette = NewBinding ['':''] (runes_of '':'') ''command palette'',
     gk_NextTab = NewBinding [''tab'', '']''] (runes_of ''tab/]'') ''next tab'',
     gk_PrevTab = NewBinding [''shift+tab'', ''[''] (runes_of ''['') ''prev tab'',
     gk_ThemeCycle = NewBinding [''T''] (runes_of ''T'') ''cycle theme'',
     gk_Back = NewBinding [''esc''] (runes_of ''esc'') ''back''\<rparr>"

record TableKeyMap =
  tk_Up :: Binding
  tk_Down :: Binding
  tk_PageUp :: Binding
  tk_PageDown :: Binding
  tk_Top :: Binding
  tk_Bottom :: Binding
  tk_Select :: Binding
  tk_Search :: Binding
  tk_SortNext :: Binding
  tk_SortPrev :: Binding
  tk_CopyRow :: Binding

definition Table_keys :: TableKeyMap where
  "Table_keys =
    \<lparr>tk_Up = NewBinding [''up'', ''k''] (8593 # runes_of ''/k'') ''up'',
     tk_Down = NewBinding [''down'', ''j''] (8595 # runes_of ''/j'') ''down'',
     tk_PageUp = NewBinding [''pgup'', ''ctrl+u''] (runes_of ''pgup'') ''page up'',
     tk_PageDown = NewBinding [''pgdown'', ''ctrl+d''] (runes_of ''pgdn'') ''page down'',
     tk_Top = NewBinding [''g''] (runes_of ''g'') ''top'',
     tk_Bottom = NewBinding [''G''] (runes_of ''G'') ''bottom'',
     tk_Select = NewBinding [''enter''] (runes_of ''enter'') ''detail'',
     tk_Search = NewBinding [''/''] (runes_of ''/'') ''search'',
     tk_SortNext = \<lparr>bi_Keys = [''s''], bi_Help = (runes_of ''s'', runes_of ''sort '' @ [9660])\<rparr>,
     tk_SortPrev = \<lparr>bi_Keys = [''S''], bi_Help = (runes_of ''S'', runes_of ''sort '' @ [9650])\<rparr>,
     tk_CopyRow = NewBinding [''y''] (runes_of ''y'') ''yank row''\<rparr>"

record ViewportKeyMap =
  vk_Up :: Binding
  vk_Down :: Binding
  vk_PageUp :: Binding
  vk_PageDown :: Binding
  vk_Top :: Binding
  vk_Bottom :: Binding

definition Viewport_keys :: ViewportKeyMap where
  "Viewport_keys =
    \<lparr>vk_Up = NewBinding [''up'', ''k''] (8593 # runes_of ''/k'') ''scroll up'',
     vk_Down = NewBinding [''down'', ''j''] (8595 # runes_of ''/j'') ''scroll down'',
     vk_PageUp = NewBinding [''pgup''] (runes_of ''pgup'') ''page up'',
     vk_PageDown = NewBinding [''pgdown''] (runes_of ''pgdn'') ''page down'',
     vk_Top = NewBinding [''g''] (runes_of ''g'') ''top'',
     vk_Bottom = NewBinding [''G''] (runes_of ''G'') ''live/bottom''\<rparr>"

definition ShortHelp :: "Binding list" where
  "ShortHelp = [gk_NextTab Global_keys, gk_Back Global_keys, tk_Select Table_keys, tk_Search Table_keys,
     tk_SortNext Table_keys, gk_CommandPalette Global_keys, gk_Help Global_keys, gk_Quit Global_keys]"

section \<open>Matching\<close>

definition Matches :: "string \<Rightarrow> Binding \<Rightarrow> bool" where
  "Matches k b = list_ex (\<lambda>x. k = x) (bi_Keys b)"

lemma Matches_set: "Matches k b \<longleftrightarrow> k \<in> set (bi_Keys b)"
  by (auto simp: Matches_def list_ex_iff)

definition global_bindings :: "Binding list" where
  "global_bindings = [gk_Quit Global_keys, gk_Help Global_keys, gk_CommandPalette Global_keys, gk_NextTab Global_keys, gk_PrevTab Global_keys,
     gk_ThemeCycle Global_keys, gk_Back Global_keys]"

definition table_bindings :: "Binding list" where
  "table_bindings = [tk_Up Table_keys, tk_Down Table_keys, tk_PageUp Table_keys, tk_PageDown Table_keys, tk_Top Table_keys, tk_Bottom Table_keys,
     tk_Select Table_keys, tk_Search Table_keys, tk_SortNext Table_keys, tk_SortPrev Table_keys, tk_CopyRow Table_keys]"

lemmas key_map_defs = Global_keys_def Table_keys_def NewBinding_def

text \<open>No key is bound twice, within a map or across the two, so the order of the switches does not matter.\<close>

lemma keys_distinct: "distinct (concat (map bi_Keys (global_bindings @ table_bindings)))"
  by (simp add: global_bindings_def table_bindings_def key_map_defs)

text \<open>The keys of the bindings that the table and the application react to.\<close>

lemma Matches_table [simp]:
  "Matches k (tk_Up Table_keys) \<longleftrightarrow> k \<in> {''up'', ''k''}" "Matches k (tk_Down Table_keys) \<longleftrightarrow> k \<in> {''down'', ''j''}"
  "Matches k (tk_PageUp Table_keys) \<longleftrightarrow> k \<in> {''pgup'', ''ctrl+u''}" "Matches k (tk_PageDown Table_keys) \<longleftrightarrow> k \<in> {''pgdown'', ''ctrl+d''}"
  "Matches k (tk_Top Table_keys) \<longleftrightarrow> k = ''g''" "Matches k (tk_Bottom Table_keys) \<longleftrightarrow> k = ''G''"
  "Matches k (tk_Select Table_keys) \<longleftrightarrow> k = ''enter''" "Matches k (tk_Search Table_keys) \<longleftrightarrow> k = ''/''"
  "Matches k (tk_SortNext Table_keys) \<longleftrightarrow> k = ''s''" "Matches k (tk_SortPrev Table_keys) \<longleftrightarrow> k = ''S''"
  "Matches k (tk_CopyRow Table_keys) \<longleftrightarrow> k = ''y''"
  by (simp_all add: Matches_def key_map_defs)

lemma Matches_global [simp]:
  "Matches k (gk_Quit Global_keys) \<longleftrightarrow> k \<in> {''q'', ''ctrl+c''}" "Matches k (gk_Help Global_keys) \<longleftrightarrow> k = ''?''"
  "Matches k (gk_CommandPalette Global_keys) \<longleftrightarrow> k = '':''" "Matches k (gk_NextTab Global_keys) \<longleftrightarrow> k \<in> {''tab'', '']''}"
  "Matches k (gk_PrevTab Global_keys) \<longleftrightarrow> k \<in> {''shift+tab'', ''[''}" "Matches k (gk_ThemeCycle Global_keys) \<longleftrightarrow> k = ''T''"
  "Matches k (gk_Back Global_keys) \<longleftrightarrow> k = ''esc''"
  by (simp_all add: Matches_def key_map_defs)

end
