(* ===== verification/TableWidget.thy ===== *)
theory TableWidget
  imports KeyMaps
begin

text \<open>
  The virtual table of the terminal UI (internal/tui/widgets/table/table.go): filtering, the insertion
  sort of the visible indices, cursor movement and scrolling, cyclic choice of the sort column, cell
  padding and the visible window. A cell is a sequence of runes, a rune a natural number; a drawn line is
  its text and the name of the theme style it is rendered with, what the style does to it is not modelled.
\<close>

section \<open>Cells\<close>

definition ellipsis :: nat where "ellipsis = 8230"

text \<open>\<^verbatim>\<open>strings.Repeat\<close> panics on a negative count.\<close>

definition Repeat_runes :: "runes \<Rightarrow> int \<Rightarrow> runes go" where
  "Repeat_runes s n = (if n < 0 then Inl NegativeRepeat else Inr (concat (replicate (nat n) s)))"

definition padOrTrunc :: "runes \<Rightarrow> int \<Rightarrow> string \<Rightarrow> runes go" where
  "padOrTrunc s w align =
     (if w < int (length s)
      then if 1 < w then go_bind (go_slice s 0 (w - 1)) (\<lambda>t. Inr (t @ [ellipsis])) else go_slice s 0 w
      else go_bind (Repeat_runes (runes_of '' '') (w - int (length s))) (\<lambda>pad.
           Inr (if align = ''right'' then pad @ s else s @ pad)))"

lemma padOrTrunc_length:
  assumes "0 \<le> w"
  shows "\<exists>t. padOrTrunc s w align = Inr t \<and> int (length t) = w"
proof -
  have "length (concat (replicate n (runes_of '' ''))) = n" for n
    by (induction n) (simp_all add: runes_of_def)
  then show ?thesis using assms by (auto simp: padOrTrunc_def Repeat_runes_def go_slice_ok)
qed

text \<open>The decimal printer of the widget: correct for non-negative numbers, empty below zero.\<close>

definition itoa :: "int \<Rightarrow> string" where
  "itoa n = (if n = 0 then ''0'' else if n < 0 then [] else show_nat (nat n))"

section \<open>The table\<close>

record 'r Column =
  col_Title :: runes
  col_Width :: int
  col_Sortable :: bool
  col_SortLess :: "'r \<Rightarrow> 'r \<Rightarrow> bool"
  col_Format :: "('r \<Rightarrow> int \<Rightarrow> runes) option"
  col_Align :: string

record 'r Table =
  t_columns :: "'r Column list"
  t_rows :: "'r list"
  t_visible :: "nat list"
  t_cursor :: int
  t_offset :: int
  t_sortCol :: int
  t_sortAsc :: bool
  t_filter :: string
  t_filterFn :: "('r \<Rightarrow> string \<Rightarrow> bool) option"
  t_width :: int
  t_height :: int
  t_focused :: bool

definition New_table :: "'r Column list \<Rightarrow> 'r Table" where
  "New_table cols = \<lparr>t_columns = cols, t_rows = [], t_visible = [], t_cursor = 0, t_offset = 0,
     t_sortCol = -1, t_sortAsc = True, t_filter = [], t_filterFn = None, t_width = 0, t_height = 0, t_focused = False\<rparr>"

text \<open>
  One pass of the inner loop: the element \<open>x\<close> moves left over the sorted prefix (given last
  element first) as long as a swap is due.
\<close>

fun sift_left :: "(nat \<Rightarrow> nat \<Rightarrow> bool) \<Rightarrow> nat \<Rightarrow> nat list \<Rightarrow> nat list" where
  "sift_left swap x [] = [x]"
| "sift_left swap x (h # t) = (if swap h x then h # sift_left swap x t else x # h # t)"

definition swap_due :: "'r list \<Rightarrow> ('r \<Rightarrow> 'r \<Rightarrow> bool) \<Rightarrow> bool \<Rightarrow> nat \<Rightarrow> nat \<Rightarrow> bool" where
  "swap_due rows lt asc i j = (let a = rows ! i; b = rows ! j in if asc then lt b a else lt a b)"

definition sortRows :: "'r list \<Rightarrow> nat list \<Rightarrow> ('r \<Rightarrow> 'r \<Rightarrow> bool) \<Rightarrow> bool \<Rightarrow> nat list" where
  "sortRows rows indices lt asc = rev (foldl (\<lambda>acc x. sift_left (swap_due rows lt asc) x acc) [] indices)"

definition row_shown :: "'r Table \<Rightarrow> 'r \<Rightarrow> bool" where
  "row_shown m r = (t_filter m = [] \<or> (case t_filterFn m of None \<Rightarrow> True | Some fn \<Rightarrow> fn r (t_filter m)))"

definition reindex :: "'r Table \<Rightarrow> 'r Table" where
  "reindex m =
     (let vis = filter (\<lambda>i. row_shown m (t_rows m ! i)) [0..<length (t_rows m)];
          sc = t_sortCol m
      in m\<lparr>t_visible :=
        (if 0 \<le> sc \<and> sc < int (length (t_columns m)) \<and> col_Sortable (t_columns m ! nat sc)
         then sortRows (t_rows m) vis (col_SortLess (t_columns m ! nat sc)) (t_sortAsc m) else vis)\<rparr>)"

definition SetRows :: "'r list \<Rightarrow> 'r Table \<Rightarrow> 'r Table" where
  "SetRows rows m =
     (let m1 = reindex (m\<lparr>t_rows := rows\<rparr>); n = int (length (t_visible m1)) in
      if n \<le> t_cursor m1 then m1\<lparr>t_cursor := max 0 (n - 1)\<rparr> else m1)"

definition SetFilter :: "string \<Rightarrow> ('r \<Rightarrow> string \<Rightarrow> bool) option \<Rightarrow> 'r Table \<Rightarrow> 'r Table" where
  "SetFilter q fn m = reindex (m\<lparr>t_filter := q, t_filterFn := fn, t_cursor := 0, t_offset := 0\<rparr>)"

definition SetSize_table :: "int \<Rightarrow> int \<Rightarrow> 'r Table \<Rightarrow> 'r Table" where
  "SetSize_table w h m = m\<lparr>t_width := w, t_height := h\<rparr>"

definition Focus_table :: "'r Table \<Rightarrow> 'r Table" where "Focus_table m = m\<lparr>t_focused := True\<rparr>"
definition Blur_table :: "'r Table \<Rightarrow> 'r Table" where "Blur_table m = m\<lparr>t_focused := False\<rparr>"

definition SelectedRow :: "'r Table \<Rightarrow> 'r option go" where
  "SelectedRow m =
     (if t_visible m = [] then Inr None
      else go_bind (go_index (t_visible m) (t_cursor m)) (\<lambda>i.
           go_bind (go_index (t_rows m) (int i)) (\<lambda>r. Inr (Some r))))"

definition bodyH :: "'r Table \<Rightarrow> int" where
  "bodyH m = (let h = t_height m - 2 in if h < 1 then 1 else h)"

definition scrollToCursor :: "'r Table \<Rightarrow> 'r Table" where
  "scrollToCursor m =
     (let bh = bodyH m;
          m1 = (if t_cursor m < t_offset m then m\<lparr>t_offset := t_cursor m\<rparr> else m)
      in if t_offset m1 + bh \<le> t_cursor m1 then m1\<lparr>t_offset := t_cursor m1 - bh + 1\<rparr> else m1)"

definition moveUp :: "int \<Rightarrow> 'r Table \<Rightarrow> 'r Table" where
  "moveUp n m = scrollToCursor (m\<lparr>t_cursor := (if t_cursor m - n < 0 then 0 else t_cursor m - n)\<rparr>)"

definition moveDown :: "int \<Rightarrow> 'r Table \<Rightarrow> 'r Table" where
  "moveDown n m = scrollToCursor (m\<lparr>t_cursor :=
     (if int (length (t_visible m)) \<le> t_cursor m + n then max 0 (int (length (t_visible m)) - 1) else t_cursor m + n)\<rparr>)"

text \<open>The search of \<^verbatim>\<open>cycleSort\<close> for a sortable column, over the loop counter.\<close>

fun next_sort :: "int \<Rightarrow> nat list \<Rightarrow> 'r Table \<Rightarrow> 'r Table go" where
  "next_sort start [] m = Inr m"
| "next_sort start (i # is) m =
     go_bind (go_rem (start + 1 + int i) (int (length (t_columns m)))) (\<lambda>idx.
     go_bind (go_index (t_columns m) idx) (\<lambda>c.
       if col_Sortable c then Inr (reindex (m\<lparr>t_sortCol := idx, t_sortAsc := True\<rparr>))
       else next_sort start is m))"

fun prev_sort :: "int \<Rightarrow> nat list \<Rightarrow> 'r Table \<Rightarrow> 'r Table go" where
  "prev_sort start [] m = Inr m"
| "prev_sort start (i # is) m =
     (let idx = start + 1 in
      if t_sortCol m = start \<and> t_sortAsc m then Inr (reindex (m\<lparr>t_sortAsc := False\<rparr>))
      else go_bind (go_index (t_columns m) idx) (\<lambda>c.
        if col_Sortable c then Inr (reindex (m\<lparr>t_sortCol := idx, t_sortAsc := True\<rparr>))
        else prev_sort start is m))"

definition cycleSort :: "bool \<Rightarrow> 'r Table \<Rightarrow> 'r Table go" where
  "cycleSort nextCol m =
     (if nextCol then next_sort (t_sortCol m) [0..<length (t_columns m)] m
      else prev_sort (t_sortCol m) [0..<length (t_columns m)] m)"

definition Table_Update :: "string \<Rightarrow> 'r Table \<Rightarrow> 'r Table go" where
  "Table_Update k m =
     (if \<not> t_focused m then Inr m
      else let km = Table_keys in
        if Matches k (tk_Up km) then Inr (moveUp 1 m)
        else if Matches k (tk_Down km) then Inr (moveDown 1 m)
        else if Matches k (tk_PageUp km) then Inr (moveUp (bodyH m) m)
        else if Matches k (tk_PageDown km) then Inr (moveDown (bodyH m) m)
        else if Matches k (tk_Top km) then Inr (m\<lparr>t_cursor := 0, t_offset := 0\<rparr>)
        else if Matches k (tk_Bottom km) then Inr (scrollToCursor (m\<lparr>t_cursor := max 0 (int (length (t_visible m)) - 1)\<rparr>))
        else if Matches k (tk_SortNext km) then cycleSort True m
        else if Matches k (tk_SortPrev km) then cycleSort False m
        else Inr m)"

text \<open>The same with the keys written out.\<close>

lemma Table_Update_keys:
  "Table_Update k m =
     (if \<not> t_focused m then Inr m
      else if k \<in> {''up'', ''k''} then Inr (moveUp 1 m)
      else if k \<in> {''down'', ''j''} then Inr (moveDown 1 m)
      else if k \<in> {''pgup'', ''ctrl+u''} then Inr (moveUp (bodyH m) m)
      else if k \<in> {''pgdown'', ''ctrl+d''} then Inr (moveDown (bodyH m) m)
      else if k = ''g'' then Inr (m\<lparr>t_cursor := 0, t_offset := 0\<rparr>)
      else if k = ''G'' then Inr (scrollToCursor (m\<lparr>t_cursor := max 0 (int (length (t_visible m)) - 1)\<rparr>))
      else if k = ''s'' then cycleSort True m
      else if k = ''S'' then cycleSort False m
      else Inr m)"
  unfolding Table_Update_def Let_def Matches_table by (rule refl)

text \<open>The indices drawn by \<^verbatim>\<open>View\<close>, the blank lines below them and the scroll indicator.\<close>

definition view_window :: "'r Table \<Rightarrow> int \<times> int" where
  "view_window m = (let start = t_offset m; e = start + bodyH m; n = int (length (t_visible m)) in
     (start, if n < e then n else e))"

definition view_indicator :: "'r Table \<Rightarrow> runes go" where
  "view_indicator m =
     (let n = int (length (t_visible m)) in
      if bodyH m < n
      then let pct = (if 0 < n then (t_cursor m * 100) sdiv n else 0) in
           go_bind (Repeat_runes [9472] (t_width m - 8)) (\<lambda>r.
             Inr (r @ runes_of ('' '' @ itoa pct @ ''% '')))
      else Inr [])"

fun render_cells :: "'r Column list \<Rightarrow> (int \<Rightarrow> 'r Column \<Rightarrow> runes) \<Rightarrow> int \<Rightarrow> runes list go" where
  "render_cells [] cell i = Inr []"
| "render_cells (c # cs) cell i =
     go_bind (padOrTrunc (cell i c) (col_Width c) (col_Align c)) (\<lambda>p.
     go_bind (render_cells cs cell (i + 1)) (\<lambda>ps. Inr (p # ps)))"

definition join_cells :: "runes list \<Rightarrow> runes" where
  "join_cells ps = concat (map (\<lambda>(i, p). if i = (0::nat) then p else 32 # p) (zip [0..<length ps] ps))"

definition renderHeader :: "'r Table \<Rightarrow> runes go" where
  "renderHeader m =
     go_bind (render_cells (t_columns m) (\<lambda>i c. col_Title c @
        (if i = t_sortCol m then (if t_sortAsc m then [32, 9650] else [32, 9660]) else [])) 0)
       (\<lambda>ps. Inr (join_cells ps))"

definition renderRow :: "'r Table \<Rightarrow> 'r \<Rightarrow> runes go" where
  "renderRow m r =
     go_bind (render_cells (t_columns m) (\<lambda>i c. case col_Format c of None \<Rightarrow> [] | Some f \<Rightarrow> f r i) 0)
       (\<lambda>ps. Inr (join_cells ps))"

fun render_rows :: "'r Table \<Rightarrow> nat list \<Rightarrow> runes list go" where
  "render_rows m [] = Inr []"
| "render_rows m (i # is) =
     go_bind (go_index (t_visible m) (int i)) (\<lambda>v.
     go_bind (go_index (t_rows m) (int v)) (\<lambda>row.
     go_bind (renderRow m row) (\<lambda>line.
     go_bind (render_rows m is) (\<lambda>ls. Inr (line # ls)))))"

text \<open>
  The lines that \<^verbatim>\<open>View\<close> writes. The row under the cursor is highlighted only in a focused
  table, the others alternate; without a scroll indicator the text ends after the last body line.
\<close>

datatype line_style = TableHeader | Separator | TableSelected | TableAltRow | TableRow | TableDim | Unstyled

type_synonym line = "line_style \<times> runes"

definition row_style :: "'r Table \<Rightarrow> nat \<Rightarrow> line_style" where
  "row_style m i =
     (if int i = t_cursor m \<and> t_focused m then TableSelected
      else if (int i - t_offset m) mod 2 = 1 then TableAltRow else TableRow)"

definition View_table :: "'r Table \<Rightarrow> line list go" where
  "View_table m =
     (if t_width m = 0 then Inr []
      else go_bind (renderHeader m) (\<lambda>hdr.
           go_bind (Repeat_runes [9472] (t_width m)) (\<lambda>sep.
           case view_window m of (start, e) \<Rightarrow>
           go_bind (if start < 0 \<and> start < e then Inl IndexOutOfRange else render_rows m [nat start..<nat e]) (\<lambda>body.
           go_bind (Repeat_runes (runes_of '' '') (t_width m)) (\<lambda>blank.
           go_bind (view_indicator m) (\<lambda>ind.
             Inr ([(TableHeader, hdr), (Separator, sep)] @ zip (map (row_style m) [nat start..<nat e]) body @
               replicate (nat (bodyH m - (e - start))) (Unstyled, blank) @
               [(if ind = [] then Unstyled else TableDim, ind)])))))))"

section \<open>Sorting\<close>

lemma mset_sift [simp]: "mset (sift_left swap x ys) = add_mset x (mset ys)"
  by (induction ys) auto

lemma mset_sortRows [simp]: "mset (sortRows rows indices lt asc) = mset indices"
proof -
  have "mset (foldl (\<lambda>acc x. sift_left sw x acc) acc xs) = mset acc + mset xs" for sw acc xs
    by (induction xs arbitrary: acc) simp_all
  then show ?thesis by (simp add: sortRows_def)
qed

text \<open>\<open>swap i j\<close> says that \<open>i\<close> must come after \<open>j\<close>: a strict weak order turned around.\<close>

lemma sift_sorted:
  assumes "strict_weak sw" and "sorted_wrt (\<lambda>a b. \<not> sw b a) ys"
  shows "sorted_wrt (\<lambda>a b. \<not> sw b a) (sift_left sw x ys)"
  using assms(2)
proof (induction ys)
  case (Cons h t)
  show ?case
  proof (cases "sw h x")
    case True
    have "set (sift_left sw x t) = insert x (set t)" by (metis mset_sift set_mset_add_mset_insert set_mset_mset)
    with True Cons strict_weak_asym [OF assms(1) True] show ?thesis by auto
  next
    case False
    moreover have "\<not> sw z x" if "z \<in> set t" for z
      using strict_weak_trans [OF assms(1), of h x z] False Cons.prems that by auto
    ultimately show ?thesis using Cons.prems by simp
  qed
qed simp

lemma swap_due_weak:
  assumes "strict_weak lt"
  shows "strict_weak (swap_due rows lt asc)"
  unfolding strict_weak_def
proof (intro conjI allI impI)
  fix a b assume "swap_due rows lt asc a b"
  then show "\<not> swap_due rows lt asc b a"
    using strict_weak_asym [OF assms] by (cases asc) (simp_all add: swap_due_def Let_def)
next
  fix a b c assume "\<not> swap_due rows lt asc b a \<and> \<not> swap_due rows lt asc c b"
  then show "\<not> swap_due rows lt asc c a"
    using strict_weak_trans [OF assms, of "rows ! b" "rows ! a" "rows ! c"]
      strict_weak_trans [OF assms, of "rows ! b" "rows ! c" "rows ! a"]
    by (cases asc) (simp_all add: swap_due_def Let_def)
qed

lemma sortRows_sorted:
  assumes "strict_weak lt"
  shows "sorted_wrt (\<lambda>i j. \<not> swap_due rows lt asc i j) (sortRows rows indices lt asc)"
proof -
  let ?sw = "swap_due rows lt asc"
  have "sorted_wrt (\<lambda>a b. \<not> ?sw b a) (foldl (\<lambda>acc x. sift_left ?sw x acc) acc xs)"
    if "sorted_wrt (\<lambda>a b. \<not> ?sw b a) acc" for acc xs
    using that by (induction xs arbitrary: acc) (simp_all add: sift_sorted [OF swap_due_weak [OF assms]])
  then show ?thesis by (simp add: sortRows_def sorted_wrt_rev)
qed

section \<open>The invariant\<close>

text \<open>
  \<open>visible\<close> holds each index of a shown row exactly once, in sort order when a sortable column is
  selected, and the cursor points into it (or is 0 when nothing is shown).
\<close>

definition sort_active :: "'r Table \<Rightarrow> bool" where
  "sort_active m \<longleftrightarrow> 0 \<le> t_sortCol m \<and> t_sortCol m < int (length (t_columns m)) \<and>
     col_Sortable (t_columns m ! nat (t_sortCol m))"

definition indexed :: "'r Table \<Rightarrow> bool" where
  "indexed m \<longleftrightarrow>
     mset (t_visible m) = mset (filter (\<lambda>i. row_shown m (t_rows m ! i)) [0..<length (t_rows m)]) \<and>
     (sort_active m \<longrightarrow> sorted_wrt (\<lambda>i j. \<not> swap_due (t_rows m) (col_SortLess (t_columns m ! nat (t_sortCol m))) (t_sortAsc m) i j) (t_visible m))"

definition table_ok :: "'r Table \<Rightarrow> bool" where
  "table_ok m \<longleftrightarrow> indexed m \<and> 0 \<le> t_cursor m \<and> t_cursor m < max 1 (int (length (t_visible m))) \<and>
     0 \<le> t_offset m \<and> - 1 \<le> t_sortCol m \<and> t_sortCol m < int (length (t_columns m))"

definition ordered_columns :: "'r Table \<Rightarrow> bool" where
  "ordered_columns m \<longleftrightarrow> (\<forall>c \<in> set (t_columns m). strict_weak (col_SortLess c))"

lemma row_shown_visible [simp]:
  "row_shown (m\<lparr>t_visible := v\<rparr>) = row_shown m" "row_shown (m\<lparr>t_cursor := c\<rparr>) = row_shown m"
  "row_shown (m\<lparr>t_offset := d\<rparr>) = row_shown m" "row_shown (m\<lparr>t_sortCol := c\<rparr>) = row_shown m"
  "row_shown (m\<lparr>t_sortAsc := b\<rparr>) = row_shown m" "row_shown (m\<lparr>t_width := w\<rparr>) = row_shown m"
  "row_shown (m\<lparr>t_height := h\<rparr>) = row_shown m" "row_shown (m\<lparr>t_focused := b\<rparr>) = row_shown m"
  by (simp_all add: row_shown_def fun_eq_iff split: option.split)

lemma indexed_reindex: "ordered_columns m \<Longrightarrow> indexed (reindex m)"
  by (auto simp: indexed_def reindex_def Let_def sort_active_def ordered_columns_def
      intro!: sortRows_sorted)

lemma indexed_fields [simp]:
  "indexed (m\<lparr>t_cursor := c\<rparr>) = indexed m" "indexed (m\<lparr>t_offset := d\<rparr>) = indexed m"
  "indexed (m\<lparr>t_width := w\<rparr>) = indexed m" "indexed (m\<lparr>t_height := h\<rparr>) = indexed m"
  "indexed (m\<lparr>t_focused := b\<rparr>) = indexed m"
  by (simp_all add: indexed_def sort_active_def)

text \<open>The number of visible rows does not depend on the sort order.\<close>

lemma indexed_length:
  "indexed m \<Longrightarrow> length (t_visible m) = length (filter (\<lambda>i. row_shown m (t_rows m ! i)) [0..<length (t_rows m)])"
  unfolding indexed_def by (metis size_mset)

lemma length_reindex:
  "length (t_visible (reindex m)) = length (filter (\<lambda>i. row_shown m (t_rows m ! i)) [0..<length (t_rows m)])"
proof -
  have "mset (t_visible (reindex m)) = mset (filter (\<lambda>i. row_shown m (t_rows m ! i)) [0..<length (t_rows m)])"
    by (simp add: reindex_def Let_def)
  then show ?thesis by (metis size_mset)
qed

lemma reindex_fields [simp]:
  "t_cursor (reindex m) = t_cursor m" "t_offset (reindex m) = t_offset m" "t_sortCol (reindex m) = t_sortCol m"
  "t_columns (reindex m) = t_columns m" "t_rows (reindex m) = t_rows m" "t_sortAsc (reindex m) = t_sortAsc m"
  "t_focused (reindex m) = t_focused m" "t_height (reindex m) = t_height m" "t_width (reindex m) = t_width m"
  by (simp_all add: reindex_def Let_def)

lemma table_ok_new: "table_ok (New_table cols)"
  by (simp add: table_ok_def indexed_def New_table_def sort_active_def)

lemma scroll_fields [simp]:
  "t_cursor (scrollToCursor m) = t_cursor m" "t_visible (scrollToCursor m) = t_visible m"
  "t_sortCol (scrollToCursor m) = t_sortCol m" "t_columns (scrollToCursor m) = t_columns m"
  "t_height (scrollToCursor m) = t_height m" "indexed (scrollToCursor m) = indexed m"
  by (simp_all add: scrollToCursor_def Let_def)

lemma scroll_offset:
  assumes "0 \<le> t_cursor m" and "0 \<le> t_offset m"
  shows "0 \<le> t_offset (scrollToCursor m)"
    and "t_offset (scrollToCursor m) \<le> t_cursor m" and "t_cursor m < t_offset (scrollToCursor m) + bodyH m"
  using assms by (auto simp: scrollToCursor_def Let_def bodyH_def)

lemma table_ok_scroll:
  assumes "table_ok m" and "0 \<le> c" and "c < max 1 (int (length (t_visible m)))"
  shows "table_ok (scrollToCursor (m\<lparr>t_cursor := c\<rparr>))"
  using assms scroll_offset(1) [of "m\<lparr>t_cursor := c\<rparr>"] by (simp add: table_ok_def)

lemma moveUp_ok: "table_ok m \<Longrightarrow> 0 \<le> n \<Longrightarrow> table_ok (moveUp n m)"
  unfolding moveUp_def by (rule table_ok_scroll) (auto simp: table_ok_def)

lemma moveDown_ok: "table_ok m \<Longrightarrow> 0 \<le> n \<Longrightarrow> table_ok (moveDown n m)"
  unfolding moveDown_def by (rule table_ok_scroll) (auto simp: table_ok_def)

lemma bodyH_pos [simp]: "0 \<le> bodyH m" "0 < bodyH m"
  by (simp_all add: bodyH_def Let_def)

lemma table_ok_resort:
  assumes "table_ok m" and "ordered_columns m" and "- 1 \<le> c" and "c < int (length (t_columns m))"
  shows "table_ok (reindex (m\<lparr>t_sortCol := c, t_sortAsc := b\<rparr>))"
proof -
  have "indexed (reindex (m\<lparr>t_sortCol := c, t_sortAsc := b\<rparr>))"
    using assms(2) by (simp add: indexed_reindex ordered_columns_def)
  moreover have "length (t_visible (reindex (m\<lparr>t_sortCol := c, t_sortAsc := b\<rparr>))) = length (t_visible m)"
    using assms(1) by (simp add: length_reindex indexed_length table_ok_def)
  ultimately show ?thesis using assms by (simp add: table_ok_def)
qed

lemma next_sort_ok:
  assumes "table_ok m" and "ordered_columns m" and "set is \<subseteq> {..<length (t_columns m)}"
  shows "\<exists>m'. next_sort (t_sortCol m) is m = Inr m' \<and> table_ok m' \<and> ordered_columns m'"
  using assms(3)
proof (induction "is")
  case (Cons i "is")
  let ?n = "int (length (t_columns m))" and ?idx = "(t_sortCol m + 1 + int i) mod int (length (t_columns m))"
  have n: "0 < ?n" using Cons.prems by auto
  then have idx: "0 \<le> ?idx" "?idx < ?n" by simp_all
  have "0 \<le> t_sortCol m + 1 + int i" using assms(1) by (simp add: table_ok_def)
  then have step: "go_rem (t_sortCol m + 1 + int i) ?n = Inr ?idx" using n by simp
  have new: "table_ok (reindex (m\<lparr>t_sortCol := ?idx, t_sortAsc := True\<rparr>))"
    by (rule table_ok_resort [OF assms(1,2)]) (use idx in simp_all)
  have ord: "ordered_columns (reindex (m\<lparr>t_sortCol := ?idx, t_sortAsc := True\<rparr>))"
    using assms(2) by (simp add: ordered_columns_def)
  from Cons.IH Cons.prems new ord show ?case by (simp add: step go_index_ok [OF idx])
qed (use assms in simp)

lemma prev_sort_unfold:
  "prev_sort (t_sortCol m) is m =
     (if is = [] then Inr m else if t_sortAsc m then Inr (reindex (m\<lparr>t_sortAsc := False\<rparr>))
      else go_bind (go_index (t_columns m) (t_sortCol m + 1)) (\<lambda>c.
        Inr (if col_Sortable c then reindex (m\<lparr>t_sortCol := t_sortCol m + 1, t_sortAsc := True\<rparr>) else m)))"
  by (induction "is") (auto simp: Let_def go_bind_def split: sum.split)

lemma prev_sort_ok:
  assumes "table_ok m" and "ordered_columns m" and "prev_sort (t_sortCol m) is m = Inr m'"
  shows "table_ok m' \<and> ordered_columns m'"
proof -
  have "table_ok (reindex (m\<lparr>t_sortCol := t_sortCol m, t_sortAsc := False\<rparr>))"
    by (rule table_ok_resort [OF assms(1,2)]) (use assms(1) in \<open>simp_all add: table_ok_def\<close>)
  moreover have "table_ok (reindex (m\<lparr>t_sortCol := t_sortCol m + 1, t_sortAsc := True\<rparr>))"
    if "t_sortCol m + 1 < int (length (t_columns m))"
    by (rule table_ok_resort [OF assms(1,2)]) (use assms(1) that in \<open>simp_all add: table_ok_def\<close>)
  ultimately show ?thesis using assms
    by (auto simp: prev_sort_unfold go_index_def ordered_columns_def split: if_splits)
qed

section \<open>Runs\<close>

datatype 'r table_op = Rows "'r list" | Filter string "('r \<Rightarrow> string \<Rightarrow> bool) option" | Size int int | Focused bool | Key string

definition table_step :: "'r table_op \<Rightarrow> 'r Table \<Rightarrow> 'r Table go" where
  "table_step a m = (case a of
       Rows rs \<Rightarrow> Inr (SetRows rs m) | Filter q fn \<Rightarrow> Inr (SetFilter q fn m) | Size w h \<Rightarrow> Inr (SetSize_table w h m)
     | Focused b \<Rightarrow> Inr (if b then Focus_table m else Blur_table m) | Key k \<Rightarrow> Table_Update k m)"

fun run_table :: "'r table_op list \<Rightarrow> 'r Table \<Rightarrow> 'r Table go" where
  "run_table [] m = Inr m"
| "run_table (a # as) m = go_bind (table_step a m) (run_table as)"

lemma SetRows_ok:
  assumes "table_ok m" and "ordered_columns m"
  shows "table_ok (SetRows rows m)"
proof -
  have "indexed (reindex (m\<lparr>t_rows := rows\<rparr>))"
    using assms(2) by (simp add: indexed_reindex ordered_columns_def)
  then show ?thesis using assms(1) by (auto simp: table_ok_def SetRows_def Let_def max_def)
qed

lemma SetFilter_ok:
  assumes "table_ok m" and "ordered_columns m"
  shows "table_ok (SetFilter q fn m)"
proof -
  have "indexed (SetFilter q fn m)"
    using assms(2) by (simp add: SetFilter_def indexed_reindex ordered_columns_def)
  then show ?thesis using assms(1) by (auto simp: table_ok_def SetFilter_def)
qed

lemma columns_ops [simp]:
  "t_columns (SetRows rows m) = t_columns m" "t_columns (SetFilter q fn m) = t_columns m"
  "t_columns (SetSize_table w h m) = t_columns m" "t_columns (Focus_table m) = t_columns m"
  "t_columns (Blur_table m) = t_columns m" "t_columns (if b then Focus_table m else Blur_table m) = t_columns m" "t_columns (moveUp n m) = t_columns m" "t_columns (moveDown n m) = t_columns m"
  by (simp_all add: SetRows_def SetFilter_def SetSize_table_def Focus_table_def Blur_table_def moveUp_def moveDown_def Let_def)

lemma cycleSort_ok:
  assumes "table_ok m" and "ordered_columns m" and "cycleSort b m = Inr m'"
  shows "table_ok m' \<and> ordered_columns m'"
  using prev_sort_ok [OF assms(1,2)] next_sort_ok [OF assms(1,2), of "[0..<length (t_columns m)]"] assms(3)
  by (auto simp: cycleSort_def lessThan_atLeast0 split: if_splits)

text \<open>The possible outcomes of a key press.\<close>

lemma if_memI: "(b \<Longrightarrow> x \<in> S) \<Longrightarrow> (\<not> b \<Longrightarrow> y \<in> S) \<Longrightarrow> (if b then x else y) \<in> S"
  by simp

lemma Table_Update_outcomes:
  "Table_Update k m \<in> {Inr m, Inr (moveUp 1 m), Inr (moveDown 1 m), Inr (moveUp (bodyH m) m), Inr (moveDown (bodyH m) m),
     Inr (m\<lparr>t_cursor := 0, t_offset := 0\<rparr>),
     Inr (scrollToCursor (m\<lparr>t_cursor := max 0 (int (length (t_visible m)) - 1)\<rparr>)), cycleSort True m} \<union>
     {r. k = ''S'' \<and> r = cycleSort False m}"
  unfolding Table_Update_keys
  by (rule if_memI, simp only: insert_iff Un_iff mem_Collect_eq simp_thms)+
    (simp only: insert_iff Un_iff mem_Collect_eq simp_thms)

lemma ordered_columns_cong: "t_columns m' = t_columns m \<Longrightarrow> ordered_columns m' = ordered_columns m"
  by (simp add: ordered_columns_def)

lemma Table_Update_ok:
  assumes "table_ok m" and "ordered_columns m" and "Table_Update k m = Inr m'"
  shows "table_ok m' \<and> ordered_columns m'"
proof -
  have "table_ok (m\<lparr>t_cursor := 0, t_offset := 0\<rparr>)" using assms(1) by (simp add: table_ok_def)
  moreover have "table_ok (scrollToCursor (m\<lparr>t_cursor := max 0 (int (length (t_visible m)) - 1)\<rparr>))"
    by (rule table_ok_scroll [OF assms(1)]) (simp_all add: max_def)
  moreover have "cycleSort b m = Inr m' \<Longrightarrow> table_ok m' \<and> ordered_columns m'" for b
    by (rule cycleSort_ok [OF assms(1,2)])
  ultimately show ?thesis
    using Table_Update_outcomes [of k m] assms moveUp_ok [OF assms(1)] moveDown_ok [OF assms(1)]
    unfolding insert_iff Un_iff mem_Collect_eq empty_iff
    by (elim disjE conjE) (auto simp: ordered_columns_def)
qed

lemma table_ok_view [simp]:
  "table_ok (m\<lparr>t_focused := b\<rparr>) = table_ok m" "table_ok (m\<lparr>t_width := w\<rparr>) = table_ok m" "table_ok (m\<lparr>t_height := h\<rparr>) = table_ok m"
  by (simp_all add: table_ok_def)

lemma table_step_ok:
  assumes "table_ok m" and "ordered_columns m" and "table_step a m = Inr m'"
  shows "table_ok m' \<and> ordered_columns m'"
proof (cases a)
  case (Key k)
  with Table_Update_ok [OF assms(1,2)] assms(3) show ?thesis by (simp add: table_step_def)
qed (use assms SetRows_ok [OF assms(1,2)] SetFilter_ok [OF assms(1,2)] in \<open>auto simp: table_step_def ordered_columns_def
    SetSize_table_def Focus_table_def Blur_table_def\<close>)

lemma run_table_ok:
  "table_ok m \<Longrightarrow> ordered_columns m \<Longrightarrow> run_table ops m = Inr m' \<Longrightarrow> table_ok m' \<and> ordered_columns m'"
  by (induction ops arbitrary: m) (auto dest: table_step_ok)

lemma cycleSort_columns: "cycleSort b m = Inr m' \<Longrightarrow> t_columns m' = t_columns m"
proof -
  have "next_sort st is m = Inr m' \<Longrightarrow> t_columns m' = t_columns m" for st "is"
    by (induction st "is" m rule: next_sort.induct) (auto split: if_splits)
  then show "cycleSort b m = Inr m' \<Longrightarrow> t_columns m' = t_columns m"
    by (auto simp: cycleSort_def prev_sort_unfold split: if_splits)
qed

lemma table_step_columns:
  assumes "table_step a m = Inr m'"
  shows "t_columns m' = t_columns m"
proof (cases a)
  case (Key k)
  then show ?thesis
    using Table_Update_outcomes [of k m] assms cycleSort_columns [of _ m m']
    unfolding insert_iff Un_iff mem_Collect_eq empty_iff
    by (elim disjE conjE) (auto simp: table_step_def)
qed (use assms in \<open>auto simp: table_step_def\<close>)

lemma run_table_columns: "run_table ops m = Inr m' \<Longrightarrow> t_columns m' = t_columns m"
  by (induction ops arbitrary: m) (auto dest: table_step_columns)

lemma SelectedRow_shown:
  assumes "table_ok m"
  shows "\<exists>r. SelectedRow m = Inr r \<and> (r = None \<longleftrightarrow> (\<forall>x \<in> set (t_rows m). \<not> row_shown m x)) \<and>
    (\<forall>x. r = Some x \<longrightarrow> x \<in> set (t_rows m) \<and> row_shown m x)"
proof -
  have vis: "set (t_visible m) = {i. i < length (t_rows m) \<and> row_shown m (t_rows m ! i)}"
  proof -
    have "mset (t_visible m) = mset (filter (\<lambda>i. row_shown m (t_rows m ! i)) [0..<length (t_rows m)])"
      using assms unfolding table_ok_def indexed_def by blast
    then show ?thesis using mset_eq_setD by fastforce
  qed
  show ?thesis
  proof (cases "t_visible m = []")
    case True
    then have "\<forall>x \<in> set (t_rows m). \<not> row_shown m x" using vis by (auto simp: in_set_conv_nth)
    with True show ?thesis by (simp add: SelectedRow_def)
  next
    case False
    define v where "v = t_visible m ! nat (t_cursor m)"
    have c: "0 \<le> t_cursor m" "t_cursor m < int (length (t_visible m))" using assms False by (auto simp: table_ok_def max_def Suc_le_eq split: if_splits)
    then have "v \<in> set (t_visible m)" by (simp add: v_def)
    then have "v < length (t_rows m)" "row_shown m (t_rows m ! v)" using vis by auto
    with False c show ?thesis by (auto simp: SelectedRow_def v_def)
  qed
qed

text \<open>
  C4: After any sequence of row updates, filter changes, resizes, focus changes and key presses that
  does not panic, on a new table whose column comparisons are strict weak orders, the visible indices
  are exactly those of the rows the filter shows, each once and in the order of the sort column, and
  the selected row exists exactly when some row is shown and is then one of the shown rows.
\<close>

theorem table_runs_ok:
  assumes "\<forall>c \<in> set cols. strict_weak (col_SortLess c)" and "run_table ops (New_table cols) = Inr m"
  shows "table_ok m \<and> (\<exists>r. SelectedRow m = Inr r \<and> (r = None \<longleftrightarrow> (\<forall>x \<in> set (t_rows m). \<not> row_shown m x)) \<and>
           (\<forall>x. r = Some x \<longrightarrow> x \<in> set (t_rows m) \<and> row_shown m x))"
proof -
  have "ordered_columns (New_table cols)" using assms(1) by (simp add: ordered_columns_def New_table_def)
  then have "table_ok m" using run_table_ok [OF table_ok_new] assms(2) by blast
  then show ?thesis using SelectedRow_shown by blast
qed

definition sample_column :: "nat Column" where
  "sample_column = \<lparr>col_Title = [], col_Width = 4, col_Sortable = True, col_SortLess = (<), col_Format = None, col_Align = ''right''\<rparr>"

lemma nat_less_weak: "strict_weak ((<) :: nat \<Rightarrow> nat \<Rightarrow> bool)"
  by (auto simp: strict_weak_def)

lemma sample_table_run:
  "\<exists>m. run_table [Rows [5, 3, 9], Focused True, Key ''s'', Key ''down''] (New_table [sample_column]) = Inr m \<and>
     t_visible m = [1, 0, 2] \<and> t_rows m = [5, 3, 9] \<and> t_cursor m = 1"
  by (simp add: table_step_def SetRows_def reindex_def New_table_def sample_column_def row_shown_def upt_rec
      Focus_table_def Table_Update_keys cycleSort_def go_index_def go_rem_def sortRows_def swap_due_def moveDown_def
      scrollToCursor_def bodyH_def Let_def)

theorem table_runs_ok_witness:
  "\<exists>m. run_table [Rows [5, 3, 9], Focused True, Key ''s'', Key ''down''] (New_table [sample_column]) = Inr m \<and> table_ok m \<and>
     (\<exists>r. SelectedRow m = Inr r)"
  using sample_table_run table_runs_ok [of "[sample_column]" "[Rows [5, 3, 9], Focused True, Key ''s'', Key ''down'']"]
  by (fastforce simp: nat_less_weak sample_column_def)

lemma cycleSort_prev_panics:
  assumes "- 1 \<le> t_sortCol m" and "t_sortCol m < int (length (t_columns m))"
  shows "cycleSort False m = Inl IndexOutOfRange \<longleftrightarrow>
    t_columns m \<noteq> [] \<and> \<not> t_sortAsc m \<and> t_sortCol m = int (length (t_columns m)) - 1"
    and "\<exists>r. cycleSort False m = r \<and> (r = Inl IndexOutOfRange \<or> (\<exists>m'. r = Inr m'))"
  using assms by (auto simp: cycleSort_def prev_sort_unfold go_index_def)

lemma table_step_no_panic:
  assumes "table_ok m" and "ordered_columns m" and "a \<noteq> Key ''S''"
  shows "\<exists>m'. table_step a m = Inr m'"
proof (cases a)
  case (Key k)
  moreover have "\<exists>m'. cycleSort True m = Inr m'"
    using next_sort_ok [OF assms(1,2), of "[0..<length (t_columns m)]"] by (auto simp: cycleSort_def lessThan_atLeast0)
  ultimately show ?thesis
    using Table_Update_outcomes [of k m] assms(3)
    unfolding insert_iff Un_iff mem_Collect_eq empty_iff by (auto simp: table_step_def)
qed (simp_all add: table_step_def)

lemma run_table_no_panic:
  "table_ok m \<Longrightarrow> ordered_columns m \<Longrightarrow> Key ''S'' \<notin> set ops \<Longrightarrow> \<exists>m'. run_table ops m = Inr m'"
proof (induction ops arbitrary: m)
  case (Cons a as)
  then obtain m1 where m1: "table_step a m = Inr m1" using table_step_no_panic [of m a] by auto
  with Cons table_step_ok [of m a m1] show ?case by simp
qed simp

lemma table_step_sort_back:
  assumes "table_ok m"
  shows "table_step (Key ''S'') m = Inl e \<longleftrightarrow> e = IndexOutOfRange \<and>
    t_focused m \<and> t_columns m \<noteq> [] \<and> \<not> t_sortAsc m \<and> t_sortCol m = int (length (t_columns m)) - 1"
  using cycleSort_prev_panics [of m] assms by (auto simp: table_ok_def table_step_def Table_Update_keys)

lemma run_table_append: "run_table (as @ bs) m = go_bind (run_table as m) (run_table bs)"
  by (induction as arbitrary: m) (auto simp: go_bind_def split: sum.splits)

lemma table_step_back:
  assumes "t_focused m" and "t_columns m \<noteq> []"
  shows "table_step (Key ''S'') m = (if t_sortAsc m then Inr (reindex (m\<lparr>t_sortAsc := False\<rparr>))
      else go_bind (go_index (t_columns m) (t_sortCol m + 1)) (\<lambda>c.
        Inr (if col_Sortable c then reindex (m\<lparr>t_sortCol := t_sortCol m + 1, t_sortAsc := True\<rparr>) else m)))"
proof -
  have "table_step (Key ''S'') m = prev_sort (t_sortCol m) [0..<length (t_columns m)] m"
    using assms(1) by (simp add: table_step_def Table_Update_keys cycleSort_def)
  then show ?thesis using assms(2) unfolding prev_sort_unfold by simp
qed

text \<open>Pressing the backward sort key visits each column twice, ascending and descending.\<close>

lemma sort_back_walk:
  assumes "t_focused m" and "\<forall>c \<in> set (t_columns m). col_Sortable c" and "t_sortCol m = - 1" and "t_sortAsc m"
  shows "k \<le> length (t_columns m) \<Longrightarrow> t_columns m \<noteq> [] \<Longrightarrow> \<exists>m'. run_table (replicate (2 * k + 1) (Key ''S'')) m = Inr m' \<and>
    t_sortCol m' = int k - 1 \<and> \<not> t_sortAsc m' \<and> t_focused m' \<and> t_columns m' = t_columns m"
proof (induction k)
  case 0
  then show ?case using assms by (simp add: table_step_back)
next
  case (Suc k)
  then obtain m1 where m1: "run_table (replicate (2 * k + 1) (Key ''S'')) m = Inr m1" "t_sortCol m1 = int k - 1" "\<not> t_sortAsc m1"
    "t_focused m1" "t_columns m1 = t_columns m" by auto
  let ?m2 = "reindex (m1\<lparr>t_sortCol := int k, t_sortAsc := True\<rparr>)"
  have "col_Sortable (t_columns m ! k)" using assms(2) Suc.prems(1) by simp
  then have "table_step (Key ''S'') m1 = Inr ?m2"
    using m1(2-5) Suc.prems by (simp add: table_step_back go_index_def)
  moreover have "table_step (Key ''S'') ?m2 = Inr (reindex (?m2\<lparr>t_sortAsc := False\<rparr>))"
    using m1(2-5) Suc.prems by (simp add: table_step_back)
  ultimately have "run_table [Key ''S'', Key ''S''] m1 = Inr (reindex (?m2\<lparr>t_sortAsc := False\<rparr>))" by simp
  moreover have "replicate (2 * Suc k + 1) (Key ''S'') = replicate (2 * k + 1) (Key ''S'') @ [Key ''S'', Key ''S'' :: 'a table_op]"
    using replicate_add [of "2 * k + 1" 2 "Key ''S'' :: 'a table_op"] by (simp add: numeral_eq_Suc)
  ultimately have "run_table (replicate (2 * Suc k + 1) (Key ''S'')) m = Inr (reindex (?m2\<lparr>t_sortAsc := False\<rparr>))"
    using m1(1) by (simp only: run_table_append go_bind_simps)
  then show ?case using m1(2-5) by (intro exI [of _ "reindex (?m2\<lparr>t_sortAsc := False\<rparr>)"]) (simp del: replicate.simps)
qed

text \<open>
  C34: After any run of a table, and whatever happens next, a panic is an index out of range, and it
  happens exactly when the backward sort key reaches a focused table whose last column is sorted in
  descending order, since the search for the next column does not wrap around there. Such a state is
  reached by that key alone: on a table whose \<open>n > 0\<close> columns are all sortable, pressing it \<open>2n + 1\<close>
  times is safe and once more panics.
\<close>

theorem table_panics_only_on_sort_back:
  assumes "\<forall>c \<in> set cols. strict_weak (col_SortLess c)" and "run_table ops (New_table cols) = Inr m"
  shows "(\<forall>a e. table_step a m = Inl e \<longleftrightarrow> a = Key ''S'' \<and> e = IndexOutOfRange \<and>
       t_focused m \<and> cols \<noteq> [] \<and> \<not> t_sortAsc m \<and> t_sortCol m = int (length cols) - 1) \<and>
    (cols \<noteq> [] \<and> (\<forall>c \<in> set cols. col_Sortable c) \<longrightarrow>
       (\<exists>m'. run_table (Focused True # replicate (2 * length cols + 1) (Key ''S'')) (New_table cols) = Inr m') \<and>
       run_table (Focused True # replicate (2 * length cols + 2) (Key ''S'')) (New_table cols) = Inl IndexOutOfRange)"
proof (intro conjI allI impI)
  have ord: "ordered_columns (New_table cols)" using assms(1) by (simp add: ordered_columns_def New_table_def)
  note ok = run_table_ok [OF table_ok_new ord]
  have cols: "t_columns m = cols" using run_table_columns [OF assms(2)] by (simp add: New_table_def)
  show "table_step a m = Inl e \<longleftrightarrow> a = Key ''S'' \<and> e = IndexOutOfRange \<and>
       t_focused m \<and> cols \<noteq> [] \<and> \<not> t_sortAsc m \<and> t_sortCol m = int (length cols) - 1" for a e
    using table_step_no_panic [of m a] table_step_sort_back [of m e] ok [OF assms(2)] cols by (cases "a = Key ''S''") auto
  assume c: "cols \<noteq> [] \<and> (\<forall>c \<in> set cols. col_Sortable c)"
  let ?f = "Focus_table (New_table cols)"
  have f: "run_table (Focused True # ops) (New_table cols) = run_table ops ?f" for ops by (simp add: table_step_def)
  obtain m1 where m1: "run_table (replicate (2 * length cols + 1) (Key ''S'')) ?f = Inr m1"
    "t_sortCol m1 = int (length cols) - 1" "\<not> t_sortAsc m1" "t_focused m1" "t_columns m1 = cols"
    using sort_back_walk [of ?f "length cols"] c by (auto simp: Focus_table_def New_table_def)
  then show "\<exists>m'. run_table (Focused True # replicate (2 * length cols + 1) (Key ''S'')) (New_table cols) = Inr m'" unfolding f by blast
  have "table_step (Key ''S'') m1 = Inl IndexOutOfRange"
    using m1(2-5) c by (simp add: table_step_back go_index_def)
  moreover have "replicate (2 * length cols + 2) (Key ''S'') = replicate (2 * length cols + 1) (Key ''S'') @ [Key ''S'' :: 'a table_op]"
    by (simp add: replicate_append_same)
  ultimately show "run_table (Focused True # replicate (2 * length cols + 2) (Key ''S'')) (New_table cols) = Inl IndexOutOfRange"
    unfolding f using m1(1) by (simp only: run_table_append go_bind_simps run_table.simps)
qed

text \<open>
  Every movement key of a focused table leaves the cursor inside the window of rows that is drawn,
  between \<open>offset\<close> and \<open>offset + bodyH\<close>.
\<close>

theorem cursor_in_window:
  assumes "table_ok m" and "t_focused m"
    and "k \<in> {''up'', ''k'', ''down'', ''j'', ''pgup'', ''ctrl+u'', ''pgdown'', ''ctrl+d'', ''g'', ''G''}"
  shows "\<exists>m'. Table_Update k m = Inr m' \<and> t_offset m' \<le> t_cursor m' \<and> t_cursor m' < t_offset m' + bodyH m'"
proof -
  have sc: "t_offset (scrollToCursor x) \<le> t_cursor (scrollToCursor x) \<and>
      t_cursor (scrollToCursor x) < t_offset (scrollToCursor x) + bodyH (scrollToCursor x)"
    if "0 \<le> t_cursor x" "0 \<le> t_offset x" for x :: "'a Table"
    using scroll_offset [OF that] by (simp add: bodyH_def)
  have off: "0 \<le> t_offset m" "0 \<le> t_cursor m" using assms(1) by (simp_all add: table_ok_def)
  have mv: "t_offset (moveUp n m) \<le> t_cursor (moveUp n m) \<and> t_cursor (moveUp n m) < t_offset (moveUp n m) + bodyH (moveUp n m)"
    "0 \<le> n \<Longrightarrow> t_offset (moveDown n m) \<le> t_cursor (moveDown n m) \<and> t_cursor (moveDown n m) < t_offset (moveDown n m) + bodyH (moveDown n m)" for n
    unfolding moveUp_def moveDown_def by (intro sc; use off in simp)+
  have g: "0 < bodyH (m\<lparr>t_cursor := 0, t_offset := 0\<rparr>)" by simp
  have "t_offset y \<le> t_cursor y \<and> t_cursor y < t_offset y + bodyH y"
    if "y = scrollToCursor (m\<lparr>t_cursor := max 0 (int (length (t_visible m)) - 1)\<rparr>)" for y
    unfolding that by (rule sc) (use off in simp_all)
  with mv g assms(2,3) show ?thesis
    unfolding insert_iff empty_iff by (elim disjE) (simp_all add: Table_Update_keys)
qed

lemma sample_sort_back:
  "\<exists>m. run_table [Rows [5, 3], Focused True, Key ''s'', Key ''S''] (New_table [sample_column]) = Inr m \<and>
    t_focused m \<and> \<not> t_sortAsc m \<and> t_sortCol m = 0"
  by (simp add: table_step_def SetRows_def New_table_def sample_column_def Focus_table_def Table_Update_keys cycleSort_def
      prev_sort_unfold go_index_def go_rem_def Let_def)

theorem table_panics_only_on_sort_back_witness:
  "(\<exists>m. run_table [Rows [5, 3], Focused True, Key ''s'', Key ''S''] (New_table [sample_column]) = Inr m \<and>
      table_step (Key ''S'') m = Inl IndexOutOfRange \<and> \<not> (\<exists>e. table_step (Key ''s'') m = Inl e)) \<and>
   run_table [Focused True, Key ''S'', Key ''S'', Key ''S'', Key ''S''] (New_table [sample_column]) = Inl IndexOutOfRange"
proof -
  obtain m where m: "run_table [Rows [5, 3], Focused True, Key ''s'', Key ''S''] (New_table [sample_column]) = Inr m"
    "t_focused m" "\<not> t_sortAsc m" "t_sortCol m = 0" using sample_sort_back by blast
  have ord: "\<forall>c \<in> set [sample_column]. strict_weak (col_SortLess c)" by (simp add: nat_less_weak sample_column_def)
  have so: "\<forall>c \<in> set [sample_column]. col_Sortable c" by (simp add: sample_column_def)
  have four: "replicate (2 * length [sample_column] + 2) (Key ''S'') = [Key ''S'', Key ''S'', Key ''S'', Key ''S'' :: nat table_op]"
    by (simp add: numeral_eq_Suc)
  show ?thesis using table_panics_only_on_sort_back [OF ord m(1)] m so unfolding four by auto
qed

theorem cursor_in_window_witness:
  "\<exists>m'. Table_Update ''j'' ((New_table [sample_column])\<lparr>t_focused := True\<rparr>) = Inr m' \<and>
     t_offset m' \<le> t_cursor m' \<and> t_cursor m' < t_offset m' + bodyH m'"
  by (rule cursor_in_window) (simp_all add: table_ok_new)

section \<open>Drawing\<close>

lemma render_cells_ok:
  assumes "\<forall>c \<in> set cs. 0 \<le> col_Width c"
  shows "\<exists>ps. render_cells cs cell i = Inr ps \<and> map (\<lambda>p. int (length p)) ps = map col_Width cs"
  using assms
proof (induction cs arbitrary: i)
  case (Cons c cs)
  then obtain p where "padOrTrunc (cell i c) (col_Width c) (col_Align c) = Inr p" "int (length p) = col_Width c"
    using padOrTrunc_length [of "col_Width c" "cell i c" "col_Align c"] by auto
  moreover obtain ps where "render_cells cs cell (i + 1) = Inr ps" "map (\<lambda>p. int (length p)) ps = map col_Width cs"
    using Cons by force
  ultimately show ?case by simp
qed simp

lemma join_cells_step: "ps \<noteq> [] \<Longrightarrow> length (join_cells (ps @ [p])) = length (join_cells ps) + 1 + length p"
  by (auto simp: join_cells_def)

lemma length_join: "length (join_cells ps) = sum_list (map length ps) + (length ps - 1)"
proof (induction ps rule: rev_induct)
  case (snoc p ps)
  then show ?case
  proof (cases "ps = []")
    case False
    then show ?thesis using snoc join_cells_step [OF False, of p] by (cases ps) simp_all
  qed (simp add: join_cells_def)
qed (simp add: join_cells_def)

text \<open>The width of a drawn line: the column widths and one space between two columns.\<close>

definition line_width :: "'r Table \<Rightarrow> int" where
  "line_width m = sum_list (map col_Width (t_columns m)) + int (length (t_columns m) - 1)"

lemma join_width:
  assumes "map (\<lambda>p. int (length p)) ps = map col_Width (t_columns m)"
  shows "int (length (join_cells ps)) = line_width m"
proof -
  have "length ps = length (t_columns m)" using arg_cong [OF assms, of length] by simp
  moreover have "int (sum_list (map length ps)) = sum_list (map col_Width (t_columns m))"
    by (subst assms [symmetric]) (induction ps, simp_all)
  ultimately show ?thesis by (simp add: length_join line_width_def)
qed

lemma renderRow_ok:
  assumes "\<forall>c \<in> set (t_columns m). 0 \<le> col_Width c"
  shows "\<exists>l. renderRow m r = Inr l \<and> int (length l) = line_width m"
    and "\<exists>l. renderHeader m = Inr l \<and> int (length l) = line_width m"
  unfolding renderRow_def renderHeader_def
  using render_cells_ok [OF assms] by (metis go_bind_simps(2) join_width)+

lemma render_rows_ok:
  assumes "\<forall>c \<in> set (t_columns m). 0 \<le> col_Width c" and "set (t_visible m) \<subseteq> {..<length (t_rows m)}"
    and "set is \<subseteq> {..<length (t_visible m)}"
  shows "\<exists>ls. render_rows m is = Inr ls \<and> length ls = length is \<and> (\<forall>l \<in> set ls. int (length l) = line_width m)"
  using assms(3)
proof (induction "is")
  case (Cons i "is")
  then have i: "i < length (t_visible m)" by simp
  then have "t_visible m ! i < length (t_rows m)" using assms(2) nth_mem by blast
  moreover obtain l where "renderRow m (t_rows m ! (t_visible m ! i)) = Inr l" "int (length l) = line_width m"
    using renderRow_ok(1) [OF assms(1)] by blast
  moreover obtain ls where "render_rows m is = Inr ls" "length ls = length is" "\<forall>l \<in> set ls. int (length l) = line_width m"
    using Cons by auto
  ultimately show ?case using i by simp
qed simp

lemma table_ok_visible: "table_ok m \<Longrightarrow> set (t_visible m) \<subseteq> {..<length (t_rows m)}"
proof -
  assume "table_ok m"
  then have "mset (t_visible m) = mset (filter (\<lambda>i. row_shown m (t_rows m ! i)) [0..<length (t_rows m)])"
    unfolding table_ok_def indexed_def by blast
  then show ?thesis using mset_eq_setD by fastforce
qed

text \<open>
  Drawing a table that is at least 8 columns wide and whose offset lies within the visible rows
  does not panic and yields the header, the separator, exactly \<open>bodyH\<close> body lines and the scroll
  line; the header and every row line are exactly as wide as the columns and their separating spaces.
  The style of a row line is that of its index.
\<close>

theorem View_table_lines:
  assumes "table_ok m" and "8 \<le> t_width m" and "t_offset m \<le> int (length (t_visible m))"
    and "\<forall>c \<in> set (t_columns m). 0 \<le> col_Width c"
  shows "\<exists>hdr sep body blanks ind. View_table m = Inr ([hdr, sep] @ body @ blanks @ [ind]) \<and>
    int (length (body @ blanks)) = bodyH m \<and> (\<forall>l \<in> set (hdr # body). int (length (snd l)) = line_width m) \<and>
    int (length body) = min (bodyH m) (int (length (t_visible m)) - t_offset m) \<and>
    map fst body = map (row_style m) [nat (t_offset m)..<nat (t_offset m) + length body]"
proof -
  let ?n = "int (length (t_visible m))" and ?s = "t_offset m"
  define e where "e = min ?n (?s + bodyH m)"
  have s: "0 \<le> ?s" "?s \<le> e" "e \<le> ?n" using assms(1,3) bodyH_pos [of m] by (auto simp: table_ok_def e_def)
  obtain hdr where hdr: "renderHeader m = Inr hdr" "int (length hdr) = line_width m"
    using renderRow_ok(2) [OF assms(4)] by blast
  have "set [nat ?s..<nat e] \<subseteq> {..<length (t_visible m)}" using s by auto
  then obtain body where body: "render_rows m [nat ?s..<nat e] = Inr body"
    "length body = nat e - nat ?s" "\<forall>l \<in> set body. int (length l) = line_width m"
    using render_rows_ok [OF assms(4) table_ok_visible [OF assms(1)]] by (metis length_upt)
  obtain ind where ind: "view_indicator m = Inr ind"
  proof -
    have "\<exists>r. Repeat_runes [9472] (t_width m - 8) = Inr r" using assms(2) by (simp add: Repeat_runes_def)
    then have "\<exists>ind. view_indicator m = Inr ind" by (auto simp: view_indicator_def Let_def)
    then show ?thesis using that by blast
  qed
  have win: "view_window m = (?s, e)" by (auto simp: view_window_def e_def Let_def)
  let ?body = "zip (map (row_style m) [nat ?s..<nat e]) body"
  have view: "View_table m = Inr ([(TableHeader, hdr), (Separator, concat (replicate (nat (t_width m)) [9472]))] @ ?body @
      replicate (nat (bodyH m - (e - ?s))) (Unstyled, concat (replicate (nat (t_width m)) (runes_of '' ''))) @
      [(if ind = [] then Unstyled else TableDim, ind)])"
    using assms(2) s hdr(1) body(1) ind by (simp add: View_table_def win Repeat_runes_def)
  have len: "int (length ?body) = e - ?s" using body(2) s by simp
  have "nat ?s + length ?body = nat e" using body(2) s by simp
  then have "map fst ?body = map (row_style m) [nat ?s..<nat ?s + length ?body]" using body(2) by simp
  moreover have "\<forall>l \<in> set ((TableHeader, hdr) # ?body). int (length (snd l)) = line_width m"
    using body(3) hdr(2) by (auto dest: set_zip_rightD)
  moreover have "e - ?s = min (bodyH m) (?n - ?s)" by (simp add: e_def)
  moreover have "int (length (?body @ replicate (nat (bodyH m - (e - ?s))) (Unstyled, b))) = bodyH m" for b :: runes
    using len calculation(3) by (simp del: length_zip)
  ultimately show ?thesis using view unfolding len [symmetric] by blast
qed

theorem View_table_lines_witness:
  "\<exists>hdr sep body blanks ind. View_table ((New_table [sample_column])\<lparr>t_width := 8, t_height := 5\<rparr>) =
      Inr ([hdr, sep] @ body @ blanks @ [ind]) \<and> int (length (body @ blanks)) = 3"
proof -
  let ?m = "(New_table [sample_column])\<lparr>t_width := 8, t_height := 5\<rparr>"
  have "bodyH ?m = 3" by (simp add: bodyH_def)
  moreover have "t_offset ?m \<le> int (length (t_visible ?m))" "\<forall>c \<in> set (t_columns ?m). 0 \<le> col_Width c"
    by (simp_all add: New_table_def sample_column_def)
  moreover have "table_ok ?m" "8 \<le> t_width ?m" by (simp_all add: table_ok_new)
  ultimately show ?thesis using View_table_lines [of ?m] by metis
qed

text \<open>Below that width an overflowing table panics on the negative repeat count.\<close>

lemma View_table_narrow_panics:
  assumes "t_width m < 8" and "bodyH m < int (length (t_visible m))"
  shows "view_indicator m = Inl NegativeRepeat"
  using assms by (simp add: view_indicator_def Repeat_runes_def Let_def)

end
