(* ===== verification/Sparkline.thy ===== *)
theory Sparkline
  imports RingBuffer GoFloat TableWidget
begin

text \<open>
  The sparkline widget (internal/tui/widgets/sparkline/sparkline.go): a circular buffer of samples
  with its rolling maximum, and the bar graph drawn from it. The widget uses the same circular
  array as \<^verbatim>\<open>timeseries.Buffer\<close>; it implements the interface \<open>bounded_log\<close> again. The
  formatting of the number and the styling are not modelled: a drawn line is its four parts.
\<close>

section \<open>The widget\<close>

record Sparkline =
  sp_ring :: "rat buffer"         \<comment> \<open>data, head, size and cap\<close>
  sp_peak :: rat
  sp_label :: string
  sp_unit :: string
  sp_width :: int

definition defaultCap :: int where "defaultCap = 120"

definition New_sparkline :: "string \<Rightarrow> string \<Rightarrow> int \<Rightarrow> Sparkline go" where
  "New_sparkline label unit width =
     (let cap = (if defaultCap < width then width else defaultCap) in
      go_bind (NewBuffer 0 cap) (\<lambda>r.
        Inr \<lparr>sp_ring = r, sp_peak = 0, sp_label = label, sp_unit = unit, sp_width = width\<rparr>))"

text \<open>The zero value of the struct: no array behind it.\<close>

definition zero_sparkline :: Sparkline where
  "zero_sparkline = \<lparr>sp_ring = \<lparr>b_data = [], b_head = 0, b_size = 0, b_cap = 0\<rparr>, sp_peak = 0,
     sp_label = [], sp_unit = [], sp_width = 0\<rparr>"

definition sp_values :: "Sparkline \<Rightarrow> rat list go" where
  "sp_values m = Buffer_Snapshot (sp_ring m)"

definition peak_of :: "rat list \<Rightarrow> rat" where
  "peak_of vs = foldl (\<lambda>peak d. if peak < d then d else peak) 0 vs"

definition sp_Push :: "Sparkline \<Rightarrow> rat \<Rightarrow> Sparkline go" where
  "sp_Push m v =
     go_bind (Buffer_Push (sp_ring m) v) (\<lambda>r.
     go_bind (sp_values (m\<lparr>sp_ring := r\<rparr>)) (\<lambda>vs.
       Inr (m\<lparr>sp_ring := r, sp_peak := peak_of vs\<rparr>)))"

definition Latest :: "Sparkline \<Rightarrow> rat go" where
  "Latest m =
     (let r = sp_ring m in
      if b_size r = 0 then Inr 0
      else go_bind (go_rem (b_head r - 1 + b_cap r) (b_cap r)) (\<lambda>idx. go_index (b_data r) idx))"

definition sp_SetWidth :: "int \<Rightarrow> Sparkline \<Rightarrow> Sparkline" where
  "sp_SetWidth w m = m\<lparr>sp_width := w\<rparr>"

section \<open>Drawing\<close>

text \<open>The eight block characters, shortest first.\<close>

definition bars :: runes where "bars = [9601, 9602, 9603, 9604, 9605, 9606, 9607, 9608]"

definition bar_index :: "rat \<Rightarrow> rat \<Rightarrow> int" where
  "bar_index peak v =
     (let idx = trunc_float (fmul (fdiv v peak) (float_of_int (int (length bars) - 1)));
          idx1 = (if idx < 0 then 0 else idx)
      in if int (length bars) \<le> idx1 then int (length bars) - 1 else idx1)"

definition graph_width :: "Sparkline \<Rightarrow> int" where
  "graph_width m = (let graphW = sp_width m - (17 + int (length (sp_unit m))) in if graphW < 4 then 4 else graphW)"

fun draw_bars :: "rat \<Rightarrow> rat list \<Rightarrow> runes go" where
  "draw_bars peak [] = Inr []"
| "draw_bars peak (v # vs) =
     go_bind (go_index bars (bar_index peak v)) (\<lambda>b. go_bind (draw_bars peak vs) (\<lambda>bs. Inr (b # bs)))"

definition View_sparkline :: "Sparkline \<Rightarrow> (string \<times> runes \<times> rat \<times> string) go" where
  "View_sparkline m =
     go_bind (sp_values m) (\<lambda>all.
     let graphW = graph_width m;
         peak = (if sp_peak m = 0 then 1 else sp_peak m)
     in go_bind (if graphW < int (length all) then go_slice all (int (length all) - graphW) (int (length all)) else Inr all) (\<lambda>vals.
        go_bind (draw_bars peak vals) (\<lambda>spark.
        let padCount = graphW - int (length vals) in
        go_bind (if 0 < padCount then Repeat_runes (runes_of '' '') padCount else Inr []) (\<lambda>pad.
        go_bind (Latest m) (\<lambda>latest.
          Inr (sp_label m, spark @ pad, latest, sp_unit m))))))"

section \<open>The widget keeps the last samples\<close>

definition sparkline_ok :: "Sparkline \<Rightarrow> bool" where
  "sparkline_ok m \<longleftrightarrow> buffer_ok (sp_ring m) \<and> sp_peak m = peak_of (buffer_list (sp_ring m))"

definition sp_contents :: "Sparkline \<Rightarrow> rat list" where
  "sp_contents m = buffer_list (sp_ring m)"

lemma sp_values_ok: "sparkline_ok m \<Longrightarrow> sp_values m = Inr (sp_contents m)"
  by (simp add: sp_values_def sparkline_ok_def sp_contents_def buffer_snapshot_ok)

lemma New_sparkline_ok:
  "\<exists>m. New_sparkline label unit width = Inr m \<and> sparkline_ok m \<and> sp_contents m = [] \<and>
     sp_label m = label \<and> sp_unit m = unit \<and> sp_width m = width \<and> b_cap (sp_ring m) = max 120 width"
proof -
  define cap where "cap = (if defaultCap < width then width else defaultCap)"
  have cap: "0 < cap" "cap = max 120 width" by (auto simp: cap_def defaultCap_def)
  then obtain r :: "rat buffer" where r: "NewBuffer 0 cap = Inr r" "b_cap r = cap" by (auto simp: NewBuffer_def)
  have "buffer_ok r \<and> buffer_list r = []" by (rule buffer_ok_new [OF cap(1) r(1)])
  with r cap show ?thesis
    by (intro exI [of _ "\<lparr>sp_ring = r, sp_peak = 0, sp_label = label, sp_unit = unit, sp_width = width\<rparr>"])
       (simp add: New_sparkline_def cap_def [symmetric] sparkline_ok_def sp_contents_def peak_of_def)
qed

lemma sp_Push_ok:
  assumes "sparkline_ok m"
  shows "\<exists>m'. sp_Push m v = Inr m' \<and> sparkline_ok m' \<and> b_cap (sp_ring m') = b_cap (sp_ring m) \<and>
     sp_contents m' = take_last (nat (b_cap (sp_ring m))) (sp_contents m @ [v]) \<and>
     sp_label m' = sp_label m \<and> sp_unit m' = sp_unit m \<and> sp_width m' = sp_width m"
proof -
  have "buffer_ok (sp_ring m)" using assms by (simp add: sparkline_ok_def)
  then obtain r where r: "Buffer_Push (sp_ring m) v = Inr r" "buffer_ok r" "b_cap r = b_cap (sp_ring m)"
    "buffer_list r = take_last (nat (b_cap (sp_ring m))) (buffer_list (sp_ring m) @ [v])"
    using buffer_push_ok [of "sp_ring m" v] by blast
  then show ?thesis
    by (simp add: sp_Push_def sp_values_def buffer_snapshot_ok sparkline_ok_def sp_contents_def)
qed

interpretation spark: bounded_log sp_Push sp_contents "\<lambda>m. nat (b_cap (sp_ring m))" sparkline_ok
proof unfold_locales
  fix m v
  assume "sparkline_ok m"
  then show "\<exists>m'. sp_Push m v = Inr m' \<and> sparkline_ok m' \<and> nat (b_cap (sp_ring m')) = nat (b_cap (sp_ring m)) \<and>
      sp_contents m' = take_last (nat (b_cap (sp_ring m))) (sp_contents m @ [v])"
    using sp_Push_ok [of m v] by auto
next
  fix m
  assume "sparkline_ok m"
  then show "length (sp_contents m) \<le> nat (b_cap (sp_ring m))"
    by (auto simp: sparkline_ok_def sp_contents_def buffer_ok_def buffer_list_def)
qed

text \<open>Pushing onto the zero value panics: its array is empty.\<close>

lemma zero_sparkline_panics: "sp_Push zero_sparkline v = Inl IndexOutOfRange"
  by (simp add: sp_Push_def zero_sparkline_def Buffer_Push_def go_set_def)

text \<open>The zero value can be drawn, though.\<close>

lemma zero_sparkline_draws: "\<exists>g. View_sparkline zero_sparkline = Inr ([], g, 0, []) \<and> length g = 4"
  by (simp add: View_sparkline_def zero_sparkline_def sp_values_def Buffer_Snapshot_def graph_width_def Let_def
      Repeat_runes_def runes_of_def Latest_def numeral_eq_Suc)

lemma ring_list_last: "0 < n \<Longrightarrow> n \<le> length d \<Longrightarrow> h < length d \<Longrightarrow>
    last (ring_list d h n) = d ! ((h + (length d - 1)) mod length d)"
proof -
  assume a: "0 < n" "n \<le> length d" "h < length d"
  have "last (ring_list d h n) = ring_list d h n ! (n - 1)"
    using a by (subst last_conv_nth) (auto simp: ring_list_def)
  also have "\<dots> = d ! ((h + (length d - n) + (n - 1)) mod length d)"
    using a by (simp add: ring_list_def)
  also have "h + (length d - n) + (n - 1) = h + (length d - 1)" using a by simp
  finally show ?thesis .
qed

lemma Latest_ok:
  assumes "sparkline_ok m"
  shows "Latest m = Inr (if sp_contents m = [] then 0 else last (sp_contents m))"
proof (cases "b_size (sp_ring m) = 0")
  case True
  then show ?thesis by (simp add: Latest_def sp_contents_def buffer_list_def ring_list_def Let_def)
next
  case False
  let ?r = "sp_ring m"
  have ok: "buffer_ok ?r" using assms by (simp add: sparkline_ok_def)
  then have L: "b_cap ?r = int (length (b_data ?r))" "0 < length (b_data ?r)" by (auto simp: buffer_ok_def)
  have "b_head ?r - 1 + b_cap ?r = int (nat (b_head ?r) + (length (b_data ?r) - 1))"
    using ok L by (auto simp: buffer_ok_def)
  then have idx: "nat ((b_head ?r - 1 + b_cap ?r) mod b_cap ?r) = (nat (b_head ?r) + (length (b_data ?r) - 1)) mod length (b_data ?r)"
    using L by (metis nat_int zmod_int)
  have "Latest m = Inr (b_data ?r ! nat ((b_head ?r - 1 + b_cap ?r) mod b_cap ?r))"
    using False ok by (simp add: Latest_def Let_def buffer_ok_def)
  moreover have "sp_contents m \<noteq> []" "last (sp_contents m) = b_data ?r ! ((nat (b_head ?r) + (length (b_data ?r) - 1)) mod length (b_data ?r))"
    using False ok ring_list_last [of "nat (b_size ?r)" "b_data ?r" "nat (b_head ?r)"]
    by (auto simp: sp_contents_def buffer_list_def buffer_ok_def ring_list_def)
  ultimately show ?thesis using idx by simp
qed

section \<open>The bars\<close>

lemma peak_of_upper:
  "peak0 \<le> foldl (\<lambda>peak d. if peak < d then d else peak) peak0 vs \<and>
   (\<forall>v \<in> set vs. v \<le> foldl (\<lambda>peak d. if peak < d then d else peak) peak0 (vs :: rat list)) \<and>
   foldl (\<lambda>peak d. if peak < d then d else peak) peak0 vs \<in> insert peak0 (set vs)"
proof (induction vs arbitrary: peak0)
  case (Cons v vs)
  from Cons [of "if peak0 < v then v else peak0"] show ?case by (auto split: if_splits)
qed simp

lemma peak_of_max: "0 \<le> peak_of vs" "v \<in> set vs \<Longrightarrow> v \<le> peak_of vs" "peak_of vs \<noteq> 0 \<Longrightarrow> peak_of vs \<in> set vs"
  using peak_of_upper [of 0 vs] by (auto simp: peak_of_def)

lemma bar_index_range: "0 \<le> bar_index peak v" "bar_index peak v < int (length bars)"
  by (simp_all add: bar_index_def Let_def bars_def)

lemma float_of_7: "float_of_int 7 = 7"
  using f64_int [of 7] by (simp add: float_of_int_def)

lemma length_bars: "int (length bars) = 8"
  by (simp add: bars_def)

lemma trunc_float_mono: "x \<le> y \<Longrightarrow> trunc_float x \<le> trunc_float y"
proof (cases "0 \<le> x \<or> y < 0")
  case False
  then have "\<lceil>x\<rceil> \<le> 0" "0 \<le> \<lfloor>y\<rfloor>" by (simp_all add: ceiling_le_iff)
  then have "\<lceil>x\<rceil> \<le> \<lfloor>y\<rfloor>" by (rule order_trans)
  with False show ?thesis by (simp add: trunc_float_def)
qed (auto simp: trunc_float_def floor_mono ceiling_mono)

lemma bar_index_mono: "0 < peak \<Longrightarrow> a \<le> b \<Longrightarrow> bar_index peak a \<le> bar_index peak b"
proof -
  assume a: "0 < peak" "a \<le> b"
  then have "fdiv a peak \<le> fdiv b peak" unfolding fdiv_def by (intro f64_mono divide_right_mono) auto
  then have "fmul (fdiv a peak) 7 \<le> fmul (fdiv b peak) 7" unfolding fmul_def by (intro f64_mono) auto
  then have "trunc_float (fmul (fdiv a peak) 7) \<le> trunc_float (fmul (fdiv b peak) 7)" by (rule trunc_float_mono)
  then show ?thesis by (auto simp: bar_index_def Let_def length_bars float_of_7)
qed

lemma bar_index_peak: "0 < peak \<Longrightarrow> bar_index peak peak = 7"
  using f64_int [of 7] f64_int [of 1]
  by (simp add: bar_index_def Let_def length_bars float_of_7 fdiv_def fmul_def trunc_float_def)

lemma draw_bars_ok: "draw_bars peak vs = Inr (map (\<lambda>v. bars ! nat (bar_index peak v)) vs)"
  by (induction vs) (simp_all add: bar_index_range)

text \<open>The idiom \<^verbatim>\<open>if len(xs) > n { xs = xs[len(xs)-n:] }\<close> keeps the last elements.\<close>

lemma slice_suffix:
  "(if int n < int (length xs) then go_slice xs (int (length xs) - int n) (int (length xs)) else Inr xs) = Inr (take_last n xs)"
proof (cases "n < length xs")
  case True
  then have "nat (int (length xs) - int n) = length xs - n" by simp
  with True show ?thesis by (simp add: go_slice_def take_last_def del: nat_diff_distrib)
qed simp

text \<open>
  C23: A sparkline refines the list of the samples pushed: after any pushes onto a new widget the
  stored values are the last ones that fit, the peak is their maximum (or 0), the latest value is the
  last one pushed, and the drawn graph has exactly the width left for it and shows one bar per visible
  sample, taller for greater samples and full for the peak.
\<close>

theorem sparkline_shows_last:
  "\<exists>m0 m vals. New_sparkline label unit width = Inr m0 \<and> spark.push_all m0 xs = Inr m \<and>
     sp_values m = Inr (take_last (nat (max 120 width)) xs) \<and>
     sp_peak m = peak_of (take_last (nat (max 120 width)) xs) \<and>
     vals = take_last (nat (max 4 (width - 17 - int (length unit)))) (take_last (nat (max 120 width)) xs) \<and>
     View_sparkline m = Inr (label,
        map (\<lambda>v. bars ! nat (bar_index (if sp_peak m = 0 then 1 else sp_peak m) v)) vals @
          replicate (nat (max 4 (width - 17 - int (length unit))) - length vals) 32,
        if xs = [] then 0 else last xs, unit) \<and>
     (\<forall>a b. a \<le> b \<longrightarrow> bar_index (if sp_peak m = 0 then 1 else sp_peak m) a \<le> bar_index (if sp_peak m = 0 then 1 else sp_peak m) b) \<and>
     (sp_peak m \<noteq> 0 \<longrightarrow> sp_peak m \<in> set (take_last (nat (max 120 width)) xs) \<and> bar_index (sp_peak m) (sp_peak m) = 7)"
proof -
  let ?cap = "nat (max 120 width)" and ?g = "nat (max 4 (width - 17 - int (length unit)))"
  obtain m0 where m0: "New_sparkline label unit width = Inr m0" "sparkline_ok m0" "sp_contents m0 = []"
    "b_cap (sp_ring m0) = max 120 width" "sp_label m0 = label" "sp_unit m0 = unit" "sp_width m0 = width"
    using New_sparkline_ok [of label unit width] by blast
  have fields: "spark.push_all m ys = Inr m' \<Longrightarrow> sparkline_ok m \<Longrightarrow> sp_label m' = sp_label m \<and> sp_unit m' = sp_unit m \<and> sp_width m' = sp_width m" for m m' ys
  proof (induction ys arbitrary: m)
    case (Cons y ys)
    from sp_Push_ok [OF Cons.prems(2), of y] Cons show ?case by fastforce
  qed simp
  obtain m where m: "spark.push_all m0 xs = Inr m" "sparkline_ok m" "sp_contents m = take_last ?cap xs"
    using spark.push_all_contents [OF m0(2), of xs] m0(3,4) by auto
  define vals where "vals = take_last ?g (take_last ?cap xs)"
  have gw: "graph_width m = int ?g" using fields [OF m(1) m0(2)] m0 by (simp add: graph_width_def Let_def)
  have sl: "(if graph_width m < int (length (sp_contents m))
      then go_slice (sp_contents m) (int (length (sp_contents m)) - graph_width m) (int (length (sp_contents m))) else Inr (sp_contents m)) = Inr vals"
    unfolding gw vals_def m(3) [symmetric] by (rule slice_suffix)
  have pad: "(if 0 < graph_width m - int (length vals) then Repeat_runes (runes_of '' '') (graph_width m - int (length vals)) else Inr []) =
      Inr (replicate (?g - length vals) 32)"
  proof -
    have "concat (replicate n (runes_of '' '')) = replicate n 32" for n by (induction n) (simp_all add: runes_of_def)
    then show ?thesis by (auto simp: gw Repeat_runes_def nat_diff_distrib)
  qed
  have lat: "Latest m = Inr (if xs = [] then 0 else last xs)"
  proof (cases "xs = []")
    case False
    have "0 < ?cap" by simp
    with False have "length xs - ?cap < length xs" by (intro diff_less) auto
    then have "take_last ?cap xs \<noteq> []" "last (take_last ?cap xs) = last xs" by (simp_all add: take_last_def)
    then show ?thesis using Latest_ok [OF m(2)] False m(3) by simp
  qed (use Latest_ok [OF m(2)] in \<open>simp add: m(3) take_last_def\<close>)
  let ?pk = "if sp_peak m = 0 then 1 else sp_peak m"
  have view: "View_sparkline m = Inr (label, map (\<lambda>v. bars ! nat (bar_index ?pk v)) vals @ replicate (?g - length vals) 32,
      if xs = [] then 0 else last xs, unit)"
    using sl pad fields [OF m(1) m0(2)] m0(5,6)
    by (simp add: View_sparkline_def sp_values_ok [OF m(2)] draw_bars_ok lat Let_def)
  have peak: "sp_peak m = peak_of (take_last ?cap xs)"
    using m(2,3) by (simp add: sparkline_ok_def sp_contents_def)
  have pos: "0 < ?pk" using peak peak_of_max(1) [of "take_last ?cap xs"] by (simp add: order_less_le)
  have mono: "\<forall>a b. a \<le> b \<longrightarrow> bar_index ?pk a \<le> bar_index ?pk b" using bar_index_mono [OF pos] by blast
  have top: "sp_peak m \<noteq> 0 \<longrightarrow> sp_peak m \<in> set (take_last ?cap xs) \<and> bar_index (sp_peak m) (sp_peak m) = 7"
    using peak_of_max(3) [of "take_last ?cap xs"] bar_index_peak [OF pos] peak by auto
  show ?thesis
    by (rule exI [of _ m0], rule exI [of _ m], rule exI [of _ vals])
       (intro conjI m0(1) m(1) view peak mono top vals_def sp_values_ok [OF m(2), unfolded m(3)])
qed

theorem sparkline_shows_last_witness:
  "\<exists>m0 m g. New_sparkline ''CPU'' ''s'' 30 = Inr m0 \<and> spark.push_all m0 [1, 4, 2] = Inr m \<and>
     sp_values m = Inr [1, 4, 2] \<and> sp_peak m = 4 \<and> View_sparkline m = Inr (''CPU'', g, 2, ''s'') \<and> bar_index 4 4 = 7"
proof -
  have "peak_of [1, 4, 2] = 4" by (simp add: peak_of_def)
  then show ?thesis using sparkline_shows_last [of "''CPU''" "''s''" 30 "[1, 4, 2]"] by (auto simp: take_last_def)
qed

end
