(* ===== verification/TuiMsg.thy ===== *)
theory TuiMsg
  imports Sparkline Percentile NetSyscall ProcessGraph
begin

text \<open>
  The vocabulary of the terminal UI: the data batch and the messages of its event loop
  (internal/tui/msg/msg.go), the search bar (internal/tui/widgets/searchbar/searchbar.go) and the
  text helpers that the views share. The text-input and viewport widgets of the bubbles library are
  records of functions with an abstract state; what the views rely on is stated as \<open>textinput_laws\<close>.
\<close>

section \<open>Formatting\<close>

definition show_int :: "int \<Rightarrow> string" where
  "show_int n = (if n < 0 then ''-'' @ show_nat (nat (- n)) else show_nat (nat n))"

text \<open>\<^verbatim>\<open>%.kf\<close>: the decimal nearest to the value, ties to even.\<close>

definition show_fixed :: "nat \<Rightarrow> rat \<Rightarrow> string" where
  "show_fixed k x =
     (let n = nat (rne (\<bar>x\<bar> * 10 ^ k)); s = show_nat n; s' = replicate (Suc k - length s) CHR ''0'' @ s
      in (if x < 0 then ''-'' else []) @ take (length s' - k) s' @ (if k = 0 then [] else CHR ''.'' # drop (length s' - k) s'))"

text \<open>The name shortener of the views: known prefixes are cut, long names end in an ellipsis.\<close>

definition name_prefixes :: "string list" where
  "name_prefixes = [''docker:'', ''cri:'', ''systemd:'', ''cgroup:'', ''host:'']"

definition trunc :: "string \<Rightarrow> nat \<Rightarrow> runes" where
  "trunc s n =
     (let r = runes_of (foldl TrimPrefix s name_prefixes)
      in if length r \<le> n then r else take (n - 1) r @ [ellipsis])"

lemma trunc_fits: "0 < n \<Longrightarrow> length (trunc s n) \<le> n"
  by (auto simp: trunc_def Let_def)

section \<open>Batches\<close>

datatype EventKind = EventKindInfo | EventKindTCP | EventKindError | EventKindOOM | EventKindSlowSys | EventKindSecurity

record TuiEvent =
  e_At :: time
  e_Kind :: EventKind
  e_Container :: string
  e_Message :: string
  e_Envelope :: "EventEnvelope option"
  e_Count :: int

record DataBatch =
  db_Timestamp :: time
  db_CPU :: "CpuSample list"
  db_Mem :: "MemSample list"
  db_IO :: "IoSample list"
  db_Net :: "NetSummary list"
  db_Sys :: "SyscallSummary list"
  db_Events :: "TuiEvent list"
  db_Graph :: "Snapshot option"
  db_Percentiles :: "(string, WindowSnapshots) gomap"

definition empty_batch :: "time \<Rightarrow> DataBatch" where
  "empty_batch t = \<lparr>db_Timestamp = t, db_CPU = [], db_Mem = [], db_IO = [], db_Net = [], db_Sys = [],
     db_Events = [], db_Graph = None, db_Percentiles = []\<rparr>"

text \<open>Reading a missing key of the percentile map gives the zero value.\<close>

definition window60 :: "DataBatch \<Rightarrow> string \<Rightarrow> PSnapshot" where
  "window60 b key = (case map_of (db_Percentiles b) key of None \<Rightarrow> zero_psnapshot | Some w \<Rightarrow> W60s w)"

section \<open>Messages\<close>

datatype tea_msg =
    WindowSizeMsg int int
  | RenderTickMsg
  | DataMsg DataBatch
  | NavDetailMsg string
  | NavBackMsg
  | ThemeChangedMsg string
  | KeyMsg string
  | OtherMsg nat            \<comment> \<open>mouse input and messages of library widgets\<close>

section \<open>Library widgets\<close>

record 'ti textinput =
  ti_New :: "int \<Rightarrow> 'ti"
  ti_Update :: "tea_msg \<Rightarrow> 'ti \<Rightarrow> 'ti"
  ti_Value :: "'ti \<Rightarrow> string"
  ti_Reset :: "'ti \<Rightarrow> 'ti"
  ti_Focus :: "'ti \<Rightarrow> 'ti"
  ti_Blur :: "'ti \<Rightarrow> 'ti"

text \<open>
  Documented behaviour of the text input: a new or reset input is empty, and moving the focus does not
  change the text.
\<close>

definition textinput_laws :: "'ti textinput \<Rightarrow> bool" where
  "textinput_laws T \<longleftrightarrow> (\<forall>n. ti_Value T (ti_New T n) = []) \<and> (\<forall>x. ti_Value T (ti_Reset T x) = []) \<and>
     (\<forall>x. ti_Value T (ti_Focus T x) = ti_Value T x) \<and> (\<forall>x. ti_Value T (ti_Blur T x) = ti_Value T x)"

text \<open>An executable text input: appends one-letter keys and deletes with backspace, while it has the focus.\<close>

definition line_input :: "(string \<times> bool) textinput" where
  "line_input = \<lparr>ti_New = \<lambda>_. ([], False),
     ti_Update = (\<lambda>m (s, f). (case m of KeyMsg k \<Rightarrow> (if \<not> f then s else if k = ''backspace'' then butlast s else if length k = 1 then s @ k else s) | _ \<Rightarrow> s, f)),
     ti_Value = fst, ti_Reset = (\<lambda>(s, f). ([], f)), ti_Focus = (\<lambda>(s, f). (s, True)), ti_Blur = (\<lambda>(s, f). (s, False))\<rparr>"

lemma line_input_laws: "textinput_laws line_input"
  by (auto simp: textinput_laws_def line_input_def)

record 'vp viewport =
  vp_New :: "int \<Rightarrow> int \<Rightarrow> 'vp"
  vp_SetSize :: "int \<Rightarrow> int \<Rightarrow> 'vp \<Rightarrow> 'vp"
  vp_SetContent :: "runes list \<Rightarrow> 'vp \<Rightarrow> 'vp"
  vp_GotoTop :: "'vp \<Rightarrow> 'vp"
  vp_GotoBottom :: "'vp \<Rightarrow> 'vp"
  vp_LineUp :: "int \<Rightarrow> 'vp \<Rightarrow> 'vp"
  vp_LineDown :: "int \<Rightarrow> 'vp \<Rightarrow> 'vp"
  vp_HalfViewUp :: "'vp \<Rightarrow> 'vp"
  vp_HalfViewDown :: "'vp \<Rightarrow> 'vp"
  vp_Update :: "tea_msg \<Rightarrow> 'vp \<Rightarrow> 'vp"
  vp_View :: "'vp \<Rightarrow> runes list"

text \<open>An executable viewport: the content, the first visible line and the height.\<close>

definition text_viewport :: "(runes list \<times> nat \<times> nat) viewport" where
  "text_viewport =
     (let lim = (\<lambda>(ls, i, h). (ls, min i (length ls - h), h)) in
      \<lparr>vp_New = \<lambda>w h. ([], 0, nat h), vp_SetSize = (\<lambda>w h (ls, i, _). lim (ls, i, nat h)), vp_SetContent = (\<lambda>c (ls, i, h). lim (c, i, h)),
       vp_GotoTop = (\<lambda>(ls, i, h). (ls, 0, h)), vp_GotoBottom = (\<lambda>(ls, i, h). (ls, length ls - h, h)),
       vp_LineUp = (\<lambda>n (ls, i, h). (ls, i - nat n, h)), vp_LineDown = (\<lambda>n (ls, i, h). lim (ls, i + nat n, h)),
       vp_HalfViewUp = (\<lambda>(ls, i, h). (ls, i - h div 2, h)), vp_HalfViewDown = (\<lambda>(ls, i, h). lim (ls, i + h div 2, h)),
       vp_Update = (\<lambda>_ s. s), vp_View = (\<lambda>(ls, i, h). take h (drop i ls))\<rparr>)"

section \<open>The search bar\<close>

record 'ti Searchbar =
  sb_input :: 'ti
  sb_visible :: bool

definition New_searchbar :: "'ti textinput \<Rightarrow> 'ti Searchbar" where
  "New_searchbar T = \<lparr>sb_input = ti_New T 64, sb_visible = False\<rparr>"

definition sb_Show :: "'ti textinput \<Rightarrow> 'ti Searchbar \<Rightarrow> 'ti Searchbar" where
  "sb_Show T m = m\<lparr>sb_visible := True, sb_input := ti_Focus T (sb_input m)\<rparr>"

definition sb_Hide :: "'ti textinput \<Rightarrow> 'ti Searchbar \<Rightarrow> 'ti Searchbar" where
  "sb_Hide T m = m\<lparr>sb_visible := False, sb_input := ti_Blur T (sb_input m)\<rparr>"

definition sb_Reset :: "'ti textinput \<Rightarrow> 'ti Searchbar \<Rightarrow> 'ti Searchbar" where
  "sb_Reset T m = m\<lparr>sb_input := ti_Reset T (sb_input m)\<rparr>"

definition sb_Value :: "'ti textinput \<Rightarrow> 'ti Searchbar \<Rightarrow> string" where
  "sb_Value T m = ti_Value T (sb_input m)"

definition sb_Update :: "'ti textinput \<Rightarrow> tea_msg \<Rightarrow> 'ti Searchbar \<Rightarrow> 'ti Searchbar" where
  "sb_Update T msg m = (if sb_visible m then m\<lparr>sb_input := ti_Update T msg (sb_input m)\<rparr> else m)"

text \<open>The line drawn for an open search bar: its text and its width.\<close>

definition sb_View :: "'ti textinput \<Rightarrow> int \<Rightarrow> 'ti Searchbar \<Rightarrow> (string \<times> int) option" where
  "sb_View T width m = (if sb_visible m then Some (sb_Value T m, width - 5) else None)"

lemma sb_fields [simp]:
  "sb_visible (sb_Show T m) = True" "sb_visible (sb_Hide T m) = False" "sb_visible (sb_Reset T m) = sb_visible m"
  "sb_visible (sb_Update T msg m) = sb_visible m" "sb_visible (New_searchbar T) = False"
  by (simp_all add: sb_Show_def sb_Hide_def sb_Reset_def sb_Update_def New_searchbar_def)

lemma sb_values:
  assumes "textinput_laws T"
  shows "sb_Value T (sb_Show T m) = sb_Value T m" "sb_Value T (sb_Hide T m) = sb_Value T m"
    "sb_Value T (sb_Reset T m) = []" "sb_Value T (New_searchbar T) = []"
  using assms by (simp_all add: textinput_laws_def sb_Value_def sb_Show_def sb_Hide_def sb_Reset_def New_searchbar_def)

end
