(* ===== verification/TuiChrome.thy ===== *)
theory TuiChrome
  imports TuiMsg
begin

text \<open>
  The parts of the terminal UI around the views: the layout arithmetic (internal/tui/layout), the
  configuration file (internal/tui/config), the theme registry (internal/tui/theme), the tab bar, the
  modal, the status bar and the command palette (internal/tui/widgets), and the focus ring
  (internal/tui/app/focus.go). Colours are data; the styling functions of the lipgloss library are
  arguments where a width depends on them.
\<close>

section \<open>Layout\<close>

record Layout =
  lo_TermW :: int
  lo_TermH :: int
  lo_HasSidebar :: bool
  lo_SidebarW :: int

definition New_layout :: "int \<Rightarrow> int \<Rightarrow> Layout" where
  "New_layout w h = \<lparr>lo_TermW = w, lo_TermH = h, lo_HasSidebar = False, lo_SidebarW = 30\<rparr>"

definition HeaderH :: "Layout \<Rightarrow> int" where "HeaderH l = 1"
definition TabBarH :: "Layout \<Rightarrow> int" where "TabBarH l = 1"
definition StatusBarH :: "Layout \<Rightarrow> int" where "StatusBarH l = 1"
definition FooterH :: "Layout \<Rightarrow> int" where "FooterH l = 1"

definition ChromeH :: "Layout \<Rightarrow> int" where
  "ChromeH l = HeaderH l + TabBarH l + StatusBarH l + FooterH l"

definition BodyH :: "Layout \<Rightarrow> int" where
  "BodyH l = (let h = lo_TermH l - ChromeH l in if h < 4 then 4 else h)"

definition ContentW :: "Layout \<Rightarrow> int" where
  "ContentW l = (let w = (if lo_HasSidebar l then lo_TermW l - (lo_SidebarW l + 1) else lo_TermW l) in if w < 20 then 20 else w)"

definition ContentRegion :: "Layout \<Rightarrow> int \<times> int \<times> int \<times> int" where
  "ContentRegion l = (0, HeaderH l + TabBarH l, ContentW l, BodyH l)"

definition SidebarRegion :: "Layout \<Rightarrow> int \<times> int \<times> int \<times> int" where
  "SidebarRegion l = (ContentW l + 1, HeaderH l + TabBarH l, lo_SidebarW l, BodyH l)"

definition SplitVertical :: "Layout \<Rightarrow> rat \<Rightarrow> int \<times> int" where
  "SplitVertical l ratio =
     (let topH = trunc_float (fmul (float_of_int (BodyH l)) ratio); botH = BodyH l - topH
      in (if topH < 3 then 3 else topH, if botH < 3 then 3 else botH))"

definition SplitHorizontal :: "Layout \<Rightarrow> rat \<Rightarrow> int \<times> int" where
  "SplitHorizontal l ratio =
     (let leftW = trunc_float (fmul (float_of_int (ContentW l)) ratio); rightW = ContentW l - leftW
      in (if leftW < 10 then 10 else leftW, if rightW < 10 then 10 else rightW))"

lemma layout_minimum: "4 \<le> BodyH l" "20 \<le> ContentW l"
  by (simp_all add: BodyH_def ContentW_def Let_def)

text \<open>The regions fit the terminal once it is large enough for the chrome.\<close>

lemma layout_fits:
  assumes "8 \<le> h" and "20 \<le> w"
  shows "ChromeH (New_layout w h) + BodyH (New_layout w h) = h" "ContentW (New_layout w h) = w"
  using assms by (simp_all add: New_layout_def ChromeH_def HeaderH_def TabBarH_def StatusBarH_def FooterH_def BodyH_def ContentW_def)

section \<open>Configuration\<close>

record Config =
  cf_Theme :: string
  cf_RenderFPS :: int
  cf_DataIntervalMs :: int
  cf_ContainersOnly :: bool
  cf_TopN :: int
  cf_ShowTCP :: bool
  cf_ShowFiles :: bool
  cf_ShowSlowSys :: bool

definition Default_config :: Config where
  "Default_config = \<lparr>cf_Theme = ''github-dark'', cf_RenderFPS = 10, cf_DataIntervalMs = 1000, cf_ContainersOnly = False, cf_TopN = 0,
     cf_ShowTCP = False, cf_ShowFiles = False, cf_ShowSlowSys = False\<rparr>"

text \<open>Durations are 64-bit nanoseconds: the product wraps around.\<close>

definition millisecond :: int where "millisecond = 10 ^ 6"

definition times_duration :: "int \<Rightarrow> int \<Rightarrow> int" where
  "times_duration a b = sint (word_of_int (a * b) :: u64)"

definition RenderInterval :: "Config \<Rightarrow> int" where
  "RenderInterval c =
     (let fps = (if cf_RenderFPS c \<le> 0 then 10 else cf_RenderFPS c) in times_duration (1000 sdiv fps) millisecond)"

definition DataInterval :: "Config \<Rightarrow> int" where
  "DataInterval c =
     (let ms = (if cf_DataIntervalMs c \<le> 0 then 1000 else cf_DataIntervalMs c) in times_duration ms millisecond)"

text \<open>
  The environment of the configuration file: the home directory, reading and writing, and the YAML
  library. \<open>cy_unmarshal\<close> decodes over a given configuration.
\<close>

datatype read_result = NotExist | ReadFailed string | FileData string

record config_env =
  ce_home :: "string option"
  ce_read :: "string \<Rightarrow> read_result"
  ce_unmarshal :: "string \<Rightarrow> Config \<Rightarrow> string + Config"
  ce_marshal :: "Config \<Rightarrow> string + string"
  ce_mkdir :: "string \<Rightarrow> string option"

definition configDir :: "string \<Rightarrow> string" where
  "configDir home = home @ ''/.config/ebpf-observer''"

definition configPath :: "config_env \<Rightarrow> string option" where
  "configPath E = map_option (\<lambda>home. configDir home @ ''/config.yaml'') (ce_home E)"

definition Load :: "config_env \<Rightarrow> Config \<times> string option" where
  "Load E = (case configPath E of None \<Rightarrow> (Default_config, None)
     | Some path \<Rightarrow> (case ce_read E path of
         NotExist \<Rightarrow> (Default_config, None)
       | ReadFailed e \<Rightarrow> (Default_config, Some e)
       | FileData d \<Rightarrow> (case ce_unmarshal E d Default_config of Inl e \<Rightarrow> (Default_config, Some e) | Inr c \<Rightarrow> (c, None))))"

text \<open>What saving writes: a path and its contents, or an error before anything is written.\<close>

definition Save :: "config_env \<Rightarrow> Config \<Rightarrow> string + (string \<times> string)" where
  "Save E cfg = (case ce_home E of None \<Rightarrow> Inl ''no home''
     | Some home \<Rightarrow> (case ce_mkdir E (configDir home) of Some e \<Rightarrow> Inl e
       | None \<Rightarrow> (case ce_marshal E cfg of Inl e \<Rightarrow> Inl e | Inr d \<Rightarrow> Inr (configDir home @ ''/config.yaml'', d))))"

text \<open>Documented behaviour of the YAML library: decoding an encoded configuration gives it back.\<close>

definition yaml_laws :: "config_env \<Rightarrow> bool" where
  "yaml_laws E \<longleftrightarrow> (\<forall>c d base. ce_marshal E c = Inr d \<longrightarrow> ce_unmarshal E d base = Inr c)"

lemma config_roundtrip:
  assumes "yaml_laws E" and "Save E cfg = Inr (path, d)" and "ce_read E' path = FileData d" and "ce_home E' = ce_home E" and "ce_unmarshal E' = ce_unmarshal E"
  shows "Load E' = (cfg, None)"
  using assms by (auto simp: Save_def Load_def yaml_laws_def configPath_def split: option.splits sum.splits)

section \<open>Themes\<close>

record palette_colors =
  p_bgBase :: string
  p_bgSurface :: string
  p_bgOverlay :: string
  p_fg :: string
  p_fgDim :: string
  p_fgSubtle :: string
  p_green :: string
  p_red :: string
  p_yellow :: string
  p_blue :: string
  p_cyan :: string
  p_magenta :: string
  p_orange :: string

text \<open>A theme is its name and colours; the styles built from them are not modelled.\<close>

record Theme =
  th_Name :: string
  th_BgBase :: string
  th_BgSurface :: string
  th_BgOverlay :: string
  th_Fg :: string
  th_FgDim :: string
  th_FgSubtle :: string
  th_Green :: string
  th_Red :: string
  th_Yellow :: string
  th_Blue :: string
  th_Cyan :: string
  th_Magenta :: string
  th_Orange :: string

definition build :: "string \<Rightarrow> palette_colors \<Rightarrow> Theme" where
  "build name p = \<lparr>th_Name = name, th_BgBase = p_bgBase p, th_BgSurface = p_bgSurface p, th_BgOverlay = p_bgOverlay p, th_Fg = p_fg p, th_FgDim = p_fgDim p, th_FgSubtle = p_fgSubtle p, th_Green = p_green p, th_Red = p_red p, th_Yellow = p_yellow p, th_Blue = p_blue p, th_Cyan = p_cyan p, th_Magenta = p_magenta p, th_Orange = p_orange p\<rparr>"

definition builtins :: "(string, Theme) gomap" where
  "builtins = map (\<lambda>t. (th_Name t, t)) [
     build ''github-dark'' \<lparr>p_bgBase = ''#0D1117'', p_bgSurface = ''#161B22'', p_bgOverlay = ''#21262D'', p_fg = ''#E6EDF3'', p_fgDim = ''#8B949E'', p_fgSubtle = ''#484F58'', p_green = ''#3FB950'', p_red = ''#F85149'', p_yellow = ''#D29922'', p_blue = ''#58A6FF'', p_cyan = ''#39C5CF'', p_magenta = ''#BC8CFF'', p_orange = ''#F0883E''\<rparr>,
     build ''nord'' \<lparr>p_bgBase = ''#2E3440'', p_bgSurface = ''#3B4252'', p_bgOverlay = ''#434C5E'', p_fg = ''#ECEFF4'', p_fgDim = ''#D8DEE9'', p_fgSubtle = ''#4C566A'', p_green = ''#A3BE8C'', p_red = ''#BF616A'', p_yellow = ''#EBCB8B'', p_blue = ''#5E81AC'', p_cyan = ''#88C0D0'', p_magenta = ''#B48EAD'', p_orange = ''#D08770''\<rparr>,
     build ''gruvbox'' \<lparr>p_bgBase = ''#282828'', p_bgSurface = ''#3C3836'', p_bgOverlay = ''#504945'', p_fg = ''#EBDBB2'', p_fgDim = ''#A89984'', p_fgSubtle = ''#7C6F64'', p_green = ''#B8BB26'', p_red = ''#FB4934'', p_yellow = ''#FABD2F'', p_blue = ''#83A598'', p_cyan = ''#8EC07C'', p_magenta = ''#D3869B'', p_orange = ''#FE8019''\<rparr>,
     build ''tokyo-night'' \<lparr>p_bgBase = ''#1A1B26'', p_bgSurface = ''#24283B'', p_bgOverlay = ''#292E42'', p_fg = ''#C0CAF5'', p_fgDim = ''#565F89'', p_fgSubtle = ''#3B4261'', p_green = ''#9ECE6A'', p_red = ''#F7768E'', p_yellow = ''#E0AF68'', p_blue = ''#7AA2F7'', p_cyan = ''#7DCFFF'', p_magenta = ''#BB9AF7'', p_orange = ''#FF9E64''\<rparr>,
     build ''catppuccin'' \<lparr>p_bgBase = ''#1E1E2E'', p_bgSurface = ''#313244'', p_bgOverlay = ''#45475A'', p_fg = ''#CDD6F4'', p_fgDim = ''#7F849C'', p_fgSubtle = ''#585B70'', p_green = ''#A6E3A1'', p_red = ''#F38BA8'', p_yellow = ''#F9E2AF'', p_blue = ''#89B4FA'', p_cyan = ''#89DCEB'', p_magenta = ''#CBA6F7'', p_orange = ''#FAB387''\<rparr>,
     build ''solarized'' \<lparr>p_bgBase = ''#002B36'', p_bgSurface = ''#073642'', p_bgOverlay = ''#094958'', p_fg = ''#839496'', p_fgDim = ''#657B83'', p_fgSubtle = ''#586E75'', p_green = ''#859900'', p_red = ''#DC322F'', p_yellow = ''#B58900'', p_blue = ''#268BD2'', p_cyan = ''#2AA198'', p_magenta = ''#D33682'', p_orange = ''#CB4B16''\<rparr>]"

definition github_dark :: string where "github_dark = ''github-dark''"

definition Get :: "string \<Rightarrow> Theme" where
  "Get name = (case map_of builtins name of Some t \<Rightarrow> t | None \<Rightarrow> the (map_of builtins github_dark))"

definition Names :: "string list" where
  "Names = [''github-dark'', ''nord'', ''gruvbox'', ''tokyo-night'', ''catppuccin'', ''solarized'']"

lemma length_Names [simp]: "length Names = 6"
  by (simp add: Names_def)

lemma builtins_Names: "map fst builtins = Names"
  by (simp add: builtins_def Names_def build_def)

lemma th_Name_Get: "th_Name (Get name) = (if name \<in> set Names then name else ''github-dark'')"
proof (cases "map_of builtins name")
  case None
  then have "name \<notin> set Names" unfolding builtins_Names [symmetric] by (simp add: map_of_eq_None_iff)
  with None show ?thesis by (simp add: Get_def builtins_def build_def github_dark_def)
next
  case (Some t)
  then have "(name, t) \<in> set builtins" by (rule map_of_SomeD)
  then have "th_Name t = name" "name \<in> set Names" unfolding builtins_Names [symmetric] by (auto simp: builtins_def rev_image_eqI)
  with Some show ?thesis by (simp add: Get_def)
qed

section \<open>The tab bar\<close>

record Tab =
  tab_Title :: string
  tab_Key :: string

record Tabbar =
  tb_tabs :: "Tab list"
  tb_active :: int
  tb_width :: int
  tb_theme :: string

definition New_tabbar :: "Tab list \<Rightarrow> string \<Rightarrow> Tabbar" where
  "New_tabbar tabs th = \<lparr>tb_tabs = tabs, tb_active = 0, tb_width = 0, tb_theme = th\<rparr>"

definition SetActive :: "int \<Rightarrow> Tabbar \<Rightarrow> Tabbar" where
  "SetActive i m =
     (let i1 = (if i < 0 then 0 else i); n = int (length (tb_tabs m)); i2 = (if n \<le> i1 then n - 1 else i1)
      in m\<lparr>tb_active := i2\<rparr>)"

definition Next_tab :: "Tabbar \<Rightarrow> Tabbar go" where
  "Next_tab m = go_bind (go_rem (tb_active m + 1) (int (length (tb_tabs m)))) (\<lambda>i. Inr (SetActive i m))"

definition Prev_tab :: "Tabbar \<Rightarrow> Tabbar go" where
  "Prev_tab m = go_bind (go_rem (tb_active m - 1 + int (length (tb_tabs m))) (int (length (tb_tabs m)))) (\<lambda>i. Inr (SetActive i m))"

definition tab_label :: "Tab \<Rightarrow> runes" where
  "tab_label t = runes_of (if tab_Key t \<noteq> [] then '' '' @ tab_Key t @ '':'' @ tab_Title t @ '' '' else '' '' @ tab_Title t @ '' '')"

text \<open>The escape-sequence stripper: from ESC to the next letter m nothing is kept.\<close>

fun strip_from :: "bool \<Rightarrow> runes \<Rightarrow> runes" where
  "strip_from inEsc [] = []"
| "strip_from inEsc (r # rs) =
     (if r = 27 then strip_from True rs
      else if inEsc \<and> r = 109 then strip_from False rs
      else if \<not> inEsc then r # strip_from inEsc rs
      else strip_from inEsc rs)"

definition stripAnsi :: "runes \<Rightarrow> runes" where "stripAnsi s = strip_from False s"

text \<open>The styles of the active label, the other labels and the padding are arguments.\<close>

definition View_tabbar :: "(runes \<Rightarrow> runes) \<Rightarrow> (runes \<Rightarrow> runes) \<Rightarrow> (runes \<Rightarrow> runes) \<Rightarrow> Tabbar \<Rightarrow> runes go" where
  "View_tabbar act inact fill m =
     (let parts = map (\<lambda>i. (if int i = tb_active m then act else inact) (tab_label (tb_tabs m ! i))) [0..<length (tb_tabs m)];
          bar = concat parts; pad = tb_width m - int (length (stripAnsi bar))
      in if 0 < pad then go_bind (Repeat_runes [32] pad) (\<lambda>sp. Inr (bar @ fill sp)) else Inr bar)"

definition tb_ok :: "Tabbar \<Rightarrow> bool" where
  "tb_ok m \<longleftrightarrow> 0 \<le> tb_active m \<and> tb_active m < int (length (tb_tabs m))"

lemma SetActive_ok: "tb_tabs m \<noteq> [] \<Longrightarrow> tb_ok (SetActive i m)"
  by (auto simp: tb_ok_def SetActive_def Let_def)

lemma SetActive_in: "0 \<le> i \<Longrightarrow> i < int (length (tb_tabs m)) \<Longrightarrow> SetActive i m = m\<lparr>tb_active := i\<rparr>"
  by (simp add: SetActive_def)

lemma tb_okD: "tb_ok m \<Longrightarrow> 0 \<le> tb_active m" "tb_ok m \<Longrightarrow> tb_active m < int (length (tb_tabs m))" "tb_ok m \<Longrightarrow> 0 < int (length (tb_tabs m))"
  unfolding tb_ok_def by linarith+

lemma Next_tab_ok:
  assumes "tb_ok m"
  shows "Next_tab m = Inr (m\<lparr>tb_active := (tb_active m + 1) mod int (length (tb_tabs m))\<rparr>)"
proof -
  let ?n = "int (length (tb_tabs m))"
  note d = tb_okD [OF assms]
  have r: "go_rem (tb_active m + 1) ?n = Inr ((tb_active m + 1) mod ?n)" using d by simp
  have "SetActive ((tb_active m + 1) mod ?n) m = m\<lparr>tb_active := (tb_active m + 1) mod ?n\<rparr>"
    by (rule SetActive_in) (use d(3) in \<open>simp_all only: pos_mod_sign pos_mod_bound\<close>)
  then show ?thesis unfolding Next_tab_def r by simp
qed

lemma Prev_tab_ok:
  assumes "tb_ok m"
  shows "Prev_tab m = Inr (m\<lparr>tb_active := (tb_active m - 1) mod int (length (tb_tabs m))\<rparr>)"
proof -
  let ?n = "int (length (tb_tabs m))"
  note d = tb_okD [OF assms]
  have r: "go_rem (tb_active m - 1 + ?n) ?n = Inr ((tb_active m - 1) mod ?n)" using d by simp
  have "SetActive ((tb_active m - 1) mod ?n) m = m\<lparr>tb_active := (tb_active m - 1) mod ?n\<rparr>"
    by (rule SetActive_in) (use d(3) in \<open>simp_all only: pos_mod_sign pos_mod_bound\<close>)
  then show ?thesis unfolding Prev_tab_def r by simp
qed

lemma tb_ok_mod: "tb_ok m \<Longrightarrow> tb_ok (m\<lparr>tb_active := k mod int (length (tb_tabs m))\<rparr>)"
  using tb_okD(3) [of m] by (simp add: tb_ok_def)

lemma Next_Prev_tab:
  assumes "tb_ok m"
  shows "go_bind (Next_tab m) Prev_tab = Inr m"
proof -
  let ?n = "int (length (tb_tabs m))"
  have "((tb_active m + 1) mod ?n - 1) mod ?n = tb_active m"
    using tb_okD [OF assms] by (simp add: mod_diff_left_eq)
  then show ?thesis using Next_tab_ok [OF assms] Prev_tab_ok [OF tb_ok_mod [OF assms, of "tb_active m + 1"]] by simp
qed

text \<open>
  A text without escape characters is kept, and a sequence from ESC to the letter m without another m
  disappears, so the stripped bar is the labels as the styles render them, and the bar fills its width.
\<close>

lemma strip_plain: "27 \<notin> set r \<Longrightarrow> strip_from False r = r"
  by (induction r) auto

lemma strip_escape: "109 \<notin> set code \<Longrightarrow> strip_from True (code @ 109 # r) = strip_from False r"
  by (induction code) auto

lemma View_tabbar_width:
  assumes "\<And>r. length (stripAnsi (b @ fill r)) = length (stripAnsi b) + length r" and "View_tabbar act inact fill m = Inr b'"
    and "b = concat (map (\<lambda>i. (if int i = tb_active m then act else inact) (tab_label (tb_tabs m ! i))) [0..<length (tb_tabs m)])"
  shows "int (length (stripAnsi b')) = max (tb_width m) (int (length (stripAnsi b)))"
  using assms(1,2) unfolding View_tabbar_def Let_def assms(3) [symmetric] by (auto simp: Repeat_runes_def split: if_splits)

section \<open>The modal\<close>

datatype modal_kind = KindHelp | KindError | KindConfirm

record Modal =
  mo_kind :: modal_kind
  mo_title :: runes
  mo_content :: "runes list"       \<comment> \<open>the lines of the text\<close>
  mo_visible :: bool
  mo_theme :: string

definition New_modal :: "string \<Rightarrow> Modal" where
  "New_modal th = \<lparr>mo_kind = KindHelp, mo_title = [], mo_content = [], mo_visible = False, mo_theme = th\<rparr>"

definition ShowHelp :: "runes list \<Rightarrow> Modal \<Rightarrow> Modal" where
  "ShowHelp c m = m\<lparr>mo_kind := KindHelp, mo_title := runes_of ''  Keyboard Shortcuts'', mo_content := c, mo_visible := True\<rparr>"

definition ShowError :: "runes list \<Rightarrow> Modal \<Rightarrow> Modal" where
  "ShowError c m = m\<lparr>mo_kind := KindError, mo_title := runes_of ''  Error'', mo_content := c, mo_visible := True\<rparr>"

definition Hide_modal :: "Modal \<Rightarrow> Modal" where "Hide_modal m = m\<lparr>mo_visible := False\<rparr>"

text \<open>The box: its width, the title and the lines; \<open>None\<close> leaves the background.\<close>

definition box_width :: "runes list \<Rightarrow> int \<Rightarrow> int" where
  "box_width ls termW =
     (let maxW = foldl (\<lambda>mx l. if mx < int (length l) then int (length l) else mx) 0 ls; w1 = maxW + 6; w2 = (if w1 < 40 then 40 else w1)
      in if termW - 4 < w2 then termW - 4 else w2)"

definition Render_modal :: "int \<Rightarrow> Modal \<Rightarrow> (int \<times> runes list) option" where
  "Render_modal termW m = (if \<not> mo_visible m then None else Some (box_width (mo_content m) termW, [mo_title m, []] @ mo_content m))"

lemma box_width_bounds: "box_width ls termW \<le> termW - 4" "44 \<le> termW \<Longrightarrow> 40 \<le> box_width ls termW"
  by (simp_all add: box_width_def Let_def)

section \<open>The status bar\<close>

record Statusbar =
  st_keyHints :: runes
  st_stats :: string
  st_mode :: string
  st_modeStyle :: string
  st_width :: int
  st_theme :: string

definition New_statusbar :: "string \<Rightarrow> Statusbar" where
  "New_statusbar th = \<lparr>st_keyHints = [], st_stats = [], st_mode = ''LIVE'', st_modeStyle = ''green'', st_width = 0, st_theme = th\<rparr>"

definition SetKeyHints :: "runes \<Rightarrow> Statusbar \<Rightarrow> Statusbar" where "SetKeyHints s m = m\<lparr>st_keyHints := s\<rparr>"

definition SetStats :: "int \<Rightarrow> int \<Rightarrow> Statusbar \<Rightarrow> Statusbar" where
  "SetStats batches events m = m\<lparr>st_stats := '' batches:'' @ show_int batches @ ''  events:'' @ show_int events @ '' ''\<rparr>"

definition SetMode :: "string \<Rightarrow> string \<Rightarrow> Statusbar \<Rightarrow> Statusbar" where
  "SetMode label style m = m\<lparr>st_mode := label, st_modeStyle := style\<rparr>"

text \<open>The length of a string in bytes, which the gap is computed from.\<close>

definition utf8_len :: "runes \<Rightarrow> nat" where
  "utf8_len r = sum_list (map (\<lambda>c. if c < 128 then 1 else if c < 2048 then 2 else if c < 65536 then 3 else 4) r)"

definition View_statusbar :: "Statusbar \<Rightarrow> runes go" where
  "View_statusbar m =
     (let left = [32, 32] @ st_keyHints m; badgeW = int (length (st_mode m)) + 2;
          gap = st_width m - int (utf8_len left) - int (length (st_stats m)) - badgeW - 2
      in go_bind (Repeat_runes [32] (if gap < 0 then 0 else gap)) (\<lambda>sp. Inr (left @ sp @ runes_of (st_mode m) @ runes_of (st_stats m))))"

definition renderBadge :: "Statusbar \<Rightarrow> string \<times> string" where
  "renderBadge m = (if st_modeStyle m \<in> {''green'', ''yellow'', ''red'', ''blue''} then st_modeStyle m else ''dim'', st_mode m)"

lemma View_statusbar_total: "\<exists>r. View_statusbar m = Inr r"
  by (simp add: View_statusbar_def Let_def Repeat_runes_def)

section \<open>The focus ring\<close>

text \<open>Items are focused and blurred through their interface: two functions.\<close>

record 'a FocusRing =
  fr_items :: "'a list"
  fr_current :: int

definition NewFocusRing :: "('a \<Rightarrow> 'a) \<Rightarrow> 'a list \<Rightarrow> 'a FocusRing" where
  "NewFocusRing focus xs = \<lparr>fr_items = (if 0 < length xs then xs[0 := focus (xs ! 0)] else xs), fr_current = 0\<rparr>"

definition fr_move :: "('a \<Rightarrow> 'a) \<Rightarrow> ('a \<Rightarrow> 'a) \<Rightarrow> int \<Rightarrow> 'a FocusRing \<Rightarrow> ('a option \<times> 'a FocusRing) go" where
  "fr_move focus blur j f =
     go_bind (go_index (fr_items f) (fr_current f)) (\<lambda>x.
     go_bind (go_set (fr_items f) (fr_current f) (blur x)) (\<lambda>xs1.
     go_bind (go_index xs1 j) (\<lambda>y.
     go_bind (go_set xs1 j (focus y)) (\<lambda>xs2.
       Inr (Some (focus y), \<lparr>fr_items = xs2, fr_current = j\<rparr>)))))"

definition fr_Next :: "('a \<Rightarrow> 'a) \<Rightarrow> ('a \<Rightarrow> 'a) \<Rightarrow> 'a FocusRing \<Rightarrow> ('a option \<times> 'a FocusRing) go" where
  "fr_Next focus blur f =
     (if fr_items f = [] then Inr (None, f)
      else go_bind (go_rem (fr_current f + 1) (int (length (fr_items f)))) (\<lambda>j. fr_move focus blur j f))"

definition fr_Prev :: "('a \<Rightarrow> 'a) \<Rightarrow> ('a \<Rightarrow> 'a) \<Rightarrow> 'a FocusRing \<Rightarrow> ('a option \<times> 'a FocusRing) go" where
  "fr_Prev focus blur f =
     (if fr_items f = [] then Inr (None, f)
      else go_bind (go_rem (fr_current f - 1 + int (length (fr_items f))) (int (length (fr_items f)))) (\<lambda>j. fr_move focus blur j f))"

definition FocusAt :: "('a \<Rightarrow> 'a) \<Rightarrow> ('a \<Rightarrow> 'a) \<Rightarrow> int \<Rightarrow> 'a FocusRing \<Rightarrow> ('a option \<times> 'a FocusRing) go" where
  "FocusAt focus blur i f = (if i < 0 \<or> int (length (fr_items f)) \<le> i then Inr (None, f) else fr_move focus blur i f)"

definition Current :: "'a FocusRing \<Rightarrow> 'a option go" where
  "Current f = (if fr_items f = [] then Inr None else go_bind (go_index (fr_items f) (fr_current f)) (\<lambda>x. Inr (Some x)))"

text \<open>The ring over items that know whether they are focused: exactly the current one is.\<close>

definition focus_ring_ok :: "('a \<Rightarrow> bool) \<Rightarrow> 'a FocusRing \<Rightarrow> bool" where
  "focus_ring_ok focused f \<longleftrightarrow> fr_items f \<noteq> [] \<and> 0 \<le> fr_current f \<and> fr_current f < int (length (fr_items f)) \<and>
     (\<forall>i < length (fr_items f). focused (fr_items f ! i) \<longleftrightarrow> int i = fr_current f)"

lemma fr_move_ok:
  assumes "\<And>x. focused (focus x)" and "\<And>x. \<not> focused (blur x)" and "focus_ring_ok focused f" and "0 \<le> j" and "j < int (length (fr_items f))"
  shows "\<exists>y f'. fr_move focus blur j f = Inr (Some y, f') \<and> fr_current f' = j \<and> focus_ring_ok focused f' \<and> length (fr_items f') = length (fr_items f) \<and> focused y"
  using assms by (auto simp: fr_move_def focus_ring_ok_def nth_list_update split: if_splits)

lemma fr_Next_ok:
  assumes "\<And>x. focused (focus x)" and "\<And>x. \<not> focused (blur x)" and "focus_ring_ok focused f"
  shows "\<exists>y f'. fr_Next focus blur f = Inr (Some y, f') \<and> fr_current f' = (fr_current f + 1) mod int (length (fr_items f)) \<and> focus_ring_ok focused f'"
proof -
  define j where "j = (fr_current f + 1) mod int (length (fr_items f))"
  have n: "0 < int (length (fr_items f))" using assms(3) by (simp add: focus_ring_ok_def)
  then have j: "0 \<le> j" "j < int (length (fr_items f))" by (simp_all only: j_def pos_mod_sign pos_mod_bound)
  have "fr_Next focus blur f = fr_move focus blur j f" using assms(3) by (simp add: fr_Next_def focus_ring_ok_def j_def)
  with fr_move_ok [of focused focus blur, OF assms j] show ?thesis unfolding j_def by auto
qed

section \<open>Commands and the palette\<close>

record CollectFilter =
  fl_ContainersOnly :: bool
  fl_TopN :: int
  fl_ShowFiles :: bool
  fl_ShowTCP :: bool
  fl_ShowSlowSys :: bool

text \<open>A command of the event loop: what the run-time does after an update.\<close>

datatype tea_cmd =
    NoCmd
  | Quit
  | RenderTickCmd int
  | CollectCmd int CollectFilter
  | SendMsg tea_msg
  | WidgetCmd               \<comment> \<open>a command of a library widget, such as the cursor's blinking\<close>

record Command =
  cm_Name :: string
  cm_Args :: string
  cm_Description :: string
  cm_Action :: "(string \<Rightarrow> tea_cmd) option"

record 'ti Palette =
  pa_commands :: "Command list"
  pa_matches :: "Command list"
  pa_input :: 'ti
  pa_cursor :: int
  pa_visible :: bool
  pa_theme :: string

definition New_palette :: "'ti textinput \<Rightarrow> Command list \<Rightarrow> string \<Rightarrow> 'ti Palette" where
  "New_palette T cmds th = \<lparr>pa_commands = cmds, pa_matches = [], pa_input = ti_New T 128, pa_cursor = 0, pa_visible = False, pa_theme = th\<rparr>"

text \<open>
  The palette lower-cases what is typed, which need not be ASCII. \<^verbatim>\<open>strings.ToLower\<close> follows the Unicode tables there and may
  change the number of bytes, so the palette takes it as an argument, of which only the ASCII part is fixed.
\<close>

definition is_ascii :: "string \<Rightarrow> bool" where
  "is_ascii s \<longleftrightarrow> (\<forall>c \<in> set s. of_char c < (128 :: nat))"

definition lower_laws :: "(string \<Rightarrow> string) \<Rightarrow> bool" where
  "lower_laws lw \<longleftrightarrow> (\<forall>s. is_ascii s \<longrightarrow> lw s = ToLower s)"

definition cm_matches :: "(string \<Rightarrow> string) \<Rightarrow> string \<Rightarrow> Command \<Rightarrow> bool" where
  "cm_matches lw q c \<longleftrightarrow> q = [] \<or> Contains (lw (cm_Name c)) q \<or> Contains (lw (cm_Description c)) q"

definition pa_filter :: "(string \<Rightarrow> string) \<Rightarrow> string \<Rightarrow> 'ti Palette \<Rightarrow> 'ti Palette" where
  "pa_filter lw q0 m =
     (let q = TrimSpace (lw q0); ms = filter (cm_matches lw q) (pa_commands m); n = int (length ms)
      in m\<lparr>pa_matches := ms, pa_cursor := (if n \<le> pa_cursor m then max 0 (n - 1) else pa_cursor m)\<rparr>)"

definition pa_Show :: "(string \<Rightarrow> string) \<Rightarrow> 'ti textinput \<Rightarrow> 'ti Palette \<Rightarrow> 'ti Palette" where
  "pa_Show lw T m = pa_filter lw [] (m\<lparr>pa_visible := True, pa_cursor := 0, pa_input := ti_Focus T (pa_input m)\<rparr>)"

definition pa_Hide :: "'ti textinput \<Rightarrow> 'ti Palette \<Rightarrow> 'ti Palette" where
  "pa_Hide T m = m\<lparr>pa_visible := False, pa_input := ti_Reset T (ti_Blur T (pa_input m)), pa_matches := []\<rparr>"

definition AddCommand :: "Command \<Rightarrow> 'ti Palette \<Rightarrow> 'ti Palette" where
  "AddCommand c m = m\<lparr>pa_commands := pa_commands m @ [c]\<rparr>"

definition pa_type :: "(string \<Rightarrow> string) \<Rightarrow> 'ti textinput \<Rightarrow> tea_msg \<Rightarrow> 'ti Palette \<Rightarrow> 'ti Palette \<times> tea_cmd" where
  "pa_type lw T msg m = (let i = ti_Update T msg (pa_input m) in (pa_filter lw (ti_Value T i) (m\<lparr>pa_input := i\<rparr>), WidgetCmd))"

definition pa_Update :: "(string \<Rightarrow> string) \<Rightarrow> 'ti textinput \<Rightarrow> tea_msg \<Rightarrow> 'ti Palette \<Rightarrow> ('ti Palette \<times> tea_cmd) go" where
  "pa_Update lw T msg m =
     (if \<not> pa_visible m then Inr (m, NoCmd)
      else case msg of
        KeyMsg k \<Rightarrow>
          if k = ''esc'' then Inr (pa_Hide T m, NoCmd)
          else if k = ''enter''
          then if 0 < length (pa_matches m)
               then go_bind (go_index (pa_matches m) (pa_cursor m)) (\<lambda>cmd.
                    let val = TrimSpace (ti_Value T (pa_input m)); args = TrimSpace (TrimPrefix val (cm_Name cmd))
                    in Inr (pa_Hide T m, case cm_Action cmd of None \<Rightarrow> NoCmd | Some f \<Rightarrow> f args))
               else Inr (m, NoCmd)
          else if k \<in> {''up'', ''ctrl+p''} then Inr (if 0 < pa_cursor m then m\<lparr>pa_cursor := pa_cursor m - 1\<rparr> else m, NoCmd)
          else if k \<in> {''down'', ''ctrl+n''}
          then Inr (if pa_cursor m < int (length (pa_matches m)) - 1 then m\<lparr>pa_cursor := pa_cursor m + 1\<rparr> else m, NoCmd)
          else Inr (pa_type lw T msg m)
      | _ \<Rightarrow> Inr (pa_type lw T msg m))"

text \<open>A match is the text before, inside and after the highlighted part.\<close>

definition highlightMatch :: "(string \<Rightarrow> string) \<Rightarrow> string \<Rightarrow> string \<Rightarrow> (string \<times> string \<times> string) go" where
  "highlightMatch lw name q =
     (if q = [] then Inr (name, [], [])
      else let idx = Index_str (lw name) (lw q) in
        if idx < 0 then Inr (name, [], [])
        else go_bind (go_slice name 0 idx) (\<lambda>a.
             go_bind (go_slice name idx (idx + int (length q))) (\<lambda>b.
             go_bind (go_slice name (idx + int (length q)) (int (length name))) (\<lambda>c. Inr (a, b, c)))))"

text \<open>The drawn palette: the width of the box, the input text, and the first eight matches.\<close>

fun match_rows :: "(string \<Rightarrow> string) \<Rightarrow> string \<Rightarrow> Command list \<Rightarrow> ((string \<times> string \<times> string) \<times> string) list go" where
  "match_rows lw q [] = Inr []"
| "match_rows lw q (c # cs) =
     go_bind (highlightMatch lw (cm_Name c @ '' '' @ cm_Args c) q) (\<lambda>h.
     go_bind (match_rows lw q cs) (\<lambda>rs. Inr ((h, ''  '' @ cm_Description c) # rs)))"

definition View_palette :: "(string \<Rightarrow> string) \<Rightarrow> 'ti textinput \<Rightarrow> int \<Rightarrow> 'ti Palette \<Rightarrow> (int \<times> string \<times> ((string \<times> string \<times> string) \<times> string) list \<times> int) option go" where
  "View_palette lw T termW m =
     (if \<not> pa_visible m then Inr None
      else let boxW = min (termW - 8) 70; q = ti_Value T (pa_input m) in
        go_bind (match_rows lw q (take 8 (pa_matches m))) (\<lambda>rs. Inr (Some (boxW, q, rs, pa_cursor m))))"

definition pa_ok :: "'ti Palette \<Rightarrow> bool" where
  "pa_ok m \<longleftrightarrow> (pa_visible m \<longrightarrow> 0 \<le> pa_cursor m \<and> (if pa_matches m = [] then pa_cursor m = 0 else pa_cursor m < int (length (pa_matches m))))"

lemma pa_filter_ok: "0 \<le> pa_cursor m \<Longrightarrow> pa_ok (pa_filter lw q m)"
  by (auto simp: pa_ok_def pa_filter_def Let_def)

lemma pa_filter_visible [simp]: "pa_visible (pa_filter lw q m) = pa_visible m" "pa_commands (pa_filter lw q m) = pa_commands m"
  "pa_matches (pa_filter lw q m) = filter (cm_matches lw (TrimSpace (lw q))) (pa_commands m)"
  by (simp_all add: pa_filter_def Let_def)

lemma pa_Show_ok: "pa_ok (pa_Show lw T m)" "pa_visible (pa_Show lw T m)" "pa_commands (pa_Show lw T m) = pa_commands m"
  "set (pa_matches (pa_Show lw T m)) \<subseteq> set (pa_commands m)"
  unfolding pa_Show_def by (rule pa_filter_ok) auto

text \<open>The palette opens on all commands.\<close>

lemma pa_Show_all: "lower_laws lw \<Longrightarrow> pa_matches (pa_Show lw T m) = pa_commands m"
  by (simp add: pa_Show_def cm_matches_def lower_laws_def is_ascii_def TrimSpace_def ToLower_def)

lemma pa_Hide_ok [simp]: "pa_ok (pa_Hide T m)" "\<not> pa_visible (pa_Hide T m)" "pa_commands (pa_Hide T m) = pa_commands m"
  by (simp_all add: pa_Hide_def pa_ok_def)

lemma pa_type_ok:
  assumes "pa_ok m" and "pa_visible m"
  shows "pa_ok (fst (pa_type lw T msg m))"
proof -
  have "0 \<le> pa_cursor (m\<lparr>pa_input := ti_Update T msg (pa_input m)\<rparr>)" using assms by (simp add: pa_ok_def)
  from pa_filter_ok [OF this] show ?thesis by (simp add: pa_type_def Let_def)
qed

text \<open>
  The palette never panics and runs only the registered commands: the command of an update is none, a
  library widget's, or the action of a command that is listed.
\<close>

lemma pa_Update_ok:
  assumes "pa_ok m" and "set (pa_matches m) \<subseteq> set (pa_commands m)"
  shows "\<exists>m' c. pa_Update lw T msg m = Inr (m', c) \<and> pa_ok m' \<and> pa_commands m' = pa_commands m \<and> set (pa_matches m') \<subseteq> set (pa_commands m) \<and>
     (c \<in> {NoCmd, WidgetCmd} \<or> (\<exists>cmd \<in> set (pa_commands m). \<exists>f args. cm_Action cmd = Some f \<and> c = f args))"
proof (cases "pa_visible m")
  case vis: True
  have typed: "\<exists>m' c. Inr (pa_type lw T msg m) = (Inr (m', c) :: ('a Palette \<times> tea_cmd) go) \<and> pa_ok m' \<and> pa_commands m' = pa_commands m \<and>
      set (pa_matches m') \<subseteq> set (pa_commands m) \<and> (c \<in> {NoCmd, WidgetCmd} \<or> (\<exists>cmd \<in> set (pa_commands m). \<exists>f args. cm_Action cmd = Some f \<and> c = f args))"
    using pa_type_ok [OF assms(1) vis, of lw T msg] by (cases "pa_type lw T msg m") (auto simp: pa_type_def Let_def)
  show ?thesis
  proof (cases msg)
    case (KeyMsg k)
    show ?thesis
    proof (cases "k \<in> {''esc'', ''enter'', ''up'', ''ctrl+p'', ''down'', ''ctrl+n''}")
      case False
      with typed KeyMsg vis show ?thesis by (simp add: pa_Update_def)
    next
      case True
      show ?thesis
      proof (cases "k = ''enter'' \<and> pa_matches m \<noteq> []")
        case True
        let ?cmd = "pa_matches m ! nat (pa_cursor m)"
        have i: "go_index (pa_matches m) (pa_cursor m) = Inr ?cmd" and mem: "?cmd \<in> set (pa_commands m)"
          using assms True vis by (auto simp: pa_ok_def nat_less_iff intro!: subsetD [OF assms(2)] nth_mem)
        show ?thesis using KeyMsg True vis i mem assms(2) by (auto simp: pa_Update_def Let_def pa_Hide_def pa_ok_def split: option.split)
      next
        case False
        with True KeyMsg vis assms show ?thesis by (auto simp: pa_Update_def pa_ok_def pa_Hide_def split: if_splits)
      qed
    qed
  qed (use typed vis in \<open>simp_all add: pa_Update_def\<close>)
qed (use assms in \<open>simp add: pa_Update_def\<close>)

text \<open>Drawing ASCII text does not panic: the highlighted part is the typed query, and the three parts make up the name.\<close>

lemma ascii_lower: "lower_laws lw \<Longrightarrow> is_ascii s \<Longrightarrow> lw s = ToLower s"
  by (simp add: lower_laws_def)

lemma highlightMatch_ok:
  assumes "lower_laws lw" and "is_ascii name" and "is_ascii q"
  shows "\<exists>a b c. highlightMatch lw name q = Inr (a, b, c) \<and> a @ b @ c = name"
proof (cases "q = [] \<or> Index_str (ToLower name) (ToLower q) < 0")
  case False
  let ?i = "Index_str (ToLower name) (ToLower q)"
  obtain a b where ab: "ToLower name = a @ ToLower q @ b" "length a = nat ?i" using Index_str_found [of "ToLower name" "ToLower q"] False by auto
  then have "length name = length a + length q + length b" by (metis ToLower_def length_append length_map add.assoc)
  with False ab(2) have le: "0 \<le> ?i" "?i + int (length q) \<le> int (length name)" by auto
  have "nat (?i + int (length q)) - nat ?i = length q" using le(1) by simp
  moreover have "take (nat ?i) name @ take (length q) (drop (nat ?i) name) @ drop (nat (?i + int (length q))) name = name"
    using le by (simp add: nat_add_distrib) (metis append_take_drop_id drop_drop add.commute)
  ultimately show ?thesis using False le by (simp add: highlightMatch_def Let_def go_slice_def ascii_lower [OF assms(1)] assms(2,3))
qed (auto simp: highlightMatch_def Let_def ascii_lower [OF assms(1)] assms(2,3))

lemma View_palette_ok:
  assumes "lower_laws lw" and "is_ascii (ti_Value T (pa_input m))" and "\<forall>c \<in> set (pa_matches m). is_ascii (cm_Name c) \<and> is_ascii (cm_Args c)"
  shows "\<exists>d. View_palette lw T termW m = Inr d"
proof -
  have "\<exists>rs. match_rows lw q cs = Inr rs" if "is_ascii q" "\<forall>c \<in> set cs. is_ascii (cm_Name c) \<and> is_ascii (cm_Args c)" for q and cs :: "Command list"
    using that(2)
  proof (induction cs)
    case (Cons c cs)
    then have "is_ascii (cm_Name c @ '' '' @ cm_Args c)" by (auto simp: is_ascii_def)
    with Cons highlightMatch_ok [OF assms(1) _ that(1), of "cm_Name c @ '' '' @ cm_Args c"] show ?case by fastforce
  qed simp
  from this [OF assms(2), of "take 8 (pa_matches m)"] assms(3) show ?thesis by (auto simp: View_palette_def Let_def dest: in_set_takeD)
qed

text \<open>
  Other text can make it panic. The Kelvin sign takes three bytes and its lower case, the letter k, one;
  the query is then found one byte before the end of a command name, and the slice of three bytes is out of
  range.
\<close>

definition kelvin :: string where
  "kelvin = map char_of [226, 132, 170 :: nat]"

definition kelvin_lower :: "string \<Rightarrow> string" where
  "kelvin_lower s = (if s = kelvin then ''k'' else ToLower s)"

lemma kelvin_lower_laws: "lower_laws kelvin_lower"
  by (auto simp: lower_laws_def kelvin_lower_def is_ascii_def kelvin_def)

lemma highlightMatch_panics: "highlightMatch kelvin_lower ''theme github-dark '' kelvin = Inl SliceBounds"
  by code_simp

end
