(* ===== verification/EventsView.thy ===== *)
theory EventsView
  imports TuiMsg
begin

text \<open>
  The events view (internal/tui/views/events/events.go): the bounded stream of events in which repeated
  events are merged within five seconds, its filter, the text of each line and the scroll state. The
  viewport and the text input are library widgets, the clock format and \<^verbatim>\<open>%v\<close> of a
  floating-point value are arguments, and styling is not modelled.
\<close>

section \<open>The text of an event\<close>

text \<open>\<^verbatim>\<open>fmt.Sprintf("%v", x)\<close> of the values in event metadata; \<open>ff\<close> prints a float.\<close>

fun show_any :: "(rat \<Rightarrow> string) \<Rightarrow> any \<Rightarrow> string" where
  "show_any ff (AnyString s) = s"
| "show_any ff (AnyStrings ss) = ''['' @ join_with CHR '' '' ss @ '']''"
| "show_any ff (AnyBool b) = (if b then ''true'' else ''false'')"
| "show_any ff (AnyU16 w) = show_nat (unat w)"
| "show_any ff (AnyU32 w) = show_nat (unat w)"
| "show_any ff (AnyU64 w) = show_nat (unat w)"
| "show_any ff (AnyI32 w) = show_int (sint w)"
| "show_any ff (AnyInt n) = show_int n"
| "show_any ff (AnyFloat x) = ff x"

definition show_meta :: "(rat \<Rightarrow> string) \<Rightarrow> (string, any) gomap \<Rightarrow> string \<Rightarrow> string" where
  "show_meta ff md k = (case map_of md k of None \<Rightarrow> ''<nil>'' | Some a \<Rightarrow> show_any ff a)"

definition show_map :: "(rat \<Rightarrow> string) \<Rightarrow> (string, any) gomap \<Rightarrow> string" where
  "show_map ff md = ''map['' @ join_with CHR '' '' (map (\<lambda>(k, a). k @ '':'' @ show_any ff a) (sort_key fst md)) @ '']''"

definition event_badge :: "string \<Rightarrow> string" where
  "event_badge ty =
     (if ty = EventTypeExec then '' EXEC '' else if ty = EventTypeDNSQuery then '' DNS  ''
      else if ty = EventTypePrivEsc then '' PRIV '' else if ty = EventTypeEscapeIndicator then '' ESCP ''
      else if ty = EventTypeFork then '' FORK '' else if ty = ''oom_kill'' then '' OOM  '' else '' SEC  '')"

definition proc_context :: "EventEnvelope \<Rightarrow> runes" where
  "proc_context env =
     (if ev_ParentProcess env \<noteq> [] then runes_of (ev_ParentProcess env) @ runes_of '' '' @ [8594] @ runes_of '' '' @ runes_of (ev_Process env)
      else runes_of (ev_Process env)) @ runes_of ('' (pid:'' @ show_nat (unat (ev_PID env)) @ '')'')"

definition priv_target :: "(rat \<Rightarrow> string) \<Rightarrow> (string, any) gomap \<Rightarrow> string" where
  "priv_target ff md =
     (case map_of md ''target_pid'' of Some a \<Rightarrow> ''pid:'' @ show_any ff a
      | None \<Rightarrow> (case map_of md ''capability'' of Some a \<Rightarrow> show_any ff a
      | None \<Rightarrow> (case map_of md ''new_uid'' of Some a \<Rightarrow> ''uid:'' @ show_any ff a
      | None \<Rightarrow> (case map_of md ''new_gid'' of Some a \<Rightarrow> ''gid:'' @ show_any ff a
      | None \<Rightarrow> ''<none>''))))"

definition escape_flags :: "(rat \<Rightarrow> string) \<Rightarrow> (string, any) gomap \<Rightarrow> string" where
  "escape_flags ff md = (case map_of md ''namespace_flags'' of
      None \<Rightarrow> ''<none>'' | Some a \<Rightarrow> if a = AnyString [] then ''<none>'' else show_any ff a)"

definition limit_mb :: "(string, any) gomap \<Rightarrow> int" where
  "limit_mb md = (case map_of md ''limit_bytes'' of
      Some (AnyU64 w) \<Rightarrow> sint (w div (1024 * 1024))
    | Some (AnyFloat x) \<Rightarrow> trunc_float (fdiv x (1024 * 1024))
    | _ \<Rightarrow> 0)"

definition meta_text :: "(rat \<Rightarrow> string) \<Rightarrow> EventEnvelope \<Rightarrow> string" where
  "meta_text ff env =
     (let md = ev_Metadata env; ty = ev_EventType env in
      if md = [] then []
      else ''  '' @
        (if ty = EventTypeExec then (case map_of md ''argv'' of None \<Rightarrow> [] | Some a \<Rightarrow> ''cmd: '' @ show_any ff a)
         else if ty = EventTypeDNSQuery then ''q: '' @ show_meta ff md ''query'' @ '' ('' @ show_meta ff md ''query_type'' @ '')''
         else if ty = EventTypePrivEsc then ''op: '' @ show_meta ff md ''escalation_type'' @ '' tgt: '' @ priv_target ff md
         else if ty = EventTypeEscapeIndicator then ''op: '' @ show_meta ff md ''indicator_type'' @ '' flags: '' @ escape_flags ff md
         else if ty = ''oom_kill'' then ''rss: '' @ show_meta ff md ''rss_kb'' @ ''KB limit: '' @ show_int (limit_mb md) @ ''MB''
         else show_map ff md))"

definition formatSecurityEvent :: "(rat \<Rightarrow> string) \<Rightarrow> EventEnvelope \<Rightarrow> runes" where
  "formatSecurityEvent ff env =
     runes_of (event_badge (ev_EventType env)) @ runes_of '' '' @ runes_of (''['' @ ev_ContainerName env @ '']'') @ runes_of '' '' @
     proc_context env @ runes_of (meta_text ff env)"

definition styleEvent :: "(rat \<Rightarrow> string) \<Rightarrow> TuiEvent \<Rightarrow> runes" where
  "styleEvent ff ev = (case e_Kind ev of
      EventKindOOM \<Rightarrow> (case e_Envelope ev of Some env \<Rightarrow> formatSecurityEvent ff env | None \<Rightarrow> runes_of (e_Message ev))
    | EventKindSecurity \<Rightarrow> (case e_Envelope ev of Some env \<Rightarrow> formatSecurityEvent ff env | None \<Rightarrow> runes_of ('' SEC  '' @ e_Message ev))
    | _ \<Rightarrow> runes_of (e_Message ev))"

section \<open>Merging\<close>

definition merge_window :: int where "merge_window = 5 * 10 ^ 9"

definition same_event :: "TuiEvent \<Rightarrow> TuiEvent \<Rightarrow> bool" where
  "same_event a b \<longleftrightarrow> e_Kind a = e_Kind b \<and> e_Container a = e_Container b \<and> e_Message a = e_Message b"

text \<open>The scan from the newest event backwards; \<open>None\<close> when nothing was merged.\<close>

fun merge_back :: "TuiEvent \<Rightarrow> TuiEvent list \<Rightarrow> TuiEvent list option" where
  "merge_back new [] = None"
| "merge_back new (old # older) =
     (if merge_window < time_sub (e_At new) (e_At old) then None
      else if same_event old new then Some (old\<lparr>e_Count := e_Count old + e_Count new, e_At := e_At new\<rparr> # older)
      else map_option ((#) old) (merge_back new older))"

definition default_count :: "TuiEvent \<Rightarrow> TuiEvent" where
  "default_count ev = (if e_Count ev = 0 then ev\<lparr>e_Count := 1\<rparr> else ev)"

definition add_event :: "TuiEvent list \<Rightarrow> TuiEvent \<Rightarrow> TuiEvent list" where
  "add_event evs new0 =
     (let new = default_count new0 in
      case merge_back new (rev evs) of Some r \<Rightarrow> rev r | None \<Rightarrow> evs @ [new])"

section \<open>The view\<close>

type_synonym events_drawn = "nat \<times> runes list \<times> (string \<times> int) option"

record ('vp, 'ti) events_view =
  evv_vp :: 'vp
  evv_events :: "TuiEvent list"
  evv_search :: "'ti Searchbar"
  evv_filter :: string
  evv_follow :: bool
  evv_theme :: string
  evv_w :: int
  evv_h :: int
  evv_dirty :: bool
  evv_cached :: "events_drawn option"
  evv_focused :: bool

definition evv_New :: "'vp viewport \<Rightarrow> 'ti textinput \<Rightarrow> string \<Rightarrow> ('vp, 'ti) events_view" where
  "evv_New V T th = \<lparr>evv_vp = vp_SetContent V [[]] (vp_New V 80 20), evv_events = [], evv_search = New_searchbar T, evv_filter = [],
     evv_follow = True, evv_theme = th, evv_w = 0, evv_h = 0, evv_dirty = False, evv_cached = None, evv_focused = False\<rparr>"

definition evv_SetData :: "DataBatch \<Rightarrow> ('vp, 'ti) events_view \<Rightarrow> ('vp, 'ti) events_view go" where
  "evv_SetData batch v =
     (let evs = foldl add_event (evv_events v) (db_Events batch) in
      go_bind (if 2000 < int (length evs) then go_slice evs (int (length evs) - 2000) (int (length evs)) else Inr evs) (\<lambda>evs'.
        Inr (v\<lparr>evv_events := evs', evv_dirty := True, evv_cached := None\<rparr>)))"

definition evv_SetSize :: "'vp viewport \<Rightarrow> int \<Rightarrow> int \<Rightarrow> ('vp, 'ti) events_view \<Rightarrow> ('vp, 'ti) events_view" where
  "evv_SetSize V w h v =
     (let searchH = (if sb_visible (evv_search v) then 1 else 0) in
      v\<lparr>evv_w := w, evv_h := h, evv_vp := vp_SetSize V w (h - 2 - searchH) (evv_vp v), evv_dirty := True, evv_cached := None\<rparr>)"

definition evv_SetTheme :: "string \<Rightarrow> ('vp, 'ti) events_view \<Rightarrow> ('vp, 'ti) events_view" where
  "evv_SetTheme th v = v\<lparr>evv_theme := th, evv_dirty := True, evv_cached := None\<rparr>"

definition evv_Focus :: "bool \<Rightarrow> ('vp, 'ti) events_view \<Rightarrow> ('vp, 'ti) events_view" where
  "evv_Focus b v = v\<lparr>evv_focused := b\<rparr>"

definition evv_scroll :: "'vp viewport \<Rightarrow> string \<Rightarrow> ('vp, 'ti) events_view \<Rightarrow> ('vp, 'ti) events_view" where
  "evv_scroll V k v =
     (if k = ''g'' then v\<lparr>evv_vp := vp_GotoTop V (evv_vp v), evv_follow := False\<rparr>
      else if k = ''G'' then v\<lparr>evv_follow := True\<rparr>
      else if k \<in> {''up'', ''k''} then v\<lparr>evv_follow := False, evv_vp := vp_LineUp V 1 (evv_vp v)\<rparr>
      else if k \<in> {''down'', ''j''} then v\<lparr>evv_vp := vp_LineDown V 1 (evv_vp v)\<rparr>
      else if k = ''pgup'' then v\<lparr>evv_follow := False, evv_vp := vp_HalfViewUp V (evv_vp v)\<rparr>
      else if k = ''pgdown'' then v\<lparr>evv_vp := vp_HalfViewDown V (evv_vp v)\<rparr>
      else v)"

definition evv_Update :: "'vp viewport \<Rightarrow> 'ti textinput \<Rightarrow> tea_msg \<Rightarrow> ('vp, 'ti) events_view \<Rightarrow> ('vp, 'ti) events_view" where
  "evv_Update V T msg v = (case msg of
      KeyMsg k \<Rightarrow>
        if sb_visible (evv_search v)
        then if k = ''esc'' then v\<lparr>evv_search := sb_Reset T (sb_Hide T (evv_search v)), evv_filter := [], evv_dirty := True\<rparr>
             else if k = ''enter'' then v\<lparr>evv_search := sb_Hide T (evv_search v), evv_dirty := True\<rparr>
             else let s1 = sb_Update T msg (evv_search v) in
                  v\<lparr>evv_search := s1, evv_filter := sb_Value T s1, evv_dirty := True\<rparr>
        else if k = ''/'' then v\<lparr>evv_search := sb_Show T (evv_search v), evv_dirty := True\<rparr>
        else let v1 = (evv_scroll V k v)\<lparr>evv_dirty := True\<rparr> in v1\<lparr>evv_vp := vp_Update V msg (evv_vp v1)\<rparr>
    | _ \<Rightarrow> v\<lparr>evv_vp := vp_Update V msg (evv_vp v)\<rparr>)"

definition shown_event :: "string \<Rightarrow> TuiEvent \<Rightarrow> bool" where
  "shown_event q ev \<longleftrightarrow> \<not> (q \<noteq> [] \<and> \<not> Contains (ToLower (e_Message ev)) (ToLower q) \<and> \<not> Contains (ToLower (e_Container ev)) (ToLower q))"

definition event_line :: "(time \<Rightarrow> string) \<Rightarrow> (rat \<Rightarrow> string) \<Rightarrow> TuiEvent \<Rightarrow> runes" where
  "event_line clock ff ev = runes_of (clock (e_At ev)) @ runes_of '' '' @ styleEvent ff ev @
     (if 1 < e_Count ev then runes_of ('' (x'' @ show_int (e_Count ev) @ '')'') else [])"

definition buildLines :: "(time \<Rightarrow> string) \<Rightarrow> (rat \<Rightarrow> string) \<Rightarrow> ('vp, 'ti) events_view \<Rightarrow> runes list" where
  "buildLines clock ff v =
     (let lines = map (event_line clock ff) (filter (shown_event (evv_filter v)) (evv_events v))
      in if lines = [] then [runes_of ''  No events yet'' @ [8230]] else lines)"

definition evv_View :: "'vp viewport \<Rightarrow> 'ti textinput \<Rightarrow> (time \<Rightarrow> string) \<Rightarrow> (rat \<Rightarrow> string) \<Rightarrow> ('vp, 'ti) events_view \<Rightarrow>
   events_drawn \<times> ('vp, 'ti) events_view" where
  "evv_View V T clock ff v =
     (if \<not> evv_dirty v \<and> evv_cached v \<noteq> None then (the (evv_cached v), v)
      else let vp1 = vp_SetContent V (buildLines clock ff v) (evv_vp v);
               vp2 = (if evv_follow v then vp_GotoBottom V vp1 else vp1);
               d = (length (evv_events v), vp_View V vp2, sb_View T (evv_w v) (evv_search v))
           in (d, v\<lparr>evv_vp := vp2, evv_cached := Some d, evv_dirty := False\<rparr>))"

section \<open>No occurrence is lost\<close>

text \<open>The occurrences of an event: the sum of the counts of the entries with its kind, container and message.\<close>

definition occurrences :: "TuiEvent \<Rightarrow> TuiEvent list \<Rightarrow> int" where
  "occurrences ev evs = sum_list (map e_Count (filter (same_event ev) evs))"

lemma occurrences_simps [simp]:
  "occurrences ev [] = 0" "occurrences ev (x # xs) = (if same_event ev x then e_Count x else 0) + occurrences ev xs"
  "occurrences ev (xs @ ys) = occurrences ev xs + occurrences ev ys"
  by (simp_all add: occurrences_def)

lemma occurrences_rev [simp]: "occurrences ev (rev xs) = occurrences ev xs"
  by (induction xs) simp_all

lemma same_event_upd [simp]:
  "same_event ev (x\<lparr>e_Count := c, e_At := t\<rparr>) = same_event ev x" "same_event ev (x\<lparr>e_Count := c\<rparr>) = same_event ev x"
  by (simp_all add: same_event_def)

lemma same_event_trans: "same_event a b \<Longrightarrow> same_event c a \<longleftrightarrow> same_event c b"
  by (auto simp: same_event_def)

lemma merge_back_counts:
  "merge_back new olds = Some r \<Longrightarrow>
     occurrences ev r = occurrences ev olds + (if same_event ev new then e_Count new else 0) \<and> length r = length olds"
  by (induction new olds arbitrary: r rule: merge_back.induct) (auto simp: same_event_trans split: if_splits)

lemma add_event_counts:
  "occurrences ev (add_event evs new) = occurrences ev evs + occurrences ev [default_count new]"
  "length (add_event evs new) \<le> Suc (length evs)"
proof -
  have d: "same_event ev (default_count new) = same_event ev new" by (simp add: default_count_def)
  show "occurrences ev (add_event evs new) = occurrences ev evs + occurrences ev [default_count new]"
    using merge_back_counts [of "default_count new" "rev evs" _ ev]
    by (auto simp: add_event_def Let_def d split: option.splits)
  show "length (add_event evs new) \<le> Suc (length evs)"
    using merge_back_counts [of "default_count new" "rev evs"] by (auto simp: add_event_def Let_def split: option.splits)
qed

lemma add_events_counts:
  "occurrences ev (foldl add_event evs news) = occurrences ev evs + occurrences ev (map default_count news) \<and>
   length (foldl add_event evs news) \<le> length evs + length news"
proof (induction news arbitrary: evs)
  case (Cons n news)
  from Cons [of "add_event evs n"] add_event_counts(1) [of ev evs n] add_event_counts(2) [of evs n] show ?case by simp
qed simp

text \<open>
  An event is merged exactly when a same entry is reached before the first entry, from the newest back,
  that is more than five seconds older.
\<close>

definition recent :: "TuiEvent \<Rightarrow> TuiEvent list \<Rightarrow> TuiEvent list" where
  "recent new evs = takeWhile (\<lambda>old. \<not> merge_window < time_sub (e_At new) (e_At old)) (rev evs)"

lemma merge_back_None:
  "merge_back new olds = None \<longleftrightarrow>
     (\<forall>old \<in> set (takeWhile (\<lambda>old. \<not> merge_window < time_sub (e_At new) (e_At old)) olds). \<not> same_event old new)"
  by (induction new olds rule: merge_back.induct) auto

lemma add_event_merges: "length (add_event evs new) = length evs \<longleftrightarrow> (\<exists>old \<in> set (recent new evs). same_event old new)"
proof -
  have at: "e_At (default_count new) = e_At new" "same_event old (default_count new) = same_event old new" for old
    by (simp_all add: default_count_def)
  show ?thesis
    using merge_back_None [of "default_count new" "rev evs"] merge_back_counts [of "default_count new" "rev evs"]
    by (auto simp: add_event_def Let_def recent_def at split: option.splits)
qed

lemma evv_SetData_ok: "\<exists>v'. evv_SetData b v = Inr v' \<and> evv_events v' = take_last 2000 (foldl add_event (evv_events v) (db_Events b)) \<and>
    evv_filter v' = evv_filter v \<and> evv_dirty v'"
  using slice_suffix [of 2000 "foldl add_event (evv_events v) (db_Events b)"]
  by (auto simp: evv_SetData_def Let_def)


definition info_event :: "string \<Rightarrow> time \<Rightarrow> TuiEvent" where
  "info_event m t = \<lparr>e_At = t, e_Kind = EventKindInfo, e_Container = ''web'', e_Message = m, e_Envelope = None, e_Count = 0\<rparr>"


end
