(* ===== verification/TableViews.thy ===== *)
theory TableViews
  imports TuiMsg
begin

text \<open>
  The five table views of the terminal UI (internal/tui/views/cpu, memory, io, network and syscall).
  Each owns a table and a search bar; \<^verbatim>\<open>SetData\<close> turns a batch into rows, typed text filters
  them, and \<^verbatim>\<open>View\<close> draws from a cache that the other operations invalidate. The operations are
  the same in the five packages and are written once over a record with the parts that differ: the
  columns, the rows of a batch, the filter and the container of a row. Sorting is \<^verbatim>\<open>sort.Slice\<close>,
  an argument. A drawing is the name of the theme, which the table and the search bar share, the title, the
  styled lines of the table and the line of the search bar.
\<close>

section \<open>The common operations\<close>

record 'r view_desc =
  vd_title :: runes
  vd_columns :: "'r Column list"
  vd_rows :: "DataBatch \<Rightarrow> 'r list"
  vd_match :: "'r \<Rightarrow> string \<Rightarrow> bool"
  vd_container :: "'r \<Rightarrow> string"

type_synonym drawn = "string \<times> runes \<times> line list \<times> (string \<times> int) option"

record ('r, 'ti) table_view =
  tv_tbl :: "'r Table"
  tv_search :: "'ti Searchbar"
  tv_theme :: string
  tv_w :: int
  tv_h :: int
  tv_dirty :: bool
  tv_cached :: "drawn option"
  tv_focused :: bool

definition tv_New :: "'ti textinput \<Rightarrow> 'r view_desc \<Rightarrow> string \<Rightarrow> ('r, 'ti) table_view" where
  "tv_New T D th = \<lparr>tv_tbl = New_table (vd_columns D), tv_search = New_searchbar T, tv_theme = th, tv_w = 0, tv_h = 0,
     tv_dirty = False, tv_cached = None, tv_focused = False\<rparr>"

definition tv_SetData :: "'r view_desc \<Rightarrow> DataBatch \<Rightarrow> ('r, 'ti) table_view \<Rightarrow> ('r, 'ti) table_view" where
  "tv_SetData D batch v = v\<lparr>tv_tbl := SetRows (vd_rows D batch) (tv_tbl v), tv_dirty := True, tv_cached := None\<rparr>"

definition tv_SetSize :: "int \<Rightarrow> int \<Rightarrow> ('r, 'ti) table_view \<Rightarrow> ('r, 'ti) table_view" where
  "tv_SetSize w h v = v\<lparr>tv_w := w, tv_h := h, tv_tbl := SetSize_table w (h - 2) (tv_tbl v), tv_dirty := True, tv_cached := None\<rparr>"

definition tv_SetTheme :: "string \<Rightarrow> ('r, 'ti) table_view \<Rightarrow> ('r, 'ti) table_view" where
  "tv_SetTheme th v = v\<lparr>tv_theme := th, tv_dirty := True, tv_cached := None\<rparr>"

definition tv_Focus :: "('r, 'ti) table_view \<Rightarrow> ('r, 'ti) table_view" where
  "tv_Focus v = v\<lparr>tv_focused := True, tv_tbl := Focus_table (tv_tbl v)\<rparr>"

definition tv_Blur :: "('r, 'ti) table_view \<Rightarrow> ('r, 'ti) table_view" where
  "tv_Blur v = v\<lparr>tv_focused := False, tv_tbl := Blur_table (tv_tbl v)\<rparr>"

definition tv_SelectedContainer :: "'r view_desc \<Rightarrow> ('r, 'ti) table_view \<Rightarrow> string go" where
  "tv_SelectedContainer D v =
     go_bind (SelectedRow (tv_tbl v)) (\<lambda>r. Inr (case r of None \<Rightarrow> [] | Some row \<Rightarrow> vd_container D row))"

definition tv_Update :: "'ti textinput \<Rightarrow> 'r view_desc \<Rightarrow> tea_msg \<Rightarrow> ('r, 'ti) table_view \<Rightarrow> ('r, 'ti) table_view go" where
  "tv_Update T D msg v = (case msg of
      KeyMsg k \<Rightarrow>
        if sb_visible (tv_search v)
        then if k \<in> {''esc'', ''enter''}
             then let s1 = sb_Hide T (tv_search v) in
                  Inr (if k = ''esc''
                       then v\<lparr>tv_search := sb_Reset T s1, tv_tbl := SetFilter [] None (tv_tbl v), tv_dirty := True\<rparr>
                       else v\<lparr>tv_search := s1, tv_dirty := True\<rparr>)
             else let s1 = sb_Update T msg (tv_search v) in
                  Inr (v\<lparr>tv_search := s1, tv_tbl := SetFilter (sb_Value T s1) (Some (vd_match D)) (tv_tbl v), tv_dirty := True\<rparr>)
        else if k = ''/'' then Inr (v\<lparr>tv_search := sb_Show T (tv_search v), tv_dirty := True\<rparr>)
        else go_bind (Table_Update k (tv_tbl v)) (\<lambda>t. Inr (v\<lparr>tv_tbl := t, tv_dirty := True\<rparr>))
    | _ \<Rightarrow> Inr (v\<lparr>tv_dirty := True\<rparr>))"

definition tv_render :: "'ti textinput \<Rightarrow> 'r view_desc \<Rightarrow> ('r, 'ti) table_view \<Rightarrow> drawn go" where
  "tv_render T D v = go_bind (View_table (tv_tbl v)) (\<lambda>body. Inr (tv_theme v, vd_title D, body, sb_View T (tv_w v) (tv_search v)))"

definition tv_View :: "'ti textinput \<Rightarrow> 'r view_desc \<Rightarrow> ('r, 'ti) table_view \<Rightarrow> (drawn \<times> ('r, 'ti) table_view) go" where
  "tv_View T D v =
     (if \<not> tv_dirty v \<and> tv_cached v \<noteq> None then Inr (the (tv_cached v), v)
      else go_bind (tv_render T D v) (\<lambda>d. Inr (d, v\<lparr>tv_cached := Some d, tv_dirty := False\<rparr>)))"

section \<open>Columns and rows\<close>

definition mk_col :: "runes \<Rightarrow> int \<Rightarrow> ('r \<Rightarrow> 'r \<Rightarrow> bool) option \<Rightarrow> ('r \<Rightarrow> runes) \<Rightarrow> string \<Rightarrow> 'r Column" where
  "mk_col title w lt fmt align = \<lparr>col_Title = title, col_Width = w, col_Sortable = (lt \<noteq> None),
     col_SortLess = (case lt of None \<Rightarrow> (\<lambda>_ _. False) | Some f \<Rightarrow> f), col_Format = Some (\<lambda>r _. fmt r), col_Align = align\<rparr>"

definition asc :: "('r \<Rightarrow> 'k :: linorder) \<Rightarrow> ('r \<Rightarrow> 'r \<Rightarrow> bool) option" where
  "asc f = Some (\<lambda>a b. f a < f b)"

definition desc :: "('r \<Rightarrow> 'k :: linorder) \<Rightarrow> ('r \<Rightarrow> 'r \<Rightarrow> bool) option" where
  "desc f = Some (\<lambda>a b. f b < f a)"

definition fixed_cell :: "nat \<Rightarrow> rat \<Rightarrow> runes" where "fixed_cell k x = runes_of (show_fixed k x)"
definition int_cell :: "int \<Rightarrow> runes" where "int_cell n = runes_of (show_int n)"
definition dash_cell :: runes where "dash_cell = [8212]"

definition contains_fold :: "string \<Rightarrow> string \<Rightarrow> bool" where
  "contains_fold s q = Contains (ToLower s) (ToLower q)"

definition mebibytes :: "u64 \<Rightarrow> rat" where
  "mebibytes w = fdiv (fdiv (float_of_u64 w) 1024) 1024"

subsection \<open>CPU\<close>

record cpu_row =
  cr_Container :: string
  cr_CPUSec :: rat
  cr_RunqMs :: rat
  cr_CtxPerSec :: rat
  cr_Threads :: int
  cr_NUMALoc :: rat
  cr_NUMARemote :: rat

definition cpu_columns :: "cpu_row Column list" where
  "cpu_columns =
    [mk_col (runes_of ''Container'') 24 (asc cr_Container) (\<lambda>r. trunc (cr_Container r) 24) [],
     mk_col (runes_of ''CPU(s/'' @ [916] @ runes_of ''t)'') 10 (desc cr_CPUSec) (\<lambda>r. fixed_cell 4 (cr_CPUSec r)) ''right'',
     mk_col (runes_of ''RunQ lat ms'') 12 (desc cr_RunqMs) (\<lambda>r. fixed_cell 3 (cr_RunqMs r)) ''right'',
     mk_col (runes_of ''ctx-sw/s'') 10 (desc cr_CtxPerSec) (\<lambda>r. fixed_cell 1 (cr_CtxPerSec r)) ''right'',
     mk_col (runes_of ''Threads'') 8 (desc cr_Threads) (\<lambda>r. int_cell (cr_Threads r)) ''right'',
     mk_col (runes_of ''NUMA Loc%'') 10 (desc cr_NUMALoc)
       (\<lambda>r. if cr_NUMALoc r = 0 \<and> cr_NUMARemote r = 0 then dash_cell else fixed_cell 1 (cr_NUMALoc r)) ''right'',
     mk_col (runes_of ''NUMA Rem%'') 10 (desc cr_NUMARemote)
       (\<lambda>r. if cr_NUMALoc r = 0 \<and> cr_NUMARemote r = 0 then dash_cell else fixed_cell 1 (cr_NUMARemote r)) ''right'']"

definition cpu_row_of :: "CpuSample \<Rightarrow> cpu_row" where
  "cpu_row_of s = \<lparr>cr_Container = cpu_ContainerName s, cr_CPUSec = cpu_CPUSeconds s,
     cr_RunqMs = fmul (cpu_RunqLatencySeconds s) 1000, cr_CtxPerSec = cpu_CtxSwitchesPerSec s,
     cr_Threads = uint (cpu_ThreadCount s), cr_NUMALoc = cpu_NUMALocalPct s, cr_NUMARemote = cpu_NUMARemotePct s\<rparr>"

definition cpu_view :: "(CpuSample list \<Rightarrow> CpuSample list) \<Rightarrow> cpu_row view_desc" where
  "cpu_view srt = \<lparr>vd_title = runes_of ''  '' @ [9656] @ runes_of '' M1 CPU Metrics'', vd_columns = cpu_columns,
     vd_rows = (\<lambda>b. map cpu_row_of (srt (db_CPU b))), vd_match = (\<lambda>r q. contains_fold (cr_Container r) q),
     vd_container = cr_Container\<rparr>"

subsection \<open>Memory\<close>

record mem_row =
  mr_Container :: string
  mr_VirtMB :: rat
  mr_RSSMb :: rat
  mr_PSSMb :: rat
  mr_SharedMB :: rat
  mr_LimitMb :: string
  mr_FaultsSec :: rat
  mr_MajorSec :: rat
  mr_MinorSec :: rat
  mr_PSISome :: rat
  mr_PSIFull :: rat
  mr_TLBMiss :: rat

definition fmtMBOpt :: "rat \<Rightarrow> runes" where
  "fmtMBOpt mb = (if mb = 0 then dash_cell else fixed_cell 2 mb)"

definition mem_columns :: "mem_row Column list" where
  "mem_columns =
    [mk_col (runes_of ''Container'') 22 (asc mr_Container) (\<lambda>r. trunc (mr_Container r) 22) [],
     mk_col (runes_of ''VIRT(MB)'') 9 (desc mr_VirtMB) (\<lambda>r. fmtMBOpt (mr_VirtMB r)) ''right'',
     mk_col (runes_of ''RSS(MB)'') 9 (desc mr_RSSMb) (\<lambda>r. fixed_cell 2 (mr_RSSMb r)) ''right'',
     mk_col (runes_of ''PSS(MB)'') 9 (desc mr_PSSMb) (\<lambda>r. fmtMBOpt (mr_PSSMb r)) ''right'',
     mk_col (runes_of ''Shared(MB)'') 10 (desc mr_SharedMB) (\<lambda>r. fmtMBOpt (mr_SharedMB r)) ''right'',
     mk_col (runes_of ''Limit(MB)'') 10 None (\<lambda>r. runes_of (mr_LimitMb r)) ''right'',
     mk_col (runes_of ''Faults/s'') 9 (desc mr_FaultsSec) (\<lambda>r. fixed_cell 1 (mr_FaultsSec r)) ''right'',
     mk_col (runes_of ''Maj/s'') 7 (desc mr_MajorSec) (\<lambda>r. fixed_cell 1 (mr_MajorSec r)) ''right'',
     mk_col (runes_of ''Min/s'') 7 (desc mr_MinorSec) (\<lambda>r. fixed_cell 1 (mr_MinorSec r)) ''right'',
     mk_col (runes_of ''PSI some%'') 10 (desc mr_PSISome) (\<lambda>r. fixed_cell 2 (mr_PSISome r)) ''right'',
     mk_col (runes_of ''PSI full%'') 10 (desc mr_PSIFull) (\<lambda>r. fixed_cell 2 (mr_PSIFull r)) ''right'',
     mk_col (runes_of ''TLBMiss/s'') 10 (desc mr_TLBMiss) (\<lambda>r. fixed_cell 1 (mr_TLBMiss r)) ''right'']"

definition mem_row_of :: "MemSample \<Rightarrow> mem_row" where
  "mem_row_of s = \<lparr>mr_Container = mem_ContainerName s, mr_VirtMB = mebibytes (mem_VirtBytes s), mr_RSSMb = mebibytes (mem_MemoryBytes s),
     mr_PSSMb = mebibytes (mem_PSSBytes s), mr_SharedMB = mebibytes (mem_SharedBytes s),
     mr_LimitMb = (if 0 < mem_MemoryLimitBytes s then show_fixed 1 (mebibytes (mem_MemoryLimitBytes s)) else ''unlimited''),
     mr_FaultsSec = mem_FaultsPerSec s, mr_MajorSec = mem_MajorPerSec s, mr_MinorSec = mem_MinorPerSec s,
     mr_PSISome = mem_PSISome s, mr_PSIFull = mem_PSIFull s, mr_TLBMiss = mem_TLBMissRate s\<rparr>"

definition mem_view :: "(MemSample list \<Rightarrow> MemSample list) \<Rightarrow> mem_row view_desc" where
  "mem_view srt = \<lparr>vd_title = runes_of ''  '' @ [9656] @ runes_of '' M2 Memory Metrics'', vd_columns = mem_columns,
     vd_rows = (\<lambda>b. map mem_row_of (srt (db_Mem b))), vd_match = (\<lambda>r q. contains_fold (mr_Container r) q),
     vd_container = mr_Container\<rparr>"

subsection \<open>I/O\<close>

record io_row =
  ir_Container :: string
  ir_ReadKBs :: rat
  ir_WriteKBs :: rat
  ir_RP95Ms :: rat
  ir_RP99Ms :: rat
  ir_WP95Ms :: rat
  ir_WP99Ms :: rat

definition io_columns :: "io_row Column list" where
  "io_columns =
    [mk_col (runes_of ''Container'') 24 (asc ir_Container) (\<lambda>r. trunc (ir_Container r) 24) [],
     mk_col (runes_of ''Read KB/s'') 11 (desc ir_ReadKBs) (\<lambda>r. fixed_cell 2 (ir_ReadKBs r)) ''right'',
     mk_col (runes_of ''Write KB/s'') 11 (desc ir_WriteKBs) (\<lambda>r. fixed_cell 2 (ir_WriteKBs r)) ''right'',
     mk_col (runes_of ''R p95 ms'') 9 (desc ir_RP95Ms) (\<lambda>r. fixed_cell 2 (ir_RP95Ms r)) ''right'',
     mk_col (runes_of ''R p99 ms'') 9 (desc ir_RP99Ms) (\<lambda>r. fixed_cell 2 (ir_RP99Ms r)) ''right'',
     mk_col (runes_of ''W p95 ms'') 9 (desc ir_WP95Ms) (\<lambda>r. fixed_cell 2 (ir_WP95Ms r)) ''right'',
     mk_col (runes_of ''W p99 ms'') 9 (desc ir_WP99Ms) (\<lambda>r. fixed_cell 2 (ir_WP99Ms r)) ''right'']"

definition io_row_of :: "DataBatch \<Rightarrow> IoSample \<Rightarrow> io_row" where
  "io_row_of b s = (let rSnaps = window60 b (io_ContainerName s @ '':io_read''); wSnaps = window60 b (io_ContainerName s @ '':io_write'') in
     \<lparr>ir_Container = io_ContainerName s, ir_ReadKBs = fdiv (io_ReadBytesPerSec s) 1024, ir_WriteKBs = fdiv (io_WriteBytesPerSec s) 1024,
      ir_RP95Ms = P95 rSnaps, ir_RP99Ms = P99 rSnaps, ir_WP95Ms = P95 wSnaps, ir_WP99Ms = P99 wSnaps\<rparr>)"

definition io_view :: "(IoSample list \<Rightarrow> IoSample list) \<Rightarrow> io_row view_desc" where
  "io_view srt = \<lparr>vd_title = runes_of ''  '' @ [9656] @ runes_of '' M3 I/O Metrics'', vd_columns = io_columns,
     vd_rows = (\<lambda>b. map (io_row_of b) (srt (db_IO b))), vd_match = (\<lambda>r q. contains_fold (ir_Container r) q),
     vd_container = ir_Container\<rparr>"

subsection \<open>Network\<close>

record net_row =
  nr_Container :: string
  nr_Flows :: int
  nr_Established :: int
  nr_TimeWait :: int
  nr_CloseWait :: int
  nr_Retransmits :: int

definition net_columns :: "net_row Column list" where
  "net_columns =
    [mk_col (runes_of ''Container'') 24 (asc nr_Container) (\<lambda>r. trunc (nr_Container r) 24) [],
     mk_col (runes_of ''Flows'') 7 (desc nr_Flows) (\<lambda>r. int_cell (nr_Flows r)) ''right'',
     mk_col (runes_of ''ESTABL'') 8 (desc nr_Established) (\<lambda>r. int_cell (nr_Established r)) ''right'',
     mk_col (runes_of ''TIM_WAIT'') 10 (desc nr_TimeWait) (\<lambda>r. int_cell (nr_TimeWait r)) ''right'',
     mk_col (runes_of ''CLO_WAIT'') 10 (desc nr_CloseWait) (\<lambda>r. int_cell (nr_CloseWait r)) ''right'',
     mk_col (runes_of ''Retransmit'') 11 (desc nr_Retransmits) (\<lambda>r. int_cell (nr_Retransmits r)) ''right'']"

definition net_row_of :: "NetSummary \<Rightarrow> net_row" where
  "net_row_of s = \<lparr>nr_Container = ns_ContainerName s, nr_Flows = ns_ActiveFlows s, nr_Established = ns_Established s,
     nr_TimeWait = ns_TimeWait s, nr_CloseWait = ns_CloseWait s, nr_Retransmits = uint (ns_TotalRetransmits s)\<rparr>"

definition net_view :: "(NetSummary list \<Rightarrow> NetSummary list) \<Rightarrow> net_row view_desc" where
  "net_view srt = \<lparr>vd_title = runes_of ''  '' @ [9656] @ runes_of '' M4 Network Metrics'', vd_columns = net_columns,
     vd_rows = (\<lambda>b. map net_row_of (srt (db_Net b))), vd_match = (\<lambda>r q. contains_fold (nr_Container r) q),
     vd_container = nr_Container\<rparr>"

subsection \<open>Syscalls\<close>

record sys_row =
  sr_Container :: string
  sr_Rank :: int
  sr_SyscallName :: string
  sr_Count :: int
  sr_Failures :: int
  sr_P50Ms :: rat
  sr_P95Ms :: rat
  sr_P99Ms :: rat
  sr_MaxMs :: rat

definition sys_columns :: "sys_row Column list" where
  "sys_columns =
    [mk_col (runes_of ''Container'') 24 (asc sr_Container) (\<lambda>r. trunc (sr_Container r) 24) [],
     mk_col (runes_of ''Rank'') 5 None (\<lambda>r. runes_of (''#'' @ show_int (sr_Rank r))) ''right'',
     mk_col (runes_of ''Syscall'') 16 (asc sr_SyscallName) (\<lambda>r. trunc (sr_SyscallName r) 16) [],
     mk_col (runes_of ''Count'') 10 (desc sr_Count) (\<lambda>r. int_cell (sr_Count r)) ''right'',
     mk_col (runes_of ''Failures'') 9 (desc sr_Failures) (\<lambda>r. int_cell (sr_Failures r)) ''right'',
     mk_col (runes_of ''p50 ms'') 8 (desc sr_P50Ms) (\<lambda>r. fixed_cell 2 (sr_P50Ms r)) ''right'',
     mk_col (runes_of ''p95 ms'') 8 (desc sr_P95Ms) (\<lambda>r. fixed_cell 2 (sr_P95Ms r)) ''right'',
     mk_col (runes_of ''p99 ms'') 8 (desc sr_P99Ms) (\<lambda>r. fixed_cell 2 (sr_P99Ms r)) ''right'',
     mk_col (runes_of ''Max ms'') 8 (desc sr_MaxMs) (\<lambda>r. fixed_cell 2 (sr_MaxMs r)) ''right'']"

definition sys_row_of :: "DataBatch \<Rightarrow> SyscallSummary \<Rightarrow> sys_row" where
  "sys_row_of b s = (let snaps = window60 b (ss_ContainerName s @ '':sys_'' @ show_nat (unat (ss_SyscallID s))) in
     \<lparr>sr_Container = ss_ContainerName s, sr_Rank = ss_Rank s, sr_SyscallName = ss_SyscallName s, sr_Count = sint (ss_Count s),
      sr_Failures = sint (ss_Failures s), sr_P50Ms = P50 snaps, sr_P95Ms = P95 snaps, sr_P99Ms = P99 snaps, sr_MaxMs = PMax snaps\<rparr>)"

definition sys_view :: "(SyscallSummary list \<Rightarrow> SyscallSummary list) \<Rightarrow> sys_row view_desc" where
  "sys_view srt = \<lparr>vd_title = runes_of ''  '' @ [9656] @ runes_of '' M6 Syscall Top-5 per Container'', vd_columns = sys_columns,
     vd_rows = (\<lambda>b. map (sys_row_of b) (srt (db_Sys b))),
     vd_match = (\<lambda>r q. contains_fold (sr_Container r) q \<or> contains_fold (sr_SyscallName r) q), vd_container = sr_Container\<rparr>"

section \<open>The views of the packages\<close>

text \<open>The methods of each package.\<close>

definition cpu_New :: "'ti textinput \<Rightarrow> string \<Rightarrow> (cpu_row, 'ti) table_view" where
  "cpu_New T th = tv_New T (cpu_view id) th"

definition cpu_SetData :: "(CpuSample list \<Rightarrow> CpuSample list) \<Rightarrow> DataBatch \<Rightarrow> (cpu_row, 'ti) table_view \<Rightarrow> (cpu_row, 'ti) table_view" where
  "cpu_SetData srt = tv_SetData (cpu_view srt)"

definition cpu_Update :: "'ti textinput \<Rightarrow> tea_msg \<Rightarrow> (cpu_row, 'ti) table_view \<Rightarrow> (cpu_row, 'ti) table_view go" where
  "cpu_Update T = tv_Update T (cpu_view id)"

definition cpu_View :: "'ti textinput \<Rightarrow> (cpu_row, 'ti) table_view \<Rightarrow> (drawn \<times> (cpu_row, 'ti) table_view) go" where
  "cpu_View T = tv_View T (cpu_view id)"

definition cpu_SelectedContainer :: "(cpu_row, 'ti) table_view \<Rightarrow> string go" where
  "cpu_SelectedContainer = tv_SelectedContainer (cpu_view id)"

definition mem_New :: "'ti textinput \<Rightarrow> string \<Rightarrow> (mem_row, 'ti) table_view" where
  "mem_New T th = tv_New T (mem_view id) th"

definition mem_SetData :: "(MemSample list \<Rightarrow> MemSample list) \<Rightarrow> DataBatch \<Rightarrow> (mem_row, 'ti) table_view \<Rightarrow> (mem_row, 'ti) table_view" where
  "mem_SetData srt = tv_SetData (mem_view srt)"

definition mem_Update :: "'ti textinput \<Rightarrow> tea_msg \<Rightarrow> (mem_row, 'ti) table_view \<Rightarrow> (mem_row, 'ti) table_view go" where
  "mem_Update T = tv_Update T (mem_view id)"

definition mem_View :: "'ti textinput \<Rightarrow> (mem_row, 'ti) table_view \<Rightarrow> (drawn \<times> (mem_row, 'ti) table_view) go" where
  "mem_View T = tv_View T (mem_view id)"

definition mem_SelectedContainer :: "(mem_row, 'ti) table_view \<Rightarrow> string go" where
  "mem_SelectedContainer = tv_SelectedContainer (mem_view id)"

definition io_New :: "'ti textinput \<Rightarrow> string \<Rightarrow> (io_row, 'ti) table_view" where
  "io_New T th = tv_New T (io_view id) th"

definition io_SetData :: "(IoSample list \<Rightarrow> IoSample list) \<Rightarrow> DataBatch \<Rightarrow> (io_row, 'ti) table_view \<Rightarrow> (io_row, 'ti) table_view" where
  "io_SetData srt = tv_SetData (io_view srt)"

definition io_Update :: "'ti textinput \<Rightarrow> tea_msg \<Rightarrow> (io_row, 'ti) table_view \<Rightarrow> (io_row, 'ti) table_view go" where
  "io_Update T = tv_Update T (io_view id)"

definition io_View :: "'ti textinput \<Rightarrow> (io_row, 'ti) table_view \<Rightarrow> (drawn \<times> (io_row, 'ti) table_view) go" where
  "io_View T = tv_View T (io_view id)"

definition io_SelectedContainer :: "(io_row, 'ti) table_view \<Rightarrow> string go" where
  "io_SelectedContainer = tv_SelectedContainer (io_view id)"

definition net_New :: "'ti textinput \<Rightarrow> string \<Rightarrow> (net_row, 'ti) table_view" where
  "net_New T th = tv_New T (net_view id) th"

definition net_SetData :: "(NetSummary list \<Rightarrow> NetSummary list) \<Rightarrow> DataBatch \<Rightarrow> (net_row, 'ti) table_view \<Rightarrow> (net_row, 'ti) table_view" where
  "net_SetData srt = tv_SetData (net_view srt)"

definition net_Update :: "'ti textinput \<Rightarrow> tea_msg \<Rightarrow> (net_row, 'ti) table_view \<Rightarrow> (net_row, 'ti) table_view go" where
  "net_Update T = tv_Update T (net_view id)"

definition net_View :: "'ti textinput \<Rightarrow> (net_row, 'ti) table_view \<Rightarrow> (drawn \<times> (net_row, 'ti) table_view) go" where
  "net_View T = tv_View T (net_view id)"

definition net_SelectedContainer :: "(net_row, 'ti) table_view \<Rightarrow> string go" where
  "net_SelectedContainer = tv_SelectedContainer (net_view id)"

definition sys_New :: "'ti textinput \<Rightarrow> string \<Rightarrow> (sys_row, 'ti) table_view" where
  "sys_New T th = tv_New T (sys_view id) th"

definition sys_SetData :: "(SyscallSummary list \<Rightarrow> SyscallSummary list) \<Rightarrow> DataBatch \<Rightarrow> (sys_row, 'ti) table_view \<Rightarrow> (sys_row, 'ti) table_view" where
  "sys_SetData srt = tv_SetData (sys_view srt)"

definition sys_Update :: "'ti textinput \<Rightarrow> tea_msg \<Rightarrow> (sys_row, 'ti) table_view \<Rightarrow> (sys_row, 'ti) table_view go" where
  "sys_Update T = tv_Update T (sys_view id)"

definition sys_View :: "'ti textinput \<Rightarrow> (sys_row, 'ti) table_view \<Rightarrow> (drawn \<times> (sys_row, 'ti) table_view) go" where
  "sys_View T = tv_View T (sys_view id)"

definition sys_SelectedContainer :: "(sys_row, 'ti) table_view \<Rightarrow> string go" where
  "sys_SelectedContainer = tv_SelectedContainer (sys_view id)"

section \<open>The view contract\<close>

datatype view_op = VData DataBatch | VSize int int | VTheme string | VFocus | VBlur | VMsg tea_msg | VDraw

fun view_step :: "'ti textinput \<Rightarrow> 'r view_desc \<Rightarrow> view_op \<Rightarrow> ('r, 'ti) table_view \<Rightarrow> ('r, 'ti) table_view go" where
  "view_step T D (VData b) v = Inr (tv_SetData D b v)"
| "view_step T D (VSize w h) v = Inr (tv_SetSize w h v)"
| "view_step T D (VTheme th) v = Inr (tv_SetTheme th v)"
| "view_step T D VFocus v = Inr (tv_Focus v)"
| "view_step T D VBlur v = Inr (tv_Blur v)"
| "view_step T D (VMsg m) v = tv_Update T D m v"
| "view_step T D VDraw v = go_bind (tv_View T D v) (\<lambda>(_, v'). Inr v')"

text \<open>
  The invariant of a view: its table is well formed, and the table's filter is the text of the search bar
  with the view's filter function.
\<close>

definition tv_ok :: "'ti textinput \<Rightarrow> 'r view_desc \<Rightarrow> ('r, 'ti) table_view \<Rightarrow> bool" where
  "tv_ok T D v \<longleftrightarrow> table_ok (tv_tbl v) \<and> t_columns (tv_tbl v) = vd_columns D \<and>
     t_filter (tv_tbl v) = sb_Value T (tv_search v) \<and>
     (t_filter (tv_tbl v) \<noteq> [] \<longrightarrow> t_filterFn (tv_tbl v) = Some (vd_match D))"

lemma filter_fields [simp]:
  "t_filter (SetRows rows m) = t_filter m" "t_filterFn (SetRows rows m) = t_filterFn m"
  "t_filter (SetFilter q fn m) = q" "t_filterFn (SetFilter q fn m) = fn"
  "t_filter (SetSize_table w h m) = t_filter m" "t_filterFn (SetSize_table w h m) = t_filterFn m"
  "t_filter (Focus_table m) = t_filter m" "t_filterFn (Focus_table m) = t_filterFn m"
  "t_filter (Blur_table m) = t_filter m" "t_filterFn (Blur_table m) = t_filterFn m"
  by (simp_all add: SetRows_def SetFilter_def SetSize_table_def Focus_table_def Blur_table_def reindex_def Let_def)

lemma cycleSort_filter:
  "cycleSort b m = Inr m' \<Longrightarrow> t_filter m' = t_filter m \<and> t_filterFn m' = t_filterFn m"
proof -
  have "next_sort st is m = Inr m' \<Longrightarrow> t_filter m' = t_filter m \<and> t_filterFn m' = t_filterFn m" for st "is"
    by (induction st "is" m rule: next_sort.induct) (auto simp: reindex_def Let_def split: if_splits)
  moreover have "prev_sort st is m = Inr m' \<Longrightarrow> t_filter m' = t_filter m \<and> t_filterFn m' = t_filterFn m" for st "is"
    by (induction st "is" m rule: prev_sort.induct) (auto simp: reindex_def Let_def split: if_splits)
  ultimately show "cycleSort b m = Inr m' \<Longrightarrow> t_filter m' = t_filter m \<and> t_filterFn m' = t_filterFn m"
    by (auto simp: cycleSort_def split: if_splits)
qed

lemma Table_Update_filter:
  assumes "Table_Update k m = Inr m'"
  shows "t_filter m' = t_filter m \<and> t_filterFn m' = t_filterFn m"
proof -
  have mv: "t_filter (moveUp n m) = t_filter m" "t_filterFn (moveUp n m) = t_filterFn m"
    "t_filter (moveDown n m) = t_filter m" "t_filterFn (moveDown n m) = t_filterFn m"
    "t_filter (scrollToCursor (m\<lparr>t_cursor := c\<rparr>)) = t_filter m" "t_filterFn (scrollToCursor (m\<lparr>t_cursor := c\<rparr>)) = t_filterFn m" for n c
    by (simp_all add: moveUp_def moveDown_def scrollToCursor_def Let_def)
  show ?thesis
    using Table_Update_outcomes [of k m] assms cycleSort_filter [of _ m m'] by (auto simp: mv split: if_splits)
qed

lemma Table_Update_columns: "Table_Update k m = Inr m' \<Longrightarrow> t_columns m' = t_columns m"
  using table_step_columns [of "Key k" m m'] by (simp add: table_step_def)

locale table_view_kind =
  fixes D :: "'r view_desc"
  assumes columns_ordered: "\<forall>c \<in> set (vd_columns D). strict_weak (col_SortLess c)"
    and columns_wide: "\<forall>c \<in> set (vd_columns D). 0 \<le> col_Width c"
begin

lemma ordered: "t_columns m = vd_columns D \<Longrightarrow> ordered_columns m"
  using columns_ordered by (simp add: ordered_columns_def)

lemma New_ok: "textinput_laws T \<Longrightarrow> tv_ok T D (tv_New T D th)"
  using table_ok_new [of "vd_columns D"] sb_values(4) [of T]
  by (simp add: tv_ok_def tv_New_def) (simp add: New_table_def)

lemma SetData_ok: "tv_ok T D v \<Longrightarrow> tv_ok T D (tv_SetData D b v)"
  using SetRows_ok [of "tv_tbl v" "vd_rows D b"] ordered [of "tv_tbl v"] by (simp add: tv_ok_def tv_SetData_def)

lemma SetSize_ok: "tv_ok T D v \<Longrightarrow> tv_ok T D (tv_SetSize w h v)"
  by (simp add: tv_ok_def tv_SetSize_def SetSize_table_def)

lemma SetTheme_ok: "tv_ok T D v \<Longrightarrow> tv_ok T D (tv_SetTheme th v)"
  by (simp add: tv_ok_def tv_SetTheme_def)

lemma Focus_ok: "tv_ok T D v \<Longrightarrow> tv_ok T D (tv_Focus v)" "tv_ok T D v \<Longrightarrow> tv_ok T D (tv_Blur v)"
  by (simp_all add: tv_ok_def tv_Focus_def tv_Blur_def) (simp_all add: Focus_table_def Blur_table_def)

lemma View_ok: "tv_ok T D v \<Longrightarrow> tv_View T D v = Inr (d, v') \<Longrightarrow> tv_ok T D v'"
  by (auto simp: tv_ok_def tv_View_def split: if_splits)

lemma Update_ok:
  assumes "textinput_laws T" and "tv_ok T D v" and "tv_Update T D m v = Inr v'"
  shows "tv_ok T D v'"
proof (cases "\<exists>k. m = KeyMsg k")
  case False
  then have "v' = v\<lparr>tv_dirty := True\<rparr>" using assms(3) by (cases m) (simp_all add: tv_Update_def)
  then show ?thesis using assms(2) by (simp add: tv_ok_def)
next
  case True
  then obtain k where k: "m = KeyMsg k" by blast
  have ok: "table_ok (tv_tbl v)" "ordered_columns (tv_tbl v)" using assms(2) ordered by (simp_all add: tv_ok_def)
  note filt = SetFilter_ok [OF ok]
  show ?thesis
  proof (cases "sb_visible (tv_search v)")
    case True
    then show ?thesis using assms(2,3) k filt sb_values [OF assms(1)] ok(1)
      by (auto simp: tv_Update_def tv_ok_def Let_def split: if_splits)
  next
    case hidden: False
    show ?thesis
    proof (cases "k = ''/''")
      case True
      then show ?thesis using assms(2,3) k hidden sb_values [OF assms(1)] by (auto simp: tv_Update_def tv_ok_def)
    next
      case False
      then obtain t where t: "Table_Update k (tv_tbl v) = Inr t" "v' = v\<lparr>tv_tbl := t, tv_dirty := True\<rparr>"
        using assms(3) k hidden by (auto simp: tv_Update_def)
      with Table_Update_ok [OF ok t(1)] Table_Update_columns [OF t(1)] Table_Update_filter [OF t(1)] assms(2)
      show ?thesis by (simp add: tv_ok_def)
    qed
  qed
qed

lemma step_ok:
  assumes "textinput_laws T" and "tv_ok T D v" and "view_step T D a v = Inr v'"
  shows "tv_ok T D v'"
  using assms Update_ok [OF assms(1,2)] SetData_ok [OF assms(2)] SetSize_ok [OF assms(2)] SetTheme_ok [OF assms(2)] Focus_ok [OF assms(2)] View_ok [OF assms(2)]
  by (cases a) (auto split: prod.splits)

lemma run_ok:
  "textinput_laws T \<Longrightarrow> tv_ok T D v \<Longrightarrow> go_fold (view_step T D) ops v = Inr v' \<Longrightarrow> tv_ok T D v'"
  by (induction ops arbitrary: v) (auto dest: step_ok)

lemma row_shown_match:
  assumes "tv_ok T D v"
  shows "row_shown (tv_tbl v) r \<longleftrightarrow> sb_Value T (tv_search v) = [] \<or> vd_match D r (sb_Value T (tv_search v))"
  using assms by (cases "t_filterFn (tv_tbl v)") (auto simp: tv_ok_def row_shown_def)

text \<open>What a view shows: the rows of the last batch that match the search text, and the selected one among them.\<close>

lemma view_contents:
  assumes "tv_ok T D v"
  defines "q \<equiv> sb_Value T (tv_search v)"
  shows "mset (map ((!) (t_rows (tv_tbl v))) (t_visible (tv_tbl v))) = mset (filter (\<lambda>r. q = [] \<or> vd_match D r q) (t_rows (tv_tbl v)))"
    and "\<exists>c. tv_SelectedContainer D v = Inr c \<and>
      (if filter (\<lambda>r. q = [] \<or> vd_match D r q) (t_rows (tv_tbl v)) = [] then c = []
       else c \<in> vd_container D ` set (filter (\<lambda>r. q = [] \<or> vd_match D r q) (t_rows (tv_tbl v))))"
proof -
  let ?rows = "t_rows (tv_tbl v)" and ?P = "\<lambda>r. q = [] \<or> vd_match D r q"
  have shown: "row_shown (tv_tbl v) r \<longleftrightarrow> ?P r" for r using row_shown_match [OF assms(1)] by (simp add: q_def)
  have "mset (t_visible (tv_tbl v)) = mset (filter (\<lambda>i. row_shown (tv_tbl v) (?rows ! i)) [0..<length ?rows])"
    using assms(1) by (simp add: tv_ok_def table_ok_def indexed_def)
  then have "mset (map ((!) ?rows) (t_visible (tv_tbl v))) = mset (map ((!) ?rows) (filter (\<lambda>i. ?P (?rows ! i)) [0..<length ?rows]))"
    by (simp add: shown)
  also have "map ((!) ?rows) (filter (\<lambda>i. ?P (?rows ! i)) [0..<length ?rows]) = filter ?P (map ((!) ?rows) [0..<length ?rows])"
    by (simp add: filter_map o_def)
  finally show "mset (map ((!) ?rows) (t_visible (tv_tbl v))) = mset (filter ?P ?rows)" by (simp add: map_nth)
  have "table_ok (tv_tbl v)" using assms(1) by (simp add: tv_ok_def)
  from SelectedRow_shown [OF this] obtain r where r: "SelectedRow (tv_tbl v) = Inr r"
    "r = None \<longleftrightarrow> (\<forall>x \<in> set ?rows. \<not> ?P x)" "\<forall>x. r = Some x \<longrightarrow> x \<in> set ?rows \<and> ?P x" unfolding shown by blast
  then show "\<exists>c. tv_SelectedContainer D v = Inr c \<and>
      (if filter ?P ?rows = [] then c = [] else c \<in> vd_container D ` set (filter ?P ?rows))"
    by (cases r) (auto simp: tv_SelectedContainer_def filter_empty_conv)
qed

end

lemma mk_col_ordered [simp]:
  "strict_weak (col_SortLess (mk_col t w (asc f) fmt al))" "strict_weak (col_SortLess (mk_col t w (desc f) fmt al))"
  "strict_weak (col_SortLess (mk_col t w None fmt al))" "col_Width (mk_col t w l fmt al) = w"
  by (simp_all add: mk_col_def asc_def desc_def strict_weak_key strict_weak_key_desc) (simp add: strict_weak_def)

interpretation cpu: table_view_kind "cpu_view srt" for srt
  by unfold_locales (simp_all add: cpu_view_def cpu_columns_def)

interpretation mem: table_view_kind "mem_view srt" for srt
  by unfold_locales (simp_all add: mem_view_def mem_columns_def)

interpretation io: table_view_kind "io_view srt" for srt
  by unfold_locales (simp_all add: io_view_def io_columns_def)

interpretation net: table_view_kind "net_view srt" for srt
  by unfold_locales (simp_all add: net_view_def net_columns_def)

interpretation sys: table_view_kind "sys_view srt" for srt
  by unfold_locales (simp_all add: sys_view_def sys_columns_def)

section \<open>What the views show\<close>

text \<open>
  A drawing shows whether the table had the focus. \<^verbatim>\<open>Focus\<close> and \<^verbatim>\<open>Blur\<close> do not invalidate the
  cache, so \<^verbatim>\<open>View\<close> may show an old focus: the current one at the first drawing after an operation
  that invalidates, and that one ever after. The specification keeps the current focus and the one in the
  valid cache, if there is one.
\<close>

definition refocus :: "bool \<Rightarrow> ('r, 'ti) table_view \<Rightarrow> ('r, 'ti) table_view" where
  "refocus b v = v\<lparr>tv_tbl := (tv_tbl v)\<lparr>t_focused := b\<rparr>\<rparr>"

fun note_focus :: "view_op \<Rightarrow> bool \<times> bool option \<Rightarrow> bool \<times> bool option" where
  "note_focus VFocus (f, g) = (True, g)"
| "note_focus VBlur (f, g) = (False, g)"
| "note_focus VDraw (f, g) = (f, Some (case g of None \<Rightarrow> f | Some b \<Rightarrow> b))"
| "note_focus _ (f, g) = (f, None)"

definition shown_focus :: "view_op list \<Rightarrow> bool" where
  "shown_focus ops = (case fold note_focus ops (False, None) of (f, g) \<Rightarrow> (case g of None \<Rightarrow> f | Some b \<Rightarrow> b))"

text \<open>
  The abstract state of a table view is the rows of the last batch, the search text and the focus shown; the
  contract relates a view to it.
\<close>

definition view_refines :: "'ti textinput \<Rightarrow> 'r view_desc \<Rightarrow> ('r, 'ti) table_view \<Rightarrow> 'r list \<Rightarrow> bool \<Rightarrow> bool" where
  "view_refines T D v rows b \<longleftrightarrow>
     (let q = sb_Value T (tv_search v); shown = filter (\<lambda>r. q = [] \<or> vd_match D r q) rows in
      mset (map ((!) (t_rows (tv_tbl v))) (t_visible (tv_tbl v))) = mset shown \<and>
      (\<exists>c. tv_SelectedContainer D v = Inr c \<and> (if shown = [] then c = [] else c \<in> vd_container D ` set shown)) \<and>
      map_sum id fst (tv_View T D v) = tv_render T D (refocus b v))"

fun last_rows :: "'r view_desc \<Rightarrow> view_op list \<Rightarrow> 'r list \<Rightarrow> 'r list" where
  "last_rows D [] rows = rows"
| "last_rows D (a # ops) rows = last_rows D ops (case a of VData b \<Rightarrow> vd_rows D b | _ \<Rightarrow> rows)"

lemma rows_fields [simp]:
  "t_rows (SetRows rows m) = rows" "t_rows (SetFilter q fn m) = t_rows m" "t_rows (SetSize_table w h m) = t_rows m"
  "t_rows (Focus_table m) = t_rows m" "t_rows (Blur_table m) = t_rows m"
  by (simp_all add: SetRows_def SetFilter_def SetSize_table_def Focus_table_def Blur_table_def reindex_def Let_def)

lemma Table_Update_rows:
  assumes "Table_Update k m = Inr m'"
  shows "t_rows m' = t_rows m"
proof -
  have mv: "t_rows (moveUp n m) = t_rows m" "t_rows (moveDown n m) = t_rows m" "t_rows (scrollToCursor (m\<lparr>t_cursor := c\<rparr>)) = t_rows m" for n c
    by (simp_all add: moveUp_def moveDown_def scrollToCursor_def Let_def)
  have "next_sort st is m = Inr m' \<Longrightarrow> t_rows m' = t_rows m" for st "is"
    by (induction st "is" m rule: next_sort.induct) (auto simp: reindex_def Let_def split: if_splits)
  moreover have "prev_sort st is m = Inr m' \<Longrightarrow> t_rows m' = t_rows m" for st "is"
    by (induction st "is" m rule: prev_sort.induct) (auto simp: reindex_def Let_def split: if_splits)
  ultimately have "cycleSort b m = Inr m' \<Longrightarrow> t_rows m' = t_rows m" for b
    by (auto simp: cycleSort_def split: if_splits)
  then show ?thesis using Table_Update_outcomes [of k m] assms by (auto simp: mv split: if_splits)
qed

lemma view_step_rows:
  assumes "view_step T D a v = Inr v'"
  shows "t_rows (tv_tbl v') = (case a of VData b \<Rightarrow> vd_rows D b | _ \<Rightarrow> t_rows (tv_tbl v))"
proof (cases a)
  case (VMsg m)
  show ?thesis
  proof (cases m)
    case (KeyMsg k)
    with VMsg assms show ?thesis
      by (auto simp: tv_Update_def Let_def dest: Table_Update_rows split: if_splits)
  qed (use VMsg assms in \<open>auto simp: tv_Update_def\<close>)
qed (use assms in \<open>auto simp: tv_SetData_def tv_SetSize_def tv_SetTheme_def tv_Focus_def tv_Blur_def tv_View_def split: if_splits\<close>)

lemma run_rows:
  "go_fold (view_step T D) ops v = Inr v' \<Longrightarrow> t_rows (tv_tbl v') = last_rows D ops (t_rows (tv_tbl v))"
  by (induction ops arbitrary: v) (auto dest!: view_step_rows split: view_op.splits)

text \<open>The cache holds the drawing of the current state with the noted focus.\<close>

definition cache_at :: "'ti textinput \<Rightarrow> 'r view_desc \<Rightarrow> ('r, 'ti) table_view \<Rightarrow> bool \<times> bool option \<Rightarrow> bool" where
  "cache_at T D v fg \<longleftrightarrow> t_focused (tv_tbl v) = fst fg \<and> (case snd fg of
      None \<Rightarrow> tv_dirty v \<or> tv_cached v = None
    | Some b \<Rightarrow> \<not> tv_dirty v \<and> (\<exists>d. tv_cached v = Some d \<and> tv_render T D (refocus b v) = Inr d))"

lemma focus_fields [simp]:
  "t_focused (SetRows rows m) = t_focused m" "t_focused (SetFilter q fn m) = t_focused m" "t_focused (SetSize_table w h m) = t_focused m"
  by (simp_all add: SetRows_def SetFilter_def SetSize_table_def Let_def)

lemma Table_Update_focus:
  assumes "Table_Update k m = Inr m'"
  shows "t_focused m' = t_focused m"
proof -
  have mv: "t_focused (moveUp n m) = t_focused m" "t_focused (moveDown n m) = t_focused m" "t_focused (scrollToCursor (m\<lparr>t_cursor := c\<rparr>)) = t_focused m" for n c
    by (simp_all add: moveUp_def moveDown_def scrollToCursor_def Let_def)
  have "next_sort st is m = Inr m' \<Longrightarrow> t_focused m' = t_focused m" for st "is"
    by (induction st "is" m rule: next_sort.induct) (auto split: if_splits)
  moreover have "prev_sort st is m = Inr m' \<Longrightarrow> t_focused m' = t_focused m" for st "is"
    by (induction st "is" m rule: prev_sort.induct) (auto simp: Let_def split: if_splits)
  ultimately have "cycleSort b m = Inr m' \<Longrightarrow> t_focused m' = t_focused m" for b
    by (auto simp: cycleSort_def split: if_splits)
  then show ?thesis using Table_Update_outcomes [of k m] assms by (auto simp: mv split: if_splits)
qed

lemma tv_Update_focus:
  assumes "tv_Update T D msg v = Inr v'"
  shows "t_focused (tv_tbl v') = t_focused (tv_tbl v) \<and> tv_dirty v'"
proof (cases "\<exists>k. msg = KeyMsg k")
  case True
  then show ?thesis using assms by (auto simp: tv_Update_def Let_def dest!: Table_Update_focus split: if_splits)
next
  case False
  then have "v' = v\<lparr>tv_dirty := True\<rparr>" using assms by (cases msg) (simp_all add: tv_Update_def)
  then show ?thesis by simp
qed

lemma refocus_render [simp]:
  "tv_render T D (refocus b (tv_Focus v)) = tv_render T D (refocus b v)" "tv_render T D (refocus b (tv_Blur v)) = tv_render T D (refocus b v)"
  "tv_render T D (refocus (t_focused (tv_tbl v)) v) = tv_render T D v"
  by (simp_all add: tv_render_def refocus_def tv_Focus_def tv_Blur_def Focus_table_def Blur_table_def)

lemma View_cache:
  assumes "cache_at T D v fg"
  shows "map_sum id fst (tv_View T D v) = tv_render T D (refocus (case snd fg of None \<Rightarrow> fst fg | Some b \<Rightarrow> b) v)"
    and "tv_View T D v = Inr (d, v') \<Longrightarrow> cache_at T D v' (note_focus VDraw fg)"
proof -
  obtain f g where fg: "fg = (f, g)" by fastforce
  have f: "t_focused (tv_tbl v) = f" using assms fg by (simp add: cache_at_def)
  have r: "tv_render T D (refocus f (v\<lparr>tv_cached := c, tv_dirty := x\<rparr>)) = tv_render T D v" for c x
    by (simp add: tv_render_def refocus_def f [symmetric])
  have rf: "tv_render T D (refocus f v) = tv_render T D v" unfolding f [symmetric] by simp
  show "map_sum id fst (tv_View T D v) = tv_render T D (refocus (case snd fg of None \<Rightarrow> fst fg | Some b \<Rightarrow> b) v)"
  proof (cases g)
    case None
    then have "tv_View T D v = go_bind (tv_render T D v) (\<lambda>d. Inr (d, v\<lparr>tv_cached := Some d, tv_dirty := False\<rparr>))"
      using assms fg by (auto simp: cache_at_def tv_View_def)
    then show ?thesis using None fg rf by (cases "tv_render T D v") simp_all
  qed (use assms fg in \<open>auto simp: cache_at_def tv_View_def\<close>)
  show "cache_at T D v' (note_focus VDraw fg)" if "tv_View T D v = Inr (d, v')"
  proof (cases g)
    case None
    then show ?thesis using assms fg that r by (auto simp: cache_at_def tv_View_def split: if_splits)
  qed (use assms fg that in \<open>auto simp: cache_at_def tv_View_def\<close>)
qed

lemma view_step_cache:
  assumes "view_step T D a v = Inr v'" and "cache_at T D v fg"
  shows "cache_at T D v' (note_focus a fg)"
proof -
  obtain f g where fg: "fg = (f, g)" by fastforce
  show ?thesis
  proof (cases a)
    case (VMsg m)
    then show ?thesis using assms tv_Update_focus [of T D m v v'] by (auto simp: cache_at_def fg)
  next
    case VDraw
    then show ?thesis using assms View_cache(2) [of T D v fg] by auto
  next
    case VFocus
    then have "v' = tv_Focus v" using assms(1) by simp
    moreover have "t_focused (tv_tbl (tv_Focus v))" "tv_dirty (tv_Focus v) = tv_dirty v" "tv_cached (tv_Focus v) = tv_cached v"
      by (simp_all add: tv_Focus_def Focus_table_def)
    ultimately show ?thesis using assms(2) VFocus by (simp add: cache_at_def fg split: option.splits)
  next
    case VBlur
    then have "v' = tv_Blur v" using assms(1) by simp
    moreover have "\<not> t_focused (tv_tbl (tv_Blur v))" "tv_dirty (tv_Blur v) = tv_dirty v" "tv_cached (tv_Blur v) = tv_cached v"
      by (simp_all add: tv_Blur_def Blur_table_def)
    ultimately show ?thesis using assms(2) VBlur by (simp add: cache_at_def fg split: option.splits)
  qed (use assms in \<open>auto simp: cache_at_def fg tv_SetData_def tv_SetSize_def tv_SetTheme_def\<close>)
qed

lemma run_cache: "go_fold (view_step T D) ops v = Inr v' \<Longrightarrow> cache_at T D v fg \<Longrightarrow> cache_at T D v' (fold note_focus ops fg)"
proof (induction ops arbitrary: v fg)
  case (Cons a ops)
  then obtain v1 where "view_step T D a v = Inr v1" "go_fold (view_step T D) ops v1 = Inr v'" by auto
  with Cons.IH view_step_cache Cons.prems(2) show ?case by fastforce
qed simp

context table_view_kind
begin

lemma run_refines:
  assumes "textinput_laws T" and "go_fold (view_step T D) ops (tv_New T D th) = Inr v"
  shows "view_refines T D v (last_rows D ops []) (shown_focus ops)"
proof -
  have ok: "tv_ok T D v" by (rule run_ok [OF assms(1) New_ok [OF assms(1)] assms(2)])
  have rows: "t_rows (tv_tbl v) = last_rows D ops []"
    using run_rows [OF assms(2)] by (simp add: tv_New_def New_table_def)
  have "cache_at T D (tv_New T D th) (False, None)" by (simp add: cache_at_def tv_New_def New_table_def)
  from View_cache(1) [OF run_cache [OF assms(2) this]]
  have draw: "map_sum id fst (tv_View T D v) = tv_render T D (refocus (shown_focus ops) v)"
    by (simp add: shown_focus_def case_prod_beta)
  show ?thesis using view_contents [OF ok] draw unfolding rows view_refines_def Let_def by blast
qed

text \<open>A step panics only when it sorts backwards or draws.\<close>

lemma step_no_panic:
  assumes "tv_ok T D v" and "a \<noteq> VMsg (KeyMsg ''S'')" and "a \<noteq> VDraw"
  shows "\<exists>v'. view_step T D a v = Inr v'"
proof (cases a)
  case (VMsg m)
  show ?thesis
  proof (cases m)
    case (KeyMsg k)
    have "table_ok (tv_tbl v)" "ordered_columns (tv_tbl v)" using assms(1) ordered by (simp_all add: tv_ok_def)
    from table_step_no_panic [OF this, of "Key k"] VMsg KeyMsg assms(2) obtain t where "Table_Update k (tv_tbl v) = Inr t"
      by (auto simp: table_step_def)
    then show ?thesis using VMsg KeyMsg by (auto simp: tv_Update_def Let_def)
  qed (use VMsg in \<open>auto simp: tv_Update_def\<close>)
qed (use assms(3) in auto)

end

text \<open>
  C7: Each of the five table views implements its abstract specification: after any operations that do
  not panic, the visible rows are exactly the rows of the last batch that match the text in the search
  bar, in some order, the selected container is that of a visible row (empty when there is none), and
  \<^verbatim>\<open>View\<close>, although it caches, returns (or panics on) what drawing the current state from scratch gives,
  except that the highlight of the selected row is the one of the focus shown: the focus at the first
  drawing since the last batch, resize, theme change or message, and the current focus only if nothing was
  drawn since.
\<close>

theorem table_views_refine:
  assumes "textinput_laws T"
  shows "(\<forall>ops v. go_fold (view_step T (cpu_view s1)) ops (tv_New T (cpu_view s1) th) = Inr v \<longrightarrow>
            view_refines T (cpu_view s1) v (last_rows (cpu_view s1) ops []) (shown_focus ops)) \<and>
         (\<forall>ops v. go_fold (view_step T (mem_view s2)) ops (tv_New T (mem_view s2) th) = Inr v \<longrightarrow>
            view_refines T (mem_view s2) v (last_rows (mem_view s2) ops []) (shown_focus ops)) \<and>
         (\<forall>ops v. go_fold (view_step T (io_view s3)) ops (tv_New T (io_view s3) th) = Inr v \<longrightarrow>
            view_refines T (io_view s3) v (last_rows (io_view s3) ops []) (shown_focus ops)) \<and>
         (\<forall>ops v. go_fold (view_step T (net_view s4)) ops (tv_New T (net_view s4) th) = Inr v \<longrightarrow>
            view_refines T (net_view s4) v (last_rows (net_view s4) ops []) (shown_focus ops)) \<and>
         (\<forall>ops v. go_fold (view_step T (sys_view s5)) ops (tv_New T (sys_view s5) th) = Inr v \<longrightarrow>
            view_refines T (sys_view s5) v (last_rows (sys_view s5) ops []) (shown_focus ops))"
  using cpu.run_refines [OF assms] mem.run_refines [OF assms] io.run_refines [OF assms] net.run_refines [OF assms]
    sys.run_refines [OF assms] by blast

definition flows :: "string \<Rightarrow> int \<Rightarrow> NetSummary" where
  "flows name n = \<lparr>ns_CgroupID = 1, ns_ContainerName = name, ns_Established = n, ns_TimeWait = 0, ns_CloseWait = 0, ns_Listen = 0,
     ns_OtherStates = 0, ns_ActiveFlows = n, ns_TotalRetransmits = 0\<rparr>"

definition net_session :: "view_op list" where
  "net_session = [VData (empty_batch 0\<lparr>db_Net := [flows ''web'' 3, flows ''db'' 1]\<rparr>), VFocus,
     VMsg (KeyMsg ''/''), VMsg (KeyMsg ''d'')]"

lemma net_session_run:
  "\<exists>v. go_fold (view_step line_input (net_view id)) net_session (tv_New line_input (net_view id) ''nord'') = Inr v \<and>
     sb_Value line_input (tv_search v) = ''d''"
  by (simp add: net_session_def tv_Update_def tv_SetData_def tv_Focus_def tv_New_def New_searchbar_def line_input_def
      sb_Show_def sb_Update_def sb_Value_def Let_def)

theorem table_views_refine_witness:
  "\<exists>v. go_fold (view_step line_input (net_view id)) net_session (tv_New line_input (net_view id) ''nord'') = Inr v \<and>
     tv_SelectedContainer (net_view id) v = Inr ''db''"
proof -
  obtain v where v: "go_fold (view_step line_input (net_view id)) net_session (tv_New line_input (net_view id) ''nord'') = Inr v"
    "sb_Value line_input (tv_search v) = ''d''" using net_session_run by blast
  have "view_refines line_input (net_view id) v (last_rows (net_view id) net_session []) (shown_focus net_session)"
    using table_views_refine [OF line_input_laws, of id "''nord''" id id id id] v(1) by blast
  moreover have "filter (\<lambda>r. vd_match (net_view id) r ''d'') (last_rows (net_view id) net_session []) = [net_row_of (flows ''db'' 1)]"
    by (simp add: net_session_def net_view_def empty_batch_def net_row_of_def flows_def contains_fold_def Contains_def ToLower_def to_lower_char_def)
  moreover have "vd_container (net_view id) (net_row_of (flows ''db'' 1)) = ''db''"
    by (simp add: net_view_def net_row_of_def flows_def)
  ultimately show ?thesis using v by (auto simp: view_refines_def Let_def)
qed

text \<open>
  The stale highlight: the drawing of a view survives the loss of the focus, although only a table with the
  focus highlights the row under its cursor.
\<close>

lemma blurred_view_stale:
  "tv_View T D v = Inr (d, v') \<Longrightarrow> tv_View T D (tv_Blur v') = Inr (d, tv_Blur v')"
  "0 \<le> t_cursor m \<Longrightarrow> row_style (Focus_table m) (nat (t_cursor m)) = TableSelected" "row_style (Blur_table m) i \<noteq> TableSelected"
  by (auto simp: tv_View_def tv_Blur_def row_style_def Focus_table_def Blur_table_def split: if_splits)

end
