(* ===== verification/SparkViews.thy ===== *)
theory SparkViews
  imports TableViews
begin

text \<open>
  The two views made of sparklines: the graphs tab (internal/tui/views/graphs/graphs.go), which keeps
  five sparklines for each of at most fifty containers, and the overview tab
  (internal/tui/views/overview/overview.go), which keeps two sparklines per container and the recent
  batches. The viewport is a library widget, lines are drawn without colours.
\<close>

section \<open>The text of a sparkline\<close>

definition pad_right :: "nat \<Rightarrow> runes \<Rightarrow> runes" where
  "pad_right n r = r @ replicate (n - length r) 32"

definition pad_left :: "nat \<Rightarrow> runes \<Rightarrow> runes" where
  "pad_left n r = replicate (n - length r) 32 @ r"

definition spark_text :: "string \<times> runes \<times> rat \<times> string \<Rightarrow> runes" where
  "spark_text p = (case p of (label, graph, latest, unit) \<Rightarrow>
     pad_right 8 (runes_of label) @ [32] @ graph @ [32] @ pad_left 6 (fixed_cell 1 latest) @ [32] @ runes_of unit)"

definition spark_line :: "Sparkline \<Rightarrow> runes go" where
  "spark_line m = go_bind (View_sparkline m) (\<lambda>p. Inr (spark_text p))"

section \<open>The graphs view\<close>

datatype metric = MCpu | MMem | MRead | MWrite | MNet

record container_graphs =
  cg_cpu :: Sparkline
  cg_mem :: Sparkline
  cg_ioRead :: Sparkline
  cg_ioWrt :: Sparkline
  cg_net :: Sparkline
  cg_seq :: int

fun cg_spark :: "metric \<Rightarrow> container_graphs \<Rightarrow> Sparkline" where
  "cg_spark MCpu g = cg_cpu g"
| "cg_spark MMem g = cg_mem g"
| "cg_spark MRead g = cg_ioRead g"
| "cg_spark MWrite g = cg_ioWrt g"
| "cg_spark MNet g = cg_net g"

fun cg_put :: "metric \<Rightarrow> Sparkline \<Rightarrow> container_graphs \<Rightarrow> container_graphs" where
  "cg_put MCpu s g = g\<lparr>cg_cpu := s\<rparr>"
| "cg_put MMem s g = g\<lparr>cg_mem := s\<rparr>"
| "cg_put MRead s g = g\<lparr>cg_ioRead := s\<rparr>"
| "cg_put MWrite s g = g\<lparr>cg_ioWrt := s\<rparr>"
| "cg_put MNet s g = g\<lparr>cg_net := s\<rparr>"

record 'vp graphs_view =
  gv_vp :: 'vp
  gv_graphs :: "(string, container_graphs) gomap"
  gv_order :: "string list"
  gv_seq :: int
  gv_theme :: string
  gv_w :: int
  gv_h :: int
  gv_dirty :: bool
  gv_cached :: "(nat \<times> runes list) option"
  gv_focused :: bool

definition maxContainers :: int where "maxContainers = 50"

definition gv_New :: "'vp viewport \<Rightarrow> string \<Rightarrow> 'vp graphs_view" where
  "gv_New V th = \<lparr>gv_vp = vp_New V 80 20, gv_graphs = [], gv_order = [], gv_seq = 0, gv_theme = th, gv_w = 0, gv_h = 0,
     gv_dirty = False, gv_cached = None, gv_focused = False\<rparr>"

definition spark_width :: "int \<Rightarrow> int" where
  "spark_width w = (if w - 2 < 20 then 20 else w - 2)"

definition new_graphs :: "int \<Rightarrow> int \<Rightarrow> container_graphs go" where
  "new_graphs sparkW sq =
     go_bind (New_sparkline ''CPU  '' ''s'' sparkW) (\<lambda>a.
     go_bind (New_sparkline ''MEM  '' ''MB'' sparkW) (\<lambda>b.
     go_bind (New_sparkline ''READ '' ''KB/s'' sparkW) (\<lambda>c.
     go_bind (New_sparkline ''WRITE'' ''KB/s'' sparkW) (\<lambda>d.
     go_bind (New_sparkline ''NET  '' ''flows'' sparkW) (\<lambda>e.
       Inr \<lparr>cg_cpu = a, cg_mem = b, cg_ioRead = c, cg_ioWrt = d, cg_net = e, cg_seq = sq\<rparr>)))))"

text \<open>The name under which a container is filed.\<close>

definition graph_name :: "string \<Rightarrow> string" where
  "graph_name n = (if n = [] then ''<host>'' else n)"

definition evict_oldest :: "'vp graphs_view \<Rightarrow> 'vp graphs_view go" where
  "evict_oldest v =
     (if maxContainers \<le> int (length (gv_graphs v))
      then go_bind (go_index (gv_order v) 0) (\<lambda>oldest.
           go_bind (go_slice (gv_order v) 1 (int (length (gv_order v)))) (\<lambda>rest.
             Inr (v\<lparr>gv_order := rest, gv_graphs := AList.delete oldest (gv_graphs v)\<rparr>)))
      else Inr v)"

definition getOrCreate :: "string \<Rightarrow> 'vp graphs_view \<Rightarrow> (container_graphs \<times> 'vp graphs_view) go" where
  "getOrCreate n v =
     (let name = graph_name n in
      case map_of (gv_graphs v) name of Some g \<Rightarrow> Inr (g, v)
      | None \<Rightarrow>
          go_bind (evict_oldest v) (\<lambda>v1.
          go_bind (new_graphs (spark_width (gv_w v1)) (gv_seq v1 + 1)) (\<lambda>g.
            Inr (g, v1\<lparr>gv_seq := gv_seq v1 + 1, gv_graphs := AList.update name g (gv_graphs v1), gv_order := gv_order v1 @ [name]\<rparr>))))"

text \<open>One sample: find the container's graphs and push onto one of them.\<close>

fun gv_push :: "string \<times> metric \<times> rat \<Rightarrow> 'vp graphs_view \<Rightarrow> 'vp graphs_view go" where
  "gv_push (n, m, x) v =
     go_bind (getOrCreate n v) (\<lambda>(g, v1).
     go_bind (sp_Push (cg_spark m g) x) (\<lambda>s.
       Inr (v1\<lparr>gv_graphs := AList.update (graph_name n) (cg_put m s g) (gv_graphs v1)\<rparr>)))"

definition gv_SetData :: "DataBatch \<Rightarrow> 'vp graphs_view \<Rightarrow> 'vp graphs_view go" where
  "gv_SetData batch v =
     go_bind (go_fold (\<lambda>s. gv_push (cpu_ContainerName s, MCpu, cpu_CPUSeconds s)) (db_CPU batch) v) (\<lambda>v1.
     go_bind (go_fold (\<lambda>s. gv_push (mem_ContainerName s, MMem, mebibytes (mem_MemoryBytes s))) (db_Mem batch) v1) (\<lambda>v2.
     go_bind (go_fold (\<lambda>s v. go_bind (gv_push (io_ContainerName s, MRead, fdiv (io_ReadBytesPerSec s) 1024) v)
                               (gv_push (io_ContainerName s, MWrite, fdiv (io_WriteBytesPerSec s) 1024))) (db_IO batch) v2) (\<lambda>v3.
     go_bind (go_fold (\<lambda>s. gv_push (ns_ContainerName s, MNet, float_of_int (ns_ActiveFlows s))) (db_Net batch) v3) (\<lambda>v4.
       Inr (v4\<lparr>gv_dirty := True, gv_cached := None\<rparr>)))))"

definition cg_widths :: "int \<Rightarrow> container_graphs \<Rightarrow> container_graphs" where
  "cg_widths w g = g\<lparr>cg_cpu := sp_SetWidth w (cg_cpu g), cg_mem := sp_SetWidth w (cg_mem g), cg_ioRead := sp_SetWidth w (cg_ioRead g),
     cg_ioWrt := sp_SetWidth w (cg_ioWrt g), cg_net := sp_SetWidth w (cg_net g)\<rparr>"

definition gv_SetSize :: "'vp viewport \<Rightarrow> int \<Rightarrow> int \<Rightarrow> 'vp graphs_view \<Rightarrow> 'vp graphs_view" where
  "gv_SetSize V w h v = v\<lparr>gv_w := w, gv_h := h, gv_vp := vp_SetSize V w (h - 2) (gv_vp v),
     gv_graphs := map (\<lambda>(n, g). (n, cg_widths (spark_width w) g)) (gv_graphs v), gv_dirty := True, gv_cached := None\<rparr>"

definition gv_SetTheme :: "string \<Rightarrow> 'vp graphs_view \<Rightarrow> 'vp graphs_view" where
  "gv_SetTheme th v = v\<lparr>gv_theme := th, gv_dirty := True, gv_cached := None\<rparr>"

definition gv_Focus :: "bool \<Rightarrow> 'vp graphs_view \<Rightarrow> 'vp graphs_view" where
  "gv_Focus b v = v\<lparr>gv_focused := b\<rparr>"

definition gv_Update :: "'vp viewport \<Rightarrow> tea_msg \<Rightarrow> 'vp graphs_view \<Rightarrow> 'vp graphs_view" where
  "gv_Update V msg v =
     (let vp = gv_vp v in
      case msg of
        KeyMsg k \<Rightarrow> v\<lparr>gv_vp :=
          (if k = ''g'' then vp_GotoTop V vp
           else if k = ''G'' then vp_GotoBottom V vp
           else if k \<in> {''up'', ''k''} then vp_LineUp V 1 vp
           else if k \<in> {''down'', ''j''} then vp_LineDown V 1 vp
           else if k = ''pgup'' then vp_HalfViewUp V vp
           else if k = ''pgdown'' then vp_HalfViewDown V vp
           else vp_Update V msg vp)\<rparr>
      | _ \<Rightarrow> v\<lparr>gv_vp := vp_Update V msg vp\<rparr>)"

fun graph_lines :: "runes \<Rightarrow> (string, container_graphs) gomap \<Rightarrow> string list \<Rightarrow> runes list go" where
  "graph_lines sep gs [] = Inr []"
| "graph_lines sep gs (name # ns) =
     (case map_of gs name of None \<Rightarrow> graph_lines sep gs ns
      | Some g \<Rightarrow>
          go_bind (spark_line (cg_cpu g)) (\<lambda>a.
          go_bind (spark_line (cg_mem g)) (\<lambda>b.
          go_bind (spark_line (cg_ioRead g)) (\<lambda>c.
          go_bind (spark_line (cg_ioWrt g)) (\<lambda>d.
          go_bind (spark_line (cg_net g)) (\<lambda>e.
          go_bind (graph_lines sep gs ns) (\<lambda>rest.
            Inr (([32, 32, 32, 9673, 32, 32] @ runes_of name) # map (\<lambda>l. [32, 32] @ l) [a, b, c, d, e] @ [sep] @ rest))))))))"

definition gv_buildContent :: "'vp graphs_view \<Rightarrow> runes list go" where
  "gv_buildContent v =
     (if gv_graphs v = [] then Inr [runes_of ''  Waiting for container data'' @ [8230]]
      else go_bind (Repeat_runes [9472] (gv_w v)) (\<lambda>sep. graph_lines sep (gv_graphs v) (gv_order v)))"

definition gv_View :: "'vp viewport \<Rightarrow> 'vp graphs_view \<Rightarrow> ((nat \<times> runes list) \<times> 'vp graphs_view) go" where
  "gv_View V v =
     (if \<not> gv_dirty v \<and> gv_cached v \<noteq> None then Inr (the (gv_cached v), v)
      else go_bind (gv_buildContent v) (\<lambda>c.
        let vp = vp_SetContent V c (gv_vp v); d = (length (gv_graphs v), vp_View V vp)
        in Inr (d, v\<lparr>gv_vp := vp, gv_cached := Some d, gv_dirty := False\<rparr>)))"

fun gv_step :: "'vp viewport \<Rightarrow> view_op \<Rightarrow> 'vp graphs_view \<Rightarrow> 'vp graphs_view go" where
  "gv_step V (VData b) v = gv_SetData b v"
| "gv_step V (VSize w h) v = Inr (gv_SetSize V w h v)"
| "gv_step V (VTheme th) v = Inr (gv_SetTheme th v)"
| "gv_step V VFocus v = Inr (gv_Focus True v)"
| "gv_step V VBlur v = Inr (gv_Focus False v)"
| "gv_step V (VMsg m) v = Inr (gv_Update V m v)"
| "gv_step V VDraw v = go_bind (gv_View V v) (\<lambda>(_, v'). Inr v')"

section \<open>The graphs view keeps the recent containers\<close>

text \<open>
  The abstract view: the containers in the order of their first sample, each with all samples of each
  metric since then; at most fifty containers, the oldest leaves first.
\<close>

type_synonym history = "(string \<times> (metric \<Rightarrow> rat list)) list"

fun observe :: "history \<Rightarrow> string \<times> metric \<times> rat \<Rightarrow> history" where
  "observe hs (n, m, x) =
     (let name = graph_name n in
      if name \<in> fst ` set hs then map (\<lambda>(k, h). (k, if k = name then h(m := h m @ [x]) else h)) hs
      else take_last 50 (hs @ [(name, (\<lambda>_. [])(m := [x]))]))"

definition observations :: "DataBatch \<Rightarrow> (string \<times> metric \<times> rat) list" where
  "observations b =
     map (\<lambda>s. (cpu_ContainerName s, MCpu, cpu_CPUSeconds s)) (db_CPU b) @
     map (\<lambda>s. (mem_ContainerName s, MMem, mebibytes (mem_MemoryBytes s))) (db_Mem b) @
     concat (map (\<lambda>s. [(io_ContainerName s, MRead, fdiv (io_ReadBytesPerSec s) 1024), (io_ContainerName s, MWrite, fdiv (io_WriteBytesPerSec s) 1024)]) (db_IO b)) @
     map (\<lambda>s. (ns_ContainerName s, MNet, float_of_int (ns_ActiveFlows s))) (db_Net b)"

fun batches_of :: "view_op list \<Rightarrow> DataBatch list" where
  "batches_of [] = []"
| "batches_of (VData b # ops) = b # batches_of ops"
| "batches_of (_ # ops) = batches_of ops"

definition spark_holds :: "Sparkline \<Rightarrow> rat list \<Rightarrow> bool" where
  "spark_holds s xs \<longleftrightarrow> sparkline_ok s \<and> 120 \<le> b_cap (sp_ring s) \<and> sp_contents s = take_last (nat (b_cap (sp_ring s))) xs"

definition gv_refines :: "'vp graphs_view \<Rightarrow> history \<Rightarrow> bool" where
  "gv_refines v hs \<longleftrightarrow> gv_order v = map fst hs \<and> distinct (map fst hs) \<and> length hs \<le> 50 \<and>
     distinct (keys (gv_graphs v)) \<and> set (keys (gv_graphs v)) = fst ` set hs \<and>
     (\<forall>n h. (n, h) \<in> set hs \<longrightarrow> (\<exists>g. map_of (gv_graphs v) n = Some g \<and> (\<forall>m. spark_holds (cg_spark m g) (h m))))"

lemma cg_spark_put [simp]: "cg_spark m (cg_put m' s g) = (if m = m' then s else cg_spark m g)"
  by (cases m; cases m') simp_all

lemma cg_spark_widths [simp]: "cg_spark m (cg_widths w g) = sp_SetWidth w (cg_spark m g)"
  by (cases m) (simp_all add: cg_widths_def)

lemma New_spark: "\<exists>s. New_sparkline l u w = Inr s \<and> spark_holds s []"
  using New_sparkline_ok [of l u w] by (auto simp: spark_holds_def)

lemma spark_push:
  assumes "spark_holds s xs"
  shows "\<exists>s'. sp_Push s x = Inr s' \<and> spark_holds s' (xs @ [x])"
  using sp_Push_ok [of s x] assms by (auto simp: spark_holds_def take_last_append_take_last)

lemma spark_width [simp]: "spark_holds (sp_SetWidth w s) xs = spark_holds s xs"
  by (simp add: spark_holds_def sp_SetWidth_def sparkline_ok_def sp_contents_def)

lemma new_graphs_ok: "\<exists>g. new_graphs w sq = Inr g \<and> (\<forall>m. spark_holds (cg_spark m g) [])"
proof -
  obtain a b c d e where "New_sparkline ''CPU  '' ''s'' w = Inr a" "New_sparkline ''MEM  '' ''MB'' w = Inr b"
    "New_sparkline ''READ '' ''KB/s'' w = Inr c" "New_sparkline ''WRITE'' ''KB/s'' w = Inr d" "New_sparkline ''NET  '' ''flows'' w = Inr e"
    and h: "spark_holds a []" "spark_holds b []" "spark_holds c []" "spark_holds d []" "spark_holds e []"
    using New_spark by metis
  then have "new_graphs w sq = Inr \<lparr>cg_cpu = a, cg_mem = b, cg_ioRead = c, cg_ioWrt = d, cg_net = e, cg_seq = sq\<rparr>"
    by (simp add: new_graphs_def)
  moreover have "spark_holds (cg_spark m \<lparr>cg_cpu = a, cg_mem = b, cg_ioRead = c, cg_ioWrt = d, cg_net = e, cg_seq = sq\<rparr>) []" for m
    using h by (cases m) simp_all
  ultimately show ?thesis by blast
qed

text \<open>The list of histories once a container is filed, and a sample added to a filed container.\<close>

definition filed :: "history \<Rightarrow> string \<Rightarrow> history" where
  "filed hs name = (if name \<in> fst ` set hs then hs else take_last 50 (hs @ [(name, \<lambda>_. [])]))"

definition log_sample :: "string \<Rightarrow> metric \<Rightarrow> rat \<Rightarrow> history \<Rightarrow> history" where
  "log_sample name m x hs = map (\<lambda>(k, h). (k, if k = name then h(m := h m @ [x]) else h)) hs"

lemma log_sample_absent: "name \<notin> fst ` set hs \<Longrightarrow> log_sample name m x hs = hs"
  by (induction hs) (auto simp: log_sample_def)

lemma log_sample_take_last: "log_sample name m x (take_last k hs) = take_last k (log_sample name m x hs)"
  by (simp add: log_sample_def take_last_def drop_map)

lemma observe_filed: "observe hs (n, m, x) = log_sample (graph_name n) m x (filed hs (graph_name n))"
proof (cases "graph_name n \<in> fst ` set hs")
  case False
  then have "log_sample (graph_name n) m x (hs @ [(graph_name n, \<lambda>_. [])]) = hs @ [(graph_name n, (\<lambda>_. [])(m := [x]))]"
    using log_sample_absent [OF False] by (simp add: log_sample_def)
  then show ?thesis using False by (simp add: filed_def Let_def log_sample_take_last)
qed (simp add: filed_def Let_def log_sample_def)

lemma log_sample_keys [simp]: "map fst (log_sample name m x hs) = map fst hs" "length (log_sample name m x hs) = length hs"
  "fst ` set (log_sample name m x hs) = fst ` set hs"
  by (force simp: log_sample_def)+

lemma gv_refines_log:
  assumes "gv_refines v hs" and "map_of (gv_graphs v) name = Some g" and "\<And>h. (name, h) \<in> set hs \<Longrightarrow> spark_holds s (h m @ [x])"
  shows "gv_refines (v\<lparr>gv_graphs := AList.update name (cg_put m s g) (gv_graphs v)\<rparr>) (log_sample name m x hs)"
proof -
  let ?gs = "AList.update name (cg_put m s g) (gv_graphs v)"
  have name: "name \<in> set (keys (gv_graphs v))" using assms(2) by (force dest: map_of_SomeD)
  then have dk: "keys ?gs = keys (gv_graphs v)" by (simp add: update_keys)
  have "\<exists>g'. map_of ?gs n = Some g' \<and> (\<forall>m'. spark_holds (cg_spark m' g') (h' m'))" if in': "(n, h') \<in> set (log_sample name m x hs)" for n h'
  proof -
    from in' obtain h where h: "(n, h) \<in> set hs" "h' = (if n = name then h(m := h m @ [x]) else h)"
      by (auto simp: log_sample_def)
    with assms(1) obtain g0 where g0: "map_of (gv_graphs v) n = Some g0" "\<forall>m. spark_holds (cg_spark m g0) (h m)"
      unfolding gv_refines_def by blast
    show ?thesis
    proof (cases "n = name")
      case True
      with g0 h assms(2,3) show ?thesis by (auto simp: update_conv')
    next
      case False
      with g0 h show ?thesis by (simp add: update_conv')
    qed
  qed
  then show ?thesis using assms(1) unfolding gv_refines_def by (simp add: dk)
qed

lemma gv_refines_spark:
  assumes "gv_refines v hs" and "(n, h) \<in> set hs" and "map_of (gv_graphs v) n = Some g"
  shows "spark_holds (cg_spark m g) (h m)"
  using assms unfolding gv_refines_def by (metis option.inject)

lemma gv_refines_known: "gv_refines v hs \<Longrightarrow> map_of (gv_graphs v) n = Some g \<Longrightarrow> n \<in> fst ` set hs"
proof -
  assume "gv_refines v hs" and g: "map_of (gv_graphs v) n = Some g"
  then have "set (keys (gv_graphs v)) = fst ` set hs" by (simp only: gv_refines_def)
  moreover have "n \<in> set (keys (gv_graphs v))" using map_of_SomeD [OF g] by force
  ultimately show ?thesis by simp
qed

lemma gv_refines_graph:
  "gv_refines v hs \<Longrightarrow> (n, h) \<in> set hs \<Longrightarrow> \<exists>g. map_of (gv_graphs v) n = Some g \<and> (\<forall>m. spark_holds (cg_spark m g) (h m))"
  by (simp only: gv_refines_def)

lemma gv_refines_tl:
  assumes "gv_refines v ((n0, h0) # hs)"
  shows "gv_refines (v\<lparr>gv_order := map fst hs, gv_graphs := AList.delete n0 (gv_graphs v)\<rparr>) hs"
proof -
  have n0: "n0 \<notin> fst ` set hs" using assms by (simp add: gv_refines_def)
  have "\<exists>g. map_of (AList.delete n0 (gv_graphs v)) n = Some g \<and> (\<forall>m. spark_holds (cg_spark m g) (h m))" if "(n, h) \<in> set hs" for n h
  proof -
    have "n \<noteq> n0" using that n0 by force
    moreover have "\<exists>g. map_of (gv_graphs v) n = Some g \<and> (\<forall>m. spark_holds (cg_spark m g) (h m))"
      by (rule gv_refines_graph [OF assms]) (simp add: that)
    ultimately show ?thesis by (simp add: delete_conv')
  qed
  then show ?thesis using assms n0 unfolding gv_refines_def by (simp add: delete_keys distinct_removeAll)
qed

lemma evict_oldest_filed:
  assumes "gv_refines v hs"
  shows "\<exists>v1. evict_oldest v = Inr v1 \<and> gv_refines v1 (take_last 49 hs)"
proof (cases "length hs = 50")
  case False
  have "length (gv_graphs v) = length hs" using assms unfolding gv_refines_def
    by (metis distinct_card length_map set_map)
  with False assms show ?thesis by (auto simp: evict_oldest_def maxContainers_def gv_refines_def)
next
  case True
  then obtain n0 h0 hs' where hs: "hs = (n0, h0) # hs'" "length hs' = 49" by (cases hs) auto
  have "length (gv_graphs v) = length hs" using assms unfolding gv_refines_def
    by (metis distinct_card length_map set_map)
  with hs True assms have e: "evict_oldest v = Inr (v\<lparr>gv_order := map fst hs', gv_graphs := AList.delete n0 (gv_graphs v)\<rparr>)"
    by (simp add: evict_oldest_def maxContainers_def gv_refines_def go_slice_def)
  moreover have "take_last 49 hs = hs'" using hs by (simp add: take_last_def)
  moreover have "gv_refines (v\<lparr>gv_order := map fst hs', gv_graphs := AList.delete n0 (gv_graphs v)\<rparr>) hs'"
    using gv_refines_tl assms hs(1) by blast
  ultimately show ?thesis by simp
qed

lemma gv_refines_create:
  assumes "gv_refines v hs" and "name \<notin> fst ` set hs" and "length hs \<le> 49" and "\<forall>m. spark_holds (cg_spark m g) []"
  shows "gv_refines (v\<lparr>gv_seq := k, gv_graphs := AList.update name g (gv_graphs v), gv_order := gv_order v @ [name]\<rparr>) (hs @ [(name, \<lambda>_. [])])"
proof -
  have "name \<notin> set (keys (gv_graphs v))" using assms(1,2) by (simp add: gv_refines_def)
  then have ks: "keys (AList.update name g (gv_graphs v)) = keys (gv_graphs v) @ [name]" by (simp add: update_keys)
  have "\<exists>g'. map_of (AList.update name g (gv_graphs v)) n = Some g' \<and> (\<forall>m. spark_holds (cg_spark m g') (h m))"
    if "(n, h) \<in> set (hs @ [(name, \<lambda>_. [])])" for n h
  proof (cases "n = name")
    case True
    with that assms(2,4) show ?thesis by (force simp: update_conv')
  next
    case False
    with that assms(1) show ?thesis by (auto simp: update_conv' gv_refines_def)
  qed
  then show ?thesis using assms ks \<open>name \<notin> set (keys (gv_graphs v))\<close> unfolding gv_refines_def
    by (simp add: set_map [symmetric] del: set_map)
qed

lemma getOrCreate_filed:
  assumes "gv_refines v hs"
  shows "\<exists>g v1. getOrCreate n v = Inr (g, v1) \<and> map_of (gv_graphs v1) (graph_name n) = Some g \<and> gv_refines v1 (filed hs (graph_name n))"
proof (cases "map_of (gv_graphs v) (graph_name n)")
  case (Some g)
  then have "graph_name n \<in> fst ` set hs" using gv_refines_known [OF assms] by blast
  with Some assms show ?thesis by (simp add: getOrCreate_def filed_def)
next
  case None
  then have new: "graph_name n \<notin> fst ` set hs" using assms by (auto simp: gv_refines_def map_of_eq_None_iff)
  from evict_oldest_filed [OF assms] obtain v1 where v1: "evict_oldest v = Inr v1" "gv_refines v1 (take_last 49 hs)" by blast
  obtain g where g: "new_graphs (spark_width (gv_w v1)) (gv_seq v1 + 1) = Inr g" "\<forall>m. spark_holds (cg_spark m g) []"
    using new_graphs_ok by blast
  have "graph_name n \<notin> fst ` set (take_last 49 hs)" using new set_take_last_subset by fastforce
  from gv_refines_create [OF v1(2) this _ g(2)] have "gv_refines (v1\<lparr>gv_seq := gv_seq v1 + 1, gv_graphs := AList.update (graph_name n) g (gv_graphs v1),
      gv_order := gv_order v1 @ [graph_name n]\<rparr>) (take_last 49 hs @ [(graph_name n, \<lambda>_. [])])" by simp
  moreover have "take_last 49 hs @ [(graph_name n, \<lambda>_. [])] = filed hs (graph_name n)" using new by (simp add: filed_def take_last_def)
  ultimately show ?thesis using None v1(1) g(1) by (simp add: getOrCreate_def Let_def update_conv')
qed

lemma gv_push_observe:
  assumes "gv_refines v hs"
  shows "\<exists>v1. gv_push ob v = Inr v1 \<and> gv_refines v1 (observe hs ob)"
proof -
  obtain n m x where ob: "ob = (n, m, x)" by (cases ob) auto
  let ?hs = "filed hs (graph_name n)"
  obtain g v1 where g: "getOrCreate n v = Inr (g, v1)" "map_of (gv_graphs v1) (graph_name n) = Some g" "gv_refines v1 ?hs"
    using getOrCreate_filed [OF assms] by blast
  then have "graph_name n \<in> fst ` set ?hs" using gv_refines_known by blast
  then obtain h where h: "(graph_name n, h) \<in> set ?hs" by auto
  have uniq: "h' = h" if "(graph_name n, h') \<in> set ?hs" for h'
    using that h g(3) eq_key_imp_eq_value [of ?hs] by (auto simp: gv_refines_def)
  have "spark_holds (cg_spark m g) (h m)" by (rule gv_refines_spark [OF g(3) h g(2)])
  then obtain s where s: "sp_Push (cg_spark m g) x = Inr s" "spark_holds s (h m @ [x])" using spark_push by blast
  have "gv_refines (v1\<lparr>gv_graphs := AList.update (graph_name n) (cg_put m s g) (gv_graphs v1)\<rparr>) (log_sample (graph_name n) m x ?hs)"
    by (rule gv_refines_log [OF g(3) g(2)]) (use s(2) uniq in blast)
  then show ?thesis using g(1) s(1) unfolding ob observe_filed by simp
qed

lemma gv_fold_observe:
  assumes "gv_refines v hs"
  shows "\<exists>v1. go_fold gv_push obs v = Inr v1 \<and> gv_refines v1 (foldl observe hs obs)"
  using assms
proof (induction obs arbitrary: v hs)
  case (Cons ob obs)
  from gv_push_observe [OF Cons.prems, of ob] obtain v1 where "gv_push ob v = Inr v1" "gv_refines v1 (observe hs ob)" by blast
  with Cons.IH [of v1 "observe hs ob"] show ?case by simp
qed simp

lemma go_fold_map: "go_fold f (map g xs) s = go_fold (\<lambda>x. f (g x)) xs s"
proof (induction xs arbitrary: s)
  case (Cons x xs)
  then show ?case by (cases "f (g x) s") simp_all
qed simp

lemma go_fold_pairs: "go_fold f (concat (map (\<lambda>x. [g x, h x]) xs)) s = go_fold (\<lambda>x s. go_bind (f (g x) s) (f (h x))) xs s"
proof (induction xs arbitrary: s)
  case (Cons x xs)
  show ?case
  proof (cases "f (g x) s")
    case (Inr t)
    then show ?thesis using Cons by (cases "f (h x) t") simp_all
  qed simp
qed simp

lemma go_bind_assoc: "go_bind (go_bind m f) g = go_bind m (\<lambda>x. go_bind (f x) g)"
  by (cases m) simp_all

lemma gv_SetData_observations:
  "gv_SetData b v = go_bind (go_fold gv_push (observations b) v) (\<lambda>v1. Inr (v1\<lparr>gv_dirty := True, gv_cached := None\<rparr>))"
  by (simp add: gv_SetData_def observations_def go_fold_append go_fold_map go_fold_pairs go_bind_assoc)

lemma gv_refines_fields [simp]:
  "gv_refines (v\<lparr>gv_vp := p\<rparr>) hs = gv_refines v hs" "gv_refines (v\<lparr>gv_dirty := d\<rparr>) hs = gv_refines v hs"
  "gv_refines (v\<lparr>gv_cached := c\<rparr>) hs = gv_refines v hs" "gv_refines (v\<lparr>gv_theme := th\<rparr>) hs = gv_refines v hs"
  "gv_refines (v\<lparr>gv_focused := f\<rparr>) hs = gv_refines v hs" "gv_refines (v\<lparr>gv_w := w\<rparr>) hs = gv_refines v hs"
  "gv_refines (v\<lparr>gv_h := h\<rparr>) hs = gv_refines v hs"
  by (simp_all add: gv_refines_def)

lemma gv_refines_swap:
  assumes "gv_refines v hs" and "keys gs = keys (gv_graphs v)"
    and "\<And>n h. (n, h) \<in> set hs \<Longrightarrow> \<exists>g. map_of gs n = Some g \<and> (\<forall>m. spark_holds (cg_spark m g) (h m))"
  shows "gv_refines (v\<lparr>gv_graphs := gs\<rparr>) hs"
  using assms unfolding gv_refines_def by (simp del: set_map)

lemma gv_refines_widths:
  assumes "gv_refines v hs"
  shows "gv_refines (v\<lparr>gv_graphs := map (\<lambda>(n, g). (n, cg_widths w g)) (gv_graphs v)\<rparr>) hs"
proof -
  have ks: "keys (map (\<lambda>(n, g). (n, cg_widths w g)) (gv_graphs v)) = keys (gv_graphs v)" by (simp add: case_prod_unfold)
  have "\<exists>g. map_of (map (\<lambda>(n, g). (n, cg_widths w g)) (gv_graphs v)) n = Some g \<and> (\<forall>m. spark_holds (cg_spark m g) (h m))"
    if "(n, h) \<in> set hs" for n h
    using gv_refines_graph [OF assms that] by (auto simp: map_of_map)
  with ks show ?thesis by (intro gv_refines_swap [OF assms]) blast+
qed

lemma spark_line_ok: "sparkline_ok s \<Longrightarrow> \<exists>r. spark_line s = Inr r"
proof -
  assume ok: "sparkline_ok s"
  define n where "n = nat (graph_width s)"
  have "graph_width s = int n" by (simp add: n_def graph_width_def Let_def)
  then have "\<exists>p. View_sparkline s = Inr p"
    using slice_suffix [of n "sp_contents s"] sp_values_ok [OF ok] Latest_ok [OF ok]
    by (simp add: View_sparkline_def draw_bars_ok Let_def split del: if_split) (simp add: Repeat_runes_def)
  then show ?thesis by (auto simp: spark_line_def)
qed

lemma graph_lines_ok: "(\<And>n g m. (n, g) \<in> set gs \<Longrightarrow> sparkline_ok (cg_spark m g)) \<Longrightarrow> \<exists>ls. graph_lines sep gs ns = Inr ls"
proof (induction ns)
  case (Cons n ns)
  show ?case
  proof (cases "map_of gs n")
    case (Some g)
    then have ok: "sparkline_ok (cg_spark m g)" for m using Cons.prems map_of_SomeD by fast
    obtain a b c d e where "spark_line (cg_cpu g) = Inr a" "spark_line (cg_mem g) = Inr b" "spark_line (cg_ioRead g) = Inr c"
      "spark_line (cg_ioWrt g) = Inr d" "spark_line (cg_net g) = Inr e"
      using spark_line_ok [OF ok [of MCpu]] spark_line_ok [OF ok [of MMem]] spark_line_ok [OF ok [of MRead]]
        spark_line_ok [OF ok [of MWrite]] spark_line_ok [OF ok [of MNet]] by auto
    with Cons Some show ?thesis by auto
  qed (use Cons in simp)
qed simp

lemma gv_refines_sparks: "gv_refines v hs \<Longrightarrow> (n, g) \<in> set (gv_graphs v) \<Longrightarrow> sparkline_ok (cg_spark m g)"
proof -
  assume r: "gv_refines v hs" and g: "(n, g) \<in> set (gv_graphs v)"
  have d: "distinct (keys (gv_graphs v))" using r by (simp only: gv_refines_def)
  have mo: "map_of (gv_graphs v) n = Some g" by (rule map_of_is_SomeI [OF d g])
  obtain h where "(n, h) \<in> set hs" using gv_refines_known [OF r mo] by auto
  from gv_refines_spark [OF r this mo] show "sparkline_ok (cg_spark m g)" by (simp add: spark_holds_def)
qed

lemma gv_View_ok:
  assumes "gv_refines v hs" and "0 \<le> gv_w v"
  shows "\<exists>d v'. gv_View V v = Inr (d, v') \<and> gv_refines v' hs \<and> gv_w v' = gv_w v"
proof -
  have "\<exists>c. gv_buildContent v = Inr c"
    using graph_lines_ok [of "gv_graphs v"] gv_refines_sparks [OF assms(1)] assms(2) by (auto simp: gv_buildContent_def Repeat_runes_def)
  then show ?thesis using assms(1) by (auto simp: gv_View_def Let_def)
qed

lemma gv_w_push: "gv_push ob v = Inr v' \<Longrightarrow> gv_w v' = gv_w v"
  by (cases ob) (auto simp: getOrCreate_def evict_oldest_def Let_def split: option.splits if_splits)

lemma gv_w_fold: "go_fold gv_push obs v = Inr v' \<Longrightarrow> gv_w v' = gv_w v"
  by (induction obs arbitrary: v) (auto dest: gv_w_push)

fun op_width :: "view_op \<Rightarrow> bool" where
  "op_width (VSize w h) = (0 \<le> w)"
| "op_width _ = True"

lemma gv_step_ok:
  assumes "gv_refines v hs" and "0 \<le> gv_w v" and "op_width a"
  shows "\<exists>v'. gv_step V a v = Inr v' \<and> gv_refines v' (foldl observe hs (concat (map observations (batches_of [a])))) \<and> 0 \<le> gv_w v'"
proof (cases a)
  case (VData b)
  from gv_fold_observe [OF assms(1), of "observations b"] obtain v1 where
    "go_fold gv_push (observations b) v = Inr v1" "gv_refines v1 (foldl observe hs (observations b))" by blast
  with VData assms(2) gv_w_fold show ?thesis by (fastforce simp: gv_SetData_observations)
next
  case (VSize w h)
  with assms gv_refines_widths [of "v\<lparr>gv_w := w, gv_h := h, gv_vp := vp_SetSize V w (h - 2) (gv_vp v)\<rparr>" hs "spark_width w"] show ?thesis
    by (simp add: gv_SetSize_def)
next
  case (VMsg m)
  with assms show ?thesis by (cases m) (simp_all add: gv_Update_def Let_def)
next
  case VDraw
  with assms gv_View_ok [OF assms(1,2), of V] show ?thesis by fastforce
qed (use assms in \<open>simp_all add: gv_SetTheme_def gv_Focus_def\<close>)

lemma batches_of_Cons: "batches_of (a # ops) = batches_of [a] @ batches_of ops"
  by (cases a) simp_all

lemma gv_run_ok:
  assumes "gv_refines v hs" and "0 \<le> gv_w v" and "list_all op_width ops"
  shows "\<exists>v'. go_fold (gv_step V) ops v = Inr v' \<and> gv_refines v' (foldl observe hs (concat (map observations (batches_of ops)))) \<and> 0 \<le> gv_w v'"
  using assms
proof (induction ops arbitrary: v hs)
  case (Cons a ops)
  from gv_step_ok [of v hs a V] Cons.prems obtain v1 where v1: "gv_step V a v = Inr v1" "0 \<le> gv_w v1"
    "gv_refines v1 (foldl observe hs (concat (map observations (batches_of [a]))))" by auto
  from Cons.IH [OF v1(3,2)] Cons.prems(3) v1(1) show ?case by (simp add: batches_of_Cons [of a ops])
qed simp

text \<open>
  C17: The graphs view refines the list of container histories: whatever batches, sizes, themes, keys and
  drawings it receives (with non-negative widths), it does not panic, tracks the fifty containers that
  appeared last (a container that comes back after eviction starts anew), in order of appearance, and
  each of its five sparklines holds the newest samples of its metric, at least 120 of them.
\<close>

theorem graphs_view_refines:
  assumes "list_all op_width ops"
  shows "\<exists>v. go_fold (gv_step V) ops (gv_New V th) = Inr v \<and>
     gv_refines v (foldl observe [] (concat (map observations (batches_of ops))))"
proof -
  have "gv_refines (gv_New V th) []" "0 \<le> gv_w (gv_New V th)" by (simp_all add: gv_refines_def gv_New_def)
  from gv_run_ok [OF this assms, of V] show ?thesis by blast
qed

theorem graphs_view_refines_witness:
  "\<exists>v. go_fold (gv_step text_viewport) [VSize 80 24, VData (empty_batch 0\<lparr>db_Net := [flows ''web'' 3, flows ''db'' 1, flows ''web'' 4]\<rparr>), VDraw]
     (gv_New text_viewport ''nord'') = Inr v \<and> gv_order v = [''web'', ''db'']"
proof -
  let ?ops = "[VSize 80 24, VData (empty_batch 0\<lparr>db_Net := [flows ''web'' 3, flows ''db'' 1, flows ''web'' 4]\<rparr>), VDraw]"
  obtain v where v: "go_fold (gv_step text_viewport) ?ops (gv_New text_viewport ''nord'') = Inr v"
    "gv_refines v (foldl observe [] (concat (map observations (batches_of ?ops))))"
    using graphs_view_refines [of ?ops text_viewport "''nord''"] by auto
  have "map fst (foldl observe [] (concat (map observations (batches_of ?ops)))) = [''web'', ''db'']"
    by (simp add: observations_def empty_batch_def flows_def graph_name_def)
  with v show ?thesis unfolding gv_refines_def by (intro exI [of _ v]) argo
qed

text \<open>
  A scroll key moves the viewport of the graphs view but leaves the cached drawing valid: the next
  \<^verbatim>\<open>View\<close> returns the old drawing, whatever the key, until new data, a resize or a theme change.
\<close>

theorem graphs_scroll_not_drawn:
  assumes "gv_View V v = Inr (d, v1)"
  shows "\<exists>v2. gv_View V (foldl (\<lambda>v k. gv_Update V (KeyMsg k) v) v1 ks) = Inr (d, v2)"
proof -
  have c: "\<not> gv_dirty v1 \<and> gv_cached v1 = Some d" using assms by (auto simp: gv_View_def Let_def split: if_splits)
  have "\<not> gv_dirty w \<and> gv_cached w = Some d \<Longrightarrow>
      \<not> gv_dirty (foldl (\<lambda>v k. gv_Update V (KeyMsg k) v) w ks) \<and> gv_cached (foldl (\<lambda>v k. gv_Update V (KeyMsg k) v) w ks) = Some d" for w
    by (induction ks arbitrary: w) (simp_all add: gv_Update_def Let_def)
  from this [OF c] show ?thesis by (simp add: gv_View_def)
qed

theorem graphs_scroll_not_drawn_witness:
  "\<exists>d v1 v2. gv_View text_viewport (gv_New text_viewport ''nord'') = Inr (d, v1) \<and>
     gv_View text_viewport (foldl (\<lambda>v k. gv_Update text_viewport (KeyMsg k) v) v1 [''down'', ''G'']) = Inr (d, v2)"
proof -
  obtain d v1 where d: "gv_View text_viewport (gv_New text_viewport ''nord'') = Inr (d, v1)"
    using gv_View_ok [of "gv_New text_viewport ''nord''" "[]" text_viewport] by (auto simp: gv_refines_def gv_New_def)
  from graphs_scroll_not_drawn [OF d, of "[''down'', ''G'']"] d show ?thesis by blast
qed

section \<open>The overview\<close>

record cpu_hist =
  ch_cpu :: Sparkline
  ch_mem :: Sparkline

record 'vp overview_view =
  ov_vp :: 'vp
  ov_batches :: "DataBatch list"
  ov_hists :: "(string, cpu_hist) gomap"
  ov_theme :: string
  ov_w :: int
  ov_h :: int
  ov_dirty :: bool
  ov_cached :: "(nat \<times> runes list) option"
  ov_follow :: bool
  ov_focused :: bool

definition ov_New :: "'vp viewport \<Rightarrow> string \<Rightarrow> 'vp overview_view" where
  "ov_New V th = \<lparr>ov_vp = vp_New V 80 20, ov_batches = [], ov_hists = [], ov_theme = th, ov_w = 0, ov_h = 0,
     ov_dirty = False, ov_cached = None, ov_follow = True, ov_focused = False\<rparr>"

definition ensureHist :: "string \<Rightarrow> 'vp overview_view \<Rightarrow> (cpu_hist \<times> 'vp overview_view) go" where
  "ensureHist c v = (case map_of (ov_hists v) c of Some h \<Rightarrow> Inr (h, v)
     | None \<Rightarrow>
         go_bind (New_sparkline ''CPU'' ''s'' 24) (\<lambda>a.
         go_bind (New_sparkline ''MEM'' ''MB'' 24) (\<lambda>b.
         let h = \<lparr>ch_cpu = a, ch_mem = b\<rparr> in Inr (h, v\<lparr>ov_hists := AList.update c h (ov_hists v)\<rparr>))))"

definition ov_push_cpu :: "CpuSample \<Rightarrow> 'vp overview_view \<Rightarrow> 'vp overview_view go" where
  "ov_push_cpu s v =
     go_bind (ensureHist (cpu_ContainerName s) v) (\<lambda>(h, v1).
     go_bind (sp_Push (ch_cpu h) (cpu_CPUSeconds s)) (\<lambda>a.
       Inr (v1\<lparr>ov_hists := AList.update (cpu_ContainerName s) (h\<lparr>ch_cpu := a\<rparr>) (ov_hists v1)\<rparr>)))"

definition ov_push_mem :: "MemSample \<Rightarrow> 'vp overview_view \<Rightarrow> 'vp overview_view go" where
  "ov_push_mem s v =
     go_bind (ensureHist (mem_ContainerName s) v) (\<lambda>(h, v1).
     go_bind (sp_Push (ch_mem h) (mebibytes (mem_MemoryBytes s))) (\<lambda>a.
       Inr (v1\<lparr>ov_hists := AList.update (mem_ContainerName s) (h\<lparr>ch_mem := a\<rparr>) (ov_hists v1)\<rparr>)))"

definition ov_SetData :: "DataBatch \<Rightarrow> 'vp overview_view \<Rightarrow> 'vp overview_view go" where
  "ov_SetData batch v =
     (let bs = ov_batches v @ [batch] in
      go_bind (if 60 < int (length bs) then go_slice bs (int (length bs) - 60) (int (length bs)) else Inr bs) (\<lambda>bs'.
      go_bind (go_fold ov_push_cpu (db_CPU batch) (v\<lparr>ov_batches := bs'\<rparr>)) (\<lambda>v1.
      go_bind (go_fold ov_push_mem (db_Mem batch) v1) (\<lambda>v2.
        Inr (v2\<lparr>ov_dirty := True, ov_cached := None\<rparr>)))))"

definition ov_SetSize :: "'vp viewport \<Rightarrow> int \<Rightarrow> int \<Rightarrow> 'vp overview_view \<Rightarrow> 'vp overview_view" where
  "ov_SetSize V w h v = v\<lparr>ov_w := w, ov_h := h, ov_vp := vp_SetSize V w (h - 1) (ov_vp v), ov_dirty := True, ov_cached := None\<rparr>"

definition ov_SetTheme :: "string \<Rightarrow> 'vp overview_view \<Rightarrow> 'vp overview_view" where
  "ov_SetTheme th v = v\<lparr>ov_theme := th, ov_dirty := True, ov_cached := None\<rparr>"

definition ov_Focus :: "bool \<Rightarrow> 'vp overview_view \<Rightarrow> 'vp overview_view" where
  "ov_Focus b v = v\<lparr>ov_focused := b\<rparr>"

definition ov_key :: "'vp viewport \<Rightarrow> string \<Rightarrow> 'vp overview_view \<Rightarrow> 'vp overview_view" where
  "ov_key V k v =
     (if k = ''g'' then v\<lparr>ov_vp := vp_GotoTop V (ov_vp v), ov_follow := False\<rparr>
      else if k = ''G'' then v\<lparr>ov_follow := True\<rparr>
      else if k \<in> {''up'', ''k''} then v\<lparr>ov_follow := False, ov_vp := vp_LineUp V 1 (ov_vp v)\<rparr>
      else if k \<in> {''down'', ''j''} then v\<lparr>ov_vp := vp_LineDown V 1 (ov_vp v)\<rparr>
      else if k = ''pgup'' then v\<lparr>ov_follow := False, ov_vp := vp_HalfViewUp V (ov_vp v)\<rparr>
      else if k = ''pgdown'' then v\<lparr>ov_vp := vp_HalfViewDown V (ov_vp v)\<rparr>
      else v)"

definition ov_Update :: "'vp viewport \<Rightarrow> tea_msg \<Rightarrow> 'vp overview_view \<Rightarrow> 'vp overview_view" where
  "ov_Update V msg v =
     (let v1 = (case msg of KeyMsg k \<Rightarrow> (ov_key V k v)\<lparr>ov_dirty := True\<rparr> | _ \<Rightarrow> v)
      in v1\<lparr>ov_vp := vp_Update V msg (ov_vp v1)\<rparr>)"

fun cpu_lines :: "CpuSample list \<Rightarrow> 'vp overview_view \<Rightarrow> (runes list \<times> 'vp overview_view) go" where
  "cpu_lines [] v = Inr ([], v)"
| "cpu_lines (s # ss) v =
     go_bind (ensureHist (cpu_ContainerName s) v) (\<lambda>(h, v1).
     go_bind (spark_line (ch_cpu h)) (\<lambda>spark.
     go_bind (cpu_lines ss v1) (\<lambda>(ls, v2).
       Inr (([32, 32] @ pad_right 22 (trunc (cpu_ContainerName s) 22) @ [32, 32] @ pad_right 28 spark @ [32, 32] @
             pad_left 10 (fixed_cell 4 (cpu_CPUSeconds s)) @ [32, 32] @ pad_left 9 (int_cell (uint (cpu_ThreadCount s)))) # ls, v2))))"

fun mem_lines :: "MemSample list \<Rightarrow> 'vp overview_view \<Rightarrow> (runes list \<times> 'vp overview_view) go" where
  "mem_lines [] v = Inr ([], v)"
| "mem_lines (s # ss) v =
     go_bind (ensureHist (mem_ContainerName s) v) (\<lambda>(h, v1).
     go_bind (spark_line (ch_mem h)) (\<lambda>spark.
     go_bind (mem_lines ss v1) (\<lambda>(ls, v2).
       Inr (([32, 32] @ pad_right 22 (trunc (mem_ContainerName s) 22) @ [32, 32] @ pad_right 28 spark @ [32, 32] @
             pad_left 10 (fixed_cell 2 (mebibytes (mem_MemoryBytes s)))) # ls, v2))))"

definition io_line :: "IoSample \<Rightarrow> runes" where
  "io_line s = [32, 32] @ pad_right 22 (trunc (io_ContainerName s) 22) @ [32, 32] @ pad_left 12 (fixed_cell 2 (fdiv (io_ReadBytesPerSec s) 1024)) @
     [32, 32] @ pad_left 12 (fixed_cell 2 (fdiv (io_WriteBytesPerSec s) 1024))"

definition card_head :: "string \<Rightarrow> runes" where "card_head t = [9656, 32] @ runes_of t"

definition column_heads :: "(runes \<Rightarrow> runes) list \<Rightarrow> runes list \<Rightarrow> runes" where
  "column_heads fs ts = concat (map (\<lambda>(f, t). [32, 32] @ f t) (zip fs ts))"

definition renderBatch :: "(time \<Rightarrow> string) \<Rightarrow> DataBatch \<Rightarrow> 'vp overview_view \<Rightarrow> (runes list \<times> 'vp overview_view) go" where
  "renderBatch clock b v =
     go_bind (Repeat_runes [9472] (ov_w v - 12)) (\<lambda>rule.
     go_bind (cpu_lines (db_CPU b) v) (\<lambda>(cs, v1).
     go_bind (mem_lines (db_Mem b) v1) (\<lambda>(ms, v2).
       Inr ([[32, 32] @ runes_of (clock (db_Timestamp b)) @ [32, 32] @ rule, [],
             card_head ''CPU'', column_heads [pad_right 22, pad_right 28, pad_left 10, pad_left 9]
               [runes_of ''Container'', runes_of ''CPU sparkline'', runes_of ''CPU(s/'' @ [916] @ runes_of ''t)'', runes_of ''Threads'']] @ cs @ [[],
             card_head ''Memory'', column_heads [pad_right 22, pad_right 28, pad_left 10]
               [runes_of ''Container'', runes_of ''MEM sparkline'', runes_of ''RSS (MB)'']] @ ms @ [[],
             card_head ''I/O'', column_heads [pad_right 22, pad_left 12, pad_left 12]
               [runes_of ''Container'', runes_of ''Read KB/s'', runes_of ''Write KB/s'']] @ map io_line (db_IO b) @ [[]], v2))))"

definition ov_View :: "'vp viewport \<Rightarrow> (time \<Rightarrow> string) \<Rightarrow> 'vp overview_view \<Rightarrow> ((nat \<times> runes list) \<times> 'vp overview_view) go" where
  "ov_View V clock v =
     (if \<not> ov_dirty v \<and> ov_cached v \<noteq> None then Inr (the (ov_cached v), v)
      else go_bind (if ov_batches v = [] then Inr ([runes_of ''  Waiting for first batch'' @ [8230]], v)
                    else go_bind (go_index (ov_batches v) (int (length (ov_batches v)) - 1)) (\<lambda>b. renderBatch clock b v)) (\<lambda>(c, v1).
        let vp1 = vp_SetContent V c (ov_vp v1); vp2 = (if ov_follow v1 then vp_GotoBottom V vp1 else vp1);
            d = (length (ov_batches v1), vp_View V vp2)
        in Inr (d, v1\<lparr>ov_vp := vp2, ov_cached := Some d, ov_dirty := False\<rparr>)))"

fun ov_step :: "'vp viewport \<Rightarrow> (time \<Rightarrow> string) \<Rightarrow> view_op \<Rightarrow> 'vp overview_view \<Rightarrow> 'vp overview_view go" where
  "ov_step V clock (VData b) v = ov_SetData b v"
| "ov_step V clock (VSize w h) v = Inr (ov_SetSize V w h v)"
| "ov_step V clock (VTheme th) v = Inr (ov_SetTheme th v)"
| "ov_step V clock VFocus v = Inr (ov_Focus True v)"
| "ov_step V clock VBlur v = Inr (ov_Focus False v)"
| "ov_step V clock (VMsg m) v = Inr (ov_Update V m v)"
| "ov_step V clock VDraw v = go_bind (ov_View V clock v) (\<lambda>(_, v'). Inr v')"

text \<open>
  The invariant of the overview: at most sixty batches, and well-formed sparklines. The map of sparklines
  itself has no bound: an entry is never removed.
\<close>

definition ov_ok :: "'vp overview_view \<Rightarrow> bool" where
  "ov_ok v \<longleftrightarrow> length (ov_batches v) \<le> 60 \<and> (\<forall>h \<in> snd ` set (ov_hists v). sparkline_ok (ch_cpu h) \<and> sparkline_ok (ch_mem h))"

lemma ov_ok_fields [simp]:
  "ov_ok (v\<lparr>ov_vp := p\<rparr>) = ov_ok v" "ov_ok (v\<lparr>ov_dirty := d\<rparr>) = ov_ok v" "ov_ok (v\<lparr>ov_cached := c\<rparr>) = ov_ok v"
  "ov_ok (v\<lparr>ov_theme := th\<rparr>) = ov_ok v" "ov_ok (v\<lparr>ov_focused := f\<rparr>) = ov_ok v" "ov_ok (v\<lparr>ov_w := w\<rparr>) = ov_ok v"
  "ov_ok (v\<lparr>ov_h := h\<rparr>) = ov_ok v" "ov_ok (v\<lparr>ov_follow := fw\<rparr>) = ov_ok v"
  by (simp_all add: ov_ok_def)

lemma ov_ok_put:
  assumes "ov_ok v" and "sparkline_ok (ch_cpu h)" and "sparkline_ok (ch_mem h)"
  shows "ov_ok (v\<lparr>ov_hists := AList.update c h (ov_hists v)\<rparr>)"
proof -
  have "snd ` set (AList.update c h xs) \<subseteq> insert h (snd ` set xs)" for xs :: "(string, cpu_hist) gomap"
    by (induction xs) (auto split: if_splits)
  then have sub: "snd ` set (AList.update c h (ov_hists v)) \<subseteq> insert h (snd ` set (ov_hists v))" .
  have "\<forall>x \<in> insert h (snd ` set (ov_hists v)). sparkline_ok (ch_cpu x) \<and> sparkline_ok (ch_mem x)"
    using assms unfolding ov_ok_def by blast
  with sub have "\<forall>x \<in> snd ` set (AList.update c h (ov_hists v)). sparkline_ok (ch_cpu x) \<and> sparkline_ok (ch_mem x)" by blast
  then show ?thesis using assms(1) by (simp add: ov_ok_def)
qed

lemma ensureHist_ok:
  assumes "ov_ok v"
  shows "\<exists>h v1. ensureHist c v = Inr (h, v1) \<and> ov_ok v1 \<and> sparkline_ok (ch_cpu h) \<and> sparkline_ok (ch_mem h) \<and>
     ov_w v1 = ov_w v \<and> ov_batches v1 = ov_batches v"
proof (cases "map_of (ov_hists v) c")
  case None
  obtain a b where "New_sparkline ''CPU'' ''s'' 24 = Inr a" "New_sparkline ''MEM'' ''MB'' 24 = Inr b" "sparkline_ok a" "sparkline_ok b"
    using New_spark by (metis spark_holds_def)
  with None ov_ok_put [OF assms, of "\<lparr>ch_cpu = a, ch_mem = b\<rparr>"] show ?thesis by (simp add: ensureHist_def Let_def)
next
  case (Some h)
  then have "h \<in> snd ` set (ov_hists v)" by (force dest: map_of_SomeD)
  with Some assms show ?thesis by (auto simp: ensureHist_def ov_ok_def)
qed

lemma sp_Push_keeps: "sparkline_ok s \<Longrightarrow> \<exists>s'. sp_Push s x = Inr s' \<and> sparkline_ok s'"
  using sp_Push_ok [of s x] by blast

lemma ov_push_ok:
  assumes "ov_ok v"
  shows "\<exists>v1. ov_push_cpu c v = Inr v1 \<and> ov_ok v1 \<and> ov_batches v1 = ov_batches v \<and> ov_w v1 = ov_w v"
    and "\<exists>v1. ov_push_mem m v = Inr v1 \<and> ov_ok v1 \<and> ov_batches v1 = ov_batches v \<and> ov_w v1 = ov_w v"
proof -
  obtain h v1 where h: "ensureHist (cpu_ContainerName c) v = Inr (h, v1)" "ov_ok v1" "sparkline_ok (ch_cpu h)" "sparkline_ok (ch_mem h)"
    "ov_batches v1 = ov_batches v" "ov_w v1 = ov_w v" using ensureHist_ok [OF assms] by blast
  obtain a where "sp_Push (ch_cpu h) (cpu_CPUSeconds c) = Inr a" "sparkline_ok a" using sp_Push_keeps [OF h(3)] by blast
  with h ov_ok_put [OF h(2), of "h\<lparr>ch_cpu := a\<rparr>"]
  show "\<exists>v1. ov_push_cpu c v = Inr v1 \<and> ov_ok v1 \<and> ov_batches v1 = ov_batches v \<and> ov_w v1 = ov_w v" by (simp add: ov_push_cpu_def)
next
  obtain h v1 where h: "ensureHist (mem_ContainerName m) v = Inr (h, v1)" "ov_ok v1" "sparkline_ok (ch_cpu h)" "sparkline_ok (ch_mem h)"
    "ov_batches v1 = ov_batches v" "ov_w v1 = ov_w v" using ensureHist_ok [OF assms] by blast
  obtain a where "sp_Push (ch_mem h) (mebibytes (mem_MemoryBytes m)) = Inr a" "sparkline_ok a" using sp_Push_keeps [OF h(4)] by blast
  with h ov_ok_put [OF h(2), of "h\<lparr>ch_mem := a\<rparr>"]
  show "\<exists>v1. ov_push_mem m v = Inr v1 \<and> ov_ok v1 \<and> ov_batches v1 = ov_batches v \<and> ov_w v1 = ov_w v" by (simp add: ov_push_mem_def)
qed

lemma go_fold_keeps:
  assumes "\<And>x s. I s \<Longrightarrow> \<exists>s'. f x s = Inr s' \<and> I s'" and "I s"
  shows "\<exists>s'. go_fold f xs s = Inr s' \<and> I s'"
  using assms(2)
proof (induction xs arbitrary: s)
  case (Cons x xs)
  from assms(1) [OF Cons.prems, of x] obtain t where "f x s = Inr t" "I t" by blast
  with Cons.IH show ?case by simp
qed simp

lemma ov_SetData_ok:
  assumes "ov_ok v"
  shows "\<exists>v'. ov_SetData b v = Inr v' \<and> ov_ok v' \<and> ov_batches v' = take_last 60 (ov_batches v @ [b]) \<and> ov_w v' = ov_w v"
proof -
  let ?bs = "ov_batches v @ [b]"
  let ?I = "\<lambda>u. ov_ok u \<and> ov_batches u = take_last 60 ?bs \<and> ov_w u = ov_w v"
  have sl: "(if 60 < int (length ?bs) then go_slice ?bs (int (length ?bs) - 60) (int (length ?bs)) else Inr ?bs) = Inr (take_last 60 ?bs)"
    using slice_suffix [of 60 ?bs] unfolding of_nat_numeral .
  have I0: "?I (v\<lparr>ov_batches := take_last 60 ?bs\<rparr>)" using assms by (simp add: ov_ok_def)
  obtain v1 where v1: "go_fold ov_push_cpu (db_CPU b) (v\<lparr>ov_batches := take_last 60 ?bs\<rparr>) = Inr v1" "?I v1"
    using go_fold_keeps [of ?I ov_push_cpu, OF _ I0] ov_push_ok(1) by metis
  obtain v2 where v2: "go_fold ov_push_mem (db_Mem b) v1 = Inr v2" "?I v2"
    using go_fold_keeps [of ?I ov_push_mem, OF _ v1(2)] ov_push_ok(2) by metis
  show ?thesis unfolding ov_SetData_def Let_def sl using v1 v2 by simp
qed

lemma ov_lines_ok:
  "ov_ok v \<Longrightarrow> \<exists>ls v1. cpu_lines cs v = Inr (ls, v1) \<and> length ls = length cs \<and> ov_ok v1 \<and> ov_w v1 = ov_w v \<and> ov_batches v1 = ov_batches v"
  "ov_ok v \<Longrightarrow> \<exists>ls v1. mem_lines ms v = Inr (ls, v1) \<and> length ls = length ms \<and> ov_ok v1 \<and> ov_w v1 = ov_w v \<and> ov_batches v1 = ov_batches v"
proof (induction cs arbitrary: v)
  case (Cons s ss)
  {
    case 1
    from ensureHist_ok [OF this, of "cpu_ContainerName s"] obtain h v1 where h: "ensureHist (cpu_ContainerName s) v = Inr (h, v1)"
      "ov_ok v1" "sparkline_ok (ch_cpu h)" "ov_w v1 = ov_w v" "ov_batches v1 = ov_batches v" by blast
    with Cons(1) [OF h(2)] spark_line_ok [OF h(3)] show ?case by fastforce
  next
    case 2
    then show ?case by (rule Cons(2))
  }
next
  case Nil
  {
    case 2
    then show ?case
    proof (induction ms arbitrary: v)
      case (Cons s ss)
      from ensureHist_ok [OF Cons.prems, of "mem_ContainerName s"] obtain h v1 where h: "ensureHist (mem_ContainerName s) v = Inr (h, v1)"
        "ov_ok v1" "sparkline_ok (ch_mem h)" "ov_w v1 = ov_w v" "ov_batches v1 = ov_batches v" by blast
      with Cons.IH [OF h(2)] spark_line_ok [OF h(3)] show ?case by fastforce
    qed simp
  }
qed simp

lemma ov_View_ok:
  assumes "ov_ok v" and "12 \<le> ov_w v"
  shows "\<exists>d v'. ov_View V clock v = Inr (d, v') \<and> ov_ok v' \<and> ov_w v' = ov_w v"
proof -
  have render: "\<exists>c v1. renderBatch clock b v = Inr (c, v1) \<and> ov_ok v1 \<and> ov_w v1 = ov_w v" for b
  proof -
    obtain cs v1 where c: "cpu_lines (db_CPU b) v = Inr (cs, v1)" "ov_ok v1" "ov_w v1 = ov_w v" using ov_lines_ok(1) [OF assms(1)] by blast
    obtain ms v2 where m: "mem_lines (db_Mem b) v1 = Inr (ms, v2)" "ov_ok v2" "ov_w v2 = ov_w v1" using ov_lines_ok(2) [OF c(2)] by blast
    show ?thesis using c m assms(2) by (simp add: renderBatch_def Repeat_runes_def)
  qed
  have "\<exists>c v1. (if ov_batches v = [] then Inr ([runes_of ''  Waiting for first batch'' @ [8230]], v)
      else go_bind (go_index (ov_batches v) (int (length (ov_batches v)) - 1)) (\<lambda>b. renderBatch clock b v)) = Inr (c, v1) \<and> ov_ok v1 \<and> ov_w v1 = ov_w v"
    using assms(1) render by simp
  then show ?thesis using assms(1) by (fastforce simp: ov_View_def Let_def)
qed

lemma ov_key_fields [simp]: "ov_ok (ov_key V k v) = ov_ok v" "ov_w (ov_key V k v) = ov_w v" "ov_batches (ov_key V k v) = ov_batches v"
  by (simp_all add: ov_key_def)

lemma ov_step_keeps: "ov_ok v \<Longrightarrow> ov_step V clock a v = Inr v' \<Longrightarrow> ov_ok v'"
proof (cases a)
  case (VData b)
  assume "ov_ok v" "ov_step V clock a v = Inr v'"
  with VData ov_SetData_ok [of v b] show ?thesis by auto
next
  case VDraw
  assume a: "ov_ok v" "ov_step V clock a v = Inr v'"
  then obtain d where d: "ov_View V clock v = Inr (d, v')" using VDraw by auto
  show ?thesis
  proof (cases "12 \<le> ov_w v")
    case True
    with d ov_View_ok [OF a(1), of V clock] show ?thesis by auto
  next
    case False
    with d a(1) show ?thesis by (auto simp: ov_View_def renderBatch_def Repeat_runes_def Let_def split: if_splits)
  qed
qed (auto simp: ov_SetSize_def ov_SetTheme_def ov_Focus_def ov_Update_def Let_def split: tea_msg.splits)

end
