(* ===== verification/DetailView.thy ===== *)
theory DetailView
  imports EventsView SparkViews
begin

text \<open>
  The container detail page (internal/tui/views/detail/detail.go): the history of one container, its
  event stream, pause and filter, and the text of its sections. It starts as the zero value with no
  container; until \<^verbatim>\<open>SetContainer\<close> its sparklines have no array behind them. Lines are drawn
  without colours; the viewport and the text input are library widgets.
\<close>

section \<open>State\<close>

record container_history =
  hi_cpu :: Sparkline
  hi_mem :: Sparkline
  hi_ioRead :: Sparkline
  hi_ioWrt :: Sparkline
  hi_sysLat :: Sparkline

definition zero_history :: container_history where
  "zero_history = \<lparr>hi_cpu = zero_sparkline, hi_mem = zero_sparkline, hi_ioRead = zero_sparkline, hi_ioWrt = zero_sparkline, hi_sysLat = zero_sparkline\<rparr>"

record ('vp, 'ti) detail_view =
  dv_container :: string
  dv_hist :: container_history
  dv_lastBatch :: DataBatch
  dv_events :: "TuiEvent list"
  dv_search :: "'ti Searchbar"
  dv_filter :: string
  dv_vp :: 'vp
  dv_theme :: string
  dv_w :: int
  dv_h :: int
  dv_paused :: bool
  dv_dirty :: bool
  dv_cached :: "(runes \<times> runes list) option"

definition dv_New :: "'vp viewport \<Rightarrow> 'ti textinput \<Rightarrow> string \<Rightarrow> ('vp, 'ti) detail_view" where
  "dv_New V T th = \<lparr>dv_container = [], dv_hist = zero_history, dv_lastBatch = empty_batch 0, dv_events = [], dv_search = New_searchbar T,
     dv_filter = [], dv_vp = vp_New V 80 40, dv_theme = th, dv_w = 0, dv_h = 0, dv_paused = False, dv_dirty = False, dv_cached = None\<rparr>"

definition new_history :: "container_history go" where
  "new_history =
     go_bind (New_sparkline ''CPU  '' ''s'' 40) (\<lambda>a.
     go_bind (New_sparkline ''MEM  '' ''MB'' 40) (\<lambda>b.
     go_bind (New_sparkline ''READ '' ''KB/s'' 40) (\<lambda>c.
     go_bind (New_sparkline ''WRITE'' ''KB/s'' 40) (\<lambda>d.
     go_bind (New_sparkline ''SYSLAT'' ''ms'' 40) (\<lambda>e.
       Inr \<lparr>hi_cpu = a, hi_mem = b, hi_ioRead = c, hi_ioWrt = d, hi_sysLat = e\<rparr>)))))"

definition SetContainer :: "string \<Rightarrow> ('vp, 'ti) detail_view \<Rightarrow> ('vp, 'ti) detail_view go" where
  "SetContainer name v =
     (if dv_container v = name then Inr v
      else go_bind new_history (\<lambda>h. Inr (v\<lparr>dv_container := name, dv_hist := h, dv_events := [], dv_dirty := True, dv_cached := None\<rparr>)))"

section \<open>Data\<close>

definition push_cpu :: "string \<Rightarrow> CpuSample \<Rightarrow> container_history \<Rightarrow> container_history go" where
  "push_cpu c s h = (if cpu_ContainerName s = c then go_bind (sp_Push (hi_cpu h) (cpu_CPUSeconds s)) (\<lambda>a. Inr (h\<lparr>hi_cpu := a\<rparr>)) else Inr h)"

definition push_mem :: "string \<Rightarrow> MemSample \<Rightarrow> container_history \<Rightarrow> container_history go" where
  "push_mem c s h = (if mem_ContainerName s = c
     then go_bind (sp_Push (hi_mem h) (mebibytes (mem_MemoryBytes s))) (\<lambda>a. Inr (h\<lparr>hi_mem := a\<rparr>)) else Inr h)"

definition push_io :: "string \<Rightarrow> IoSample \<Rightarrow> container_history \<Rightarrow> container_history go" where
  "push_io c s h = (if io_ContainerName s = c
     then go_bind (sp_Push (hi_ioRead h) (fdiv (io_ReadBytesPerSec s) 1024)) (\<lambda>a.
          go_bind (sp_Push (hi_ioWrt h) (fdiv (io_WriteBytesPerSec s) 1024)) (\<lambda>b. Inr (h\<lparr>hi_ioRead := a, hi_ioWrt := b\<rparr>))) else Inr h)"

definition push_sys :: "string \<Rightarrow> SyscallSummary \<Rightarrow> container_history \<Rightarrow> container_history go" where
  "push_sys c s h = (if ss_ContainerName s = c \<and> ss_Rank s = 1
     then go_bind (sp_Push (hi_sysLat h) (ss_AvgLatencyMs s)) (\<lambda>a. Inr (h\<lparr>hi_sysLat := a\<rparr>)) else Inr h)"

definition own_event :: "string \<Rightarrow> TuiEvent \<Rightarrow> bool" where
  "own_event c e \<longleftrightarrow> e_Container e = c \<or> c = []"

definition dv_SetData :: "DataBatch \<Rightarrow> ('vp, 'ti) detail_view \<Rightarrow> ('vp, 'ti) detail_view go" where
  "dv_SetData batch v =
     (if dv_paused v then Inr v
      else let c = dv_container v in
        go_bind (go_fold (push_cpu c) (db_CPU batch) (dv_hist v)) (\<lambda>h1.
        go_bind (go_fold (push_mem c) (db_Mem batch) h1) (\<lambda>h2.
        go_bind (go_fold (push_io c) (db_IO batch) h2) (\<lambda>h3.
        go_bind (go_fold (push_sys c) (db_Sys batch) h3) (\<lambda>h4.
        let evs = dv_events v @ filter (own_event c) (db_Events batch) in
        go_bind (if 500 < int (length evs) then go_slice evs (int (length evs) - 500) (int (length evs)) else Inr evs) (\<lambda>evs'.
          Inr (v\<lparr>dv_lastBatch := batch, dv_hist := h4, dv_events := evs', dv_dirty := True, dv_cached := None\<rparr>)))))))"

definition dv_SetSize :: "'vp viewport \<Rightarrow> int \<Rightarrow> int \<Rightarrow> ('vp, 'ti) detail_view \<Rightarrow> ('vp, 'ti) detail_view" where
  "dv_SetSize V w h v = v\<lparr>dv_w := w, dv_h := h, dv_vp := vp_SetSize V w (h - 2) (dv_vp v), dv_dirty := True, dv_cached := None\<rparr>"

definition dv_SetTheme :: "string \<Rightarrow> ('vp, 'ti) detail_view \<Rightarrow> ('vp, 'ti) detail_view" where
  "dv_SetTheme th v = v\<lparr>dv_theme := th, dv_dirty := True, dv_cached := None\<rparr>"

definition dv_key :: "'vp viewport \<Rightarrow> 'ti textinput \<Rightarrow> string \<Rightarrow> ('vp, 'ti) detail_view \<Rightarrow> ('vp, 'ti) detail_view" where
  "dv_key V T k v =
     (if k = ''p'' then v\<lparr>dv_paused := \<not> dv_paused v\<rparr>
      else if k = ''/'' then v\<lparr>dv_search := sb_Show T (dv_search v)\<rparr>
      else if k = ''g'' then v\<lparr>dv_vp := vp_GotoTop V (dv_vp v)\<rparr>
      else if k = ''G'' then v\<lparr>dv_vp := vp_GotoBottom V (dv_vp v)\<rparr>
      else if k \<in> {''up'', ''k''} then v\<lparr>dv_vp := vp_LineUp V 1 (dv_vp v)\<rparr>
      else if k \<in> {''down'', ''j''} then v\<lparr>dv_vp := vp_LineDown V 1 (dv_vp v)\<rparr>
      else if k = ''pgup'' then v\<lparr>dv_vp := vp_HalfViewUp V (dv_vp v)\<rparr>
      else if k = ''pgdown'' then v\<lparr>dv_vp := vp_HalfViewDown V (dv_vp v)\<rparr>
      else v)"

definition dv_Update :: "'vp viewport \<Rightarrow> 'ti textinput \<Rightarrow> tea_msg \<Rightarrow> ('vp, 'ti) detail_view \<Rightarrow> ('vp, 'ti) detail_view" where
  "dv_Update V T msg v = (case msg of
      KeyMsg k \<Rightarrow>
        if sb_visible (dv_search v)
        then if k = ''esc'' then v\<lparr>dv_search := sb_Reset T (sb_Hide T (dv_search v)), dv_filter := [], dv_dirty := True\<rparr>
             else if k = ''enter'' then v\<lparr>dv_search := sb_Hide T (dv_search v), dv_dirty := True\<rparr>
             else let s1 = sb_Update T msg (dv_search v) in
                  v\<lparr>dv_search := s1, dv_filter := sb_Value T s1, dv_dirty := True\<rparr>
        else let v1 = (dv_key V T k v)\<lparr>dv_dirty := True\<rparr> in v1\<lparr>dv_vp := vp_Update V msg (dv_vp v1)\<rparr>
    | _ \<Rightarrow> v\<lparr>dv_vp := vp_Update V msg (dv_vp v)\<rparr>)"

section \<open>Text\<close>

definition cpu_resource :: "CpuSample \<Rightarrow> runes" where
  "cpu_resource s = runes_of (''  CPU: '' @ show_fixed 4 (cpu_CPUSeconds s)) @ runes_of '' s/'' @ [916] @ runes_of (''t   Threads: '' @
     show_nat (unat (cpu_ThreadCount s)) @ ''   RunQ: '' @ show_fixed 3 (fmul (cpu_RunqLatencySeconds s) 1000) @ '' ms   CtxSw: '' @
     show_fixed 0 (cpu_CtxSwitchesPerSec s) @ ''/s'')"

definition mem_resource :: "MemSample \<Rightarrow> runes" where
  "mem_resource s =
     (let lim = (if 0 < mem_MemoryLimitBytes s then show_fixed 1 (mebibytes (mem_MemoryLimitBytes s)) @ '' MB'' else ''unlimited'') in
      runes_of (''  MEM: '' @ show_fixed 2 (mebibytes (mem_MemoryBytes s)) @ '' MB   Limit: '' @ lim @ ''   Faults/s: '' @ show_fixed 1 (mem_FaultsPerSec s)))"

definition latency_text :: "string \<Rightarrow> PSnapshot \<Rightarrow> runes" where
  "latency_text label p = runes_of (''  '' @ label @ ''-lat (ms):  p50: '' @ show_fixed 2 (P50 p) @ ''  p95: '' @ show_fixed 2 (P95 p) @
     ''  p99: '' @ show_fixed 2 (P99 p) @ ''  max: '' @ show_fixed 2 (PMax p))"

definition io_resource :: "DataBatch \<Rightarrow> IoSample \<Rightarrow> runes list" where
  "io_resource b s =
     [runes_of (''  I/O Read: '' @ show_fixed 2 (fdiv (io_ReadBytesPerSec s) 1024) @ '' KB/s   Write: '' @ show_fixed 2 (fdiv (io_WriteBytesPerSec s) 1024) @ '' KB/s''),
      latency_text ''R'' (window60 b (io_ContainerName s @ '':io_read'')), latency_text ''W'' (window60 b (io_ContainerName s @ '':io_write''))]"

definition renderResources :: "('vp, 'ti) detail_view \<Rightarrow> runes list" where
  "renderResources v =
     (let b = dv_lastBatch v; c = dv_container v;
          ls = map cpu_resource (filter (\<lambda>s. cpu_ContainerName s = c) (db_CPU b)) @
               map mem_resource (filter (\<lambda>s. mem_ContainerName s = c) (db_Mem b)) @
               concat (map (io_resource b) (filter (\<lambda>s. io_ContainerName s = c) (db_IO b)))
      in if ls = [] then [runes_of ''  (no data yet)''] else ls)"

definition net_text :: "NetSummary \<Rightarrow> runes" where
  "net_text s = runes_of (''  Flows: '' @ show_int (ns_ActiveFlows s) @ ''   Established: '' @ show_int (ns_Established s) @ ''   TimeWait: '' @ show_int (ns_TimeWait s) @
     ''   CloseWait: '' @ show_int (ns_CloseWait s) @ ''   Retransmits: '' @ show_nat (unat (ns_TotalRetransmits s)))"

definition renderNetwork :: "('vp, 'ti) detail_view \<Rightarrow> runes list" where
  "renderNetwork v =
     (let ls = map net_text (filter (\<lambda>s. ns_ContainerName s = dv_container v) (db_Net (dv_lastBatch v)))
      in if ls = [] then [runes_of ''  (no network data)''] else ls)"

definition sys_text :: "DataBatch \<Rightarrow> SyscallSummary \<Rightarrow> runes" where
  "sys_text b s =
     (let snaps = window60 b (ss_ContainerName s @ '':sys_'' @ show_nat (unat (ss_SyscallID s))) in
      runes_of ''  #'' @ pad_right 3 (int_cell (ss_Rank s)) @ [32, 32] @ pad_right 16 (trunc (ss_SyscallName s) 16) @ [32, 32] @
      pad_left 8 (runes_of (show_nat (unat (ss_Count s)))) @ [32, 32] @ pad_left 8 (runes_of (show_nat (unat (ss_Failures s)))) @ [32, 32] @
      pad_left 7 (fixed_cell 2 (P50 snaps)) @ [32, 32] @ pad_left 7 (fixed_cell 2 (P95 snaps)) @ [32, 32] @ pad_left 7 (fixed_cell 2 (PMax snaps)))"

text \<open>The header is always written, so the section is never empty.\<close>

definition renderSyscalls :: "('vp, 'ti) detail_view \<Rightarrow> runes list" where
  "renderSyscalls v =
     (let b = dv_lastBatch v;
          ls = [column_heads [pad_right 4, pad_right 16, pad_left 8, pad_left 8, pad_left 7, pad_left 7, pad_left 7]
                 (map runes_of [''Rank'', ''Syscall'', ''Count'', ''Fail'', ''p50'', ''p95'', ''Max''])] @
               map (sys_text b) (filter (\<lambda>s. ss_ContainerName s = dv_container v) (db_Sys b))
      in if ls = [] then [runes_of ''  (no syscall data)''] else ls)"

definition detail_badge :: "string \<Rightarrow> string" where
  "detail_badge ty =
     (if ty = EventTypeExec then '' EXEC '' else if ty = EventTypeDNSQuery then '' DNS  ''
      else if ty = EventTypePrivEsc then '' PRIV '' else if ty = EventTypeEscapeIndicator then '' ESCP ''
      else if ty = ''oom_kill'' then '' OOM  '' else '' SEC  '')"

definition detail_target :: "(rat \<Rightarrow> string) \<Rightarrow> (string, any) gomap \<Rightarrow> string" where
  "detail_target ff md =
     (case map_of md ''target_pid'' of Some a \<Rightarrow> ''pid:'' @ show_any ff a
      | None \<Rightarrow> (case map_of md ''capability'' of Some a \<Rightarrow> show_any ff a
      | None \<Rightarrow> (case map_of md ''new_uid'' of Some a \<Rightarrow> ''uid:'' @ show_any ff a
      | None \<Rightarrow> ''<none>'')))"

definition detail_meta :: "(rat \<Rightarrow> string) \<Rightarrow> EventEnvelope \<Rightarrow> string" where
  "detail_meta ff env =
     (let md = ev_Metadata env; ty = ev_EventType env in
      if md = [] then []
      else ''  '' @
        (if ty = EventTypeExec then (case map_of md ''argv'' of None \<Rightarrow> [] | Some a \<Rightarrow> ''cmd: '' @ show_any ff a)
         else if ty = EventTypeDNSQuery then ''q: '' @ show_meta ff md ''query'' @ '' ('' @ show_meta ff md ''query_type'' @ '')''
         else if ty = EventTypePrivEsc then ''op:'' @ show_meta ff md ''escalation_type'' @ '' tgt:'' @ detail_target ff md
         else if ty = EventTypeEscapeIndicator then ''op:'' @ show_meta ff md ''indicator_type'' @ '' flags:'' @ escape_flags ff md
         else if ty = ''oom_kill'' then ''rss:'' @ show_meta ff md ''rss_kb'' @ ''KB limit:'' @ show_int (limit_mb md) @ ''MB''
         else []))"

definition formatSecEvent :: "(rat \<Rightarrow> string) \<Rightarrow> EventEnvelope \<Rightarrow> runes" where
  "formatSecEvent ff env = runes_of (detail_badge (ev_EventType env)) @ [32] @ proc_context env @ runes_of (detail_meta ff env)"

definition styledMsg :: "(rat \<Rightarrow> string) \<Rightarrow> TuiEvent \<Rightarrow> runes" where
  "styledMsg ff e = (case e_Kind e of
      EventKindOOM \<Rightarrow> (case e_Envelope e of Some env \<Rightarrow> formatSecEvent ff env | None \<Rightarrow> runes_of (e_Message e))
    | EventKindSecurity \<Rightarrow> (case e_Envelope e of Some env \<Rightarrow> formatSecEvent ff env | None \<Rightarrow> runes_of ('' SEC  '' @ e_Message e))
    | _ \<Rightarrow> runes_of (e_Message e))"

definition renderEvents :: "(time \<Rightarrow> string) \<Rightarrow> (rat \<Rightarrow> string) \<Rightarrow> ('vp, 'ti) detail_view \<Rightarrow> runes list" where
  "renderEvents clock ff v =
     (let ls = map (\<lambda>e. runes_of (clock (e_At e)) @ [32] @ styledMsg ff e)
                 (filter (\<lambda>e. \<not> (dv_filter v \<noteq> [] \<and> \<not> Contains (ToLower (e_Message e)) (ToLower (dv_filter v)))) (dv_events v))
      in if ls = [] then [runes_of ''  No events.''] else ls)"

text \<open>The line of an open search bar is drawn as its text.\<close>

definition search_lines :: "'ti textinput \<Rightarrow> ('vp, 'ti) detail_view \<Rightarrow> runes list" where
  "search_lines T v = (case sb_View T (dv_w v) (dv_search v) of None \<Rightarrow> [] | Some (t, _) \<Rightarrow> [runes_of t])"

definition dv_buildContent :: "'ti textinput \<Rightarrow> (time \<Rightarrow> string) \<Rightarrow> (rat \<Rightarrow> string) \<Rightarrow> ('vp, 'ti) detail_view \<Rightarrow> runes list go" where
  "dv_buildContent T clock ff v =
     go_bind (Repeat_runes [9472] (dv_w v)) (\<lambda>sep.
     go_bind (spark_line (hi_cpu (dv_hist v))) (\<lambda>a.
     go_bind (spark_line (hi_mem (dv_hist v))) (\<lambda>b.
     go_bind (spark_line (hi_ioRead (dv_hist v))) (\<lambda>c.
     go_bind (spark_line (hi_ioWrt (dv_hist v))) (\<lambda>d.
     go_bind (spark_line (hi_sysLat (dv_hist v))) (\<lambda>e.
       Inr ([runes_of '' CONTAINER  '' @ runes_of (dv_container v), sep, [],
             card_head ''Resources''] @ renderResources v @ [sep, [],
             card_head ''Live Graphs'', a, b, c, d, e, sep, [],
             card_head ''Network''] @ renderNetwork v @ [sep, [],
             card_head ''Top Syscalls''] @ renderSyscalls v @ [sep, [],
             card_head ''Event Timeline''] @ search_lines T v @ renderEvents clock ff v)))))))"

definition dv_View :: "'vp viewport \<Rightarrow> 'ti textinput \<Rightarrow> (time \<Rightarrow> string) \<Rightarrow> (rat \<Rightarrow> string) \<Rightarrow> ('vp, 'ti) detail_view \<Rightarrow>
   ((runes \<times> runes list) \<times> ('vp, 'ti) detail_view) go" where
  "dv_View V T clock ff v =
     (if \<not> dv_dirty v \<and> dv_cached v \<noteq> None then Inr (the (dv_cached v), v)
      else go_bind (dv_buildContent T clock ff v) (\<lambda>c.
        let vp = vp_SetContent V c (dv_vp v); d = (trunc (dv_container v) 40, vp_View V vp)
        in Inr (d, v\<lparr>dv_vp := vp, dv_cached := Some d, dv_dirty := False\<rparr>)))"

section \<open>The page shows its container\<close>

definition spark120 :: "Sparkline \<Rightarrow> rat list \<Rightarrow> bool" where
  "spark120 s xs \<longleftrightarrow> sparkline_ok s \<and> b_cap (sp_ring s) = 120 \<and> sp_contents s = take_last 120 xs"

lemma spark120_push: "spark120 s xs \<Longrightarrow> \<exists>s'. sp_Push s x = Inr s' \<and> spark120 s' (xs @ [x])"
  using sp_Push_ok [of s x] by (auto simp: spark120_def take_last_append_take_last)

lemma spark120_ok: "spark120 s xs \<Longrightarrow> sparkline_ok s"
  by (simp add: spark120_def)

lemma spark120_new: "\<exists>s. New_sparkline l u 40 = Inr s \<and> spark120 s []"
  using New_sparkline_ok [of l u 40] by (auto simp: spark120_def)

lemma fold_pushes:
  assumes f: "\<And>x h. f x h = (if P x then go_bind (sp_Push (sel h) (val x)) (\<lambda>a. Inr (put a h)) else Inr h)"
    and laws: "\<And>a h. sel (put a h) = a" "\<And>a b h. put a (put b h) = put a h" "\<And>h. put (sel h) h = h"
    and h: "spark120 (sel h) l"
  shows "\<exists>a. go_fold f xs h = Inr (put a h) \<and> spark120 a (l @ map val (filter P xs))"
  using h
proof (induction xs arbitrary: h l)
  case Nil
  then show ?case by (intro exI [of _ "sel h"]) (simp add: laws)
next
  case (Cons x xs)
  show ?case
  proof (cases "P x")
    case True
    from spark120_push [OF Cons.prems, of "val x"] obtain a where a: "sp_Push (sel h) (val x) = Inr a" "spark120 a (l @ [val x])" by blast
    from Cons.IH [of "put a h" "l @ [val x]"] a True show ?thesis by (simp add: f laws)
  qed (use Cons in \<open>simp add: f\<close>)
qed

lemma fold_push_cpu: "spark120 (hi_cpu h) l \<Longrightarrow> \<exists>a. go_fold (push_cpu c) xs h = Inr (h\<lparr>hi_cpu := a\<rparr>) \<and>
    spark120 a (l @ map cpu_CPUSeconds (filter (\<lambda>s. cpu_ContainerName s = c) xs))"
  by (rule fold_pushes [where sel = hi_cpu and put = "\<lambda>a h. h\<lparr>hi_cpu := a\<rparr>"]) (simp_all add: push_cpu_def)

lemma fold_push_mem: "spark120 (hi_mem h) l \<Longrightarrow> \<exists>a. go_fold (push_mem c) xs h = Inr (h\<lparr>hi_mem := a\<rparr>) \<and>
    spark120 a (l @ map (\<lambda>s. mebibytes (mem_MemoryBytes s)) (filter (\<lambda>s. mem_ContainerName s = c) xs))"
  by (rule fold_pushes [where sel = hi_mem and put = "\<lambda>a h. h\<lparr>hi_mem := a\<rparr>"]) (simp_all add: push_mem_def)

lemma fold_push_sys: "spark120 (hi_sysLat h) l \<Longrightarrow> \<exists>a. go_fold (push_sys c) xs h = Inr (h\<lparr>hi_sysLat := a\<rparr>) \<and>
    spark120 a (l @ map ss_AvgLatencyMs (filter (\<lambda>s. ss_ContainerName s = c \<and> ss_Rank s = 1) xs))"
  by (rule fold_pushes [where sel = hi_sysLat and put = "\<lambda>a h. h\<lparr>hi_sysLat := a\<rparr>"]) (simp_all add: push_sys_def)

lemma fold_push_io:
  assumes "spark120 (hi_ioRead h) l" and "spark120 (hi_ioWrt h) k"
  shows "\<exists>a b. go_fold (push_io c) xs h = Inr (h\<lparr>hi_ioRead := a, hi_ioWrt := b\<rparr>) \<and>
     spark120 a (l @ map (\<lambda>s. fdiv (io_ReadBytesPerSec s) 1024) (filter (\<lambda>s. io_ContainerName s = c) xs)) \<and>
     spark120 b (k @ map (\<lambda>s. fdiv (io_WriteBytesPerSec s) 1024) (filter (\<lambda>s. io_ContainerName s = c) xs))"
  using assms
proof (induction xs arbitrary: h l k)
  case Nil
  then show ?case by (intro exI [of _ "hi_ioRead h"] exI [of _ "hi_ioWrt h"]) simp
next
  case (Cons s xs)
  show ?case
  proof (cases "io_ContainerName s = c")
    case True
    let ?r = "fdiv (io_ReadBytesPerSec s) 1024" and ?w = "fdiv (io_WriteBytesPerSec s) 1024"
    obtain a where a: "sp_Push (hi_ioRead h) ?r = Inr a" "spark120 a (l @ [?r])" using spark120_push [OF Cons.prems(1)] by blast
    obtain b where b: "sp_Push (hi_ioWrt h) ?w = Inr b" "spark120 b (k @ [?w])" using spark120_push [OF Cons.prems(2)] by blast
    have r: "hi_ioRead (h\<lparr>hi_ioRead := a, hi_ioWrt := b\<rparr>) = a" "hi_ioWrt (h\<lparr>hi_ioRead := a, hi_ioWrt := b\<rparr>) = b" by simp_all
    from Cons.IH [of "h\<lparr>hi_ioRead := a, hi_ioWrt := b\<rparr>" "l @ [?r]" "k @ [?w]"] a b True show ?thesis by (simp add: push_io_def)
  qed (use Cons in \<open>simp add: push_io_def\<close>)
qed

text \<open>What a page knows about its container: its samples since it was opened.\<close>

record page_log =
  pl_cpu :: "rat list"
  pl_mem :: "rat list"
  pl_read :: "rat list"
  pl_write :: "rat list"
  pl_sys :: "rat list"

definition no_log :: page_log where "no_log = \<lparr>pl_cpu = [], pl_mem = [], pl_read = [], pl_write = [], pl_sys = []\<rparr>"

definition log_batch :: "string \<Rightarrow> page_log \<Rightarrow> DataBatch \<Rightarrow> page_log" where
  "log_batch c p b = \<lparr>pl_cpu = pl_cpu p @ map cpu_CPUSeconds (filter (\<lambda>s. cpu_ContainerName s = c) (db_CPU b)),
     pl_mem = pl_mem p @ map (\<lambda>s. mebibytes (mem_MemoryBytes s)) (filter (\<lambda>s. mem_ContainerName s = c) (db_Mem b)),
     pl_read = pl_read p @ map (\<lambda>s. fdiv (io_ReadBytesPerSec s) 1024) (filter (\<lambda>s. io_ContainerName s = c) (db_IO b)),
     pl_write = pl_write p @ map (\<lambda>s. fdiv (io_WriteBytesPerSec s) 1024) (filter (\<lambda>s. io_ContainerName s = c) (db_IO b)),
     pl_sys = pl_sys p @ map ss_AvgLatencyMs (filter (\<lambda>s. ss_ContainerName s = c \<and> ss_Rank s = 1) (db_Sys b))\<rparr>"

definition history_holds :: "container_history \<Rightarrow> page_log \<Rightarrow> bool" where
  "history_holds h p \<longleftrightarrow> spark120 (hi_cpu h) (pl_cpu p) \<and> spark120 (hi_mem h) (pl_mem p) \<and> spark120 (hi_ioRead h) (pl_read p) \<and>
     spark120 (hi_ioWrt h) (pl_write p) \<and> spark120 (hi_sysLat h) (pl_sys p)"

lemma new_history_ok: "\<exists>h. new_history = Inr h \<and> history_holds h no_log"
proof -
  obtain a b c d e where "New_sparkline ''CPU  '' ''s'' 40 = Inr a" "New_sparkline ''MEM  '' ''MB'' 40 = Inr b"
    "New_sparkline ''READ '' ''KB/s'' 40 = Inr c" "New_sparkline ''WRITE'' ''KB/s'' 40 = Inr d" "New_sparkline ''SYSLAT'' ''ms'' 40 = Inr e"
    "spark120 a []" "spark120 b []" "spark120 c []" "spark120 d []" "spark120 e []"
    using spark120_new by metis
  then show ?thesis by (simp add: new_history_def history_holds_def no_log_def)
qed

lemma dv_SetData_ok:
  assumes "history_holds (dv_hist v) p" and "\<not> dv_paused v"
  shows "\<exists>h. dv_SetData b v = Inr (v\<lparr>dv_lastBatch := b, dv_hist := h, dv_dirty := True, dv_cached := None,
       dv_events := take_last 500 (dv_events v @ filter (own_event (dv_container v)) (db_Events b))\<rparr>) \<and>
     history_holds h (log_batch (dv_container v) p b)"
proof -
  let ?c = "dv_container v" and ?h = "dv_hist v"
  obtain a where a: "go_fold (push_cpu ?c) (db_CPU b) ?h = Inr (?h\<lparr>hi_cpu := a\<rparr>)" "spark120 a (pl_cpu (log_batch ?c p b))"
    using fold_push_cpu [of "?h" "pl_cpu p" ?c "db_CPU b"] assms(1) by (auto simp: history_holds_def log_batch_def)
  let ?h1 = "?h\<lparr>hi_cpu := a\<rparr>"
  obtain m where m: "go_fold (push_mem ?c) (db_Mem b) ?h1 = Inr (?h1\<lparr>hi_mem := m\<rparr>)" "spark120 m (pl_mem (log_batch ?c p b))"
    using fold_push_mem [of "?h1" "pl_mem p" ?c "db_Mem b"] assms(1) by (auto simp: history_holds_def log_batch_def)
  let ?h2 = "?h1\<lparr>hi_mem := m\<rparr>"
  obtain r w where rw: "go_fold (push_io ?c) (db_IO b) ?h2 = Inr (?h2\<lparr>hi_ioRead := r, hi_ioWrt := w\<rparr>)"
    "spark120 r (pl_read (log_batch ?c p b))" "spark120 w (pl_write (log_batch ?c p b))"
    using fold_push_io [of ?h2 "pl_read p" "pl_write p" ?c "db_IO b"] assms(1) by (auto simp: history_holds_def log_batch_def)
  let ?h3 = "?h2\<lparr>hi_ioRead := r, hi_ioWrt := w\<rparr>"
  obtain y where y: "go_fold (push_sys ?c) (db_Sys b) ?h3 = Inr (?h3\<lparr>hi_sysLat := y\<rparr>)" "spark120 y (pl_sys (log_batch ?c p b))"
    using fold_push_sys [of "?h3" "pl_sys p" ?c "db_Sys b"] assms(1) by (auto simp: history_holds_def log_batch_def)
  let ?evs = "dv_events v @ filter (own_event ?c) (db_Events b)"
  have sl: "(if 500 < int (length ?evs) then go_slice ?evs (int (length ?evs) - 500) (int (length ?evs)) else Inr ?evs) = Inr (take_last 500 ?evs)"
    using slice_suffix [of 500 ?evs] unfolding of_nat_numeral .
  have "history_holds (?h3\<lparr>hi_sysLat := y\<rparr>) (log_batch ?c p b)" using a(2) m(2) rw(2,3) y(2) by (simp add: history_holds_def)
  then show ?thesis using assms(2) a(1) m(1) rw(1) y(1) unfolding dv_SetData_def Let_def sl
    by (intro exI [of _ "?h3\<lparr>hi_sysLat := y\<rparr>"]) simp
qed

lemma dv_batches_ok:
  assumes "history_holds (dv_hist v) p" and "\<not> dv_paused v" and "dv_events v = take_last 500 evs" and "dv_container v = c"
  shows "\<exists>v'. go_fold dv_SetData bs v = Inr v' \<and> dv_container v' = c \<and> history_holds (dv_hist v') (foldl (log_batch c) p bs) \<and>
     dv_events v' = take_last 500 (evs @ concat (map (\<lambda>b. filter (own_event c) (db_Events b)) bs)) \<and> (bs \<noteq> [] \<longrightarrow> dv_lastBatch v' = last bs)"
  using assms
proof (induction bs arbitrary: v p evs)
  case (Cons b bs)
  from dv_SetData_ok [OF Cons.prems(1,2), of b] obtain h where h: "dv_SetData b v = Inr (v\<lparr>dv_lastBatch := b, dv_hist := h, dv_dirty := True,
      dv_cached := None, dv_events := take_last 500 (dv_events v @ filter (own_event c) (db_Events b))\<rparr>)" (is "_ = Inr ?v1")
    "history_holds h (log_batch c p b)" using Cons.prems(4) by blast
  have evs: "dv_events ?v1 = take_last 500 (evs @ filter (own_event c) (db_Events b))"
    using Cons.prems(3) by (simp add: take_last_append_take_last)
  have hv: "history_holds (dv_hist ?v1) (log_batch c p b)" "\<not> dv_paused ?v1" "dv_container ?v1 = c" using h(2) Cons.prems by simp_all
  from Cons.IH [OF hv(1,2) evs hv(3)] obtain v' where v': "go_fold dv_SetData bs ?v1 = Inr v'" "dv_container v' = c"
    "history_holds (dv_hist v') (foldl (log_batch c) (log_batch c p b) bs)"
    "dv_events v' = take_last 500 ((evs @ filter (own_event c) (db_Events b)) @ concat (map (\<lambda>b. filter (own_event c) (db_Events b)) bs))"
    "bs \<noteq> [] \<longrightarrow> dv_lastBatch v' = last bs" by blast
  have last: "dv_lastBatch v' = last (b # bs)"
  proof (cases bs)
    case Nil
    with v'(1) show ?thesis by auto
  qed (use v'(5) in simp)
  show ?case by (intro exI [of _ v']) (use h(1) v' last in simp)
qed simp

text \<open>
  C18: Opening the detail page for a container and feeding it batches shows that container and nothing
  else: whatever the page showed before (unless it is paused), its five sparklines hold the last 120
  samples of the container in these batches, the system-call latency those of rank 1, its event list the
  last 500 events of the container, and its tables read the last batch.
\<close>

theorem detail_shows_container:
  assumes "dv_container v \<noteq> c" and "\<not> dv_paused v"
  shows "\<exists>v1 v2. SetContainer c v = Inr v1 \<and> go_fold dv_SetData bs v1 = Inr v2 \<and> dv_container v2 = c \<and>
     history_holds (dv_hist v2) (foldl (log_batch c) no_log bs) \<and>
     dv_events v2 = take_last 500 (concat (map (\<lambda>b. filter (own_event c) (db_Events b)) bs)) \<and> (bs \<noteq> [] \<longrightarrow> dv_lastBatch v2 = last bs)"
proof -
  obtain h where h: "new_history = Inr h" "history_holds h no_log" using new_history_ok by blast
  let ?v1 = "v\<lparr>dv_container := c, dv_hist := h, dv_events := [], dv_dirty := True, dv_cached := None\<rparr>"
  have "SetContainer c v = Inr ?v1" using assms(1) unfolding SetContainer_def h(1) by simp
  moreover have "history_holds (dv_hist ?v1) no_log" "\<not> dv_paused ?v1" "dv_events ?v1 = take_last 500 []" "dv_container ?v1 = c"
    using h(2) assms(2) by simp_all
  note dv_batches_ok [OF this, of bs]
  ultimately show ?thesis by (simp del: append_Nil) auto
qed

theorem detail_shows_container_witness:
  "\<exists>v1 v2. SetContainer ''web'' (dv_New text_viewport line_input ''nord'') = Inr v1 \<and>
     go_fold dv_SetData [empty_batch 0\<lparr>db_Events := [info_event ''open'' 1, (info_event ''other'' 2)\<lparr>e_Container := ''db''\<rparr>]\<rparr>] v1 = Inr v2 \<and>
     dv_events v2 = [info_event ''open'' 1]"
  using detail_shows_container [of "dv_New text_viewport line_input ''nord''" "''web''"
      "[empty_batch 0\<lparr>db_Events := [info_event ''open'' 1, (info_event ''other'' 2)\<lparr>e_Container := ''db''\<rparr>]\<rparr>]"]
  by (auto simp: dv_New_def empty_batch_def own_event_def info_event_def)

text \<open>Before a container is chosen the page panics on a sample without a container name.\<close>

lemma detail_unset_panics:
  assumes "cpu_ContainerName s = []"
  shows "dv_SetData (empty_batch t\<lparr>db_CPU := [s]\<rparr>) (dv_New V T th) = Inl IndexOutOfRange"
  using assms by (simp add: dv_SetData_def dv_New_def zero_history_def push_cpu_def zero_sparkline_panics empty_batch_def)

section \<open>The page as a view\<close>

fun dv_step :: "'vp viewport \<Rightarrow> 'ti textinput \<Rightarrow> (time \<Rightarrow> string) \<Rightarrow> (rat \<Rightarrow> string) \<Rightarrow> view_op \<Rightarrow> ('vp, 'ti) detail_view \<Rightarrow> ('vp, 'ti) detail_view go" where
  "dv_step V T clock ff (VData b) v = dv_SetData b v"
| "dv_step V T clock ff (VSize w h) v = Inr (dv_SetSize V w h v)"
| "dv_step V T clock ff (VTheme th) v = Inr (dv_SetTheme th v)"
| "dv_step V T clock ff VFocus v = Inr v"
| "dv_step V T clock ff VBlur v = Inr v"
| "dv_step V T clock ff (VMsg m) v = Inr (dv_Update V T m v)"
| "dv_step V T clock ff VDraw v = go_bind (dv_View V T clock ff v) (\<lambda>(_, v'). Inr v')"

definition dv_ok :: "('vp, 'ti) detail_view \<Rightarrow> bool" where
  "dv_ok v \<longleftrightarrow> length (dv_events v) \<le> 500 \<and> ((\<exists>p. history_holds (dv_hist v) p) \<or> dv_container v = [] \<and> dv_hist v = zero_history)"

text \<open>A batch in which every sample carries a container name.\<close>

definition named_batch :: "DataBatch \<Rightarrow> bool" where
  "named_batch b \<longleftrightarrow> list_all (\<lambda>s. cpu_ContainerName s \<noteq> []) (db_CPU b) \<and> list_all (\<lambda>s. mem_ContainerName s \<noteq> []) (db_Mem b) \<and>
     list_all (\<lambda>s. io_ContainerName s \<noteq> []) (db_IO b) \<and> list_all (\<lambda>s. ss_ContainerName s \<noteq> []) (db_Sys b)"

lemma push_zero:
  "push_cpu c s1 zero_history = Inr h \<Longrightarrow> h = zero_history" "push_mem c s2 zero_history = Inr h \<Longrightarrow> h = zero_history"
  "push_io c s3 zero_history = Inr h \<Longrightarrow> h = zero_history" "push_sys c s4 zero_history = Inr h \<Longrightarrow> h = zero_history"
  by (auto simp: push_cpu_def push_mem_def push_io_def push_sys_def zero_history_def zero_sparkline_panics split: if_splits)

lemma go_fold_stays: "(\<And>x t. f x s = Inr t \<Longrightarrow> t = s) \<Longrightarrow> go_fold f xs s = Inr t \<Longrightarrow> t = s"
  by (induction xs) auto

lemma go_fold_skip: "list_all (\<lambda>x. f x s = Inr s) xs \<Longrightarrow> go_fold f xs s = Inr s"
  by (induction xs) auto

lemma push_skips:
  "list_all (\<lambda>s. cpu_ContainerName s \<noteq> []) cs \<Longrightarrow> go_fold (push_cpu []) cs h = Inr h"
  "list_all (\<lambda>s. mem_ContainerName s \<noteq> []) ms \<Longrightarrow> go_fold (push_mem []) ms h = Inr h"
  "list_all (\<lambda>s. io_ContainerName s \<noteq> []) is \<Longrightarrow> go_fold (push_io []) is h = Inr h"
  "list_all (\<lambda>s. ss_ContainerName s \<noteq> []) ss \<Longrightarrow> go_fold (push_sys []) ss h = Inr h"
  by (rule go_fold_skip, simp add: push_cpu_def push_mem_def push_io_def push_sys_def list_all_iff)+

lemma dv_SetData_keeps:
  assumes "dv_ok v" and "dv_SetData b v = Inr v'"
  shows "dv_ok v'"
proof (cases "dv_paused v \<or> (\<exists>p. history_holds (dv_hist v) p)")
  case True
  then show ?thesis
  proof
    assume "dv_paused v"
    with assms show ?thesis by (simp add: dv_SetData_def)
  next
    assume "\<exists>p. history_holds (dv_hist v) p"
    then obtain p where p: "history_holds (dv_hist v) p" by blast
    show ?thesis
    proof (cases "dv_paused v")
      case False
      from dv_SetData_ok [OF p this, of b] assms(2) show ?thesis by (auto simp: dv_ok_def)
    qed (use assms in \<open>simp add: dv_SetData_def\<close>)
  qed
next
  case False
  then have z: "dv_container v = []" "dv_hist v = zero_history" and np: "\<not> dv_paused v" using assms(1) by (auto simp: dv_ok_def)
  let ?evs = "dv_events v @ filter (own_event []) (db_Events b)"
  from assms(2) np z obtain h1 h2 h3 h4 evs where f: "go_fold (push_cpu []) (db_CPU b) zero_history = Inr h1" "go_fold (push_mem []) (db_Mem b) h1 = Inr h2"
    "go_fold (push_io []) (db_IO b) h2 = Inr h3" "go_fold (push_sys []) (db_Sys b) h3 = Inr h4"
    and e: "(if 500 < int (length ?evs) then go_slice ?evs (int (length ?evs) - 500) (int (length ?evs)) else Inr ?evs) = Inr evs"
    and v': "v' = v\<lparr>dv_lastBatch := b, dv_hist := h4, dv_events := evs, dv_dirty := True, dv_cached := None\<rparr>"
    unfolding dv_SetData_def Let_def by (auto simp del: length_append split del: if_split split: if_split_asm)
  have "h1 = zero_history" by (rule go_fold_stays [OF push_zero(1) f(1)])
  then have "h2 = zero_history" using go_fold_stays [of "push_mem []", OF push_zero(2)] f(2) by simp
  then have "h3 = zero_history" using go_fold_stays [of "push_io []", OF push_zero(3)] f(3) by simp
  then have "h4 = zero_history" using go_fold_stays [of "push_sys []", OF push_zero(4)] f(4) by simp
  moreover have "length evs \<le> 500" using e slice_suffix [of 500 ?evs] unfolding of_nat_numeral by (auto simp del: length_append)
  ultimately show ?thesis using z v' by (simp add: dv_ok_def)
qed

lemma dv_SetData_named:
  assumes "dv_ok v" and "named_batch b"
  shows "\<exists>v'. dv_SetData b v = Inr v'"
proof (cases "dv_paused v \<or> (\<exists>p. history_holds (dv_hist v) p)")
  case True
  then show ?thesis
  proof (cases "dv_paused v")
    case False
    with True obtain p where "history_holds (dv_hist v) p" by blast
    from dv_SetData_ok [OF this False, of b] show ?thesis by blast
  qed (simp add: dv_SetData_def)
next
  case False
  then have z: "dv_container v = []" and np: "\<not> dv_paused v" using assms(1) by (auto simp: dv_ok_def)
  let ?evs = "dv_events v @ filter (own_event []) (db_Events b)"
  have sl: "(if 500 < int (length ?evs) then go_slice ?evs (int (length ?evs) - 500) (int (length ?evs)) else Inr ?evs) = Inr (take_last 500 ?evs)"
    using slice_suffix [of 500 ?evs] unfolding of_nat_numeral .
  have skip: "go_fold (push_cpu []) (db_CPU b) h = Inr h" "go_fold (push_mem []) (db_Mem b) h = Inr h"
    "go_fold (push_io []) (db_IO b) h = Inr h" "go_fold (push_sys []) (db_Sys b) h = Inr h" for h
    using assms(2) by (simp_all add: named_batch_def push_skips)
  show ?thesis unfolding dv_SetData_def Let_def if_not_P [OF np] z skip go_bind_simps sl by blast
qed

lemma SetContainer_ok: "dv_ok v \<Longrightarrow> \<exists>v'. SetContainer c v = Inr v' \<and> dv_ok v' \<and> dv_container v' = c"
  using new_history_ok by (cases "dv_container v = c") (fastforce simp: SetContainer_def dv_ok_def)+

lemma zero_spark_line: "\<exists>r. spark_line zero_sparkline = Inr r"
  using zero_sparkline_draws by (auto simp: spark_line_def)

lemma dv_View_ok:
  assumes "dv_ok v" and "0 \<le> dv_w v"
  shows "\<exists>d v'. dv_View V T clock ff v = Inr (d, v')"
proof -
  have "\<exists>a b c d e. spark_line (hi_cpu (dv_hist v)) = Inr a \<and> spark_line (hi_mem (dv_hist v)) = Inr b \<and> spark_line (hi_ioRead (dv_hist v)) = Inr c \<and>
      spark_line (hi_ioWrt (dv_hist v)) = Inr d \<and> spark_line (hi_sysLat (dv_hist v)) = Inr e"
  proof (cases "\<exists>p. history_holds (dv_hist v) p")
    case True
    then show ?thesis using spark_line_ok spark120_ok unfolding history_holds_def by metis
  next
    case False
    then have "dv_hist v = zero_history" using assms(1) by (simp add: dv_ok_def)
    then show ?thesis using zero_spark_line by (simp add: zero_history_def)
  qed
  then show ?thesis using assms(2) by (auto simp: dv_View_def dv_buildContent_def Repeat_runes_def Let_def)
qed

lemma dv_ok_fields [simp]:
  "dv_ok (v\<lparr>dv_search := x1\<rparr>) = dv_ok v" "dv_ok (v\<lparr>dv_filter := x2\<rparr>) = dv_ok v" "dv_ok (v\<lparr>dv_vp := x3\<rparr>) = dv_ok v"
  "dv_ok (v\<lparr>dv_theme := x4\<rparr>) = dv_ok v" "dv_ok (v\<lparr>dv_w := x5\<rparr>) = dv_ok v" "dv_ok (v\<lparr>dv_h := x6\<rparr>) = dv_ok v"
  "dv_ok (v\<lparr>dv_paused := x7\<rparr>) = dv_ok v" "dv_ok (v\<lparr>dv_dirty := x8\<rparr>) = dv_ok v" "dv_ok (v\<lparr>dv_cached := x9\<rparr>) = dv_ok v"
  by (simp_all add: dv_ok_def)

lemma dv_step_keeps:
  assumes "dv_ok v" and "dv_step V T clock ff a v = Inr v'"
  shows "dv_ok v'"
proof (cases a)
  case (VData b)
  with assms dv_SetData_keeps show ?thesis by auto
next
  case (VMsg m)
  have "dv_ok (dv_key V T k v)" for k using assms(1) by (simp add: dv_key_def)
  with VMsg assms show ?thesis by (cases m) (auto simp: dv_Update_def Let_def split: if_splits)
qed (use assms in \<open>auto simp: dv_SetSize_def dv_SetTheme_def dv_View_def Let_def split: if_splits\<close>)

end
