(* ===== verification/ProcGraphView.thy ===== *)
theory ProcGraphView
  imports TuiMsg GraphQueries
begin

text \<open>
  The process-graph view (internal/tui/views/procgraph/procgraph.go): the container list and the
  process tree rebuilt from a graph snapshot, panel and cursor navigation, and the three panels without
  their styling. The order in which a map is ranged over and \<^verbatim>\<open>sort.Slice\<close> are arguments. The
  recursive closure that flattens the tree is modelled twice: with its call depth as fuel, as it is
  written, and with an explicit stack of pending calls, which is total; \<open>tree_walk_terminates\<close> shows
  that they agree.
\<close>

section \<open>The tree\<close>

record treeNode =
  tn_key :: NodeKey
  tn_depth :: int
  tn_prefix :: runes
  tn_comm :: string
  tn_pid :: u32
  tn_hasEvts :: bool
  tn_evTypes :: "string list"
  tn_alive :: bool

definition cgroupKeyFor :: "SnapshotNode \<Rightarrow> string" where
  "cgroupKeyFor n = (if sn_ContainerName n \<noteq> [] then sn_ContainerName n else ''cg:'' @ show_nat (unat (nk_CgroupID (sn_Key n))))"

text \<open>A live process with no data but its ids.\<close>

definition plain_node :: "u32 \<Rightarrow> u32 \<Rightarrow> SnapshotNode" where
  "plain_node pid ppid = \<lparr>sn_Key = mk_key 1 pid, sn_PPID = ppid, sn_Comm = [], sn_ExePath = [], sn_ContainerName = ''c'', sn_ForkTime = 0,
     sn_ExecTime = 0, sn_SID = 0, sn_PGID = 0, sn_IsAlive = True, sn_ExitCode = 0, sn_Events = [], sn_Children = []\<rparr>"

text \<open>The selected processes: the PIDs in the order met, and the node of each PID, the last one met.\<close>

definition selected_nodes :: "string \<Rightarrow> string \<Rightarrow> (NodeKey \<times> SnapshotNode) list \<Rightarrow> SnapshotNode list" where
  "selected_nodes selKey flt nodes =
     filter (\<lambda>n. cgroupKeyFor n = selKey \<and> (flt = [] \<or> Contains (ToLower (DisplayComm n)) (ToLower flt))) (map snd nodes)"

definition sel_pids :: "SnapshotNode list \<Rightarrow> u32 list" where
  "sel_pids ns = map (\<lambda>n. nk_PID (sn_Key n)) ns"

definition sel_map :: "SnapshotNode list \<Rightarrow> (u32, SnapshotNode) gomap" where
  "sel_map ns = foldl (\<lambda>m n. AList.update (nk_PID (sn_Key n)) n m) [] ns"

text \<open>The parent of a selected process within the selection.\<close>

definition parent_in :: "(u32, SnapshotNode) gomap \<Rightarrow> u32 \<Rightarrow> u32 option" where
  "parent_in pm pid = (case map_of pm pid of None \<Rightarrow> None
     | Some n \<Rightarrow> let pp = sn_PPID n in
         if pp = 0 \<or> pp = 1 then None else if map_of pm pp \<noteq> None \<and> pp \<noteq> pid then Some pp else None)"

definition local_kids :: "(u32, SnapshotNode) gomap \<Rightarrow> u32 list \<Rightarrow> (u32, u32 list) gomap" where
  "local_kids pm pids = foldl (\<lambda>m pid. case parent_in pm pid of None \<Rightarrow> m | Some pp \<Rightarrow> AList.update pp (m_list m pp @ [pid]) m) [] pids"

definition pid_less :: "(u32, SnapshotNode) gomap \<Rightarrow> u32 \<Rightarrow> u32 \<Rightarrow> bool" where
  "pid_less pm i j = (case (map_of pm i, map_of pm j) of
      (Some a, Some b) \<Rightarrow> if sn_ForkTime a \<noteq> sn_ForkTime b then sn_ForkTime a < sn_ForkTime b else i < j
    | _ \<Rightarrow> i < j)"

text \<open>The distinct event types of a node, in the order met.\<close>

definition event_types :: "EventEnvelope option list \<Rightarrow> string list" where
  "event_types evs = foldl (\<lambda>ts e. case e of None \<Rightarrow> ts | Some ev \<Rightarrow> if ev_EventType ev \<in> set ts then ts else ts @ [ev_EventType ev]) [] evs"

definition connector :: "int \<Rightarrow> bool \<Rightarrow> runes" where
  "connector depth isLast = (if 0 < depth then (if isLast then [9492, 9472, 9472, 32] else [9500, 9472, 9472, 32]) else [])"

definition child_cont :: "int \<Rightarrow> runes \<Rightarrow> bool \<Rightarrow> runes" where
  "child_cont depth pre isLast =
     (if depth = 0 then (if isLast then [32] else [9474])
      else pre @ (if isLast then [32, 32, 32, 32] else [9474, 32, 32, 32]))"

definition tree_line :: "u32 \<Rightarrow> runes \<Rightarrow> bool \<Rightarrow> int \<Rightarrow> SnapshotNode \<Rightarrow> treeNode" where
  "tree_line pid pre isLast depth n =
     (let evTypes = event_types (sn_Events n) in
      \<lparr>tn_key = sn_Key n, tn_depth = depth, tn_prefix = pre @ connector depth isLast, tn_comm = DisplayComm n, tn_pid = pid,
       tn_hasEvts = (evTypes \<noteq> []), tn_evTypes = evTypes, tn_alive = sn_IsAlive n\<rparr>)"

record tree_ctx =
  tc_map :: "(u32, SnapshotNode) gomap"
  tc_kids :: "u32 \<Rightarrow> u32 list"

text \<open>One pending call: PID, pre, whether it is the last sibling, depth.\<close>

type_synonym call = "u32 \<times> runes \<times> bool \<times> int"

definition sibling_calls :: "u32 list \<Rightarrow> runes \<Rightarrow> int \<Rightarrow> call list" where
  "sibling_calls ks pre depth = map (\<lambda>i. (ks ! i, pre, i = length ks - 1, depth)) [0..<length ks]"

definition kid_calls :: "tree_ctx \<Rightarrow> call \<Rightarrow> call list" where
  "kid_calls c cl = (case cl of (pid, pre, isLast, depth) \<Rightarrow> sibling_calls (tc_kids c pid) (child_cont depth pre isLast) (depth + 1))"

type_synonym walk_state = "u32 list \<times> treeNode list"

text \<open>The closure \<^verbatim>\<open>walk\<close> with the depth of the call stack as fuel; \<open>None\<close> when it is exceeded.\<close>

fun walk_rec :: "nat \<Rightarrow> tree_ctx \<Rightarrow> call \<Rightarrow> walk_state \<Rightarrow> walk_state option" where
  "walk_rec 0 c cl s = None"
| "walk_rec (Suc f) c (pid, pre, isLast, depth) (visited, lines) =
     (if pid \<in> set visited then Some (visited, lines)
      else case map_of (tc_map c) pid of
        None \<Rightarrow> Some (pid # visited, lines)
      | Some n \<Rightarrow>
          foldl (\<lambda>r k. case r of None \<Rightarrow> None | Some s \<Rightarrow> walk_rec f c k s)
            (Some (pid # visited, lines @ [tree_line pid pre isLast depth n])) (kid_calls c (pid, pre, isLast, depth)))"

text \<open>The same walk with the pending calls in a list.\<close>

function walk :: "tree_ctx \<Rightarrow> call list \<Rightarrow> walk_state \<Rightarrow> walk_state" where
  "walk c [] s = s"
| "walk c ((pid, pre, isLast, depth) # calls) (visited, lines) =
     (if pid \<in> set visited then walk c calls (visited, lines)
      else case map_of (tc_map c) pid of
        None \<Rightarrow> walk c calls (pid # visited, lines)
      | Some n \<Rightarrow>
          walk c (kid_calls c (pid, pre, isLast, depth) @ calls) (pid # visited, lines @ [tree_line pid pre isLast depth n]))"
  by pat_completeness auto

definition unvisited :: "tree_ctx \<Rightarrow> u32 list \<Rightarrow> nat" where
  "unvisited c visited = card (dom (map_of (tc_map c)) - set visited)"

lemma unvisited_less:
  assumes "pid \<notin> set visited" and "map_of (tc_map c) pid = Some n"
  shows "unvisited c (pid # visited) < unvisited c visited"
  unfolding unvisited_def
  by (rule psubset_card_mono) (use assms in \<open>auto simp: finite_dom_map_of\<close>)

lemma unvisited_same: "map_of (tc_map c) pid = None \<Longrightarrow> unvisited c (pid # visited) = unvisited c visited"
  by (auto simp: unvisited_def intro!: arg_cong [of _ _ card])

termination walk
  by (relation "measures [\<lambda>(c, calls, s). unvisited c (fst s), \<lambda>(c, calls, s). length calls]")
     (auto simp: unvisited_less unvisited_same)

definition build_tree :: "(u32 list \<Rightarrow> u32 list) \<Rightarrow> SnapshotNode list \<Rightarrow> treeNode list" where
  "build_tree srt ns =
     (let pm = sel_map ns; pids = sel_pids ns; kids = local_kids pm pids;
          roots = srt (filter (\<lambda>pid. parent_in pm pid = None) pids);
          c = \<lparr>tc_map = pm, tc_kids = (\<lambda>pid. srt (m_list kids pid))\<rparr>
      in snd (walk c (sibling_calls roots [] 0) ([], [])))"

section \<open>The view\<close>

definition panelCgroup :: int where "panelCgroup = 0"
definition panelTree :: int where "panelTree = 1"
definition panelDetail :: int where "panelDetail = 2"

text \<open>What is drawn: nothing before the first size, the title alone, or the three panels.\<close>

datatype pg_drawn = TitleOnly | Panels "runes list" "runes list" "runes list"

record procgraph_view =
  pg_theme :: string
  pg_w :: int
  pg_h :: int
  pg_focused :: bool
  pg_dirty :: bool
  pg_cached :: "pg_drawn option"
  pg_snap :: "Snapshot option"
  pg_cgroupKeys :: "string list"
  pg_cgroupSel :: int
  pg_treeLines :: "treeNode list"
  pg_treeSel :: int
  pg_treeOffset :: int
  pg_activePanel :: int
  pg_filter :: string

text \<open>How the run-time orders map iterations, and \<^verbatim>\<open>sort.Slice\<close> for a comparison.\<close>

record graph_orders =
  go_range :: "(NodeKey \<times> SnapshotNode) list \<Rightarrow> (NodeKey \<times> SnapshotNode) list"
  go_sort :: "(u32 \<Rightarrow> u32 \<Rightarrow> bool) \<Rightarrow> u32 list \<Rightarrow> u32 list"

definition pg_New :: "string \<Rightarrow> procgraph_view" where
  "pg_New th = \<lparr>pg_theme = th, pg_w = 0, pg_h = 0, pg_focused = False, pg_dirty = True, pg_cached = None, pg_snap = None, pg_cgroupKeys = [],
     pg_cgroupSel = 0, pg_treeLines = [], pg_treeSel = 0, pg_treeOffset = 0, pg_activePanel = panelTree, pg_filter = []\<rparr>"

definition invalidate :: "procgraph_view \<Rightarrow> procgraph_view" where
  "invalidate v = v\<lparr>pg_dirty := True, pg_cached := None\<rparr>"

definition rebuildCgroupList :: "procgraph_view \<Rightarrow> procgraph_view" where
  "rebuildCgroupList v = (case pg_snap v of
      None \<Rightarrow> v\<lparr>pg_cgroupKeys := []\<rparr>
    | Some s \<Rightarrow>
        let ks = sort (remdups (map (\<lambda>(_, n). cgroupKeyFor n) (s_Nodes s)));
            v1 = v\<lparr>pg_cgroupKeys := ks\<rparr>
        in if int (length ks) \<le> pg_cgroupSel v1 then v1\<lparr>pg_cgroupSel := 0\<rparr> else v1)"

definition rebuildTree :: "graph_orders \<Rightarrow> procgraph_view \<Rightarrow> procgraph_view go" where
  "rebuildTree R v0 =
     (let v = v0\<lparr>pg_treeLines := []\<rparr> in
      case pg_snap v of None \<Rightarrow> Inr v
      | Some s \<Rightarrow>
          if pg_cgroupKeys v = [] then Inr v
          else go_bind (go_index (pg_cgroupKeys v) (pg_cgroupSel v)) (\<lambda>selKey.
            let ns = selected_nodes selKey (pg_filter v) (go_range R (s_Nodes s)) in
            if ns = [] then Inr v
            else let ls = build_tree (go_sort R (pid_less (sel_map ns))) ns; v1 = v\<lparr>pg_treeLines := ls\<rparr>
                 in Inr (if int (length ls) \<le> pg_treeSel v1 then v1\<lparr>pg_treeSel := 0\<rparr> else v1)))"

definition pg_SetTheme :: "string \<Rightarrow> procgraph_view \<Rightarrow> procgraph_view" where
  "pg_SetTheme th v = invalidate (v\<lparr>pg_theme := th\<rparr>)"

definition pg_SetSize :: "graph_orders \<Rightarrow> int \<Rightarrow> int \<Rightarrow> procgraph_view \<Rightarrow> procgraph_view go" where
  "pg_SetSize R w h v = go_bind (rebuildTree R (v\<lparr>pg_w := w, pg_h := h\<rparr>)) (\<lambda>v1. Inr (invalidate v1))"

definition pg_SetData :: "graph_orders \<Rightarrow> DataBatch \<Rightarrow> procgraph_view \<Rightarrow> procgraph_view go" where
  "pg_SetData R batch v = (case db_Graph batch of
      None \<Rightarrow> Inr v
    | Some g \<Rightarrow> go_bind (rebuildTree R (rebuildCgroupList (v\<lparr>pg_snap := Some g\<rparr>))) (\<lambda>v1. Inr (invalidate v1)))"

definition navUp :: "graph_orders \<Rightarrow> procgraph_view \<Rightarrow> procgraph_view go" where
  "navUp R v = go_bind
     (if pg_activePanel v = panelCgroup
      then if 0 < pg_cgroupSel v then rebuildTree R (v\<lparr>pg_cgroupSel := pg_cgroupSel v - 1\<rparr>) else Inr v
      else Inr (if 0 < pg_treeSel v then v\<lparr>pg_treeSel := pg_treeSel v - 1\<rparr> else v)) (\<lambda>v1. Inr (invalidate v1))"

definition navDown :: "graph_orders \<Rightarrow> procgraph_view \<Rightarrow> procgraph_view go" where
  "navDown R v = go_bind
     (if pg_activePanel v = panelCgroup
      then if pg_cgroupSel v < int (length (pg_cgroupKeys v)) - 1 then rebuildTree R (v\<lparr>pg_cgroupSel := pg_cgroupSel v + 1\<rparr>) else Inr v
      else Inr (if pg_treeSel v < int (length (pg_treeLines v)) - 1 then v\<lparr>pg_treeSel := pg_treeSel v + 1\<rparr> else v)) (\<lambda>v1. Inr (invalidate v1))"

definition navTop :: "graph_orders \<Rightarrow> procgraph_view \<Rightarrow> procgraph_view go" where
  "navTop R v = go_bind
     (if pg_activePanel v = panelCgroup then rebuildTree R (v\<lparr>pg_cgroupSel := 0\<rparr>) else Inr (v\<lparr>pg_treeSel := 0\<rparr>)) (\<lambda>v1. Inr (invalidate v1))"

definition navBottom :: "procgraph_view \<Rightarrow> procgraph_view" where
  "navBottom v = invalidate (if pg_activePanel v = panelTree \<and> 0 < length (pg_treeLines v)
     then v\<lparr>pg_treeSel := int (length (pg_treeLines v)) - 1\<rparr> else v)"

definition pg_Update :: "graph_orders \<Rightarrow> tea_msg \<Rightarrow> procgraph_view \<Rightarrow> procgraph_view go" where
  "pg_Update R msg v = (case msg of
      KeyMsg k \<Rightarrow>
        if k \<in> {''left'', ''h''} then Inr (if 0 < pg_activePanel v then invalidate (v\<lparr>pg_activePanel := pg_activePanel v - 1\<rparr>) else v)
        else if k \<in> {''right'', ''l''} then Inr (if pg_activePanel v < panelDetail then invalidate (v\<lparr>pg_activePanel := pg_activePanel v + 1\<rparr>) else v)
        else if k \<in> {''up'', ''k''} then navUp R v
        else if k \<in> {''down'', ''j''} then navDown R v
        else if k = ''g'' then navTop R v
        else if k = ''G'' then Inr (navBottom v)
        else Inr v
    | _ \<Rightarrow> Inr v)"

section \<open>The walk returns\<close>

lemma walk_visited: "set (fst s) \<subseteq> set (fst (walk c calls s))"
  by (induction c calls s rule: walk.induct) (auto split: option.splits)

lemma unvisited_mono: "set vis \<subseteq> set vis' \<Longrightarrow> unvisited c vis' \<le> unvisited c vis"
  unfolding unvisited_def by (rule card_mono) (auto simp: finite_dom_map_of)

lemma walk_append: "walk c (xs @ ys) s = walk c ys (walk c xs s)"
  by (induction c xs s rule: walk.induct) (auto split: option.splits)

lemma walk_rec_fold:
  assumes step: "\<And>cl s. unvisited c (fst s) < f \<Longrightarrow> walk_rec f c cl s = Some (walk c [cl] s)"
    and "unvisited c (fst s) < f"
  shows "foldl (\<lambda>r k. case r of None \<Rightarrow> None | Some s \<Rightarrow> walk_rec f c k s) (Some s) ks = Some (walk c ks s)"
  using assms(2)
proof (induction ks arbitrary: s)
  case (Cons k ks)
  have "unvisited c (fst (walk c [k] s)) < f"
    using unvisited_mono [OF walk_visited, of c c "[k]" s] Cons.prems by simp
  then show ?case using Cons step [OF Cons.prems, of k] walk_append [of c "[k]" ks s] by simp
qed simp

lemma walk_rec_walk: "unvisited c (fst s) < f \<Longrightarrow> walk_rec f c cl s = Some (walk c [cl] s)"
proof (induction f arbitrary: cl s)
  case (Suc f)
  obtain pid pre isLast depth where cl: "cl = (pid, pre, isLast, depth)" by (cases cl)
  obtain vis lines where s: "s = (vis, lines)" by (cases s)
  show ?case
  proof (cases "pid \<notin> set vis \<and> map_of (tc_map c) pid \<noteq> None")
    case True
    then obtain n where n: "map_of (tc_map c) pid = Some n" "pid \<notin> set vis" by auto
    let ?s = "(pid # vis, lines @ [tree_line pid pre isLast depth n])"
    have "unvisited c (fst ?s) < f" using unvisited_less [OF n(2,1)] Suc.prems by (simp add: s)
    from walk_rec_fold [OF Suc.IH this] n show ?thesis by (simp add: cl s)
  qed (auto simp: cl s)
qed simp

text \<open>
  C21: The recursive walk that flattens the process tree terminates on every snapshot, PPID cycles
  included: a call depth of one more than the number of selected processes suffices, whatever the
  children lists are, and deeper recursion changes nothing; its result is that of the walk with an
  explicit stack.
\<close>

theorem tree_walk_terminates:
  assumes "length (tc_map c) < fuel"
  shows "walk_rec fuel c cl s = Some (walk c [cl] s)"
proof -
  have "unvisited c (fst s) \<le> card (dom (map_of (tc_map c)))"
    unfolding unvisited_def by (rule card_mono) (auto simp: finite_dom_map_of)
  also have "\<dots> \<le> length (tc_map c)"
    by (metis card_length dom_map_of_conv_image_fst length_map set_map)
  finally show ?thesis using assms walk_rec_walk by simp
qed

theorem tree_walk_terminates_witness:
  "let c = \<lparr>tc_map = [(7, plain_node 7 8), (8, plain_node 8 7)], tc_kids = (\<lambda>pid. if pid = 7 then [8] else [7])\<rparr>
   in walk_rec 3 c (7, [], True, 0) ([], []) = Some (walk c [(7, [], True, 0)] ([], []))"
  unfolding Let_def by (rule tree_walk_terminates) simp

section \<open>What the tree shows\<close>

definition kid :: "tree_ctx \<Rightarrow> (u32 \<times> u32) set" where
  "kid c = {(p, k). map_of (tc_map c) p \<noteq> None \<and> k \<in> set (tc_kids c p)}"

lemma map_fst_sibling_calls: "map fst (sibling_calls ks pre depth) = ks"
  by (simp add: sibling_calls_def o_def map_nth)

lemma fst_kid_calls: "fst ` set (kid_calls c (pid, pre, isLast, depth)) = set (tc_kids c pid)"
  using map_fst_sibling_calls [of "tc_kids c pid" "child_cont depth pre isLast" "depth + 1"]
  by (simp add: kid_calls_def flip: set_map)

lemma reach_via_kid_calls:
  assumes "map_of (tc_map c) pid = Some n" "cl \<in> set (kid_calls c (pid, pre, isLast, depth) @ calls)" "(fst cl, p) \<in> (kid c)\<^sup>*"
  shows "\<exists>cl \<in> set ((pid, pre, isLast, depth) # calls). (fst cl, p) \<in> (kid c)\<^sup>*"
proof (cases "cl \<in> set calls")
  case False
  with assms(2) have "fst cl \<in> set (tc_kids c pid)" using fst_kid_calls [of c pid pre isLast depth] by auto
  with assms(1) have "(pid, fst cl) \<in> kid c" by (simp add: kid_def)
  with assms(3) show ?thesis by (auto intro: converse_rtrancl_into_rtrancl)
qed (use assms(3) in auto)

lemma walk_spec:
  assumes "walk c calls (vis, lines) = (vis', lines')"
  shows "set vis \<union> fst ` set calls \<subseteq> set vis' \<and>
     (\<forall>p \<in> set vis' - set vis. map_of (tc_map c) p \<noteq> None \<longrightarrow> set (tc_kids c p) \<subseteq> set vis') \<and>
     (\<exists>new. lines' = lines @ new \<and> distinct (map tn_pid new) \<and>
        tn_pid ` set new = (set vis' - set vis) \<inter> dom (map_of (tc_map c))) \<and>
     (\<forall>p \<in> set vis' - set vis. \<exists>cl \<in> set calls. (fst cl, p) \<in> (kid c)\<^sup>*)"
  using assms
proof (induction c calls "(vis, lines)" arbitrary: vis lines rule: walk.induct)
  case (2 c pid pre isLast depth calls vis lines)
  show ?case
  proof (cases "pid \<in> set vis")
    case True
    with 2 show ?thesis by auto
  next
    case False
    show ?thesis
    proof (cases "map_of (tc_map c) pid")
      case None
      with 2(4) False have w: "walk c calls (pid # vis, lines) = (vis', lines')" by simp
      note IH = 2(2) [OF False None w]
      have sub: "insert pid (set vis) \<union> fst ` set calls \<subseteq> set vis'" using IH by simp
      have eq: "(set vis' - set vis) \<inter> dom (map_of (tc_map c)) = (set vis' - set (pid # vis)) \<inter> dom (map_of (tc_map c))"
        using None by auto
      have reach: "\<exists>cl \<in> set ((pid, pre, isLast, depth) # calls). (fst cl, p) \<in> (kid c)\<^sup>*" if "p \<in> set vis' - set vis" for p
        using IH that by (cases "p = pid") auto
      have closed: "set (tc_kids c p) \<subseteq> set vis'" if "p \<in> set vis' - set vis" "map_of (tc_map c) p \<noteq> None" for p
        using IH that None by (cases "p = pid") auto
      show ?thesis unfolding eq using sub closed reach IH by auto
    next
      case (Some n)
      let ?cl = "(pid, pre, isLast, depth)"
      have "walk c (kid_calls c ?cl @ calls) (pid # vis, lines @ [tree_line pid pre isLast depth n]) = (vis', lines')"
        using 2(4) False Some by simp
      note IH = 2(3) [OF False Some this]
      have sub: "insert pid (set vis) \<union> set (tc_kids c pid) \<union> fst ` set calls \<subseteq> set vis'"
        using IH fst_kid_calls [of c pid pre isLast depth] by (auto simp: image_Un)
      obtain new where new: "lines' = lines @ [tree_line pid pre isLast depth n] @ new" "distinct (map tn_pid new)"
        "tn_pid ` set new = (set vis' - insert pid (set vis)) \<inter> dom (map_of (tc_map c))" using IH by auto
      have "tn_pid (tree_line pid pre isLast depth n) = pid" by (simp add: tree_line_def Let_def)
      then have lines: "\<exists>new. lines' = lines @ new \<and> distinct (map tn_pid new) \<and>
          tn_pid ` set new = (set vis' - set vis) \<inter> dom (map_of (tc_map c))"
        by (intro exI [of _ "tree_line pid pre isLast depth n # new"]) (use new sub False Some in auto)
      have "\<exists>cl \<in> set (?cl # calls). (fst cl, p) \<in> (kid c)\<^sup>*" if p: "p \<in> set vis' - set vis" for p
      proof (cases "p = pid")
        case False
        from IH have "\<forall>p \<in> set vis' - set (pid # vis). \<exists>cl \<in> set (kid_calls c ?cl @ calls). (fst cl, p) \<in> (kid c)\<^sup>*" by (elim conjE)
        moreover have "p \<in> set vis' - set (pid # vis)" using p False by simp
        ultimately obtain cl where cl: "cl \<in> set (kid_calls c ?cl @ calls)" "(fst cl, p) \<in> (kid c)\<^sup>*" by (elim ballE bexE) auto
        show ?thesis by (rule reach_via_kid_calls [OF Some cl])
      qed auto
      moreover have "set (tc_kids c p) \<subseteq> set vis'" if "p \<in> set vis' - set vis" "map_of (tc_map c) p \<noteq> None" for p
        using IH that sub by (cases "p = pid") auto
      ultimately show ?thesis using sub lines by auto
    qed
  qed
qed auto

text \<open>The line that a line of depth \<open>d\<close> hangs under: the last one above it that is less deep.\<close>

definition owner :: "treeNode list \<Rightarrow> int \<Rightarrow> treeNode option" where
  "owner ls d = (let xs = filter (\<lambda>l. tn_depth l < d) ls in if xs = [] then None else Some (last xs))"

lemma owner_snoc: "owner (ls @ [l]) d = (if tn_depth l < d then Some l else owner ls d)"
  by (simp add: owner_def Let_def)

definition hangs :: "tree_ctx \<Rightarrow> treeNode list \<Rightarrow> u32 \<Rightarrow> int \<Rightarrow> bool" where
  "hangs c ls pid d \<longleftrightarrow>
     (if d = 0 then \<forall>p. pid \<notin> set (tc_kids c p)
      else \<exists>p. owner ls d = Some p \<and> tn_depth p = d - 1 \<and> pid \<in> set (tc_kids c (tn_pid p)))"

definition well_drawn :: "tree_ctx \<Rightarrow> treeNode list \<Rightarrow> bool" where
  "well_drawn c ls \<longleftrightarrow> (\<forall>i < length ls. hangs c (take i ls) (tn_pid (ls ! i)) (tn_depth (ls ! i)) \<and> 0 \<le> tn_depth (ls ! i))"

lemma well_drawn_snoc:
  "well_drawn c (ls @ [l]) \<longleftrightarrow> well_drawn c ls \<and> hangs c ls (tn_pid l) (tn_depth l) \<and> 0 \<le> tn_depth l"
  by (auto simp: well_drawn_def less_Suc_eq nth_append)

definition pending_ok :: "tree_ctx \<Rightarrow> call list \<Rightarrow> treeNode list \<Rightarrow> bool" where
  "pending_ok c calls ls \<longleftrightarrow> (\<forall>(pid, _, _, d) \<in> set calls. hangs c ls pid d \<and> 0 \<le> d) \<and>
     sorted_wrt (\<lambda>(_, _, _, d) (_, _, _, d'). d' \<le> d) calls"

lemma pending_ok_kids:
  fixes n :: SnapshotNode
  assumes "pending_ok c ((pid, pre, isLast, depth) # calls) ls"
  defines "l \<equiv> tree_line pid pre isLast depth n"
  shows "pending_ok c (kid_calls c (pid, pre, isLast, depth) @ calls) (ls @ [l])"
proof -
  have l: "tn_pid l = pid" "tn_depth l = depth" by (simp_all add: l_def tree_line_def Let_def)
  have d: "0 \<le> depth" using assms(1) by (simp add: pending_ok_def)
  have kids: "hangs c (ls @ [l]) p d' \<and> d' = depth + 1" if "(p, pr, b, d') \<in> set (kid_calls c (pid, pre, isLast, depth))" for p pr b d'
    using that l d by (auto simp: kid_calls_def sibling_calls_def hangs_def owner_snoc)
  have rest: "hangs c (ls @ [l]) p d' \<and> 0 \<le> d' \<and> d' \<le> depth" if "(p, pr, b, d') \<in> set calls" for p pr b d'
    using that assms(1) l by (fastforce simp: pending_ok_def hangs_def owner_snoc)
  have "sorted_wrt (\<lambda>(_, _, _, d) (_, _, _, d'). d' \<le> d) (kid_calls c (pid, pre, isLast, depth))"
    by (rule sorted_wrt_mono_rel [of _ "\<lambda>_ _. True"]) (auto dest!: kids simp: sorted_wrt_iff_nth_less)
  then show ?thesis using assms(1) kids rest d by (fastforce simp: pending_ok_def sorted_wrt_append)
qed

lemma walk_drawn:
  assumes "walk c calls (vis, lines) = (vis', lines')" and "pending_ok c calls lines" and "well_drawn c lines"
  shows "well_drawn c lines'"
  using assms
proof (induction c calls "(vis, lines)" arbitrary: vis lines rule: walk.induct)
  case (2 c pid pre isLast depth calls vis lines)
  have tl: "pending_ok c calls lines" using 2(5) by (simp add: pending_ok_def)
  show ?case
  proof (cases "pid \<in> set vis")
    case True
    with 2 tl show ?thesis by simp
  next
    case False
    show ?thesis
    proof (cases "map_of (tc_map c) pid")
      case None
      with 2 tl False show ?thesis by simp
    next
      case (Some n)
      have "well_drawn c (lines @ [tree_line pid pre isLast depth n])"
        using 2(5,6) by (simp add: well_drawn_snoc pending_ok_def) (simp add: tree_line_def Let_def)
      with 2(3) [OF False Some _ pending_ok_kids [OF 2(5)]] 2(4) False Some show ?thesis by simp
    qed
  qed
qed simp

text \<open>The selected nodes by PID.\<close>

lemma sel_map_snoc: "sel_map (ns @ [n]) = AList.update (nk_PID (sn_Key n)) n (sel_map ns)"
  by (simp add: sel_map_def)

lemma sel_map_dom: "dom (map_of (sel_map ns)) = set (sel_pids ns)"
  by (induction ns rule: rev_induct) (simp_all add: sel_map_snoc dom_update_alist, simp_all add: sel_map_def sel_pids_def)

lemma local_kids_snoc:
  "local_kids pm (pids @ [k]) = (case parent_in pm k of None \<Rightarrow> local_kids pm pids
      | Some pp \<Rightarrow> AList.update pp (m_list (local_kids pm pids) pp @ [k]) (local_kids pm pids))"
  by (cases "parent_in pm k") (simp_all add: local_kids_def)

lemma local_kids_spec: "x \<in> set (m_list (local_kids pm pids) p) \<longleftrightarrow> x \<in> set pids \<and> parent_in pm x = Some p"
proof (induction pids rule: rev_induct)
  case Nil
  then show ?case by (simp add: local_kids_def m_list_def)
next
  case (snoc k pids)
  have "x \<in> set (m_list (local_kids pm (pids @ [k])) p) \<longleftrightarrow>
      x = k \<and> parent_in pm k = Some p \<or> x \<in> set (m_list (local_kids pm pids) p)"
    by (cases "parent_in pm k") (simp_all add: local_kids_snoc m_list_update)
  then show ?case unfolding snoc by (cases "x = k") auto
qed

text \<open>A selected process is rooted when its chain of selected parents ends.\<close>

inductive rooted :: "(u32, SnapshotNode) gomap \<Rightarrow> u32 \<Rightarrow> bool" for pm where
  root: "map_of pm pid \<noteq> None \<Longrightarrow> parent_in pm pid = None \<Longrightarrow> rooted pm pid"
| child: "parent_in pm pid = Some p \<Longrightarrow> rooted pm p \<Longrightarrow> rooted pm pid"

inductive_cases rootedE: "rooted pm pid"

lemma parent_in_dom: "parent_in pm pid = Some p \<Longrightarrow> map_of pm pid \<noteq> None \<and> map_of pm p \<noteq> None"
  by (auto simp: parent_in_def Let_def split: option.splits if_splits)

lemma rooted_dom: "rooted pm pid \<Longrightarrow> map_of pm pid \<noteq> None"
  by (induction rule: rooted.induct) (auto dest: parent_in_dom)

definition tree_context :: "(u32 list \<Rightarrow> u32 list) \<Rightarrow> SnapshotNode list \<Rightarrow> tree_ctx" where
  "tree_context srt ns = \<lparr>tc_map = sel_map ns, tc_kids = (\<lambda>pid. srt (m_list (local_kids (sel_map ns) (sel_pids ns)) pid))\<rparr>"

definition tree_roots :: "(u32 list \<Rightarrow> u32 list) \<Rightarrow> SnapshotNode list \<Rightarrow> u32 list" where
  "tree_roots srt ns = srt (filter (\<lambda>pid. parent_in (sel_map ns) pid = None) (sel_pids ns))"

lemma build_tree_walk: "build_tree srt ns = snd (walk (tree_context srt ns) (sibling_calls (tree_roots srt ns) [] 0) ([], []))"
  by (simp add: build_tree_def tree_context_def tree_roots_def Let_def)

lemma tree_context_kids:
  assumes "\<And>xs. set (srt xs) = set xs"
  shows "k \<in> set (tc_kids (tree_context srt ns) p) \<longleftrightarrow> parent_in (sel_map ns) k = Some p"
    and "set (tree_roots srt ns) = {pid. map_of (sel_map ns) pid \<noteq> None \<and> parent_in (sel_map ns) pid = None}"
  using sel_map_dom [of ns] parent_in_dom [of "sel_map ns" k p]
  by (auto simp: tree_context_def tree_roots_def assms local_kids_spec)

lemma rooted_reach:
  assumes "\<And>xs. set (srt xs) = set xs"
  shows "rooted (sel_map ns) pid \<longleftrightarrow> (\<exists>r \<in> set (tree_roots srt ns). (r, pid) \<in> (kid (tree_context srt ns))\<^sup>*)"
proof
  assume "rooted (sel_map ns) pid"
  then show "\<exists>r \<in> set (tree_roots srt ns). (r, pid) \<in> (kid (tree_context srt ns))\<^sup>*"
  proof induction
    case (child pid p)
    have "(p, pid) \<in> kid (tree_context srt ns)"
      using child(1) parent_in_dom [OF child(1)] tree_context_kids(1) [OF assms]
      by (simp add: kid_def) (simp add: tree_context_def)
    with child.IH show ?case by (auto intro: rtrancl_into_rtrancl)
  qed (auto simp: tree_context_kids(2) [OF assms])
next
  assume "\<exists>r \<in> set (tree_roots srt ns). (r, pid) \<in> (kid (tree_context srt ns))\<^sup>*"
  then obtain r where r: "r \<in> set (tree_roots srt ns)" "(r, pid) \<in> (kid (tree_context srt ns))\<^sup>*" by blast
  from r(2) show "rooted (sel_map ns) pid"
  proof induction
    case base
    then show ?case using r(1) tree_context_kids(2) [OF assms] by (auto intro: rooted.root)
  next
    case (step p k)
    then show ?case using tree_context_kids(1) [OF assms] by (auto simp: kid_def intro: rooted.child)
  qed
qed

definition line_of :: "(u32, SnapshotNode) gomap \<Rightarrow> treeNode \<Rightarrow> bool" where
  "line_of pm l \<longleftrightarrow> (\<exists>n. map_of pm (tn_pid l) = Some n \<and> tn_key l = sn_Key n \<and> tn_comm l = DisplayComm n \<and>
     tn_alive l = sn_IsAlive n \<and> tn_evTypes l = event_types (sn_Events n) \<and> tn_hasEvts l = (tn_evTypes l \<noteq> []))"

lemma walk_lines_data:
  assumes "walk c calls (vis, lines) = (vis', lines')" and "\<forall>l \<in> set lines. line_of (tc_map c) l"
  shows "\<forall>l \<in> set lines'. line_of (tc_map c) l"
  using assms
proof (induction c calls "(vis, lines)" arbitrary: vis lines rule: walk.induct)
  case (2 c pid pre isLast depth calls vis lines)
  show ?case
  proof (cases "pid \<in> set vis \<or> map_of (tc_map c) pid = None")
    case True
    with 2 show ?thesis by (cases "pid \<in> set vis") simp_all
  next
    case False
    then obtain n where n: "map_of (tc_map c) pid = Some n" "pid \<notin> set vis" by auto
    have "line_of (tc_map c) (tree_line pid pre isLast depth n)"
      using n(1) by (simp add: line_of_def tree_line_def Let_def)
    then have "\<forall>l \<in> set (lines @ [tree_line pid pre isLast depth n]). line_of (tc_map c) l"
      using 2(5) by simp
    with 2(3) [OF n(2,1)] 2(4) n show ?thesis by simp
  qed
qed simp

text \<open>
  C19: The process tree of a container lists each of its processes at most once, and lists exactly those
  whose chain of parents inside the container ends: a process on or below a cycle of parent ids is left
  out. Every line carries the data of its process. A process without a parent in the container is a
  top-level line, of depth 0, whatever other cgroups hold; every other process is one level deeper than its
  parent, whose line is the nearest less deep line above it.
\<close>

theorem process_tree_shows:
  assumes "\<And>xs. set (srt xs) = set xs"
  shows "distinct (map tn_pid (build_tree srt ns)) \<and>
     tn_pid ` set (build_tree srt ns) = {pid. rooted (sel_map ns) pid} \<and>
     (\<forall>l \<in> set (build_tree srt ns). line_of (sel_map ns) l) \<and>
     (\<forall>i < length (build_tree srt ns). let l = build_tree srt ns ! i in
        0 \<le> tn_depth l \<and>
        (case parent_in (sel_map ns) (tn_pid l) of
           None \<Rightarrow> tn_depth l = 0
         | Some pp \<Rightarrow> \<exists>p. owner (take i (build_tree srt ns)) (tn_depth l) = Some p \<and> tn_depth p = tn_depth l - 1 \<and> tn_pid p = pp))"
proof -
  let ?c = "tree_context srt ns" and ?calls = "sibling_calls (tree_roots srt ns) [] 0"
  obtain vis ls where w: "walk ?c ?calls ([], []) = (vis, ls)" by fastforce
  then have ls: "build_tree srt ns = ls" by (simp add: build_tree_walk)
  have roots: "fst ` set ?calls = set (tree_roots srt ns)"
    using map_fst_sibling_calls [of "tree_roots srt ns" "[]" 0] by (metis set_map)
  have tm: "tc_map ?c = sel_map ns" by (simp add: tree_context_def)
  from walk_spec [OF w] have sub: "set (tree_roots srt ns) \<subseteq> set vis"
    and closed: "\<forall>p \<in> set vis. map_of (sel_map ns) p \<noteq> None \<longrightarrow> set (tc_kids ?c p) \<subseteq> set vis"
    and new: "distinct (map tn_pid ls)" "tn_pid ` set ls = set vis \<inter> dom (map_of (sel_map ns))"
    and reach: "\<forall>p \<in> set vis. \<exists>cl \<in> set ?calls. (fst cl, p) \<in> (kid ?c)\<^sup>*"
    by (simp_all add: roots tm)
  have vis: "p \<in> set vis \<longleftrightarrow> rooted (sel_map ns) p" for p
  proof
    assume "p \<in> set vis"
    with reach obtain cl where "cl \<in> set ?calls" "(fst cl, p) \<in> (kid ?c)\<^sup>*" by blast
    moreover from this(1) have "fst cl \<in> set (tree_roots srt ns)" using roots by blast
    ultimately show "rooted (sel_map ns) p" unfolding rooted_reach [OF assms] by blast
  next
    assume "rooted (sel_map ns) p"
    then obtain r where r: "r \<in> set (tree_roots srt ns)" "(r, p) \<in> (kid ?c)\<^sup>*" unfolding rooted_reach [OF assms] by blast
    from r(2) show "p \<in> set vis"
    proof induction
      case (step q k)
      then show ?case using closed by (auto simp: kid_def tm)
    qed (use r(1) sub in blast)
  qed
  have pids: "tn_pid ` set ls = {pid. rooted (sel_map ns) pid}"
    unfolding new(2) using rooted_dom vis by fastforce
  have data: "\<forall>l \<in> set ls. line_of (sel_map ns) l"
    using walk_lines_data [OF w] by (simp add: tm)
  have "hangs ?c [] pid 0" if "pid \<in> set (tree_roots srt ns)" for pid
    using that tree_context_kids [OF assms] by (auto simp: hangs_def)
  then have "pending_ok ?c ?calls []"
    by (auto simp: pending_ok_def sibling_calls_def sorted_wrt_iff_nth_less)
  from walk_drawn [OF w this] have drawn: "well_drawn ?c ls" by (simp add: well_drawn_def)
  have shape: "0 \<le> tn_depth (ls ! i) \<and> (case parent_in (sel_map ns) (tn_pid (ls ! i)) of None \<Rightarrow> tn_depth (ls ! i) = 0
      | Some pp \<Rightarrow> \<exists>p. owner (take i ls) (tn_depth (ls ! i)) = Some p \<and> tn_depth p = tn_depth (ls ! i) - 1 \<and> tn_pid p = pp)" if "i < length ls" for i
  proof -
    have h: "hangs ?c (take i ls) (tn_pid (ls ! i)) (tn_depth (ls ! i))" "0 \<le> tn_depth (ls ! i)" using drawn that by (simp_all add: well_drawn_def)
    then show ?thesis using tree_context_kids(1) [OF assms]
      by (cases "tn_depth (ls ! i) = 0"; cases "parent_in (sel_map ns) (tn_pid (ls ! i))") (auto simp: hangs_def)
  qed
  show ?thesis unfolding ls Let_def using new(1) pids data shape by blast
qed

theorem process_tree_shows_witness:
  "let ns = [plain_node 10 1, plain_node 11 10, plain_node 20 21, plain_node 21 20] in
   distinct (map tn_pid (build_tree (\<lambda>xs. xs) ns)) \<and>
   tn_pid ` set (build_tree (\<lambda>xs. xs) ns) = {pid. rooted (sel_map ns) pid} \<and> map tn_pid (build_tree (\<lambda>xs. xs) ns) = [10, 11] \<and>
   (\<exists>p. owner (take 1 (build_tree (\<lambda>xs. xs) ns)) 1 = Some p \<and> tn_pid p = 10)"
proof -
  let ?ns = "[plain_node 10 1, plain_node 11 10, plain_node 20 21, plain_node 21 20]"
  have 1: "map (\<lambda>l. (tn_pid l, tn_depth l)) (build_tree (\<lambda>xs. xs) ?ns) = [(10, 0), (11, 1)]" "parent_in (sel_map ?ns) 11 = Some 10" by code_simp+
  then have 2: "length (build_tree (\<lambda>xs. xs) ?ns) = 2" "tn_pid (build_tree (\<lambda>xs. xs) ?ns ! 1) = 11" "tn_depth (build_tree (\<lambda>xs. xs) ?ns ! 1) = 1"
    "map tn_pid (build_tree (\<lambda>xs. xs) ?ns) = [10, 11]"
    by (auto simp: map_eq_Cons_conv)
  with 1(2) process_tree_shows [of "\<lambda>xs. xs" ?ns] show ?thesis unfolding Let_def by force
qed

section \<open>The panels\<close>

definition countForKey :: "procgraph_view \<Rightarrow> string \<Rightarrow> nat" where
  "countForKey v key = (case pg_snap v of None \<Rightarrow> 0 | Some s \<Rightarrow> length (filter (\<lambda>(_, n). cgroupKeyFor n = key) (s_Nodes s)))"

definition cut_runes :: "runes \<Rightarrow> int \<Rightarrow> runes go" where
  "cut_runes r n = (if n < int (length r) then go_bind (go_slice r 0 (n - 1)) (\<lambda>t. Inr (t @ [ellipsis])) else Inr r)"

definition short_key :: "string \<Rightarrow> string" where
  "short_key key = (if HasPrefix key ''cgroup:'' then TrimPrefix key ''cgroup:''
     else if HasPrefix key ''host:'' then TrimPrefix key ''host:'' else key)"

fun container_rows :: "procgraph_view \<Rightarrow> int \<Rightarrow> string list \<Rightarrow> runes list go" where
  "container_rows v w [] = Inr []"
| "container_rows v w (key # ks) =
     (let maxR = (if w - 10 < 4 then 4 else w - 10) in
      go_bind (cut_runes (runes_of (short_key key)) maxR) (\<lambda>sh.
      go_bind (container_rows v w ks) (\<lambda>rows.
        Inr ((runes_of '' '' @ [9673] @ runes_of '' '' @ sh @ runes_of ('' ['' @ show_nat (countForKey v key) @ '']'')) # rows))))"

definition pad_rows :: "int \<Rightarrow> int \<Rightarrow> runes list \<Rightarrow> runes list go" where
  "pad_rows n w rows =
     (if int (length rows) < n then go_bind (Repeat_runes (runes_of '' '') w) (\<lambda>b. Inr (rows @ replicate (nat n - length rows) b)) else Inr rows)"

definition renderContainerPanel :: "int \<Rightarrow> int \<Rightarrow> procgraph_view \<Rightarrow> runes list go" where
  "renderContainerPanel w h v =
     go_bind (container_rows v w (pg_cgroupKeys v)) (\<lambda>rs.
     let rows = (if pg_cgroupKeys v = [] then [runes_of ''  waiting'' @ [8230]] else rs) in
     go_bind (pad_rows (h - 2) w rows) (\<lambda>rows'.
     go_bind (go_slice rows' 0 (min (int (length rows')) (h - 2))) (\<lambda>vis. Inr (runes_of '' Container'' # vis))))"

definition badgeStr :: "string list \<Rightarrow> runes" where
  "badgeStr types =
     (let b = concat (map (\<lambda>et. if et = EventTypeExec then [9889] else if et = EventTypePrivEsc then [128274]
        else if et = EventTypeDNSQuery then [127760] else if et = EventTypeEscapeIndicator then [128682] else []) types)
      in if b \<noteq> [] then b @ [32] else [])"

definition tree_text :: "treeNode \<Rightarrow> runes" where
  "tree_text tn = tn_prefix tn @ badgeStr (tn_evTypes tn) @ runes_of (tn_comm tn) @ (if tn_alive tn then [] else [32, 183]) @
     runes_of ('' ('' @ show_nat (unat (tn_pid tn)) @ '')'')"

fun tree_rows :: "int \<Rightarrow> treeNode list \<Rightarrow> runes list go" where
  "tree_rows w [] = Inr []"
| "tree_rows w (tn # tns) =
     (let maxR = (if w - 2 < 4 then 4 else w - 2) in
      go_bind (cut_runes (tree_text tn) maxR) (\<lambda>line. go_bind (tree_rows w tns) (\<lambda>rows. Inr ((32 # line) # rows))))"

text \<open>The scroll offset follows the selection.\<close>

definition tree_scroll :: "int \<Rightarrow> procgraph_view \<Rightarrow> procgraph_view" where
  "tree_scroll visH v =
     (let v1 = (if pg_treeSel v < pg_treeOffset v then v\<lparr>pg_treeOffset := pg_treeSel v\<rparr> else v)
      in if pg_treeOffset v1 + visH \<le> pg_treeSel v1 then v1\<lparr>pg_treeOffset := pg_treeSel v1 - visH + 1\<rparr> else v1)"

definition renderTreePanel :: "int \<Rightarrow> int \<Rightarrow> procgraph_view \<Rightarrow> (runes list \<times> procgraph_view) go" where
  "renderTreePanel w h v =
     (let hdr = runes_of '' Process Tree'' in
      if pg_treeLines v = [] then Inr ([hdr, runes_of ''  No processes '' @ [8212] @ runes_of '' select a container''], v)
      else let visH = h - 3; v1 = tree_scroll visH v in
        go_bind (if pg_treeOffset v1 < 0 \<and> 0 < visH then Inl IndexOutOfRange
                 else tree_rows w (take (nat visH) (drop (nat (pg_treeOffset v1)) (pg_treeLines v1)))) (\<lambda>lines.
        go_bind (pad_rows visH w lines) (\<lambda>lines'.
          Inr ([hdr] @ lines' @ [runes_of ('' ['' @ show_int (pg_treeSel v1 + 1) @ ''/'' @ show_nat (length (pg_treeLines v1)) @ '']  '') @ [8593, 8595] @ runes_of '' navigate  '' @ [8592, 8594] @ runes_of '' panels''], v1))))"

definition kv :: "string \<Rightarrow> runes \<Rightarrow> runes" where
  "kv k val = runes_of (''  '' @ k @ replicate (6 - length k) CHR '' '') @ [32] @ val"

fun ancestry_rows :: "int \<Rightarrow> NodeKey \<Rightarrow> nat \<Rightarrow> SnapshotNode list \<Rightarrow> runes list go" where
  "ancestry_rows w key i [] = Inr []"
| "ancestry_rows w key i (a # as) =
     go_bind (cut_runes (runes_of (DisplayComm a)) (w - int i * 2 - 6)) (\<lambda>comm.
     go_bind (ancestry_rows w key (Suc i) as) (\<lambda>rows.
       Inr ((replicate (2 * i) 32 @ [32, 32, 9492, 9472, 32] @ comm @ (if sn_Key a = key then [32, 9664] else [])) # rows)))"

definition event_icon :: "string \<Rightarrow> runes" where
  "event_icon et = (if et = EventTypeExec then [9889] else if et = EventTypePrivEsc then [128274]
     else if et = EventTypeDNSQuery then [127760] else if et = EventTypeEscapeIndicator then [128682] else [9679])"

fun event_rows :: "(time \<Rightarrow> string) \<Rightarrow> int \<Rightarrow> EventEnvelope option list \<Rightarrow> runes list go" where
  "event_rows clock w [] = Inr []"
| "event_rows clock w (None # evs) = event_rows clock w evs"
| "event_rows clock w (Some ev # evs) =
     go_bind (cut_runes (runes_of (ev_Process ev)) (w - 22)) (\<lambda>proc.
     go_bind (event_rows clock w evs) (\<lambda>rows.
       Inr ((runes_of ''  '' @ event_icon (ev_EventType ev) @ [32] @ runes_of (clock (ev_Timestamp ev)) @ [32] @ proc) # rows)))"

definition node_rows :: "(time \<Rightarrow> string) \<Rightarrow> int \<Rightarrow> SnapshotNode \<Rightarrow> runes list go" where
  "node_rows clock w node =
     go_bind (cut_runes (runes_of (DisplayComm node)) (w - 10)) (\<lambda>comm.
     go_bind (cut_runes (runes_of (sn_ContainerName node)) (w - 10)) (\<lambda>ctr.
     go_bind (cut_runes (runes_of (sn_ExePath node)) (w - 10)) (\<lambda>path.
       Inr ([kv ''PID'' (runes_of (show_nat (unat (nk_PID (sn_Key node))))), kv ''PPID'' (runes_of (show_nat (unat (sn_PPID node)))), kv ''Comm'' comm] @
         (if sn_ContainerName node \<noteq> [] then [kv ''Ctr'' ctr] else []) @
         (if sn_ExePath node \<noteq> [] then [kv ''Path'' path] else []) @
         (if sn_ForkTime node \<noteq> zero_time then [kv ''Fork'' (runes_of (clock (sn_ForkTime node)))] else []) @
         (if sn_ExecTime node \<noteq> zero_time then [kv ''Exec'' (runes_of (clock (sn_ExecTime node)))] else []) @
         (if sn_SID node \<noteq> 0 then [kv ''SID'' (runes_of (show_nat (unat (sn_SID node))))] else []) @
         [runes_of (''  '' @ (if sn_IsAlive node then '' alive '' else '' exit:'' @ show_int (sn_ExitCode node) @ '' '')), []]))))"

definition renderDetailPanel :: "(time \<Rightarrow> string) \<Rightarrow> int \<Rightarrow> int \<Rightarrow> procgraph_view \<Rightarrow> runes list go" where
  "renderDetailPanel clock w h v =
     (let hdr = runes_of '' Node Detail'' in
      case pg_snap v of None \<Rightarrow> Inr [hdr, runes_of ''  select a node in the tree'']
      | Some s \<Rightarrow>
        if pg_treeLines v = [] \<or> int (length (pg_treeLines v)) \<le> pg_treeSel v then Inr [hdr, runes_of ''  select a node in the tree'']
        else go_bind (go_index (pg_treeLines v) (pg_treeSel v)) (\<lambda>tn.
          case map_of (s_Nodes s) (tn_key tn) of None \<Rightarrow> Inr [hdr, runes_of ''  node not found'']
          | Some node \<Rightarrow>
            let ancs = Snapshot_Ancestors s (tn_key tn); evs = sn_Events node in
            go_bind (node_rows clock w node) (\<lambda>info.
            go_bind (ancestry_rows w (sn_Key node) 0 ancs) (\<lambda>arows.
            go_bind (if 10 < int (length evs) then go_slice evs (int (length evs) - 10) (int (length evs)) else Inr evs) (\<lambda>shown.
            go_bind (event_rows clock w shown) (\<lambda>erows.
            let lines = info @ (if ancs \<noteq> [] then [runes_of ''  Ancestry''] @ arows @ [[]] else []) @
                  (if evs \<noteq> [] then [runes_of (''  Events ('' @ show_nat (length evs) @ '')'')] @ erows else []);
                padded = lines @ replicate (nat (h - 2) - length lines) []
            in go_bind (if h - 2 < int (length padded) then go_slice padded 0 (h - 2) else Inr padded) (\<lambda>vis. Inr (hdr # vis))))))))"

definition pg_render :: "(time \<Rightarrow> string) \<Rightarrow> procgraph_view \<Rightarrow> (pg_drawn option \<times> procgraph_view) go" where
  "pg_render clock v =
     (if pg_w v = 0 \<or> pg_h v = 0 then Inr (None, v)
      else let bh = pg_h v - 2 in
        if bh < 4 then Inr (Some TitleOnly, v)
        else let treeW = (if pg_w v - 40 - 34 - 2 < 24 then 24 else pg_w v - 40 - 34 - 2) in
          go_bind (renderContainerPanel 40 bh v) (\<lambda>left.
          go_bind (renderTreePanel treeW bh v) (\<lambda>(middle, v1).
          go_bind (renderDetailPanel clock 34 bh v1) (\<lambda>right. Inr (Some (Panels left middle right), v1)))))"

definition pg_View :: "(time \<Rightarrow> string) \<Rightarrow> procgraph_view \<Rightarrow> (pg_drawn option \<times> procgraph_view) go" where
  "pg_View clock v =
     (if \<not> pg_dirty v \<and> pg_cached v \<noteq> None then Inr (pg_cached v, v)
      else go_bind (pg_render clock v) (\<lambda>(d, v1). Inr (d, v1\<lparr>pg_cached := d, pg_dirty := False\<rparr>)))"

section \<open>Navigation and drawing are safe\<close>

definition pg_ok :: "procgraph_view \<Rightarrow> bool" where
  "pg_ok v \<longleftrightarrow> 0 \<le> pg_cgroupSel v \<and> (pg_cgroupKeys v \<noteq> [] \<longrightarrow> pg_cgroupSel v < int (length (pg_cgroupKeys v))) \<and>
     0 \<le> pg_treeSel v \<and> (pg_treeLines v \<noteq> [] \<longrightarrow> pg_treeSel v < int (length (pg_treeLines v))) \<and>
     0 \<le> pg_treeOffset v \<and> pg_activePanel v \<in> {panelCgroup, panelTree, panelDetail}"

lemma pg_ok_new: "pg_ok (pg_New th)"
  by (simp add: pg_ok_def pg_New_def panelTree_def)

lemma rebuildTree_ok:
  assumes "0 \<le> pg_cgroupSel v" and "pg_cgroupKeys v \<noteq> [] \<longrightarrow> pg_cgroupSel v < int (length (pg_cgroupKeys v))"
    and "0 \<le> pg_treeSel v" and "0 \<le> pg_treeOffset v" and "pg_activePanel v \<in> {panelCgroup, panelTree, panelDetail}"
  shows "\<exists>v'. rebuildTree R v = Inr v' \<and> pg_ok v'"
proof (cases "pg_snap v = None \<or> pg_cgroupKeys v = []")
  case True
  then show ?thesis using assms by (auto simp: rebuildTree_def Let_def pg_ok_def split: option.split)
next
  case False
  then obtain s where s: "pg_snap v = Some s" by auto
  define ns where "ns = selected_nodes (pg_cgroupKeys v ! nat (pg_cgroupSel v)) (pg_filter v) (go_range R (s_Nodes s))"
  define ls where "ls = build_tree (go_sort R (pid_less (sel_map ns))) ns"
  have "rebuildTree R v = Inr (if ns = [] then v\<lparr>pg_treeLines := []\<rparr>
      else if int (length ls) \<le> pg_treeSel v then v\<lparr>pg_treeLines := ls, pg_treeSel := 0\<rparr> else v\<lparr>pg_treeLines := ls\<rparr>)"
    using False assms(1,2) by (simp add: rebuildTree_def s ns_def [symmetric] ls_def [symmetric] Let_def)
  then show ?thesis using assms by (auto simp: pg_ok_def)
qed

lemma pg_ok_fields [simp]:
  "pg_ok (invalidate v) = pg_ok v" "pg_ok (v\<lparr>pg_w := a\<rparr>) = pg_ok v" "pg_ok (v\<lparr>pg_h := a\<rparr>) = pg_ok v"
  "pg_ok (v\<lparr>pg_theme := th\<rparr>) = pg_ok v" "pg_ok (v\<lparr>pg_focused := b\<rparr>) = pg_ok v" "pg_ok (v\<lparr>pg_cached := d\<rparr>) = pg_ok v"
  "pg_ok (v\<lparr>pg_dirty := b\<rparr>) = pg_ok v"
  by (simp_all add: pg_ok_def invalidate_def)

lemma pg_ok_rebuild: "pg_ok v \<Longrightarrow> \<exists>v'. rebuildTree R v = Inr v' \<and> pg_ok v'"
  by (rule rebuildTree_ok) (simp_all add: pg_ok_def)

lemma rebuildCgroupList_rebuild:
  assumes "pg_ok v"
  shows "\<exists>v'. rebuildTree R (rebuildCgroupList (v\<lparr>pg_snap := Some s\<rparr>)) = Inr v' \<and> pg_ok v'"
  by (rule rebuildTree_ok) (use assms in \<open>auto simp: rebuildCgroupList_def pg_ok_def Let_def\<close>)

lemma pg_SetData_ok: "pg_ok v \<Longrightarrow> \<exists>v'. pg_SetData R b v = Inr v' \<and> pg_ok v'"
  using rebuildCgroupList_rebuild [of v R] by (cases "db_Graph b") (fastforce simp: pg_SetData_def)+

lemma pg_SetSize_ok: "pg_ok v \<Longrightarrow> \<exists>v'. pg_SetSize R w h v = Inr v' \<and> pg_ok v'"
  using pg_ok_rebuild [of "v\<lparr>pg_w := w, pg_h := h\<rparr>" R] by (fastforce simp: pg_SetSize_def)

lemma nav_ok:
  assumes "pg_ok v"
  shows "\<exists>v'. navUp R v = Inr v' \<and> pg_ok v'" "\<exists>v'. navDown R v = Inr v' \<and> pg_ok v'" "\<exists>v'. navTop R v = Inr v' \<and> pg_ok v'"
    "pg_ok (navBottom v)"
proof -
  have up: "\<exists>v'. rebuildTree R (v\<lparr>pg_cgroupSel := pg_cgroupSel v - 1\<rparr>) = Inr v' \<and> pg_ok v'" if "0 < pg_cgroupSel v"
    by (rule rebuildTree_ok) (use assms that in \<open>auto simp: pg_ok_def\<close>)
  have down: "\<exists>v'. rebuildTree R (v\<lparr>pg_cgroupSel := pg_cgroupSel v + 1\<rparr>) = Inr v' \<and> pg_ok v'"
    if "pg_cgroupSel v < int (length (pg_cgroupKeys v)) - 1"
    by (rule rebuildTree_ok) (use assms that in \<open>auto simp: pg_ok_def\<close>)
  have top: "\<exists>v'. rebuildTree R (v\<lparr>pg_cgroupSel := 0\<rparr>) = Inr v' \<and> pg_ok v'"
    by (rule rebuildTree_ok) (use assms in \<open>auto simp: pg_ok_def\<close>)
  have sel: "pg_ok (v\<lparr>pg_treeSel := 0\<rparr>)" "0 < pg_treeSel v \<Longrightarrow> pg_ok (v\<lparr>pg_treeSel := pg_treeSel v - 1\<rparr>)"
    "pg_treeSel v < int (length (pg_treeLines v)) - 1 \<Longrightarrow> pg_ok (v\<lparr>pg_treeSel := pg_treeSel v + 1\<rparr>)"
    using assms by (auto simp: pg_ok_def)
  show "\<exists>v'. navUp R v = Inr v' \<and> pg_ok v'"
    using assms up sel(2) by (cases "pg_activePanel v = panelCgroup"; cases "0 < pg_cgroupSel v") (auto simp: navUp_def)
  show "\<exists>v'. navDown R v = Inr v' \<and> pg_ok v'"
    using assms down sel(3)
    by (cases "pg_activePanel v = panelCgroup"; cases "pg_cgroupSel v < int (length (pg_cgroupKeys v)) - 1") (auto simp: navDown_def)
  show "\<exists>v'. navTop R v = Inr v' \<and> pg_ok v'"
    using assms top sel(1) by (cases "pg_activePanel v = panelCgroup") (auto simp: navTop_def)
  show "pg_ok (navBottom v)"
    using assms by (auto simp: navBottom_def pg_ok_def invalidate_def)
qed

lemma pg_Update_ok: "pg_ok v \<Longrightarrow> \<exists>v'. pg_Update R msg v = Inr v' \<and> pg_ok v'"
proof (cases msg)
  case (KeyMsg k)
  assume ok: "pg_ok v"
  have panel: "pg_ok (if 0 < pg_activePanel v then invalidate (v\<lparr>pg_activePanel := pg_activePanel v - 1\<rparr>) else v)"
    "pg_ok (if pg_activePanel v < panelDetail then invalidate (v\<lparr>pg_activePanel := pg_activePanel v + 1\<rparr>) else v)"
    using ok by (auto simp: pg_ok_def panelCgroup_def panelTree_def panelDetail_def invalidate_def)
  show ?thesis using nav_ok [OF ok] ok panel unfolding pg_Update_def KeyMsg tea_msg.case by simp
qed (simp_all add: pg_Update_def)

text \<open>The states a view can reach: data, sizes, themes, focus changes, messages and drawing in any order.\<close>

inductive pg_step :: "graph_orders \<Rightarrow> (time \<Rightarrow> string) \<Rightarrow> procgraph_view \<Rightarrow> procgraph_view \<Rightarrow> bool" for R clock where
  data: "pg_SetData R b v = Inr v' \<Longrightarrow> pg_step R clock v v'"
| size: "pg_SetSize R w h v = Inr v' \<Longrightarrow> pg_step R clock v v'"
| theme: "pg_step R clock v (pg_SetTheme th v)"
| focus: "pg_step R clock v (v\<lparr>pg_focused := b\<rparr>)"
| message: "pg_Update R msg v = Inr v' \<Longrightarrow> pg_step R clock v v'"
| draw: "pg_View clock v = Inr (d, v') \<Longrightarrow> pg_step R clock v v'"

inductive_cases pg_stepE: "pg_step R clock v v'"

lemma tree_scroll_window:
  assumes "pg_ok v" and "0 < visH"
  shows "pg_ok (tree_scroll visH v)" "pg_treeOffset (tree_scroll visH v) \<le> pg_treeSel v"
    "pg_treeSel v < pg_treeOffset (tree_scroll visH v) + visH" "pg_treeSel (tree_scroll visH v) = pg_treeSel v"
    "pg_treeLines (tree_scroll visH v) = pg_treeLines v" "pg_snap (tree_scroll visH v) = pg_snap v"
  using assms by (auto simp: tree_scroll_def Let_def pg_ok_def)

lemma cut_runes_ok: "0 < n \<Longrightarrow> \<exists>t. cut_runes r n = Inr t \<and> int (length t) \<le> max n (int (length r)) \<and> int (length t) \<le> n"
  by (auto simp: cut_runes_def go_slice_def)

lemma width_pos: "0 < (if w - d < 4 then 4 else w - d :: int)"
  by simp

lemma rows_ok:
  "\<exists>rs. container_rows v w ks = Inr rs \<and> length rs = length ks" "\<exists>ls. tree_rows w tns = Inr ls \<and> length ls = length tns"
proof -
  show "\<exists>rs. container_rows v w ks = Inr rs \<and> length rs = length ks"
  proof (induction ks)
    case (Cons k ks)
    then obtain rs where "container_rows v w ks = Inr rs" "length rs = length ks" by blast
    moreover obtain sh where "cut_runes (runes_of (short_key k)) (if w - 10 < 4 then 4 else w - 10) = Inr sh"
      using cut_runes_ok [OF width_pos] by blast
    ultimately show ?case by (simp add: Let_def)
  qed simp
  show "\<exists>ls. tree_rows w tns = Inr ls \<and> length ls = length tns"
  proof (induction tns)
    case (Cons tn tns)
    then obtain ls where "tree_rows w tns = Inr ls" "length ls = length tns" by blast
    moreover obtain l where "cut_runes (tree_text tn) (if w - 2 < 4 then 4 else w - 2) = Inr l"
      using cut_runes_ok [OF width_pos] by blast
    ultimately show ?case by (simp add: Let_def)
  qed simp
qed

lemma pad_rows_ok: "0 \<le> w \<Longrightarrow> \<exists>rs. pad_rows n w rows = Inr rs \<and> length rs = max (nat n) (length rows)"
  by (auto simp: pad_rows_def Repeat_runes_def)

lemma ancestry_rows_ok:
  "int (i + length as) * 2 + 6 \<le> w \<Longrightarrow> \<exists>rs. ancestry_rows w key i as = Inr rs"
proof (induction as arbitrary: i)
  case (Cons a as)
  have "int (Suc i + length as) * 2 + 6 \<le> w" using Cons.prems by simp
  then obtain rs where rs: "ancestry_rows w key (Suc i) as = Inr rs" using Cons.IH by blast
  have "0 < w - int i * 2 - 6" using Cons.prems by simp
  from cut_runes_ok [OF this, of "runes_of (DisplayComm a)"] rs show ?case by fastforce
qed simp

lemma event_rows_ok: "22 < w \<Longrightarrow> \<exists>rs. event_rows clock w evs = Inr rs"
proof (induction clock w evs rule: event_rows.induct)
  case (3 clock w ev evs)
  then show ?case using cut_runes_ok [of "w - 22" "runes_of (ev_Process ev)"] by fastforce
qed simp_all

lemma node_rows_ok: "10 < w \<Longrightarrow> \<exists>rs. node_rows clock w node = Inr rs"
proof -
  assume "10 < w"
  then have w: "0 < w - 10" by simp
  then obtain a b c where "cut_runes (runes_of (DisplayComm node)) (w - 10) = Inr a"
    "cut_runes (runes_of (sn_ContainerName node)) (w - 10) = Inr b" "cut_runes (runes_of (sn_ExePath node)) (w - 10) = Inr c"
    using cut_runes_ok by blast
  then show ?thesis by (simp add: node_rows_def)
qed


lemma renderContainerPanel_ok: "0 \<le> w \<Longrightarrow> 2 \<le> h \<Longrightarrow> \<exists>ls. renderContainerPanel w h v = Inr ls \<and> int (length ls) = h - 1"
proof -
  assume a: "0 \<le> w" "2 \<le> h"
  obtain rs where rs: "container_rows v w (pg_cgroupKeys v) = Inr rs" using rows_ok(1) by blast
  define rows where "rows = (if pg_cgroupKeys v = [] then [runes_of ''  waiting'' @ [8230]] else rs)"
  obtain rows' where r: "pad_rows (h - 2) w rows = Inr rows'" "length rows' = max (nat (h - 2)) (length rows)"
    using pad_rows_ok [OF a(1)] by blast
  have "renderContainerPanel w h v = go_bind (go_slice rows' 0 (min (int (length rows')) (h - 2))) (\<lambda>vis. Inr (runes_of '' Container'' # vis))"
    by (simp add: renderContainerPanel_def rs rows_def [symmetric] r(1) Let_def)
  also have "go_slice rows' 0 (min (int (length rows')) (h - 2)) = Inr (take (nat (h - 2)) rows')"
  proof -
    have le: "h - 2 \<le> int (length rows')" using max.cobounded1 [of "nat (h - 2)" "length rows"] unfolding r(2) by linarith
    then have "min (int (length rows')) (h - 2) = h - 2" by simp
    with le a(2) show ?thesis by (simp add: go_slice_def)
  qed
  finally show ?thesis using r(2) a(2) by simp
qed

lemma renderTreePanel_ok:
  assumes "pg_ok v" and "0 \<le> w" and "4 \<le> h" and "pg_treeLines v \<noteq> []"
  shows "\<exists>ls v1. renderTreePanel w h v = Inr (ls, v1) \<and> v1 = tree_scroll (h - 3) v \<and> int (length ls) = h - 1"
proof -
  let ?v1 = "tree_scroll (h - 3) v"
  note sc = tree_scroll_window [OF assms(1), of "h - 3"]
  have off: "0 \<le> pg_treeOffset ?v1" using sc(1) assms(3) by (simp add: pg_ok_def)
  define shown where "shown = take (nat (h - 3)) (drop (nat (pg_treeOffset ?v1)) (pg_treeLines ?v1))"
  obtain ls where ls: "tree_rows w shown = Inr ls" "length ls = length shown" using rows_ok(2) by blast
  obtain ls' where ls': "pad_rows (h - 3) w ls = Inr ls'" "length ls' = max (nat (h - 3)) (length ls)"
    using pad_rows_ok [OF assms(2)] by blast
  have len: "int (length ls') = h - 3" using ls'(2) ls(2) assms(3) by (simp add: shown_def)
  have "\<exists>foot. renderTreePanel w h v = Inr ([runes_of '' Process Tree''] @ ls' @ [foot], ?v1)"
    using assms(4) off ls(1) ls'(1) by (simp add: renderTreePanel_def shown_def Let_def)
  then show ?thesis using len by (auto simp del: append_Cons)
qed

lemma renderDetailPanel_ok:
  assumes "pg_ok v" and "2 \<le> h"
  shows "\<exists>ls. renderDetailPanel clock 34 h v = Inr ls"
proof (cases "pg_snap v")
  case (Some s)
  show ?thesis
  proof (cases "pg_treeLines v = [] \<or> int (length (pg_treeLines v)) \<le> pg_treeSel v")
    case False
    define tn where "tn = pg_treeLines v ! nat (pg_treeSel v)"
    have tn: "go_index (pg_treeLines v) (pg_treeSel v) = Inr tn" using False assms(1) by (simp add: tn_def pg_ok_def)
    show ?thesis
    proof (cases "map_of (s_Nodes s) (tn_key tn)")
      case None
      with Some False tn show ?thesis by (simp add: renderDetailPanel_def Let_def)
    next
      case node: (Some node)
      let ?ancs = "Snapshot_Ancestors s (tn_key tn)"
      have "length ?ancs \<le> 8" using length_ancestor_walk [of sn_PPID "s_Nodes s" "nat MaxAncestors" "tn_key tn" "[]"]
        by (simp add: Snapshot_Ancestors_def MaxAncestors_def)
      then obtain ar where ar: "ancestry_rows 34 (sn_Key node) 0 ?ancs = Inr ar"
        using ancestry_rows_ok [of 0 ?ancs 34 "sn_Key node"] by auto
      obtain info where info: "node_rows clock 34 node = Inr info" using node_rows_ok [of 34 clock node] by auto
      have sl: "(if 10 < int (length (sn_Events node)) then go_slice (sn_Events node) (int (length (sn_Events node)) - 10) (int (length (sn_Events node))) else Inr (sn_Events node)) =
          Inr (take_last 10 (sn_Events node))"
        using slice_suffix [of 10 "sn_Events node"] unfolding of_nat_numeral .
      obtain er where er: "event_rows clock 34 (take_last 10 (sn_Events node)) = Inr er" using event_rows_ok [of 34] by auto
      have cut: "\<exists>ls. go_bind (if h - 2 < int (length p) then go_slice p 0 (h - 2) else Inr p) (\<lambda>vis. Inr (hdr # vis)) = Inr ls"
        for hdr and p :: "runes list" using assms(2) by (simp add: go_slice_def)
      show ?thesis
        unfolding renderDetailPanel_def Some option.case Let_def if_not_P [OF False] tn node info ar sl er go_bind_simps
        by (rule cut)
    qed
  qed (use Some in \<open>auto simp: renderDetailPanel_def Let_def\<close>)
qed (simp add: renderDetailPanel_def Let_def)

lemma pg_View_ok:
  assumes "pg_ok v"
  shows "\<exists>d v'. pg_View clock v = Inr (d, v') \<and> pg_ok v'"
proof -
  have "\<exists>d v1. pg_render clock v = Inr (d, v1) \<and> pg_ok v1"
  proof (cases "pg_w v = 0 \<or> pg_h v = 0 \<or> pg_h v - 2 < 4")
    case False
    define tw where "tw = (if pg_w v - 40 - 34 - 2 < 24 then 24 else pg_w v - 40 - 34 - 2)"
    have h: "4 \<le> pg_h v - 2" and tw: "0 \<le> tw" using False by (auto simp: tw_def)
    obtain l where l: "renderContainerPanel 40 (pg_h v - 2) v = Inr l" using renderContainerPanel_ok [of 40 "pg_h v - 2" v] h by auto
    have "\<exists>m v1. renderTreePanel tw (pg_h v - 2) v = Inr (m, v1) \<and> pg_ok v1"
    proof (cases "pg_treeLines v = []")
      case True
      then show ?thesis using assms by (simp add: renderTreePanel_def)
    next
      case False
      then show ?thesis using renderTreePanel_ok [OF assms tw h False] tree_scroll_window(1) [OF assms, of "pg_h v - 2 - 3"] h by fastforce
    qed
    then obtain m v1 where m: "renderTreePanel tw (pg_h v - 2) v = Inr (m, v1)" "pg_ok v1" by blast
    obtain r where r: "renderDetailPanel clock 34 (pg_h v - 2) v1 = Inr r" using renderDetailPanel_ok [OF m(2)] h by force
    have "pg_render clock v = Inr (Some (Panels l m r), v1)"
      using False l m(1) [unfolded tw_def] r by (simp add: pg_render_def Let_def)
    with m(2) show ?thesis by blast
  qed (use assms in \<open>auto simp: pg_render_def Let_def\<close>)
  then show ?thesis using assms by (auto simp: pg_View_def)
qed

lemma ok_result: "\<exists>v'. f = Inr v' \<and> pg_ok v' \<Longrightarrow> f = Inr v \<Longrightarrow> pg_ok v"
  by auto

lemma pg_step_ok: "pg_step R clock v v' \<Longrightarrow> pg_ok v \<Longrightarrow> pg_ok v'"
proof (induction rule: pg_step.induct)
  case (data b v v')
  then show ?case by (rule ok_result [OF pg_SetData_ok, rotated])
next
  case (size w h v v')
  then show ?case by (rule ok_result [OF pg_SetSize_ok, rotated])
next
  case (message msg v v')
  then show ?case by (rule ok_result [OF pg_Update_ok, rotated])
next
  case (draw v d v')
  then show ?case using pg_View_ok [of v clock] by auto
qed (simp_all add: pg_SetTheme_def)

text \<open>
  C20: In every state the process-graph view can reach, by data, resizing, theme and focus changes, keys
  and drawing in any order, its selections are inside its lists, no operation panics, whatever the
  snapshots contain, and when a tree is drawn the selected line is inside the drawn window.
\<close>

theorem procgraph_view_safe:
  assumes "(pg_step R clock)\<^sup>*\<^sup>* (pg_New th) v"
  shows "pg_ok v \<and> (\<forall>b. \<exists>v'. pg_SetData R b v = Inr v') \<and> (\<forall>w h. \<exists>v'. pg_SetSize R w h v = Inr v') \<and>
     (\<forall>msg. \<exists>v'. pg_Update R msg v = Inr v') \<and> (\<exists>d v'. pg_View clock v = Inr (d, v')) \<and>
     (\<forall>w h. 0 \<le> w \<and> 4 \<le> h \<and> pg_treeLines v \<noteq> [] \<longrightarrow> (\<exists>ls v'. renderTreePanel w h v = Inr (ls, v') \<and>
        pg_treeOffset v' \<le> pg_treeSel v' \<and> pg_treeSel v' < pg_treeOffset v' + (h - 3)))"
proof -
  have ok: "pg_ok v" using assms
    by (induction rule: rtranclp_induct) (auto simp: pg_ok_new intro: pg_step_ok)
  have "\<exists>ls v'. renderTreePanel w h v = Inr (ls, v') \<and> pg_treeOffset v' \<le> pg_treeSel v' \<and> pg_treeSel v' < pg_treeOffset v' + (h - 3)"
    if "0 \<le> w" "4 \<le> h" "pg_treeLines v \<noteq> []" for w h
    using renderTreePanel_ok [OF ok that] tree_scroll_window [OF ok, of "h - 3"] that(2) by fastforce
  then show ?thesis using ok pg_SetData_ok pg_SetSize_ok pg_Update_ok pg_View_ok by (metis (no_types, lifting))
qed

theorem procgraph_view_safe_witness:
  "let R = \<lparr>go_range = (\<lambda>xs. xs), go_sort = (\<lambda>_ xs. xs)\<rparr>; v = (pg_New ''dark'')\<lparr>pg_focused := True\<rparr> in
   (pg_step R (\<lambda>_. []))\<^sup>*\<^sup>* (pg_New ''dark'') v \<and> pg_ok v \<and> (\<exists>v'. pg_SetSize R 120 30 v = Inr v')"
proof -
  let ?R = "\<lparr>go_range = (\<lambda>xs. xs), go_sort = (\<lambda>_ xs. xs)\<rparr>" and ?v = "(pg_New ''dark'')\<lparr>pg_focused := True\<rparr>"
  have reached: "(pg_step ?R (\<lambda>_. []))\<^sup>*\<^sup>* (pg_New ''dark'') ?v"
    by (rule r_into_rtranclp, rule pg_step.focus)
  from procgraph_view_safe [OF reached] reached show ?thesis unfolding Let_def by blast
qed

end
