(* ===== verification/TabViews.thy ===== *)
theory TabViews
  imports TuiChrome DetailView ProcGraphView
begin

text \<open>
  The view interface (internal/tui/views/view.go) and its nine implementations in the tab bar: a tab view
  is one of the nine view states, and each method dispatches on it. What the application relies on is the
  locale \<open>tui_view\<close>; it is interpreted on every kind of view, on the sum of them and on the detail page.
\<close>

section \<open>Environment\<close>

text \<open>
  The library widgets, the palette's lower-casing, the clock format, the printing of floats in metadata, and the orders that
  \<^verbatim>\<open>sort.Slice\<close> and map iteration produce.
\<close>

record ('vp, 'ti) tui_env =
  te_V :: "'vp viewport"
  te_T :: "'ti textinput"
  te_lower :: "string \<Rightarrow> string"
  te_clock :: "time \<Rightarrow> string"
  te_ff :: "rat \<Rightarrow> string"
  te_orders :: graph_orders
  te_cpu :: "CpuSample list \<Rightarrow> CpuSample list"
  te_mem :: "MemSample list \<Rightarrow> MemSample list"
  te_io :: "IoSample list \<Rightarrow> IoSample list"
  te_net :: "NetSummary list \<Rightarrow> NetSummary list"
  te_sys :: "SyscallSummary list \<Rightarrow> SyscallSummary list"

section \<open>The methods of a tab view\<close>

datatype ('vp, 'ti) tab_view =
    TOverview "'vp overview_view"
  | TCpu "(cpu_row, 'ti) table_view"
  | TMem "(mem_row, 'ti) table_view"
  | TIo "(io_row, 'ti) table_view"
  | TNet "(net_row, 'ti) table_view"
  | TSys "(sys_row, 'ti) table_view"
  | TEvents "('vp, 'ti) events_view"
  | TGraphs "'vp graphs_view"
  | TProcGraph procgraph_view

fun evv_step :: "'vp viewport \<Rightarrow> 'ti textinput \<Rightarrow> (time \<Rightarrow> string) \<Rightarrow> (rat \<Rightarrow> string) \<Rightarrow> view_op \<Rightarrow> ('vp, 'ti) events_view \<Rightarrow> ('vp, 'ti) events_view go" where
  "evv_step V T clock ff (VData b) v = evv_SetData b v"
| "evv_step V T clock ff (VSize w h) v = Inr (evv_SetSize V w h v)"
| "evv_step V T clock ff (VTheme th) v = Inr (evv_SetTheme th v)"
| "evv_step V T clock ff VFocus v = Inr (evv_Focus True v)"
| "evv_step V T clock ff VBlur v = Inr (evv_Focus False v)"
| "evv_step V T clock ff (VMsg m) v = Inr (evv_Update V T m v)"
| "evv_step V T clock ff VDraw v = Inr (snd (evv_View V T clock ff v))"

fun pg_op :: "graph_orders \<Rightarrow> (time \<Rightarrow> string) \<Rightarrow> view_op \<Rightarrow> procgraph_view \<Rightarrow> procgraph_view go" where
  "pg_op R clock (VData b) v = pg_SetData R b v"
| "pg_op R clock (VSize w h) v = pg_SetSize R w h v"
| "pg_op R clock (VTheme th) v = Inr (pg_SetTheme th v)"
| "pg_op R clock VFocus v = Inr (v\<lparr>pg_focused := True\<rparr>)"
| "pg_op R clock VBlur v = Inr (v\<lparr>pg_focused := False\<rparr>)"
| "pg_op R clock (VMsg m) v = pg_Update R m v"
| "pg_op R clock VDraw v = go_bind (pg_View clock v) (\<lambda>(_, v'). Inr v')"

definition go_map :: "('a \<Rightarrow> 'b) \<Rightarrow> 'a go \<Rightarrow> 'b go" where
  "go_map f m = go_bind m (\<lambda>x. Inr (f x))"

lemma go_map_simps [simp]: "go_map f (Inr x) = Inr (f x)" "go_map f (Inl e) = Inl e" "go_map f m = Inr y \<longleftrightarrow> (\<exists>x. m = Inr x \<and> f x = y)"
  by (simp_all add: go_map_def)

fun tab_step :: "('vp, 'ti) tui_env \<Rightarrow> view_op \<Rightarrow> ('vp, 'ti) tab_view \<Rightarrow> ('vp, 'ti) tab_view go" where
  "tab_step E a (TOverview v) = go_map TOverview (ov_step (te_V E) (te_clock E) a v)"
| "tab_step E a (TCpu v) = go_map TCpu (view_step (te_T E) (cpu_view (te_cpu E)) a v)"
| "tab_step E a (TMem v) = go_map TMem (view_step (te_T E) (mem_view (te_mem E)) a v)"
| "tab_step E a (TIo v) = go_map TIo (view_step (te_T E) (io_view (te_io E)) a v)"
| "tab_step E a (TNet v) = go_map TNet (view_step (te_T E) (net_view (te_net E)) a v)"
| "tab_step E a (TSys v) = go_map TSys (view_step (te_T E) (sys_view (te_sys E)) a v)"
| "tab_step E a (TEvents v) = go_map TEvents (evv_step (te_V E) (te_T E) (te_clock E) (te_ff E) a v)"
| "tab_step E a (TGraphs v) = go_map TGraphs (gv_step (te_V E) a v)"
| "tab_step E a (TProcGraph v) = go_map TProcGraph (pg_op (te_orders E) (te_clock E) a v)"

fun tab_SelectedContainer :: "('vp, 'ti) tui_env \<Rightarrow> ('vp, 'ti) tab_view \<Rightarrow> string go" where
  "tab_SelectedContainer E (TCpu v) = tv_SelectedContainer (cpu_view (te_cpu E)) v"
| "tab_SelectedContainer E (TMem v) = tv_SelectedContainer (mem_view (te_mem E)) v"
| "tab_SelectedContainer E (TIo v) = tv_SelectedContainer (io_view (te_io E)) v"
| "tab_SelectedContainer E (TNet v) = tv_SelectedContainer (net_view (te_net E)) v"
| "tab_SelectedContainer E (TSys v) = tv_SelectedContainer (sys_view (te_sys E)) v"
| "tab_SelectedContainer E _ = Inr []"

text \<open>Status lines; the segments are joined by a middle dot.\<close>

definition dotted :: "runes list \<Rightarrow> runes" where
  "dotted ss = (case ss of [] \<Rightarrow> [] | s # rest \<Rightarrow> s @ concat (map (\<lambda>t. [32, 32, 183, 32, 32] @ t) rest))"

definition table_hints :: "string \<Rightarrow> runes list" where
  "table_hints title = map runes_of [title, ''s/S sort'', ''/ filter'', ''enter detail'']"

definition scroll_hint :: runes where "scroll_hint = [8593, 8595] @ runes_of '' scroll''"

fun tab_StatusLine :: "('vp, 'ti) tab_view \<Rightarrow> runes" where
  "tab_StatusLine (TOverview v) = dotted [runes_of (''Overview  ['' @ show_nat (length (ov_batches v)) @ '' batches]''), runes_of ''G follow'', scroll_hint]"
| "tab_StatusLine (TCpu v) = dotted (table_hints ''M1 CPU'' @ [runes_of ''NUMA=cpu.stat migrations proxy''])"
| "tab_StatusLine (TMem v) = dotted (table_hints ''M2 Memory'' @ [runes_of ''PSI=pressure'', runes_of ''TLBMiss/s'' @ [8776] @ runes_of ''minFaults/s''])"
| "tab_StatusLine (TIo v) = dotted (table_hints ''M3 I/O'')"
| "tab_StatusLine (TNet v) = dotted (table_hints ''M4 Network'')"
| "tab_StatusLine (TSys v) = dotted (table_hints ''M6 Syscalls'')"
| "tab_StatusLine (TEvents v) = dotted [runes_of (''Events ['' @ show_nat (length (evv_events v)) @ '']  '' @ (if evv_follow v then ''LIVE'' else ''PAUSED'')),
     runes_of ''G live'', runes_of ''/ filter'', scroll_hint]"
| "tab_StatusLine (TGraphs v) = dotted [runes_of (''Graphs ['' @ show_nat (length (gv_graphs v)) @ '' containers]''), scroll_hint, runes_of ''g top'', runes_of ''G bottom'']"
| "tab_StatusLine (TProcGraph v) = dotted [runes_of (''ProcGraph ['' @ show_nat (case pg_snap v of None \<Rightarrow> 0 | Some s \<Rightarrow> length (s_Nodes s)) @ '' nodes]''),
     [8592] @ runes_of ''/'' @ [8594] @ runes_of '' panels'', [8593, 8595] @ runes_of ''/j/k navigate'', runes_of ''g/G top/bottom'', runes_of ''q quit'']"

definition dv_StatusLine :: "('vp, 'ti) detail_view \<Rightarrow> runes" where
  "dv_StatusLine v = dotted [runes_of ''Detail: '' @ trunc (dv_container v) 30 @ runes_of (if dv_paused v then ''  PAUSED'' else []),
     runes_of ''Esc back'', runes_of ''p pause'', runes_of ''/ filter'', scroll_hint]"

fun tab_focused :: "('vp, 'ti) tab_view \<Rightarrow> bool" where
  "tab_focused (TOverview v) = ov_focused v"
| "tab_focused (TCpu v) = tv_focused v"
| "tab_focused (TMem v) = tv_focused v"
| "tab_focused (TIo v) = tv_focused v"
| "tab_focused (TNet v) = tv_focused v"
| "tab_focused (TSys v) = tv_focused v"
| "tab_focused (TEvents v) = evv_focused v"
| "tab_focused (TGraphs v) = gv_focused v"
| "tab_focused (TProcGraph v) = pg_focused v"

text \<open>
  \<^verbatim>\<open>SetData\<close> of the table views sorts the slice of the batch in place, and the slices are shared
  between the copies of the batch: the next views see the sorted slices.
\<close>

fun sorted_by :: "('vp, 'ti) tui_env \<Rightarrow> ('vp, 'ti) tab_view \<Rightarrow> DataBatch \<Rightarrow> DataBatch" where
  "sorted_by E (TCpu _) b = b\<lparr>db_CPU := te_cpu E (db_CPU b)\<rparr>"
| "sorted_by E (TMem _) b = b\<lparr>db_Mem := te_mem E (db_Mem b)\<rparr>"
| "sorted_by E (TIo _) b = b\<lparr>db_IO := te_io E (db_IO b)\<rparr>"
| "sorted_by E (TNet _) b = b\<lparr>db_Net := te_net E (db_Net b)\<rparr>"
| "sorted_by E (TSys _) b = b\<lparr>db_Sys := te_sys E (db_Sys b)\<rparr>"
| "sorted_by E _ b = b"

section \<open>The contract of a view\<close>

text \<open>
  \<open>calm\<close> are the operations that cannot panic. Focusing and blurring set a flag that no other operation
  changes.
\<close>

locale tui_view =
  fixes step :: "view_op \<Rightarrow> 'v \<Rightarrow> 'v go" and ok :: "'v \<Rightarrow> bool" and focused :: "'v \<Rightarrow> bool" and calm :: "view_op \<Rightarrow> bool"
  assumes keep: "ok v \<Longrightarrow> step a v = Inr v' \<Longrightarrow> ok v'"
    and total: "ok v \<Longrightarrow> calm a \<Longrightarrow> \<exists>v'. step a v = Inr v'"
    and focus: "step a v = Inr v' \<Longrightarrow> focused v' = (case a of VFocus \<Rightarrow> True | VBlur \<Rightarrow> False | _ \<Rightarrow> focused v)"
begin

lemma calm_step:
  assumes "ok v" and "calm a"
  shows "\<exists>v'. step a v = Inr v' \<and> ok v' \<and> focused v' = (case a of VFocus \<Rightarrow> True | VBlur \<Rightarrow> False | _ \<Rightarrow> focused v)"
  using total [OF assms] keep [OF assms(1)] focus by blast

lemma run_keep: "ok v \<Longrightarrow> go_fold step ops v = Inr v' \<Longrightarrow> ok v'"
  by (induction ops arbitrary: v) (auto dest: keep)

end

definition calm_op :: "view_op \<Rightarrow> bool" where
  "calm_op a \<longleftrightarrow> (case a of VData b \<Rightarrow> named_batch b | VMsg (KeyMsg k) \<Rightarrow> k \<noteq> ''S'' | VDraw \<Rightarrow> False | _ \<Rightarrow> True)"

lemma view_step_focus:
  "view_step T D a v = Inr v' \<Longrightarrow> tv_focused v' = (case a of VFocus \<Rightarrow> True | VBlur \<Rightarrow> False | _ \<Rightarrow> tv_focused v)"
  by (cases a) (auto simp: tv_SetData_def tv_SetSize_def tv_SetTheme_def tv_Focus_def tv_Blur_def tv_View_def tv_Update_def Let_def
      split: if_splits tea_msg.splits)

lemma calm_opD: "calm_op a \<Longrightarrow> a \<noteq> VMsg (KeyMsg ''S'')" "calm_op a \<Longrightarrow> a \<noteq> VDraw"
  by (auto simp: calm_op_def)

text \<open>The five table views.\<close>

context table_view_kind
begin

lemma as_tui_view:
  assumes "textinput_laws T"
  shows "tui_view (view_step T D) (tv_ok T D) tv_focused calm_op"
  by unfold_locales (use assms in \<open>blast intro: step_ok step_no_panic dest: calm_opD view_step_focus\<close>)+

end

lemma ov_key_focused [simp]: "ov_focused (ov_key V k v) = ov_focused v"
  by (simp add: ov_key_def)

lemma ov_lines_focus:
  "cpu_lines cs v = Inr (ls, v') \<Longrightarrow> ov_focused v' = ov_focused v" "mem_lines ms v = Inr (ls, v') \<Longrightarrow> ov_focused v' = ov_focused v"
proof -
  have e: "ensureHist c u = Inr (h, u') \<Longrightarrow> ov_focused u' = ov_focused u" for c h and u u' :: "'b overview_view"
    by (auto simp: ensureHist_def Let_def split: option.splits)
  show "cpu_lines cs v = Inr (ls, v') \<Longrightarrow> ov_focused v' = ov_focused v" by (induction cs arbitrary: v ls) (auto dest: e)
  show "mem_lines ms v = Inr (ls, v') \<Longrightarrow> ov_focused v' = ov_focused v" by (induction ms arbitrary: v ls) (auto dest: e)
qed

lemma go_fold_field: "(\<And>x s s'. f x s = Inr s' \<Longrightarrow> g s' = g s) \<Longrightarrow> go_fold f xs s = Inr s' \<Longrightarrow> g s' = g s"
  by (induction xs arbitrary: s) auto

lemma ov_push_focus: "ov_push_cpu c v = Inr v' \<Longrightarrow> ov_focused v' = ov_focused v" "ov_push_mem m v = Inr v' \<Longrightarrow> ov_focused v' = ov_focused v"
  by (auto simp: ov_push_cpu_def ov_push_mem_def ensureHist_def Let_def split: option.splits)

lemma renderBatch_focus: "renderBatch clock b v = Inr (ls, v') \<Longrightarrow> ov_focused v' = ov_focused v"
  by (auto simp: renderBatch_def dest!: ov_lines_focus)

lemma ov_folds_focus:
  "go_fold ov_push_cpu cs v = Inr v' \<Longrightarrow> ov_focused v' = ov_focused v" "go_fold ov_push_mem ms v = Inr v' \<Longrightarrow> ov_focused v' = ov_focused v"
  by (erule go_fold_field [rotated], erule ov_push_focus)+

lemma ov_step_focus:
  assumes "ov_step V clock a v = Inr v'"
  shows "ov_focused v' = (case a of VFocus \<Rightarrow> True | VBlur \<Rightarrow> False | _ \<Rightarrow> ov_focused v)"
proof (cases a)
  case (VData b)
  with assms show ?thesis
    by (auto simp: ov_SetData_def Let_def dest!: ov_folds_focus split: if_splits)
next
  case VDraw
  with assms show ?thesis by (auto simp: ov_View_def Let_def dest!: renderBatch_focus split: if_splits)
next
  case (VMsg m)
  with assms show ?thesis by (cases m) (auto simp: ov_Update_def Let_def)
qed (use assms in \<open>auto simp: ov_SetSize_def ov_SetTheme_def ov_Focus_def\<close>)

interpretation overview: tui_view "ov_step V clock" ov_ok ov_focused calm_op for V clock
proof unfold_locales
  fix v :: "'a overview_view" and a
  assume "ov_ok v" "calm_op a"
  then show "\<exists>v'. ov_step V clock a v = Inr v'" using ov_SetData_ok [of v] by (cases a) (auto simp: calm_op_def)
qed (use ov_step_keeps ov_step_focus in blast)+

definition gv_ok :: "'vp graphs_view \<Rightarrow> bool" where
  "gv_ok v \<longleftrightarrow> (\<exists>hs. gv_refines v hs)"

lemma gv_push_focus: "gv_push ob v = Inr v' \<Longrightarrow> gv_focused v' = gv_focused v"
  by (cases ob) (auto simp: getOrCreate_def evict_oldest_def Let_def split: option.splits if_splits)

lemma gv_fold_focus: "go_fold gv_push obs v = Inr v' \<Longrightarrow> gv_focused v' = gv_focused v"
  by (erule go_fold_field [rotated]) (erule gv_push_focus)

lemma gv_step_focus:
  "gv_step V a v = Inr v' \<Longrightarrow> gv_focused v' = (case a of VFocus \<Rightarrow> True | VBlur \<Rightarrow> False | _ \<Rightarrow> gv_focused v)"
proof (cases a)
  case (VMsg m)
  assume "gv_step V a v = Inr v'"
  with VMsg show ?thesis by (cases m) (auto simp: gv_Update_def Let_def)
qed (auto simp: gv_SetData_observations gv_SetSize_def gv_SetTheme_def gv_Focus_def gv_View_def Let_def
    dest!: gv_fold_focus split: if_splits)

lemma gv_step_keeps:
  assumes "gv_ok v" and "gv_step V a v = Inr v'"
  shows "gv_ok v'"
proof -
  obtain hs where hs: "gv_refines v hs" using assms(1) by (auto simp: gv_ok_def)
  show ?thesis
  proof (cases a)
    case (VData b)
    with gv_fold_observe [OF hs, of "observations b"] assms(2) show ?thesis by (auto simp: gv_SetData_observations gv_ok_def)
  next
    case (VSize w h)
    with gv_refines_widths [of "v\<lparr>gv_w := w, gv_h := h, gv_vp := vp_SetSize V w (h - 2) (gv_vp v)\<rparr>" hs "spark_width w"] hs assms(2)
    show ?thesis by (auto simp: gv_SetSize_def gv_ok_def)
  next
    case (VMsg m)
    with hs assms(2) show ?thesis by (cases m) (auto simp: gv_Update_def Let_def gv_ok_def)
  qed (use hs assms(2) in \<open>auto simp: gv_SetTheme_def gv_Focus_def gv_View_def Let_def gv_ok_def split: if_splits\<close>)
qed

interpretation graphs: tui_view "gv_step V" gv_ok gv_focused calm_op for V
proof unfold_locales
  fix v :: "'a graphs_view" and a
  assume "gv_ok v" "calm_op a"
  then obtain hs where "gv_refines v hs" by (auto simp: gv_ok_def)
  then show "\<exists>v'. gv_step V a v = Inr v'" using gv_fold_observe \<open>calm_op a\<close> by (cases a) (fastforce simp: calm_op_def gv_SetData_observations)+
qed (use gv_step_keeps gv_step_focus in blast)+

definition evv_ok :: "('vp, 'ti) events_view \<Rightarrow> bool" where
  "evv_ok v \<longleftrightarrow> length (evv_events v) \<le> 2000"

lemma evv_SetData_total: "\<exists>v'. evv_SetData b v = Inr v' \<and> evv_ok v' \<and> evv_focused v' = evv_focused v"
proof -
  let ?evs = "foldl add_event (evv_events v) (db_Events b)"
  have sl: "(if 2000 < int (length ?evs) then go_slice ?evs (int (length ?evs) - 2000) (int (length ?evs)) else Inr ?evs) = Inr (take_last 2000 ?evs)"
    using slice_suffix [of 2000 ?evs] unfolding of_nat_numeral .
  show ?thesis unfolding evv_SetData_def Let_def sl by (simp add: evv_ok_def)
qed

lemma evv_scroll_fields [simp]: "evv_events (evv_scroll V k v) = evv_events v" "evv_focused (evv_scroll V k v) = evv_focused v"
  by (simp_all add: evv_scroll_def)

lemma evv_Update_fields [simp]: "evv_events (evv_Update V T m v) = evv_events v" "evv_focused (evv_Update V T m v) = evv_focused v"
  by (cases m; simp add: evv_Update_def Let_def)+

lemma evv_View_fields [simp]: "evv_events (snd (evv_View V T clock ff v)) = evv_events v" "evv_focused (snd (evv_View V T clock ff v)) = evv_focused v"
  by (simp_all add: evv_View_def Let_def)

lemma evv_SetDataD: "evv_SetData b v = Inr v' \<Longrightarrow> evv_ok v' \<and> evv_focused v' = evv_focused v"
  using evv_SetData_total [of b v] by auto

lemma evv_step_ok:
  assumes "evv_step V T clock ff a v = Inr v'"
  shows "evv_focused v' = (case a of VFocus \<Rightarrow> True | VBlur \<Rightarrow> False | _ \<Rightarrow> evv_focused v)" "evv_ok v \<Longrightarrow> evv_ok v'"
proof -
  have "evv_focused v' = (case a of VFocus \<Rightarrow> True | VBlur \<Rightarrow> False | _ \<Rightarrow> evv_focused v) \<and> (evv_ok v \<longrightarrow> evv_ok v')"
  proof (cases a)
    case (VData b)
    with assms evv_SetDataD [of b v v'] show ?thesis by simp
  qed (use assms in \<open>auto simp: evv_SetSize_def evv_SetTheme_def evv_Focus_def Let_def evv_ok_def\<close>)
  then show "evv_focused v' = (case a of VFocus \<Rightarrow> True | VBlur \<Rightarrow> False | _ \<Rightarrow> evv_focused v)" "evv_ok v \<Longrightarrow> evv_ok v'" by blast+
qed

interpretation events: tui_view "evv_step V T clock ff" evv_ok evv_focused calm_op for V T clock ff
proof unfold_locales
  fix v :: "('a, 'b) events_view" and a
  show "\<exists>v'. evv_step V T clock ff a v = Inr v'" using evv_SetData_total by (cases a) auto
qed (use evv_step_ok in blast)+

lemma pg_rebuild_focus:
  assumes "rebuildTree R v = Inr v'"
  shows "pg_focused v' = pg_focused v"
proof (cases "pg_snap v = None \<or> pg_cgroupKeys v = []")
  case True
  then show ?thesis using assms by (auto simp: rebuildTree_def Let_def split: option.splits)
next
  case False
  then obtain s where s: "pg_snap v = Some s" by auto
  from assms False obtain k where k: "go_index (pg_cgroupKeys v) (pg_cgroupSel v) = Inr k" by (auto simp: rebuildTree_def Let_def s)
  define ns where "ns = selected_nodes k (pg_filter v) (go_range R (s_Nodes s))"
  define ls where "ls = build_tree (go_sort R (pid_less (sel_map ns))) ns"
  have "rebuildTree R v = Inr (if ns = [] then v\<lparr>pg_treeLines := []\<rparr>
      else if int (length ls) \<le> pg_treeSel v then v\<lparr>pg_treeLines := ls, pg_treeSel := 0\<rparr> else v\<lparr>pg_treeLines := ls\<rparr>)"
    using False k by (simp add: rebuildTree_def s ns_def [symmetric] ls_def [symmetric] Let_def)
  then show ?thesis using assms by auto
qed

lemma pg_fields_focus [simp]: "pg_focused (invalidate v) = pg_focused v" "pg_focused (rebuildCgroupList v) = pg_focused v" "pg_focused (navBottom v) = pg_focused v"
  by (auto simp: invalidate_def rebuildCgroupList_def navBottom_def Let_def split: option.splits)

lemma pg_nav_focus: "navUp R v = Inr v' \<Longrightarrow> pg_focused v' = pg_focused v" "navDown R v = Inr v' \<Longrightarrow> pg_focused v' = pg_focused v"
  "navTop R v = Inr v' \<Longrightarrow> pg_focused v' = pg_focused v"
  by (auto simp: navUp_def navDown_def navTop_def dest!: pg_rebuild_focus split: if_splits)

lemma pg_render_focus: "pg_render clock v = Inr (d, v') \<Longrightarrow> pg_focused v' = pg_focused v"
  by (auto simp: pg_render_def renderTreePanel_def tree_scroll_def Let_def split: if_splits)

lemma pg_op_focus:
  assumes "pg_op R clock a v = Inr v'"
  shows "pg_focused v' = (case a of VFocus \<Rightarrow> True | VBlur \<Rightarrow> False | _ \<Rightarrow> pg_focused v)"
proof (cases a)
  case (VMsg m)
  show ?thesis
  proof (cases m)
    case (KeyMsg k)
    have "pg_Update R m v \<in> {Inr v, navUp R v, navDown R v, navTop R v, Inr (navBottom v), Inr (invalidate (v\<lparr>pg_activePanel := pg_activePanel v - 1\<rparr>)),
        Inr (invalidate (v\<lparr>pg_activePanel := pg_activePanel v + 1\<rparr>))}" by (simp add: KeyMsg pg_Update_def)
    with assms VMsg show ?thesis by (auto dest!: pg_nav_focus dest: sym)
  qed (use assms VMsg in \<open>simp_all add: pg_Update_def\<close>)
next
  case VDraw
  with assms show ?thesis by (auto simp: pg_View_def dest: pg_render_focus split: if_splits)
qed (use assms in \<open>auto simp: pg_SetData_def pg_SetSize_def pg_SetTheme_def dest!: pg_rebuild_focus split: option.splits\<close>)

lemma pg_op_ok: "pg_ok v \<Longrightarrow> \<exists>v'. pg_op R clock a v = Inr v' \<and> pg_ok v'"
  using pg_SetData_ok [of v R] pg_SetSize_ok [of v R] pg_Update_ok [of v R] pg_View_ok [of v clock]
  by (cases a) (fastforce simp: pg_SetTheme_def)+

interpretation procgraph: tui_view "pg_op R clock" pg_ok pg_focused calm_op for R clock
proof unfold_locales
  fix v v' a
  show "pg_ok v \<Longrightarrow> pg_op R clock a v = Inr v' \<Longrightarrow> pg_ok v'" using pg_op_ok [of v R clock a] by auto
qed (use pg_op_ok pg_op_focus in blast)+

section \<open>The sum of the views\<close>

fun tab_ok :: "('vp, 'ti) tui_env \<Rightarrow> ('vp, 'ti) tab_view \<Rightarrow> bool" where
  "tab_ok E (TOverview v) = ov_ok v"
| "tab_ok E (TCpu v) = (textinput_laws (te_T E) \<and> tv_ok (te_T E) (cpu_view (te_cpu E)) v)"
| "tab_ok E (TMem v) = (textinput_laws (te_T E) \<and> tv_ok (te_T E) (mem_view (te_mem E)) v)"
| "tab_ok E (TIo v) = (textinput_laws (te_T E) \<and> tv_ok (te_T E) (io_view (te_io E)) v)"
| "tab_ok E (TNet v) = (textinput_laws (te_T E) \<and> tv_ok (te_T E) (net_view (te_net E)) v)"
| "tab_ok E (TSys v) = (textinput_laws (te_T E) \<and> tv_ok (te_T E) (sys_view (te_sys E)) v)"
| "tab_ok E (TEvents v) = evv_ok v"
| "tab_ok E (TGraphs v) = gv_ok v"
| "tab_ok E (TProcGraph v) = pg_ok v"

lemmas table_keep =
  tui_view.keep [OF cpu.as_tui_view] tui_view.keep [OF mem.as_tui_view] tui_view.keep [OF io.as_tui_view]
  tui_view.keep [OF net.as_tui_view] tui_view.keep [OF sys.as_tui_view]

lemmas table_total =
  tui_view.total [OF cpu.as_tui_view] tui_view.total [OF mem.as_tui_view] tui_view.total [OF io.as_tui_view]
  tui_view.total [OF net.as_tui_view] tui_view.total [OF sys.as_tui_view]

lemmas other_keep = overview.keep graphs.keep events.keep procgraph.keep

lemmas other_total = overview.total graphs.total events.total procgraph.total

interpretation tab: tui_view "tab_step E" "tab_ok E" tab_focused calm_op for E
proof unfold_locales
  fix v v' a
  show "tab_ok E v \<Longrightarrow> tab_step E a v = Inr v' \<Longrightarrow> tab_ok E v'"
    by (cases v) (auto dest: other_keep [rotated] table_keep [rotated 2])
  show "tab_ok E v \<Longrightarrow> calm_op a \<Longrightarrow> \<exists>v'. tab_step E a v = Inr v'"
    by (cases v) (auto intro!: other_total table_total)
  show "tab_step E a v = Inr v' \<Longrightarrow> tab_focused v' = (case a of VFocus \<Rightarrow> True | VBlur \<Rightarrow> False | _ \<Rightarrow> tab_focused v)"
    by (cases v) (auto dest!: overview.focus graphs.focus events.focus procgraph.focus view_step_focus cong: view_op.case_cong)
qed

lemma tab_SelectedContainer_ok: "tab_ok E v \<Longrightarrow> \<exists>c. tab_SelectedContainer E v = Inr c"
  using cpu.view_contents(2) mem.view_contents(2) io.view_contents(2) net.view_contents(2) sys.view_contents(2) by (cases v) (simp; blast)+

end
