(* ===== verification/App.thy ===== *)
theory App
  imports TabViews
begin

text \<open>
  The root model of the terminal UI (internal/tui/app/app.go, state.go): the application state machine,
  the message loop, the key chain from overlays over global bindings to the active view, and the two
  self-renewing commands for drawing and collecting.
\<close>

section \<open>State\<close>

datatype AppState = StateLoading | StateDashboard | StateDetail | StateSearch | StateCommandPalette | StateHelp

fun AppState_String :: "AppState \<Rightarrow> string" where
  "AppState_String StateLoading = ''Loading''"
| "AppState_String StateDashboard = ''Dashboard''"
| "AppState_String StateDetail = ''Detail''"
| "AppState_String StateSearch = ''Search''"
| "AppState_String StateCommandPalette = ''CommandPalette''"
| "AppState_String StateHelp = ''Help''"

record ('vp, 'ti) App =
  a_state :: AppState
  a_prevState :: AppState
  a_layout :: Layout
  a_theme :: Theme
  a_themeIdx :: int
  a_tabs :: Tabbar
  a_statusBar :: Statusbar
  a_modal :: Modal
  a_palette :: "'ti Palette"
  a_tabViews :: "('vp, 'ti) tab_view list"
  a_detailPg :: "('vp, 'ti) detail_view"
  a_cfg :: Config
  a_demo :: bool
  a_termW :: int
  a_termH :: int
  a_batchCount :: int
  a_eventCount :: int

definition app_tabs :: "Tab list" where
  "app_tabs = map (\<lambda>(t, k). \<lparr>tab_Title = t, tab_Key = k\<rparr>)
     [(''Overview'', ''1''), (''CPU'', ''2''), (''Memory'', ''3''), (''I/O'', ''4''), (''Network'', ''5''), (''Syscall'', ''6''), (''Events'', ''7''), (''Graphs'', ''8''), (''ProcGraph'', ''9'')]"

definition buildCommands :: "Command list" where
  "buildCommands = \<lparr>cm_Name = ''quit'', cm_Args = [], cm_Description = ''Exit the application'', cm_Action = None\<rparr> #
     map (\<lambda>name. \<lparr>cm_Name = ''theme '' @ name, cm_Args = [], cm_Description = ''Switch to '' @ name @ '' theme'',
        cm_Action = Some (\<lambda>_. SendMsg (ThemeChangedMsg name))\<rparr>) Names"

definition new_tabViews :: "('vp, 'ti) tui_env \<Rightarrow> string \<Rightarrow> ('vp, 'ti) tab_view list" where
  "new_tabViews E th = [TOverview (ov_New (te_V E) th), TCpu (tv_New (te_T E) (cpu_view (te_cpu E)) th), TMem (tv_New (te_T E) (mem_view (te_mem E)) th),
     TIo (tv_New (te_T E) (io_view (te_io E)) th), TNet (tv_New (te_T E) (net_view (te_net E)) th), TSys (tv_New (te_T E) (sys_view (te_sys E)) th),
     TEvents (evv_New (te_V E) (te_T E) th), TGraphs (gv_New (te_V E) th), TProcGraph (pg_New th)]"

fun index_of :: "string \<Rightarrow> string list \<Rightarrow> int option" where
  "index_of n [] = None"
| "index_of n (m # ms) = (if m = n then Some 0 else map_option ((+) 1) (index_of n ms))"

definition New_app :: "('vp, 'ti) tui_env \<Rightarrow> Config \<Rightarrow> bool \<Rightarrow> ('vp, 'ti) App go" where
  "New_app E cfg demo =
     (let th = Get (cf_Theme cfg); n = th_Name th; vs = new_tabViews E n in
      go_bind (go_index vs 0) (\<lambda>v0.
      go_bind (tab_step E VFocus v0) (\<lambda>v0'.
        Inr \<lparr>a_state = StateLoading, a_prevState = StateLoading, a_layout = New_layout 80 24, a_theme = th,
             a_themeIdx = (case index_of (cf_Theme cfg) Names of None \<Rightarrow> 0 | Some i \<Rightarrow> i),
             a_tabs = New_tabbar app_tabs n, a_statusBar = New_statusbar n, a_modal = New_modal n,
             a_palette = New_palette (te_T E) buildCommands n, a_tabViews = vs[0 := v0'], a_detailPg = dv_New (te_V E) (te_T E) n,
             a_cfg = cfg, a_demo = demo, a_termW = 0, a_termH = 0, a_batchCount = 0, a_eventCount = 0\<rparr>)))"

definition collectFilter :: "('vp, 'ti) App \<Rightarrow> CollectFilter" where
  "collectFilter a = \<lparr>fl_ContainersOnly = cf_ContainersOnly (a_cfg a), fl_TopN = cf_TopN (a_cfg a), fl_ShowFiles = cf_ShowFiles (a_cfg a),
     fl_ShowTCP = cf_ShowTCP (a_cfg a), fl_ShowSlowSys = cf_ShowSlowSys (a_cfg a)\<rparr>"

definition Init :: "('vp, 'ti) App \<Rightarrow> tea_cmd list" where
  "Init a = [RenderTickCmd (RenderInterval (a_cfg a)), CollectCmd 0 (collectFilter a)]"

section \<open>Views\<close>

fun go_mapM :: "('a \<Rightarrow> 'b go) \<Rightarrow> 'a list \<Rightarrow> 'b list go" where
  "go_mapM f [] = Inr []"
| "go_mapM f (x # xs) = go_bind (f x) (\<lambda>y. go_bind (go_mapM f xs) (\<lambda>ys. Inr (y # ys)))"

definition all_tabs :: "('vp, 'ti) tui_env \<Rightarrow> view_op \<Rightarrow> ('vp, 'ti) App \<Rightarrow> ('vp, 'ti) App go" where
  "all_tabs E op a = go_bind (go_mapM (tab_step E op) (a_tabViews a)) (\<lambda>vs. Inr (a\<lparr>a_tabViews := vs\<rparr>))"

definition activeView :: "('vp, 'ti) App \<Rightarrow> ('vp, 'ti) tab_view go" where
  "activeView a = go_index (a_tabViews a) (tb_active (a_tabs a))"

definition on_active :: "('vp, 'ti) tui_env \<Rightarrow> view_op \<Rightarrow> ('vp, 'ti) App \<Rightarrow> ('vp, 'ti) App go" where
  "on_active E op a =
     go_bind (activeView a) (\<lambda>v.
     go_bind (tab_step E op v) (\<lambda>v'.
     go_bind (go_set (a_tabViews a) (tb_active (a_tabs a)) v') (\<lambda>vs. Inr (a\<lparr>a_tabViews := vs\<rparr>))))"

definition blurAll :: "('vp, 'ti) tui_env \<Rightarrow> ('vp, 'ti) App \<Rightarrow> ('vp, 'ti) App go" where
  "blurAll E a = all_tabs E VBlur a"

text \<open>
  Handing a batch to all views: the slices are shared, so the sorting of the table views is seen by the
  views after them and by the copy that the overview keeps.
\<close>

fun feed_tabs :: "('vp, 'ti) tui_env \<Rightarrow> ('vp, 'ti) tab_view list \<Rightarrow> DataBatch \<Rightarrow> (('vp, 'ti) tab_view list \<times> DataBatch) go" where
  "feed_tabs E [] b = Inr ([], b)"
| "feed_tabs E (v # vs) b =
     go_bind (tab_step E (VData b) v) (\<lambda>v'.
     go_bind (feed_tabs E vs (sorted_by E v b)) (\<lambda>(vs', b'). Inr (v' # vs', b')))"

fun share_batch :: "DataBatch \<Rightarrow> ('vp, 'ti) tab_view \<Rightarrow> ('vp, 'ti) tab_view" where
  "share_batch b (TOverview v) = TOverview (v\<lparr>ov_batches := butlast (ov_batches v) @ [b]\<rparr>)"
| "share_batch b v = v"

definition applyTheme :: "('vp, 'ti) tui_env \<Rightarrow> string \<Rightarrow> ('vp, 'ti) App \<Rightarrow> ('vp, 'ti) App go" where
  "applyTheme E name a0 =
     (let th = Get name; n = th_Name th;
          a = a0\<lparr>a_theme := th, a_cfg := (a_cfg a0)\<lparr>cf_Theme := name\<rparr>, a_tabs := (a_tabs a0)\<lparr>tb_theme := n\<rparr>,
                a_statusBar := (a_statusBar a0)\<lparr>st_theme := n\<rparr>, a_modal := (a_modal a0)\<lparr>mo_theme := n\<rparr>, a_palette := (a_palette a0)\<lparr>pa_theme := n\<rparr>\<rparr>
      in go_bind (all_tabs E (VTheme n) a) (\<lambda>a1. Inr (a1\<lparr>a_detailPg := dv_SetTheme n (a_detailPg a1)\<rparr>)))"

section \<open>Update\<close>

definition nav_detail :: "string \<Rightarrow> ('vp, 'ti) App \<Rightarrow> ('vp, 'ti) App go" where
  "nav_detail c a =
     go_bind (SetContainer c (a_detailPg a)) (\<lambda>d.
       Inr (a\<lparr>a_detailPg := d, a_prevState := a_state a, a_state := StateDetail, a_statusBar := SetMode ''DETAIL'' ''blue'' (a_statusBar a)\<rparr>))"

definition nav_back :: "('vp, 'ti) App \<Rightarrow> ('vp, 'ti) App" where
  "nav_back a = a\<lparr>a_state := (if a_prevState a = StateDetail then StateDashboard else a_prevState a),
     a_statusBar := SetMode ''LIVE'' ''green'' (a_statusBar a)\<rparr>"

text \<open>The end of the chain: the detail page when it is open, otherwise the active tab.\<close>

definition to_view :: "('vp, 'ti) tui_env \<Rightarrow> tea_msg \<Rightarrow> ('vp, 'ti) App \<Rightarrow> (('vp, 'ti) App \<times> tea_cmd) go" where
  "to_view E msg a =
     (if a_state a = StateDetail
      then Inr (a\<lparr>a_detailPg := dv_Update (te_V E) (te_T E) msg (a_detailPg a)\<rparr>, WidgetCmd)
      else go_bind (on_active E (VMsg msg) a) (\<lambda>a1. Inr (a1, WidgetCmd)))"

definition to_palette :: "('vp, 'ti) tui_env \<Rightarrow> tea_msg \<Rightarrow> ('vp, 'ti) App \<Rightarrow> (('vp, 'ti) App \<times> tea_cmd) go" where
  "to_palette E msg a = go_bind (pa_Update (te_lower E) (te_T E) msg (a_palette a)) (\<lambda>(p, c). Inr (a\<lparr>a_palette := p\<rparr>, c))"

definition helpContent :: "runes list" where
  "helpContent =
    [runes_of ''  Navigation'',
     runes_of ''  '' @ replicate 10 9472,
     runes_of ''  Tab / ]       next tab'',
     runes_of ''  Shift+Tab / [ prev tab'',
     runes_of ''  1-9           jump to tab'',
     runes_of ''  Enter         open container detail'',
     runes_of ''  Esc           go back'',
     [],
     runes_of ''  Table'',
     runes_of ''  '' @ replicate 5 9472,
     runes_of ''  '' @ [8593] @ runes_of ''/k  '' @ [8595] @ runes_of ''/j     move cursor'',
     runes_of ''  PgUp/PgDn     page up/down'',
     runes_of ''  g / G         top / live mode'',
     runes_of ''  s / S         sort column next/prev'',
     runes_of ''  /             filter mode'',
     runes_of ''  y             yank row'',
     [],
     runes_of ''  Detail page'',
     runes_of ''  '' @ replicate 11 9472,
     runes_of ''  p             pause/resume'',
     runes_of ''  /             filter events'',
     runes_of ''  '' @ [8593, 8595] @ runes_of '' g G       scroll'',
     [],
     runes_of ''  ProcGraph tab (9)'',
     runes_of ''  '' @ replicate 17 9472,
     runes_of ''  '' @ [8592] @ runes_of ''/'' @ [8594] @ runes_of '' or h/l   switch panels'',
     runes_of ''  '' @ [8593, 8595] @ runes_of '' or j/k    navigate list/tree'',
     runes_of ''  g / G         top / bottom'',
     runes_of ''  a             show ancestry'',
     runes_of ''  /             filter by comm'',
     [],
     runes_of ''  Global'',
     runes_of ''  '' @ replicate 6 9472,
     runes_of ''  T             cycle theme'',
     runes_of ''  :             command palette'',
     runes_of ''  ?             this help'',
     runes_of ''  q / Ctrl+C    quit'']"

definition digit_keys :: "string list" where
  "digit_keys = [''1'', ''2'', ''3'', ''4'', ''5'', ''6'', ''7'', ''8'', ''9'']"

definition show_tab :: "('vp, 'ti) tui_env \<Rightarrow> ('vp, 'ti) App \<Rightarrow> ('vp, 'ti) App go" where
  "show_tab E a = go_bind (blurAll E a) (on_active E VFocus)"

definition handleKey :: "('vp, 'ti) tui_env \<Rightarrow> string \<Rightarrow> ('vp, 'ti) App \<Rightarrow> (('vp, 'ti) App \<times> tea_cmd) go" where
  "handleKey E key a =
     (if pa_visible (a_palette a) then to_palette E (KeyMsg key) a
      else if mo_visible (a_modal a) then Inr (a\<lparr>a_modal := Hide_modal (a_modal a), a_state := a_prevState a\<rparr>, NoCmd)
      else if key \<in> {''q'', ''ctrl+c''} then Inr (a, Quit)
      else if key = ''?'' then Inr (a\<lparr>a_prevState := a_state a, a_state := StateHelp, a_modal := ShowHelp helpContent (a_modal a)\<rparr>, NoCmd)
      else if key = '':'' then Inr (a\<lparr>a_state := StateCommandPalette, a_palette := pa_Show (te_lower E) (te_T E) (a_palette a)\<rparr>, NoCmd)
      else if key = ''esc''
      then Inr (if a_state a = StateDetail \<or> a_state a = StateSearch
                then a\<lparr>a_state := StateDashboard, a_statusBar := SetMode ''LIVE'' ''green'' (a_statusBar a)\<rparr> else a, NoCmd)
      else if key = ''T''
      then go_bind (go_rem (a_themeIdx a + 1) (int (length Names))) (\<lambda>i.
           go_bind (go_index Names i) (\<lambda>name.
           go_bind (applyTheme E name (a\<lparr>a_themeIdx := i\<rparr>)) (\<lambda>a1. Inr (a1, NoCmd))))
      else if key \<in> {''tab'', '']''}
      then go_bind (Next_tab (a_tabs a)) (\<lambda>t. go_bind (show_tab E (a\<lparr>a_tabs := t\<rparr>)) (\<lambda>a1. Inr (a1, NoCmd)))
      else if key \<in> {''shift+tab'', ''[''}
      then go_bind (Prev_tab (a_tabs a)) (\<lambda>t. go_bind (show_tab E (a\<lparr>a_tabs := t\<rparr>)) (\<lambda>a1. Inr (a1, NoCmd)))
      else if key \<in> set digit_keys
      then let idx = int (of_char (hd key)) - 49 in
           if idx < int (length (a_tabViews a))
           then go_bind (blurAll E a) (\<lambda>a1. go_bind (on_active E VFocus (a1\<lparr>a_tabs := SetActive idx (a_tabs a1)\<rparr>)) (\<lambda>a2. Inr (a2, NoCmd)))
           else Inr (a, NoCmd)
      else if key = ''enter'' \<and> a_state a = StateDashboard
      then go_bind (activeView a) (\<lambda>v.
           go_bind (tab_SelectedContainer E v) (\<lambda>c.
             if c \<noteq> [] then go_bind (nav_detail c a) (\<lambda>a1. Inr (a1, NoCmd)) else to_view E (KeyMsg key) a))
      else to_view E (KeyMsg key) a)"

definition App_Update :: "('vp, 'ti) tui_env \<Rightarrow> tea_msg \<Rightarrow> ('vp, 'ti) App \<Rightarrow> (('vp, 'ti) App \<times> tea_cmd) go" where
  "App_Update E msg a = (case msg of
      WindowSizeMsg w h \<Rightarrow>
        let l = New_layout w h;
            a1 = a\<lparr>a_termW := w, a_termH := h, a_layout := l, a_tabs := (a_tabs a)\<lparr>tb_width := w\<rparr>, a_statusBar := (a_statusBar a)\<lparr>st_width := w\<rparr>\<rparr>
        in go_bind (all_tabs E (VSize (ContentW l) (BodyH l)) a1) (\<lambda>a2.
           Inr (a2\<lparr>a_detailPg := dv_SetSize (te_V E) (ContentW l) (BodyH l) (a_detailPg a2)\<rparr>, NoCmd))
    | RenderTickMsg \<Rightarrow> Inr (a, RenderTickCmd (RenderInterval (a_cfg a)))
    | DataMsg b \<Rightarrow>
        let a1 = a\<lparr>a_state := (if a_state a = StateLoading then StateDashboard else a_state a), a_batchCount := a_batchCount a + 1,
                   a_eventCount := a_eventCount a + int (length (db_Events b))\<rparr>
        in go_bind (feed_tabs E (a_tabViews a1) b) (\<lambda>(vs, b').
           go_bind (dv_SetData b' (a_detailPg a1)) (\<lambda>d.
             Inr (a1\<lparr>a_tabViews := map (share_batch b') vs, a_detailPg := d, a_statusBar := SetStats (a_batchCount a1) (a_eventCount a1) (a_statusBar a1)\<rparr>,
                  CollectCmd (DataInterval (a_cfg a1)) (collectFilter a1))))
    | NavDetailMsg c \<Rightarrow> go_bind (nav_detail c a) (\<lambda>a1. Inr (a1, NoCmd))
    | NavBackMsg \<Rightarrow> Inr (nav_back a, NoCmd)
    | ThemeChangedMsg n \<Rightarrow> go_bind (applyTheme E n a) (\<lambda>a1. Inr (a1, NoCmd))
    | KeyMsg k \<Rightarrow> handleKey E k a
    | OtherMsg _ \<Rightarrow> if pa_visible (a_palette a) then to_palette E msg a else to_view E msg a)"

section \<open>Drawing\<close>

text \<open>What the styling library contributes: the width of rendered text and the styles of the tab bar.\<close>

record style_env =
  se_Width :: "runes \<Rightarrow> int"
  se_TabActive :: "runes \<Rightarrow> runes"
  se_TabInactive :: "runes \<Rightarrow> runes"
  se_TabBar :: "runes \<Rightarrow> runes"

datatype content =
    CLoading "runes list"
  | CDetail "runes \<times> runes list"
  | CTable drawn
  | CText "nat \<times> runes list"
  | CEvents events_drawn
  | CGraph "pg_drawn option"

datatype screen =
    Initialising
  | Screen "runes \<times> int \<times> runes \<times> runes" runes content runes   \<comment> \<open>header (left, gap, badge, time), tab bar, content, status\<close>
  | ModalScreen "int \<times> runes list"
  | PaletteScreen "int \<times> string \<times> ((string \<times> string \<times> string) \<times> string) list \<times> int"

fun tab_View :: "('vp, 'ti) tui_env \<Rightarrow> ('vp, 'ti) tab_view \<Rightarrow> (content \<times> ('vp, 'ti) tab_view) go" where
  "tab_View E (TOverview v) = go_map (\<lambda>(d, v'). (CText d, TOverview v')) (ov_View (te_V E) (te_clock E) v)"
| "tab_View E (TCpu v) = go_map (\<lambda>(d, v'). (CTable d, TCpu v')) (tv_View (te_T E) (cpu_view (te_cpu E)) v)"
| "tab_View E (TMem v) = go_map (\<lambda>(d, v'). (CTable d, TMem v')) (tv_View (te_T E) (mem_view (te_mem E)) v)"
| "tab_View E (TIo v) = go_map (\<lambda>(d, v'). (CTable d, TIo v')) (tv_View (te_T E) (io_view (te_io E)) v)"
| "tab_View E (TNet v) = go_map (\<lambda>(d, v'). (CTable d, TNet v')) (tv_View (te_T E) (net_view (te_net E)) v)"
| "tab_View E (TSys v) = go_map (\<lambda>(d, v'). (CTable d, TSys v')) (tv_View (te_T E) (sys_view (te_sys E)) v)"
| "tab_View E (TEvents v) = (let (d, v') = evv_View (te_V E) (te_T E) (te_clock E) (te_ff E) v in Inr (CEvents d, TEvents v'))"
| "tab_View E (TGraphs v) = go_map (\<lambda>(d, v'). (CText d, TGraphs v')) (gv_View (te_V E) v)"
| "tab_View E (TProcGraph v) = go_map (\<lambda>(d, v'). (CGraph d, TProcGraph v')) (pg_View (te_clock E) v)"

definition App_renderHeader :: "style_env \<Rightarrow> string \<Rightarrow> ('vp, 'ti) App \<Rightarrow> runes \<times> int \<times> runes \<times> runes" where
  "App_renderHeader S now a =
     (let mode = (if a_demo a then ''DEMO'' else ''LIVE''); badge = runes_of ('' '' @ mode @ '' ''); ts = runes_of (''  '' @ now);
          left = [32, 32, 9673] @ runes_of ('' eBPF Observer  ['' @ th_Name (a_theme a) @ '']'');
          gap = a_termW a - int (length left) - se_Width S badge - se_Width S ts - 4
      in (left, if gap < 0 then 0 else gap, badge, ts))"

definition renderStatusBar :: "('vp, 'ti) App \<Rightarrow> runes go" where
  "renderStatusBar a =
     (if a_state a = StateDetail then View_statusbar (SetKeyHints (dv_StatusLine (a_detailPg a)) (a_statusBar a))
      else go_bind (activeView a) (\<lambda>v.
        View_statusbar (SetKeyHints (dotted [tab_StatusLine v, runes_of ''T theme'', runes_of ''? help'', runes_of ''q quit'']) (a_statusBar a))))"

definition renderLoading :: "('vp, 'ti) App \<Rightarrow> runes list go" where
  "renderLoading a =
     (let half = BodyH (a_layout a) sdiv 2 in
      go_bind (if 0 < half then Repeat_runes [32] (a_termW a) else Inr []) (\<lambda>blank.
        Inr (replicate (nat half) blank @ [runes_of ''  '' @ [9676] @ runes_of ''  Waiting for first eBPF snapshot'' @ [8230] @ runes_of ''  ''])))"

definition render_content :: "('vp, 'ti) tui_env \<Rightarrow> ('vp, 'ti) App \<Rightarrow> (content \<times> ('vp, 'ti) App) go" where
  "render_content E a =
     (if a_state a = StateLoading then go_bind (renderLoading a) (\<lambda>ls. Inr (CLoading ls, a))
      else if a_state a = StateDetail
      then go_bind (dv_View (te_V E) (te_T E) (te_clock E) (te_ff E) (a_detailPg a)) (\<lambda>(d, v'). Inr (CDetail d, a\<lparr>a_detailPg := v'\<rparr>))
      else go_bind (activeView a) (\<lambda>v.
           go_bind (tab_View E v) (\<lambda>(c, v').
           go_bind (go_set (a_tabViews a) (tb_active (a_tabs a)) v') (\<lambda>vs. Inr (c, a\<lparr>a_tabViews := vs\<rparr>)))))"

definition App_View :: "('vp, 'ti) tui_env \<Rightarrow> style_env \<Rightarrow> string \<Rightarrow> ('vp, 'ti) App \<Rightarrow> (screen \<times> ('vp, 'ti) App) go" where
  "App_View E S now a =
     (if a_termW a = 0 then Inr (Initialising, a)
      else let header = App_renderHeader S now a in
        go_bind (View_tabbar (se_TabActive S) (se_TabInactive S) (se_TabBar S) (a_tabs a)) (\<lambda>bar.
        go_bind (renderStatusBar a) (\<lambda>status.
        go_bind (render_content E a) (\<lambda>(c, a1).
          if mo_visible (a_modal a1)
          then Inr (case Render_modal (a_termW a1) (a_modal a1) of None \<Rightarrow> Screen header bar c status | Some m \<Rightarrow> ModalScreen m, a1)
          else if pa_visible (a_palette a1)
          then go_bind (View_palette (te_lower E) (te_T E) (a_termW a1) (a_palette a1)) (\<lambda>p. case p of None \<Rightarrow> Inr (Screen header bar c status, a1) | Some q \<Rightarrow> Inr (PaletteScreen q, a1))
          else Inr (Screen header bar c status, a1)))))"

end
