(* ===== verification/AppRuns.thy ===== *)
theory AppRuns
  imports App
begin

text \<open>
  What holds of every run of the terminal UI: the invariant of the application state, its preservation
  by every message, the absence of panics, the focus discipline of the tabs, the overlay keys, and the
  self-renewing draw and collect commands.
\<close>

section \<open>Lists of views\<close>

lemma go_mapM_Inr: "go_mapM f xs = Inr ys \<longleftrightarrow> list_all2 (\<lambda>x y. f x = Inr y) xs ys"
  by (induction xs arbitrary: ys) (auto simp: list_all2_Cons1)

lemma list_all2_exists: "(\<And>x. x \<in> set xs \<Longrightarrow> \<exists>y. R x y) \<Longrightarrow> \<exists>ys. list_all2 R xs ys"
proof (induction xs)
  case (Cons x xs)
  obtain y where "R x y" using Cons.prems [of x] by auto
  moreover obtain ys where "list_all2 R xs ys" using Cons.IH Cons.prems by auto
  ultimately have "list_all2 R (x # xs) (y # ys)" by simp
  then show ?case ..
qed (simp add: exI [of _ "[]"])

abbreviation steps_to :: "('vp, 'ti) tui_env \<Rightarrow> view_op \<Rightarrow> ('vp, 'ti) tab_view list \<Rightarrow> ('vp, 'ti) tab_view list \<Rightarrow> bool" where
  "steps_to E op \<equiv> list_all2 (\<lambda>v v'. tab_step E op v = Inr v')"

definition new_focus :: "view_op \<Rightarrow> bool \<Rightarrow> bool" where
  "new_focus op f = (case op of VFocus \<Rightarrow> True | VBlur \<Rightarrow> False | _ \<Rightarrow> f)"

lemma steps_keep:
  "list_all2 (\<lambda>v v'. tab_step E op v = Inr v') vs vs' \<Longrightarrow> list_all (tab_ok E) vs \<Longrightarrow>
   list_all (tab_ok E) vs' \<and> map tab_focused vs' = map (new_focus op \<circ> tab_focused) vs \<and> length vs' = length vs"
  by (induction rule: list_all2_induct) (auto simp: new_focus_def dest: tab.keep [rotated] tab.focus)

lemma steps_total:
  assumes "list_all (tab_ok E) vs" and "calm_op op"
  shows "\<exists>vs'. steps_to E op vs vs'"
  by (rule list_all2_exists, rule tab.total) (use assms in \<open>simp_all add: list_all_iff\<close>)

lemma all_tabs_Inr: "all_tabs E op a = Inr a' \<longleftrightarrow> (\<exists>vs. steps_to E op (a_tabViews a) vs \<and> a' = a\<lparr>a_tabViews := vs\<rparr>)"
  by (auto simp: all_tabs_def go_mapM_Inr)

section \<open>The invariant\<close>

definition sort_laws :: "('vp, 'ti) tui_env \<Rightarrow> bool" where
  "sort_laws E \<longleftrightarrow> (\<forall>xs. mset (te_cpu E xs) = mset xs) \<and> (\<forall>xs. mset (te_mem E xs) = mset xs) \<and> (\<forall>xs. mset (te_io E xs) = mset xs) \<and>
     (\<forall>xs. mset (te_net E xs) = mset xs) \<and> (\<forall>xs. mset (te_sys E xs) = mset xs)"

definition env_laws :: "('vp, 'ti) tui_env \<Rightarrow> bool" where
  "env_laws E \<longleftrightarrow> textinput_laws (te_T E) \<and> sort_laws E"

text \<open>Everything but the focus: nine sound views, a tab bar over the nine tabs, a sound detail page, theme index and palette.\<close>

definition core_ok :: "('vp, 'ti) tui_env \<Rightarrow> ('vp, 'ti) App \<Rightarrow> bool" where
  "core_ok E a \<longleftrightarrow> length (a_tabViews a) = 9 \<and> list_all (tab_ok E) (a_tabViews a) \<and> tb_tabs (a_tabs a) = app_tabs \<and> tb_ok (a_tabs a) \<and>
     dv_ok (a_detailPg a) \<and> 0 \<le> a_themeIdx a \<and> a_themeIdx a < 6 \<and> pa_ok (a_palette a) \<and> pa_commands (a_palette a) = buildCommands \<and>
     set (pa_matches (a_palette a)) \<subseteq> set buildCommands"

text \<open>Exactly the active tab has the focus.\<close>

definition focus_ok :: "('vp, 'ti) App \<Rightarrow> bool" where
  "focus_ok a \<longleftrightarrow> map tab_focused (a_tabViews a) = map (\<lambda>i. int i = tb_active (a_tabs a)) [0..<9]"

definition app_ok :: "('vp, 'ti) tui_env \<Rightarrow> ('vp, 'ti) App \<Rightarrow> bool" where
  "app_ok E a \<longleftrightarrow> core_ok E a \<and> focus_ok a"

lemma app_ok_fields [simp]:
  "app_ok E (a\<lparr>a_state := x1\<rparr>) = app_ok E a" "app_ok E (a\<lparr>a_prevState := x1\<rparr>) = app_ok E a" "app_ok E (a\<lparr>a_layout := x2\<rparr>) = app_ok E a"
  "app_ok E (a\<lparr>a_theme := x3\<rparr>) = app_ok E a" "app_ok E (a\<lparr>a_statusBar := x4\<rparr>) = app_ok E a" "app_ok E (a\<lparr>a_modal := x5\<rparr>) = app_ok E a"
  "app_ok E (a\<lparr>a_cfg := x6\<rparr>) = app_ok E a" "app_ok E (a\<lparr>a_termW := x7\<rparr>) = app_ok E a" "app_ok E (a\<lparr>a_termH := x7\<rparr>) = app_ok E a"
  "app_ok E (a\<lparr>a_batchCount := x7\<rparr>) = app_ok E a" "app_ok E (a\<lparr>a_eventCount := x7\<rparr>) = app_ok E a"
  by (simp_all add: app_ok_def core_ok_def focus_ok_def)

lemma core_ok_active:
  assumes "core_ok E a"
  shows "0 \<le> tb_active (a_tabs a)" "tb_active (a_tabs a) < 9" "length (a_tabViews a) = 9" "length (tb_tabs (a_tabs a)) = 9"
  using assms tb_okD [of "a_tabs a"] by (auto simp: core_ok_def app_tabs_def)

lemma app_ok_parts:
  "app_ok E a \<Longrightarrow> dv_ok d \<Longrightarrow> app_ok E (a\<lparr>a_detailPg := d\<rparr>)"
  "app_ok E a \<Longrightarrow> pa_ok p \<Longrightarrow> pa_commands p = buildCommands \<Longrightarrow> set (pa_matches p) \<subseteq> set buildCommands \<Longrightarrow> app_ok E (a\<lparr>a_palette := p\<rparr>)"
  "app_ok E a \<Longrightarrow> 0 \<le> i \<Longrightarrow> i < 6 \<Longrightarrow> app_ok E (a\<lparr>a_themeIdx := i\<rparr>)"
  "app_ok E a \<Longrightarrow> tb_tabs t = tb_tabs (a_tabs a) \<Longrightarrow> tb_active t = tb_active (a_tabs a) \<Longrightarrow> app_ok E (a\<lparr>a_tabs := t\<rparr>)"
  "app_ok E a \<Longrightarrow> length vs = 9 \<Longrightarrow> list_all (tab_ok E) vs \<Longrightarrow> map tab_focused vs = map tab_focused (a_tabViews a) \<Longrightarrow> app_ok E (a\<lparr>a_tabViews := vs\<rparr>)"
  by (auto simp: app_ok_def core_ok_def focus_ok_def tb_ok_def)

lemma app_okD:
  assumes "app_ok E a"
  shows "core_ok E a" "dv_ok (a_detailPg a)" "pa_ok (a_palette a)" "pa_commands (a_palette a) = buildCommands" "set (pa_matches (a_palette a)) \<subseteq> set buildCommands"
    "list_all (tab_ok E) (a_tabViews a)" "length (a_tabViews a) = 9" "tb_ok (a_tabs a)" "0 \<le> a_themeIdx a" "a_themeIdx a < 6"
  using assms by (auto simp: app_ok_def core_ok_def)

section \<open>Steps on all views\<close>

lemma all_tabs_keep:
  assumes "app_ok E a" and "all_tabs E op a = Inr a'" and "op \<notin> {VFocus, VBlur}"
  shows "app_ok E a'"
proof -
  from assms(2) obtain vs where vs: "steps_to E op (a_tabViews a) vs" "a' = a\<lparr>a_tabViews := vs\<rparr>" unfolding all_tabs_Inr by blast
  have "new_focus op = (\<lambda>f. f)" using assms(3) by (auto simp: new_focus_def fun_eq_iff split: view_op.split)
  then show ?thesis unfolding vs(2) using steps_keep [OF vs(1) app_okD(6) [OF assms(1)]] app_okD(7) [OF assms(1)]
    by (intro app_ok_parts(5) [OF assms(1)]) (simp_all add: comp_def)
qed

lemma all_tabs_total: "app_ok E a \<Longrightarrow> calm_op op \<Longrightarrow> \<exists>a'. all_tabs E op a = Inr a'"
  using steps_total app_okD(6) unfolding all_tabs_Inr by blast

lemma on_active_eq:
  assumes "core_ok E a"
  shows "on_active E op a = go_map (\<lambda>v. a\<lparr>a_tabViews := (a_tabViews a)[nat (tb_active (a_tabs a)) := v]\<rparr>) (tab_step E op (a_tabViews a ! nat (tb_active (a_tabs a))))"
  using core_ok_active [OF assms] by (cases "tab_step E op (a_tabViews a ! nat (tb_active (a_tabs a)))") (auto simp: on_active_def activeView_def)

lemma core_ok_view: "core_ok E a \<Longrightarrow> tab_ok E (a_tabViews a ! nat (tb_active (a_tabs a)))"
proof -
  assume "core_ok E a"
  from core_ok_active [OF this] this have "nat (tb_active (a_tabs a)) < length (a_tabViews a)" "list_all (tab_ok E) (a_tabViews a)"
    by (simp_all add: nat_less_iff core_ok_def)
  then show ?thesis unfolding list_all_length by blast
qed

lemma on_active_total: "core_ok E a \<Longrightarrow> calm_op op \<Longrightarrow> \<exists>a'. on_active E op a = Inr a'"
  using tab.total [OF core_ok_view, of E a op] by (auto simp: on_active_eq)

lemma on_active_keep:
  assumes "app_ok E a" and "on_active E op a = Inr a'" and "op \<notin> {VFocus, VBlur}"
  shows "app_ok E a'"
proof -
  note core = app_okD(1) [OF assms(1)]
  let ?i = "nat (tb_active (a_tabs a))"
  from assms(2) obtain v where v: "tab_step E op (a_tabViews a ! ?i) = Inr v" and a': "a' = a\<lparr>a_tabViews := (a_tabViews a)[?i := v]\<rparr>"
    unfolding on_active_eq [OF core] by auto
  have "tab_focused v = tab_focused (a_tabViews a ! ?i)" using tab.focus [OF v] assms(3) by (auto split: view_op.splits)
  moreover have "?i < 9" using core_ok_active [OF core] by auto
  ultimately have "map tab_focused ((a_tabViews a)[?i := v]) = map tab_focused (a_tabViews a)"
    using app_okD(7) [OF assms(1)] by (auto simp: map_update intro: list_update_same_conv [THEN iffD2])
  moreover have "list_all (tab_ok E) ((a_tabViews a)[?i := v])"
    using app_okD(6) [OF assms(1)] tab.keep [OF core_ok_view [OF core] v] set_update_subset_insert [of "a_tabViews a" ?i v] by (auto simp: list_all_iff)
  ultimately show ?thesis unfolding a' using app_ok_parts(5) [OF assms(1)] app_okD(7) [OF assms(1)] by simp
qed

text \<open>Switching tabs blurs every view and focuses the new one, whichever had the focus before.\<close>

lemma blurAll_Inr:
  assumes "core_ok E a" and "blurAll E a = Inr a1"
  shows "core_ok E a1" "map tab_focused (a_tabViews a1) = replicate 9 False" "a_tabs a1 = a_tabs a"
proof -
  from assms(2) obtain vs where vs: "steps_to E VBlur (a_tabViews a) vs" "a1 = a\<lparr>a_tabViews := vs\<rparr>" unfolding blurAll_def all_tabs_Inr by blast
  have l: "list_all (tab_ok E) (a_tabViews a)" "length (a_tabViews a) = 9" using assms(1) by (simp_all add: core_ok_def)
  have "new_focus VBlur = (\<lambda>_. False)" by (simp add: new_focus_def fun_eq_iff)
  then show "core_ok E a1" "map tab_focused (a_tabViews a1) = replicate 9 False" "a_tabs a1 = a_tabs a"
    using steps_keep [OF vs(1) l(1)] l(2) vs(2) assms(1) by (simp_all add: comp_def map_replicate_const core_ok_def)
qed

lemma one_focus:
  assumes "i < n"
  shows "(replicate n False)[i := True] = map (\<lambda>j. j = i) [0..<n]"
  by (rule nth_equalityI) (auto simp: nth_list_update assms)

lemma focus_active:
  assumes "core_ok E a" and "map tab_focused (a_tabViews a) = replicate 9 False" and "on_active E VFocus a = Inr a'"
  shows "app_ok E a'" "a_tabs a' = a_tabs a"
proof -
  let ?i = "nat (tb_active (a_tabs a))"
  from assms(3) obtain v where v: "tab_step E VFocus (a_tabViews a ! ?i) = Inr v" and a': "a' = a\<lparr>a_tabViews := (a_tabViews a)[?i := v]\<rparr>"
    unfolding on_active_eq [OF assms(1)] by auto
  have i: "?i < 9" "\<And>j. int j = tb_active (a_tabs a) \<longleftrightarrow> j = ?i" using core_ok_active [OF assms(1)] by auto
  have "map tab_focused ((a_tabViews a)[?i := v]) = map (\<lambda>j. int j = tb_active (a_tabs a)) [0..<9]"
    using tab.focus [OF v] by (simp add: map_update assms(2) one_focus i)
  moreover have "list_all (tab_ok E) ((a_tabViews a)[?i := v])"
    using assms(1) tab.keep [OF core_ok_view [OF assms(1)] v] set_update_subset_insert [of "a_tabViews a" ?i v] by (auto simp: core_ok_def list_all_iff)
  ultimately show "app_ok E a'" "a_tabs a' = a_tabs a" unfolding a' using assms(1) by (simp_all add: app_ok_def core_ok_def focus_ok_def)
qed

lemma core_ok_tabs: "core_ok E a \<Longrightarrow> tb_ok t \<Longrightarrow> tb_tabs t = tb_tabs (a_tabs a) \<Longrightarrow> core_ok E (a\<lparr>a_tabs := t\<rparr>)"
  by (simp add: core_ok_def)

lemma blurAll_total: "core_ok E a \<Longrightarrow> \<exists>a'. blurAll E a = Inr a'"
  using steps_total [of E "a_tabViews a" VBlur] by (auto simp: blurAll_def all_tabs_Inr core_ok_def calm_op_def)

lemma show_tab_ok:
  assumes "core_ok E a"
  shows "\<exists>a'. show_tab E a = Inr a' \<and> app_ok E a' \<and> a_tabs a' = a_tabs a"
proof -
  obtain a1 where a1: "blurAll E a = Inr a1" using blurAll_total [OF assms] by blast
  note b = blurAll_Inr [OF assms a1]
  obtain a2 where a2: "on_active E VFocus a1 = Inr a2" using on_active_total [OF b(1), of VFocus] by (auto simp: calm_op_def)
  show ?thesis using a1 a2 focus_active [OF b(1,2) a2] b(3) by (simp add: show_tab_def)
qed

lemma select_tab_ok:
  assumes "core_ok E a" and "tb_ok t" and "tb_tabs t = tb_tabs (a_tabs a)"
  shows "\<exists>a'. show_tab E (a\<lparr>a_tabs := t\<rparr>) = Inr a' \<and> app_ok E a' \<and> a_tabs a' = t"
  using show_tab_ok [OF core_ok_tabs [OF assms]] by simp

lemma jump_tab_ok:
  assumes "core_ok E a" and "0 \<le> i" and "i < 9"
  shows "\<exists>a'. go_bind (blurAll E a) (\<lambda>a1. on_active E VFocus (a1\<lparr>a_tabs := SetActive i (a_tabs a1)\<rparr>)) = Inr a' \<and> app_ok E a' \<and> tb_active (a_tabs a') = i"
proof -
  obtain a1 where a1: "blurAll E a = Inr a1" using blurAll_total [OF assms(1)] by blast
  note b = blurAll_Inr [OF assms(1) a1]
  have t: "SetActive i (a_tabs a1) = (a_tabs a1)\<lparr>tb_active := i\<rparr>" using core_ok_active(4) [OF b(1)] assms by (intro SetActive_in) simp_all
  then have c: "core_ok E (a1\<lparr>a_tabs := SetActive i (a_tabs a1)\<rparr>)"
    using b(1) assms core_ok_active(4) [OF b(1)] by (intro core_ok_tabs) (simp_all add: tb_ok_def)
  obtain a2 where a2: "on_active E VFocus (a1\<lparr>a_tabs := SetActive i (a_tabs a1)\<rparr>) = Inr a2" using on_active_total [OF c, of VFocus] by (auto simp: calm_op_def)
  show ?thesis using a1 a2 focus_active [OF c _ a2] b(2) t by simp
qed

section \<open>Batches\<close>

lemma sorted_by_named: "sort_laws E \<Longrightarrow> named_batch b \<Longrightarrow> named_batch (sorted_by E v b)"
  by (cases v) (simp_all add: sort_laws_def named_batch_def list_all_iff, (metis set_mset_mset)+)

lemma feed_keep:
  "feed_tabs E vs b = Inr (vs', b') \<Longrightarrow> list_all (tab_ok E) vs \<Longrightarrow>
   list_all (tab_ok E) vs' \<and> map tab_focused vs' = map tab_focused vs \<and> length vs' = length vs"
  by (induction vs arbitrary: b vs') (auto dest: tab.keep [rotated] tab.focus)

lemma feed_total:
  assumes "sort_laws E"
  shows "list_all (tab_ok E) vs \<Longrightarrow> named_batch b \<Longrightarrow> \<exists>vs' b'. feed_tabs E vs b = Inr (vs', b') \<and> named_batch b'"
proof (induction vs arbitrary: b)
  case (Cons v vs)
  obtain v' where "tab_step E (VData b) v = Inr v'" using tab.total [of E v "VData b"] Cons.prems by (auto simp: calm_op_def)
  moreover obtain vs' b' where "feed_tabs E vs (sorted_by E v b) = Inr (vs', b')" "named_batch b'"
    using Cons.IH [OF _ sorted_by_named [OF assms Cons.prems(2), of v]] Cons.prems(1) by auto
  ultimately show ?case by auto
qed auto

lemma share_batch_ok: "tab_ok E v \<Longrightarrow> tab_ok E (share_batch b v)" "tab_focused (share_batch b v) = tab_focused v"
  by (cases v; auto simp: ov_ok_def)+

lemma share_all: "list_all (tab_ok E) vs \<Longrightarrow> list_all (tab_ok E) (map (share_batch b) vs)" "map tab_focused (map (share_batch b) vs) = map tab_focused vs"
  by (simp_all add: list_all_iff share_batch_ok)

section \<open>Messages\<close>

lemma dv_Update_ok: "dv_ok v \<Longrightarrow> dv_ok (dv_Update V T m v)"
  using dv_step_keeps [of v V T "\<lambda>_. []" "\<lambda>_. []" "VMsg m"] by simp

lemma dv_setters_ok: "dv_ok v \<Longrightarrow> dv_ok (dv_SetSize V w h v)" "dv_ok v \<Longrightarrow> dv_ok (dv_SetTheme th v)"
  by (simp_all add: dv_SetSize_def dv_SetTheme_def)

lemma applyTheme_ok:
  assumes "app_ok E a"
  shows "\<exists>a'. applyTheme E name a = Inr a' \<and> app_ok E a' \<and> a_theme a' = Get name \<and> a_state a' = a_state a \<and> a_prevState a' = a_prevState a \<and>
     pa_visible (a_palette a') = pa_visible (a_palette a) \<and> mo_visible (a_modal a') = mo_visible (a_modal a) \<and> a_themeIdx a' = a_themeIdx a"
proof -
  let ?n = "th_Name (Get name)"
  define a1 where "a1 = a\<lparr>a_theme := Get name, a_cfg := (a_cfg a)\<lparr>cf_Theme := name\<rparr>, a_tabs := (a_tabs a)\<lparr>tb_theme := ?n\<rparr>,
     a_statusBar := (a_statusBar a)\<lparr>st_theme := ?n\<rparr>, a_modal := (a_modal a)\<lparr>mo_theme := ?n\<rparr>, a_palette := (a_palette a)\<lparr>pa_theme := ?n\<rparr>\<rparr>"
  have "app_ok E a1" using assms by (auto simp: a1_def app_ok_def core_ok_def focus_ok_def pa_ok_def tb_ok_def)
  moreover obtain a2 where a2: "all_tabs E (VTheme ?n) a1 = Inr a2" using all_tabs_total [OF \<open>app_ok E a1\<close>, of "VTheme ?n"] by (auto simp: calm_op_def)
  ultimately have "app_ok E a2" using all_tabs_keep by blast
  then have "app_ok E (a2\<lparr>a_detailPg := dv_SetTheme ?n (a_detailPg a2)\<rparr>)" by (intro app_ok_parts(1) dv_setters_ok) (simp_all add: app_okD)
  moreover have "applyTheme E name a = Inr (a2\<lparr>a_detailPg := dv_SetTheme ?n (a_detailPg a2)\<rparr>)"
    using a2 by (simp add: applyTheme_def Let_def a1_def)
  moreover have "a_theme a2 = a_theme a1 \<and> a_state a2 = a_state a1 \<and> a_prevState a2 = a_prevState a1 \<and> a_palette a2 = a_palette a1 \<and> a_modal a2 = a_modal a1 \<and> a_themeIdx a2 = a_themeIdx a1"
    using a2 by (auto simp: all_tabs_Inr)
  ultimately show ?thesis by (simp add: a1_def)
qed

lemma to_view_keep:
  assumes "app_ok E a" and "to_view E m a = Inr (a', c)"
  shows "app_ok E a' \<and> c = WidgetCmd \<and> a_state a' = a_state a \<and> a_prevState a' = a_prevState a \<and> a_palette a' = a_palette a \<and> a_modal a' = a_modal a \<and>
     a_cfg a' = a_cfg a"
proof (cases "a_state a = StateDetail")
  case True
  with assms show ?thesis by (auto simp: to_view_def intro!: app_ok_parts dv_Update_ok app_okD(2))
next
  case False
  with assms(2) have "on_active E (VMsg m) a = Inr a'" "c = WidgetCmd" by (auto simp: to_view_def)
  with on_active_keep [OF assms(1)] show ?thesis using on_active_eq [OF app_okD(1) [OF assms(1)]] by auto
qed

lemma to_view_total: "app_ok E a \<Longrightarrow> calm_op (VMsg m) \<Longrightarrow> \<exists>a' c. to_view E m a = Inr (a', c)"
  using on_active_total [OF app_okD(1), of E a "VMsg m"] by (auto simp: to_view_def)

text \<open>A command of the palette is one of the registered ones, which switch the theme.\<close>

lemma buildCommands_action: "cmd \<in> set buildCommands \<Longrightarrow> cm_Action cmd = Some f \<Longrightarrow> \<exists>n \<in> set Names. f args = SendMsg (ThemeChangedMsg n)"
  by (auto simp: buildCommands_def)

definition app_cmds :: "tea_cmd set" where
  "app_cmds = {NoCmd, WidgetCmd} \<union> (\<lambda>n. SendMsg (ThemeChangedMsg n)) ` set Names"

lemma to_palette_ok:
  assumes "app_ok E a"
  shows "\<exists>a' c. to_palette E m a = Inr (a', c) \<and> app_ok E a' \<and> c \<in> app_cmds \<and> a_state a' = a_state a \<and> a_prevState a' = a_prevState a \<and> a_modal a' = a_modal a \<and>
     a_cfg a' = a_cfg a"
proof -
  note d = app_okD [OF assms]
  obtain p c where p: "pa_Update (te_lower E) (te_T E) m (a_palette a) = Inr (p, c)" "pa_ok p" "pa_commands p = pa_commands (a_palette a)" "set (pa_matches p) \<subseteq> set (pa_commands (a_palette a))"
    and c: "c \<in> {NoCmd, WidgetCmd} \<or> (\<exists>cmd \<in> set (pa_commands (a_palette a)). \<exists>f args. cm_Action cmd = Some f \<and> c = f args)"
    using pa_Update_ok [OF d(3), of "te_lower E" "te_T E" m] d(4,5) by (simp only:) blast
  have "c \<in> app_cmds" using c buildCommands_action unfolding d(4) app_cmds_def by blast
  moreover have "app_ok E (a\<lparr>a_palette := p\<rparr>)" using p d(4) by (intro app_ok_parts(2) assms) simp_all
  ultimately show ?thesis using p(1) by (simp add: to_palette_def)
qed

text \<open>The key chain: overlays first, then the global bindings, then the view.\<close>

lemma handleKey_cases:
  obtains
    (palette) "pa_visible (a_palette a)" "handleKey E k a = to_palette E (KeyMsg k) a"
  | (modal) "\<not> pa_visible (a_palette a)" "mo_visible (a_modal a)" "handleKey E k a = Inr (a\<lparr>a_modal := Hide_modal (a_modal a), a_state := a_prevState a\<rparr>, NoCmd)"
  | (quit) "\<not> pa_visible (a_palette a)" "\<not> mo_visible (a_modal a)" "k \<in> {''q'', ''ctrl+c''}" "handleKey E k a = Inr (a, Quit)"
  | (helpKey) "\<not> pa_visible (a_palette a)" "\<not> mo_visible (a_modal a)" "k = ''?''"
      "handleKey E k a = Inr (a\<lparr>a_prevState := a_state a, a_state := StateHelp, a_modal := ShowHelp helpContent (a_modal a)\<rparr>, NoCmd)"
  | (colon) "\<not> pa_visible (a_palette a)" "\<not> mo_visible (a_modal a)" "k = '':''"
      "handleKey E k a = Inr (a\<lparr>a_state := StateCommandPalette, a_palette := pa_Show (te_lower E) (te_T E) (a_palette a)\<rparr>, NoCmd)"
  | (esc) "\<not> pa_visible (a_palette a)" "\<not> mo_visible (a_modal a)" "k = ''esc''"
      "handleKey E k a = Inr (if a_state a = StateDetail \<or> a_state a = StateSearch
         then a\<lparr>a_state := StateDashboard, a_statusBar := SetMode ''LIVE'' ''green'' (a_statusBar a)\<rparr> else a, NoCmd)"
  | (theme) "\<not> pa_visible (a_palette a)" "\<not> mo_visible (a_modal a)" "k = ''T''"
      "handleKey E k a = go_bind (go_rem (a_themeIdx a + 1) 6) (\<lambda>i. go_bind (go_index Names i) (\<lambda>name.
         go_bind (applyTheme E name (a\<lparr>a_themeIdx := i\<rparr>)) (\<lambda>a1. Inr (a1, NoCmd))))"
  | (nextTab) "\<not> pa_visible (a_palette a)" "\<not> mo_visible (a_modal a)" "k \<in> {''tab'', '']''}"
      "handleKey E k a = go_bind (Next_tab (a_tabs a)) (\<lambda>t. go_bind (show_tab E (a\<lparr>a_tabs := t\<rparr>)) (\<lambda>a1. Inr (a1, NoCmd)))"
  | (prevTab) "\<not> pa_visible (a_palette a)" "\<not> mo_visible (a_modal a)" "k \<in> {''shift+tab'', ''[''}"
      "handleKey E k a = go_bind (Prev_tab (a_tabs a)) (\<lambda>t. go_bind (show_tab E (a\<lparr>a_tabs := t\<rparr>)) (\<lambda>a1. Inr (a1, NoCmd)))"
  | (digit) "\<not> pa_visible (a_palette a)" "\<not> mo_visible (a_modal a)" "k \<in> set digit_keys"
      "handleKey E k a = (if int (of_char (hd k)) - 49 < int (length (a_tabViews a))
         then go_bind (blurAll E a) (\<lambda>a1. go_bind (on_active E VFocus (a1\<lparr>a_tabs := SetActive (int (of_char (hd k)) - 49) (a_tabs a1)\<rparr>)) (\<lambda>a2. Inr (a2, NoCmd)))
         else Inr (a, NoCmd))"
  | (enter) "\<not> pa_visible (a_palette a)" "\<not> mo_visible (a_modal a)" "k = ''enter''" "a_state a = StateDashboard"
      "handleKey E k a = go_bind (activeView a) (\<lambda>v. go_bind (tab_SelectedContainer E v) (\<lambda>c.
         if c \<noteq> [] then go_bind (nav_detail c a) (\<lambda>a1. Inr (a1, NoCmd)) else to_view E (KeyMsg k) a))"
  | (view) "\<not> pa_visible (a_palette a)" "\<not> mo_visible (a_modal a)" "handleKey E k a = to_view E (KeyMsg k) a"
proof -
  consider "pa_visible (a_palette a)" | "\<not> pa_visible (a_palette a)" "mo_visible (a_modal a)"
    | (clear) "\<not> pa_visible (a_palette a)" "\<not> mo_visible (a_modal a)" by blast
  then show ?thesis
  proof cases
    case clear
    note u = handleKey_def [of E k a] and f = clear
    consider "k \<in> {''q'', ''ctrl+c''}" | "k = ''?''" | "k = '':''" | "k = ''esc''" | "k = ''T''" | "k \<in> {''tab'', '']''}" | "k \<in> {''shift+tab'', ''[''}"
      | (digit) "k \<in> set digit_keys" | "k = ''enter''" "a_state a = StateDashboard"
      | (rest) "k \<notin> {''q'', ''ctrl+c''}" "k \<noteq> ''?''" "k \<noteq> '':''" "k \<noteq> ''esc''" "k \<noteq> ''T''" "k \<notin> {''tab'', '']''}" "k \<notin> {''shift+tab'', ''[''}"
          "k \<notin> set digit_keys" "\<not> (k = ''enter'' \<and> a_state a = StateDashboard)"
      by argo
    then show ?thesis
    proof cases
      case digit
      then have "k \<notin> {''q'', ''ctrl+c'', ''?'', '':'', ''esc'', ''T'', ''tab'', '']'', ''shift+tab'', ''[''}" by (auto simp: digit_keys_def)
      with digit f show ?thesis by (intro that(10)) (simp_all add: u Let_def)
    next
      case rest
      with f show ?thesis by (intro that(12)) (auto simp: u)
    next
      case 1
      with f show ?thesis by (intro that(3)) (auto simp: handleKey_def digit_keys_def)
    next
      case 2
      with f show ?thesis by (intro that(4)) (auto simp: handleKey_def digit_keys_def)
    next
      case 3
      with f show ?thesis by (intro that(5)) (auto simp: handleKey_def digit_keys_def)
    next
      case 4
      with f show ?thesis by (intro that(6)) (auto simp: handleKey_def digit_keys_def)
    next
      case 5
      with f show ?thesis by (intro that(7)) (auto simp: handleKey_def digit_keys_def)
    next
      case 6
      with f show ?thesis by (intro that(8)) (auto simp: handleKey_def digit_keys_def)
    next
      case 7
      with f show ?thesis by (intro that(9)) (auto simp: handleKey_def digit_keys_def)
    next
      case 9
      with f show ?thesis by (intro that(11)) (auto simp: handleKey_def digit_keys_def)
    qed
  qed (use that(1,2) in \<open>simp_all add: handleKey_def\<close>)
qed

lemma digit_index: "k \<in> set digit_keys \<Longrightarrow> 0 \<le> int (of_char (hd k)) - 49 \<and> int (of_char (hd k)) - 49 < 9"
  by (auto simp: digit_keys_def)

lemma theme_key:
  assumes "app_ok E a"
  shows "\<exists>i a1. go_rem (a_themeIdx a + 1) 6 = Inr i \<and> i = (a_themeIdx a + 1) mod 6 \<and> go_index Names i = Inr (Names ! nat i) \<and>
     applyTheme E (Names ! nat i) (a\<lparr>a_themeIdx := i\<rparr>) = Inr a1 \<and> app_ok E a1 \<and> a_theme a1 = Get (Names ! nat i) \<and> a_themeIdx a1 = i \<and>
     a_state a1 = a_state a \<and> a_prevState a1 = a_prevState a \<and> mo_visible (a_modal a1) = mo_visible (a_modal a)"
proof -
  let ?i = "(a_themeIdx a + 1) mod 6"
  have "go_rem (a_themeIdx a + 1) 6 = Inr ?i" "go_index Names ?i = Inr (Names ! nat ?i)" using app_okD(9) [OF assms] by (simp_all add: go_rem_ok)
  moreover have "app_ok E (a\<lparr>a_themeIdx := ?i\<rparr>)" by (rule app_ok_parts(3) [OF assms]) simp_all
  ultimately show ?thesis using applyTheme_ok [of E "a\<lparr>a_themeIdx := ?i\<rparr>" "Names ! nat ?i"] by auto
qed

lemma on_active_frame: "on_active E op a = Inr a' \<Longrightarrow> \<exists>vs. a' = a\<lparr>a_tabViews := vs\<rparr>"
  by (auto simp: on_active_def)

lemma blurAll_frame: "blurAll E a = Inr a' \<Longrightarrow> \<exists>vs. a' = a\<lparr>a_tabViews := vs\<rparr>"
  by (auto simp: blurAll_def all_tabs_Inr)

lemma tab_keys:
  assumes "app_ok E a"
  shows "\<exists>t a1. Next_tab (a_tabs a) = Inr t \<and> show_tab E (a\<lparr>a_tabs := t\<rparr>) = Inr a1 \<and> app_ok E a1 \<and> tb_active (a_tabs a1) = (tb_active (a_tabs a) + 1) mod 9 \<and>
      a_state a1 = a_state a \<and> a_prevState a1 = a_prevState a \<and> a_modal a1 = a_modal a"
    and "\<exists>t a1. Prev_tab (a_tabs a) = Inr t \<and> show_tab E (a\<lparr>a_tabs := t\<rparr>) = Inr a1 \<and> app_ok E a1 \<and> tb_active (a_tabs a1) = (tb_active (a_tabs a) - 1) mod 9 \<and>
      a_state a1 = a_state a \<and> a_prevState a1 = a_prevState a \<and> a_modal a1 = a_modal a"
proof -
  note core = app_okD(1) [OF assms] and t = app_okD(8) [OF assms]
  have frame: "show_tab E a0 = Inr a1 \<Longrightarrow> a_state a1 = a_state a0 \<and> a_prevState a1 = a_prevState a0 \<and> a_modal a1 = a_modal a0" for a0 a1 :: "('a, 'b) App"
    by (auto simp: show_tab_def dest!: blurAll_frame on_active_frame)
  have n: "int (length (tb_tabs (a_tabs a))) = 9" using core_ok_active(4) [OF core] by simp
  show "\<exists>t a1. Next_tab (a_tabs a) = Inr t \<and> show_tab E (a\<lparr>a_tabs := t\<rparr>) = Inr a1 \<and> app_ok E a1 \<and> tb_active (a_tabs a1) = (tb_active (a_tabs a) + 1) mod 9 \<and>
      a_state a1 = a_state a \<and> a_prevState a1 = a_prevState a \<and> a_modal a1 = a_modal a"
    using Next_tab_ok [OF t] select_tab_ok [OF core tb_ok_mod [OF t, of "tb_active (a_tabs a) + 1"]] n by (fastforce dest: frame)
  show "\<exists>t a1. Prev_tab (a_tabs a) = Inr t \<and> show_tab E (a\<lparr>a_tabs := t\<rparr>) = Inr a1 \<and> app_ok E a1 \<and> tb_active (a_tabs a1) = (tb_active (a_tabs a) - 1) mod 9 \<and>
      a_state a1 = a_state a \<and> a_prevState a1 = a_prevState a \<and> a_modal a1 = a_modal a"
    using Prev_tab_ok [OF t] select_tab_ok [OF core tb_ok_mod [OF t, of "tb_active (a_tabs a) - 1"]] n by (fastforce dest: frame)
qed

lemma nav_detail_ok: "app_ok E a \<Longrightarrow> \<exists>a1. nav_detail c a = Inr a1 \<and> app_ok E a1"
  using SetContainer_ok [OF app_okD(2), of E a c] app_ok_parts(1) [of E a] by (auto simp: nav_detail_def)

lemma enter_key:
  assumes "app_ok E a"
  shows "\<exists>v c. activeView a = Inr v \<and> tab_SelectedContainer E v = Inr c"
proof -
  note core = app_okD(1) [OF assms]
  have "activeView a = Inr (a_tabViews a ! nat (tb_active (a_tabs a)))" using core_ok_active [OF core] by (simp add: activeView_def)
  then show ?thesis using tab_SelectedContainer_ok [OF core_ok_view [OF core]] by blast
qed

lemma handleKey_total:
  assumes "app_ok E a" and "k \<noteq> ''S''"
  shows "\<exists>a' c. handleKey E k a = Inr (a', c)"
proof -
  have view: "\<exists>a' c. to_view E (KeyMsg k) a = Inr (a', c)" using to_view_total [OF assms(1), of "KeyMsg k"] assms(2) by (simp add: calm_op_def)
  show ?thesis
  proof (cases rule: handleKey_cases [of a E k])
    case palette
    with to_palette_ok [OF assms(1), of "KeyMsg k"] show ?thesis by auto
  next
    case theme
    with theme_key [OF assms(1)] show ?thesis by fastforce
  next
    case nextTab
    with tab_keys(1) [OF assms(1)] show ?thesis by fastforce
  next
    case prevTab
    with tab_keys(2) [OF assms(1)] show ?thesis by fastforce
  next
    case digit
    with jump_tab_ok [OF app_okD(1) [OF assms(1)], of "int (of_char (hd k)) - 49"] digit_index [of k] show ?thesis by auto
  next
    case enter
    with enter_key [OF assms(1)] nav_detail_ok [OF assms(1)] view show ?thesis by fastforce
  qed (use view in auto)
qed

lemma handleKey_keep:
  assumes "app_ok E a" and "handleKey E k a = Inr (a', c)"
  shows "app_ok E a' \<and> (c \<in> app_cmds \<or> c = Quit \<and> k \<in> {''q'', ''ctrl+c''})"
proof (cases rule: handleKey_cases [of a E k])
  case palette
  with to_palette_ok [OF assms(1), of "KeyMsg k"] assms(2) show ?thesis by auto
next
  case colon
  have "app_ok E (a\<lparr>a_state := StateCommandPalette, a_palette := pa_Show (te_lower E) (te_T E) (a_palette a)\<rparr>)"
    using pa_Show_ok(4) [of "te_lower E" "te_T E" "a_palette a"] by (intro app_ok_parts(2)) (simp_all add: assms(1) pa_Show_ok app_okD [OF assms(1)])
  with colon assms show ?thesis by (auto simp: app_cmds_def)
next
  case theme
  with theme_key [OF assms(1)] assms(2) show ?thesis by (auto simp: app_cmds_def)
next
  case nextTab
  with tab_keys(1) [OF assms(1)] assms(2) show ?thesis by (auto simp: app_cmds_def)
next
  case prevTab
  with tab_keys(2) [OF assms(1)] assms(2) show ?thesis by (auto simp: app_cmds_def)
next
  case digit
  with jump_tab_ok [OF app_okD(1) [OF assms(1)], of "int (of_char (hd k)) - 49"] digit_index [of k] assms show ?thesis by (auto simp: app_cmds_def split: if_splits)
next
  case enter
  from enter_key [OF assms(1)] obtain v cn where v: "activeView a = Inr v" "tab_SelectedContainer E v = Inr cn" by blast
  show ?thesis
  proof (cases "cn = []")
    case True
    then have "to_view E (KeyMsg k) a = Inr (a', c)" using enter v assms(2) by simp
    with to_view_keep [OF assms(1)] show ?thesis by (auto simp: app_cmds_def)
  next
    case False
    with enter v assms(2) nav_detail_ok [OF assms(1), of cn] show ?thesis by (auto simp: app_cmds_def)
  qed
next
  case view
  with to_view_keep [OF assms(1)] assms(2) show ?thesis by (auto simp: app_cmds_def)
qed (use assms in \<open>auto simp: app_cmds_def split: if_splits\<close>)

text \<open>A message that cannot panic: any but a batch with an unnamed sample and the backward sort key.\<close>

fun calm_msg :: "tea_msg \<Rightarrow> bool" where
  "calm_msg (DataMsg b) = named_batch b"
| "calm_msg (KeyMsg k) = (k \<noteq> ''S'')"
| "calm_msg _ = True"

lemma resize_eq:
  "App_Update E (WindowSizeMsg w h) a = go_map (\<lambda>a2. (a2\<lparr>a_detailPg := dv_SetSize (te_V E) (ContentW (New_layout w h)) (BodyH (New_layout w h)) (a_detailPg a2)\<rparr>, NoCmd))
     (all_tabs E (VSize (ContentW (New_layout w h)) (BodyH (New_layout w h)))
       (a\<lparr>a_termW := w, a_termH := h, a_layout := New_layout w h, a_tabs := (a_tabs a)\<lparr>tb_width := w\<rparr>, a_statusBar := (a_statusBar a)\<lparr>st_width := w\<rparr>\<rparr>))"
  by (simp add: App_Update_def Let_def go_map_def)

lemma resize_ok:
  assumes "app_ok E a"
  shows "\<exists>a'. App_Update E (WindowSizeMsg w h) a = Inr (a', NoCmd) \<and> app_ok E a' \<and> a_state a' = a_state a \<and> a_prevState a' = a_prevState a \<and> a_cfg a' = a_cfg a \<and>
    a_palette a' = a_palette a \<and> a_modal a' = a_modal a"
proof -
  let ?s = "VSize (ContentW (New_layout w h)) (BodyH (New_layout w h))"
  let ?a = "a\<lparr>a_termW := w, a_termH := h, a_layout := New_layout w h, a_tabs := (a_tabs a)\<lparr>tb_width := w\<rparr>, a_statusBar := (a_statusBar a)\<lparr>st_width := w\<rparr>\<rparr>"
  have "app_ok E ?a" using app_ok_parts(4) [of E "a\<lparr>a_termW := w, a_termH := h, a_layout := New_layout w h\<rparr>" "(a_tabs a)\<lparr>tb_width := w\<rparr>"] assms by simp
  moreover from this obtain a2 where a2: "all_tabs E ?s ?a = Inr a2" using all_tabs_total [of E ?a ?s] by (auto simp: calm_op_def)
  ultimately have ok: "app_ok E a2" using all_tabs_keep by blast
  have "a_state a2 = a_state a \<and> a_prevState a2 = a_prevState a \<and> a_cfg a2 = a_cfg a \<and> a_palette a2 = a_palette a \<and> a_modal a2 = a_modal a"
    using a2 by (auto simp: all_tabs_Inr)
  then show ?thesis unfolding resize_eq a2 using app_ok_parts(1) [OF ok dv_setters_ok(1) [OF app_okD(2) [OF ok]]] by simp
qed

lemma data_eq:
  "App_Update E (DataMsg b) a =
     go_bind (feed_tabs E (a_tabViews a) b) (\<lambda>(vs, b'). go_bind (dv_SetData b' (a_detailPg a)) (\<lambda>d.
       Inr (a\<lparr>a_state := (if a_state a = StateLoading then StateDashboard else a_state a), a_batchCount := a_batchCount a + 1,
              a_eventCount := a_eventCount a + int (length (db_Events b)), a_tabViews := map (share_batch b') vs, a_detailPg := d,
              a_statusBar := SetStats (a_batchCount a + 1) (a_eventCount a + int (length (db_Events b))) (a_statusBar a)\<rparr>,
            CollectCmd (DataInterval (a_cfg a)) (collectFilter a))))"
  by (simp add: App_Update_def Let_def collectFilter_def)

lemma data_keep:
  assumes "app_ok E a" and "App_Update E (DataMsg b) a = Inr (a', c)"
  shows "app_ok E a' \<and> c = CollectCmd (DataInterval (a_cfg a)) (collectFilter a) \<and> a_state a' = (if a_state a = StateLoading then StateDashboard else a_state a) \<and>
    a_prevState a' = a_prevState a \<and> a_cfg a' = a_cfg a \<and> a_palette a' = a_palette a \<and> a_modal a' = a_modal a \<and> a_batchCount a' = a_batchCount a + 1"
proof -
  from assms(2) obtain vs b' d where f: "feed_tabs E (a_tabViews a) b = Inr (vs, b')" and d: "dv_SetData b' (a_detailPg a) = Inr d"
    and a': "a' = a\<lparr>a_state := (if a_state a = StateLoading then StateDashboard else a_state a), a_batchCount := a_batchCount a + 1,
              a_eventCount := a_eventCount a + int (length (db_Events b)), a_tabViews := map (share_batch b') vs, a_detailPg := d,
              a_statusBar := SetStats (a_batchCount a + 1) (a_eventCount a + int (length (db_Events b))) (a_statusBar a)\<rparr>"
    and c: "c = CollectCmd (DataInterval (a_cfg a)) (collectFilter a)"
    unfolding data_eq by (auto split: prod.splits)
  note fk = feed_keep [OF f app_okD(6) [OF assms(1)]]
  have "app_ok E (a\<lparr>a_tabViews := map (share_batch b') vs\<rparr>)" using fk app_okD(7) [OF assms(1)] share_all(1) [of E vs b'] share_all(2) [of b' vs]
    by (intro app_ok_parts(5) [OF assms(1)]) simp_all
  then have "app_ok E (a\<lparr>a_tabViews := map (share_batch b') vs, a_detailPg := d\<rparr>)" using dv_SetData_keeps [OF app_okD(2) [OF assms(1)] d] by (rule app_ok_parts(1))
  then have "app_ok E a'" by (simp add: a' app_ok_def core_ok_def focus_ok_def)
  then show ?thesis by (simp add: a' c)
qed

lemma data_total:
  assumes "app_ok E a" and "sort_laws E" and "named_batch b"
  shows "\<exists>a' c. App_Update E (DataMsg b) a = Inr (a', c)"
proof -
  obtain vs b' where f: "feed_tabs E (a_tabViews a) b = Inr (vs, b')" "named_batch b'" using feed_total [OF assms(2) app_okD(6) [OF assms(1)] assms(3)] by blast
  from dv_SetData_named [OF app_okD(2) [OF assms(1)] f(2)] show ?thesis unfolding data_eq f(1) by auto
qed

lemma App_Update_keep:
  assumes "app_ok E a" and "App_Update E m a = Inr (a', c)"
  shows "app_ok E a'"
proof (cases m)
  case (WindowSizeMsg w h)
  with resize_ok [OF assms(1), of w h] assms(2) show ?thesis by auto
next
  case (DataMsg b)
  with data_keep [OF assms(1)] assms(2) show ?thesis by blast
next
  case (NavDetailMsg cn)
  with nav_detail_ok [OF assms(1), of cn] assms(2) show ?thesis by (auto simp: App_Update_def)
next
  case (ThemeChangedMsg n)
  with applyTheme_ok [OF assms(1), of n] assms(2) show ?thesis by (auto simp: App_Update_def)
next
  case (KeyMsg k)
  with handleKey_keep [OF assms(1)] assms(2) show ?thesis by (auto simp: App_Update_def)
next
  case (OtherMsg n)
  with to_palette_ok [OF assms(1), of m] to_view_keep [OF assms(1), of m] assms(2) show ?thesis by (auto simp: App_Update_def split: if_splits)
qed (use assms in \<open>auto simp: App_Update_def nav_back_def\<close>)

lemma App_Update_total:
  assumes "app_ok E a" and "sort_laws E" and "calm_msg m"
  shows "\<exists>a' c. App_Update E m a = Inr (a', c)"
proof (cases m)
  case (WindowSizeMsg w h)
  with resize_ok [OF assms(1), of w h] show ?thesis by auto
next
  case (DataMsg b)
  with data_total [OF assms(1,2)] assms(3) show ?thesis by simp
next
  case (NavDetailMsg cn)
  with nav_detail_ok [OF assms(1), of cn] show ?thesis by (auto simp: App_Update_def)
next
  case (ThemeChangedMsg n)
  with applyTheme_ok [OF assms(1), of n] show ?thesis by (auto simp: App_Update_def)
next
  case (KeyMsg k)
  with handleKey_total [OF assms(1)] assms(3) show ?thesis by (auto simp: App_Update_def)
next
  case (OtherMsg n)
  with to_palette_ok [OF assms(1), of m] to_view_total [OF assms(1), of m] show ?thesis by (auto simp: App_Update_def calm_op_def)
qed (auto simp: App_Update_def)

text \<open>The application as it starts.\<close>

lemma index_of_range: "index_of n ms = Some i \<Longrightarrow> 0 \<le> i \<and> i < int (length ms)"
  by (induction ms arbitrary: i) (auto split: if_splits)

lemma New_views_ok:
  assumes "textinput_laws (te_T E)"
  shows "list_all (tab_ok E) (new_tabViews E th)" "length (new_tabViews E th) = 9" "map tab_focused (new_tabViews E th) = replicate 9 False"
proof -
  have "gv_ok (gv_New (te_V E) th)" unfolding gv_ok_def by (rule exI [of _ "[]"]) (simp add: gv_refines_def gv_New_def)
  then show "list_all (tab_ok E) (new_tabViews E th)" using assms cpu.New_ok [OF assms] mem.New_ok [OF assms] io.New_ok [OF assms] net.New_ok [OF assms] sys.New_ok [OF assms]
    by (simp add: new_tabViews_def ov_ok_def ov_New_def evv_ok_def evv_New_def pg_ok_new)
qed (simp_all add: new_tabViews_def ov_New_def tv_New_def evv_New_def gv_New_def pg_New_def numeral_eq_Suc)

lemma New_app_ok:
  assumes "textinput_laws (te_T E)"
  shows "\<exists>a. New_app E cfg demo = Inr a \<and> app_ok E a \<and> a_state a = StateLoading \<and> a_cfg a = cfg \<and> a_batchCount a = 0 \<and> \<not> pa_visible (a_palette a) \<and>
     \<not> mo_visible (a_modal a) \<and> tb_active (a_tabs a) = 0"
proof -
  let ?n = "th_Name (Get (cf_Theme cfg))"
  note v = New_views_ok [OF assms, of ?n]
  define a0 where "a0 = \<lparr>a_state = StateLoading, a_prevState = StateLoading, a_layout = New_layout 80 24, a_theme = Get (cf_Theme cfg),
     a_themeIdx = (case index_of (cf_Theme cfg) Names of None \<Rightarrow> 0 | Some i \<Rightarrow> i), a_tabs = New_tabbar app_tabs ?n, a_statusBar = New_statusbar ?n,
     a_modal = New_modal ?n, a_palette = New_palette (te_T E) buildCommands ?n, a_tabViews = new_tabViews E ?n, a_detailPg = dv_New (te_V E) (te_T E) ?n,
     a_cfg = cfg, a_demo = demo, a_termW = 0, a_termH = 0, a_batchCount = 0, a_eventCount = 0\<rparr>"
  have core: "core_ok E a0" using v index_of_range [of "cf_Theme cfg" Names]
    by (auto simp: core_ok_def a0_def New_tabbar_def tb_ok_def app_tabs_def dv_ok_def dv_New_def pa_ok_def New_palette_def split: option.split)
  obtain a1 where a1: "on_active E VFocus a0 = Inr a1" using on_active_total [OF core, of VFocus] by (auto simp: calm_op_def)
  have "New_app E cfg demo = Inr a1"
    using a1 v(2) unfolding on_active_eq [OF core] by (auto simp: New_app_def Let_def a0_def New_tabbar_def)
  moreover have "app_ok E a1" by (rule focus_active(1) [OF core _ a1]) (simp add: a0_def v(3))
  moreover have "a_state a1 = StateLoading \<and> a_cfg a1 = cfg \<and> a_batchCount a1 = 0 \<and> \<not> pa_visible (a_palette a1) \<and> \<not> mo_visible (a_modal a1) \<and> tb_active (a_tabs a1) = 0"
    using a1 unfolding on_active_eq [OF core] by (auto simp: a0_def New_palette_def New_modal_def New_tabbar_def)
  ultimately show ?thesis by blast
qed

section \<open>Runs\<close>

fun go_run :: "('m \<Rightarrow> 's \<Rightarrow> ('s \<times> 'c) go) \<Rightarrow> 'm list \<Rightarrow> 's \<Rightarrow> ('s \<times> 'c list) go" where
  "go_run step [] s = Inr (s, [])"
| "go_run step (m # ms) s = go_bind (step m s) (\<lambda>(s1, c). go_bind (go_run step ms s1) (\<lambda>(s2, cs). Inr (s2, c # cs)))"

text \<open>A message loop: updates keep the invariant, and calm messages make progress.\<close>

locale message_loop =
  fixes step :: "'m \<Rightarrow> 's \<Rightarrow> ('s \<times> 'c) go" and ok :: "'s \<Rightarrow> bool" and calm :: "'m \<Rightarrow> bool"
  assumes preserve: "ok s \<Longrightarrow> step m s = Inr (s', c) \<Longrightarrow> ok s'"
    and progress: "ok s \<Longrightarrow> calm m \<Longrightarrow> \<exists>s' c. step m s = Inr (s', c)"
begin

lemma run_preserve: "ok s \<Longrightarrow> go_run step ms s = Inr (s', cs) \<Longrightarrow> ok s'"
  by (induction ms arbitrary: s cs) (auto dest: preserve)

lemma run_progress: "ok s \<Longrightarrow> list_all calm ms \<Longrightarrow> \<exists>s' cs. go_run step ms s = Inr (s', cs) \<and> length cs = length ms"
proof (induction ms arbitrary: s)
  case (Cons m ms)
  from Cons.prems obtain s1 c where s1: "step m s = Inr (s1, c)" using progress by fastforce
  with Cons.IH [OF preserve [OF Cons.prems(1) s1]] Cons.prems(2) show ?case by fastforce
qed simp

text \<open>If a run panics, a message that is not calm did it, in a state that satisfies the invariant.\<close>

lemma run_panic: "ok s \<Longrightarrow> go_run step ms s = Inl e \<Longrightarrow> \<exists>m \<in> set ms. \<not> calm m \<and> (\<exists>s1. ok s1 \<and> step m s1 = Inl e)"
proof (induction ms arbitrary: s)
  case (Cons m ms)
  show ?case
  proof (cases "step m s")
    case (Inl e')
    with Cons.prems progress [OF Cons.prems(1), of m] show ?thesis by auto
  next
    case (Inr r)
    obtain s1 c where r: "r = (s1, c)" by (cases r)
    have "go_run step ms s1 = Inl e" using Cons.prems(2) Inr r by (cases "go_run step ms s1") (auto split: prod.splits)
    with Cons.IH [OF preserve [OF Cons.prems(1)]] Inr r show ?thesis by (meson list.set_intros(2))
  qed
qed simp

end

interpretation app: message_loop "App_Update E" "\<lambda>a. env_laws E \<and> app_ok E a" calm_msg for E
  by unfold_locales (auto simp: env_laws_def dest: App_Update_keep intro!: App_Update_total)

text \<open>
  C8: for any sequence of messages without the backward sort key and without unnamed samples, the
  application starts and runs without a panic; afterwards the nine views are sound, the active tab is one of
  the nine and is the only one with the focus, and the palette selects one of the registered commands. A
  panic of any other run comes from one of the excluded messages. The runs are those of \<^verbatim>\<open>Update\<close>;
  drawing (\<^verbatim>\<open>View\<close>) is not part of them.
\<close>

theorem app_runs_safe:
  assumes "env_laws E"
  shows "\<exists>a0. New_app E cfg demo = Inr a0 \<and>
     (list_all calm_msg ms \<longrightarrow> (\<exists>a cs. go_run (App_Update E) ms a0 = Inr (a, cs) \<and> list_all (tab_ok E) (a_tabViews a) \<and> dv_ok (a_detailPg a) \<and> pa_ok (a_palette a) \<and>
        0 \<le> tb_active (a_tabs a) \<and> tb_active (a_tabs a) < 9 \<and> map tab_focused (a_tabViews a) = map (\<lambda>i. int i = tb_active (a_tabs a)) [0..<9])) \<and>
     (\<forall>e. go_run (App_Update E) ms a0 = Inl e \<longrightarrow> KeyMsg ''S'' \<in> set ms \<or> (\<exists>b. DataMsg b \<in> set ms \<and> \<not> named_batch b))"
proof -
  obtain a0 where a0: "New_app E cfg demo = Inr a0" "app_ok E a0" using New_app_ok assms unfolding env_laws_def by blast
  have run: "\<exists>a cs. go_run (App_Update E) ms a0 = Inr (a, cs) \<and> app_ok E a" if "list_all calm_msg ms"
    using app.run_progress [of E a0 ms] app.run_preserve [of E a0 ms] a0(2) assms that by blast
  have panic: "KeyMsg ''S'' \<in> set ms \<or> (\<exists>b. DataMsg b \<in> set ms \<and> \<not> named_batch b)" if p: "go_run (App_Update E) ms a0 = Inl e" for e
  proof -
    obtain m where m: "m \<in> set ms" "\<not> calm_msg m" using app.run_panic [of E a0 ms e] a0(2) assms p by blast
    show ?thesis by (cases m) (use m in auto)
  qed
  have "list_all (tab_ok E) (a_tabViews a) \<and> dv_ok (a_detailPg a) \<and> pa_ok (a_palette a) \<and> 0 \<le> tb_active (a_tabs a) \<and> tb_active (a_tabs a) < 9 \<and>
      map tab_focused (a_tabViews a) = map (\<lambda>i. int i = tb_active (a_tabs a)) [0..<9]" if "app_ok E a" for a
    using that core_ok_active [OF app_okD(1) [OF that]] app_okD [OF that] by (simp add: app_ok_def focus_ok_def)
  with a0(1) run panic show ?thesis by blast
qed

text \<open>A concrete environment: the executable widgets, and sorting that leaves the slices as they are.\<close>

definition plain_env :: "(runes list \<times> nat \<times> nat, string \<times> bool) tui_env" where
  "plain_env = \<lparr>te_V = text_viewport, te_T = line_input, te_lower = ToLower, te_clock = \<lambda>_. ''12:00:00'', te_ff = \<lambda>_. ''0'', te_orders = \<lparr>go_range = \<lambda>xs. xs, go_sort = \<lambda>_ xs. xs\<rparr>,
     te_cpu = \<lambda>xs. xs, te_mem = \<lambda>xs. xs, te_io = \<lambda>xs. xs, te_net = \<lambda>xs. xs, te_sys = \<lambda>xs. xs\<rparr>"

lemma plain_env_laws: "env_laws plain_env"
  by (simp add: env_laws_def sort_laws_def plain_env_def line_input_laws)

theorem app_runs_safe_witness:
  "\<exists>a0 a cs. New_app plain_env Default_config True = Inr a0 \<and>
     go_run (App_Update plain_env) [WindowSizeMsg 120 40, DataMsg (empty_batch 0), KeyMsg '']'', KeyMsg ''/'', KeyMsg ''x'', KeyMsg ''T'', KeyMsg ''?''] a0 = Inr (a, cs) \<and>
     tb_active (a_tabs a) < 9"
proof -
  have "list_all calm_msg [WindowSizeMsg 120 40, DataMsg (empty_batch 0), KeyMsg '']'', KeyMsg ''/'', KeyMsg ''x'', KeyMsg ''T'', KeyMsg ''?'']"
    by (simp add: named_batch_def empty_batch_def)
  with app_runs_safe [OF plain_env_laws, of Default_config True
      "[WindowSizeMsg 120 40, DataMsg (empty_batch 0), KeyMsg '']'', KeyMsg ''/'', KeyMsg ''x'', KeyMsg ''T'', KeyMsg ''?'']"]
  show ?thesis by blast
qed

end
