(* ===== verification/TeaLoop.thy ===== *)
theory TeaLoop
  imports AppRuns
begin

text \<open>
  The run-time around the application (internal/tui/app/app.go under the Bubble Tea loop): the commands
  that updates return run concurrently, and each delivers its message at some later time, in any order
  and interleaved with the user's input. A step relation over the application and the multiset of running
  commands models every such interleaving.
\<close>

section \<open>The step relation\<close>

type_synonym ('vp, 'ti) tea_state = "('vp, 'ti) App \<times> tea_cmd multiset"

text \<open>What a running command delivers; \<open>coll\<close> relates a filter to the batches a collection can return.\<close>

inductive delivers :: "(CollectFilter \<Rightarrow> DataBatch \<Rightarrow> bool) \<Rightarrow> tea_cmd \<Rightarrow> tea_msg \<Rightarrow> bool" for coll where
  tick: "delivers coll (RenderTickCmd d) RenderTickMsg"
| batch: "coll f b \<Longrightarrow> delivers coll (CollectCmd d f) (DataMsg b)"
| sent: "delivers coll (SendMsg m) m"
| widget: "delivers coll WidgetCmd (OtherMsg n)"

inductive_cases delivers_tick: "delivers coll (RenderTickCmd d) m"
inductive_cases delivers_batch: "delivers coll (CollectCmd d f) m"
inductive_cases delivers_sent: "delivers coll (SendMsg m') m"
inductive_cases delivers_widget: "delivers coll WidgetCmd m"
inductive_simps delivers_none: "delivers coll NoCmd m" "delivers coll Quit m"

fun user_input :: "tea_msg \<Rightarrow> bool" where
  "user_input (KeyMsg _) = True"
| "user_input (WindowSizeMsg _ _) = True"
| "user_input (OtherMsg _) = True"
| "user_input _ = False"

text \<open>The run-time drops a nil command and stops when \<^verbatim>\<open>tea.Quit\<close> is returned.\<close>

definition start_cmd :: "tea_cmd \<Rightarrow> tea_cmd multiset \<Rightarrow> tea_cmd multiset" where
  "start_cmd c P = (if c = NoCmd then P else add_mset c P)"

inductive tea_step :: "('vp, 'ti) tui_env \<Rightarrow> (CollectFilter \<Rightarrow> DataBatch \<Rightarrow> bool) \<Rightarrow> ('vp, 'ti) tea_state \<Rightarrow> ('vp, 'ti) tea_state \<Rightarrow> bool" for E coll where
  input: "Quit \<notin># P \<Longrightarrow> user_input m \<Longrightarrow> App_Update E m a = Inr (a', c) \<Longrightarrow> tea_step E coll (a, P) (a', start_cmd c P)"
| deliver: "Quit \<notin># P \<Longrightarrow> cmd \<in># P \<Longrightarrow> delivers coll cmd m \<Longrightarrow> App_Update E m a = Inr (a', c) \<Longrightarrow>
    tea_step E coll (a, P) (a', start_cmd c (P - {#cmd#}))"

inductive tea_reach :: "('vp, 'ti) tui_env \<Rightarrow> (CollectFilter \<Rightarrow> DataBatch \<Rightarrow> bool) \<Rightarrow> ('vp, 'ti) tea_state \<Rightarrow> ('vp, 'ti) tea_state \<Rightarrow> bool" for E coll where
  refl: "tea_reach E coll s s"
| step: "tea_reach E coll s s1 \<Longrightarrow> tea_step E coll s1 s2 \<Longrightarrow> tea_reach E coll s s2"

lemma tea_reach_inv:
  assumes "tea_reach E coll s t" and "I s" and "\<And>s1 s2. I s1 \<Longrightarrow> tea_step E coll s1 s2 \<Longrightarrow> I s2"
  shows "I t"
  using assms by (induction rule: tea_reach.induct) auto

section \<open>The commands of an update\<close>

fun is_tick :: "tea_cmd \<Rightarrow> bool" where
  "is_tick (RenderTickCmd _) = True" | "is_tick _ = False"

fun is_collect :: "tea_cmd \<Rightarrow> bool" where
  "is_collect (CollectCmd _ _) = True" | "is_collect _ = False"

lemma app_cmds_plain: "c \<in> app_cmds \<Longrightarrow> \<not> is_tick c \<and> \<not> is_collect c \<and> (\<forall>m. c = SendMsg m \<longrightarrow> (\<exists>n. m = ThemeChangedMsg n))"
  by (auto simp: app_cmds_def)

text \<open>Exactly a draw tick starts a draw command and exactly a batch starts a collection.\<close>

lemma App_Update_cmd:
  assumes "app_ok E a" and "App_Update E m a = Inr (a', c)"
  shows "is_tick c \<longleftrightarrow> m = RenderTickMsg" "is_collect c \<longleftrightarrow> (\<exists>b. m = DataMsg b)" "c = SendMsg m' \<Longrightarrow> \<exists>n. m' = ThemeChangedMsg n"
proof -
  have plain: "(is_tick c \<longleftrightarrow> m = RenderTickMsg) \<and> (is_collect c \<longleftrightarrow> (\<exists>b. m = DataMsg b)) \<and> (\<forall>m'. c = SendMsg m' \<longrightarrow> (\<exists>n. m' = ThemeChangedMsg n))"
  proof (cases m)
    case (WindowSizeMsg w h)
    with resize_ok [OF assms(1), of w h] assms(2) show ?thesis by auto
  next
    case (DataMsg b)
    with data_keep [OF assms(1), of b a' c] assms(2) show ?thesis by auto
  next
    case (NavDetailMsg cn)
    with nav_detail_ok [OF assms(1), of cn] assms(2) show ?thesis by (auto simp: App_Update_def)
  next
    case (ThemeChangedMsg n)
    with applyTheme_ok [OF assms(1), of n] assms(2) show ?thesis by (auto simp: App_Update_def)
  next
    case (KeyMsg k)
    with handleKey_keep [OF assms(1), of k a' c] assms(2) app_cmds_plain [of c] show ?thesis by (auto simp: App_Update_def)
  next
    case (OtherMsg n)
    with to_palette_ok [OF assms(1), of m] to_view_keep [OF assms(1), of m] assms(2) app_cmds_plain [of c] show ?thesis
      by (auto simp: App_Update_def split: if_splits)
  qed (use assms in \<open>auto simp: App_Update_def\<close>)
  then show "is_tick c \<longleftrightarrow> m = RenderTickMsg" "is_collect c \<longleftrightarrow> (\<exists>b. m = DataMsg b)" "c = SendMsg m' \<Longrightarrow> \<exists>n. m' = ThemeChangedMsg n" by blast+
qed

section \<open>One collection and one draw tick at a time\<close>

definition armed :: "('vp, 'ti) tui_env \<Rightarrow> ('vp, 'ti) tea_state \<Rightarrow> bool" where
  "armed E s \<longleftrightarrow> app_ok E (fst s) \<and> size (filter_mset is_tick (snd s)) = 1 \<and> size (filter_mset is_collect (snd s)) = 1 \<and>
     (\<forall>m. SendMsg m \<in># snd s \<longrightarrow> (\<exists>n. m = ThemeChangedMsg n))"

lemma size_filter_start:
  "\<not> p NoCmd \<Longrightarrow> size (filter_mset p (start_cmd c P)) = size (filter_mset p P) + (if p c then 1 else 0)"
  by (auto simp: start_cmd_def)

lemma size_filter_replace:
  assumes "cmd \<in># P" and "p cmd = p c" and "\<not> p NoCmd"
  shows "size (filter_mset p (start_cmd c (P - {#cmd#}))) = size (filter_mset p P)"
proof -
  obtain Q where "P = add_mset cmd Q" using mset_add [OF assms(1)] by blast
  then show ?thesis using assms(2,3) by (auto simp: start_cmd_def)
qed

lemma armed_step:
  assumes "armed E s" and "tea_step E coll s t"
  shows "armed E t"
  using assms(2,1)
proof (induction rule: tea_step.cases)
  case (input P m a a' c)
  have ok: "app_ok E a" using input by (simp add: armed_def)
  note c = App_Update_cmd [OF ok input(5)]
  have "\<not> is_tick c" "\<not> is_collect c" using c(1,2) input(4) by auto
  then show ?case using input App_Update_keep [OF ok input(5)] c(3) by (auto simp: armed_def size_filter_start start_cmd_def split: if_splits)
next
  case (deliver P cmd m a a' c)
  have ok: "app_ok E a" using deliver by (simp add: armed_def)
  note c = App_Update_cmd [OF ok deliver(6)]
  have sends: "\<forall>m. SendMsg m \<in># P \<longrightarrow> (\<exists>n. m = ThemeChangedMsg n)" using deliver by (simp add: armed_def)
  have same: "is_tick cmd \<longleftrightarrow> is_tick c" "is_collect cmd \<longleftrightarrow> is_collect c"
    using deliver(5,4) sends unfolding c(1,2) by (cases rule: delivers.cases; fastforce)+
  have "size (filter_mset is_tick P) = 1" "size (filter_mset is_collect P) = 1" using deliver by (simp_all add: armed_def)
  then have "size (filter_mset is_tick (start_cmd c (P - {#cmd#}))) = 1" "size (filter_mset is_collect (start_cmd c (P - {#cmd#}))) = 1"
    using size_filter_replace [OF deliver(4), of is_tick c] size_filter_replace [OF deliver(4), of is_collect c] same by simp_all
  moreover have "\<forall>m. SendMsg m \<in># start_cmd c (P - {#cmd#}) \<longrightarrow> (\<exists>n. m = ThemeChangedMsg n)"
    using sends c(3) by (auto simp: start_cmd_def dest: in_diffD)
  ultimately show ?case using App_Update_keep [OF ok deliver(6)] deliver(2) by (simp add: armed_def)
qed

lemma armed_start:
  assumes "env_laws E" and "New_app E cfg demo = Inr a0"
  shows "armed E (a0, mset (Init a0))"
  using New_app_ok [of E cfg demo] assms by (auto simp: armed_def Init_def env_laws_def)

text \<open>The pending collection of an armed state can deliver any batch it may return, which counts it and arms the next one.\<close>

lemma armed_collects:
  assumes "armed E (a, P)" and "sort_laws E" and "Quit \<notin># P" and "\<And>f. \<exists>b. coll f b \<and> named_batch b"
  shows "\<exists>a' P'. tea_step E coll (a, P) (a', P') \<and> a_batchCount a' = a_batchCount a + 1 \<and> a_state a' \<noteq> StateLoading"
proof -
  have ok: "app_ok E a" using assms(1) by (simp add: armed_def)
  have "size (filter_mset is_collect P) \<noteq> 0" using assms(1) by (simp add: armed_def)
  then obtain cmd where "cmd \<in># filter_mset is_collect P" unfolding size_eq_0_iff_empty by (meson multiset_nonemptyE)
  then have "cmd \<in># P" "is_collect cmd" by simp_all
  then obtain d f where f: "CollectCmd d f \<in># P" by (cases cmd) auto
  obtain b where b: "coll f b" "named_batch b" using assms(4) by blast
  obtain a' c where u: "App_Update E (DataMsg b) a = Inr (a', c)" using data_total [OF ok assms(2) b(2)] by blast
  have "tea_step E coll (a, P) (a', start_cmd c (P - {#CollectCmd d f#}))" by (rule deliver [OF assms(3) f batch [of coll f b, OF b(1)] u])
  with data_keep [OF ok u] show ?thesis by (auto split: if_splits)
qed

text \<open>
  C9: in every interleaving of user input and command results that the application survives, exactly one
  collection and exactly one draw tick are pending at any time - so the collectors are never run by two
  goroutines at once, and neither loop dies out - and until the user quits, the pending collection can
  always complete, is counted, and takes the application out of its loading state.
\<close>

theorem tui_keeps_refreshing:
  assumes "env_laws E" and "\<And>f. \<exists>b. coll f b \<and> named_batch b" and "New_app E cfg demo = Inr a0"
    and "tea_reach E coll (a0, mset (Init a0)) (a, P)"
  shows "size (filter_mset is_collect P) = 1 \<and> size (filter_mset is_tick P) = 1 \<and>
     (Quit \<notin># P \<longrightarrow> (\<exists>a' P'. tea_step E coll (a, P) (a', P') \<and> a_batchCount a' = a_batchCount a + 1 \<and> a_state a' \<noteq> StateLoading))"
proof -
  have "armed E (a, P)" using tea_reach_inv [where I = "armed E", OF assms(4) armed_start [OF assms(1,3)] armed_step] .
  moreover have "sort_laws E" using assms(1) by (simp add: env_laws_def)
  ultimately show ?thesis using armed_collects [of E a P coll] assms(2) unfolding armed_def by auto
qed

theorem tui_keeps_refreshing_witness:
  "\<exists>a0 a P. New_app plain_env Default_config True = Inr a0 \<and> tea_reach plain_env (\<lambda>f b. b = empty_batch 0) (a0, mset (Init a0)) (a, P) \<and>
     Quit \<notin># P \<and> size (filter_mset is_collect P) = 1 \<and>
     (\<exists>a' P'. tea_step plain_env (\<lambda>f b. b = empty_batch 0) (a, P) (a', P') \<and> a_batchCount a' = a_batchCount a + 1)"
proof -
  let ?coll = "\<lambda>f b. b = empty_batch 0"
  obtain a0 where a0: "New_app plain_env Default_config True = Inr a0" using New_app_ok plain_env_laws unfolding env_laws_def by blast
  have named: "\<And>f. \<exists>b. ?coll f b \<and> named_batch b" by (simp add: named_batch_def empty_batch_def)
  have reach: "tea_reach plain_env ?coll (a0, mset (Init a0)) (a0, mset (Init a0))" by (rule tea_reach.refl)
  have q: "Quit \<notin># mset (Init a0)" by (simp add: Init_def)
  note t = tui_keeps_refreshing [OF plain_env_laws named a0 reach]
  show ?thesis using a0 reach q t by blast
qed

section \<open>The palette state\<close>

text \<open>
  Opening the command palette sets the application state, and closing it does not restore the state.
\<close>

definition palette_stuck :: "('vp, 'ti) App \<Rightarrow> bool" where
  "palette_stuck a \<longleftrightarrow> (if mo_visible (a_modal a) then a_state a = StateHelp \<and> a_prevState a = StateCommandPalette else a_state a = StateCommandPalette)"

lemma palette_stuck_key:
  assumes "app_ok E a" and "palette_stuck a" and "handleKey E k a = Inr (a', c)"
  shows "palette_stuck a'"
proof (cases rule: handleKey_cases [of a E k])
  case palette
  with to_palette_ok [OF assms(1), of "KeyMsg k"] assms(2,3) show ?thesis by (auto simp: palette_stuck_def)
next
  case theme
  with theme_key [OF assms(1)] assms(2,3) show ?thesis by (auto simp: palette_stuck_def)
next
  case nextTab
  with tab_keys(1) [OF assms(1)] assms(2,3) show ?thesis by (auto simp: palette_stuck_def)
next
  case prevTab
  with tab_keys(2) [OF assms(1)] assms(2,3) show ?thesis by (auto simp: palette_stuck_def)
next
  case digit
  from assms(2) assms(3) [unfolded digit(4)] digit(2) show ?thesis by (auto simp: palette_stuck_def dest!: blurAll_frame on_active_frame split: if_splits)
next
  case view
  with to_view_keep [OF assms(1)] assms(2,3) show ?thesis by (auto simp: palette_stuck_def)
qed (use assms(2,3) in \<open>auto simp: palette_stuck_def ShowHelp_def Hide_modal_def split: if_splits\<close>)

lemma palette_stuck_step:
  assumes "armed E s \<and> palette_stuck (fst s)" and "tea_step E coll s t"
  shows "armed E t \<and> palette_stuck (fst t)"
proof -
  have upd: "palette_stuck a'" if a: "app_ok E a" "palette_stuck a" and u: "App_Update E m a = Inr (a', c)"
    and m: "user_input m \<or> m = RenderTickMsg \<or> (\<exists>b. m = DataMsg b) \<or> (\<exists>n. m = ThemeChangedMsg n)" for a a' :: "('a, 'b) App" and m c
  proof (cases m)
    case (WindowSizeMsg w h)
    with resize_ok [OF a(1), of w h] u a(2) show ?thesis by (auto simp: palette_stuck_def)
  next
    case (DataMsg b)
    with data_keep [OF a(1), of b a' c] u a(2) show ?thesis by (auto simp: palette_stuck_def split: if_splits)
  next
    case (ThemeChangedMsg n)
    with applyTheme_ok [OF a(1), of n] u a(2) show ?thesis by (auto simp: App_Update_def palette_stuck_def)
  next
    case (KeyMsg k)
    with palette_stuck_key [OF a] u show ?thesis by (auto simp: App_Update_def)
  next
    case (OtherMsg n)
    have "a_state a' = a_state a \<and> a_prevState a' = a_prevState a \<and> a_modal a' = a_modal a"
    proof (cases "pa_visible (a_palette a)")
      case True
      with to_palette_ok [OF a(1), of m] u OtherMsg show ?thesis by (auto simp: App_Update_def)
    next
      case False
      with to_view_keep [OF a(1), of m a' c] u OtherMsg show ?thesis by (simp add: App_Update_def)
    qed
    with a(2) show ?thesis by (simp add: palette_stuck_def)
  qed (use a u m in \<open>auto simp: App_Update_def\<close>)
  from assms(2) have "palette_stuck (fst t)"
  proof cases
    case (input P m a a' c)
    with assms(1) upd [of a m a' c] show ?thesis by (simp add: armed_def)
  next
    case (deliver P cmd m a a' c)
    have "user_input m \<or> m = RenderTickMsg \<or> (\<exists>b. m = DataMsg b) \<or> (\<exists>n. m = ThemeChangedMsg n)"
      using deliver(5,4) assms(1) deliver(1) by (cases rule: delivers.cases) (auto simp: armed_def)
    with deliver assms(1) upd [of a m a' c] show ?thesis by (simp add: armed_def)
  qed
  then show ?thesis using armed_step assms by blast
qed

text \<open>
  C10: once the user has opened the command palette, the application never returns to its dashboard or detail
  state: whatever is typed, collected or delivered afterwards, closing the palette included, the state stays
  the palette's (or the help's above it), so the enter key no longer opens the detail page of a container.
\<close>

theorem palette_never_left:
  assumes "env_laws E" and "New_app E cfg demo = Inr a0" and "tea_reach E coll (a0, mset (Init a0)) (a, P)"
    and "\<not> pa_visible (a_palette a)" and "\<not> mo_visible (a_modal a)" and "App_Update E (KeyMsg '':'') a = Inr (a1, c)" and "Quit \<notin># P"
    and "tea_reach E coll (a1, start_cmd c P) (a2, P2)"
  shows "a_state a2 \<in> {StateCommandPalette, StateHelp}"
proof -
  have armed: "armed E (a, P)" using tea_reach_inv [where I = "armed E", OF assms(3) armed_start [OF assms(1,2)] armed_step] .
  have "tea_step E coll (a, P) (a1, start_cmd c P)" by (rule input [OF assms(7) _ assms(6)]) simp
  then have "armed E (a1, start_cmd c P)" by (rule armed_step [OF armed])
  moreover have "palette_stuck a1" using assms(4,5,6) by (auto simp: App_Update_def handleKey_def palette_stuck_def)
  ultimately have I: "armed E (a2, P2) \<and> palette_stuck (fst (a2, P2))"
    using tea_reach_inv [where I = "\<lambda>s. armed E s \<and> palette_stuck (fst s)", OF assms(8) _ palette_stuck_step] by simp
  then show ?thesis by (auto simp: palette_stuck_def split: if_splits)
qed

theorem palette_never_left_witness:
  "\<exists>a0 a1 a2 P2. New_app plain_env Default_config True = Inr a0 \<and> App_Update plain_env (KeyMsg '':'') a0 = Inr (a1, NoCmd) \<and>
     tea_reach plain_env (\<lambda>f b. b = empty_batch 0) (a1, mset (Init a0)) (a2, P2) \<and> \<not> pa_visible (a_palette a2) \<and> a_state a2 \<in> {StateCommandPalette, StateHelp}"
proof -
  let ?coll = "\<lambda>f b. b = empty_batch 0"
  obtain a0 where a0: "New_app plain_env Default_config True = Inr a0" "\<not> pa_visible (a_palette a0)" "\<not> mo_visible (a_modal a0)"
    using New_app_ok [of plain_env Default_config True] plain_env_laws unfolding env_laws_def by blast
  define a1 where "a1 = a0\<lparr>a_state := StateCommandPalette, a_palette := pa_Show (te_lower plain_env) (te_T plain_env) (a_palette a0)\<rparr>"
  define a2 where "a2 = a1\<lparr>a_palette := pa_Hide (te_T plain_env) (a_palette a1)\<rparr>"
  have q: "Quit \<notin># mset (Init a0)" by (simp add: Init_def)
  have u1: "App_Update plain_env (KeyMsg '':'') a0 = Inr (a1, NoCmd)" using a0(2,3) by (simp add: App_Update_def handleKey_def a1_def)
  have u2: "App_Update plain_env (KeyMsg ''esc'') a1 = Inr (a2, NoCmd)"
    by (simp add: App_Update_def handleKey_def a1_def a2_def pa_Show_ok to_palette_def pa_Update_def)
  have "tea_step plain_env ?coll (a1, mset (Init a0)) (a2, start_cmd NoCmd (mset (Init a0)))" by (rule input [OF q _ u2]) simp
  then have r: "tea_reach plain_env ?coll (a1, start_cmd NoCmd (mset (Init a0))) (a2, mset (Init a0))"
    using tea_reach.step [OF tea_reach.refl] by (fastforce simp: start_cmd_def)
  from palette_never_left [OF plain_env_laws a0(1) tea_reach.refl a0(2,3) u1 q r] show ?thesis
    using a0(1) u1 r by (auto simp: start_cmd_def a2_def)
qed

end
