(* ===== verification/TuiKeys.thy ===== *)
theory TuiKeys
  imports AppRuns
begin

text \<open>
  What the key maps of \<^verbatim>\<open>KeyMaps\<close> say of the program. The table widget dispatches on its map; the
  application's \<^verbatim>\<open>handleKey\<close> spells its keys out in a switch of its own (internal/tui/app/app.go), and the
  theorem shows that each of the seven bindings of the global map has the effect its help text names, and
  that all other keys reach the active view.
\<close>

section \<open>The table\<close>

text \<open>A focused table reacts to eight bindings; no key has two of them, so the order of the switch is immaterial.\<close>

lemma table_keys_dispatch:
  assumes "t_focused m"
  shows "Matches k (tk_Up Table_keys) \<Longrightarrow> Table_Update k m = Inr (moveUp 1 m)"
    "Matches k (tk_Down Table_keys) \<Longrightarrow> Table_Update k m = Inr (moveDown 1 m)"
    "Matches k (tk_PageUp Table_keys) \<Longrightarrow> Table_Update k m = Inr (moveUp (bodyH m) m)"
    "Matches k (tk_PageDown Table_keys) \<Longrightarrow> Table_Update k m = Inr (moveDown (bodyH m) m)"
    "Matches k (tk_Top Table_keys) \<Longrightarrow> Table_Update k m = Inr (m\<lparr>t_cursor := 0, t_offset := 0\<rparr>)"
    "Matches k (tk_Bottom Table_keys) \<Longrightarrow> Table_Update k m = Inr (scrollToCursor (m\<lparr>t_cursor := max 0 (int (length (t_visible m)) - 1)\<rparr>))"
    "Matches k (tk_SortNext Table_keys) \<Longrightarrow> Table_Update k m = cycleSort True m"
    "Matches k (tk_SortPrev Table_keys) \<Longrightarrow> Table_Update k m = cycleSort False m"
  using assms by (auto simp: Table_Update_keys)

lemma table_keys_ignored:
  assumes "Matches k (tk_Select Table_keys) \<or> Matches k (tk_Search Table_keys) \<or> Matches k (tk_CopyRow Table_keys) \<or> \<not> list_ex (Matches k) table_bindings"
  shows "Table_Update k m = Inr m"
  using assms by (elim disjE) (auto simp: Table_Update_keys table_bindings_def)

section \<open>The application\<close>

text \<open>The tab, theme and digit keys, over the key chain: which tab or theme results, and that the shown tab has the focus.\<close>

lemma app_ok_focus: "app_ok E a \<Longrightarrow> focus_ok a"
  by (simp add: app_ok_def)

lemma tab_key_steps:
  assumes "app_ok E a" and "\<not> pa_visible (a_palette a)" and "\<not> mo_visible (a_modal a)"
  shows "Matches k (gk_NextTab Global_keys) \<Longrightarrow>
      \<exists>a'. handleKey E k a = Inr (a', NoCmd) \<and> tb_active (a_tabs a') = (tb_active (a_tabs a) + 1) mod 9 \<and> focus_ok a' \<and> a_state a' = a_state a"
    "Matches k (gk_PrevTab Global_keys) \<Longrightarrow>
      \<exists>a'. handleKey E k a = Inr (a', NoCmd) \<and> tb_active (a_tabs a') = (tb_active (a_tabs a) - 1) mod 9 \<and> focus_ok a' \<and> a_state a' = a_state a"
    "i < 9 \<Longrightarrow> k = digit_keys ! i \<Longrightarrow> \<exists>a'. handleKey E k a = Inr (a', NoCmd) \<and> tb_active (a_tabs a') = int i \<and> focus_ok a'"
proof -
  have eqs: "handleKey E k a = go_bind (Next_tab (a_tabs a)) (\<lambda>t. go_bind (show_tab E (a\<lparr>a_tabs := t\<rparr>)) (\<lambda>a1. Inr (a1, NoCmd)))"
    if "Matches k (gk_NextTab Global_keys)" using that assms(2,3) by (auto simp: handleKey_def)
  show "\<exists>a'. handleKey E k a = Inr (a', NoCmd) \<and> tb_active (a_tabs a') = (tb_active (a_tabs a) + 1) mod 9 \<and> focus_ok a' \<and> a_state a' = a_state a"
    if "Matches k (gk_NextTab Global_keys)"
    unfolding eqs [OF that] using tab_keys(1) [OF assms(1)] app_ok_focus by fastforce
  have eqs: "handleKey E k a = go_bind (Prev_tab (a_tabs a)) (\<lambda>t. go_bind (show_tab E (a\<lparr>a_tabs := t\<rparr>)) (\<lambda>a1. Inr (a1, NoCmd)))"
    if "Matches k (gk_PrevTab Global_keys)" using that assms(2,3) by (auto simp: handleKey_def)
  show "\<exists>a'. handleKey E k a = Inr (a', NoCmd) \<and> tb_active (a_tabs a') = (tb_active (a_tabs a) - 1) mod 9 \<and> focus_ok a' \<and> a_state a' = a_state a"
    if "Matches k (gk_PrevTab Global_keys)"
    unfolding eqs [OF that] using tab_keys(2) [OF assms(1)] app_ok_focus by fastforce
  show "\<exists>a'. handleKey E k a = Inr (a', NoCmd) \<and> tb_active (a_tabs a') = int i \<and> focus_ok a'" if i: "i < 9" "k = digit_keys ! i"
  proof -
    have "i \<in> {0, 1, 2, 3, 4, 5, 6, 7, 8}" using i(1) by auto
    then have k: "k \<in> set digit_keys" "int (of_char (hd k)) - 49 = int i" using i(2) by (auto simp: digit_keys_def)
    moreover have "k \<notin> {''q'', ''ctrl+c'', ''?'', '':'', ''esc'', ''T'', ''tab'', '']'', ''shift+tab'', ''[''}" using k(1) by (auto simp: digit_keys_def)
    ultimately have "handleKey E k a = go_bind (blurAll E a) (\<lambda>a1. go_bind (on_active E VFocus (a1\<lparr>a_tabs := SetActive (int i) (a_tabs a1)\<rparr>)) (\<lambda>a2. Inr (a2, NoCmd)))"
      using assms(2,3) i(1) app_okD(7) [OF assms(1)] by (simp add: handleKey_def Let_def)
    with jump_tab_ok [OF app_okD(1) [OF assms(1)], of "int i"] i(1) app_ok_focus show ?thesis by auto
  qed
qed

lemma theme_key_step:
  assumes "app_ok E a" and "\<not> pa_visible (a_palette a)" and "\<not> mo_visible (a_modal a)" and "Matches k (gk_ThemeCycle Global_keys)"
  shows "\<exists>a'. handleKey E k a = Inr (a', NoCmd) \<and> a_themeIdx a' = (a_themeIdx a + 1) mod 6 \<and> a_theme a' = Get (Names ! nat (a_themeIdx a')) \<and> a_state a' = a_state a"
proof -
  have "handleKey E k a = go_bind (go_rem (a_themeIdx a + 1) 6) (\<lambda>i. go_bind (go_index Names i) (\<lambda>name.
      go_bind (applyTheme E name (a\<lparr>a_themeIdx := i\<rparr>)) (\<lambda>a1. Inr (a1, NoCmd))))"
    using assms(2-4) by (simp add: handleKey_def)
  with theme_key [OF assms(1)] show ?thesis by fastforce
qed

text \<open>Quit, help, palette and back, and the keys that no switch case names.\<close>

lemma overlay_key_steps:
  assumes "\<not> pa_visible (a_palette a)" and "\<not> mo_visible (a_modal a)"
  shows "Matches k (gk_Quit Global_keys) \<Longrightarrow> handleKey E k a = Inr (a, Quit)"
    "Matches k (gk_Help Global_keys) \<Longrightarrow>
       handleKey E k a = Inr (a\<lparr>a_prevState := a_state a, a_state := StateHelp, a_modal := ShowHelp helpContent (a_modal a)\<rparr>, NoCmd)"
    "Matches k (gk_CommandPalette Global_keys) \<Longrightarrow>
       handleKey E k a = Inr (a\<lparr>a_state := StateCommandPalette, a_palette := pa_Show (te_lower E) (te_T E) (a_palette a)\<rparr>, NoCmd)"
    "Matches k (gk_Back Global_keys) \<Longrightarrow>
       \<exists>a'. handleKey E k a = Inr (a', NoCmd) \<and> a_state a' = (if a_state a \<in> {StateDetail, StateSearch} then StateDashboard else a_state a) \<and>
          a_tabViews a' = a_tabViews a \<and> a_detailPg a' = a_detailPg a"
  using assms by (auto simp: handleKey_def)

lemma other_key_step:
  assumes "\<not> pa_visible (a_palette a)" and "\<not> mo_visible (a_modal a)"
    and "\<not> list_ex (Matches k) global_bindings \<and> k \<notin> set digit_keys \<and> k \<noteq> ''enter''"
  shows "handleKey E k a = to_view E (KeyMsg k) a"
  using assms by (simp add: handleKey_def global_bindings_def)

text \<open>
  C15: The key maps are what the program reacts to. A focused table moves, pages, jumps and sorts on the eight
  bindings of its map, and ignores the select, search and copy bindings and every key outside the map. With
  neither the palette nor the help overlay open, the application quits, opens help and opens the palette
  on those bindings of the global map; the next and previous tab bindings show the neighbouring tab, around the
  ends, and give it alone the focus; the theme binding applies the next of the six themes; the back binding
  returns from the detail page and touches no view. A digit shows the tab of that number. Every other key but
  Enter goes to the active view.
\<close>

theorem keys_dispatch:
  assumes "app_ok E a" and "\<not> pa_visible (a_palette a)" and "\<not> mo_visible (a_modal a)" and "t_focused m"
  shows "(Matches k (tk_Up Table_keys) \<longrightarrow> Table_Update k m = Inr (moveUp 1 m)) \<and>
    (Matches k (tk_Down Table_keys) \<longrightarrow> Table_Update k m = Inr (moveDown 1 m)) \<and>
    (Matches k (tk_PageUp Table_keys) \<longrightarrow> Table_Update k m = Inr (moveUp (bodyH m) m)) \<and>
    (Matches k (tk_PageDown Table_keys) \<longrightarrow> Table_Update k m = Inr (moveDown (bodyH m) m)) \<and>
    (Matches k (tk_Top Table_keys) \<longrightarrow> Table_Update k m = Inr (m\<lparr>t_cursor := 0, t_offset := 0\<rparr>)) \<and>
    (Matches k (tk_Bottom Table_keys) \<longrightarrow> Table_Update k m = Inr (scrollToCursor (m\<lparr>t_cursor := max 0 (int (length (t_visible m)) - 1)\<rparr>))) \<and>
    (Matches k (tk_SortNext Table_keys) \<longrightarrow> Table_Update k m = cycleSort True m) \<and>
    (Matches k (tk_SortPrev Table_keys) \<longrightarrow> Table_Update k m = cycleSort False m) \<and>
    (Matches k (tk_Select Table_keys) \<or> Matches k (tk_Search Table_keys) \<or> Matches k (tk_CopyRow Table_keys) \<or> \<not> list_ex (Matches k) table_bindings
       \<longrightarrow> Table_Update k m = Inr m) \<and>
    (Matches k (gk_Quit Global_keys) \<longrightarrow> handleKey E k a = Inr (a, Quit)) \<and>
    (Matches k (gk_Help Global_keys) \<longrightarrow>
       handleKey E k a = Inr (a\<lparr>a_prevState := a_state a, a_state := StateHelp, a_modal := ShowHelp helpContent (a_modal a)\<rparr>, NoCmd)) \<and>
    (Matches k (gk_CommandPalette Global_keys) \<longrightarrow>
       handleKey E k a = Inr (a\<lparr>a_state := StateCommandPalette, a_palette := pa_Show (te_lower E) (te_T E) (a_palette a)\<rparr>, NoCmd)) \<and>
    (Matches k (gk_NextTab Global_keys) \<longrightarrow>
       (\<exists>a'. handleKey E k a = Inr (a', NoCmd) \<and> tb_active (a_tabs a') = (tb_active (a_tabs a) + 1) mod 9 \<and> focus_ok a' \<and> a_state a' = a_state a)) \<and>
    (Matches k (gk_PrevTab Global_keys) \<longrightarrow>
       (\<exists>a'. handleKey E k a = Inr (a', NoCmd) \<and> tb_active (a_tabs a') = (tb_active (a_tabs a) - 1) mod 9 \<and> focus_ok a' \<and> a_state a' = a_state a)) \<and>
    (Matches k (gk_ThemeCycle Global_keys) \<longrightarrow>
       (\<exists>a'. handleKey E k a = Inr (a', NoCmd) \<and> a_themeIdx a' = (a_themeIdx a + 1) mod 6 \<and> a_theme a' = Get (Names ! nat (a_themeIdx a')) \<and> a_state a' = a_state a)) \<and>
    (Matches k (gk_Back Global_keys) \<longrightarrow>
       (\<exists>a'. handleKey E k a = Inr (a', NoCmd) \<and> a_state a' = (if a_state a \<in> {StateDetail, StateSearch} then StateDashboard else a_state a) \<and>
          a_tabViews a' = a_tabViews a \<and> a_detailPg a' = a_detailPg a)) \<and>
    (\<forall>i < 9. k = digit_keys ! i \<longrightarrow> (\<exists>a'. handleKey E k a = Inr (a', NoCmd) \<and> tb_active (a_tabs a') = int i \<and> focus_ok a')) \<and>
    (\<not> list_ex (Matches k) global_bindings \<and> k \<notin> set digit_keys \<and> k \<noteq> ''enter'' \<longrightarrow> handleKey E k a = to_view E (KeyMsg k) a)"
  by (intro conjI impI allI table_keys_dispatch [OF assms(4)] table_keys_ignored tab_key_steps [OF assms(1-3)] overlay_key_steps [OF assms(2,3)]
      theme_key_step [OF assms(1-3)] other_key_step [OF assms(2,3)]) (assumption | simp)+

theorem keys_dispatch_witness:
  "\<exists>a a1 a2 a3. New_app plain_env Default_config True = Inr a \<and> handleKey plain_env ''ctrl+c'' a = Inr (a, Quit) \<and>
     handleKey plain_env ''['' a = Inr (a1, NoCmd) \<and> tb_active (a_tabs a1) = 8 \<and> handleKey plain_env ''tab'' a = Inr (a2, NoCmd) \<and> tb_active (a_tabs a2) = 1 \<and>
     handleKey plain_env ''T'' a = Inr (a3, NoCmd) \<and> a_themeIdx a3 = (a_themeIdx a + 1) mod 6 \<and>
     Table_Update ''j'' (Focus_table (New_table [sample_column])) = Inr (moveDown 1 (Focus_table (New_table [sample_column])))"
proof -
  obtain a where a: "New_app plain_env Default_config True = Inr a" "app_ok plain_env a" "\<not> pa_visible (a_palette a)" "\<not> mo_visible (a_modal a)"
      "tb_active (a_tabs a) = 0"
    using New_app_ok [of plain_env Default_config True] plain_env_laws by (auto simp: env_laws_def)
  have m: "t_focused (Focus_table (New_table [sample_column]))" by (simp add: Focus_table_def)
  note d = keys_dispatch [OF a(2-4) m]
  have "handleKey plain_env ''ctrl+c'' a = Inr (a, Quit)" using d [of "''ctrl+c''"] by simp
  moreover have "\<exists>a'. handleKey plain_env ''['' a = Inr (a', NoCmd) \<and> tb_active (a_tabs a') = 8" using d [of "''[''"] a(5) by auto
  moreover have "\<exists>a'. handleKey plain_env ''tab'' a = Inr (a', NoCmd) \<and> tb_active (a_tabs a') = 1" using d [of "''tab''"] a(5) by auto
  moreover have "\<exists>a'. handleKey plain_env ''T'' a = Inr (a', NoCmd) \<and> a_themeIdx a' = (a_themeIdx a + 1) mod 6" using d [of "''T''"] by auto
  moreover have "Table_Update ''j'' (Focus_table (New_table [sample_column])) = Inr (moveDown 1 (Focus_table (New_table [sample_column])))"
    using d [of "''j''"] by simp
  ultimately show ?thesis using a(1) by blast
qed

end
