(* ===== verification/TuiCollect.thy ===== *)
theory TuiCollect
  imports TuiChrome DetailView Observer GraphQueries
begin

text \<open>
  Collection for the terminal UI (internal/tui/app/collect.go): one cycle polls the collectors, filters
  their samples, records latencies, feeds the process graph, groups the buffered security events, and
  builds the batch that the views receive. Optional collectors are \<open>option\<close> values.
\<close>

section \<open>The security writer and filters\<close>

definition Sec_Write :: "EventEnvelope \<Rightarrow> EventEnvelope list \<Rightarrow> EventEnvelope list" where
  "Sec_Write ev w = w @ [ev]"

definition Sec_Drain :: "EventEnvelope list \<Rightarrow> EventEnvelope list \<times> EventEnvelope list" where
  "Sec_Drain w = (w, [])"

definition DemoContainers :: "string list" where
  "DemoContainers = [''docker:nginx'', ''docker:postgres'', ''docker:redis'', ''cri:api-server'', ''cri:etcd'',
     ''systemd:init.scope'', ''cgroup:dockerd'', ''host:kubelet'']"

definition isContainer_tui :: "string \<Rightarrow> bool" where
  "isContainer_tui name \<longleftrightarrow> HasPrefix name ''docker:'' \<or> HasPrefix name ''cri:'' \<or> HasPrefix name ''k8s:'' \<or> HasPrefix name ''cgroup:'' \<or>
     count_list name CHR ''/'' = 2"

text \<open>The test at the head of every loop: an item that \<^verbatim>\<open>--containers-only\<close> drops.\<close>

definition skipped :: "CollectFilter \<Rightarrow> string \<Rightarrow> bool" where
  "skipped f name \<longleftrightarrow> fl_ContainersOnly f \<and> \<not> isContainer_tui name"

definition filter_samples :: "CollectFilter \<Rightarrow> ('a \<Rightarrow> string) \<Rightarrow> 'a list \<Rightarrow> 'a list go" where
  "filter_samples f name xs =
     (let out = filter (\<lambda>s. \<not> skipped f (name s)) xs
      in if 0 < fl_TopN f \<and> fl_TopN f < int (length out) then go_slice out 0 (fl_TopN f) else Inr out)"

definition filterCPU :: "CollectFilter \<Rightarrow> CpuSample list \<Rightarrow> CpuSample list go" where
  "filterCPU f = filter_samples f cpu_ContainerName"

definition filterMem :: "CollectFilter \<Rightarrow> MemSample list \<Rightarrow> MemSample list go" where
  "filterMem f = filter_samples f mem_ContainerName"

definition filterIO :: "CollectFilter \<Rightarrow> IoSample list \<Rightarrow> IoSample list go" where
  "filterIO f = filter_samples f io_ContainerName"

definition filterNet :: "CollectFilter \<Rightarrow> NetSummary list \<Rightarrow> NetSummary list go" where
  "filterNet f = filter_samples f ns_ContainerName"

definition filterSys :: "CollectFilter \<Rightarrow> SyscallSummary list \<Rightarrow> SyscallSummary list go" where
  "filterSys f = filter_samples f ss_ContainerName"

section \<open>State\<close>

text \<open>The collectors, the shared writer and graph, and the package-level aggregator and history.\<close>

record 'h CollectorSet =
  cs_CPU :: "CpuCollector option"
  cs_Mem :: "MemoryCollector option"
  cs_IO :: "IoCollector option"
  cs_Net :: bool
  cs_Syscall :: bool
  cs_Lineage :: bool
  cs_Exec :: bool
  cs_DNS :: bool
  cs_PrivEsc :: bool
  cs_Escape :: bool
  cs_SecWriter :: "EventEnvelope list option"
  cs_Graph :: "ProcessGraph option"
  cs_latencyAgg :: "'h LatencyAggregator"
  cs_tsBuffer :: "DataBatch buffer"

text \<open>The package-level history and the set that \<^verbatim>\<open>main\<close> builds when every collector loaded.\<close>

definition new_tsBuffer :: "DataBatch buffer go" where
  "new_tsBuffer = NewBuffer (empty_batch zero_time) 300"

definition full_collectors :: "ProcessGraph \<Rightarrow> DataBatch buffer \<Rightarrow> 'h CollectorSet" where
  "full_collectors g buf = \<lparr>cs_CPU = Some NewCpuCollector, cs_Mem = Some NewMemoryCollector, cs_IO = Some NewIoCollector, cs_Net = True, cs_Syscall = True,
     cs_Lineage = True, cs_Exec = True, cs_DNS = True, cs_PrivEsc = True, cs_Escape = True, cs_SecWriter = Some [], cs_Graph = Some g,
     cs_latencyAgg = NewLatencyAggregator, cs_tsBuffer = buf\<rparr>"

text \<open>
  What the kernel offers in one cycle; the clock of the slow-syscall loop is read once per event. The last
  field holds the out-of-memory records that the memory collector's reader goroutine read since the previous
  cycle: it appends to a queue that only the drain of the cycle touches, so it may as well run before the cycle.
\<close>

record collect_input =
  cl_world :: poll_world
  cl_cpu :: "(u64 \<times> CpuStats) list"
  cl_mem :: "(u64 \<times> PfStats) list"
  cl_io :: "(u64 \<times> IoStats) list"
  cl_files :: "bytes list"
  cl_net :: "(ConnKey \<times> ConnStats) list"
  cl_tcp :: "bytes list"
  cl_sys :: "(SyscallKey \<times> SyscallStats) list"
  cl_slow :: "bytes list"
  cl_slowAt :: "nat \<Rightarrow> time"
  cl_forks :: "bytes list option"
  cl_exec :: "bytes list"
  cl_dns :: "bytes list"
  cl_privesc :: "bytes list"
  cl_escape :: "bytes list"
  cl_snapAt :: time
  cl_oom :: "(poll_world \<times> bytes) list"

record 'h collect_env =
  ce_H :: "'h hist_ops"
  ce_sorts :: tick_sorts
  ce_roots :: "(NodeKey, SnapshotNode) gomap \<Rightarrow> NodeKey list \<Rightarrow> NodeKey list"
  ce_lineage :: "lineage_api option"
  ce_boot :: u64

type_synonym 'h cycle = "'h CollectorSet \<times> DataBatch"

section \<open>Events of a batch\<close>

definition utf8 :: "nat list \<Rightarrow> string" where
  "utf8 bs = map char_of bs"

fun show_hex :: "nat \<Rightarrow> string" where
  "show_hex n = (if n < 16 then [hex_digit n] else show_hex (n div 16) @ [hex_digit (n mod 16)])"

declare show_hex.simps [simp del]

definition add_events :: "TuiEvent list \<Rightarrow> 'h cycle \<Rightarrow> 'h cycle" where
  "add_events es c = (fst c, (snd c)\<lparr>db_Events := db_Events (snd c) @ es\<rparr>)"

definition oom_tui_event :: "OOMEvent \<Rightarrow> TuiEvent" where
  "oom_tui_event o' =
     \<lparr>e_At = oom_Timestamp o', e_Kind = EventKindOOM, e_Container = oom_ContainerName o',
      e_Message = utf8 [240, 159, 148, 180] @ '' OOM KILL '' @ oom_ContainerName o' @ '' pid='' @ show_nat (unat (oom_VictimPID o')) @
        '' comm='' @ oom_Comm o' @ '' rss='' @ show_nat (unat (oom_Pages o' * 4)) @ ''KB'',
      e_Envelope = Some (zero_event\<lparr>ev_Timestamp := oom_Timestamp o', ev_CgroupID := oom_CgroupID o', ev_ContainerName := oom_ContainerName o',
        ev_PID := oom_VictimPID o', ev_Process := oom_Comm o', ev_EventType := ''oom_kill'',
        ev_Metadata := [(''rss_kb'', AnyU64 (oom_Pages o' * 4)), (''limit_bytes'', AnyU64 (oom_MemoryLimitBytes o')),
          (''oom_score_adj'', AnyI32 (word_of_int (oom_OOMScoreAdj o')))]\<rparr>),
      e_Count = 0\<rparr>"

definition file_tui_event :: "FileEvent \<Rightarrow> TuiEvent" where
  "file_tui_event e =
     \<lparr>e_At = file_Timestamp e, e_Kind = EventKindInfo, e_Container = file_ContainerName e,
      e_Message = ''[FILE] '' @ file_ContainerName e @ ''  pid='' @ show_nat (unat (file_PID e)) @ ''  '' @ file_Filename e @
        ''  flags=0x'' @ show_hex (unat (file_Flags e)),
      e_Envelope = None, e_Count = 0\<rparr>"

definition tcp_tui_event :: "TCPEvent \<Rightarrow> TuiEvent" where
  "tcp_tui_event t =
     \<lparr>e_At = te_Timestamp t, e_Kind = EventKindTCP, e_Container = te_ContainerName t,
      e_Message = ''[TCP] '' @ te_ContainerName t @ ''  '' @ te_Saddr t @ '':'' @ show_nat (unat (te_Sport t)) @ utf8 [226, 134, 146] @
        te_Daddr t @ '':'' @ show_nat (unat (te_Dport t)) @ ''  '' @ te_OldState t @ utf8 [226, 134, 146] @ te_NewState t,
      e_Envelope = None, e_Count = 0\<rparr>"

definition slow_tui_event :: "time \<Rightarrow> SlowSyscallSummary \<Rightarrow> TuiEvent" where
  "slow_tui_event now s =
     \<lparr>e_At = now, e_Kind = EventKindSlowSys, e_Container = sw_ContainerName s,
      e_Message = utf8 [226, 154, 160, 239, 184, 143] @ '' SLOW SYSCALL '' @ sw_ContainerName s @ '' pid='' @ show_nat (unat (sw_PID s)) @
        '' comm='' @ sw_Comm s @ '' sys_id='' @ show_nat (unat (sw_SyscallID s)) @ '' lat='' @ show_fixed 2 (sw_LatencyMs s) @ ''ms'',
      e_Envelope = None, e_Count = 0\<rparr>"

section \<open>The phases of a cycle\<close>

definition collect_cpu :: "CollectFilter \<Rightarrow> collect_input \<Rightarrow> 'h cycle \<Rightarrow> 'h cycle go" where
  "collect_cpu f i c = (case c of (s, b) \<Rightarrow> case cs_CPU s of
      None \<Rightarrow> Inr (s, b)
    | Some cc \<Rightarrow> (case Cpu_Collect (cl_world i) (cl_cpu i) cc of
        (cc', Inl _) \<Rightarrow> Inr (s\<lparr>cs_CPU := Some cc'\<rparr>, b)
      | (cc', Inr (samples, _)) \<Rightarrow> go_bind (filterCPU f samples) (\<lambda>out. Inr (s\<lparr>cs_CPU := Some cc'\<rparr>, b\<lparr>db_CPU := out\<rparr>))))"

definition collect_mem :: "CollectFilter \<Rightarrow> collect_input \<Rightarrow> 'h cycle \<Rightarrow> 'h cycle go" where
  "collect_mem f i c = (case c of (s, b) \<Rightarrow> case cs_Mem s of
      None \<Rightarrow> Inr (s, b)
    | Some mc \<Rightarrow>
        go_bind (case Memory_Collect (cl_world i) (cl_mem i) mc of
            (mc', Inl _) \<Rightarrow> Inr (mc', b)
          | (mc', Inr (samples, _)) \<Rightarrow> go_bind (filterMem f samples) (\<lambda>out. Inr (mc', b\<lparr>db_Mem := out\<rparr>))) (\<lambda>(mc1, b1).
        let (mc2, oomEvs) = ReadOOMEvents mc1
        in Inr (add_events (map oom_tui_event oomEvs) (s\<lparr>cs_Mem := Some mc2\<rparr>, b1))))"

definition record_io :: "'h hist_ops \<Rightarrow> 'h LatencyAggregator \<Rightarrow> IoSample \<Rightarrow> 'h LatencyAggregator" where
  "record_io H a s =
     (let a1 = (if 0 < io_ReadIOs s \<and> 0 < io_AvgReadLatencyMs s
                then RecordValues H (io_ContainerName s @ '':io_read'') (trunc_float (fmul (io_AvgReadLatencyMs s) 1000)) (sint (io_ReadIOs s)) a else a)
      in if 0 < io_WriteIOs s \<and> 0 < io_AvgWriteLatencyMs s
         then RecordValues H (io_ContainerName s @ '':io_write'') (trunc_float (fmul (io_AvgWriteLatencyMs s) 1000)) (sint (io_WriteIOs s)) a1 else a1)"

definition collect_io :: "'h hist_ops \<Rightarrow> CollectFilter \<Rightarrow> collect_input \<Rightarrow> 'h cycle \<Rightarrow> 'h cycle go" where
  "collect_io H f i c = (case c of (s, b) \<Rightarrow> case cs_IO s of
      None \<Rightarrow> Inr (s, b)
    | Some ic \<Rightarrow>
        go_bind (case Io_Collect (cl_world i) (cl_io i) ic of
            (ic', Inl _) \<Rightarrow> Inr (s\<lparr>cs_IO := Some ic'\<rparr>, b)
          | (ic', Inr (samples, _)) \<Rightarrow> go_bind (filterIO f samples) (\<lambda>out.
              Inr (s\<lparr>cs_IO := Some ic', cs_latencyAgg := foldl (record_io H) (cs_latencyAgg s) samples\<rparr>, b\<lparr>db_IO := out\<rparr>))) (\<lambda>c1.
        if fl_ShowFiles f
        then go_bind (ReadFileEvents (cl_world i) (cl_files i)) (\<lambda>fevs.
               Inr (add_events (map file_tui_event (filter (\<lambda>e. \<not> skipped f (file_ContainerName e)) fevs)) c1))
        else Inr c1))"

definition collect_net :: "tick_sorts \<Rightarrow> CollectFilter \<Rightarrow> collect_input \<Rightarrow> 'h cycle \<Rightarrow> 'h cycle go" where
  "collect_net S f i c = (case c of (s, b) \<Rightarrow>
     if \<not> cs_Net s then Inr (s, b)
     else go_bind (case CollectSummary (so_netmap S) (cl_world i) (cl_net i) of
              Inl _ \<Rightarrow> Inr b | Inr sm \<Rightarrow> go_bind (filterNet f sm) (\<lambda>out. Inr (b\<lparr>db_Net := out\<rparr>))) (\<lambda>b1.
          if fl_ShowTCP f
          then go_bind (ReadTCPEvents (cl_world i) (cl_tcp i)) (\<lambda>tevs.
                 Inr (add_events (map tcp_tui_event (filter (\<lambda>t. \<not> skipped f (te_ContainerName t)) tevs)) (s, b1)))
          else Inr (s, b1)))"

definition record_sys :: "'h hist_ops \<Rightarrow> 'h LatencyAggregator \<Rightarrow> SyscallSummary \<Rightarrow> 'h LatencyAggregator" where
  "record_sys H a s =
     (if 0 < ss_Count s \<and> 0 < ss_AvgLatencyMs s
      then RecordValues H (ss_ContainerName s @ '':sys_'' @ show_nat (unat (ss_SyscallID s))) (trunc_float (fmul (ss_AvgLatencyMs s) 1000)) (sint (ss_Count s)) a
      else a)"

definition slow_events :: "CollectFilter \<Rightarrow> (nat \<Rightarrow> time) \<Rightarrow> SlowSyscallSummary list \<Rightarrow> TuiEvent list" where
  "slow_events f clock sevs =
     (let shown = filter (\<lambda>s. \<not> skipped f (sw_ContainerName s)) sevs in map (\<lambda>(n, s). slow_tui_event (clock n) s) (enumerate 0 shown))"

definition collect_sys :: "'h hist_ops \<Rightarrow> tick_sorts \<Rightarrow> CollectFilter \<Rightarrow> collect_input \<Rightarrow> 'h cycle \<Rightarrow> 'h cycle go" where
  "collect_sys H S f i c = (case c of (s, b) \<Rightarrow>
     if \<not> cs_Syscall s then Inr (s, b)
     else go_bind (case CollectTop5PerContainer (so_sysmap S) (so_count S) (so_rank S) (cl_world i) (cl_sys i) of
              Inl _ \<Rightarrow> Inr (s, b)
            | Inr sm \<Rightarrow> go_bind (filterSys f sm) (\<lambda>out.
                Inr (s\<lparr>cs_latencyAgg := foldl (record_sys H) (cs_latencyAgg s) sm\<rparr>, b\<lparr>db_Sys := out\<rparr>))) (\<lambda>c1.
          if fl_ShowSlowSys f
          then go_bind (ReadSlowEvents (cl_world i) (cl_slow i)) (\<lambda>sevs. Inr (add_events (slow_events f (cl_slowAt i) sevs) c1))
          else Inr c1))"

text \<open>The security collectors hand each event to the shared writer while they drain their ring buffer.\<close>

definition written :: "EventEnvelope list \<Rightarrow> 'h CollectorSet \<Rightarrow> 'h CollectorSet" where
  "written evs s = s\<lparr>cs_SecWriter := map_option (\<lambda>w. foldl (\<lambda>w ev. Sec_Write ev w) w evs) (cs_SecWriter s)\<rparr>"

definition collect_lineage :: "'h collect_env \<Rightarrow> CollectFilter \<Rightarrow> collect_input \<Rightarrow> 'h CollectorSet \<Rightarrow> 'h CollectorSet go" where
  "collect_lineage V f i s =
     (if \<not> cs_Lineage s then Inr s
      else go_bind (ReadForkEvents (pw_resolve (cl_world i)) (ce_boot V) (cl_forks i)) (\<lambda>evs.
        let s1 = written evs s in
        Inr (s1\<lparr>cs_Graph := map_option (\<lambda>g. foldl (\<lambda>g ev. if skipped f (ev_ContainerName ev) then g else AddFork ev g) g evs) (cs_Graph s1)\<rparr>)))"

definition collect_exec :: "'h collect_env \<Rightarrow> CollectFilter \<Rightarrow> collect_input \<Rightarrow> 'h CollectorSet \<Rightarrow> 'h CollectorSet go" where
  "collect_exec V f i s =
     (if \<not> cs_Exec s then Inr s
      else go_bind (ReadExecEvents (pw_resolve (cl_world i)) None (ce_boot V) (cl_exec i)) (\<lambda>evs.
        let s1 = written evs s in
        Inr (s1\<lparr>cs_Graph := map_option (\<lambda>g. foldl (\<lambda>g ev. if skipped f (ev_ContainerName ev) then g else AddExec ev g) g evs) (cs_Graph s1)\<rparr>)))"

definition record_dns :: "'h hist_ops \<Rightarrow> 'h LatencyAggregator \<Rightarrow> EventEnvelope \<Rightarrow> 'h LatencyAggregator" where
  "record_dns H a ev = (case float_meta (ev_Metadata ev) ''latency_ms'' of
      None \<Rightarrow> a | Some lat \<Rightarrow> Record_latency H (ev_ContainerName ev @ '':dns'') (trunc_float (fmul lat 1000)) a)"

definition collect_dns :: "'h collect_env \<Rightarrow> collect_input \<Rightarrow> 'h CollectorSet \<Rightarrow> 'h CollectorSet go" where
  "collect_dns V i s =
     (if \<not> cs_DNS s then Inr s
      else go_bind (ReadDNSEvents (pw_resolve (cl_world i)) (ce_lineage V) (ce_boot V) (cl_dns i)) (\<lambda>evs.
        Inr ((written evs s)\<lparr>cs_latencyAgg := foldl (record_dns (ce_H V)) (cs_latencyAgg s) evs\<rparr>)))"

definition collect_privesc :: "'h collect_env \<Rightarrow> collect_input \<Rightarrow> 'h CollectorSet \<Rightarrow> 'h CollectorSet go" where
  "collect_privesc V i s =
     (if \<not> cs_PrivEsc s then Inr s
      else go_bind (ReadPrivEscEvents (pw_resolve (cl_world i)) (ce_lineage V) (ce_boot V) (cl_privesc i)) (\<lambda>evs. Inr (written evs s)))"

definition collect_escape :: "'h collect_env \<Rightarrow> collect_input \<Rightarrow> 'h CollectorSet \<Rightarrow> 'h CollectorSet go" where
  "collect_escape V i s =
     (if \<not> cs_Escape s then Inr s
      else go_bind (ReadEscapeEvents (so_flags (ce_sorts V)) (pw_resolve (cl_world i)) (ce_lineage V) (ce_boot V) (cl_escape i)) (\<lambda>evs. Inr (written evs s)))"

text \<open>Grouping: the map from keys to events, the keys in order of their first event, and the graph.\<close>

definition group_key :: "EventEnvelope \<Rightarrow> string" where
  "group_key ev = ev_ContainerName ev @ '':'' @ ev_EventType ev @ '':'' @ ev_Process ev"

definition noisy :: "EventEnvelope \<Rightarrow> bool" where
  "noisy ev \<longleftrightarrow> HasPrefix (ToLower (ev_Process ev)) ''runc''"

definition new_group :: "EventEnvelope \<Rightarrow> TuiEvent" where
  "new_group ev = \<lparr>e_At = ev_Timestamp ev, e_Kind = EventKindSecurity, e_Container = ev_ContainerName ev,
     e_Message = ''['' @ ev_EventType ev @ ''] '' @ ev_Process ev, e_Envelope = Some ev, e_Count = 1\<rparr>"

type_synonym grouping = "(string, TuiEvent) gomap \<times> string list \<times> ProcessGraph option"

definition group_event :: "CollectFilter \<Rightarrow> EventEnvelope \<Rightarrow> grouping \<Rightarrow> grouping go" where
  "group_event f ev st = (case st of (grouped, order, graph) \<Rightarrow>
     if skipped f (ev_ContainerName ev) \<or> noisy ev then Inr st
     else case map_of grouped (group_key ev) of
         Some e \<Rightarrow> Inr (AList.update (group_key ev) (e\<lparr>e_Count := e_Count e + 1, e_At := ev_Timestamp ev\<rparr>) grouped, order, graph)
       | None \<Rightarrow> go_bind (case graph of None \<Rightarrow> Inr None
                            | Some g \<Rightarrow> go_bind (CorrelateEvent (ev_CgroupID ev) (ev_PID ev) ev g) (\<lambda>g'. Inr (Some g'))) (\<lambda>graph'.
                   Inr (AList.update (group_key ev) (new_group ev) grouped, order @ [group_key ev], graph')))"

definition collect_security :: "CollectFilter \<Rightarrow> 'h cycle \<Rightarrow> 'h cycle go" where
  "collect_security f c = (case c of (s, b) \<Rightarrow> case cs_SecWriter s of
      None \<Rightarrow> Inr (s, b)
    | Some w \<Rightarrow> (case Sec_Drain w of (secEvents, w') \<Rightarrow>
        go_bind (go_fold (group_event f) secEvents ([], [], cs_Graph s)) (\<lambda>(grouped, order, graph).
          Inr (add_events (map (\<lambda>k. the (map_of grouped k)) order) (s\<lparr>cs_SecWriter := Some w', cs_Graph := graph\<rparr>, b)))))"

definition collect_finish :: "'h collect_env \<Rightarrow> time \<Rightarrow> 'h cycle \<Rightarrow> 'h cycle go" where
  "collect_finish V now c = (case c of (s, b) \<Rightarrow>
     go_bind (case cs_Graph s of None \<Rightarrow> Inr b
              | Some g \<Rightarrow> go_bind (Snapshot_graph (ce_roots V) now g) (\<lambda>sn. Inr (b\<lparr>db_Graph := Some sn\<rparr>))) (\<lambda>b1.
     let a = Tick (ce_H V) (cs_latencyAgg s); b2 = b1\<lparr>db_Percentiles := Snapshot_latency a\<rparr> in
     go_bind (Buffer_Push (cs_tsBuffer s) b2) (\<lambda>buf.
       Inr (s\<lparr>cs_latencyAgg := a, cs_tsBuffer := buf\<rparr>, b2))))"

definition collect_drains :: "'h collect_env \<Rightarrow> CollectFilter \<Rightarrow> collect_input \<Rightarrow> 'h CollectorSet \<Rightarrow> 'h CollectorSet go" where
  "collect_drains V f i s =
     go_bind (collect_lineage V f i s) (\<lambda>s1. go_bind (collect_exec V f i s1) (\<lambda>s2. go_bind (collect_dns V i s2) (\<lambda>s3.
     go_bind (collect_privesc V i s3) (collect_escape V i))))"

definition collect_samples :: "'h collect_env \<Rightarrow> CollectFilter \<Rightarrow> collect_input \<Rightarrow> 'h CollectorSet \<Rightarrow> 'h cycle go" where
  "collect_samples V f i s =
     go_bind (collect_cpu f i (s, empty_batch (pw_now (cl_world i)))) (\<lambda>c1. go_bind (collect_mem f i c1) (\<lambda>c2.
     go_bind (collect_io (ce_H V) f i c2) (\<lambda>c3. go_bind (collect_net (ce_sorts V) f i c3) (collect_sys (ce_H V) (ce_sorts V) f i))))"

definition background_oom :: "collect_input \<Rightarrow> 'h CollectorSet \<Rightarrow> 'h CollectorSet go" where
  "background_oom i s = (case cs_Mem s of
      None \<Rightarrow> Inr s
    | Some mc \<Rightarrow> go_bind (go_fold (\<lambda>(w, sample). oom_reader_step w sample) (cl_oom i) mc) (\<lambda>mc'. Inr (s\<lparr>cs_Mem := Some mc'\<rparr>)))"

definition collectReal :: "'h collect_env \<Rightarrow> CollectFilter \<Rightarrow> collect_input \<Rightarrow> 'h CollectorSet \<Rightarrow> 'h cycle go" where
  "collectReal V f i s0 =
     go_bind (collect_samples V f i s0) (\<lambda>(s1, b1).
     go_bind (collect_drains V f i s1) (\<lambda>s2.
     go_bind (collect_security f (s2, b1)) (collect_finish V (cl_snapAt i))))"

section \<open>Filters\<close>

lemma filter_samples_eq:
  "filter_samples f name xs = Inr (let out = filter (\<lambda>s. \<not> skipped f (name s)) xs in if 0 < fl_TopN f then take (nat (fl_TopN f)) out else out)"
  by (auto simp: filter_samples_def Let_def go_slice_ok)

definition shown :: "CollectFilter \<Rightarrow> string list \<Rightarrow> bool" where
  "shown f ns \<longleftrightarrow> list_all (\<lambda>n. \<not> skipped f n) ns \<and> (0 < fl_TopN f \<longrightarrow> int (length ns) \<le> fl_TopN f)"

lemma filter_samples_ok: "\<exists>out. filter_samples f name xs = Inr out \<and> set out \<subseteq> set xs \<and> shown f (map name out)"
  unfolding filter_samples_eq shown_def Let_def
  by (auto simp: list_all_iff dest: in_set_takeD)

lemma shown_Nil [simp]: "shown f []"
  by (simp add: shown_def)

definition batch_ok :: "CollectFilter \<Rightarrow> DataBatch \<Rightarrow> bool" where
  "batch_ok f b \<longleftrightarrow> named_batch b \<and> list_all (\<lambda>s. ns_ContainerName s \<noteq> []) (db_Net b) \<and> shown f (map cpu_ContainerName (db_CPU b)) \<and> shown f (map mem_ContainerName (db_Mem b)) \<and>
     shown f (map io_ContainerName (db_IO b)) \<and> shown f (map ns_ContainerName (db_Net b)) \<and> shown f (map ss_ContainerName (db_Sys b))"

lemma batch_ok_empty: "batch_ok f (empty_batch t)"
  by (simp add: batch_ok_def empty_batch_def named_batch_def)

lemma batch_ok_fields [simp]:
  "batch_ok f (b\<lparr>db_Events := es\<rparr>) = batch_ok f b" "batch_ok f (b\<lparr>db_Graph := g\<rparr>) = batch_ok f b" "batch_ok f (b\<lparr>db_Percentiles := p\<rparr>) = batch_ok f b"
  by (simp_all add: batch_ok_def named_batch_def)

section \<open>Samples\<close>

text \<open>The resolver's names are not empty: a consequence of how it labels a path (\<open>answered_named\<close>).\<close>

definition named_world :: "poll_world \<Rightarrow> bool" where
  "named_world w \<longleftrightarrow> (\<forall>cg info. pw_resolve w cg = Some info \<longrightarrow> ci_Name info \<noteq> [])"

lemma answered_world: "answered (pw_resolve w) \<Longrightarrow> named_world w"
  using answered_named by (auto simp: named_world_def)

lemma samples_named:
  assumes "named_world w"
  shows "cpu_sample w cc e1 = Some s1 \<Longrightarrow> cpu_ContainerName s1 \<noteq> []" "mem_sample w mc e2 = Some s2 \<Longrightarrow> mem_ContainerName s2 \<noteq> []"
    "io_sample w ic e3 = Some s3 \<Longrightarrow> io_ContainerName s3 \<noteq> []" "syscall_summary w e4 = Some s4 \<Longrightarrow> ss_ContainerName s4 \<noteq> []"
  using assms by (auto simp: named_world_def cpu_sample_def mem_sample_def io_sample_def syscall_summary_def Let_def split: prod.splits option.splits)

lemma polls_named:
  assumes "named_world w"
  shows "Cpu_Collect w es1 cc = (cc', Inr (ss1, d1)) \<Longrightarrow> \<forall>s \<in> set ss1. cpu_ContainerName s \<noteq> []"
    "Memory_Collect w es2 mc = (mc', Inr (ss2, d2)) \<Longrightarrow> \<forall>s \<in> set ss2. mem_ContainerName s \<noteq> []"
    "Io_Collect w es3 ic = (ic', Inr (ss3, d3)) \<Longrightarrow> \<forall>s \<in> set ss3. io_ContainerName s \<noteq> []"
    "Syscall_Collect w es4 = Inr (ss4, d4) \<Longrightarrow> \<forall>s \<in> set ss4. ss_ContainerName s \<noteq> []"
  using samples_named [OF assms]
  by (auto simp: Cpu_Collect_def Memory_Collect_def Io_Collect_def Syscall_Collect_def Let_def mem_map_filter split: if_splits)

definition named_summaries :: "(u64, NetSummary) gomap \<Rightarrow> bool" where
  "named_summaries m \<longleftrightarrow> (\<forall>(c, s) \<in> set m. ns_ContainerName s \<noteq> [])"

lemma named_summarise:
  assumes "named_summaries m" and "fl_ContainerName f \<noteq> []"
  shows "named_summaries (summarise m f)"
proof -
  have "ns_ContainerName (add_flow s f) = ns_ContainerName s" for s by (simp add: add_flow_def Let_def)
  then have "ns_ContainerName (add_flow (case map_of m (fl_CgroupID f) of Some s \<Rightarrow> s | None \<Rightarrow> new_summary f) f) \<noteq> []"
    using assms by (auto simp: named_summaries_def new_summary_def split: option.split dest: map_of_SomeD)
  moreover have "named_summaries (AList.update k s m)" if "ns_ContainerName s \<noteq> []" for k s
    using assms(1) that by (induction m) (auto simp: named_summaries_def split: if_splits)
  ultimately show ?thesis by (simp add: summarise_def Let_def)
qed

lemma named_summaries_fold: "\<forall>f \<in> set fs. fl_ContainerName f \<noteq> [] \<Longrightarrow> named_summaries m \<Longrightarrow> named_summaries (foldl summarise m fs)"
  by (induction fs arbitrary: m) (simp_all add: named_summarise)

definition sorts_ok :: "tick_sorts \<Rightarrow> bool" where
  "sorts_ok S \<longleftrightarrow> (\<forall>xs. mset (so_count S xs) = mset xs) \<and> (\<forall>xs. mset (so_rank S xs) = mset xs) \<and> (\<forall>m. mset (so_sysmap S m) = mset m) \<and>
     (\<forall>m. mset (so_netmap S m) = mset m)"

lemma summaries_named:
  assumes "named_world w" and "sorts_ok S" and "CollectSummary (so_netmap S) w es = Inr sm"
  shows "\<forall>s \<in> set sm. ns_ContainerName s \<noteq> []"
proof -
  obtain flows d where "CollectFlows w es = Inr (flows, d)" and sm: "sm = map snd (so_netmap S (foldl summarise [] flows))"
    using assms(3) by (auto simp: CollectSummary_def split: sum.splits)
  from this(1) have "\<forall>f \<in> set flows. fl_ContainerName f \<noteq> []"
    using assms(1) by (auto simp: CollectFlows_def flow_sample_def named_world_def mem_map_filter split: if_splits option.splits)
  then have "named_summaries (foldl summarise [] flows)" by (rule named_summaries_fold) (simp add: named_summaries_def)
  moreover have "set (so_netmap S (foldl summarise [] flows)) = set (foldl summarise [] flows)"
    using assms(2) unfolding sorts_ok_def by (metis set_mset_mset)
  ultimately show ?thesis unfolding sm by (auto simp: named_summaries_def)
qed

lemma top5_named:
  assumes "named_world w" and "sorts_ok S" and "CollectTop5PerContainer (so_sysmap S) (so_count S) (so_rank S) w es = Inr sm"
  shows "\<forall>s \<in> set sm. ss_ContainerName s \<noteq> []"
proof
  fix s assume "s \<in> set sm"
  obtain all d where all: "Syscall_Collect w es = Inr (all, d)" and sm: "sm = so_rank S (concat (map (\<lambda>(_, es). top_entries (so_count S) es) (so_sysmap S (group_by ss_ContainerName all))))"
    using assms(3) by (auto simp: CollectTop5PerContainer_def Let_def split: sum.splits)
  have same: "set (so_rank S xs) = set xs" "set (so_count S xs) = set xs" "set (so_sysmap S m) = set m" for xs m
    using assms(2) unfolding sorts_ok_def by (metis set_mset_mset)+
  obtain k es where "(k, es) \<in> set (group_by ss_ContainerName all)" "s \<in> set (top_entries (so_count S) es)"
    using \<open>s \<in> set sm\<close> unfolding sm same by (auto simp: same(3))
  then obtain e where "e \<in> set all" "ss_ContainerName s = ss_ContainerName e"
    using mem_group_by [of k es ss_ContainerName all] stamp_names [of s "take 5 (so_count S es)"] same(2) unfolding top_entries_def
    by (metis (no_types, lifting) filter_is_subset in_set_takeD subsetD)
  then show "ss_ContainerName s \<noteq> []" using polls_named(4) [OF assms(1) all] by simp
qed

text \<open>The part of the state that the sampling phases leave alone.\<close>

definition shared_part :: "'h CollectorSet \<Rightarrow> EventEnvelope list option \<times> ProcessGraph option \<times> DataBatch buffer \<times> bool \<times> bool \<times> bool \<times> bool \<times> bool" where
  "shared_part s = (cs_SecWriter s, cs_Graph s, cs_tsBuffer s, cs_Lineage s, cs_Exec s, cs_DNS s, cs_PrivEsc s, cs_Escape s)"

definition phase_ok :: "CollectFilter \<Rightarrow> ('h cycle \<Rightarrow> 'h cycle go) \<Rightarrow> bool" where
  "phase_ok f p \<longleftrightarrow> (\<forall>s b. batch_ok f b \<longrightarrow> (\<exists>s' b'. p (s, b) = Inr (s', b') \<and> batch_ok f b' \<and> shared_part s' = shared_part s))"

lemma phase_okI: "(\<And>s b. batch_ok f b \<Longrightarrow> \<exists>s' b'. p (s, b) = Inr (s', b') \<and> batch_ok f b' \<and> shared_part s' = shared_part s) \<Longrightarrow> phase_ok f p"
  by (simp add: phase_ok_def)

lemma add_events_pair [simp]: "add_events es (s, b) = (s, b\<lparr>db_Events := db_Events b @ es\<rparr>)"
  by (simp add: add_events_def)

lemma collect_cpu_ok:
  assumes "named_world (cl_world i)"
  shows "phase_ok f (collect_cpu f i)"
proof (rule phase_okI)
  fix s :: "'a CollectorSet" and b assume b: "batch_ok f b"
  show "\<exists>s' b'. collect_cpu f i (s, b) = Inr (s', b') \<and> batch_ok f b' \<and> shared_part s' = shared_part s"
  proof (cases "cs_CPU s")
    case (Some cc)
    obtain cc' r where c: "Cpu_Collect (cl_world i) (cl_cpu i) cc = (cc', r)" by fastforce
    show ?thesis
    proof (cases r)
      case (Inr q)
      obtain ss d where q: "q = (ss, d)" by fastforce
      obtain out where out: "filterCPU f ss = Inr out" "set out \<subseteq> set ss" "shown f (map cpu_ContainerName out)"
        using filter_samples_ok [of f cpu_ContainerName ss] by (auto simp: filterCPU_def)
      have "batch_ok f (b\<lparr>db_CPU := out\<rparr>)"
        using b out(2,3) polls_named(1) [OF assms c [unfolded Inr q]] by (auto simp: batch_ok_def named_batch_def list_all_iff)
      then show ?thesis using Some c Inr q out(1) by (simp add: collect_cpu_def shared_part_def)
    qed (use Some c b in \<open>simp add: collect_cpu_def shared_part_def\<close>)
  qed (use b in \<open>simp add: collect_cpu_def\<close>)
qed

lemma collect_mem_ok:
  assumes "named_world (cl_world i)"
  shows "phase_ok f (collect_mem f i)"
proof (rule phase_okI)
  fix s :: "'a CollectorSet" and b assume b: "batch_ok f b"
  show "\<exists>s' b'. collect_mem f i (s, b) = Inr (s', b') \<and> batch_ok f b' \<and> shared_part s' = shared_part s"
  proof (cases "cs_Mem s")
    case (Some mc)
    obtain mc' r where c: "Memory_Collect (cl_world i) (cl_mem i) mc = (mc', r)" by fastforce
    show ?thesis
    proof (cases r)
      case (Inr q)
      obtain ss d where q: "q = (ss, d)" by fastforce
      obtain out where out: "filterMem f ss = Inr out" "set out \<subseteq> set ss" "shown f (map mem_ContainerName out)"
        using filter_samples_ok [of f mem_ContainerName ss] by (auto simp: filterMem_def)
      have "batch_ok f (b\<lparr>db_Mem := out\<rparr>)"
        using b out(2,3) polls_named(2) [OF assms c [unfolded Inr q]] by (auto simp: batch_ok_def named_batch_def list_all_iff)
      then show ?thesis using Some c Inr q out(1) by (simp add: collect_mem_def shared_part_def ReadOOMEvents_def)
    qed (use Some c b in \<open>simp add: collect_mem_def shared_part_def ReadOOMEvents_def\<close>)
  qed (use b in \<open>simp add: collect_mem_def\<close>)
qed

text \<open>The optional event drains of the last three phases cannot fail.\<close>

lemma event_drains_total:
  "\<exists>evs. ReadFileEvents w rs = Inr evs" "\<exists>evs. ReadTCPEvents w rs = Inr evs" "\<exists>evs. ReadSlowEvents w rs = Inr evs"
  using file_rec.drain_total [of "file_event w" rs] tcp_rec.drain_total [of "tcp_event w" rs] slow_rec.drain_total [of "slow_summary w" rs]
  by (auto simp: ReadFileEvents_def ReadTCPEvents_def ReadSlowEvents_def)

lemma collect_io_ok:
  assumes "named_world (cl_world i)"
  shows "phase_ok f (collect_io H f i)"
proof (rule phase_okI)
  fix s :: "'a CollectorSet" and b assume b: "batch_ok f b"
  obtain fevs where ev: "ReadFileEvents (cl_world i) (cl_files i) = Inr fevs" using event_drains_total(1) by blast
  show "\<exists>s' b'. collect_io H f i (s, b) = Inr (s', b') \<and> batch_ok f b' \<and> shared_part s' = shared_part s"
  proof (cases "cs_IO s")
    case (Some ic)
    obtain ic' r where c: "Io_Collect (cl_world i) (cl_io i) ic = (ic', r)" by fastforce
    show ?thesis
    proof (cases r)
      case (Inr q)
      obtain ss d where q: "q = (ss, d)" by fastforce
      obtain out where out: "filterIO f ss = Inr out" "set out \<subseteq> set ss" "shown f (map io_ContainerName out)"
        using filter_samples_ok [of f io_ContainerName ss] by (auto simp: filterIO_def)
      have "batch_ok f (b\<lparr>db_IO := out\<rparr>)"
        using b out(2,3) polls_named(3) [OF assms c [unfolded Inr q]] by (auto simp: batch_ok_def named_batch_def list_all_iff)
      then show ?thesis using Some c Inr q out(1) ev by (auto simp: collect_io_def shared_part_def)
    qed (use Some c b ev in \<open>auto simp: collect_io_def shared_part_def\<close>)
  qed (use b in \<open>simp add: collect_io_def\<close>)
qed

lemma collect_net_ok:
  assumes "named_world (cl_world i)" and "sorts_ok S"
  shows "phase_ok f (collect_net S f i)"
proof (rule phase_okI)
  fix s :: "'a CollectorSet" and b assume b: "batch_ok f b"
  obtain tevs where ev: "ReadTCPEvents (cl_world i) (cl_tcp i) = Inr tevs" using event_drains_total(2) by blast
  show "\<exists>s' b'. collect_net S f i (s, b) = Inr (s', b') \<and> batch_ok f b' \<and> shared_part s' = shared_part s"
  proof (cases "CollectSummary (so_netmap S) (cl_world i) (cl_net i)")
    case (Inr sm)
    obtain out where out: "filterNet f sm = Inr out" "shown f (map ns_ContainerName out)" "set out \<subseteq> set sm"
      using filter_samples_ok [of f ns_ContainerName sm] by (auto simp: filterNet_def)
    have "batch_ok f (b\<lparr>db_Net := out\<rparr>)"
      using b out(2,3) summaries_named [OF assms Inr] by (auto simp: batch_ok_def named_batch_def list_all_iff)
    then show ?thesis using Inr out(1) ev b by (auto simp: collect_net_def)
  qed (use b ev in \<open>auto simp: collect_net_def\<close>)
qed

lemma collect_sys_ok:
  assumes "named_world (cl_world i)" and "sorts_ok S"
  shows "phase_ok f (collect_sys H S f i)"
proof (rule phase_okI)
  fix s :: "'a CollectorSet" and b assume b: "batch_ok f b"
  obtain sevs where ev: "ReadSlowEvents (cl_world i) (cl_slow i) = Inr sevs" using event_drains_total(3) by blast
  show "\<exists>s' b'. collect_sys H S f i (s, b) = Inr (s', b') \<and> batch_ok f b' \<and> shared_part s' = shared_part s"
  proof (cases "CollectTop5PerContainer (so_sysmap S) (so_count S) (so_rank S) (cl_world i) (cl_sys i)")
    case (Inr sm)
    obtain out where out: "filterSys f sm = Inr out" "set out \<subseteq> set sm" "shown f (map ss_ContainerName out)"
      using filter_samples_ok [of f ss_ContainerName sm] by (auto simp: filterSys_def)
    have "batch_ok f (b\<lparr>db_Sys := out\<rparr>)"
      using b out(2,3) top5_named [OF assms Inr] by (auto simp: batch_ok_def named_batch_def list_all_iff)
    then show ?thesis using Inr out(1) ev b by (auto simp: collect_sys_def shared_part_def)
  qed (use b ev in \<open>auto simp: collect_sys_def\<close>)
qed

lemma phase_okD: "phase_ok f p \<Longrightarrow> batch_ok f b \<Longrightarrow> \<exists>s' b'. p (s, b) = Inr (s', b') \<and> batch_ok f b' \<and> shared_part s' = shared_part s"
  by (simp add: phase_ok_def)

lemma phase_ok_seq: "phase_ok f p \<Longrightarrow> phase_ok f q \<Longrightarrow> phase_ok f (\<lambda>c. go_bind (p c) q)"
  unfolding phase_ok_def by fastforce

lemma collect_samples_ok:
  assumes "named_world (cl_world i)" and "sorts_ok (ce_sorts V)"
  shows "\<exists>s' b. collect_samples V f i s = Inr (s', b) \<and> batch_ok f b \<and> shared_part s' = shared_part s"
proof -
  have "phase_ok f (\<lambda>c. go_bind (collect_cpu f i c) (\<lambda>c1. go_bind (collect_mem f i c1) (\<lambda>c2.
      go_bind (collect_io (ce_H V) f i c2) (\<lambda>c3. go_bind (collect_net (ce_sorts V) f i c3) (collect_sys (ce_H V) (ce_sorts V) f i)))))"
    by (intro phase_ok_seq collect_cpu_ok collect_mem_ok collect_io_ok collect_net_ok collect_sys_ok assms)
  from phase_okD [OF this batch_ok_empty] show ?thesis unfolding collect_samples_def by blast
qed

section \<open>Drains\<close>

text \<open>The graph satisfies its invariant and its sequence counter has room for \<open>n\<close> more nodes.\<close>

definition graph_room :: "'h CollectorSet \<Rightarrow> nat \<Rightarrow> bool" where
  "graph_room s n \<longleftrightarrow> (\<forall>g. cs_Graph s = Some g \<longrightarrow> graph_inv g \<and> seq_room g n)"

lemma fold_graph_room:
  assumes "\<And>ev g n. graph_inv g \<Longrightarrow> seq_room g (Suc (Suc n)) \<Longrightarrow> graph_inv (add ev g) \<and> seq_room (add ev g) n"
  shows "graph_inv g \<Longrightarrow> seq_room g (2 * length evs + n) \<Longrightarrow>
    graph_inv (foldl (\<lambda>g ev. if skip ev then g else add ev g) g evs) \<and> seq_room (foldl (\<lambda>g ev. if skip ev then g else add ev g) g evs) n"
proof (induction evs arbitrary: g)
  case (Cons ev evs)
  have r: "seq_room g (Suc (Suc (2 * length evs + n)))" "seq_room g (2 * length evs + n)"
    using Cons.prems(2) seq_room_mono [of g "2 * length (ev # evs) + n"] by simp_all
  show ?case
  proof (cases "skip ev")
    case True
    with Cons.IH [OF Cons.prems(1) r(2)] show ?thesis by simp
  next
    case False
    with Cons.IH [of "add ev g"] assms [OF Cons.prems(1) r(1), of ev] show ?thesis by simp
  qed
qed simp

lemma AddExec_room: "graph_inv g \<Longrightarrow> seq_room g (Suc (Suc n)) \<Longrightarrow> graph_inv (AddExec ev g) \<and> seq_room (AddExec ev g) n"
  using AddExec_inv [of g n ev] seq_room_mono [of g "Suc (Suc n)" "Suc n"] by simp

lemma written_fields [simp]: "cs_Graph (written evs s) = cs_Graph s" "cs_tsBuffer (written evs s) = cs_tsBuffer s" "cs_DNS (written evs s) = cs_DNS s"
  by (simp_all add: written_def)

interpretation tui_writer: security_event_writer Sec_Write id "\<lambda>_. True"
  by unfold_locales (simp add: Sec_Write_def)

lemma cs_SecWriter_written [simp]: "cs_SecWriter (written evs s) = map_option (\<lambda>w. w @ evs) (cs_SecWriter s)"
proof -
  have "foldl (\<lambda>w ev. Sec_Write ev w) w evs = w @ evs" for w using tui_writer.passed_all [of w evs] by simp
  then show ?thesis by (simp add: written_def)
qed

definition forks_in :: "collect_input \<Rightarrow> nat" where
  "forks_in i = (case cl_forks i of None \<Rightarrow> 0 | Some rs \<Rightarrow> length rs)"

lemma collect_lineage_ok:
  assumes "graph_room s (2 * forks_in i + n)"
  shows "\<exists>s' evs. collect_lineage V f i s = Inr s' \<and> graph_room s' n \<and> cs_tsBuffer s' = cs_tsBuffer s \<and> cs_SecWriter s' = map_option (\<lambda>w. w @ evs) (cs_SecWriter s)"
proof (cases "cs_Lineage s")
  case True
  obtain evs where evs: "ReadForkEvents (pw_resolve (cl_world i)) (ce_boot V) (cl_forks i) = Inr evs" "length evs \<le> forks_in i"
  proof (cases "cl_forks i")
    case (Some rs)
    obtain evs where "drain_records forkEventSize parseForkEvent (forkEventToEnvelope (pw_resolve (cl_world i)) (ce_boot V)) rs = Inr evs" "length evs \<le> length rs"
      using fork_rec.drain_total [of "forkEventToEnvelope (pw_resolve (cl_world i)) (ce_boot V)" rs] by auto
    with Some that show ?thesis by (simp add: ReadForkEvents_def forks_in_def)
  qed (use that in \<open>simp add: ReadForkEvents_def forks_in_def\<close>)
  let ?g = "\<lambda>g. foldl (\<lambda>g ev. if skipped f (ev_ContainerName ev) then g else AddFork ev g) g evs"
  have "graph_inv (?g g) \<and> seq_room (?g g) n" if "cs_Graph s = Some g" for g
  proof (rule fold_graph_room [of AddFork])
    show "graph_inv g" using assms that by (simp add: graph_room_def)
    show "seq_room g (2 * length evs + n)" using assms that evs(2) seq_room_mono by (fastforce simp: graph_room_def)
  qed (rule AddFork_inv)
  then show ?thesis using True evs(1) by (auto simp: collect_lineage_def graph_room_def Let_def)
next
  case False
  have "map_option (\<lambda>w. w @ []) (cs_SecWriter s) = cs_SecWriter s" by (cases "cs_SecWriter s") simp_all
  moreover have "graph_room s n" using assms seq_room_mono by (fastforce simp: graph_room_def)
  ultimately show ?thesis using False by (auto simp: collect_lineage_def intro!: exI [of _ "[]"])
qed

lemma collect_exec_ok:
  assumes "graph_room s (2 * length (cl_exec i) + n)"
  shows "\<exists>s' evs. collect_exec V f i s = Inr s' \<and> graph_room s' n \<and> cs_tsBuffer s' = cs_tsBuffer s \<and> cs_SecWriter s' = map_option (\<lambda>w. w @ evs) (cs_SecWriter s)"
proof (cases "cs_Exec s")
  case True
  obtain evs where evs: "ReadExecEvents (pw_resolve (cl_world i)) None (ce_boot V) (cl_exec i) = Inr evs" "length evs \<le> length (cl_exec i)"
    using exec_rec.drain_total [of "execEventToEnvelope (pw_resolve (cl_world i)) None (ce_boot V)" "cl_exec i"] by (auto simp: ReadExecEvents_def)
  let ?g = "\<lambda>g. foldl (\<lambda>g ev. if skipped f (ev_ContainerName ev) then g else AddExec ev g) g evs"
  have "graph_inv (?g g) \<and> seq_room (?g g) n" if "cs_Graph s = Some g" for g
  proof (rule fold_graph_room [of AddExec])
    show "graph_inv g" using assms that by (simp add: graph_room_def)
    show "seq_room g (2 * length evs + n)" using assms that evs(2) seq_room_mono by (fastforce simp: graph_room_def)
  qed (rule AddExec_room)
  then show ?thesis using True evs(1) by (auto simp: collect_exec_def graph_room_def Let_def)
next
  case False
  have "map_option (\<lambda>w. w @ []) (cs_SecWriter s) = cs_SecWriter s" by (cases "cs_SecWriter s") simp_all
  moreover have "graph_room s n" using assms seq_room_mono by (fastforce simp: graph_room_def)
  ultimately show ?thesis using False by (auto simp: collect_exec_def intro!: exI [of _ "[]"])
qed

text \<open>The other drains only write their events and record latencies.\<close>

definition only_writes :: "'h CollectorSet \<Rightarrow> 'h CollectorSet go \<Rightarrow> bool" where
  "only_writes s r \<longleftrightarrow> (\<exists>s' evs. r = Inr s' \<and> cs_Graph s' = cs_Graph s \<and> cs_tsBuffer s' = cs_tsBuffer s \<and>
     cs_SecWriter s' = map_option (\<lambda>w. w @ evs) (cs_SecWriter s))"

lemma only_writes_nothing: "only_writes s (Inr s)"
  by (auto simp: only_writes_def option.map_ident intro: exI [of _ "[]"])

lemma only_writes_some: "only_writes s (Inr (written evs s))" "only_writes s (Inr ((written evs s)\<lparr>cs_latencyAgg := a\<rparr>))"
  by (auto simp: only_writes_def)

lemma other_drains_ok:
  "only_writes s (collect_dns V i s)" "only_writes s (collect_privesc V i s)" "only_writes s (collect_escape V i s)"
proof -
  let ?r = "pw_resolve (cl_world i)"
  obtain e1 e2 e3 where e: "ReadDNSEvents ?r (ce_lineage V) (ce_boot V) (cl_dns i) = Inr e1" "ReadPrivEscEvents ?r (ce_lineage V) (ce_boot V) (cl_privesc i) = Inr e2"
      "ReadEscapeEvents (so_flags (ce_sorts V)) ?r (ce_lineage V) (ce_boot V) (cl_escape i) = Inr e3"
    using dns_rec.drain_total [of "dnsEventToEnvelope ?r (ce_lineage V) (ce_boot V)" "cl_dns i"]
      privesc_rec.drain_total [of "privEscToEnvelope ?r (ce_lineage V) (ce_boot V)" "cl_privesc i"]
      escape_rec.drain_total [of "escapeToEnvelope (so_flags (ce_sorts V)) ?r (ce_lineage V) (ce_boot V)" "cl_escape i"]
    unfolding ReadDNSEvents_def ReadPrivEscEvents_def ReadEscapeEvents_def by blast
  show "only_writes s (collect_dns V i s)" "only_writes s (collect_privesc V i s)" "only_writes s (collect_escape V i s)"
    by (simp_all add: collect_dns_def collect_privesc_def collect_escape_def e only_writes_nothing only_writes_some)
qed

lemma collect_drains_ok:
  assumes "graph_room s (2 * forks_in i + (2 * length (cl_exec i) + n))"
  shows "\<exists>s' evs. collect_drains V f i s = Inr s' \<and> graph_room s' n \<and> cs_tsBuffer s' = cs_tsBuffer s \<and> cs_SecWriter s' = map_option (\<lambda>w. w @ evs) (cs_SecWriter s)"
proof -
  obtain s1 e1 where 1: "collect_lineage V f i s = Inr s1" "graph_room s1 (2 * length (cl_exec i) + n)" "cs_tsBuffer s1 = cs_tsBuffer s"
      "cs_SecWriter s1 = map_option (\<lambda>w. w @ e1) (cs_SecWriter s)"
    using collect_lineage_ok [of s i "2 * length (cl_exec i) + n"] assms by blast
  obtain s2 e2 where 2: "collect_exec V f i s1 = Inr s2" "graph_room s2 n" "cs_tsBuffer s2 = cs_tsBuffer s1" "cs_SecWriter s2 = map_option (\<lambda>w. w @ e2) (cs_SecWriter s1)"
    using collect_exec_ok [OF 1(2)] by blast
  obtain s3 e3 where 3: "collect_dns V i s2 = Inr s3" "cs_Graph s3 = cs_Graph s2" "cs_tsBuffer s3 = cs_tsBuffer s2" "cs_SecWriter s3 = map_option (\<lambda>w. w @ e3) (cs_SecWriter s2)"
    using other_drains_ok(1) [of s2 V i] unfolding only_writes_def by blast
  obtain s4 e4 where 4: "collect_privesc V i s3 = Inr s4" "cs_Graph s4 = cs_Graph s3" "cs_tsBuffer s4 = cs_tsBuffer s3" "cs_SecWriter s4 = map_option (\<lambda>w. w @ e4) (cs_SecWriter s3)"
    using other_drains_ok(2) [of s3 V i] unfolding only_writes_def by blast
  obtain s5 e5 where 5: "collect_escape V i s4 = Inr s5" "cs_Graph s5 = cs_Graph s4" "cs_tsBuffer s5 = cs_tsBuffer s4" "cs_SecWriter s5 = map_option (\<lambda>w. w @ e5) (cs_SecWriter s4)"
    using other_drains_ok(3) [of s4 V i] unfolding only_writes_def by blast
  have "cs_SecWriter s5 = map_option (\<lambda>w. w @ (e1 @ e2 @ e3 @ e4 @ e5)) (cs_SecWriter s)"
    by (simp add: 1(4) 2(4) 3(4) 4(4) 5(4) option.map_comp comp_def)
  moreover have "graph_room s5 n" using 2(2) 3(2) 4(2) 5(2) by (simp add: graph_room_def)
  ultimately show ?thesis using 1(1,3) 2(1,3) 3(1,3) 4(1,3) 5(1,3) by (auto simp: collect_drains_def)
qed

section \<open>Grouping\<close>

text \<open>The events that count, the keys in order of first occurrence, and the event shown for a key.\<close>

definition kept :: "CollectFilter \<Rightarrow> EventEnvelope list \<Rightarrow> EventEnvelope list" where
  "kept f evs = filter (\<lambda>ev. \<not> skipped f (ev_ContainerName ev) \<and> \<not> noisy ev) evs"

definition first_keys :: "'a list \<Rightarrow> 'a list" where
  "first_keys ks = rev (remdups (rev ks))"

definition group_of :: "EventEnvelope list \<Rightarrow> string \<Rightarrow> TuiEvent" where
  "group_of evs k = (let es = filter (\<lambda>ev. group_key ev = k) evs
     in (new_group (hd es))\<lparr>e_Count := int (length es), e_At := ev_Timestamp (last es)\<rparr>)"

lemma first_keys_snoc: "first_keys (ks @ [k]) = (if k \<in> set ks then first_keys ks else first_keys ks @ [k])"
  by (simp add: first_keys_def)

lemma first_keys_set [simp]: "set (first_keys ks) = set ks" "distinct (first_keys ks)" "first_keys [] = []"
  by (simp_all add: first_keys_def)

lemma kept_snoc: "kept f (evs @ [ev]) = (if skipped f (ev_ContainerName ev) \<or> noisy ev then kept f evs else kept f evs @ [ev])"
  by (simp add: kept_def)

lemma group_of_other: "group_key ev \<noteq> k \<Longrightarrow> group_of (evs @ [ev]) k = group_of evs k"
  by (simp add: group_of_def)

lemma group_of_new:
  assumes "group_key ev \<notin> group_key ` set evs"
  shows "group_of (evs @ [ev]) (group_key ev) = new_group ev"
proof -
  have "filter (\<lambda>e. group_key e = group_key ev) evs = []" using assms unfolding filter_empty_conv by (metis imageI)
  then show ?thesis by (simp add: group_of_def new_group_def)
qed

lemma group_of_again:
  assumes "group_key ev \<in> group_key ` set evs"
  shows "group_of (evs @ [ev]) (group_key ev) =
    (group_of evs (group_key ev))\<lparr>e_Count := e_Count (group_of evs (group_key ev)) + 1, e_At := ev_Timestamp ev\<rparr>"
proof -
  have "filter (\<lambda>e. group_key e = group_key ev) evs \<noteq> []" using assms unfolding filter_empty_conv by force
  then show ?thesis by (simp add: group_of_def Let_def hd_append)
qed

text \<open>What the loop has built after the events \<open>evs\<close>.\<close>

definition grouped_upto :: "CollectFilter \<Rightarrow> nat \<Rightarrow> EventEnvelope list \<Rightarrow> grouping \<Rightarrow> bool" where
  "grouped_upto f n evs st \<longleftrightarrow> (case st of (grouped, order, graph) \<Rightarrow>
     order = first_keys (map group_key (kept f evs)) \<and>
     (\<forall>k. map_of grouped k = (if k \<in> set order then Some (group_of (kept f evs) k) else None)) \<and>
     (\<forall>g. graph = Some g \<longrightarrow> graph_inv g \<and> seq_room g n))"

lemma group_event_step:
  assumes "grouped_upto f n evs st"
  shows "\<exists>st'. group_event f ev st = Inr st' \<and> grouped_upto f n (evs @ [ev]) st'"
proof -
  obtain grouped order graph where st: "st = (grouped, order, graph)" by (cases st)
  let ?k = "group_key ev" and ?K = "kept f evs"
  have o: "order = first_keys (map group_key ?K)" and m: "map_of grouped k = (if k \<in> set order then Some (group_of ?K k) else None)"
    and g: "\<forall>g. graph = Some g \<longrightarrow> graph_inv g \<and> seq_room g n" for k
    using assms unfolding st grouped_upto_def by simp_all
  show ?thesis
  proof (cases "skipped f (ev_ContainerName ev) \<or> noisy ev")
    case True
    then show ?thesis using assms by (simp add: group_event_def st grouped_upto_def kept_snoc)
  next
    case count: False
    then have K: "kept f (evs @ [ev]) = ?K @ [ev]" by (simp add: kept_snoc)
    show ?thesis
    proof (cases "?k \<in> set order")
      case True
      then have in_K: "?k \<in> group_key ` set ?K" using o by simp
      have "\<forall>k. map_of (AList.update ?k (group_of (?K @ [ev]) ?k) grouped) k = (if k \<in> set order then Some (group_of (?K @ [ev]) k) else None)"
        using True m by (auto simp: update_conv' group_of_other)
      then show ?thesis using count True m in_K g o
        by (simp add: group_event_def st grouped_upto_def K group_of_again first_keys_snoc)
    next
      case False
      then have new: "?k \<notin> group_key ` set ?K" using o by simp
      obtain graph' where g': "(case graph of None \<Rightarrow> Inr None | Some g \<Rightarrow> go_bind (CorrelateEvent (ev_CgroupID ev) (ev_PID ev) ev g) (\<lambda>g'. Inr (Some g'))) = Inr graph'"
          "\<forall>g. graph' = Some g \<longrightarrow> graph_inv g \<and> seq_room g n"
      proof (cases graph)
        case (Some h)
        then obtain h' where "CorrelateEvent (ev_CgroupID ev) (ev_PID ev) ev h = Inr h'" "graph_inv h'" "g_seq h' = g_seq h"
          using CorrelateEvent_inv [of h "ev_CgroupID ev" "ev_PID ev" ev] g by blast
        with Some g that [of "Some h'"] show ?thesis by (simp add: seq_room_def)
      qed (use that in simp)
      have "\<forall>k. map_of (AList.update ?k (new_group ev) grouped) k = (if k \<in> set (order @ [?k]) then Some (group_of (?K @ [ev]) k) else None)"
        using False m new by (auto simp: update_conv' group_of_other group_of_new)
      then show ?thesis using count False m new g' o
        by (simp add: group_event_def st grouped_upto_def K first_keys_snoc)
    qed
  qed
qed

lemma group_events_ok:
  assumes "\<forall>g. graph = Some g \<longrightarrow> graph_inv g \<and> seq_room g n"
  shows "\<exists>st. go_fold (group_event f) evs ([], [], graph) = Inr st \<and> grouped_upto f n evs st"
proof (induction evs rule: rev_induct)
  case Nil
  then show ?case using assms by (simp add: grouped_upto_def kept_def)
next
  case (snoc ev evs)
  then show ?case using group_event_step by (fastforce simp: go_fold_append)
qed

lemma count_by_key: "distinct ks \<Longrightarrow> group_key ` set es \<subseteq> set ks \<Longrightarrow>
    (\<Sum>k\<leftarrow>ks. int (length (filter (\<lambda>e. group_key e = k) es))) = int (length es)"
proof (induction es)
  case (Cons e es)
  have "(\<Sum>k\<leftarrow>ks. int (length (filter (\<lambda>e'. group_key e' = k) (e # es)))) =
      (\<Sum>k\<leftarrow>ks. of_bool (group_key e = k) + int (length (filter (\<lambda>e'. group_key e' = k) es)))"
    by (intro arg_cong [where f = sum_list] map_cong) auto
  also have "\<dots> = (\<Sum>k\<leftarrow>ks. of_bool (group_key e = k)) + int (length es)"
    using Cons by (simp add: sum_list_addf)
  also have "(\<Sum>k\<leftarrow>ks. of_bool (group_key e = k)) = (1 :: int)"
    using Cons.prems by (simp add: sum_list_distinct_conv_sum_set of_bool_def)
  finally show ?case by simp
qed simp

definition grouped_events :: "EventEnvelope list \<Rightarrow> TuiEvent list" where
  "grouped_events evs = map (group_of evs) (first_keys (map group_key evs))"

lemma grouped_events_count: "(\<Sum>e\<leftarrow>grouped_events evs. e_Count e) = int (length evs)"
  using count_by_key [of "first_keys (map group_key evs)" evs] by (simp add: grouped_events_def comp_def group_of_def Let_def)

lemma collect_security_ok:
  assumes "graph_room s n"
  shows "\<exists>s'. collect_security f (s, b) = Inr (s', b\<lparr>db_Events := db_Events b @ (case cs_SecWriter s of None \<Rightarrow> [] | Some w \<Rightarrow> grouped_events (kept f w))\<rparr>) \<and>
    graph_room s' n \<and> cs_tsBuffer s' = cs_tsBuffer s \<and> cs_SecWriter s' = map_option (\<lambda>_. []) (cs_SecWriter s)"
proof (cases "cs_SecWriter s")
  case (Some w)
  obtain grouped order graph where st: "go_fold (group_event f) w ([], [], cs_Graph s) = Inr (grouped, order, graph)"
      and up: "grouped_upto f n w (grouped, order, graph)"
    using group_events_ok [of "cs_Graph s" n f w] assms by (auto simp: graph_room_def)
  have ord: "order = first_keys (map group_key (kept f w))" and m: "\<And>k. map_of grouped k = (if k \<in> set order then Some (group_of (kept f w) k) else None)"
    and g: "\<forall>g. graph = Some g \<longrightarrow> graph_inv g \<and> seq_room g n"
    using up by (simp_all add: grouped_upto_def)
  have "map (\<lambda>k. the (map_of grouped k)) order = grouped_events (kept f w)"
    unfolding grouped_events_def ord [symmetric] by (rule map_cong) (simp_all add: m)
  then show ?thesis using Some st g by (simp add: collect_security_def Sec_Drain_def graph_room_def)
qed (use assms in \<open>simp add: collect_security_def\<close>)

text \<open>
  C12: The security phase of a collection cycle empties the shared writer and shows exactly one event per
  container, event type and process, in the order of their first occurrence: it carries the first
  envelope, the number of events with that key and the time of the last of them. Events of runc and, with
  \<^verbatim>\<open>--containers-only\<close>, of host processes are left out; the counts add up to all others, and correlating
  the first events keeps the process graph well formed.
\<close>

theorem collect_groups_security:
  assumes "graph_room s n" and "cs_SecWriter s = Some w"
  shows "\<exists>s' es. collect_security f (s, b) = Inr (s', b\<lparr>db_Events := db_Events b @ es\<rparr>) \<and>
    es = map (group_of (kept f w)) (first_keys (map group_key (kept f w))) \<and>
    (\<Sum>e\<leftarrow>es. e_Count e) = int (length (kept f w)) \<and> cs_SecWriter s' = Some [] \<and> graph_room s' n"
  using collect_security_ok [OF assms(1), of f b] assms(2) grouped_events_count [of "kept f w"]
  by (auto simp: grouped_events_def)

lemma full_collectors_room: "n \<le> 4 \<Longrightarrow> graph_room (full_collectors (New_graph m) buf) n"
  using graph_inv_New [of m] seq_room_mono [of "New_graph m" 4 n] by (simp add: graph_room_def full_collectors_def)

theorem collect_groups_security_witness:
  "let f = \<lparr>fl_ContainersOnly = True, fl_TopN = 0, fl_ShowFiles = False, fl_ShowTCP = False, fl_ShowSlowSys = False\<rparr>;
       ev = (\<lambda>c p. zero_event\<lparr>ev_ContainerName := c, ev_Process := p\<rparr>);
       w = [ev ''docker:a'' ''sh'', ev ''docker:a'' ''RunC'', ev ''host'' ''sh'', ev ''docker:a'' ''sh'', ev ''cri:b'' ''sh''];
       s = (full_collectors (New_graph 512) \<lparr>b_data = [], b_head = 0, b_size = 0, b_cap = 0\<rparr> :: unit CollectorSet)\<lparr>cs_SecWriter := Some w\<rparr>
   in \<exists>s' es. collect_security f (s, empty_batch 0) = Inr (s', (empty_batch 0)\<lparr>db_Events := es\<rparr>) \<and> map e_Count es = [2, 1]"
proof -
  define f where f: "f = \<lparr>fl_ContainersOnly = True, fl_TopN = 0, fl_ShowFiles = False, fl_ShowTCP = False, fl_ShowSlowSys = False\<rparr>"
  define ev where ev: "ev = (\<lambda>c p. zero_event\<lparr>ev_ContainerName := c, ev_Process := p\<rparr>)"
  define w where w: "w = [ev ''docker:a'' ''sh'', ev ''docker:a'' ''RunC'', ev ''host'' ''sh'', ev ''docker:a'' ''sh'', ev ''cri:b'' ''sh'']"
  define s where s: "s = (full_collectors (New_graph 512) \<lparr>b_data = [], b_head = 0, b_size = 0, b_cap = 0\<rparr> :: unit CollectorSet)\<lparr>cs_SecWriter := Some w\<rparr>"
  have room: "graph_room s 0" using full_collectors_room [of 0 512] unfolding s by (simp add: graph_room_def)
  have sw: "cs_SecWriter s = Some w" by (simp add: s)
  have k: "kept f w = [ev ''docker:a'' ''sh'', ev ''docker:a'' ''sh'', ev ''cri:b'' ''sh'']"
    unfolding w by (simp add: kept_def f ev skipped_def isContainer_tui_def noisy_def ToLower_def to_lower_char_def Let_def) code_simp
  have "map e_Count (map (group_of (kept f w)) (first_keys (map group_key (kept f w)))) = [2, 1]"
    unfolding k by (simp add: first_keys_def group_key_def ev group_of_def Let_def zero_event_def)
  then show ?thesis
    using collect_groups_security [OF room sw, of f "empty_batch 0"] unfolding Let_def f ev w s by (auto simp: empty_batch_def)
qed

section \<open>Cycles\<close>

lemma collect_finish_ok:
  assumes "graph_room s n" and "buffer_ok (cs_tsBuffer s)"
  shows "\<exists>s' g p. collect_finish V now (s, b) = Inr (s', b\<lparr>db_Graph := g, db_Percentiles := p\<rparr>) \<and> graph_room s' n \<and> cs_SecWriter s' = cs_SecWriter s \<and>
    buffer_ok (cs_tsBuffer s') \<and> b_cap (cs_tsBuffer s') = b_cap (cs_tsBuffer s) \<and>
    buffer_list (cs_tsBuffer s') = take_last (nat (b_cap (cs_tsBuffer s))) (buffer_list (cs_tsBuffer s) @ [b\<lparr>db_Graph := g, db_Percentiles := p\<rparr>])"
proof -
  obtain g where g: "(case cs_Graph s of None \<Rightarrow> Inr b
      | Some g \<Rightarrow> go_bind (Snapshot_graph (ce_roots V) now g) (\<lambda>sn. Inr (b\<lparr>db_Graph := Some sn\<rparr>))) = Inr (b\<lparr>db_Graph := g\<rparr>)"
  proof (cases "cs_Graph s")
    case None
    with that [of "db_Graph b"] show ?thesis by simp
  next
    case (Some h)
    then obtain sn where "Snapshot_graph (ce_roots V) now h = Inr sn"
      using Snapshot_total [of h "ce_roots V" now] assms(1) by (auto simp: graph_room_def)
    with Some that [of "Some sn"] show ?thesis by simp
  qed
  let ?b = "b\<lparr>db_Graph := g, db_Percentiles := Snapshot_latency (Tick (ce_H V) (cs_latencyAgg s))\<rparr>"
  obtain buf where "Buffer_Push (cs_tsBuffer s) ?b = Inr buf" "buffer_ok buf" "b_cap buf = b_cap (cs_tsBuffer s)"
      "buffer_list buf = take_last (nat (b_cap (cs_tsBuffer s))) (buffer_list (cs_tsBuffer s) @ [?b])"
    using buffer_push_ok [OF assms(2), of ?b] by blast
  then show ?thesis using g assms(1)
    by (intro exI [of _ "s\<lparr>cs_latencyAgg := Tick (ce_H V) (cs_latencyAgg s), cs_tsBuffer := buf\<rparr>"] exI [of _ g]
        exI [of _ "Snapshot_latency (Tick (ce_H V) (cs_latencyAgg s))"]) (simp add: collect_finish_def Let_def graph_room_def)
qed

text \<open>The nodes a cycle may add.\<close>

definition cycle_nodes :: "collect_input \<Rightarrow> nat" where
  "cycle_nodes i = 2 * forks_in i + 2 * length (cl_exec i)"

lemma collectReal_ok:
  assumes "named_world (cl_world i)" and "sorts_ok (ce_sorts V)" and "graph_room s (cycle_nodes i + n)" and "buffer_ok (cs_tsBuffer s)"
  shows "\<exists>s' b. collectReal V f i s = Inr (s', b) \<and> batch_ok f b \<and> graph_room s' n \<and> cs_SecWriter s' = map_option (\<lambda>_. []) (cs_SecWriter s) \<and>
    buffer_ok (cs_tsBuffer s') \<and> b_cap (cs_tsBuffer s') = b_cap (cs_tsBuffer s) \<and>
    buffer_list (cs_tsBuffer s') = take_last (nat (b_cap (cs_tsBuffer s))) (buffer_list (cs_tsBuffer s) @ [b])"
proof -
  obtain s1 b1 where 1: "collect_samples V f i s = Inr (s1, b1)" "batch_ok f b1" "shared_part s1 = shared_part s"
    using collect_samples_ok [OF assms(1,2)] by blast
  then have s1: "cs_Graph s1 = cs_Graph s" "cs_tsBuffer s1 = cs_tsBuffer s" "cs_SecWriter s1 = cs_SecWriter s" by (simp_all add: shared_part_def)
  obtain s2 evs where 2: "collect_drains V f i s1 = Inr s2" "graph_room s2 n" "cs_tsBuffer s2 = cs_tsBuffer s" "cs_SecWriter s2 = map_option (\<lambda>w. w @ evs) (cs_SecWriter s)"
    using collect_drains_ok [of s1 i n V f] assms(3) s1 by (auto simp: graph_room_def cycle_nodes_def add.assoc)
  obtain s3 es where 3: "collect_security f (s2, b1) = Inr (s3, b1\<lparr>db_Events := es\<rparr>)" "graph_room s3 n" "cs_tsBuffer s3 = cs_tsBuffer s"
      "cs_SecWriter s3 = map_option (\<lambda>_. []) (cs_SecWriter s)"
    using collect_security_ok [OF 2(2), of f b1] 2(3,4) by (auto simp: option.map_comp comp_def)
  have "buffer_ok (cs_tsBuffer s3)" using assms(4) 3(3) by simp
  from collect_finish_ok [OF 3(2) this, of V "cl_snapAt i" "b1\<lparr>db_Events := es\<rparr>"]
  show ?thesis using 1(1,2) 2(1) 3(1,3,4) by (auto simp: collectReal_def)
qed

text \<open>Successive cycles: each refresh of the display runs one.\<close>

fun collect_cycles :: "'h collect_env \<Rightarrow> CollectFilter \<Rightarrow> collect_input list \<Rightarrow> 'h CollectorSet \<Rightarrow> ('h CollectorSet \<times> DataBatch list) go" where
  "collect_cycles V f [] s = Inr (s, [])"
| "collect_cycles V f (i # is) s = go_bind (background_oom i s) (\<lambda>s0. go_bind (collectReal V f i s0) (\<lambda>(s1, b).
     go_bind (collect_cycles V f is s1) (\<lambda>(s2, bs). Inr (s2, b # bs))))"

lemma background_oom_ok: "\<exists>s'. background_oom i s = Inr s' \<and> shared_part s' = shared_part s"
proof (cases "cs_Mem s")
  case (Some mc)
  have "\<exists>mc'. go_fold (\<lambda>(w, sample). oom_reader_step w sample) rs mc = Inr mc'" for rs
  proof (induction rs arbitrary: mc)
    case (Cons r rs)
    obtain w sample where r: "r = (w, sample)" by fastforce
    have "\<exists>mc1. oom_reader_step w sample mc = Inr mc1" using parseOOMEvent_total [of sample] by (fastforce simp: oom_reader_step_def)
    with Cons r show ?case by auto
  qed simp
  with Some show ?thesis by (fastforce simp: background_oom_def shared_part_def)
qed (simp add: background_oom_def)

lemma cycle_ok:
  assumes "named_world (cl_world i)" and "sorts_ok (ce_sorts V)" and "graph_room s (cycle_nodes i + n)" and "buffer_ok (cs_tsBuffer s)"
  shows "\<exists>s0 s' b. background_oom i s = Inr s0 \<and> collectReal V f i s0 = Inr (s', b) \<and> batch_ok f b \<and> graph_room s' n \<and>
    buffer_ok (cs_tsBuffer s') \<and> b_cap (cs_tsBuffer s') = b_cap (cs_tsBuffer s) \<and>
    buffer_list (cs_tsBuffer s') = take_last (nat (b_cap (cs_tsBuffer s))) (buffer_list (cs_tsBuffer s) @ [b])"
proof -
  obtain s0 where s0: "background_oom i s = Inr s0" "shared_part s0 = shared_part s" using background_oom_ok by blast
  then have "graph_room s0 (cycle_nodes i + n)" "cs_tsBuffer s0 = cs_tsBuffer s" using assms(3) by (simp_all add: shared_part_def graph_room_def)
  with collectReal_ok [OF assms(1,2), of s0 n f] assms(4) s0(1) show ?thesis by fastforce
qed

text \<open>
  C13: However many collection cycles run, and whatever the kernel maps, ring buffers and collector errors
  offer in them, no cycle panics while the graph's sequence counter has room: every batch has only named,
  filtered samples, network summaries included, at most \<^verbatim>\<open>TopN\<close> per metric, the graph stays well formed,
  and the history holds exactly the last batches up to its capacity, oldest first. The names are those the cgroup
  resolver answers with, in whatever states its own operations have put it.
\<close>

theorem collect_history:
  assumes "\<forall>i \<in> set is. answered (pw_resolve (cl_world i))" and "sorts_ok (ce_sorts V)" and "graph_room s (sum_list (map cycle_nodes is))" and "buffer_ok (cs_tsBuffer s)"
  shows "\<exists>s' bs. collect_cycles V f is s = Inr (s', bs) \<and> length bs = length is \<and> list_all (batch_ok f) bs \<and> graph_room s' 0 \<and> buffer_ok (cs_tsBuffer s') \<and>
    buffer_list (cs_tsBuffer s') = take_last (nat (b_cap (cs_tsBuffer s))) (buffer_list (cs_tsBuffer s) @ bs)"
  using assms
proof (induction "is" arbitrary: s)
  case Nil
  moreover have "length (buffer_list (cs_tsBuffer s)) \<le> nat (b_cap (cs_tsBuffer s))"
    using Nil.prems(4) by (simp add: buffer_list_def ring_list_def buffer_ok_def nat_mono)
  ultimately show ?case by simp
next
  case (Cons i "is")
  have named: "named_world (cl_world i)" using Cons.prems(1) answered_world by simp
  obtain s0 s1 b where 1: "collectReal V f i s0 = Inr (s1, b)" "batch_ok f b" "graph_room s1 (sum_list (map cycle_nodes is))" "buffer_ok (cs_tsBuffer s1)"
      "b_cap (cs_tsBuffer s1) = b_cap (cs_tsBuffer s)"
      "buffer_list (cs_tsBuffer s1) = take_last (nat (b_cap (cs_tsBuffer s))) (buffer_list (cs_tsBuffer s) @ [b])" "background_oom i s = Inr s0"
    using cycle_ok [OF named, of V s "sum_list (map cycle_nodes is)" f] Cons.prems by auto
  obtain s2 bs where "collect_cycles V f is s1 = Inr (s2, bs)" "length bs = length is" "list_all (batch_ok f) bs" "graph_room s2 0" "buffer_ok (cs_tsBuffer s2)"
      "buffer_list (cs_tsBuffer s2) = take_last (nat (b_cap (cs_tsBuffer s1))) (buffer_list (cs_tsBuffer s1) @ bs)"
    using Cons.IH [OF _ Cons.prems(2) 1(3,4)] Cons.prems(1) by auto
  then show ?case using 1 by (simp add: take_last_append_take_last)
qed

text \<open>
  Two cycles of a freshly launched terminal UI: one container with a connection and a malformed fork record, named
  by a resolver that has scanned a hierarchy with this container.
\<close>

definition docker_env :: lookup_env where
  "docker_env = empty_env\<lparr>le_scan := \<lparr>se_root = Some (FsDir ''cgroup'' (Some 1) (Some [FsDir ''docker-0123456789ab.scope'' (Some 42) (Some [])])),
     se_pods = None, se_docker = \<lambda>_. None\<rparr>\<rparr>"

definition docker_world :: poll_world where
  "docker_world = \<lparr>pw_files = \<lambda>_. None, pw_resolve = (\<lambda>c. snd (Lookup_in docker_env (foldl resolver_apply (NewResolver (map fst) (\<lambda>_. 0) 0 (le_scan docker_env)) []) c)),
     pw_now = 5, pw_err = False\<rparr>"

definition idle_input :: collect_input where
  "idle_input = \<lparr>cl_world = docker_world, cl_cpu = [], cl_mem = [], cl_io = [], cl_files = [],
     cl_net = [(\<lparr>ck_CgroupID = 42, ck_Saddr = 1, ck_Daddr = 2, ck_Sport = 80, ck_Dport = 9\<rparr>,
       \<lparr>cn_State = 1, cn_Retransmits = 3, cn_FirstSeenNs = 0, cn_LastSeenNs = 0\<rparr>)], cl_tcp = [], cl_sys = [], cl_slow = [],
     cl_slowAt = (\<lambda>_. 0), cl_forks = Some [[]], cl_exec = [], cl_dns = [], cl_privesc = [], cl_escape = [], cl_snapAt = 2, cl_oom = [(docker_world, [])]\<rparr>"

definition plain_collect :: "(int \<times> int) list collect_env" where
  "plain_collect = \<lparr>ce_H = list_hist, ce_sorts = plain_sorts, ce_roots = (\<lambda>_ ks. ks), ce_lineage = None, ce_boot = 0\<rparr>"

lemma idle_input_answered: "answered (pw_resolve (cl_world idle_input))"
  using answered_lookup [of docker_env "map fst" "\<lambda>_. 0" 0 "le_scan docker_env" "[]"] by (simp add: idle_input_def docker_world_def)

lemma plain_collect_sorts: "sorts_ok (ce_sorts plain_collect)"
  by (simp add: sorts_ok_def plain_collect_def plain_sorts_def is_sort_mset [OF is_sort_insertion] by_count_weak by_name_rank_weak)

lemma idle_input_room: "cycle_nodes idle_input = 2"
  by (simp add: cycle_nodes_def forks_in_def idle_input_def)

definition show_all :: CollectFilter where
  "show_all = \<lparr>fl_ContainersOnly = True, fl_TopN = 5, fl_ShowFiles = True, fl_ShowTCP = True, fl_ShowSlowSys = True\<rparr>"

lemma idle_cycles_show:
  "case new_tsBuffer of Inl e \<Rightarrow> False | Inr buf \<Rightarrow>
     (case collect_cycles plain_collect show_all [idle_input, idle_input] (full_collectors (New_graph 512) buf) of
        Inl e \<Rightarrow> False | Inr (s, bs) \<Rightarrow> map (\<lambda>b. map ns_ContainerName (db_Net b)) bs = [[''docker:0123456789ab''], [''docker:0123456789ab'']])"
  by code_simp

theorem collect_history_witness:
  "\<exists>buf s' bs. new_tsBuffer = Inr buf \<and>
     collect_cycles plain_collect show_all [idle_input, idle_input] (full_collectors (New_graph 512) buf) = Inr (s', bs) \<and>
     map (\<lambda>b. map ns_ContainerName (db_Net b)) bs = [[''docker:0123456789ab''], [''docker:0123456789ab'']] \<and>
     list_all (batch_ok show_all) bs \<and> buffer_list (cs_tsBuffer s') = bs"
proof -
  obtain buf where buf: "new_tsBuffer = Inr buf" by (simp add: new_tsBuffer_def NewBuffer_def)
  then have ok: "buffer_ok buf" "buffer_list buf = []" "b_cap buf = 300"
    using buffer_ok_new [of 300 "empty_batch zero_time" buf] by (auto simp: new_tsBuffer_def NewBuffer_def)
  let ?s = "full_collectors (New_graph 512) buf :: (int \<times> int) list CollectorSet"
  have w: "\<forall>i \<in> set [idle_input, idle_input]. answered (pw_resolve (cl_world i))" by (simp add: idle_input_answered)
  have room: "graph_room ?s (sum_list (map cycle_nodes [idle_input, idle_input]))"
    by (rule full_collectors_room) (simp add: idle_input_room)
  have b: "buffer_ok (cs_tsBuffer ?s)" by (simp add: full_collectors_def ok)
  obtain s' bs where r: "collect_cycles plain_collect show_all [idle_input, idle_input] ?s = Inr (s', bs)" "length bs = length [idle_input, idle_input]"
      "list_all (batch_ok show_all) bs" "buffer_list (cs_tsBuffer s') = take_last (nat (b_cap (cs_tsBuffer ?s))) (buffer_list (cs_tsBuffer ?s) @ bs)"
    using collect_history [OF w plain_collect_sorts room b, of show_all] by blast
  have "buffer_list (cs_tsBuffer s') = bs" using r(2,4) ok by (simp add: full_collectors_def)
  moreover have "map (\<lambda>b. map ns_ContainerName (db_Net b)) bs = [[''docker:0123456789ab''], [''docker:0123456789ab'']]"
    using idle_cycles_show unfolding buf sum.case r(1) prod.case .
  ultimately show ?thesis by (intro exI [of _ buf] exI [of _ s'] exI [of _ bs] conjI buf r(1,3))
qed

end
