(* ===== verification/TuiDemo.thy ===== *)
theory TuiDemo
  imports TuiCollect
begin

text \<open>
  Demo mode of the terminal UI (the second half of internal/tui/app/collect.go): random batches from a
  linear congruential generator seeded with the clock, and a fixed process graph. The clock is a function
  of the number of times it has been read; the generator's state is a 64-bit word whose shift and mask
  pick the upper 31 bits, as the arithmetic shift of the signed seed does.
\<close>

section \<open>The generator\<close>

definition lcg :: "u64 \<Rightarrow> u64" where
  "lcg seed = seed * 6364136223846793005 + 1442695040888963407"

definition draw :: "u64 \<Rightarrow> int" where
  "draw seed = uint (drop_bit 33 seed)"

definition rnd :: "rat \<Rightarrow> u64 \<Rightarrow> rat \<times> u64" where
  "rnd mx seed = (let seed' = lcg seed; v = fdiv (float_of_int (draw seed')) 0x7fffffff in (fmul v mx, seed'))"

definition rndi :: "int \<Rightarrow> u64 \<Rightarrow> int \<times> u64" where
  "rndi mx seed = (case rnd (float_of_int mx) seed of (x, seed') \<Rightarrow> (trunc_float x, seed'))"

section \<open>Batches\<close>

definition demo_cpu :: "string \<Rightarrow> u64 \<Rightarrow> CpuSample \<times> u64" where
  "demo_cpu c s0 =
     (let (secs, s1) = rnd 2 s0; (runq, s2) = rnd (f64 (5 / 1000)) s1; (ctx, s3) = rnd 1000 s2; (threads, s4) = rndi 50 s3
      in (\<lparr>cpu_CgroupID = 0, cpu_ContainerName = c, cpu_TotalNs = 0, cpu_RunqLatencyNs = 0, cpu_CtxSwitches = 0,
           cpu_ThreadCount = word_of_int (threads + 1), cpu_CPUSeconds = secs, cpu_RunqLatencySeconds = runq, cpu_CtxSwitchesPerSec = ctx,
           cpu_NUMALocalPct = 0, cpu_NUMARemotePct = 0, cpu_CollectedAt = zero_time\<rparr>, s4))"

definition demo_mem :: "string \<Rightarrow> u64 \<Rightarrow> MemSample \<times> u64" where
  "demo_mem c s0 =
     (let (bytes, s1) = rnd (512 * 1024 * 1024) s0; (faults, s2) = rnd 200 s1
      in (\<lparr>mem_CgroupID = 0, mem_ContainerName = c, mem_MinorFaults = 0, mem_MajorFaults = 0, mem_MinorPerSec = 0, mem_MajorPerSec = 0,
           mem_FaultsPerSec = faults, mem_MemoryBytes = word_of_int (trunc_float bytes), mem_MemoryLimitBytes = 1024 * 1024 * 1024,
           mem_VirtBytes = 0, mem_PSSBytes = 0, mem_SharedBytes = 0, mem_PSISome = 0, mem_PSIFull = 0, mem_TLBMissRate = 0,
           mem_CollectedAt = zero_time\<rparr>, s2))"

definition demo_io :: "string \<Rightarrow> u64 \<Rightarrow> IoSample \<times> u64" where
  "demo_io c s0 =
     (let (rb, s1) = rnd (5 * 1024 * 1024) s0; (wb, s2) = rnd (2 * 1024 * 1024) s1; (rl, s3) = rnd 3 s2; (wl, s4) = rnd 3 s3
      in (\<lparr>io_CgroupID = 0, io_ContainerName = c, io_ReadBytes = 0, io_WriteBytes = 0, io_ReadIOs = 0, io_WriteIOs = 0,
           io_ReadBytesPerSec = rb, io_WriteBytesPerSec = wb, io_ReadIOsPerSec = 0, io_WriteIOsPerSec = 0,
           io_AvgReadLatencyMs = rl, io_AvgWriteLatencyMs = wl, io_CollectedAt = zero_time\<rparr>, s4))"

definition demo_net :: "string \<Rightarrow> u64 \<Rightarrow> NetSummary \<times> u64" where
  "demo_net c s0 =
     (let (fl, s1) = rndi 20 s0; (es, s2) = rndi 15 s1; (tw, s3) = rndi 5 s2; (cw, s4) = rndi 3 s3; (re, s5) = rndi 10 s4
      in (\<lparr>ns_CgroupID = 0, ns_ContainerName = c, ns_Established = es, ns_TimeWait = tw, ns_CloseWait = cw, ns_Listen = 0, ns_OtherStates = 0,
           ns_ActiveFlows = fl, ns_TotalRetransmits = word_of_int re\<rparr>, s5))"

definition tcpStates :: "string list" where
  "tcpStates = [''ESTABLISHED'', ''SYN_SENT'', ''TIME_WAIT'', ''CLOSE_WAIT'']"

definition demo_tcp :: "time \<Rightarrow> string \<Rightarrow> u64 \<Rightarrow> (TuiEvent \<times> u64) go" where
  "demo_tcp now c s0 =
     (case rndi (int (length tcpStates)) s0 of (i1, s1) \<Rightarrow> go_bind (go_index tcpStates i1) (\<lambda>st1.
      case rndi (int (length tcpStates)) s1 of (i2, s2) \<Rightarrow> go_bind (go_index tcpStates i2) (\<lambda>st2.
      Inr (\<lparr>e_At = now, e_Kind = EventKindTCP, e_Container = c,
            e_Message = ''[TCP] '' @ c @ ''  '' @ st1 @ '' '' @ utf8 [226, 134, 146] @ '' '' @ st2, e_Envelope = None, e_Count = 0\<rparr>, s2))))"

text \<open>The optional OOM event draws its own pid, size, cgroup, envelope pid and envelope size, in this order.\<close>

definition demo_oom :: "time \<Rightarrow> time \<Rightarrow> string \<Rightarrow> u64 \<Rightarrow> TuiEvent \<times> u64" where
  "demo_oom now stamp c s0 =
     (let (pid, s1) = rndi 10000 s0; (kb, s2) = rndi (128 * 1024) s1; (cg, s3) = rndi 100 s2; (pid', s4) = rndi 10000 s3; (kb', s5) = rndi (256 * 1024) s4
      in (\<lparr>e_At = now, e_Kind = EventKindOOM, e_Container = c,
           e_Message = utf8 [240, 159, 148, 180] @ '' OOM KILL '' @ c @ '' pid='' @ show_int (pid + 1000) @ '' comm=stress rss='' @ show_int kb @ ''KB'',
           e_Envelope = Some (zero_event\<lparr>ev_Timestamp := stamp, ev_CgroupID := word_of_int cg, ev_ContainerName := c, ev_PID := word_of_int (pid' + 1000),
             ev_Process := ''stress'', ev_EventType := ''oom_kill'',
             ev_Metadata := [(''rss_kb'', AnyU64 (word_of_int kb')), (''limit_bytes'', AnyU64 (512 * 1024 * 1024)), (''oom_score_adj'', AnyI32 500)]\<rparr>),
           e_Count = 0\<rparr>, s5))"

text \<open>One iteration: the batch so far, the seed, and how often the clock has been read.\<close>

definition demo_container :: "(nat \<Rightarrow> time) \<Rightarrow> CollectFilter \<Rightarrow> string \<Rightarrow> DataBatch \<times> u64 \<times> nat \<Rightarrow> (DataBatch \<times> u64 \<times> nat) go" where
  "demo_container clk f c st = (case st of (b, s0, n) \<Rightarrow>
     if skipped f c then Inr st
     else let (cpu, s1) = demo_cpu c s0; (mem, s2) = demo_mem c s1; (io, s3) = demo_io c s2; (net, s4) = demo_net c s3;
              b1 = b\<lparr>db_CPU := db_CPU b @ [cpu], db_Mem := db_Mem b @ [mem], db_IO := db_IO b @ [io], db_Net := db_Net b @ [net]\<rparr>
          in go_bind (demo_tcp (clk n) c s4) (\<lambda>(tcp, s5).
             let b2 = b1\<lparr>db_Events := db_Events b1 @ [tcp]\<rparr>
             in case rndi 10 s5 of (k, s6) \<Rightarrow>
                if k = 0
                then let (oom, s7) = demo_oom (clk (n + 1)) (clk (n + 2)) c s6 in Inr (b2\<lparr>db_Events := db_Events b2 @ [oom]\<rparr>, s7, n + 3)
                else Inr (b2, s6, n + 1)))"

section \<open>The demo graph\<close>

definition cgName :: "u64 \<Rightarrow> string" where
  "cgName cg = (case map_of [(1, ''docker:nginx''), (2, ''docker:postgres''), (3, ''docker:redis'')] cg of None \<Rightarrow> [] | Some n \<Rightarrow> n)"

definition mkFork :: "time \<Rightarrow> u64 \<Rightarrow> u32 \<Rightarrow> u32 \<Rightarrow> string \<Rightarrow> string \<Rightarrow> int \<Rightarrow> u32 \<Rightarrow> EventEnvelope" where
  "mkFork now cg pid ppid comm parent secsAgo sid =
     zero_event\<lparr>ev_Timestamp := now - secsAgo * 10 ^ 9, ev_CgroupID := cg, ev_ContainerName := cgName cg, ev_PID := pid, ev_PPID := ppid,
       ev_Process := comm, ev_ParentProcess := parent, ev_EventType := EventTypeFork,
       ev_Metadata := (if sid \<noteq> 0 then [(''sid'', AnyU32 sid)] else [])\<rparr>"

definition mkExec :: "time \<Rightarrow> u64 \<Rightarrow> u32 \<Rightarrow> u32 \<Rightarrow> string \<Rightarrow> string \<Rightarrow> EventEnvelope" where
  "mkExec now cg pid ppid comm path =
     zero_event\<lparr>ev_Timestamp := now - 10 ^ 9, ev_CgroupID := cg, ev_ContainerName := cgName cg, ev_PID := pid, ev_PPID := ppid,
       ev_Process := comm, ev_EventType := EventTypeExec, ev_Metadata := [(''full_path'', AnyString path)]\<rparr>"

definition demo_processes :: "time \<Rightarrow> graph_op list" where
  "demo_processes now =
    [OpFork (mkFork now 1 1 0 ''containerd'' [] 120 1), OpFork (mkFork now 1 100 1 ''dockerd'' ''containerd'' 110 1),
     OpFork (mkFork now 1 200 100 ''runc'' ''dockerd'' 100 2), OpFork (mkFork now 1 301 200 ''nginx'' ''runc'' 95 2),
     OpFork (mkFork now 1 302 200 ''nginx'' ''runc'' 94 2), OpFork (mkFork now 1 303 200 ''nginx'' ''runc'' 93 2),
     OpExec (mkExec now 1 301 200 ''nginx'' ''/usr/sbin/nginx''), OpExec (mkExec now 1 302 200 ''nginx'' ''/usr/sbin/nginx''),
     OpExec (mkExec now 1 303 200 ''nginx'' ''/usr/sbin/nginx''),
     OpFork (mkFork now 2 1 0 ''containerd'' [] 80 3), OpFork (mkFork now 2 400 1 ''runc'' ''containerd'' 79 3),
     OpFork (mkFork now 2 500 400 ''python3'' ''runc'' 70 3), OpFork (mkFork now 2 501 500 ''gunicorn'' ''python3'' 65 3),
     OpFork (mkFork now 2 601 501 ''worker'' ''gunicorn'' 60 3), OpFork (mkFork now 2 602 501 ''worker'' ''gunicorn'' 59 3),
     OpFork (mkFork now 2 603 501 ''worker'' ''gunicorn'' 58 3),
     OpExec (mkExec now 2 500 400 ''python3'' ''/usr/bin/python3''), OpExec (mkExec now 2 501 500 ''gunicorn'' ''/usr/local/bin/gunicorn''),
     OpFork (mkFork now 3 1 0 ''postgres'' [] 50 4), OpFork (mkFork now 3 700 1 ''postgres'' ''postgres'' 49 4),
     OpFork (mkFork now 3 701 1 ''postgres'' ''postgres'' 48 4), OpFork (mkFork now 3 702 1 ''postgres'' ''postgres'' 47 4),
     OpExec (mkExec now 3 1 0 ''postgres'' ''/usr/lib/postgresql/14/bin/postgres'')]"

definition demo_correlations :: "time \<Rightarrow> graph_op list" where
  "demo_correlations now =
    [OpCorrelate 2 601 (zero_event\<lparr>ev_Timestamp := now - 5 * 10 ^ 9, ev_CgroupID := 2, ev_PID := 601, ev_EventType := EventTypePrivEsc,
       ev_Process := ''worker'', ev_Metadata := [(''cap'', AnyString ''CAP_SYS_ADMIN'')]\<rparr>),
     OpCorrelate 1 301 (zero_event\<lparr>ev_Timestamp := now - 2 * 10 ^ 9, ev_CgroupID := 1, ev_PID := 301, ev_EventType := EventTypeDNSQuery,
       ev_Process := ''nginx'', ev_Metadata := [(''query'', AnyString ''api.internal.'')]\<rparr>)]"

fun demo_skips :: "CollectFilter \<Rightarrow> graph_op \<Rightarrow> bool" where
  "demo_skips f (OpFork env) = skipped f (ev_ContainerName env)"
| "demo_skips f (OpExec env) = skipped f (ev_ContainerName env)"
| "demo_skips f _ = False"

definition buildDemoGraph :: "((NodeKey, SnapshotNode) gomap \<Rightarrow> NodeKey list \<Rightarrow> NodeKey list) \<Rightarrow> time \<Rightarrow> time \<Rightarrow> CollectFilter \<Rightarrow> Snapshot go" where
  "buildDemoGraph srt now snapAt f =
     go_bind (graph_run (filter (\<lambda>op. \<not> demo_skips f op) (demo_processes now) @ demo_correlations now) (New_graph 512)) (Snapshot_graph srt snapAt)"

definition genDemoBatch :: "((NodeKey, SnapshotNode) gomap \<Rightarrow> NodeKey list \<Rightarrow> NodeKey list) \<Rightarrow> (nat \<Rightarrow> time) \<Rightarrow> CollectFilter \<Rightarrow> DataBatch go" where
  "genDemoBatch srt clk f =
     go_bind (go_fold (demo_container clk f) DemoContainers (empty_batch (clk 0), word_of_int (clk 1), 2)) (\<lambda>(b, _, n).
     go_bind (buildDemoGraph srt (clk n) (clk (n + 1)) f) (\<lambda>sn. Inr (b\<lparr>db_Graph := Some sn\<rparr>)))"

text \<open>The command of the data loop: what a refresh runs after its delay.\<close>

definition collect_once :: "'h collect_env \<Rightarrow> bool \<Rightarrow> CollectFilter \<Rightarrow> (nat \<Rightarrow> time) \<Rightarrow> collect_input \<Rightarrow> 'h CollectorSet \<Rightarrow> 'h cycle go" where
  "collect_once V demo f clk i s =
     (if demo then go_bind (genDemoBatch (ce_roots V) clk f) (\<lambda>b. Inr (s, b)) else collectReal V f i s)"

section \<open>Draws\<close>

abbreviation max_draw :: int where
  "max_draw \<equiv> 0x7fffffff"

lemma draw_range: "0 \<le> draw s" "draw s \<le> max_draw"
proof -
  have "uint (drop_bit 33 s) = uint s div 2 ^ 33" by (simp add: uint_div drop_bit_eq_div)
  moreover have "uint s < 2 ^ 64" using uint_bounded [of s] by simp
  ultimately show "0 \<le> draw s" "draw s \<le> max_draw" by (simp_all add: draw_def pos_imp_zdiv_nonneg_iff)
qed

lemma demo_rnd_range:
  assumes "0 \<le> mx" and "mx < 2 ^ 53"
  shows "0 \<le> fst (rnd (of_int mx) s)" "fst (rnd (of_int mx) s) \<le> of_int mx"
proof -
  let ?v = "fdiv (float_of_int (draw (lcg s))) 0x7fffffff"
  have d: "float_of_int (draw (lcg s)) = of_int (draw (lcg s))" using draw_range [of "lcg s"] by (simp add: float_of_int_def f64_int)
  have q: "0 \<le> (of_int (draw (lcg s)) / 0x7fffffff :: rat)" "(of_int (draw (lcg s)) / 0x7fffffff :: rat) \<le> 1"
    using draw_range [of "lcg s"] by (simp_all add: divide_le_eq)
  have v: "0 \<le> ?v \<and> ?v \<le> 1" unfolding fdiv_def d using f64.rnd_range [of 0 _ 1] q by simp
  have "0 \<le> ?v * of_int mx" "?v * of_int mx \<le> of_int mx" using v assms by (simp_all add: mult_left_le_one_le)
  then have "0 \<le> fmul ?v (of_int mx) \<and> fmul ?v (of_int mx) \<le> of_int mx"
    unfolding fmul_def using f64.rnd_range [of 0 "?v * of_int mx" mx] assms by simp
  then show "0 \<le> fst (rnd (of_int mx) s)" "fst (rnd (of_int mx) s) \<le> of_int mx" by (simp_all add: rnd_def Let_def)
qed

lemma snd_rnd [simp]: "snd (rnd mx s) = lcg s"
  by (simp add: rnd_def Let_def)

lemma rndi_range:
  assumes "0 \<le> mx" and "mx < 2 ^ 53"
  shows "0 \<le> fst (rndi mx s)" "fst (rndi mx s) \<le> mx"
  using demo_rnd_range [OF assms, of s] assms
  by (auto simp: rndi_def trunc_float_def float_of_int_def f64_int floor_le_iff le_floor_iff split: prod.splits)

lemma snd_rndi [simp]: "snd (rndi mx s) = lcg s"
  by (simp add: rndi_def rnd_def Let_def)

lemma f64_near_one: "f64 (2147483646 / 2147483647) * 4 \<le> 4 - 1 / 2 ^ 30" "f64 (4 - 1 / 2 ^ 30) < 4"
  by code_simp+

lemma rndi4_small:
  assumes "draw (lcg s) \<noteq> max_draw"
  shows "fst (rndi 4 s) < 4"
proof -
  let ?d = "draw (lcg s)" and ?v = "fdiv (float_of_int (draw (lcg s))) 0x7fffffff"
  have d: "float_of_int ?d = of_int ?d" "?d \<le> 2147483646" using draw_range [of "lcg s"] assms by (simp_all add: float_of_int_def f64_int)
  have "(of_int ?d :: rat) \<le> of_int 2147483646" using d(2) by (simp only: of_int_le_iff)
  then have "(of_int ?d / 0x7fffffff :: rat) \<le> 2147483646 / 2147483647" by (simp add: divide_right_mono)
  then have "?v \<le> f64 (2147483646 / 2147483647)" unfolding fdiv_def d(1) by (rule f64_mono)
  then have "?v * 4 \<le> 4 - 1 / 2 ^ 30" using f64_near_one(1) by linarith
  then have "fmul ?v 4 < 4" unfolding fmul_def using f64_mono [of "?v * 4" "4 - 1 / 2 ^ 30"] f64_near_one(2) by linarith
  moreover have "0 \<le> fmul ?v 4" using demo_rnd_range(1) [of 4 s] by (simp add: rnd_def Let_def)
  ultimately show ?thesis by (simp add: rndi_def rnd_def Let_def trunc_float_def float_of_int_def f64_numeral floor_less_iff)
qed

lemma rndi4_max:
  assumes "draw (lcg s) = max_draw"
  shows "rndi 4 s = (4, lcg s)"
  using assms f64_int [of 1] by (simp add: rndi_def rnd_def Let_def trunc_float_def float_of_int_def f64_numeral fdiv_def fmul_def)

section \<open>Batches without a maximal draw\<close>

lemma demo_tcp_ok:
  assumes "draw (lcg s) \<noteq> max_draw" and "draw (lcg (lcg s)) \<noteq> max_draw"
  shows "\<exists>ev. demo_tcp now c s = Inr (ev, lcg (lcg s))"
proof -
  have r: "\<exists>i. rndi 4 t = (i, lcg t) \<and> 0 \<le> i \<and> i < 4" if "draw (lcg t) \<noteq> max_draw" for t
    using rndi4_small [OF that] rndi_range(1) [of 4 t] snd_rndi [of 4 t] by (cases "rndi 4 t") auto
  obtain i j where "rndi 4 s = (i, lcg s)" "0 \<le> i" "i < 4" "rndi 4 (lcg s) = (j, lcg (lcg s))" "0 \<le> j" "j < 4"
    using r [OF assms(1)] r [OF assms(2)] by blast
  then show ?thesis by (simp add: demo_tcp_def tcpStates_def go_index_def)
qed

lemma demo_tcp_panics: "draw (lcg s) = max_draw \<Longrightarrow> demo_tcp now c s = Inl IndexOutOfRange"
  by (simp add: demo_tcp_def tcpStates_def rndi4_max go_index_def)

lemma demo_samples_seed:
  "snd (demo_cpu c s) = (lcg ^^ 4) s" "snd (demo_mem c s) = (lcg ^^ 2) s" "snd (demo_io c s) = (lcg ^^ 4) s"
  "snd (demo_net c s) = (lcg ^^ 5) s" "snd (demo_oom t u c s) = (lcg ^^ 5) s"
  by (simp_all add: demo_cpu_def demo_mem_def demo_io_def demo_net_def demo_oom_def rndi_def rnd_def Let_def eval_nat_numeral split: prod.splits)

lemma demo_samples_name:
  "cpu_ContainerName (fst (demo_cpu c s)) = c" "mem_ContainerName (fst (demo_mem c s)) = c" "io_ContainerName (fst (demo_io c s)) = c" "ns_ContainerName (fst (demo_net c s)) = c"
  by (simp_all add: demo_cpu_def demo_mem_def demo_io_def demo_net_def split: prod.splits)

definition demo_names :: "DataBatch \<Rightarrow> string list \<Rightarrow> bool" where
  "demo_names b ns \<longleftrightarrow> map cpu_ContainerName (db_CPU b) = ns \<and> map mem_ContainerName (db_Mem b) = ns \<and> map io_ContainerName (db_IO b) = ns \<and>
     map ns_ContainerName (db_Net b) = ns \<and> db_Sys b = []"

lemma demo_container_seed:
  "\<exists>cpu mem io net. demo_container clk f c (b, s, n) =
     (if skipped f c then Inr (b, s, n) else go_bind (demo_tcp (clk n) c ((lcg ^^ 15) s)) (\<lambda>(tcp, s5).
        let b2 = b\<lparr>db_CPU := db_CPU b @ [cpu], db_Mem := db_Mem b @ [mem], db_IO := db_IO b @ [io], db_Net := db_Net b @ [net], db_Events := db_Events b @ [tcp]\<rparr>
        in case rndi 10 s5 of (k, s6) \<Rightarrow> if k = 0 then let (oom, s7) = demo_oom (clk (n + 1)) (clk (n + 2)) c s6 in Inr (b2\<lparr>db_Events := db_Events b2 @ [oom]\<rparr>, s7, n + 3)
           else Inr (b2, s6, n + 1))) \<and>
     cpu_ContainerName cpu = c \<and> mem_ContainerName mem = c \<and> io_ContainerName io = c \<and> ns_ContainerName net = c"
proof -
  obtain cpu s1 where 1: "demo_cpu c s = (cpu, s1)" by fastforce
  obtain mem s2 where 2: "demo_mem c s1 = (mem, s2)" by fastforce
  obtain io s3 where 3: "demo_io c s2 = (io, s3)" by fastforce
  obtain net s4 where 4: "demo_net c s3 = (net, s4)" by fastforce
  have "s1 = (lcg ^^ 4) s" "s2 = (lcg ^^ 2) s1" "s3 = (lcg ^^ 4) s2" "s4 = (lcg ^^ 5) s3"
    using demo_samples_seed(1) [of c s] demo_samples_seed(2) [of c s1] demo_samples_seed(3) [of c s2] demo_samples_seed(4) [of c s3] 1 2 3 4 by simp_all
  then have "s4 = (lcg ^^ (5 + (4 + (2 + 4)))) s" by (simp only: funpow_add comp_apply)
  moreover have "cpu_ContainerName cpu = c" "mem_ContainerName mem = c" "io_ContainerName io = c" "ns_ContainerName net = c"
    using demo_samples_name(1) [of c s] demo_samples_name(2) [of c s1] demo_samples_name(3) [of c s2] demo_samples_name(4) [of c s3] 1 2 3 4 by simp_all
  ultimately show ?thesis
    by (intro exI [of _ cpu] exI [of _ mem] exI [of _ io] exI [of _ net]) (simp add: demo_container_def 1 2 3 4)
qed

text \<open>A container uses at most 23 draws.\<close>

lemma demo_container_ok:
  assumes "\<forall>k \<le> 17. draw ((lcg ^^ k) s) \<noteq> max_draw" and "demo_names b ns"
  shows "\<exists>b' j n'. demo_container clk f c (b, s, n) = Inr (b', (lcg ^^ j) s, n') \<and> j \<le> 23 \<and> demo_names b' (ns @ (if skipped f c then [] else [c]))"
proof (cases "skipped f c")
  case True
  then show ?thesis using assms(2) by (auto simp: demo_container_def intro: exI [of _ "0 :: nat"])
next
  case False
  obtain cpu mem io net where eq: "demo_container clk f c (b, s, n) = go_bind (demo_tcp (clk n) c ((lcg ^^ 15) s)) (\<lambda>(tcp, s5).
        let b2 = b\<lparr>db_CPU := db_CPU b @ [cpu], db_Mem := db_Mem b @ [mem], db_IO := db_IO b @ [io], db_Net := db_Net b @ [net], db_Events := db_Events b @ [tcp]\<rparr>
        in case rndi 10 s5 of (k, s6) \<Rightarrow> if k = 0 then let (oom, s7) = demo_oom (clk (n + 1)) (clk (n + 2)) c s6 in Inr (b2\<lparr>db_Events := db_Events b2 @ [oom]\<rparr>, s7, n + 3)
           else Inr (b2, s6, n + 1))"
      and names: "cpu_ContainerName cpu = c" "mem_ContainerName mem = c" "io_ContainerName io = c" "ns_ContainerName net = c"
    using demo_container_seed [of clk f c b s n] False by auto
  have "lcg ((lcg ^^ 15) s) = (lcg ^^ 16) s" "lcg (lcg ((lcg ^^ 15) s)) = (lcg ^^ 17) s"
    by (simp_all add: eval_nat_numeral)
  then obtain tcp where tcp: "demo_tcp (clk n) c ((lcg ^^ 15) s) = Inr (tcp, (lcg ^^ 17) s)"
    using demo_tcp_ok [of "(lcg ^^ 15) s" "clk n" c] assms(1) by auto
  obtain k where k: "rndi 10 ((lcg ^^ 17) s) = (k, (lcg ^^ 18) s)"
    using snd_rndi [of 10 "(lcg ^^ 17) s"] funpow.simps(2) [of 17 lcg] by (cases "rndi 10 ((lcg ^^ 17) s)") simp
  have oom: "snd (demo_oom t u c ((lcg ^^ 18) s)) = (lcg ^^ 23) s" for t u
    using funpow_add [of 5 18 lcg] by (simp add: demo_samples_seed(5) comp_def fun_eq_iff)
  show ?thesis
  proof (cases "k = 0")
    case True
    obtain ev where "demo_oom (clk (n + 1)) (clk (n + 2)) c ((lcg ^^ 18) s) = (ev, (lcg ^^ 23) s)"
      using oom [of "clk (n + 1)" "clk (n + 2)"] by (cases "demo_oom (clk (n + 1)) (clk (n + 2)) c ((lcg ^^ 18) s)") simp
    then show ?thesis using True False eq tcp k names assms(2)
      by (auto simp: demo_names_def intro!: exI [of _ "23 :: nat"])
  next
    case no: False
    then show ?thesis using False eq tcp k names assms(2)
      by (auto simp: demo_names_def intro!: exI [of _ "18 :: nat"])
  qed
qed

lemma demo_fold_ok:
  "\<forall>k \<le> 23 * length cs. draw ((lcg ^^ k) s) \<noteq> max_draw \<Longrightarrow> demo_names b ns \<Longrightarrow>
   \<exists>b' s' n'. go_fold (demo_container clk f) cs (b, s, n) = Inr (b', s', n') \<and> demo_names b' (ns @ filter (\<lambda>c. \<not> skipped f c) cs)"
proof (induction cs arbitrary: b s n ns)
  case (Cons c cs)
  have "\<forall>k \<le> 17. draw ((lcg ^^ k) s) \<noteq> max_draw" using Cons.prems(1) by simp
  then obtain b1 j n1 where 1: "demo_container clk f c (b, s, n) = Inr (b1, (lcg ^^ j) s, n1)" "j \<le> 23" "demo_names b1 (ns @ (if skipped f c then [] else [c]))"
    using demo_container_ok [OF _ Cons.prems(2)] by blast
  have "draw ((lcg ^^ k) ((lcg ^^ j) s)) \<noteq> max_draw" if "k \<le> 23 * length cs" for k
    using Cons.prems(1) [rule_format, of "k + j"] that 1(2) by (simp add: funpow_add)
  from Cons.IH [OF _ 1(3), of "(lcg ^^ j) s" n1] this 1(1) show ?case by (auto split: if_splits)
qed simp

section \<open>The demo graph\<close>

lemma buildDemoGraph_ok: "\<exists>sn. buildDemoGraph srt now snapAt f = Inr sn"
proof -
  let ?ops = "filter (\<lambda>op. \<not> demo_skips f op) (demo_processes now) @ demo_correlations now"
  have "length (filter (\<lambda>op. \<not> demo_skips f op) (demo_processes now)) \<le> length (demo_processes now)" by (rule length_filter_le)
  then have "2 * length ?ops \<le> 100" by (simp add: demo_processes_def demo_correlations_def del: filter.simps)
  then have "seq_room (New_graph 512) (2 * length ?ops)" by (simp add: seq_room_def New_graph_def)
  then obtain g where "graph_run ?ops (New_graph 512) = Inr g" "graph_inv g" using graph_run_inv [OF graph_inv_New(1)] by blast
  then show ?thesis using Snapshot_total [of g srt snapAt] by (auto simp: buildDemoGraph_def)
qed

text \<open>
  Demo mode builds a batch from every seed whose first 184 draws are not the largest possible one: CPU,
  memory, I/O and network have one sample for each demo container that the container filter lets through,
  in the order of the list, every sample is named, and a snapshot of the demo process graph is attached.
\<close>

theorem demo_batch_complete:
  assumes "\<forall>k \<le> 184. draw ((lcg ^^ k) (word_of_int (clk 1))) \<noteq> max_draw"
  shows "\<exists>b sn. genDemoBatch srt clk f = Inr b \<and> named_batch b \<and> demo_names b (filter (\<lambda>c. \<not> skipped f c) DemoContainers) \<and> db_Graph b = Some sn"
proof -
  have len: "23 * length DemoContainers = 184" by (simp add: DemoContainers_def)
  obtain b s' n where b: "go_fold (demo_container clk f) DemoContainers (empty_batch (clk 0), word_of_int (clk 1), 2) = Inr (b, s', n)"
      and names: "demo_names b (filter (\<lambda>c. \<not> skipped f c) DemoContainers)"
    using demo_fold_ok [of DemoContainers "word_of_int (clk 1)" "empty_batch (clk 0)" "[]" clk f 2] assms unfolding len
    by (auto simp: demo_names_def empty_batch_def)
  obtain sn where sn: "buildDemoGraph srt (clk n) (clk (n + 1)) f = Inr sn" using buildDemoGraph_ok by blast
  have "[] \<notin> set DemoContainers" by (simp add: DemoContainers_def)
  then have "list_all (\<lambda>c. c \<noteq> []) (filter (\<lambda>c. \<not> skipped f c) DemoContainers)" by (auto simp: list_all_iff)
  then have "named_batch b" using names
    by (simp add: demo_names_def named_batch_def list.pred_map [symmetric] comp_def) (metis (no_types, lifting) comp_def list.pred_map list.pred_mono_strong)
  then show ?thesis using b sn names by (auto simp: genDemoBatch_def demo_names_def named_batch_def)
qed

text \<open>
  C16: The demo generator can crash the terminal UI: its random index may equal the length of the state
  table. When the upper 31 bits of the sixteenth generator state after the seed are all ones, building the
  batch panics with an index out of range, whatever the filter.
\<close>

theorem demo_batch_panics:
  assumes "draw ((lcg ^^ 16) (word_of_int (clk 1))) = max_draw"
  shows "genDemoBatch srt clk f = Inl IndexOutOfRange"
proof -
  let ?s = "word_of_int (clk 1) :: u64"
  have "\<not> skipped f ''docker:nginx''" by (simp add: skipped_def isContainer_tui_def)
  moreover have "lcg ((lcg ^^ 15) ?s) = (lcg ^^ 16) ?s" by (simp add: eval_nat_numeral)
  ultimately have "demo_container clk f ''docker:nginx'' (empty_batch (clk 0), ?s, 2) = Inl IndexOutOfRange"
    using demo_container_seed [of clk f "''docker:nginx''" "empty_batch (clk 0)" ?s 2] demo_tcp_panics [of "(lcg ^^ 15) ?s"] assms by auto
  then show ?thesis by (simp add: genDemoBatch_def DemoContainers_def)
qed

text \<open>A nanosecond of 30 May 2025 at which the terminal UI in demo mode crashes.\<close>

theorem demo_batch_panics_witness:
  "genDemoBatch (\<lambda>_ ks. ks) (\<lambda>_. 1748602976731406635) \<lparr>fl_ContainersOnly = True, fl_TopN = 0, fl_ShowFiles = False, fl_ShowTCP = False, fl_ShowSlowSys = False\<rparr>
     = Inl IndexOutOfRange"
proof (rule demo_batch_panics)
  show "draw ((lcg ^^ 16) (word_of_int 1748602976731406635)) = max_draw" by code_simp
qed

fun no_max_draw :: "nat \<Rightarrow> u64 \<Rightarrow> bool" where
  "no_max_draw 0 s \<longleftrightarrow> draw s \<noteq> max_draw"
| "no_max_draw (Suc n) s \<longleftrightarrow> draw s \<noteq> max_draw \<and> no_max_draw n (lcg s)"

lemma no_max_draw_iff: "no_max_draw n s \<longleftrightarrow> (\<forall>k \<le> n. draw ((lcg ^^ k) s) \<noteq> max_draw)"
proof (induction n arbitrary: s)
  case (Suc n)
  have "(\<forall>k \<le> Suc n. draw ((lcg ^^ k) s) \<noteq> max_draw) \<longleftrightarrow> draw s \<noteq> max_draw \<and> (\<forall>k \<le> n. draw ((lcg ^^ Suc k) s) \<noteq> max_draw)"
    using All_less_Suc2 [of "Suc n" "\<lambda>k. draw ((lcg ^^ k) s) \<noteq> max_draw"] by (simp only: less_Suc_eq_le funpow_0)
  then show ?case using Suc by (simp add: funpow_swap1)
qed simp

theorem demo_batch_complete_witness:
  "\<exists>b. genDemoBatch (\<lambda>_ ks. ks) (\<lambda>_. 0) \<lparr>fl_ContainersOnly = True, fl_TopN = 0, fl_ShowFiles = False, fl_ShowTCP = False, fl_ShowSlowSys = False\<rparr> = Inr b \<and>
     map cpu_ContainerName (db_CPU b) = [''docker:nginx'', ''docker:postgres'', ''docker:redis'', ''cri:api-server'', ''cri:etcd'', ''cgroup:dockerd'']"
proof -
  have "no_max_draw 184 (word_of_int 0)" by code_simp
  then have "\<forall>k \<le> 184. draw ((lcg ^^ k) (word_of_int 0)) \<noteq> max_draw" by (simp add: no_max_draw_iff)
  from demo_batch_complete [of "\<lambda>_. 0", OF this, of "\<lambda>_ ks. ks" "\<lparr>fl_ContainersOnly = True, fl_TopN = 0, fl_ShowFiles = False, fl_ShowTCP = False, fl_ShowSlowSys = False\<rparr>"]
  show ?thesis by (auto simp: demo_names_def DemoContainers_def skipped_def isContainer_tui_def)
qed

end
