(* ===== verification/TuiMain.thy ===== *)
theory TuiMain
  imports Loaders App TuiDemo
begin

text \<open>
  The entry point of the terminal UI (cmd/tui/main.go, cmd/tui/collectors.go): its module loaders, the
  command-line overrides of the configuration, the start-up sequence with its two deferred clean-ups, the
  collector set it hands to the application, and the two ways it ends. The kernel is the parameter of the
  theory of the agent's loaders.
\<close>

section \<open>Loaders\<close>

definition tui_loadCPU :: "kernel \<Rightarrow> string \<Rightarrow> live \<Rightarrow> live \<times> (load_error + loaded)" where
  "tui_loadCPU K objPath = load_module K objPath
     [(''sched'', ''sched_switch'', ''trace_sched_switch''), (''sched'', ''sched_wakeup'', ''trace_sched_wakeup''),
      (''sched'', ''sched_process_fork'', ''trace_sched_fork''), (''sched'', ''sched_process_exit'', ''trace_sched_exit'')]
     [''cpu_stats_map''] None"

definition tui_loadMemory :: "kernel \<Rightarrow> string \<Rightarrow> live \<Rightarrow> live \<times> (load_error + loaded)" where
  "tui_loadMemory K objPath L =
     (if \<not> kn_spec K objPath then (L, Inl LoadSpec)
      else if \<not> kn_coll K objPath then (L, Inl NewCollection)
      else let L1 = add_mset (Coll objPath) L in
        if \<not> kn_prog K objPath ''trace_oom_mark_victim'' then (close_res (Coll objPath) L1, Inl (ProgNotFound ''trace_oom_mark_victim''))
        else if \<not> kn_tracepoint K ''oom'' ''mark_victim'' then (close_res (Coll objPath) L1, Inl (AttachFailed ''oom'' ''mark_victim''))
        else let oomLnk = Lnk objPath ''oom'' ''mark_victim''; pfLnk = Lnk objPath ''exceptions'' ''page_fault_user'';
                 ok = kn_prog K objPath ''trace_page_fault_user'' \<and> kn_tracepoint K ''exceptions'' ''page_fault_user''
             in finish_load K objPath [''page_fault_map'', ''oom_events''] (Some ''oom_events'')
                  (if ok then [oomLnk, pfLnk] else [oomLnk]) (if ok then add_mset pfLnk (add_mset oomLnk L1) else add_mset oomLnk L1))"

definition tui_loadIO :: "kernel \<Rightarrow> string \<Rightarrow> live \<Rightarrow> live \<times> (load_error + loaded)" where
  "tui_loadIO K objPath = load_module K objPath
     [(''block'', ''block_rq_issue'', ''trace_block_rq_issue''), (''block'', ''block_rq_complete'', ''trace_block_rq_complete''),
      (''syscalls'', ''sys_enter_openat'', ''trace_sys_enter_openat'')] [''io_stats_map'', ''file_events''] (Some ''file_events'')"

definition tui_loadNetwork :: "kernel \<Rightarrow> string \<Rightarrow> live \<Rightarrow> live \<times> (load_error + loaded)" where
  "tui_loadNetwork K objPath = load_module K objPath
     [(''sock'', ''inet_sock_set_state'', ''trace_inet_sock_set_state''), (''tcp'', ''tcp_retransmit_skb'', ''trace_tcp_retransmit'')]
     [''conn_stats_map'', ''tcp_event_rb''] (Some ''tcp_event_rb'')"

definition tui_loadSyscall :: "kernel \<Rightarrow> string \<Rightarrow> live \<Rightarrow> live \<times> (load_error + loaded)" where
  "tui_loadSyscall K objPath = load_module K objPath
     [(''raw_syscalls'', ''sys_enter'', ''trace_sys_enter''), (''raw_syscalls'', ''sys_exit'', ''trace_sys_exit'')]
     [''syscall_stats_map'', ''slow_syscall_rb''] (Some ''slow_syscall_rb'')"

text \<open>The stand-alone lineage loader, which \<^verbatim>\<open>main\<close> does not call; pinning the map only logs its failures.\<close>

definition tui_loadLineage :: "kernel \<Rightarrow> string \<Rightarrow> live \<Rightarrow> live \<times> (load_error + loaded)" where
  "tui_loadLineage K objPath = load_module K objPath
     [(''sched'', ''sched_process_fork'', ''trace_lineage_fork''), (''sched'', ''sched_process_exit'', ''trace_lineage_exit'')]
     [''process_fork_rb'', ''process_tree_map''] (Some ''process_fork_rb'')"

definition tui_loadExecWithColl :: "kernel \<Rightarrow> string \<Rightarrow> live \<Rightarrow> live \<times> (load_error + loaded)" where
  "tui_loadExecWithColl K objPath = load_module K objPath [(''syscalls'', ''sys_enter_execve'', ''trace_exec'')] [''exec_events''] (Some ''exec_events'')"

text \<open>Without a ring buffer the lineage collector opens no reader, so only the missing map is an error.\<close>

definition tui_loadLineageFromExec :: "kernel \<Rightarrow> string \<Rightarrow> load_error option" where
  "tui_loadLineageFromExec K execPath = (if kn_map K execPath ''process_tree_map'' then None else Some (MapNotFound ''process_tree_map''))"

definition tui_loadDNS :: "kernel \<Rightarrow> string \<Rightarrow> live \<Rightarrow> live \<times> (load_error + loaded)" where
  "tui_loadDNS K objPath = load_module K objPath
     [(''syscalls'', ''sys_enter_sendto'', ''trace_dns_send''), (''syscalls'', ''sys_enter_sendmsg'', ''trace_dns_sendmsg''),
      (''syscalls'', ''sys_enter_sendmmsg'', ''trace_dns_sendmmsg''), (''syscalls'', ''sys_enter_write'', ''trace_dns_write''),
      (''syscalls'', ''sys_enter_connect'', ''trace_dns_connect''), (''syscalls'', ''sys_enter_close'', ''trace_dns_close'')]
     [''dns_events''] (Some ''dns_events'')"

definition tui_loadPrivEsc :: "kernel \<Rightarrow> string \<Rightarrow> live \<Rightarrow> live \<times> (load_error + loaded \<times> bool)" where
  "tui_loadPrivEsc K objPath L = (case load_probes K objPath
       [(''syscalls'', ''sys_enter_setuid'', ''trace_setuid''), (''syscalls'', ''sys_enter_setgid'', ''trace_setgid''),
        (''syscalls'', ''sys_enter_ptrace'', ''trace_ptrace'')] L of
      (L1, Inl e) \<Rightarrow> (L1, Inl e)
    | (L1, Inr links) \<Rightarrow>
        let capKprobeAvailable = kn_prog K objPath ''kprobe_cap_capable'' \<and> kn_kprobe K ''cap_capable'';
            lnk = KLnk objPath ''cap_capable''
        in (case finish_load K objPath [''privesc_events''] (Some ''privesc_events'') (if capKprobeAvailable then links @ [lnk] else links)
                (if capKprobeAvailable then add_mset lnk L1 else L1) of
              (L3, Inl e) \<Rightarrow> (L3, Inl e) | (L3, Inr l) \<Rightarrow> (L3, Inr (l, capKprobeAvailable))))"

definition tui_loadEscape :: "kernel \<Rightarrow> string \<Rightarrow> live \<Rightarrow> live \<times> (load_error + loaded)" where
  "tui_loadEscape K objPath = load_module K objPath
     [(''syscalls'', ''sys_enter_mount'', ''trace_mount''), (''syscalls'', ''sys_enter_unshare'', ''trace_unshare''),
      (''syscalls'', ''sys_enter_pivot_root'', ''trace_pivot_root'')] [''escape_events''] (Some ''escape_events'')"

text \<open>The loaders mirror those of the agent.\<close>

lemma tui_loaders:
  "tui_loadCPU = loadCPU" "tui_loadMemory = loadMemory" "tui_loadIO = loadIO" "tui_loadNetwork = loadNetwork" "tui_loadSyscall = loadSyscall"
  "tui_loadLineage = loadLineage" "tui_loadExecWithColl = loadExecWithColl" "tui_loadLineageFromExec = loadLineageFromExec" "tui_loadDNS = loadDNS"
  "tui_loadEscape = loadEscape"
  by (simp_all add: fun_eq_iff tui_loadCPU_def loadCPU_def cpu_probes_def tui_loadMemory_def loadMemory_def tui_loadIO_def loadIO_def io_probes_def
      tui_loadNetwork_def loadNetwork_def network_probes_def tui_loadSyscall_def loadSyscall_def syscall_probes_def tui_loadLineage_def loadLineage_def
      lineage_probes_def tui_loadExecWithColl_def loadExecWithColl_def exec_probes_def tui_loadLineageFromExec_def loadLineageFromExec_def tui_loadDNS_def
      loadDNS_def dns_probes_def tui_loadEscape_def loadEscape_def escape_probes_def Let_def)

lemma tui_loadPrivEsc_eq: "tui_loadPrivEsc K path L = loadPrivEsc K path L"
  by (auto simp: tui_loadPrivEsc_def loadPrivEsc_def privesc_probes_def Let_def split: prod.splits sum.splits)

section \<open>Flags and configuration\<close>

record tui_flags =
  tf_interval :: int
  tf_bpf :: flags
  tf_containersOnly :: bool
  tf_showFiles :: bool
  tf_showTCP :: bool
  tf_showSlowSys :: bool
  tf_topN :: int
  tf_demo :: bool
  tf_theme :: string
  tf_richMem :: bool

definition override_config :: "tui_flags \<Rightarrow> Config \<Rightarrow> Config" where
  "override_config f cfg0 =
     (let cfg1 = (if 0 < tf_interval f then cfg0\<lparr>cf_DataIntervalMs := tf_interval f div 10 ^ 6\<rparr> else cfg0);
          cfg2 = (if tf_containersOnly f then cfg1\<lparr>cf_ContainersOnly := True\<rparr> else cfg1);
          cfg3 = (if tf_showFiles f then cfg2\<lparr>cf_ShowFiles := True\<rparr> else cfg2);
          cfg4 = (if tf_showTCP f then cfg3\<lparr>cf_ShowTCP := True\<rparr> else cfg3);
          cfg5 = (if tf_showSlowSys f then cfg4\<lparr>cf_ShowSlowSys := True\<rparr> else cfg4);
          cfg6 = (if 0 < tf_topN f then cfg5\<lparr>cf_TopN := tf_topN f\<rparr> else cfg5)
      in if tf_theme f \<noteq> [] then cfg6\<lparr>cf_Theme := tf_theme f\<rparr> else cfg6)"

section \<open>Start-up\<close>

text \<open>
  The live resources, the links gathered for the deferred \<^verbatim>\<open>closeLinks\<close>, the collection whose close is
  deferred, and the collectors that loaded.
\<close>

record tui_proc =
  tp_live :: live
  tp_allLinks :: "resource list"
  tp_execRaw :: "resource option"
  tp_cpu :: bool
  tp_mem :: bool
  tp_io :: bool
  tp_net :: bool
  tp_sys :: bool
  tp_lineage :: bool
  tp_exec :: bool
  tp_dns :: bool
  tp_privesc :: bool
  tp_escape :: bool

definition no_collectors :: tui_proc where
  "no_collectors = \<lparr>tp_live = {#}, tp_allLinks = [], tp_execRaw = None, tp_cpu = False, tp_mem = False, tp_io = False, tp_net = False, tp_sys = False,
     tp_lineage = False, tp_exec = False, tp_dns = False, tp_privesc = False, tp_escape = False\<rparr>"

definition take_links :: "live \<times> (load_error + loaded) \<Rightarrow> tui_proc \<Rightarrow> tui_proc \<times> bool" where
  "take_links res p = (case res of
      (L, Inl e) \<Rightarrow> (p\<lparr>tp_live := L\<rparr>, False)
    | (L, Inr l) \<Rightarrow> (p\<lparr>tp_live := L, tp_allLinks := tp_allLinks p @ ld_links l\<rparr>, True))"

definition tui_metrics :: "kernel \<Rightarrow> flags \<Rightarrow> tui_proc \<Rightarrow> tui_proc" where
  "tui_metrics K f p0 =
     (let (p1, mem) = take_links (tui_loadMemory K (f_memBPF f) (tp_live p0)) p0;
          (p2, io) = take_links (tui_loadIO K (f_ioBPF f) (tp_live p1)) p1;
          (p3, net) = take_links (tui_loadNetwork K (f_netBPF f) (tp_live p2)) p2;
          (p4, sys) = take_links (tui_loadSyscall K (f_sysBPF f) (tp_live p3)) p3
      in p4\<lparr>tp_mem := mem, tp_io := io, tp_net := net, tp_sys := sys\<rparr>)"

definition tui_detectors :: "kernel \<Rightarrow> flags \<Rightarrow> tui_proc \<Rightarrow> tui_proc" where
  "tui_detectors K f p0 =
     (let (p1, dns) = take_links (tui_loadDNS K (f_dnsBPF f) (tp_live p0)) p0;
          (p2, priv) = take_links (apsnd (map_sum id fst) (tui_loadPrivEsc K (f_privescBPF f) (tp_live p1))) p1;
          (p3, esc) = take_links (tui_loadEscape K (f_escapeBPF f) (tp_live p2)) p2
      in p3\<lparr>tp_dns := dns, tp_privesc := priv, tp_escape := esc\<rparr>)"

definition tui_security :: "kernel \<Rightarrow> flags \<Rightarrow> tui_proc \<Rightarrow> tui_proc" where
  "tui_security K f p0 = (case take_links (tui_loadExecWithColl K (f_execBPF f) (tp_live p0)) p0 of
      (p1, False) \<Rightarrow> p1
    | (p1, True) \<Rightarrow>
        let p2 = p1\<lparr>tp_exec := True, tp_execRaw := Some (Coll (f_execBPF f))\<rparr>
        in case tui_loadLineageFromExec K (f_execBPF f) of Some e \<Rightarrow> p2 | None \<Rightarrow> tui_detectors K f (p2\<lparr>tp_lineage := True\<rparr>))"

text \<open>A failing CPU module ends the process before anything is deferred; demo mode loads nothing.\<close>

definition tui_start :: "kernel \<Rightarrow> tui_flags \<Rightarrow> live \<times> load_error + tui_proc" where
  "tui_start K f =
     (if tf_demo f then Inr no_collectors
      else case tui_loadCPU K (f_cpuBPF (tf_bpf f)) {#} of
          (L, Inl e) \<Rightarrow> Inl (L, e)
        | (L, Inr l) \<Rightarrow> Inr (tui_security K (tf_bpf f) (tui_metrics K (tf_bpf f)
            (no_collectors\<lparr>tp_live := L, tp_allLinks := ld_links l, tp_cpu := True\<rparr>))))"

definition tui_collectors :: "tui_flags \<Rightarrow> tui_proc \<Rightarrow> DataBatch buffer \<Rightarrow> 'h CollectorSet" where
  "tui_collectors f p buf =
     \<lparr>cs_CPU = (if tp_cpu p then Some NewCpuCollector else None),
      cs_Mem = (if tp_mem p then Some (NewMemoryCollector\<lparr>mc_RichMem := tf_richMem f\<rparr>) else None),
      cs_IO = (if tp_io p then Some NewIoCollector else None), cs_Net = tp_net p, cs_Syscall = tp_sys p, cs_Lineage = tp_lineage p, cs_Exec = tp_exec p,
      cs_DNS = tp_dns p, cs_PrivEsc = tp_privesc p, cs_Escape = tp_escape p, cs_SecWriter = Some [], cs_Graph = Some (New_graph DefaultMaxNodes),
      cs_latencyAgg = NewLatencyAggregator, cs_tsBuffer = buf\<rparr>"

definition tui_launch :: "('vp, 'ti) tui_env \<Rightarrow> kernel \<Rightarrow> tui_flags \<Rightarrow> Config \<Rightarrow> (live \<times> load_error + tui_proc \<times> 'h CollectorSet \<times> ('vp, 'ti) App) go" where
  "tui_launch E K f cfg =
     go_bind new_tsBuffer (\<lambda>buf.
     case tui_start K f of
       Inl e \<Rightarrow> Inr (Inl e)
     | Inr p \<Rightarrow> go_bind (New_app E (override_config f cfg) (tf_demo f)) (\<lambda>root. Inr (Inr (p, tui_collectors f p buf, root))))"

text \<open>Leaving \<^verbatim>\<open>main\<close> runs the deferred calls, last one first; \<^verbatim>\<open>os.Exit\<close> after a terminal error runs none.\<close>

definition tui_end :: "bool \<Rightarrow> tui_proc \<Rightarrow> live" where
  "tui_end runError p =
     (if runError then tp_live p
      else let L = closeLinks (tp_allLinks p) (tp_live p) in case tp_execRaw p of None \<Rightarrow> L | Some c \<Rightarrow> close_res c L)"

section \<open>What is released\<close>

definition is_reader :: "resource \<Rightarrow> bool" where
  "is_reader r = (case r of Rd _ _ \<Rightarrow> True | _ \<Rightarrow> False)"

definition is_link :: "resource \<Rightarrow> bool" where
  "is_link r \<longleftrightarrow> \<not> is_coll r \<and> \<not> is_reader r"

lemma resource_kinds [simp]: "\<not> is_link (Coll c)" "\<not> is_link (Rd a b)" "is_link (Lnk x y z)" "is_link (KLnk x y)"
  by (simp_all add: is_link_def is_coll_def is_reader_def)

lemma leaked_links [simp]: "filter_mset is_link (leaked K path probes) = leaked K path probes"
  by (rule filter_mset_eq_conv [THEN iffD2]) (auto simp: leaked_def probe_link_def split: if_splits prod.splits)

text \<open>The gathered links are live, they are links, and the other live links are the given ones.\<close>

definition links_held :: "tui_proc \<Rightarrow> live \<Rightarrow> bool" where
  "links_held p X \<longleftrightarrow> list_all is_link (tp_allLinks p) \<and> mset (tp_allLinks p) \<subseteq># tp_live p \<and> filter_mset is_link (tp_live p - mset (tp_allLinks p)) = X"

lemma links_held_fields [simp]:
  "links_held (p\<lparr>tp_mem := b\<rparr>) X = links_held p X" "links_held (p\<lparr>tp_io := b\<rparr>) X = links_held p X" "links_held (p\<lparr>tp_net := b\<rparr>) X = links_held p X"
  "links_held (p\<lparr>tp_sys := b\<rparr>) X = links_held p X" "links_held (p\<lparr>tp_exec := b\<rparr>) X = links_held p X" "links_held (p\<lparr>tp_lineage := b\<rparr>) X = links_held p X"
  "links_held (p\<lparr>tp_dns := b\<rparr>) X = links_held p X" "links_held (p\<lparr>tp_privesc := b\<rparr>) X = links_held p X" "links_held (p\<lparr>tp_escape := b\<rparr>) X = links_held p X"
  "links_held (p\<lparr>tp_execRaw := c\<rparr>) X = links_held p X"
  by (simp_all add: links_held_def)

text \<open>A loader hands out links as links and readers as readers.\<close>

definition well_sorted :: "live \<times> (load_error + loaded) \<Rightarrow> bool" where
  "well_sorted res \<longleftrightarrow> (\<forall>L l. res = (L, Inr l) \<longrightarrow> filter_mset is_link (mset (ld_readers l)) = {#} \<and> list_all is_link (ld_links l))"

lemma finish_sorted:
  "finish_load K path maps reader links L = (L', Inr l) \<Longrightarrow> list_all is_link links \<Longrightarrow> filter_mset is_link (mset (ld_readers l)) = {#} \<and> list_all is_link (ld_links l)"
  by (auto simp: finish_load_def split: option.splits if_splits)

lemma probes_are_links: "load_probes K path probes L = (L', Inr links) \<Longrightarrow> list_all is_link links"
  by (drule load_probes_Inr) (auto simp: list_all_iff probe_link_def split: prod.splits)

lemma loaders_sorted:
  "well_sorted (load_module K path probes maps reader L)" "well_sorted (loadMemory K path L)"
  "well_sorted (apsnd (map_sum id fst) (loadPrivEsc K path L))"
  by (auto simp: well_sorted_def load_module_def loadMemory_def loadPrivEsc_def Let_def dest!: finish_sorted dest: probes_are_links split: prod.splits sum.splits if_splits)

lemma take_links_held:
  assumes "links_held p X" and "load_result_ok (tp_live p) Y res" and "well_sorted res" and "filter_mset is_link Y = Y"
  shows "links_held (fst (take_links res p)) (X + Y)"
proof -
  define D where "D = tp_live p - mset (tp_allLinks p)"
  have L: "tp_live p = D + mset (tp_allLinks p)" and X: "filter_mset is_link D = X" and l: "list_all is_link (tp_allLinks p)"
    using assms(1) by (simp_all add: links_held_def D_def)
  obtain L' q where res: "res = (L', q)" by fastforce
  show ?thesis
  proof (cases q)
    case (Inl e)
    then have "fst (take_links res p) = p\<lparr>tp_live := (D + Y) + mset (tp_allLinks p)\<rparr>"
      using assms(2) res L by (simp add: take_links_def load_result_ok_def)
    then show ?thesis using X l assms(4) by (simp add: links_held_def)
  next
    case (Inr l)
    then have "fst (take_links res p) = p\<lparr>tp_live := (D + {#ld_coll l#} + mset (ld_readers l)) + mset (tp_allLinks p @ ld_links l),
        tp_allLinks := tp_allLinks p @ ld_links l\<rparr>"
      and c: "is_coll (ld_coll l)" "Y = {#}" "filter_mset is_link (mset (ld_readers l)) = {#}" "list_all is_link (ld_links l)"
      using assms(2,3) res L by (simp_all add: take_links_def load_result_ok_def well_sorted_def)
    then show ?thesis using X \<open>list_all is_link (tp_allLinks p)\<close> by (simp add: links_held_def is_link_def)
  qed
qed

text \<open>The modules one by one.\<close>

lemma module_held:
  "links_held p X \<Longrightarrow> links_held (fst (take_links (load_module K path probes maps reader (tp_live p)) p)) (X + leaked K path probes)"
  by (rule take_links_held [OF _ load_module_result loaders_sorted(1)]) simp_all

lemma memory_held: "links_held p X \<Longrightarrow> links_held (fst (take_links (loadMemory K path (tp_live p)) p)) X"
  using take_links_held [OF _ loadMemory_result loaders_sorted(2), of p X K path] by simp

lemma privesc_held:
  "links_held p X \<Longrightarrow> links_held (fst (take_links (apsnd (map_sum id fst) (tui_loadPrivEsc K path (tp_live p))) p)) (X + leaked K path privesc_probes)"
  unfolding tui_loadPrivEsc_eq by (rule take_links_held [OF _ loadPrivEsc_result loaders_sorted(3)]) simp_all

lemma tui_metrics_held:
  assumes "links_held p X"
  shows "links_held (tui_metrics K f p) (X + leaked K (f_ioBPF f) io_probes + leaked K (f_netBPF f) network_probes + leaked K (f_sysBPF f) syscall_probes)"
  using module_held [OF module_held [OF module_held [OF memory_held [OF assms]]]]
  by (simp add: tui_metrics_def tui_loaders loader_defs case_prod_beta Let_def)

lemma tui_detectors_held:
  assumes "links_held p X"
  shows "links_held (tui_detectors K f p) (X + leaked K (f_dnsBPF f) dns_probes + leaked K (f_privescBPF f) privesc_probes + leaked K (f_escapeBPF f) escape_probes)"
  using module_held [OF privesc_held [OF module_held [OF assms]]]
  by (simp add: tui_detectors_def tui_loaders loader_defs case_prod_beta Let_def)

lemma tui_proc_kept [simp]:
  "tp_lineage (fst (take_links r q)) = tp_lineage q" "tp_execRaw (fst (take_links r q)) = tp_execRaw q"
  "tp_lineage (tui_detectors K f q) = tp_lineage q" "tp_execRaw (tui_detectors K f q) = tp_execRaw q"
  "tp_lineage (tui_metrics K f q) = tp_lineage q" "tp_execRaw (tui_metrics K f q) = tp_execRaw q"
proof -
  show *: "tp_lineage (fst (take_links r q)) = tp_lineage q" "tp_execRaw (fst (take_links r q)) = tp_execRaw q" for r q
    by (auto simp: take_links_def split: prod.splits sum.splits)
  show "tp_lineage (tui_detectors K f q) = tp_lineage q" "tp_execRaw (tui_detectors K f q) = tp_execRaw q"
    "tp_lineage (tui_metrics K f q) = tp_lineage q" "tp_execRaw (tui_metrics K f q) = tp_execRaw q"
    by (simp_all add: tui_detectors_def tui_metrics_def case_prod_beta Let_def *)
qed

lemma tui_security_held:
  assumes "links_held p X" and "\<not> tp_lineage p"
  shows "links_held (tui_security K f p) (X + leaked K (f_execBPF f) exec_probes +
     (if tp_lineage (tui_security K f p)
      then leaked K (f_dnsBPF f) dns_probes + leaked K (f_privescBPF f) privesc_probes + leaked K (f_escapeBPF f) escape_probes else {#}))"
proof -
  let ?res = "tui_loadExecWithColl K (f_execBPF f) (tp_live p)"
  obtain q ok where q: "take_links ?res p = (q, ok)" by fastforce
  have h: "links_held (fst (take_links ?res p)) (X + leaked K (f_execBPF f) exec_probes)"
    using module_held [OF assms(1)] by (simp add: tui_loaders loader_defs)
  then have "links_held (q\<lparr>tp_exec := True, tp_execRaw := Some (Coll (f_execBPF f)), tp_lineage := True\<rparr>) (X + leaked K (f_execBPF f) exec_probes)"
    by (simp add: q)
  note det = tui_detectors_held [OF this, of K f]
  have "\<not> tp_lineage q" using tui_proc_kept(1) [of ?res p] assms(2) q by simp
  then show ?thesis using det h q
    by (cases ok) (auto simp: tui_security_def Let_def add.assoc split: option.splits)
qed

definition tui_leaks :: "kernel \<Rightarrow> flags \<Rightarrow> tui_proc \<Rightarrow> live" where
  "tui_leaks K f p = leaked K (f_ioBPF f) io_probes + leaked K (f_netBPF f) network_probes + leaked K (f_sysBPF f) syscall_probes + leaked K (f_execBPF f) exec_probes +
     (if tp_lineage p then leaked K (f_dnsBPF f) dns_probes + leaked K (f_privescBPF f) privesc_probes + leaked K (f_escapeBPF f) escape_probes else {#})"

lemma tui_end_links:
  assumes "links_held p X" and "\<forall>c. tp_execRaw p = Some c \<longrightarrow> is_coll c"
  shows "filter_mset is_link (tui_end False p) = X" "filter_mset is_reader (tui_end False p) = filter_mset is_reader (tp_live p)"
proof -
  have c: "filter_mset is_link (close_res c L) = filter_mset is_link L" "filter_mset is_reader (close_res c L) = filter_mset is_reader L" if "is_coll c" for c L
    using that by (auto simp: close_res_def is_link_def is_reader_def is_coll_def split: resource.splits)
  have none: "filter_mset is_reader (mset (tp_allLinks p)) = {#}" using assms(1) by (auto simp: links_held_def list_all_iff is_link_def intro!: filter_mset_eq_conv [THEN iffD2])
  have close: "filter_mset P (tui_end False p) = filter_mset P (tp_live p - mset (tp_allLinks p))" if "P = is_link \<or> P = is_reader" for P
    using that assms(2) c by (cases "tp_execRaw p") (auto simp: tui_end_def closeLinks_mset)
  show "filter_mset is_link (tui_end False p) = X" using close [of is_link] assms(1) by (simp add: links_held_def)
  show "filter_mset is_reader (tui_end False p) = filter_mset is_reader (tp_live p)"
    using close [of is_reader] none by (simp only: filter_diff_mset) simp
qed

lemma tui_execRaw:
  assumes "tui_start K f = Inr p" and "tp_execRaw p = Some c"
  shows "is_coll c"
proof -
  have "is_coll c" if "tp_execRaw q = None" "tp_execRaw (tui_security K g q) = Some c" for q g
  proof -
    obtain x ok where x: "take_links (tui_loadExecWithColl K (f_execBPF g) (tp_live q)) q = (x, ok)" by fastforce
    then have "tp_execRaw x = None" using tui_proc_kept(2) [of "tui_loadExecWithColl K (f_execBPF g) (tp_live q)" q] that(1) by simp
    then show ?thesis using that(2) x by (cases ok) (auto simp: tui_security_def is_coll_def Let_def split: option.splits)
  qed
  note sec = this
  show ?thesis
  proof (cases "tf_demo f")
    case False
    obtain L q where r: "tui_loadCPU K (f_cpuBPF (tf_bpf f)) {#} = (L, q)" by fastforce
    then obtain l where "q = Inr l" using assms(1) False by (cases q) (auto simp: tui_start_def)
    then have "p = tui_security K (tf_bpf f) (tui_metrics K (tf_bpf f) (no_collectors\<lparr>tp_live := L, tp_allLinks := ld_links l, tp_cpu := True\<rparr>))"
      using assms(1) False r by (simp add: tui_start_def)
    then show ?thesis using assms(2) by (intro sec) (simp_all add: no_collectors_def)
  qed (use assms in \<open>auto simp: tui_start_def no_collectors_def\<close>)
qed

text \<open>
  C14: Quitting the terminal UI detaches every probe that its start-up attached, whatever the kernel
  refused, except the links a loader had attached before one of its later probes failed; none is left in
  demo mode. The ring-buffer readers all stay open, and when the terminal reports an error nothing at all
  is released, because the process exits without running its deferred calls. A failing CPU module ends the
  start-up with only its own attached links left.
\<close>

theorem tui_quit_releases_links:
  "case tui_start K f of
     Inl (L, e) \<Rightarrow> L = leaked K (f_cpuBPF (tf_bpf f)) cpu_probes
   | Inr p \<Rightarrow> filter_mset is_link (tui_end False p) = (if tf_demo f then {#} else tui_leaks K (tf_bpf f) p) \<and>
       filter_mset is_reader (tui_end False p) = filter_mset is_reader (tp_live p) \<and> tui_end True p = tp_live p"
proof (cases "tf_demo f")
  case True
  then show ?thesis by (simp add: tui_start_def no_collectors_def tui_end_def closeLinks_def)
next
  case False
  let ?b = "tf_bpf f"
  obtain L q where res: "loadCPU K (f_cpuBPF ?b) {#} = (L, q)" by fastforce
  have ok: "load_result_ok {#} (leaked K (f_cpuBPF ?b) cpu_probes) (L, q)"
    using load_module_result [of "{#}" K "f_cpuBPF ?b" cpu_probes "[''cpu_stats_map'']" None] res by (simp add: loader_defs)
  show ?thesis
  proof (cases q)
    case (Inl e)
    with ok res False show ?thesis by (simp add: tui_start_def tui_loaders load_result_ok_def)
  next
    case (Inr l)
    define p0 where "p0 = no_collectors\<lparr>tp_live := L, tp_allLinks := ld_links l, tp_cpu := True\<rparr>"
    have "fst (take_links (loadCPU K (f_cpuBPF ?b) (tp_live no_collectors)) no_collectors) = p0\<lparr>tp_cpu := False\<rparr>"
      using res Inr by (simp add: take_links_def p0_def no_collectors_def)
    moreover have "links_held no_collectors {#}" by (simp add: links_held_def no_collectors_def)
    ultimately have "links_held (p0\<lparr>tp_cpu := False\<rparr>) (leaked K (f_cpuBPF ?b) cpu_probes)"
      using module_held [of no_collectors "{#}" K "f_cpuBPF ?b" cpu_probes "[''cpu_stats_map'']" None] by (simp add: loader_defs)
    then have "links_held p0 {#}" using ok Inr by (simp add: links_held_def load_result_ok_def)
    note held = tui_security_held [OF tui_metrics_held [OF this], of K ?b K ?b]
    have "\<not> tp_lineage (tui_metrics K ?b p0)" by (simp add: p0_def no_collectors_def)
    then have "links_held (tui_security K ?b (tui_metrics K ?b p0)) (tui_leaks K ?b (tui_security K ?b (tui_metrics K ?b p0)))"
      using held by (simp add: tui_leaks_def)
    moreover have start: "tui_start K f = Inr (tui_security K ?b (tui_metrics K ?b p0))" using res Inr False by (simp add: tui_start_def tui_loaders p0_def)
    ultimately show ?thesis using tui_end_links tui_execRaw [OF start] False by (simp add: tui_end_def)
  qed
qed

section \<open>Launch\<close>

lemma override_config_keeps:
  "cf_RenderFPS (override_config f cfg) = cf_RenderFPS cfg"
  "cf_ContainersOnly (override_config f cfg) \<longleftrightarrow> cf_ContainersOnly cfg \<or> tf_containersOnly f"
  "cf_TopN (override_config f cfg) = (if 0 < tf_topN f then tf_topN f else cf_TopN cfg)"
  by (simp_all add: override_config_def Let_def)

text \<open>An interval flag below a millisecond does not shorten the refresh: it becomes the default second.\<close>

lemma short_interval: "0 < tf_interval f \<Longrightarrow> tf_interval f < 10 ^ 6 \<Longrightarrow> DataInterval (override_config f cfg) = 10 ^ 9"
  by (simp add: override_config_def DataInterval_def Let_def times_duration_def millisecond_def)

lemma tui_collectors_ready:
  assumes "new_tsBuffer = Inr buf" and "n < 2 ^ 64 - 1"
  shows "graph_room (tui_collectors f p buf) n" "buffer_ok (cs_tsBuffer (tui_collectors f p buf))" "buffer_list (cs_tsBuffer (tui_collectors f p buf)) = []"
    "b_cap (cs_tsBuffer (tui_collectors f p buf)) = 300"
proof -
  have "buffer_ok buf" "buffer_list buf = []" "b_cap buf = 300"
    using assms(1) buffer_ok_new [of 300 "empty_batch zero_time" buf] by (auto simp: new_tsBuffer_def NewBuffer_def)
  moreover have "seq_room (New_graph DefaultMaxNodes) n" using assms(2) by (simp add: seq_room_def New_graph_def)
  ultimately show "graph_room (tui_collectors f p buf) n" "buffer_ok (cs_tsBuffer (tui_collectors f p buf))" "buffer_list (cs_tsBuffer (tui_collectors f p buf)) = []"
      "b_cap (cs_tsBuffer (tui_collectors f p buf)) = 300"
    using graph_inv_New(1) [of DefaultMaxNodes] by (simp_all add: tui_collectors_def graph_room_def)
qed

end
