(* ===== verification/Tracer.thy ===== *)
theory Tracer
  imports Loaders
begin

text \<open>
  The stand-alone tracer (main.go in the root of the repository): it loads one object file, attaches three
  tracepoints, and once a second prints the increase of two kernel counters and the execve counts.
\<close>

section \<open>Start-up\<close>

record ProcKey =
  pk_PID :: u32
  pk_TID :: u32
  pk_Comm :: "u8 list"

definition tracer_probes :: "probe list" where
  "tracer_probes = [(''syscalls'', ''sys_enter_execve'', ''trace_execve''), (''sched'', ''sched_switch'', ''trace_sched''), (''net'', ''netif_receive_skb'', ''trace_netif_receive'')]"

text \<open>A nil program cannot be attached, and every failure is fatal: the process exits without running its deferred closes.\<close>

definition tracer_start :: "kernel \<Rightarrow> live \<times> load_error option" where
  "tracer_start K =
     (let path = ''ebpf/program.o'' in
      if \<not> kn_spec K path then ({#}, Some LoadSpec)
      else if \<not> kn_coll K path then ({#}, Some NewCollection)
      else case dropWhile (\<lambda>(cat, ev, prog). kn_prog K path prog \<and> kn_tracepoint K cat ev) tracer_probes of
          [] \<Rightarrow> (add_mset (Coll path) (mset (map (\<lambda>(cat, ev, _). Lnk path cat ev) tracer_probes)), None)
        | (cat, ev, _) # _ \<Rightarrow>
            (add_mset (Coll path) (mset (map (\<lambda>(cat, ev, _). Lnk path cat ev) (takeWhile (\<lambda>(cat, ev, prog). kn_prog K path prog \<and> kn_tracepoint K cat ev) tracer_probes))),
             Some (AttachFailed cat ev)))"

section \<open>The loop\<close>

text \<open>One second: the two counters, \<open>None\<close> when the lookup fails, and the entries of the execve map.\<close>

record tracer_input =
  tr_ctx :: "u64 option"
  tr_packet :: "u64 option"
  tr_procs :: "(ProcKey \<times> u64) list"

datatype tracer_line = StatsLine u64 u64 | ExecLine string u32 u32 u64

definition trim_nul :: "u8 list \<Rightarrow> u8 list" where
  "trim_nul bs = rev (dropWhile (\<lambda>b. b = 0) (rev bs))"

definition exec_line :: "ProcKey \<times> u64 \<Rightarrow> tracer_line" where
  "exec_line e = (case e of (k, n) \<Rightarrow> ExecLine (map (\<lambda>b. char_of (unat b)) (trim_nul (pk_Comm k))) (pk_PID k) (pk_TID k) n)"

definition tracer_round :: "tracer_input \<Rightarrow> u64 \<times> u64 \<Rightarrow> tracer_line list \<times> u64 \<times> u64" where
  "tracer_round i prev = (case prev of (prevCtx, prevPacket) \<Rightarrow>
     let ctxCount = (case tr_ctx i of None \<Rightarrow> 0 | Some n \<Rightarrow> n); packetCount = (case tr_packet i of None \<Rightarrow> 0 | Some n \<Rightarrow> n)
     in (StatsLine (ctxCount - prevCtx) (packetCount - prevPacket) # map exec_line (tr_procs i), ctxCount, packetCount))"

fun tracer_run :: "tracer_input list \<Rightarrow> u64 \<times> u64 \<Rightarrow> tracer_line list" where
  "tracer_run [] prev = []"
| "tracer_run (i # is) prev = (case tracer_round i prev of (out, prev') \<Rightarrow> out @ tracer_run is prev')"

section \<open>What is printed\<close>

fun stats_of :: "tracer_line \<Rightarrow> (u64 \<times> u64) option" where
  "stats_of (StatsLine c p) = Some (c, p)"
| "stats_of (ExecLine _ _ _ _) = None"

lemma map_filter_append: "List.map_filter f (xs @ ys) = List.map_filter f xs @ List.map_filter f ys"
  by (induction xs) (auto simp: List.map_filter_simps split: option.splits)

lemma stats_exec [simp]: "List.map_filter stats_of (map exec_line es) = []"
  by (induction es) (auto simp: List.map_filter_simps exec_line_def)

lemma trim_nul_ends: "trim_nul bs = [] \<or> last (trim_nul bs) \<noteq> 0"
proof (cases "dropWhile (\<lambda>b. b = 0) (rev bs)")
  case (Cons b ds)
  then have "b \<noteq> 0" using hd_dropWhile [of "\<lambda>b. b = 0" "rev bs"] by simp
  then show ?thesis using Cons by (simp add: trim_nul_def)
qed (simp add: trim_nul_def)

text \<open>
  The printed rates telescope: over any number of seconds their sum, modulo \<open>2 ^ 64\<close>, is the last reading
  minus the start value, so no increase is lost or counted twice.
\<close>

theorem tracer_rates_telescope:
  assumes "is \<noteq> []" and "\<forall>i \<in> set is. tr_ctx i \<noteq> None \<and> tr_packet i \<noteq> None"
  shows "sum_list (map fst (List.map_filter stats_of (tracer_run is (c0, p0)))) = the (tr_ctx (last is)) - c0 \<and>
    sum_list (map snd (List.map_filter stats_of (tracer_run is (c0, p0)))) = the (tr_packet (last is)) - p0"
  using assms
proof (induction "is" arbitrary: c0 p0)
  case (Cons i "is")
  obtain c p where i: "tr_ctx i = Some c" "tr_packet i = Some p" using Cons.prems(2) by auto
  then have run: "List.map_filter stats_of (tracer_run (i # is) (c0, p0)) = (c - c0, p - p0) # List.map_filter stats_of (tracer_run is (c, p))"
    by (simp add: tracer_round_def Let_def List.map_filter_simps map_filter_append)
  show ?case
  proof (cases "is = []")
    case True
    then show ?thesis unfolding run by (simp add: i List.map_filter_simps)
  next
    case False
    with Cons.IH [of c p] Cons.prems(2) show ?thesis unfolding run by simp
  qed
qed simp

text \<open>A failed lookup prints a huge rate: the subtraction of the previous reading wraps around.\<close>

lemma tracer_failed_lookup: "0 < c \<Longrightarrow> fst (tracer_round \<lparr>tr_ctx = None, tr_packet = Some p, tr_procs = []\<rparr> (c, p)) = [StatsLine (- c) 0]"
  by (simp add: tracer_round_def Let_def)

end
