(* ===== verification/Spec2Isabelle.thy ===== *)
theory Spec2Isabelle
  imports GraphQueries Percentile ResolverClock ObserverRun TeaLoop TuiKeys TuiMain Tracer
begin

text \<open>
  Verification of the eBPF observability agent: a command-line agent (cmd/observer), a terminal UI
  (cmd/tui, internal/tui) and the collectors, resolver, graph and exporter they share (pkg). Kernel
  programs fill hash maps and ring buffers; the Go code polls them, names the cgroups they mention,
  turns counters into rates, decodes events, and prints, exports or displays the result. The Go code
  is modelled by pure functions on explicit state, one definition per function or per phase of a long
  function. File names below are relative to src/.

  \<^bold>\<open>Conventions\<close> (theories Prelude, GoStrings, GoFloat). A Go panic is a value: a computation that may
  panic has the type \<open>'a go\<close>, a sum with the panic on the left, and \<open>go_bind\<close> sequences it; slice and
  array accesses are checked. Machine integers are words, and Go's \<^verbatim>\<open>int\<close>, which is never near its
  limits here, is an unbounded integer. A map is an association list with distinct keys; the order in
  which Go ranges over it, and the order \<^verbatim>\<open>sort.Slice\<close> gives to equal elements, are arguments, so the theorems
  hold for all of them. A \<^verbatim>\<open>float64\<close> is a rational rounded to 53 bits after each operation;
  infinities, NaN and subnormals do not occur for the values at hand. A \<^verbatim>\<open>time.Time\<close> is a number of nanoseconds and the clock an
  argument. Strings are byte lists; \<^verbatim>\<open>strings.ToLower\<close> is the ASCII one, except in the command palette, where the query is what
  the user types: there it is an argument of which only the ASCII part is fixed.

  \<^bold>\<open>Shared packages.\<close>
  \<^item> RingBuffer (pkg/timeseries): the circular buffer; the locale \<open>bounded_log\<close> is its contract (it keeps
    the last items up to its capacity), interpreted again on the sparkline and on the event ring of a graph node.
  \<^item> Event (pkg/event): the envelope and the writer interface, a locale that the agent's and the terminal
    UI's writers interpret.
  \<^item> ProcessGraph, GraphInvariants, GraphOps, GraphQueries (pkg/graph): the operations of the process graph, the invariant,
    its preservation, and what forks, evictions, ancestry queries, correlated events and snapshots do.
    The sequence counter is 64 bits wide; theorems about runs assume fewer operations than it can number.
  \<^item> Percentile (pkg/percentile): the tumbling windows of latency histograms. The histogram library is a
    record of functions whose reset law is a hypothesis.
  \<^item> CgroupPaths, Resolver, ResolverClock (pkg/cgroup): names from cgroup paths and pod lists, the cache
    with its bounded history, the fact that no lookup in a reachable state answers with an empty name, on which the collection
    theorems rest, and the two background goroutines as a timed step relation, which bounds the age of what the resolver answers. Files, the kubelet and the Docker daemon are arguments.
  \<^item> Wire, Lineage, SecurityRecords, MetricRecords, SecurityCollectors (pkg/lineage and the ring-buffer side of
    pkg/collector): decoding of every raw record, the drain loops, and the envelopes. The locale \<open>raw_record\<close> states the
    round trip with the C layout and the totality of a drain, and is interpreted for all nine record types.
  \<^item> ProcFs, PollCollectors, NetSyscall (the polling side of pkg/collector): one poll of each collector,
    with its previous values; the locale \<open>poll_collector\<close> is interpreted for CPU, memory and I/O.
  \<^item> Exporter (pkg/exporter): the metric vectors and every update; the Prometheus client is a parameter
    with its set and increment laws as hypothesis, and with the law that as many label values as labels give a metric. The
    client also rejects label values that are not UTF-8; the theorems are about clients that accept the names at hand.

  \<^bold>\<open>The agent\<close> (cmd/observer/main.go). Loaders models the module loaders over a multiset of live kernel
  resources, with the start-up sequence and the deferred closes; Observer models the table printers, drains,
  writers and one tick; ObserverRun composes them into the run from start to stop signal. Tracer is
  the stand-alone tracer in main.go.

  \<^bold>\<open>The terminal UI.\<close>
  \<^item> TuiMsg, KeyMaps, TableWidget, Sparkline, TuiChrome: messages, key maps, widgets, layout, configuration and themes
    (internal/tui/msg, keys, widgets, layout, config, theme). The table matches keys with its own loop over a binding, which is
    modelled; it draws lines with their style, so that the highlighted row depends on the focus. The text input and viewport of
    the widget library are parameters with the laws the code relies on. Drawing the palette is total for ASCII text only, and a
    lemma shows the panic for other text.
  \<^item> TableViews, EventsView, ProcGraphView, SparkViews, DetailView (internal/tui/views): each view refines a
    simple description of what it shows. Five table views share the locale \<open>table_view_kind\<close>; their cached
    drawing is the current one up to the focus, which does not invalidate it. TabViews
    puts all nine behind the locale \<open>tui_view\<close> of the view interface.
  \<^item> App, AppRuns, TeaLoop (internal/tui/app/app.go): the application state machine, its invariant and the
    absence of panics for every message sequence, and a step relation for the concurrent commands of the
    run-time, with reachability and progress. These runs are of \<^verbatim>\<open>Update\<close>; \<^verbatim>\<open>View\<close> is modelled as a function of
    the state and not one of their events. TuiKeys relates the key handler and the table to the key maps.
  \<^item> TuiCollect, TuiDemo (internal/tui/app/collect.go): the collection cycle and the demo generator.
  \<^item> TuiMain (cmd/tui): flags, loaders, launch and exit. The theory at hand composes launch, collection and
    application into runs of the whole program.

  \<^bold>\<open>What the theorems show.\<close> Invariants of the graph, the table, the resolver and the application over
  all runs; safety of both programs from launch to exit; refinement of the views and buffers; exactness of counters,
  rates, summaries and rankings; round trips of the record decoders; termination of the tree walk; bounds
  on freshness and memory; and liveness of the refresh loop. Theorems of kind error describe defects exactly: the
  inputs on which the code panics or reports a wrong value. Panics that such defects cause are excluded from the safety
  theorems by naming the input (the backward sort key of a table, a demo seed, unnamed samples), never by weakening the model.

  \<^bold>\<open>Bounds and fuel.\<close> Loops are structural recursion on the list the code iterates over. The ancestry walks recurse on their depth
  bound, which the code has too; the tree walk of the process-graph view carries its visited set, and
  its measure is the number of processes not yet visited. No other fuel occurs.

  \<^bold>\<open>Atomicity and aliasing.\<close> Operations under a mutex are atomic. The batch of a refresh is shared by all views, which
  sort its slices in place: the model passes the batch through the views in the order of the code, and the sorted batch on
  to the next. The history keeps batches as they were pushed; the theorems about it count and order them.

  \<^bold>\<open>Not modelled.\<close> The kernel-side C programs, whose maps and records are the inputs here; the HTTP server, signal delivery and
  logging; colours, box drawing and the decoration of printed tables, which carry no state; deployment files. A collector's map
  iteration is the list of entries it yields and whether it ended in an error.
\<close>

section \<open>The terminal UI end to end\<close>

text \<open>
  What happens to a running terminal UI: a message arrives (user input, draw ticks, theme changes and so
  on), or the pending collection command runs and its batch is delivered. The command carries the filter it was
  issued with; in demo mode it generates its batch from the clock. The state also records the batches delivered so far,
  to state what the history holds. Drawing is a separate call of the run-time and not an event here.
\<close>

datatype tui_event = Input tea_msg | Refresh "nat \<Rightarrow> time" collect_input

record ('vp, 'ti, 'h) tui_world =
  tw_colls :: "'h CollectorSet"
  tw_app :: "('vp, 'ti) App"
  tw_demo :: bool
  tw_filter :: CollectFilter
  tw_batches :: "DataBatch list"

definition next_filter :: "tea_cmd \<Rightarrow> CollectFilter \<Rightarrow> CollectFilter" where
  "next_filter c f = (case c of CollectCmd _ f' \<Rightarrow> f' | _ \<Rightarrow> f)"

fun tui_step :: "('vp, 'ti) tui_env \<Rightarrow> 'h collect_env \<Rightarrow> tui_event \<Rightarrow> ('vp, 'ti, 'h) tui_world \<Rightarrow> ('vp, 'ti, 'h) tui_world go" where
  "tui_step E V (Input m) w = go_bind (App_Update E m (tw_app w)) (\<lambda>(a, c). Inr (w\<lparr>tw_app := a\<rparr>))"
| "tui_step E V (Refresh clk i) w =
     go_bind (background_oom i (tw_colls w)) (\<lambda>s0.
     go_bind (collect_once V (tw_demo w) (tw_filter w) clk i s0) (\<lambda>(s, b).
     go_bind (App_Update E (DataMsg b) (tw_app w)) (\<lambda>(a, c).
       Inr (w\<lparr>tw_colls := s, tw_app := a, tw_filter := next_filter c (tw_filter w), tw_batches := tw_batches w @ [b]\<rparr>))))"

definition start_world :: "bool \<Rightarrow> 'h CollectorSet \<Rightarrow> ('vp, 'ti) App \<Rightarrow> ('vp, 'ti, 'h) tui_world" where
  "start_world demo s a = \<lparr>tw_colls = s, tw_app = a, tw_demo = demo, tw_filter = collectFilter a, tw_batches = []\<rparr>"

text \<open>
  Messages and refreshes that none of the defects shown elsewhere turns into a panic: collections whose names come
  from the cgroup resolver, and demo seeds without a maximal draw.
\<close>

fun calm_event :: "bool \<Rightarrow> tui_event \<Rightarrow> bool" where
  "calm_event demo (Input m) = calm_msg m"
| "calm_event demo (Refresh clk i) = (if demo then no_max_draw 184 (word_of_int (clk 1)) else answered (pw_resolve (cl_world i)))"

fun event_nodes :: "tui_event \<Rightarrow> nat" where
  "event_nodes (Input m) = 0"
| "event_nodes (Refresh clk i) = cycle_nodes i"

fun is_refresh :: "tui_event \<Rightarrow> bool" where
  "is_refresh (Input m) = False"
| "is_refresh (Refresh clk i) = True"

definition world_ok :: "('vp, 'ti) tui_env \<Rightarrow> nat \<Rightarrow> ('vp, 'ti, 'h) tui_world \<Rightarrow> bool" where
  "world_ok E n w \<longleftrightarrow> app_ok E (tw_app w) \<and> graph_room (tw_colls w) n \<and> buffer_ok (cs_tsBuffer (tw_colls w)) \<and>
     b_cap (cs_tsBuffer (tw_colls w)) = 300 \<and> buffer_list (cs_tsBuffer (tw_colls w)) = (if tw_demo w then [] else take_last 300 (tw_batches w))"

text \<open>A collection delivers a named batch and pushes it to the history, in demo mode without the push.\<close>

lemma collect_once_ok:
  assumes "sorts_ok (ce_sorts V)" and "world_ok E (cycle_nodes i + n) w" and "calm_event (tw_demo w) (Refresh clk i)"
  shows "\<exists>s0 s b. background_oom i (tw_colls w) = Inr s0 \<and> collect_once V (tw_demo w) (tw_filter w) clk i s0 = Inr (s, b) \<and> named_batch b \<and>
     world_ok E n (w\<lparr>tw_colls := s, tw_batches := tw_batches w @ [b]\<rparr>)"
proof (cases "tw_demo w")
  case True
  obtain b where "genDemoBatch (ce_roots V) clk (tw_filter w) = Inr b" "named_batch b"
    using demo_batch_complete [of clk "ce_roots V" "tw_filter w"] assms(3) True by (auto simp: no_max_draw_iff)
  moreover obtain s0 where s0: "background_oom i (tw_colls w) = Inr s0" "shared_part s0 = shared_part (tw_colls w)" using background_oom_ok by blast
  moreover have "graph_room s0 n" using assms(2) s0(2) seq_room_mono by (fastforce simp: world_ok_def graph_room_def shared_part_def)
  ultimately show ?thesis using True assms(2) by (simp add: collect_once_def world_ok_def shared_part_def)
next
  case False
  have w: "graph_room (tw_colls w) (cycle_nodes i + n)" "buffer_ok (cs_tsBuffer (tw_colls w))" "named_world (cl_world i)"
    using assms(2,3) False answered_world by (simp_all add: world_ok_def)
  from cycle_ok [OF w(3) assms(1) w(1,2), of "tw_filter w"] assms(2) False show ?thesis
    by (auto simp: collect_once_def world_ok_def batch_ok_def take_last_append_take_last)
qed

lemma tui_step_ok:
  assumes "env_laws E" and "sorts_ok (ce_sorts V)" and "world_ok E (event_nodes ev + n) w" and "calm_event (tw_demo w) ev"
  shows "\<exists>w'. tui_step E V ev w = Inr w' \<and> world_ok E n w' \<and> tw_demo w' = tw_demo w \<and>
    length (tw_batches w') = length (tw_batches w) + length (filter is_refresh [ev])"
proof (cases ev)
  case (Input m)
  then show ?thesis using app.progress [of E "tw_app w" m] app.preserve [of E "tw_app w" m] assms by (fastforce simp: world_ok_def)
next
  case (Refresh clk i)
  obtain s0 s b where s: "collect_once V (tw_demo w) (tw_filter w) clk i s0 = Inr (s, b)" "named_batch b"
      "world_ok E n (w\<lparr>tw_colls := s, tw_batches := tw_batches w @ [b]\<rparr>)" and "background_oom i (tw_colls w) = Inr s0"
    using collect_once_ok [OF assms(2), of E i n w clk] assms(3,4) Refresh by auto
  moreover obtain a c where "App_Update E (DataMsg b) (tw_app w) = Inr (a, c)" "app_ok E a"
    using app.progress [of E "tw_app w" "DataMsg b"] app.preserve [of E "tw_app w" "DataMsg b"] assms(1,3) s(2) by (fastforce simp: world_ok_def)
  ultimately show ?thesis using Refresh by (simp add: world_ok_def)
qed

lemma tui_run_ok:
  assumes "env_laws E" and "sorts_ok (ce_sorts V)"
  shows "world_ok E (sum_list (map event_nodes evs)) w \<Longrightarrow> list_all (calm_event (tw_demo w)) evs \<Longrightarrow>
    \<exists>w'. go_fold (tui_step E V) evs w = Inr w' \<and> world_ok E 0 w' \<and> tw_demo w' = tw_demo w \<and>
      length (tw_batches w') = length (tw_batches w) + length (filter is_refresh evs)"
proof (induction evs arbitrary: w)
  case (Cons ev evs)
  then obtain w1 where "tui_step E V ev w = Inr w1" "world_ok E (sum_list (map event_nodes evs)) w1" "tw_demo w1 = tw_demo w"
      "length (tw_batches w1) = length (tw_batches w) + length (filter is_refresh [ev])"
    using tui_step_ok [OF assms, of ev "sum_list (map event_nodes evs)" w] by auto
  with Cons.IH [of w1] Cons.prems(2) show ?case by auto
qed simp

text \<open>Start-up ends with an error only when the CPU module fails; the failures of the other modules are not fatal.\<close>

lemma tui_start_cases:
  "tui_start K f = Inl r \<longleftrightarrow> \<not> tf_demo f \<and> (\<exists>L e. tui_loadCPU K (f_cpuBPF (tf_bpf f)) {#} = (L, Inl e) \<and> r = (L, e))"
  by (auto simp: tui_start_def Let_def split: prod.splits sum.splits)

text \<open>
  C2: The terminal UI, from the command line on. It exits at start-up exactly when it is not in demo mode and its
  CPU module fails to load, whatever the other modules do. Otherwise it launches, and any interleaving of
  messages (\<^verbatim>\<open>Update\<close>) and collection cycles runs without a panic, provided the input avoids the backward sort
  key and unnamed batches, the cycles ask the cgroup resolver for names (in demo mode: no seed leads to the largest draw),
  and together bring fewer process events than the graph's 64-bit sequence counter can number. The application
  stays sound, one batch is delivered per cycle, and the history holds the last 300 delivered batches, oldest
  first, or none in demo mode. Drawing (\<^verbatim>\<open>View\<close>) is not part of these runs.
\<close>

theorem tui_end_to_end:
  assumes "env_laws E" and "sorts_ok (ce_sorts V)" and "list_all (calm_event (tf_demo f)) evs" and "sum_list (map event_nodes evs) < 2 ^ 64 - 1"
  shows "if tf_demo f \<or> (\<exists>L l. tui_loadCPU K (f_cpuBPF (tf_bpf f)) {#} = (L, Inr l))
    then \<exists>p s a w. tui_launch E K f cfg = Inr (Inr (p, s, a)) \<and> a_cfg a = override_config f cfg \<and>
       go_fold (tui_step E V) evs (start_world (tf_demo f) (s :: 'h CollectorSet) a) = Inr w \<and> app_ok E (tw_app w) \<and>
       length (tw_batches w) = length (filter is_refresh evs) \<and>
       buffer_list (cs_tsBuffer (tw_colls w)) = (if tf_demo f then [] else take_last 300 (tw_batches w))
    else \<exists>L e. tui_loadCPU K (f_cpuBPF (tf_bpf f)) {#} = (L, Inl e) \<and>
       (tui_launch E K f cfg :: (live \<times> load_error + tui_proc \<times> 'h CollectorSet \<times> ('vp, 'ti) App) go) = Inr (Inl (L, e))"
proof -
  obtain buf where buf: "new_tsBuffer = Inr buf" by (simp add: new_tsBuffer_def NewBuffer_def)
  show ?thesis
  proof (cases "tui_start K f")
    case (Inl r)
    have "tui_launch E K f cfg = (Inr (Inl r) :: (live \<times> load_error + tui_proc \<times> 'h CollectorSet \<times> ('vp, 'ti) App) go)" unfolding tui_launch_def buf by (simp add: Inl)
    with Inl show ?thesis by (auto simp: tui_start_cases)
  next
    case (Inr p)
    then have cpu: "tf_demo f \<or> (\<exists>L l. tui_loadCPU K (f_cpuBPF (tf_bpf f)) {#} = (L, Inr l))"
      using tui_start_cases [of K f] by (metis Inl_Inr_False surj_pair sumE)
    obtain a where a: "New_app E (override_config f cfg) (tf_demo f) = Inr a" "app_ok E a" "a_cfg a = override_config f cfg"
      using New_app_ok [of E "override_config f cfg" "tf_demo f"] assms(1) by (auto simp: env_laws_def)
    let ?s = "tui_collectors f p buf :: 'h CollectorSet" and ?d = "tf_demo f"
    have "world_ok E (sum_list (map event_nodes evs)) (start_world ?d ?s a)" "tw_demo (start_world ?d ?s a) = ?d"
      using tui_collectors_ready [OF buf assms(4), where f = f and p = p] a(2) by (simp_all add: world_ok_def start_world_def)
    then obtain w where "go_fold (tui_step E V) evs (start_world ?d ?s a) = Inr w" "world_ok E 0 w" "tw_demo w = ?d"
        "length (tw_batches w) = length (filter is_refresh evs)"
      using tui_run_ok [OF assms(1,2), of evs "start_world ?d ?s a"] assms(3) by (auto simp: start_world_def)
    moreover have "tui_launch E K f cfg = Inr (Inr (p, ?s, a))" using buf Inr a(1) by (auto simp: tui_launch_def)
    ultimately show ?thesis unfolding if_P [OF cpu] using a(3)
      by (intro exI [of _ p] exI [of _ ?s] exI [of _ a] exI [of _ w]) (simp add: world_ok_def)
  qed
qed

definition live_flags :: tui_flags where
  "live_flags = \<lparr>tf_interval = 0, tf_bpf = cpu_flags, tf_containersOnly = True, tf_showFiles = True, tf_showTCP = True, tf_showSlowSys = True, tf_topN = 5,
     tf_demo = False, tf_theme = [], tf_richMem = False\<rparr>"

definition sample_session :: "tui_event list" where
  "sample_session = [Input (WindowSizeMsg 120 40), Refresh (\<lambda>_. 0) idle_input, Input (KeyMsg '']''), Input RenderTickMsg, Refresh (\<lambda>_. 0) idle_input]"

theorem tui_end_to_end_witness:
  "\<exists>p s a w. tui_launch plain_env all_kernel live_flags Default_config = Inr (Inr (p, s, a)) \<and>
     go_fold (tui_step plain_env plain_collect) sample_session (start_world False s a) = Inr w \<and> length (tw_batches w) = 2 \<and>
     buffer_list (cs_tsBuffer (tw_colls w)) = tw_batches w"
proof -
  have calm: "list_all (calm_event (tf_demo live_flags)) sample_session"
    by (simp add: sample_session_def live_flags_def idle_input_answered)
  have room: "sum_list (map event_nodes sample_session) < 2 ^ 64 - 1" by (simp add: sample_session_def idle_input_room)
  have two: "length (filter is_refresh sample_session) = 2" "\<not> tf_demo live_flags" by (simp_all add: sample_session_def live_flags_def)
  have cpu: "tf_demo live_flags \<or> (\<exists>L l. tui_loadCPU all_kernel (f_cpuBPF (tf_bpf live_flags)) {#} = (L, Inr l))"
    by (simp add: live_flags_def cpu_flags_def all_kernel_def tui_loaders loadCPU_def load_module_def load_probes_def attachProbes_def cpu_probes_def finish_load_def)
  show ?thesis
    using tui_end_to_end [OF plain_env_laws plain_collect_sorts calm room, of all_kernel Default_config] unfolding if_P [OF cpu] using two by fastforce
qed

end
